(* ===== verification/Prelude.thy ===== *)
theory Prelude
  imports Main
begin

text \<open>
  Prelude of the Percolator development: the outcome of a Rust call, the combinators that
  model the \<open>?\<close> operator, the machine-integer bounds and checked operations of the
  primitive types, the partial-correctness predicate the invariant proofs use, and the generic
  lemmas on lists that the components share.

  \<^item> A fallible pure function returns \<open>('e, 'a) res\<close>: \<open>Ok\<close>, \<open>Err\<close> or \<open>Panic\<close>
    (\<open>assert!\<close>, \<open>expect\<close>, an index out of bounds, and arithmetic overflow, which the release
    profile checks: \<open>overflow-checks = true\<close> in Cargo.toml).
  \<^item> A method on \<open>&mut self\<close> returns an outcome together with the state it leaves behind,
    also when it fails: \<open>('e, 'a) res \<times> 's\<close>.
  \<^item> Integers are \<open>int\<close>; every bound of the Rust type is written out in the checked
    operations below.
\<close>

section \<open>Outcomes\<close>

datatype ('e, 'a) res = Ok 'a | Err 'e | Panic

text \<open>The operator \<open>?\<close> on a pure result, on a stateful call, and on a pure result inside a
  stateful function.\<close>

fun rthen :: "('e, 'a) res \<Rightarrow> ('a \<Rightarrow> ('e, 'b) res) \<Rightarrow> ('e, 'b) res" where
  "rthen (Ok x) k = k x"
| "rthen (Err e) k = Err e"
| "rthen Panic k = Panic"

fun sthen :: "('e, 'a) res \<times> 's \<Rightarrow> ('a \<Rightarrow> 's \<Rightarrow> ('e, 'b) res \<times> 's) \<Rightarrow> ('e, 'b) res \<times> 's"
where
  "sthen (Ok x, s) k = k x s"
| "sthen (Err e, s) k = (Err e, s)"
| "sthen (Panic, s) k = (Panic, s)"

fun sval :: "('e, 'a) res \<Rightarrow> 's \<Rightarrow> ('a \<Rightarrow> ('e, 'b) res \<times> 's) \<Rightarrow> ('e, 'b) res \<times> 's" where
  "sval (Ok x) s k = k x"
| "sval (Err e) s k = (Err e, s)"
| "sval Panic s k = (Panic, s)"

text \<open>\<open>Option::ok_or\<close>, \<open>Option::expect\<close> and \<open>assert!\<close>.\<close>

fun ok_or :: "'e \<Rightarrow> 'a option \<Rightarrow> ('e, 'a) res" where
  "ok_or e (Some x) = Ok x"
| "ok_or e None = Err e"

fun expect :: "'a option \<Rightarrow> ('e, 'a) res" where
  "expect (Some x) = Ok x"
| "expect None = Panic"

definition require :: "bool \<Rightarrow> 'e \<Rightarrow> ('e, unit) res" where
  "require b e = (if b then Ok () else Err e)"

definition assertion :: "bool \<Rightarrow> ('e, unit) res" where
  "assertion b = (if b then Ok () else Panic)"

text \<open>A \<open>for\<close> loop whose body may fail: the state is left as the failing iteration left it.\<close>

primrec sfor :: "'a list \<Rightarrow> ('a \<Rightarrow> 's \<Rightarrow> ('e, unit) res \<times> 's) \<Rightarrow> 's \<Rightarrow> ('e, unit) res \<times> 's" where
  "sfor [] body s = (Ok (), s)"
| "sfor (x # xs) body s = sthen (body x s) (\<lambda>_ s. sfor xs body s)"

section \<open>Partial correctness of a stateful call\<close>

text \<open>
  \<open>okP out P\<close>: if the call returned \<open>Ok\<close> then its value and the state it left satisfy \<open>P\<close>.
  The rules of the collection \<open>wp\<close> are equations that push \<open>okP\<close> through the combinators, so
  that a proof about an operation is a simplification followed by the lemmas of its callees.
\<close>

definition okP :: "('e, 'a) res \<times> 's \<Rightarrow> ('a \<Rightarrow> 's \<Rightarrow> bool) \<Rightarrow> bool" where
  "okP out P = (\<forall>x s. out = (Ok x, s) \<longrightarrow> P x s)"

definition okR :: "('e, 'a) res \<Rightarrow> ('a \<Rightarrow> bool) \<Rightarrow> bool" where
  "okR r P = (\<forall>x. r = Ok x \<longrightarrow> P x)"

named_theorems wp

lemma okP_basic [wp, simp]:
  "okP (Ok x, s) P = P x s"
  "okP (Err e, s) P"
  "okP (Panic, s) P"
  by (simp_all add: okP_def)

lemma okP_sthen [wp]: "okP (sthen m k) P = okP m (\<lambda>x s. okP (k x s) P)"
proof -
  obtain r s where m: "m = (r, s)" by (cases m)
  show ?thesis by (cases r) (simp_all add: m)
qed

lemma okP_sval [wp]: "okP (sval r s k) P = okR r (\<lambda>x. okP (k x) P)"
  by (cases r) (simp_all add: okR_def)

lemma okP_if [wp]: "okP (if b then m else n) P = ((b \<longrightarrow> okP m P) \<and> (\<not> b \<longrightarrow> okP n P))"
  by simp

lemma okR_basic [wp, simp]:
  "okR (Ok x) P = P x"
  "okR (Err e) P"
  "okR Panic P"
  by (simp_all add: okR_def)

lemma okR_rthen [wp]: "okR (rthen r k) P = okR r (\<lambda>x. okR (k x) P)"
  by (cases r) simp_all

lemma okR_if [wp]: "okR (if b then m else n) P = ((b \<longrightarrow> okR m P) \<and> (\<not> b \<longrightarrow> okR n P))"
  by simp

lemma okR_ok_or [wp]: "okR (ok_or e v) P = (\<forall>x. v = Some x \<longrightarrow> P x)"
  by (cases v) simp_all

lemma okR_expect [wp]: "okR (expect v) P = (\<forall>x. v = Some x \<longrightarrow> P x)"
  by (cases v) simp_all

lemma okR_require [wp]: "okR (require b e) P = (b \<longrightarrow> P ())"
  by (simp add: require_def)

lemma okR_assertion [wp]: "okR (assertion b) P = (b \<longrightarrow> P ())"
  by (simp add: assertion_def)

lemma okP_mono: "okP m Q \<Longrightarrow> (\<And>x s. Q x s \<Longrightarrow> P x s) \<Longrightarrow> okP m P"
  by (auto simp: okP_def)

lemma okR_mono: "okR m Q \<Longrightarrow> (\<And>x. Q x \<Longrightarrow> P x) \<Longrightarrow> okR m P"
  by (auto simp: okR_def)

lemma okP_conj: "okP m P \<Longrightarrow> okP m Q \<Longrightarrow> okP m (\<lambda>x s. P x s \<and> Q x s)"
  by (auto simp: okP_def)

lemma okP_trivial [simp]: "okP m (\<lambda>x s. True)"
  by (simp add: okP_def)

lemma okR_trivial [simp]: "okR m (\<lambda>x. True)"
  by (simp add: okR_def)

lemma okP_ret: "m = (Ok x, s) \<Longrightarrow> P x s \<Longrightarrow> okP m P"
  by (simp add: okP_def)

lemma okP_D: "okP (m :: ('e, 'a) res \<times> 's) P \<Longrightarrow> m = (Ok x, s) \<Longrightarrow> P x s"
  by (simp add: okP_def)

lemma okR_D: "okR r P \<Longrightarrow> r = Ok x \<Longrightarrow> P x"
  by (simp add: okR_def)

lemma okP_I: "(\<And>x s. m = (Ok x, s) \<Longrightarrow> P x s) \<Longrightarrow> okP m P"
  by (simp add: okP_def)

lemma okR_I: "(\<And>x. r = Ok x \<Longrightarrow> P x) \<Longrightarrow> okR r P"
  by (simp add: okR_def)

lemma okP_sfor:
  assumes "I s"
    and "\<And>x s. x \<in> set xs \<Longrightarrow> I s \<Longrightarrow> okP (body x s) (\<lambda>_ s'. I s')"
  shows "okP (sfor xs body s) (\<lambda>_ s'. I s')"
  using assms
proof (induction xs arbitrary: s)
  case Nil
  then show ?case by simp
next
  case (Cons y ys)
  have "okP (body y s) (\<lambda>_ s'. I s')"
    using Cons.prems by simp
  then show ?case
    using Cons.IH Cons.prems(2) by (simp add: okP_sthen) (auto elim!: okP_mono)
qed

text \<open>Inversion of a successful call, for the properties stated on an \<open>Ok\<close> result.\<close>

lemma sthen_Ok_iff: "sthen m k = (Ok y, t) \<longleftrightarrow> (\<exists>x s. m = (Ok x, s) \<and> k x s = (Ok y, t))"
proof -
  obtain r s where m: "m = (r, s)" by (cases m)
  show ?thesis by (cases r) (auto simp: m)
qed

lemma sval_Ok_iff: "sval r s k = (Ok y, t) \<longleftrightarrow> (\<exists>x. r = Ok x \<and> k x = (Ok y, t))"
  by (cases r) auto

lemma rthen_Ok_iff: "rthen r k = Ok y \<longleftrightarrow> (\<exists>x. r = Ok x \<and> k x = Ok y)"
  by (cases r) auto

lemma ok_or_Ok_iff: "ok_or e v = Ok x \<longleftrightarrow> v = Some x"
  by (cases v) auto

lemma expect_Ok_iff: "expect v = Ok x \<longleftrightarrow> v = Some x"
  by (cases v) auto

lemma require_Ok_iff: "require b e = Ok u \<longleftrightarrow> b"
  by (simp add: require_def)

lemma assertion_Ok_iff: "assertion b = Ok u \<longleftrightarrow> b"
  by (simp add: assertion_def)

lemmas Ok_iffs = sthen_Ok_iff sval_Ok_iff rthen_Ok_iff ok_or_Ok_iff expect_Ok_iff
  require_Ok_iff assertion_Ok_iff

section \<open>Machine integers\<close>

named_theorems bounds

definition U8_MAX :: int where "U8_MAX = 255"
definition U16_MAX :: int where "U16_MAX = 65535"
definition U64_MAX :: int where "U64_MAX = 18446744073709551615"
definition U128_MAX :: int where "U128_MAX = 340282366920938463463374607431768211455"
definition I128_MAX :: int where "I128_MAX = 170141183460469231731687303715884105727"
definition I128_MIN :: int where "I128_MIN = - 170141183460469231731687303715884105728"

declare U8_MAX_def [bounds] U16_MAX_def [bounds] U64_MAX_def [bounds] U128_MAX_def [bounds]
  I128_MAX_def [bounds] I128_MIN_def [bounds]

lemma bound_powers:
  "U64_MAX = 2 ^ 64 - 1" "U128_MAX = 2 ^ 128 - 1" "I128_MAX = 2 ^ 127 - 1" "I128_MIN = - (2 ^ 127)"
  by (simp_all add: bounds)

definition in_u64 :: "int \<Rightarrow> bool" where "in_u64 x = (0 \<le> x \<and> x \<le> U64_MAX)"
definition in_u128 :: "int \<Rightarrow> bool" where "in_u128 x = (0 \<le> x \<and> x \<le> U128_MAX)"
definition in_i128 :: "int \<Rightarrow> bool" where "in_i128 x = (I128_MIN \<le> x \<and> x \<le> I128_MAX)"

text \<open>The value of a checked operation: \<open>None\<close> when the mathematical result does not fit.\<close>

definition fit_u64 :: "int \<Rightarrow> int option" where "fit_u64 x = (if in_u64 x then Some x else None)"
definition fit_u128 :: "int \<Rightarrow> int option" where "fit_u128 x = (if in_u128 x then Some x else None)"
definition fit_i128 :: "int \<Rightarrow> int option" where "fit_i128 x = (if in_i128 x then Some x else None)"

lemma fit_Some [simp]:
  "fit_u64 x = Some y \<longleftrightarrow> in_u64 x \<and> y = x"
  "fit_u128 x = Some y \<longleftrightarrow> in_u128 x \<and> y = x"
  "fit_i128 x = Some y \<longleftrightarrow> in_i128 x \<and> y = x"
  by (auto simp: fit_u64_def fit_u128_def fit_i128_def)

lemma fit_None [simp]:
  "fit_u64 x = None \<longleftrightarrow> \<not> in_u64 x"
  "fit_u128 x = None \<longleftrightarrow> \<not> in_u128 x"
  "fit_i128 x = None \<longleftrightarrow> \<not> in_i128 x"
  by (auto simp: fit_u64_def fit_u128_def fit_i128_def)

definition sat_u64 :: "int \<Rightarrow> int" where "sat_u64 x = max 0 (min U64_MAX x)"
definition sat_u128 :: "int \<Rightarrow> int" where "sat_u128 x = max 0 (min U128_MAX x)"

lemma sat_sub_u128 [simp]: "in_u128 a \<Longrightarrow> 0 \<le> b \<Longrightarrow> sat_u128 (a - b) = max 0 (a - b)"
  by (auto simp: sat_u128_def in_u128_def)

text \<open>\<open>/\<close> and \<open>%\<close> of signed integers truncate towards zero.\<close>

definition tdiv :: "int \<Rightarrow> int \<Rightarrow> int" where
  "tdiv a b = (if (a < 0) = (b < 0) then \<bar>a\<bar> div \<bar>b\<bar> else - (\<bar>a\<bar> div \<bar>b\<bar>))"

definition tmod :: "int \<Rightarrow> int \<Rightarrow> int" where
  "tmod a b = a - b * tdiv a b"

section \<open>Lists of accounts: sums and counts under a point update\<close>

definition tot :: "('a \<Rightarrow> int) \<Rightarrow> 'a list \<Rightarrow> int" where
  "tot f xs = sum_list (map f xs)"

lemma tot_simps [simp]: "tot f [] = 0" "tot f (x # xs) = f x + tot f xs"
  by (simp_all add: tot_def)

lemma tot_append [simp]: "tot f (xs @ ys) = tot f xs + tot f ys"
  by (simp add: tot_def)

lemma tot_update:
  assumes "i < length xs"
  shows "tot f (xs[i := y]) = tot f xs - f (xs ! i) + f y"
  using assms
proof (induction xs arbitrary: i)
  case Nil
  then show ?case by simp
next
  case (Cons x xs)
  then show ?case by (cases i) simp_all
qed

lemma tot_update_same:
  assumes "i < length xs" "f y = f (xs ! i)"
  shows "tot f (xs[i := y]) = tot f xs"
  using assms by (simp add: tot_update)

lemma tot_nonneg: "(\<And>x. x \<in> set xs \<Longrightarrow> 0 \<le> f x) \<Longrightarrow> 0 \<le> tot f xs"
  by (induction xs) auto

lemma tot_member_le:
  assumes "i < length xs" "\<And>x. x \<in> set xs \<Longrightarrow> 0 \<le> f x"
  shows "f (xs ! i) \<le> tot f xs"
  using assms
proof (induction xs arbitrary: i)
  case Nil
  then show ?case by simp
next
  case (Cons x xs)
  have "0 \<le> f x" "0 \<le> tot f xs"
    using Cons.prems(2) by (auto intro: tot_nonneg)
  then show ?case
    using Cons by (cases i) (auto, smt (verit) nth_mem)
qed

lemma tot_mono: "(\<And>x. x \<in> set xs \<Longrightarrow> f x \<le> g x) \<Longrightarrow> tot f xs \<le> tot g xs"
  by (induction xs) (auto simp: add_mono)

lemma tot_cong: "(\<And>x. x \<in> set xs \<Longrightarrow> f x = g x) \<Longrightarrow> tot f xs = tot g xs"
  by (induction xs) auto

lemma tot_replicate [simp]: "tot f (replicate n x) = int n * f x"
  by (induction n) (auto simp: algebra_simps)

lemma tot_zero_member:
  assumes "tot f xs = 0" "\<And>x. x \<in> set xs \<Longrightarrow> 0 \<le> f x" "x \<in> set xs"
  shows "f x = 0"
proof -
  obtain i where i: "i < length xs" "xs ! i = x"
    using assms(3) by (auto simp: in_set_conv_nth)
  then have "f x \<le> 0"
    using tot_member_le[of i xs f] assms(1,2) by simp
  then show ?thesis
    using assms(2,3) by force
qed

end
