(* ===== verification/Types.thy ===== *)
theory Types
  imports Prelude "HOL-Library.Word"
begin

text \<open>
  The data model of \<open>src/src/percolator.rs\<close>: the constants, the enumerations, the records
  \<open>Account\<close>, \<open>RiskParams\<close>, \<open>InstructionContext\<close> and \<open>RiskEngine\<close>, and the small helpers.

  Integers of the Rust types \<open>u64\<close>, \<open>u128\<close>, \<open>i128\<close> (and the wrappers \<open>U128\<close>, \<open>I128\<close>) are \<open>int\<close>;
  account indices and links of the free list (\<open>u16\<close>) are \<open>nat\<close>; the occupancy bitmap is a list
  of \<open>64 word\<close>; 32-byte keys are lists of \<open>8 word\<close>.  The compile-time \<open>MAX_ACCOUNTS\<close> is the
  length of the account array.
\<close>

section \<open>Constants\<close>

definition GC_CLOSE_BUDGET :: nat where "GC_CLOSE_BUDGET = 32"
definition ACCOUNTS_PER_CRANK :: nat where "ACCOUNTS_PER_CRANK = 128"
definition LIQ_BUDGET_PER_CRANK :: nat where "LIQ_BUDGET_PER_CRANK = 64"
definition POS_SCALE :: int where "POS_SCALE = 1000000"
definition ADL_ONE :: int where "ADL_ONE = 1000000000000000"
definition MIN_A_SIDE :: int where "MIN_A_SIDE = 100000000000000"
definition MAX_ORACLE_PRICE :: int where "MAX_ORACLE_PRICE = 1000000000000"
definition FUNDING_DEN :: int where "FUNDING_DEN = 1000000000"
definition MAX_ABS_FUNDING_E9_PER_SLOT :: int where "MAX_ABS_FUNDING_E9_PER_SLOT = 1000000000"
definition MAX_VAULT_TVL :: int where "MAX_VAULT_TVL = 10000000000000000"
definition MAX_POSITION_ABS_Q :: int where "MAX_POSITION_ABS_Q = 100000000000000"
definition MAX_ACCOUNT_NOTIONAL :: int where "MAX_ACCOUNT_NOTIONAL = 100000000000000000000"
definition MAX_TRADE_SIZE_Q :: int where "MAX_TRADE_SIZE_Q = MAX_POSITION_ABS_Q"
definition MAX_OI_SIDE_Q :: int where "MAX_OI_SIDE_Q = 100000000000000"
definition MAX_MATERIALIZED_ACCOUNTS :: int where "MAX_MATERIALIZED_ACCOUNTS = 1000000"
definition MAX_ACCOUNT_POSITIVE_PNL :: int where
  "MAX_ACCOUNT_POSITIVE_PNL = 100000000000000000000000000000000"
definition MAX_PNL_POS_TOT :: int where
  "MAX_PNL_POS_TOT = 100000000000000000000000000000000000000"
definition MAX_PROTOCOL_FEE_ABS :: int where
  "MAX_PROTOCOL_FEE_ABS = 1000000000000000000000000000000000000"
definition MAX_RESOLVE_PRICE_DEVIATION_BPS :: int where "MAX_RESOLVE_PRICE_DEVIATION_BPS = 10000"
definition MAX_TOUCHED_PER_INSTRUCTION :: nat where "MAX_TOUCHED_PER_INSTRUCTION = 64"

declare GC_CLOSE_BUDGET_def [bounds] ACCOUNTS_PER_CRANK_def [bounds]
  LIQ_BUDGET_PER_CRANK_def [bounds] POS_SCALE_def [bounds] ADL_ONE_def [bounds]
  MIN_A_SIDE_def [bounds] MAX_ORACLE_PRICE_def [bounds] FUNDING_DEN_def [bounds]
  MAX_ABS_FUNDING_E9_PER_SLOT_def [bounds] MAX_VAULT_TVL_def [bounds]
  MAX_POSITION_ABS_Q_def [bounds] MAX_ACCOUNT_NOTIONAL_def [bounds] MAX_TRADE_SIZE_Q_def [bounds]
  MAX_OI_SIDE_Q_def [bounds] MAX_MATERIALIZED_ACCOUNTS_def [bounds]
  MAX_ACCOUNT_POSITIVE_PNL_def [bounds] MAX_PNL_POS_TOT_def [bounds]
  MAX_PROTOCOL_FEE_ABS_def [bounds] MAX_RESOLVE_PRICE_DEVIATION_BPS_def [bounds]
  MAX_TOUCHED_PER_INSTRUCTION_def [bounds]

text \<open>\<open>u16::MAX\<close>, the terminator of the free list.\<close>

definition NIL :: nat where "NIL = 65535"

section \<open>Enumerations\<close>

datatype market_mode = Live | Resolved
datatype resolve_mode = Ordinary | Degenerate
datatype reserve_mode =
  UseAdmissionPair int int
| ImmediateReleaseResolvedOnly
| NoPositiveIncreaseAllowed
datatype side_mode = Normal | DrainOnly | ResetPending
datatype side = Long | Short

datatype risk_error =
  InsufficientBalance | Undercollateralized | Unauthorized | PnlNotWarmedUp
| Overflow | AccountNotFound | SideBlocked | CorruptState

datatype resolved_close_result = ProgressOnly | Closed int
datatype liquidation_policy = FullClose | ExactPartial int

record crank_outcome =
  advanced :: bool
  num_liquidations :: nat
  num_gc_closed :: nat

section \<open>Records\<close>

record instruction_context =
  pending_reset_long :: bool
  pending_reset_short :: bool
  admit_h_min_shared :: int
  admit_h_max_shared :: int
  touched_accounts :: "nat list"
  touched_count :: nat
  h_max_sticky_accounts :: "nat list"
  h_max_sticky_count :: nat

record account =
  capital :: int
  kind :: int
  pnl :: int
  reserved_pnl :: int
  position_basis_q :: int
  adl_a_basis :: int
  adl_k_snap :: int
  f_snap :: int
  adl_epoch_snap :: int
  matcher_program :: "8 word list"
  matcher_context :: "8 word list"
  owner :: "8 word list"
  fee_credits :: int
  last_fee_slot :: int
  sched_present :: int
  sched_remaining_q :: int
  sched_anchor_q :: int
  sched_start_slot :: int
  sched_horizon :: int
  sched_release_q :: int
  pending_present :: int
  pending_remaining_q :: int
  pending_horizon :: int
  pending_created_slot :: int

record insurance_fund_rec =
  balance :: int

record risk_params =
  maintenance_margin_bps :: int
  initial_margin_bps :: int
  trading_fee_bps :: int
  max_accounts :: int
  max_crank_staleness_slots :: int
  liquidation_fee_bps :: int
  liquidation_fee_cap :: int
  min_liquidation_abs :: int
  min_initial_deposit :: int
  min_nonzero_mm_req :: int
  min_nonzero_im_req :: int
  insurance_floor :: int
  h_min :: int
  h_max :: int
  resolve_price_deviation_bps :: int
  max_accrual_dt_slots :: int
  max_abs_funding_e9_per_slot :: int
  min_funding_lifetime_slots :: int
  max_active_positions_per_side :: int

record engine =
  vault :: int
  insurance_fund :: insurance_fund_rec
  params :: risk_params
  current_slot :: int
  market_mode :: market_mode
  resolved_price :: int
  resolved_slot :: int
  resolved_payout_h_num :: int
  resolved_payout_h_den :: int
  resolved_payout_ready :: int
  resolved_k_long_terminal_delta :: int
  resolved_k_short_terminal_delta :: int
  resolved_live_price :: int
  last_crank_slot :: int
  c_tot :: int
  pnl_pos_tot :: int
  pnl_matured_pos_tot :: int
  gc_cursor :: nat
  adl_mult_long :: int
  adl_mult_short :: int
  adl_coeff_long :: int
  adl_coeff_short :: int
  adl_epoch_long :: int
  adl_epoch_short :: int
  adl_epoch_start_k_long :: int
  adl_epoch_start_k_short :: int
  oi_eff_long_q :: int
  oi_eff_short_q :: int
  side_mode_long :: side_mode
  side_mode_short :: side_mode
  stored_pos_count_long :: int
  stored_pos_count_short :: int
  stale_account_count_long :: int
  stale_account_count_short :: int
  phantom_dust_bound_long_q :: int
  phantom_dust_bound_short_q :: int
  materialized_account_count :: int
  neg_pnl_account_count :: int
  last_oracle_price :: int
  fund_px_last :: int
  last_market_slot :: int
  f_long_num :: int
  f_short_num :: int
  f_epoch_start_long_num :: int
  f_epoch_start_short_num :: int
  used :: "64 word list"
  num_used_accounts :: nat
  free_head :: nat
  next_free :: "nat list"
  prev_free :: "nat list"
  accounts :: "account list"

abbreviation MAX_ACCOUNTS :: "engine \<Rightarrow> nat" where
  "MAX_ACCOUNTS e \<equiv> length (accounts e)"

type_synonym 'a outcome = "(risk_error, 'a) res"
type_synonym 'a step = "(risk_error, 'a) res \<times> engine"

definition ZERO32 :: "8 word list" where "ZERO32 = replicate 32 0"

definition empty_account :: account where
  "empty_account = \<lparr>
     capital = 0, kind = 0, pnl = 0, reserved_pnl = 0, position_basis_q = 0,
     adl_a_basis = ADL_ONE, adl_k_snap = 0, f_snap = 0, adl_epoch_snap = 0,
     matcher_program = ZERO32, matcher_context = ZERO32, owner = ZERO32,
     fee_credits = 0, last_fee_slot = 0,
     sched_present = 0, sched_remaining_q = 0, sched_anchor_q = 0, sched_start_slot = 0,
     sched_horizon = 0, sched_release_q = 0,
     pending_present = 0, pending_remaining_q = 0, pending_horizon = 0,
     pending_created_slot = 0 \<rparr>"

definition KIND_USER :: int where "KIND_USER = 0"
definition KIND_LP :: int where "KIND_LP = 1"

definition is_lp :: "account \<Rightarrow> bool" where "is_lp a = (kind a = KIND_LP)"
definition is_user :: "account \<Rightarrow> bool" where "is_user a = (kind a = KIND_USER)"

section \<open>Small helpers\<close>

text \<open>\<open>checked_add(b).expect(..)\<close> and \<open>checked_sub(b).expect(..)\<close>.\<close>

definition add_u128 :: "int \<Rightarrow> int \<Rightarrow> ('e, int) res" where
  "add_u128 a b = expect (fit_u128 (a + b))"

definition sub_u128 :: "int \<Rightarrow> int \<Rightarrow> ('e, int) res" where
  "sub_u128 a b = expect (fit_u128 (a - b))"

definition side_of_i128 :: "int \<Rightarrow> side option" where
  "side_of_i128 v = (if v = 0 then None else if v > 0 then Some Long else Some Short)"

fun opposite_side :: "side \<Rightarrow> side" where
  "opposite_side Long = Short"
| "opposite_side Short = Long"

definition i128_clamp_pos :: "int \<Rightarrow> int" where
  "i128_clamp_pos v = (if v > 0 then v else 0)"

lemma i128_clamp_pos_max: "i128_clamp_pos v = max 0 v"
  by (simp add: i128_clamp_pos_def)

fun expect_closed :: "resolved_close_result \<Rightarrow> ('e, int) res" where
  "expect_closed (Closed cap) = Ok cap"
| "expect_closed ProgressOnly = Panic"

fun is_progress_only :: "resolved_close_result \<Rightarrow> bool" where
  "is_progress_only ProgressOnly = True"
| "is_progress_only (Closed c) = False"

section \<open>Instruction context\<close>

definition ctx_new :: instruction_context where
  "ctx_new = \<lparr> pending_reset_long = False, pending_reset_short = False,
     admit_h_min_shared = 0, admit_h_max_shared = 0,
     touched_accounts = replicate MAX_TOUCHED_PER_INSTRUCTION 0, touched_count = 0,
     h_max_sticky_accounts = replicate MAX_TOUCHED_PER_INSTRUCTION 0, h_max_sticky_count = 0 \<rparr>"

definition new_with_admission :: "int \<Rightarrow> int \<Rightarrow> instruction_context" where
  "new_with_admission admit_h_min admit_h_max = \<lparr>
     pending_reset_long = False, pending_reset_short = False,
     admit_h_min_shared = admit_h_min, admit_h_max_shared = admit_h_max,
     touched_accounts = replicate MAX_TOUCHED_PER_INSTRUCTION 0, touched_count = 0,
     h_max_sticky_accounts = replicate MAX_TOUCHED_PER_INSTRUCTION 0, h_max_sticky_count = 0 \<rparr>"

text \<open>The linear search of the first \<open>count\<close> cells, as the loop with its early return.\<close>

definition is_h_max_sticky :: "instruction_context \<Rightarrow> nat \<Rightarrow> bool" where
  "is_h_max_sticky ctx idx =
     list_ex (\<lambda>i. h_max_sticky_accounts ctx ! i = idx) [0..<h_max_sticky_count ctx]"

definition mark_h_max_sticky :: "nat \<Rightarrow> instruction_context \<Rightarrow> bool \<times> instruction_context" where
  "mark_h_max_sticky idx ctx =
     (if is_h_max_sticky ctx idx then (True, ctx)
      else
        let count = h_max_sticky_count ctx in
        if count < MAX_TOUCHED_PER_INSTRUCTION
        then (True, ctx\<lparr> h_max_sticky_accounts := (h_max_sticky_accounts ctx)[count := idx],
                          h_max_sticky_count := h_max_sticky_count ctx + 1 \<rparr>)
        else (False, ctx))"

definition add_touched :: "nat \<Rightarrow> instruction_context \<Rightarrow> bool \<times> instruction_context" where
  "add_touched idx ctx =
     (let count = touched_count ctx in
      if list_ex (\<lambda>i. touched_accounts ctx ! i = idx) [0..<count] then (True, ctx)
      else if count < MAX_TOUCHED_PER_INSTRUCTION
      then (True, ctx\<lparr> touched_accounts := (touched_accounts ctx)[count := idx],
                        touched_count := touched_count ctx + 1 \<rparr>)
      else (False, ctx))"

text \<open>The set a context has touched, without repetition, within its fixed capacity.\<close>

definition touched :: "instruction_context \<Rightarrow> nat list" where
  "touched ctx = take (touched_count ctx) (touched_accounts ctx)"

definition sticky :: "instruction_context \<Rightarrow> nat list" where
  "sticky ctx = take (h_max_sticky_count ctx) (h_max_sticky_accounts ctx)"

definition ctx_ok :: "instruction_context \<Rightarrow> bool" where
  "ctx_ok ctx =
     (length (touched_accounts ctx) = MAX_TOUCHED_PER_INSTRUCTION
      \<and> length (h_max_sticky_accounts ctx) = MAX_TOUCHED_PER_INSTRUCTION
      \<and> touched_count ctx \<le> MAX_TOUCHED_PER_INSTRUCTION
      \<and> h_max_sticky_count ctx \<le> MAX_TOUCHED_PER_INSTRUCTION
      \<and> distinct (touched ctx) \<and> distinct (sticky ctx))"

lemma search_prefix:
  assumes "n \<le> length xs"
  shows "list_ex (\<lambda>i. xs ! i = x) [0..<n] \<longleftrightarrow> x \<in> set (take n xs)"
proof -
  have "set (take n xs) = (!) xs ` {0..<n}"
    using assms by (simp add: nth_image)
  then show ?thesis by (auto simp: list_ex_iff)
qed

lemma take_snoc_update:
  assumes "n < length xs"
  shows "take (Suc n) (xs[n := x]) = take n xs @ [x]"
  using assms by (simp add: take_Suc_conv_app_nth)

lemma is_h_max_sticky_iff: "ctx_ok ctx \<Longrightarrow> is_h_max_sticky ctx i \<longleftrightarrow> i \<in> set (sticky ctx)"
  by (simp add: is_h_max_sticky_def sticky_def ctx_ok_def search_prefix)

lemma add_touched_spec:
  assumes ok: "ctx_ok ctx" and r: "add_touched i ctx = (b, ctx')"
  shows "ctx_ok ctx'" "sticky ctx' = sticky ctx"
    "b \<Longrightarrow> set (touched ctx') = insert i (set (touched ctx))" "\<not> b \<Longrightarrow> ctx' = ctx"
    "admit_h_min_shared ctx' = admit_h_min_shared ctx"
    "admit_h_max_shared ctx' = admit_h_max_shared ctx"
    "pending_reset_long ctx' = pending_reset_long ctx"
    "pending_reset_short ctx' = pending_reset_short ctx"
  using ok r
  by (auto simp: add_touched_def ctx_ok_def touched_def sticky_def Let_def search_prefix
        take_snoc_update split: if_splits)

lemma mark_sticky_spec:
  assumes ok: "ctx_ok ctx" and r: "mark_h_max_sticky i ctx = (b, ctx')"
  shows "ctx_ok ctx'" "touched ctx' = touched ctx"
    "b \<Longrightarrow> set (sticky ctx') = insert i (set (sticky ctx))" "\<not> b \<Longrightarrow> ctx' = ctx"
    "admit_h_min_shared ctx' = admit_h_min_shared ctx"
    "admit_h_max_shared ctx' = admit_h_max_shared ctx"
    "pending_reset_long ctx' = pending_reset_long ctx"
    "pending_reset_short ctx' = pending_reset_short ctx"
  using ok r is_h_max_sticky_iff[OF ok, of i]
  by (auto simp: mark_h_max_sticky_def ctx_ok_def touched_def sticky_def Let_def
        take_snoc_update split: if_splits)

lemma ctx_ok_new [simp]: "ctx_ok (new_with_admission lo hi)" "ctx_ok ctx_new"
  by (simp_all add: new_with_admission_def ctx_new_def ctx_ok_def touched_def sticky_def)

section \<open>Reading and writing one account\<close>

text \<open>
  \<open>self.accounts[idx]\<close> panics out of bounds; \<open>upd i f\<close> is an assignment to fields of
  \<open>self.accounts[i]\<close>, used after the index has been read in the same function.
\<close>

definition sacct :: "engine \<Rightarrow> nat \<Rightarrow> (account \<Rightarrow> 'a step) \<Rightarrow> 'a step" where
  "sacct e i k = (if i < length (accounts e) then k (accounts e ! i) else (Panic, e))"

definition acct :: "engine \<Rightarrow> nat \<Rightarrow> (account \<Rightarrow> 'a outcome) \<Rightarrow> 'a outcome" where
  "acct e i k = (if i < length (accounts e) then k (accounts e ! i) else Panic)"

definition upd :: "nat \<Rightarrow> (account \<Rightarrow> account) \<Rightarrow> engine \<Rightarrow> engine" where
  "upd i f e = e\<lparr> accounts := (accounts e)[i := f (accounts e ! i)] \<rparr>"

lemma okP_sacct [wp]:
  "okP (sacct e i k) P = (i < length (accounts e) \<longrightarrow> okP (k (accounts e ! i)) P)"
  by (simp add: sacct_def)

lemma sacct_Ok_iff:
  "sacct e i k = (Ok y, t) \<longleftrightarrow> i < length (accounts e) \<and> k (accounts e ! i) = (Ok y, t)"
  by (auto simp: sacct_def)

lemma upd_simps [simp]:
  "length (accounts (upd i f e)) = length (accounts e)"
  "i < length (accounts e) \<Longrightarrow> accounts (upd i f e) ! i = f (accounts e ! i)"
  "j \<noteq> i \<Longrightarrow> accounts (upd i f e) ! j = accounts e ! j"
  by (simp_all add: upd_def)


lemma upd_frame [simp]:
  "vault (upd i f e) = vault e" "insurance_fund (upd i f e) = insurance_fund e"
  "params (upd i f e) = params e" "current_slot (upd i f e) = current_slot e"
  "market_mode (upd i f e) = market_mode e" "resolved_price (upd i f e) = resolved_price e"
  "resolved_slot (upd i f e) = resolved_slot e"
  "resolved_payout_h_num (upd i f e) = resolved_payout_h_num e"
  "resolved_payout_h_den (upd i f e) = resolved_payout_h_den e"
  "resolved_payout_ready (upd i f e) = resolved_payout_ready e"
  "resolved_k_long_terminal_delta (upd i f e) = resolved_k_long_terminal_delta e"
  "resolved_k_short_terminal_delta (upd i f e) = resolved_k_short_terminal_delta e"
  "resolved_live_price (upd i f e) = resolved_live_price e"
  "last_crank_slot (upd i f e) = last_crank_slot e" "c_tot (upd i f e) = c_tot e"
  "pnl_pos_tot (upd i f e) = pnl_pos_tot e"
  "pnl_matured_pos_tot (upd i f e) = pnl_matured_pos_tot e" "gc_cursor (upd i f e) = gc_cursor e"
  "adl_mult_long (upd i f e) = adl_mult_long e" "adl_mult_short (upd i f e) = adl_mult_short e"
  "adl_coeff_long (upd i f e) = adl_coeff_long e" "adl_coeff_short (upd i f e) = adl_coeff_short e"
  "adl_epoch_long (upd i f e) = adl_epoch_long e" "adl_epoch_short (upd i f e) = adl_epoch_short e"
  "adl_epoch_start_k_long (upd i f e) = adl_epoch_start_k_long e"
  "adl_epoch_start_k_short (upd i f e) = adl_epoch_start_k_short e"
  "oi_eff_long_q (upd i f e) = oi_eff_long_q e" "oi_eff_short_q (upd i f e) = oi_eff_short_q e"
  "side_mode_long (upd i f e) = side_mode_long e" "side_mode_short (upd i f e) = side_mode_short e"
  "stored_pos_count_long (upd i f e) = stored_pos_count_long e"
  "stored_pos_count_short (upd i f e) = stored_pos_count_short e"
  "stale_account_count_long (upd i f e) = stale_account_count_long e"
  "stale_account_count_short (upd i f e) = stale_account_count_short e"
  "phantom_dust_bound_long_q (upd i f e) = phantom_dust_bound_long_q e"
  "phantom_dust_bound_short_q (upd i f e) = phantom_dust_bound_short_q e"
  "materialized_account_count (upd i f e) = materialized_account_count e"
  "neg_pnl_account_count (upd i f e) = neg_pnl_account_count e"
  "last_oracle_price (upd i f e) = last_oracle_price e" "fund_px_last (upd i f e) = fund_px_last e"
  "last_market_slot (upd i f e) = last_market_slot e" "f_long_num (upd i f e) = f_long_num e"
  "f_short_num (upd i f e) = f_short_num e"
  "f_epoch_start_long_num (upd i f e) = f_epoch_start_long_num e"
  "f_epoch_start_short_num (upd i f e) = f_epoch_start_short_num e" "used (upd i f e) = used e"
  "num_used_accounts (upd i f e) = num_used_accounts e" "free_head (upd i f e) = free_head e"
  "next_free (upd i f e) = next_free e" "prev_free (upd i f e) = prev_free e"
  by (simp_all add: upd_def)

text \<open>A call that works on one account only: its account-level result is written back.\<close>

definition on_acct :: "nat \<Rightarrow> (account \<Rightarrow> 'a outcome \<times> account) \<Rightarrow> engine \<Rightarrow> 'a step" where
  "on_acct i f e =
     sacct e i (\<lambda>a. (fst (f a), e\<lparr> accounts := (accounts e)[i := snd (f a)] \<rparr>))"

lemma okP_on_acct [wp]:
  "okP (on_acct i f e) P =
     (i < length (accounts e)
        \<longrightarrow> okP (f (accounts e ! i)) (\<lambda>x a. P x (e\<lparr> accounts := (accounts e)[i := a] \<rparr>)))"
  by (cases "f (accounts e ! i)") (auto simp: on_acct_def okP_def sacct_def)

lemma on_acct_Ok_iff:
  "on_acct i f e = (Ok x, e') \<longleftrightarrow>
     i < length (accounts e)
     \<and> (\<exists>a. f (accounts e ! i) = (Ok x, a) \<and> e' = e\<lparr> accounts := (accounts e)[i := a] \<rparr>)"
  by (cases "f (accounts e ! i)") (auto simp: on_acct_def sacct_def)

text \<open>Branching on a call that only reads the state.\<close>

lemma fst_snd_out: "(fst m = r \<and> snd m = s) = (m = (r, s))"
  by (cases m) auto

end
