(* ===== verification/WideSpec.thy ===== *)
theory WideSpec
  imports Types
begin

text \<open>
  The arithmetic helpers of \<open>src/src/wide_math.rs\<close> as the engine sees them: 256-bit values are
  the integers they denote, and each helper is translated with its assertions and its failing
  branches.  \<open>WideMath\<close> models the limbs and carries underneath and proves that the limb-level
  operations refine the integer operations used here.
\<close>

section \<open>256-bit integers by value\<close>

definition U256_MAX :: int where
  "U256_MAX = 115792089237316195423570985008687907853269984665640564039457584007913129639935"
definition I256_MAX :: int where
  "I256_MAX = 57896044618658097711785492504343953926634992332820282019728792003956564819967"
definition I256_MIN :: int where
  "I256_MIN = - 57896044618658097711785492504343953926634992332820282019728792003956564819968"

declare U256_MAX_def [bounds] I256_MAX_def [bounds] I256_MIN_def [bounds]

lemma wide_bound_powers:
  "U256_MAX = 2 ^ 256 - 1" "I256_MAX = 2 ^ 255 - 1" "I256_MIN = - (2 ^ 255)"
  by (simp_all add: bounds)

definition in_u256 :: "int \<Rightarrow> bool" where "in_u256 x = (0 \<le> x \<and> x \<le> U256_MAX)"
definition in_i256 :: "int \<Rightarrow> bool" where "in_i256 x = (I256_MIN \<le> x \<and> x \<le> I256_MAX)"

definition fit_u256 :: "int \<Rightarrow> int option" where "fit_u256 x = (if in_u256 x then Some x else None)"
definition fit_i256 :: "int \<Rightarrow> int option" where "fit_i256 x = (if in_i256 x then Some x else None)"

lemma fit_wide_Some [simp]:
  "fit_u256 x = Some y \<longleftrightarrow> in_u256 x \<and> y = x"
  "fit_i256 x = Some y \<longleftrightarrow> in_i256 x \<and> y = x"
  by (auto simp: fit_u256_def fit_i256_def)

text \<open>
  The signed product.  Its overflow test compares the magnitude with \<open>2 ^ 127\<close>, which the code
  builds with \<open>U256::from_u128(1u128 << 127)\<close> where the comment names \<open>2 ^ 255\<close>.
\<close>

definition i256_mul :: "int \<Rightarrow> int \<Rightarrow> int option" where
  "i256_mul a b =
     (if a = 0 \<or> b = 0 then Some 0
      else if a = I256_MIN then (if b = 1 then Some I256_MIN else None)
      else if b = I256_MIN then (if a = 1 then Some I256_MIN else None)
      else
        case fit_u256 (\<bar>a\<bar> * \<bar>b\<bar>) of None \<Rightarrow> None
        | Some product \<Rightarrow>
            if (a < 0) \<noteq> (b < 0) then
              if product = 2 ^ 127 then Some I256_MIN
              else if product > 2 ^ 127 then None
              else Some (- product)
            else (if product \<le> I256_MAX then Some product else None))"

lemma i256_mul_small:
  assumes "\<bar>a * b\<bar> < 2 ^ 127" "in_i128 a \<or> in_i128 b"
  shows "i256_mul a b = Some (a * b)"
proof (cases "a = 0 \<or> b = 0")
  case True
  then show ?thesis by (auto simp: i256_mul_def)
next
  case False
  have m: "\<bar>a\<bar> * \<bar>b\<bar> = \<bar>a * b\<bar>" by (simp add: abs_mult)
  have a: "\<bar>a\<bar> \<le> \<bar>a * b\<bar>" and b: "\<bar>b\<bar> \<le> \<bar>a * b\<bar>"
    using False by (auto simp: abs_mult mult_le_cancel_left1 mult_le_cancel_right1)
  have "a \<noteq> I256_MIN" "b \<noteq> I256_MIN"
    using a b assms(1) by (auto simp: bounds)
  moreover have "in_u256 (\<bar>a\<bar> * \<bar>b\<bar>)"
    using assms(1) by (auto simp: m in_u256_def bounds)
  moreover have "a * b = (if (a < 0) \<noteq> (b < 0) then - \<bar>a * b\<bar> else \<bar>a * b\<bar>)"
    using False by (auto simp: abs_if mult_less_0_iff)
  ultimately show ?thesis
    using False assms(1) by (auto simp: i256_mul_def fit_u256_def m bounds)
qed

text \<open>A negative product of magnitude above the bound fails although it is representable.\<close>

lemma i256_mul_neg_wide:
  assumes "a < 0" "0 < b" "2 ^ 127 < - (a * b)" "I256_MIN \<noteq> a"
  shows "i256_mul a b = None"
  using assms
  by (auto simp: i256_mul_def bounds abs_if split: option.splits)

section \<open>Division helpers\<close>

definition floor_div_signed_conservative_i128 :: "int \<Rightarrow> int \<Rightarrow> ('e, int) res" where
  "floor_div_signed_conservative_i128 n d =
     rthen (assertion (d \<noteq> 0)) (\<lambda>_.
       if n = 0 then Ok 0
       else if n > 0 then Ok (n div d)
       else
         let abs_n = \<bar>n\<bar>; q = abs_n div d; r = abs_n mod d;
             q_final = (if r \<noteq> 0 then q + 1 else q) in
         rthen (assertion (q_final \<le> I128_MAX)) (\<lambda>_. Ok (- q_final)))"

definition ceil_div_positive_checked :: "int \<Rightarrow> int \<Rightarrow> ('e, int) res" where
  "ceil_div_positive_checked n d =
     rthen (assertion (d \<noteq> 0)) (\<lambda>_.
       let q = n div d; r = n mod d in
       if r = 0 then Ok q else expect (fit_u256 (q + 1)))"

definition mul_div_floor_u256_with_rem :: "int \<Rightarrow> int \<Rightarrow> int \<Rightarrow> ('e, int \<times> int) res" where
  "mul_div_floor_u256_with_rem a b d =
     rthen (assertion (d \<noteq> 0)) (\<lambda>_.
       let product = a * b in
       rthen (expect (fit_u256 (product div d))) (\<lambda>q. Ok (q, product mod d)))"

definition mul_div_floor_u256 :: "int \<Rightarrow> int \<Rightarrow> int \<Rightarrow> ('e, int) res" where
  "mul_div_floor_u256 a b d =
     rthen (mul_div_floor_u256_with_rem a b d) (\<lambda>(q, r). Ok q)"

definition mul_div_ceil_u256 :: "int \<Rightarrow> int \<Rightarrow> int \<Rightarrow> ('e, int) res" where
  "mul_div_ceil_u256 a b d =
     rthen (mul_div_floor_u256_with_rem a b d) (\<lambda>(q, r).
       if r = 0 then Ok q else expect (fit_u256 (q + 1)))"

definition fee_debt_u128_checked :: "int \<Rightarrow> int" where
  "fee_debt_u128_checked fc = (if fc < 0 then \<bar>fc\<bar> else 0)"

definition mul_div_floor_u128 :: "int \<Rightarrow> int \<Rightarrow> int \<Rightarrow> ('e, int) res" where
  "mul_div_floor_u128 a b d =
     rthen (assertion (d > 0)) (\<lambda>_.
       rthen (expect (fit_u128 (a * b))) (\<lambda>p. Ok (p div d)))"

definition mul_div_ceil_u128 :: "int \<Rightarrow> int \<Rightarrow> int \<Rightarrow> ('e, int) res" where
  "mul_div_ceil_u128 a b d =
     rthen (assertion (d > 0)) (\<lambda>_.
       rthen (expect (fit_u128 (a * b))) (\<lambda>p.
         let q = p div d in if p mod d \<noteq> 0 then Ok (q + 1) else Ok q))"

definition wide_mul_div_floor_u128 :: "int \<Rightarrow> int \<Rightarrow> int \<Rightarrow> ('e, int) res" where
  "wide_mul_div_floor_u128 a b d =
     rthen (assertion (d > 0)) (\<lambda>_.
       rthen (mul_div_floor_u256 a b d) (\<lambda>result. expect (fit_u128 result)))"

definition wide_signed_mul_div_floor_from_k_pair ::
  "int \<Rightarrow> int \<Rightarrow> int \<Rightarrow> int \<Rightarrow> ('e, int) res" where
  "wide_signed_mul_div_floor_from_k_pair abs_basis k_then k_now den =
     rthen (assertion (den > 0)) (\<lambda>_.
     rthen (expect (fit_i256 (k_now - k_then))) (\<lambda>d.
       if d = 0 \<or> abs_basis = 0 then Ok 0
       else
         rthen (expect (fit_u256 (abs_basis * \<bar>d\<bar>))) (\<lambda>p.
         let q = p div den; rem = p mod den in
         if d < 0 then
           rthen (if rem \<noteq> 0 then expect (fit_u256 (q + 1)) else Ok q) (\<lambda>mag.
           rthen (expect (fit_u128 mag)) (\<lambda>mag_u128.
           rthen (assertion (mag_u128 \<le> I128_MAX)) (\<lambda>_. Ok (- mag_u128))))
         else
           rthen (expect (fit_u128 q)) (\<lambda>q_u128.
           rthen (assertion (q_u128 \<le> I128_MAX)) (\<lambda>_. Ok q_u128)))))"

datatype over_i128_magnitude = OverI128Magnitude

definition wide_mul_div_ceil_u128_or_over_i128max ::
  "int \<Rightarrow> int \<Rightarrow> int \<Rightarrow> (over_i128_magnitude, int) res" where
  "wide_mul_div_ceil_u128_or_over_i128max a b d =
     rthen (assertion (d > 0)) (\<lambda>_.
       rthen (mul_div_ceil_u256 a b d) (\<lambda>result.
         case fit_u128 result of
           Some v \<Rightarrow> if v \<le> I128_MAX then Ok v else Err OverI128Magnitude
         | None \<Rightarrow> Err OverI128Magnitude))"

definition saturating_mul_u128_u64 :: "int \<Rightarrow> int \<Rightarrow> int" where
  "saturating_mul_u128_u64 a b =
     (if a = 0 \<or> b = 0 then 0
      else case fit_u128 (a * b) of Some p \<Rightarrow> p | None \<Rightarrow> U128_MAX)"

subsection \<open>What the helpers compute\<close>

lemma fee_debt_max: "fee_debt_u128_checked f = max 0 (- f)"
  by (auto simp: fee_debt_u128_checked_def)

lemma mul_div_floor_u128_Ok:
  "mul_div_floor_u128 a b d = Ok q \<longleftrightarrow> 0 < d \<and> in_u128 (a * b) \<and> q = a * b div d"
  by (auto simp: mul_div_floor_u128_def Ok_iffs)

lemma div_succ_ceil:
  fixes p :: int
  assumes "0 < d" "p mod d \<noteq> 0"
  shows "p div d + 1 = - ((- p) div d)"
  using assms by (simp add: zdiv_zminus1_eq_if)

lemma ceil_eq:
  fixes p :: int
  assumes "0 < d"
  shows "(if p mod d \<noteq> 0 then p div d + 1 else p div d) = - ((- p) div d)"
  using assms by (simp add: zdiv_zminus1_eq_if)

lemma mul_div_ceil_u128_Ok:
  "mul_div_ceil_u128 a b d = Ok q \<longleftrightarrow> 0 < d \<and> in_u128 (a * b) \<and> q = - ((- (a * b)) div d)"
  using ceil_eq[of d "a * b"]
  by (auto simp: mul_div_ceil_u128_def Ok_iffs Let_def split: if_splits)

lemma div_le_num:
  fixes p :: int
  assumes "0 \<le> p" "0 < d"
  shows "0 \<le> p div d" "p div d \<le> p"
proof -
  show "0 \<le> p div d" using assms by (simp add: pos_imp_zdiv_nonneg_iff)
  have "p div d \<le> p div 1" using assms by (intro zdiv_mono2) auto
  then show "p div d \<le> p" by simp
qed

lemma prod_u128_u256:
  assumes "in_u128 a" "in_u128 b"
  shows "in_u256 (a * b)"
proof -
  have "a * b \<le> U128_MAX * U128_MAX"
    using assms by (intro mult_mono) (auto simp: in_u128_def)
  then show ?thesis
    using assms by (auto simp: in_u128_def in_u256_def bounds)
qed

lemma quot_u128_u256:
  assumes "in_u128 a" "in_u128 b" "0 < d"
  shows "in_u256 (a * b div d)"
  using div_le_num[of "a * b" d] prod_u128_u256[OF assms(1,2)] assms
  by (auto simp: in_u256_def in_u128_def)

lemma wide_mul_div_floor_u128_Ok:
  assumes "in_u128 a" "in_u128 b"
  shows "wide_mul_div_floor_u128 a b d = Ok q \<longleftrightarrow>
           0 < d \<and> in_u128 (a * b div d) \<and> q = a * b div d"
  using quot_u128_u256[OF assms, of d]
  by (auto simp: wide_mul_div_floor_u128_def mul_div_floor_u256_def
        mul_div_floor_u256_with_rem_def Ok_iffs Let_def)

lemma wide_mul_div_floor_u128_le:
  assumes "wide_mul_div_floor_u128 a b d = Ok q" "0 \<le> a" "0 \<le> b"
  shows "q = a * b div d" "0 < d"
  using assms
  by (auto simp: wide_mul_div_floor_u128_def mul_div_floor_u256_def
        mul_div_floor_u256_with_rem_def Ok_iffs Let_def)

lemma wide_k_pair_value:
  assumes r: "wide_signed_mul_div_floor_from_k_pair b k k' d = Ok x" and b: "0 \<le> b"
  shows "x = b * (k' - k) div d"
proof -
  have d: "0 < d"
    using r by (auto simp: wide_signed_mul_div_floor_from_k_pair_def Ok_iffs)
  consider (zero) "k' - k = 0 \<or> b = 0" | (neg) "k' - k < 0" "b \<noteq> 0" | (pos) "k' - k > 0" "b \<noteq> 0"
    by linarith
  then show ?thesis
  proof cases
    case zero
    then show ?thesis
      using r by (auto simp: wide_signed_mul_div_floor_from_k_pair_def Ok_iffs)
  next
    case neg
    then have a: "b * \<bar>k' - k\<bar> = - (b * (k' - k))"
      by (simp add: algebra_simps)
    have "x = - (if b * \<bar>k' - k\<bar> mod d \<noteq> 0 then b * \<bar>k' - k\<bar> div d + 1 else b * \<bar>k' - k\<bar> div d)"
      using r neg
      by (auto simp: wide_signed_mul_div_floor_from_k_pair_def Ok_iffs Let_def split: if_splits)
    also have "\<dots> = (- (b * \<bar>k' - k\<bar>)) div d"
      using ceil_eq[OF d, of "b * \<bar>k' - k\<bar>"] by simp
    also have "\<dots> = b * (k' - k) div d"
      using a by simp
    finally show ?thesis .
  next
    case pos
    then show ?thesis
      using r
      by (auto simp: wide_signed_mul_div_floor_from_k_pair_def Ok_iffs Let_def)
  qed
qed

end
