(* ===== verification/Slab.thy ===== *)
theory Slab
  imports WideSpec
begin

unbundle bit_operations_syntax

text \<open>
  Market initialisation and the account slab of \<open>src/src/percolator.rs\<close>: \<open>validate_params\<close>,
  \<open>init_in_place\<close>, the occupancy bitmap (\<open>is_used\<close>, \<open>set_used\<close>, \<open>clear_used\<close>,
  \<open>for_each_used\<close>) and the doubly linked free list (\<open>free_slot\<close>, \<open>materialize_at\<close>).  The
  invariant \<open>slab_ok\<close> says that the list threaded through \<open>next_free\<close> and \<open>prev_free\<close> holds
  exactly the unused slots; both allocator operations keep it.
\<close>

section \<open>Parameters\<close>

definition envelope_ok :: "int \<Rightarrow> int \<Rightarrow> bool" where
  "envelope_ok rate slots =
     (let p1 = fit_u256 (ADL_ONE * MAX_ORACLE_PRICE);
          p2 = Option.bind p1 (\<lambda>v. fit_u256 (v * rate));
          p3 = Option.bind p2 (\<lambda>v. fit_u256 (v * slots))
      in case p3 of Some v \<Rightarrow> v \<le> I128_MAX | None \<Rightarrow> False)"

definition validate_params :: "nat \<Rightarrow> risk_params \<Rightarrow> unit outcome" where
  "validate_params max_acc p =
     rthen (assertion (max_accounts p \<le> int max_acc \<and> max_accounts p > 0)) (\<lambda>_.
     rthen (assertion (max_active_positions_per_side p > 0)) (\<lambda>_.
     rthen (assertion (max_active_positions_per_side p \<le> max_accounts p)) (\<lambda>_.
     rthen (assertion (maintenance_margin_bps p \<le> initial_margin_bps p)) (\<lambda>_.
     rthen (assertion (initial_margin_bps p \<le> 10000)) (\<lambda>_.
     rthen (assertion (trading_fee_bps p \<le> 10000)) (\<lambda>_.
     rthen (assertion (liquidation_fee_bps p \<le> 10000)) (\<lambda>_.
     rthen (assertion (min_nonzero_mm_req p > 0)) (\<lambda>_.
     rthen (assertion (min_nonzero_mm_req p < min_nonzero_im_req p)) (\<lambda>_.
     rthen (assertion (min_nonzero_im_req p \<le> min_initial_deposit p)) (\<lambda>_.
     rthen (assertion (min_initial_deposit p > 0)) (\<lambda>_.
     rthen (assertion (min_initial_deposit p \<le> MAX_VAULT_TVL)) (\<lambda>_.
     rthen (assertion (min_liquidation_abs p \<le> liquidation_fee_cap p)) (\<lambda>_.
     rthen (assertion (liquidation_fee_cap p \<le> MAX_PROTOCOL_FEE_ABS)) (\<lambda>_.
     rthen (assertion (insurance_floor p \<le> MAX_VAULT_TVL)) (\<lambda>_.
     rthen (assertion (h_min p \<le> h_max p)) (\<lambda>_.
     rthen (assertion (h_max p > 0)) (\<lambda>_.
     rthen (assertion (resolve_price_deviation_bps p \<le> MAX_RESOLVE_PRICE_DEVIATION_BPS)) (\<lambda>_.
     rthen (assertion (max_accrual_dt_slots p > 0)) (\<lambda>_.
     rthen (assertion (max_abs_funding_e9_per_slot p \<le> MAX_ABS_FUNDING_E9_PER_SLOT)) (\<lambda>_.
     rthen (assertion (envelope_ok (max_abs_funding_e9_per_slot p) (max_accrual_dt_slots p))) (\<lambda>_.
     rthen (assertion (min_funding_lifetime_slots p \<ge> max_accrual_dt_slots p)) (\<lambda>_.
       assertion (envelope_ok (max_abs_funding_e9_per_slot p)
                    (min_funding_lifetime_slots p))))))))))))))))))))))))"

text \<open>The constraints the assertions add up to, in plain arithmetic.\<close>

definition params_ok :: "nat \<Rightarrow> risk_params \<Rightarrow> bool" where
  "params_ok max_acc p =
     (0 < max_accounts p \<and> max_accounts p \<le> int max_acc
      \<and> 0 < max_active_positions_per_side p \<and> max_active_positions_per_side p \<le> max_accounts p
      \<and> maintenance_margin_bps p \<le> initial_margin_bps p \<and> initial_margin_bps p \<le> 10000
      \<and> trading_fee_bps p \<le> 10000 \<and> liquidation_fee_bps p \<le> 10000
      \<and> 0 < min_nonzero_mm_req p \<and> min_nonzero_mm_req p < min_nonzero_im_req p
      \<and> min_nonzero_im_req p \<le> min_initial_deposit p \<and> min_initial_deposit p \<le> MAX_VAULT_TVL
      \<and> min_liquidation_abs p \<le> liquidation_fee_cap p
      \<and> liquidation_fee_cap p \<le> MAX_PROTOCOL_FEE_ABS
      \<and> insurance_floor p \<le> MAX_VAULT_TVL
      \<and> h_min p \<le> h_max p \<and> 0 < h_max p
      \<and> resolve_price_deviation_bps p \<le> 10000
      \<and> 0 < max_accrual_dt_slots p \<and> max_accrual_dt_slots p \<le> min_funding_lifetime_slots p
      \<and> max_abs_funding_e9_per_slot p \<le> 1000000000
      \<and> ADL_ONE * MAX_ORACLE_PRICE * max_abs_funding_e9_per_slot p * min_funding_lifetime_slots p
          \<le> I128_MAX)"

lemma envelope_ok_iff:
  assumes "0 \<le> rate" "rate \<le> U64_MAX" "0 \<le> slots"
  shows "envelope_ok rate slots \<longleftrightarrow> ADL_ONE * MAX_ORACLE_PRICE * rate * slots \<le> I128_MAX"
proof -
  have c: "in_u256 (ADL_ONE * MAX_ORACLE_PRICE)" by (simp add: in_u256_def bounds)
  have pos: "0 \<le> ADL_ONE * MAX_ORACLE_PRICE * rate" using assms by (simp add: bounds)
  have "in_u256 (ADL_ONE * MAX_ORACLE_PRICE * rate)"
    if "slots \<noteq> 0" "ADL_ONE * MAX_ORACLE_PRICE * rate * slots \<le> I128_MAX"
  proof -
    have "ADL_ONE * MAX_ORACLE_PRICE * rate * 1 \<le> ADL_ONE * MAX_ORACLE_PRICE * rate * slots"
      using that(1) assms pos by (intro mult_left_mono) auto
    then show ?thesis using that(2) pos by (simp add: in_u256_def bounds)
  qed
  then show ?thesis
    using c assms pos
    by (cases "slots = 0")
      (auto simp: envelope_ok_def fit_u256_def in_u256_def bounds mult_nonneg_nonneg)
qed

text \<open>The ranges of the Rust types of the parameters.\<close>

definition params_typed :: "risk_params \<Rightarrow> bool" where
  "params_typed p =
     (in_u64 (maintenance_margin_bps p) \<and> in_u64 (initial_margin_bps p)
      \<and> in_u64 (trading_fee_bps p) \<and> in_u64 (max_accounts p)
      \<and> in_u64 (max_crank_staleness_slots p) \<and> in_u64 (liquidation_fee_bps p)
      \<and> in_u128 (liquidation_fee_cap p) \<and> in_u128 (min_liquidation_abs p)
      \<and> in_u128 (min_initial_deposit p) \<and> in_u128 (min_nonzero_mm_req p)
      \<and> in_u128 (min_nonzero_im_req p) \<and> in_u128 (insurance_floor p)
      \<and> in_u64 (h_min p) \<and> in_u64 (h_max p) \<and> in_u64 (resolve_price_deviation_bps p)
      \<and> in_u64 (max_accrual_dt_slots p) \<and> in_u64 (max_abs_funding_e9_per_slot p)
      \<and> in_u64 (min_funding_lifetime_slots p) \<and> in_u64 (max_active_positions_per_side p))"

lemma validate_params_iff:
  assumes t: "params_typed p"
  shows "validate_params max_acc p = Ok () \<longleftrightarrow> params_ok max_acc p"
proof -
  have r: "0 \<le> max_abs_funding_e9_per_slot p" "max_abs_funding_e9_per_slot p \<le> U64_MAX"
    "0 \<le> max_accrual_dt_slots p" "0 \<le> min_funding_lifetime_slots p"
    using t by (simp_all add: params_typed_def in_u64_def)
  have mono: "ADL_ONE * MAX_ORACLE_PRICE * max_abs_funding_e9_per_slot p * max_accrual_dt_slots p
      \<le> ADL_ONE * MAX_ORACLE_PRICE * max_abs_funding_e9_per_slot p * min_funding_lifetime_slots p"
    if "max_accrual_dt_slots p \<le> min_funding_lifetime_slots p"
    using that r by (intro mult_left_mono) (auto simp: bounds)
  show ?thesis
    unfolding validate_params_def params_ok_def
    using mono
    by (auto simp: Ok_iffs envelope_ok_iff[OF r(1,2,3)] envelope_ok_iff[OF r(1,2,4)]
          MAX_RESOLVE_PRICE_DEVIATION_BPS_def MAX_ABS_FUNDING_E9_PER_SLOT_def)
qed

section \<open>Initialisation\<close>

text \<open>The per-field reset of one slot, shared by initialisation, materialisation and freeing.\<close>

definition reset_account :: "int \<Rightarrow> account \<Rightarrow> account" where
  "reset_account slot a = a\<lparr>
     kind := KIND_USER, capital := 0, pnl := 0, reserved_pnl := 0, position_basis_q := 0,
     adl_a_basis := ADL_ONE, adl_k_snap := 0, f_snap := 0, adl_epoch_snap := 0,
     matcher_program := ZERO32, matcher_context := ZERO32, owner := ZERO32,
     fee_credits := 0, last_fee_slot := slot,
     sched_present := 0, sched_remaining_q := 0, sched_anchor_q := 0, sched_start_slot := 0,
     sched_horizon := 0, sched_release_q := 0,
     pending_present := 0, pending_remaining_q := 0, pending_horizon := 0,
     pending_created_slot := 0 \<rparr>"

lemma reset_account_eq: "reset_account s a = empty_account\<lparr> last_fee_slot := s \<rparr>"
  by (simp add: reset_account_def empty_account_def KIND_USER_def)

text \<open>The loop that links the free list \<open>0 \<rightarrow> 1 \<rightarrow> \<dots> \<rightarrow> N - 1 \<rightarrow> NIL\<close>.\<close>

definition build_free_list :: "engine \<Rightarrow> engine" where
  "build_free_list e =
     (let n = MAX_ACCOUNTS e;
          e = e\<lparr> prev_free := (prev_free e)[0 := NIL] \<rparr>;
          e = fold (\<lambda>i e. e\<lparr> next_free := (next_free e)[i := (i + 1) mod 65536],
                             prev_free := (prev_free e)[i + 1 := i mod 65536] \<rparr>) [0..<n - 1] e
      in e\<lparr> next_free := (next_free e)[n - 1 := NIL] \<rparr>)"

definition init_in_place :: "risk_params \<Rightarrow> int \<Rightarrow> int \<Rightarrow> engine \<Rightarrow> unit step" where
  "init_in_place p init_slot init_oracle_price e =
     sval (validate_params (MAX_ACCOUNTS e) p) e (\<lambda>_.
     sval (assertion (init_oracle_price > 0 \<and> init_oracle_price \<le> MAX_ORACLE_PRICE)) e (\<lambda>_.
       let e = e\<lparr>
         vault := 0, insurance_fund := \<lparr> balance = 0 \<rparr>, params := p, current_slot := init_slot,
         market_mode := Live, resolved_price := 0, resolved_slot := 0,
         resolved_payout_h_num := 0, resolved_payout_h_den := 0, resolved_payout_ready := 0,
         resolved_k_long_terminal_delta := 0, resolved_k_short_terminal_delta := 0,
         resolved_live_price := 0, last_crank_slot := 0,
         c_tot := 0, pnl_pos_tot := 0, pnl_matured_pos_tot := 0, gc_cursor := 0,
         adl_mult_long := ADL_ONE, adl_mult_short := ADL_ONE,
         adl_coeff_long := 0, adl_coeff_short := 0, adl_epoch_long := 0, adl_epoch_short := 0,
         adl_epoch_start_k_long := 0, adl_epoch_start_k_short := 0,
         oi_eff_long_q := 0, oi_eff_short_q := 0,
         side_mode_long := Normal, side_mode_short := Normal,
         stored_pos_count_long := 0, stored_pos_count_short := 0,
         stale_account_count_long := 0, stale_account_count_short := 0,
         phantom_dust_bound_long_q := 0, phantom_dust_bound_short_q := 0,
         materialized_account_count := 0, neg_pnl_account_count := 0,
         last_oracle_price := init_oracle_price, fund_px_last := init_oracle_price,
         last_market_slot := init_slot,
         f_long_num := 0, f_short_num := 0,
         f_epoch_start_long_num := 0, f_epoch_start_short_num := 0,
         used := map (\<lambda>_. 0) (used e), num_used_accounts := 0, free_head := 0,
         accounts := map (reset_account 0) (accounts e) \<rparr>
       in (Ok (), build_free_list e)))"

text \<open>The struct literal of \<open>new_with_market\<close>, before the free list is linked.\<close>

definition blank_engine :: "nat \<Rightarrow> risk_params \<Rightarrow> int \<Rightarrow> int \<Rightarrow> engine" where
  "blank_engine n p init_slot init_oracle_price = \<lparr>
         vault = 0, insurance_fund = \<lparr> balance = 0 \<rparr>, params = p, current_slot = init_slot,
         market_mode = Live, resolved_price = 0, resolved_slot = 0,
         resolved_payout_h_num = 0, resolved_payout_h_den = 0, resolved_payout_ready = 0,
         resolved_k_long_terminal_delta = 0, resolved_k_short_terminal_delta = 0,
         resolved_live_price = 0, last_crank_slot = 0,
         c_tot = 0, pnl_pos_tot = 0, pnl_matured_pos_tot = 0, gc_cursor = 0,
         adl_mult_long = ADL_ONE, adl_mult_short = ADL_ONE,
         adl_coeff_long = 0, adl_coeff_short = 0, adl_epoch_long = 0, adl_epoch_short = 0,
         adl_epoch_start_k_long = 0, adl_epoch_start_k_short = 0,
         oi_eff_long_q = 0, oi_eff_short_q = 0,
         side_mode_long = Normal, side_mode_short = Normal,
         stored_pos_count_long = 0, stored_pos_count_short = 0,
         stale_account_count_long = 0, stale_account_count_short = 0,
         phantom_dust_bound_long_q = 0, phantom_dust_bound_short_q = 0,
         materialized_account_count = 0, neg_pnl_account_count = 0,
         last_oracle_price = init_oracle_price, fund_px_last = init_oracle_price,
         last_market_slot = init_slot,
         f_long_num = 0, f_short_num = 0,
         f_epoch_start_long_num = 0, f_epoch_start_short_num = 0,
         used = replicate ((n + 63) div 64) 0, num_used_accounts = 0, free_head = 0,
         next_free = replicate n 0, prev_free = replicate n 0,
         accounts = replicate n empty_account \<rparr>"

text \<open>\<open>new_with_market\<close>, the constructor of the test builds, for a slab of \<open>n\<close> slots.\<close>

definition new_with_market :: "nat \<Rightarrow> risk_params \<Rightarrow> int \<Rightarrow> int \<Rightarrow> engine outcome" where
  "new_with_market n p init_slot init_oracle_price =
     rthen (validate_params n p) (\<lambda>_.
     rthen (assertion (init_oracle_price > 0 \<and> init_oracle_price \<le> MAX_ORACLE_PRICE)) (\<lambda>_.
       Ok (build_free_list (blank_engine n p init_slot init_oracle_price))))"

section \<open>Bitmap\<close>

definition is_used :: "engine \<Rightarrow> nat \<Rightarrow> bool" where
  "is_used e idx =
     (if idx \<ge> MAX_ACCOUNTS e then False
      else (drop_bit (idx mod 64) (used e ! (idx div 64)) AND 1) = 1)"

definition set_used :: "nat \<Rightarrow> engine \<Rightarrow> engine" where
  "set_used idx e =
     (let w = idx div 64; b = idx mod 64 in
      e\<lparr> used := (used e)[w := (used e ! w) OR push_bit b 1] \<rparr>)"

definition clear_used :: "nat \<Rightarrow> engine \<Rightarrow> engine" where
  "clear_used idx e =
     (let w = idx div 64; b = idx mod 64 in
      e\<lparr> used := (used e)[w := (used e ! w) AND NOT (push_bit b 1)] \<rparr>)"

text \<open>
  \<open>for_each_used\<close> visits the set bits of each word from the lowest up, clearing the lowest with
  \<open>w &= w - 1\<close>; \<open>word_bits n w\<close> is the sequence of \<open>trailing_zeros\<close> it sees, with \<open>n\<close> rounds.
\<close>

definition trailing_zeros :: "64 word \<Rightarrow> nat" where
  "trailing_zeros w = length (takeWhile (\<lambda>i. \<not> bit w i) [0..<64])"

primrec word_bits :: "nat \<Rightarrow> 64 word \<Rightarrow> nat list" where
  "word_bits 0 w = []"
| "word_bits (Suc n) w = (if w = 0 then [] else trailing_zeros w # word_bits n (w AND (w - 1)))"

definition for_each_used :: "engine \<Rightarrow> nat list" where
  "for_each_used e =
     concat (map (\<lambda>(block, word). filter (\<lambda>idx. idx < MAX_ACCOUNTS e)
                     (map (\<lambda>b. block * 64 + b) (word_bits 64 word)))
             (zip [0..<length (used e)] (used e)))"

section \<open>Free list\<close>

definition free_slot :: "nat \<Rightarrow> engine \<Rightarrow> unit step" where
  "free_slot idx e =
     (let i = idx in
      if i \<ge> MAX_ACCOUNTS e then (Err AccountNotFound, e)
      else if \<not> is_used e i then (Err CorruptState, e)
      else
        let a = accounts e ! i in
        if pnl a \<noteq> 0 then (Err CorruptState, e)
        else if reserved_pnl a \<noteq> 0 then (Err CorruptState, e)
        else if position_basis_q a \<noteq> 0 then (Err CorruptState, e)
        else if sched_present a \<noteq> 0 \<or> pending_present a \<noteq> 0 then (Err CorruptState, e)
        else if capital a \<noteq> 0 then (Err CorruptState, e)
        else if fee_credits a \<noteq> 0 then (Err CorruptState, e)
        else
          let e = upd i (reset_account 0) e;
              e = clear_used i e;
              e = e\<lparr> next_free := (next_free e)[i := free_head e],
                     prev_free := (prev_free e)[i := NIL] \<rparr>
          in
          sval (if free_head e \<noteq> NIL then assertion (free_head e < length (prev_free e)) else Ok ())
               e (\<lambda>_.
          let e = (if free_head e \<noteq> NIL
                   then e\<lparr> prev_free := (prev_free e)[free_head e := idx] \<rparr> else e);
              e = e\<lparr> free_head := idx \<rparr>
          in
          if num_used_accounts e = 0 then (Err CorruptState, e)
          else
            let e = e\<lparr> num_used_accounts := num_used_accounts e - 1 \<rparr> in
            if materialized_account_count e < 1 then (Err CorruptState, e)
            else (Ok (), e\<lparr> materialized_account_count := materialized_account_count e - 1 \<rparr>)))"

text \<open>
  The code increments \<open>materialized_account_count\<close> first and takes the increment back on each
  error return; the model tests the incremented value and stores it on the success path only, so
  every error leaves the state of the code's error returns.
\<close>

definition materialize_at :: "nat \<Rightarrow> int \<Rightarrow> engine \<Rightarrow> unit step" where
  "materialize_at idx slot_anchor e =
     (if idx \<ge> MAX_ACCOUNTS e then (Err AccountNotFound, e)
      else if int idx \<ge> max_accounts (params e) then (Err AccountNotFound, e)
      else if int (num_used_accounts e) \<ge> max_accounts (params e) then (Err Overflow, e)
      else if materialized_account_count e + 1 > U64_MAX then (Err Overflow, e)
      else if materialized_account_count e + 1 > MAX_MATERIALIZED_ACCOUNTS then (Err Overflow, e)
      else if is_used e idx then (Err CorruptState, e)
      else
        let i = idx; next = next_free e ! i; prev = prev_free e ! i in
        sval (if prev = NIL then require (free_head e = idx) CorruptState
              else rthen (assertion (prev < length (next_free e))) (\<lambda>_.
                   rthen (require (next_free e ! prev = idx) CorruptState) (\<lambda>_.
                   require (\<not> is_used e prev) CorruptState))) e (\<lambda>_.
        sval (if next \<noteq> NIL
              then rthen (assertion (next < length (prev_free e))) (\<lambda>_.
                   rthen (require (prev_free e ! next = idx) CorruptState) (\<lambda>_.
                   require (\<not> is_used e next) CorruptState))
              else Ok ()) e (\<lambda>_.
        let e = e\<lparr> materialized_account_count := materialized_account_count e + 1 \<rparr>;
            e = (if prev = NIL then e\<lparr> free_head := next \<rparr>
                 else e\<lparr> next_free := (next_free e)[prev := next] \<rparr>);
            e = (if next \<noteq> NIL then e\<lparr> prev_free := (prev_free e)[next := prev] \<rparr> else e);
            e = e\<lparr> next_free := (next_free e)[i := NIL], prev_free := (prev_free e)[i := NIL] \<rparr>;
            e = set_used i e
        in
        sval (assertion (num_used_accounts e + 1 \<le> 65535)) e (\<lambda>_.
        let e = e\<lparr> num_used_accounts := num_used_accounts e + 1 \<rparr>
        in (Ok (), upd i (reset_account slot_anchor) e)))))"


section \<open>The slab invariant\<close>

text \<open>
  \<open>seg nx pv p h xs t\<close>: following \<open>nx\<close> from \<open>h\<close> visits \<open>xs\<close> and arrives at \<open>t\<close>, and each
  visited slot's \<open>pv\<close> points to its predecessor, \<open>p\<close> for the first.
\<close>

primrec seg :: "nat list \<Rightarrow> nat list \<Rightarrow> nat \<Rightarrow> nat \<Rightarrow> nat list \<Rightarrow> nat \<Rightarrow> bool" where
  "seg nx pv p h [] t = (t = h)"
| "seg nx pv p h (i # is) t = (h = i \<and> pv ! i = p \<and> seg nx pv i (nx ! i) is t)"

lemma seg_append:
  "seg nx pv p h (xs @ ys) t \<longleftrightarrow> (\<exists>m. seg nx pv p h xs m \<and> seg nx pv (last (p # xs)) m ys t)"
  by (induction xs arbitrary: p h) auto

lemma seg_frame:
  assumes "j \<notin> set xs"
  shows "seg (nx[j := v]) pv p h xs t = seg nx pv p h xs t"
    and "seg nx (pv[j := v]) p h xs t = seg nx pv p h xs t"
  using assms by (induction xs arbitrary: p h) auto

lemma seg_redirect_last:
  assumes "seg nx pv p h (xs @ [a]) t" "a < length nx" "a \<notin> set xs"
  shows "seg (nx[a := u]) pv p h (xs @ [a]) u"
  using assms by (auto simp: seg_append seg_frame)

lemma seg_redirect_first:
  assumes "seg nx pv p h (b # xs) t" "b < length pv" "b \<notin> set xs"
  shows "seg nx (pv[b := q]) q h (b # xs) t"
  using assms by (auto simp: seg_frame)

definition free_chain :: "engine \<Rightarrow> nat list \<Rightarrow> bool" where
  "free_chain e fl =
     (distinct fl \<and> set fl = {i. i < MAX_ACCOUNTS e \<and> \<not> is_used e i}
      \<and> seg (next_free e) (prev_free e) NIL (free_head e) fl NIL)"

definition used_set :: "engine \<Rightarrow> nat set" where
  "used_set e = {i. is_used e i}"

definition vacant :: "account \<Rightarrow> bool" where
  "vacant a = (a = empty_account)"

definition slab_shape :: "engine \<Rightarrow> bool" where
  "slab_shape e =
     (0 < MAX_ACCOUNTS e \<and> MAX_ACCOUNTS e \<le> NIL
      \<and> length (next_free e) = MAX_ACCOUNTS e \<and> length (prev_free e) = MAX_ACCOUNTS e
      \<and> length (used e) = (MAX_ACCOUNTS e + 63) div 64)"

definition slab_ok :: "engine \<Rightarrow> bool" where
  "slab_ok e =
     (slab_shape e
      \<and> (\<exists>fl. free_chain e fl)
      \<and> num_used_accounts e = card (used_set e)
      \<and> materialized_account_count e = int (num_used_accounts e)
      \<and> (\<forall>i. is_used e i \<longrightarrow> int i < max_accounts (params e))
      \<and> (\<forall>i < MAX_ACCOUNTS e. \<not> is_used e i \<longrightarrow> vacant (accounts e ! i)))"

lemma is_used_bit:
  "is_used e i \<longleftrightarrow> i < MAX_ACCOUNTS e \<and> bit (used e ! (i div 64)) (i mod 64)"
  by (auto simp: is_used_def bit_iff_odd_drop_bit and_one_eq odd_iff_mod_2_eq_one)

lemma is_used_cong:
  "used e' = used e \<Longrightarrow> MAX_ACCOUNTS e' = MAX_ACCOUNTS e \<Longrightarrow> is_used e' i = is_used e i"
  by (simp add: is_used_bit)

lemma used_index:
  assumes "slab_shape e" "i < MAX_ACCOUNTS e"
  shows "i div 64 < length (used e)"
  using assms by (auto simp: slab_shape_def)

lemma div_mod_64_inj: "(i :: nat) div 64 = j div 64 \<Longrightarrow> i mod 64 = j mod 64 \<Longrightarrow> i = j"
  by (metis div_mult_mod_eq)

lemma is_used_set_used:
  assumes "slab_shape e" "i < MAX_ACCOUNTS e"
  shows "is_used (set_used i e) j \<longleftrightarrow> j = i \<or> is_used e j"
  using used_index[OF assms] assms(2) div_mod_64_inj[of i j]
  by (cases "i div 64 = j div 64")
    (auto simp: is_used_bit set_used_def Let_def bit_or_iff bit_exp_iff)

lemma is_used_clear_used:
  assumes "slab_shape e" "i < MAX_ACCOUNTS e"
  shows "is_used (clear_used i e) j \<longleftrightarrow> j \<noteq> i \<and> is_used e j"
  using used_index[OF assms] assms(2) div_mod_64_inj[of i j]
  by (cases "i div 64 = j div 64")
    (auto simp: is_used_bit clear_used_def Let_def bit_and_iff bit_not_iff bit_exp_iff)

lemma used_set_finite: "finite (used_set e)"
  by (rule finite_subset[of _ "{..< MAX_ACCOUNTS e}"]) (auto simp: used_set_def is_used_bit)

lemma used_set_card_le: "card (used_set e) \<le> MAX_ACCOUNTS e"
proof -
  have "used_set e \<subseteq> {..< MAX_ACCOUNTS e}" by (auto simp: used_set_def is_used_bit)
  then show ?thesis using card_mono[of "{..< MAX_ACCOUNTS e}"] by simp
qed


lemma free_chain_nil:
  assumes "slab_shape e" "free_chain e fl" "i \<in> set fl"
  shows "i < MAX_ACCOUNTS e" "i \<noteq> NIL" "\<not> is_used e i"
  using assms by (auto simp: free_chain_def slab_shape_def)

text \<open>What the two links of a free slot are.\<close>

lemma free_chain_links:
  assumes sh: "slab_shape e" and fc: "free_chain e (as @ i # bs)"
  shows "prev_free e ! i = (if as = [] then NIL else last as)"
    and "as = [] \<Longrightarrow> free_head e = i"
    and "as \<noteq> [] \<Longrightarrow> next_free e ! last as = i"
    and "next_free e ! i = (if bs = [] then NIL else hd bs)"
    and "bs \<noteq> [] \<Longrightarrow> prev_free e ! hd bs = i"
proof -
  obtain m where a: "seg (next_free e) (prev_free e) NIL (free_head e) as m"
    and b: "m = i" "prev_free e ! i = last (NIL # as)"
    and c: "seg (next_free e) (prev_free e) i (next_free e ! i) bs NIL"
    using fc by (auto simp: free_chain_def seg_append)
  show "prev_free e ! i = (if as = [] then NIL else last as)" using b by auto
  show "as = [] \<Longrightarrow> free_head e = i" using a b by auto
  show "next_free e ! last as = i" if ne: "as \<noteq> []"
  proof -
    obtain xs x where x: "as = xs @ [x]" using ne by (meson rev_exhaust)
    then show ?thesis using a b by (auto simp: seg_append)
  qed
  show "next_free e ! i = (if bs = [] then NIL else hd bs)" using c by (cases bs) auto
  show "bs \<noteq> [] \<Longrightarrow> prev_free e ! hd bs = i" using c by (cases bs) auto
qed

text \<open>Unlinking an arbitrary element of the list.\<close>

lemma seg_unlink:
  assumes sg: "seg nx pv NIL h (as @ i # bs) NIL" and d: "distinct (as @ i # bs)"
    and len: "\<And>j. j \<in> set (as @ i # bs) \<Longrightarrow> j < length nx \<and> j < length pv"
    and p: "p = (if as = [] then NIL else last as)" and n: "n = (if bs = [] then NIL else hd bs)"
  shows "seg ((if as = [] then nx else nx[p := n])[i := NIL])
             ((if bs = [] then pv else pv[n := p])[i := NIL])
             NIL (if as = [] then n else h) (as @ bs) NIL"
proof -
  obtain m where a: "seg nx pv NIL h as m" and b: "m = i"
    and c: "seg nx pv i (nx ! i) bs NIL"
    using sg by (auto simp: seg_append)
  have nn: "nx ! i = n" using c n by (cases bs) auto
  have pl: "p = last (NIL # as)" using p by auto
  define nx' where "nx' = (if as = [] then nx else nx[p := n])"
  define pv' where "pv' = (if bs = [] then pv else pv[n := p])"
  have iN: "i \<notin> set as" "i \<notin> set bs" using d by auto
  have A: "seg nx' pv' NIL (if as = [] then n else h) as n"
  proof (cases "as = []")
    case True then show ?thesis by simp
  next
    case False
    then obtain xs x where x: "as = xs @ [x]" by (meson rev_exhaust)
    have px: "p = x" using p x by simp
    have "seg (nx[x := n]) pv NIL h (xs @ [x]) n"
      using a len d by (intro seg_redirect_last) (auto simp: x)
    moreover have "n \<notin> set as" if "bs \<noteq> []" using that n d by (cases bs) auto
    ultimately show ?thesis
      using False by (auto simp: nx'_def pv'_def px x seg_frame)
  qed
  have B: "seg nx' pv' p n bs NIL"
  proof (cases bs)
    case Nil
    then show ?thesis using n by simp
  next
    case (Cons y ys)
    have ny: "n = y" using n Cons by simp
    have "seg nx (pv[y := p]) p y (y # ys) NIL"
      using c nn ny len d Cons by (intro seg_redirect_first[of _ _ i]) auto
    moreover have "p \<notin> set bs" if "as \<noteq> []"
      using that p d by (metis disjoint_iff distinct_append last_in_set list.set_intros(2))
    ultimately show ?thesis
      using Cons ny by (auto simp: nx'_def pv'_def seg_frame)
  qed
  have "seg nx' pv' NIL (if as = [] then n else h) (as @ bs) NIL"
    using A B pl by (auto simp: seg_append)
  then have "seg (nx'[i := NIL]) (pv'[i := NIL]) NIL (if as = [] then n else h) (as @ bs) NIL"
    using iN by (simp add: seg_frame)
  then show ?thesis by (simp add: nx'_def pv'_def)
qed

text \<open>Materialising a free slot: the state it leaves, and that it cannot fail.\<close>

definition materialized :: "nat \<Rightarrow> int \<Rightarrow> engine \<Rightarrow> engine" where
  "materialized i slot_anchor e =
     (let next = next_free e ! i; prev = prev_free e ! i;
          e = e\<lparr> materialized_account_count := materialized_account_count e + 1 \<rparr>;
          e = (if prev = NIL then e\<lparr> free_head := next \<rparr>
               else e\<lparr> next_free := (next_free e)[prev := next] \<rparr>);
          e = (if next \<noteq> NIL then e\<lparr> prev_free := (prev_free e)[next := prev] \<rparr> else e);
          e = e\<lparr> next_free := (next_free e)[i := NIL], prev_free := (prev_free e)[i := NIL] \<rparr>;
          e = set_used i e;
          e = e\<lparr> num_used_accounts := num_used_accounts e + 1 \<rparr>
      in upd i (reset_account slot_anchor) e)"

lemma free_split:
  assumes "free_chain e fl" "i < MAX_ACCOUNTS e" "\<not> is_used e i"
  obtains as bs where "fl = as @ i # bs"
  using assms by (metis (mono_tags, lifting) free_chain_def mem_Collect_eq split_list)


lemma is_used_materialized:
  assumes "slab_shape e" "i < MAX_ACCOUNTS e"
  shows "is_used (materialized i sl e) j \<longleftrightarrow> j = i \<or> is_used e j"
proof -
  have "is_used (materialized i sl e) j = is_used (set_used i e) j"
    by (rule is_used_cong) (simp_all add: materialized_def set_used_def Let_def)
  then show ?thesis using is_used_set_used[OF assms] by simp
qed

lemma materialized_simps [simp]:
  "MAX_ACCOUNTS (materialized i sl e) = MAX_ACCOUNTS e"
  "params (materialized i sl e) = params e"
  "num_used_accounts (materialized i sl e) = num_used_accounts e + 1"
  "materialized_account_count (materialized i sl e) = materialized_account_count e + 1"
  "accounts (materialized i sl e) = (accounts e)[i := reset_account sl (accounts e ! i)]"
  by (simp_all add: materialized_def set_used_def Let_def upd_def)

lemma materialized_chain:
  assumes sh: "slab_shape e" and fc: "free_chain e (as @ i # bs)"
  shows "free_chain (materialized i sl e) (as @ bs)"
proof -
  let ?p = "prev_free e ! i" and ?n = "next_free e ! i"
  note L = free_chain_links[OF sh fc]
  have nN: "j < MAX_ACCOUNTS e \<and> j \<noteq> NIL" if "j \<in> set (as @ i # bs)" for j
    using free_chain_nil[OF sh fc that] by simp
  have pe: "(?p = NIL) = (as = [])" using L(1) nN[of "last as"] by auto
  have ne: "(?n = NIL) = (bs = [])" using L(4) nN[of "hd bs"] by auto
  have "seg ((if as = [] then next_free e else (next_free e)[?p := ?n])[i := NIL])
            ((if bs = [] then prev_free e else (prev_free e)[?n := ?p])[i := NIL])
            NIL (if as = [] then ?n else free_head e) (as @ bs) NIL"
    using fc nN sh L(1,4) by (intro seg_unlink) (auto simp: free_chain_def slab_shape_def)
  moreover have "set (as @ bs) = {j. j < MAX_ACCOUNTS e \<and> j \<noteq> i \<and> \<not> is_used e j}"
    using fc by (auto simp: free_chain_def set_eq_iff)
  moreover have "next_free (materialized i sl e) =
      (if as = [] then next_free e else (next_free e)[?p := ?n])[i := NIL]"
    "prev_free (materialized i sl e) =
      (if bs = [] then prev_free e else (prev_free e)[?n := ?p])[i := NIL]"
    "free_head (materialized i sl e) = (if as = [] then ?n else free_head e)"
    using pe ne by (simp_all add: materialized_def set_used_def Let_def)
  moreover have "i < MAX_ACCOUNTS e" using nN[of i] by simp
  moreover have "distinct (as @ bs)" using fc by (simp add: free_chain_def)
  ultimately show ?thesis
    unfolding free_chain_def by (simp add: is_used_materialized[OF sh])
qed

lemma materialized_ok:
  assumes ok: "slab_ok e" and i: "i < MAX_ACCOUNTS e" "\<not> is_used e i" "int i < max_accounts (params e)"
  shows "slab_ok (materialized i sl e)"
proof -
  have sh: "slab_shape e" using ok by (simp add: slab_ok_def)
  note U = is_used_materialized[OF sh i(1)]
  obtain fl where fl: "free_chain e fl" using ok by (auto simp: slab_ok_def)
  obtain as bs where ab: "fl = as @ i # bs" using free_split[OF fl i(1,2)] .
  have "used_set (materialized i sl e) = insert i (used_set e)"
    by (auto simp: used_set_def U)
  moreover have "i \<notin> used_set e" using i by (simp add: used_set_def)
  ultimately have "card (used_set (materialized i sl e)) = card (used_set e) + 1"
    using used_set_finite by simp
  moreover have "slab_shape (materialized i sl e)"
    using sh by (simp add: slab_shape_def materialized_def Let_def set_used_def)
  moreover have "free_chain (materialized i sl e) (as @ bs)"
    using materialized_chain[OF sh] fl ab by simp
  ultimately show ?thesis
    using ok i(3) by (auto simp: slab_ok_def U nth_list_update)
qed

lemma free_slot_room:
  assumes ok: "slab_ok e" and i: "\<not> is_used e i" "int i < max_accounts (params e)"
  shows "int (num_used_accounts e) < max_accounts (params e)"
proof -
  have "used_set e \<subseteq> {..< nat (max_accounts (params e))} - {i}"
    using ok i by (auto simp: slab_ok_def used_set_def)
  then have "card (used_set e) \<le> card ({..< nat (max_accounts (params e))} - {i})"
    by (intro card_mono) auto
  then show ?thesis using ok i by (auto simp: slab_ok_def)
qed

lemma materialize_at_free:
  assumes ok: "slab_ok e" and i: "i < MAX_ACCOUNTS e" "\<not> is_used e i" "int i < max_accounts (params e)"
  shows "materialize_at i sl e = (Ok (), materialized i sl e)"
proof -
  have sh: "slab_shape e" using ok by (simp add: slab_ok_def)
  obtain fl where fl: "free_chain e fl" using ok by (auto simp: slab_ok_def)
  obtain as bs where ab: "fl = as @ i # bs" using free_split[OF fl i(1,2)] .
  have fc: "free_chain e (as @ i # bs)" using fl ab by simp
  note L = free_chain_links[OF sh fc]
  have room: "int (num_used_accounts e) < max_accounts (params e)"
    by (rule free_slot_room[OF ok i(2,3)])
  have lt: "card (used_set e) < MAX_ACCOUNTS e"
    using i psubset_card_mono[of "{..< MAX_ACCOUNTS e}" "used_set e"]
    by (auto simp: used_set_def is_used_bit)
  then have cnt: "num_used_accounts e < 65535"
    using ok by (auto simp: slab_ok_def slab_shape_def NIL_def)
  then have cnt2: "materialized_account_count e < 65535"
    using ok by (simp add: slab_ok_def)
  have nN: "j < MAX_ACCOUNTS e \<and> j \<noteq> NIL \<and> \<not> is_used e j" if "j \<in> set as \<or> j \<in> set bs" for j
    using free_chain_nil[OF sh fc, of j] that by auto
  have P: "if prev_free e ! i = NIL then free_head e = i
      else prev_free e ! i < length (next_free e) \<and> next_free e ! (prev_free e ! i) = i
        \<and> \<not> is_used e (prev_free e ! i)"
    using L(1-3) nN[of "last as"] sh by (cases "as = []") (simp_all add: slab_shape_def)
  have N: "next_free e ! i \<noteq> NIL \<Longrightarrow> next_free e ! i < length (prev_free e)
        \<and> prev_free e ! (next_free e ! i) = i \<and> \<not> is_used e (next_free e ! i)"
    using L(4,5) nN[of "hd bs"] sh by (cases "bs = []") (simp_all add: slab_shape_def)
  show ?thesis
    unfolding materialize_at_def materialized_def
    using i room cnt cnt2 P N
    by (simp add: Let_def bounds require_def assertion_def set_used_def split: if_splits)
qed

lemma materialize_at_Ok:
  assumes "materialize_at i sl e = (Ok u, e')"
  shows "i < MAX_ACCOUNTS e" "\<not> is_used e i" "int i < max_accounts (params e)"
    "e' = materialized i sl e"
  using assms
  by (auto simp: materialize_at_def materialized_def Let_def Ok_iffs split: if_splits)

lemma materialize_at_Err:
  assumes "materialize_at i sl e = (Err x, e')"
  shows "e' = e"
proof -
  have S: "sval r e k = (Err x, e') \<Longrightarrow> (\<And>v. k v = (Err x, e') \<Longrightarrow> e' = e) \<Longrightarrow> e' = e"
    for r :: "unit outcome" and k :: "unit \<Rightarrow> unit step"
    by (cases r) auto
  show ?thesis
    using assms
    by (auto simp: materialize_at_def Let_def assertion_def split: if_splits elim!: S)
qed


text \<open>Freeing a slot.\<close>

definition freed :: "nat \<Rightarrow> engine \<Rightarrow> engine" where
  "freed i e =
     (let e = upd i (reset_account 0) e;
          e = clear_used i e;
          e = e\<lparr> next_free := (next_free e)[i := free_head e],
                 prev_free := (prev_free e)[i := NIL] \<rparr>;
          e = (if free_head e \<noteq> NIL
               then e\<lparr> prev_free := (prev_free e)[free_head e := i] \<rparr> else e);
          e = e\<lparr> free_head := i \<rparr>;
          e = e\<lparr> num_used_accounts := num_used_accounts e - 1 \<rparr>
      in e\<lparr> materialized_account_count := materialized_account_count e - 1 \<rparr>)"

definition closable :: "account \<Rightarrow> bool" where
  "closable a =
     (pnl a = 0 \<and> reserved_pnl a = 0 \<and> position_basis_q a = 0 \<and> sched_present a = 0
      \<and> pending_present a = 0 \<and> capital a = 0 \<and> fee_credits a = 0)"

lemma freed_simps [simp]:
  "MAX_ACCOUNTS (freed i e) = MAX_ACCOUNTS e"
  "params (freed i e) = params e"
  "num_used_accounts (freed i e) = num_used_accounts e - 1"
  "materialized_account_count (freed i e) = materialized_account_count e - 1"
  "accounts (freed i e) = (accounts e)[i := reset_account 0 (accounts e ! i)]"
  "free_head (freed i e) = i"
  "next_free (freed i e) = (next_free e)[i := free_head e]"
  "prev_free (freed i e) =
     (if free_head e \<noteq> NIL then (prev_free e)[i := NIL, free_head e := i] else (prev_free e)[i := NIL])"
  by (simp_all add: freed_def clear_used_def Let_def upd_def)

lemma is_used_freed:
  assumes "slab_shape e" "i < MAX_ACCOUNTS e"
  shows "is_used (freed i e) j \<longleftrightarrow> j \<noteq> i \<and> is_used e j"
proof -
  have "is_used (freed i e) j = is_used (clear_used i e) j"
    by (rule is_used_cong) (simp_all add: freed_def clear_used_def Let_def upd_def)
  then show ?thesis using is_used_clear_used[OF assms] by simp
qed

lemma free_slot_Ok:
  assumes "free_slot i e = (Ok u, e')"
  shows "i < MAX_ACCOUNTS e" "is_used e i" "closable (accounts e ! i)" "e' = freed i e"
    "num_used_accounts e \<noteq> 0"
  using assms
  by (auto simp: free_slot_def freed_def closable_def Let_def Ok_iffs upd_def clear_used_def
        split: if_splits)

lemma freed_chain:
  assumes sh: "slab_shape e" and fc: "free_chain e fl" and i: "i < MAX_ACCOUNTS e" "is_used e i"
  shows "free_chain (freed i e) (i # fl)"
proof -
  have nfl: "i \<notin> set fl" using fc i by (auto simp: free_chain_def)
  have iN: "i < length (next_free e)" "i < length (prev_free e)" "i \<noteq> NIL"
    using sh i by (auto simp: slab_shape_def)
  have sg: "seg (next_free e) (prev_free e) NIL (free_head e) fl NIL"
    using fc by (simp add: free_chain_def)
  have head: "(free_head e = NIL) = (fl = [])" "fl \<noteq> [] \<Longrightarrow> free_head e = hd fl"
    using sg free_chain_nil[OF sh fc] by (cases fl; auto)+
  have "seg (next_free (freed i e)) (prev_free (freed i e)) NIL i (i # fl) NIL"
  proof (cases fl)
    case Nil
    then show ?thesis using iN head by simp
  next
    case (Cons y ys)
    have y: "free_head e = y" "y \<noteq> NIL" using head Cons by auto
    have yi: "y \<noteq> i" "i \<notin> set ys" using nfl Cons by auto
    have yN: "y < length (prev_free e)" "y \<notin> set ys"
      using fc Cons sh by (auto simp: free_chain_def slab_shape_def)
    have "seg (next_free e) (prev_free e) NIL y (y # ys) NIL" using sg Cons y by simp
    then have "seg ((next_free e)[i := y]) ((prev_free e)[i := NIL]) NIL y (y # ys) NIL"
      using yi by (simp add: seg_frame)
    then have "seg ((next_free e)[i := y]) ((prev_free e)[i := NIL, y := i]) i y (y # ys) NIL"
      using yN by (intro seg_redirect_first) auto
    then show ?thesis using y yi iN Cons by simp
  qed
  moreover have "set (i # fl) = {j. j < MAX_ACCOUNTS (freed i e) \<and> \<not> is_used (freed i e) j}"
    using fc i is_used_freed[OF sh i(1)] by (auto simp: free_chain_def)
  ultimately show ?thesis
    using fc nfl by (simp add: free_chain_def)
qed

lemma vacant_reset: "vacant (reset_account 0 a)"
  by (simp add: vacant_def reset_account_eq) (simp add: empty_account_def)

lemma freed_ok:
  assumes ok: "slab_ok e" and i: "i < MAX_ACCOUNTS e" "is_used e i"
  shows "slab_ok (freed i e)"
proof -
  have sh: "slab_shape e" using ok by (simp add: slab_ok_def)
  note U = is_used_freed[OF sh i(1)]
  obtain fl where fl: "free_chain e fl" using ok by (auto simp: slab_ok_def)
  have "used_set (freed i e) = used_set e - {i}"
    by (auto simp: used_set_def U)
  moreover have iu: "i \<in> used_set e" using i by (simp add: used_set_def)
  ultimately have "card (used_set (freed i e)) = card (used_set e) - 1"
    using used_set_finite by simp
  moreover have "card (used_set e) \<ge> 1"
    using iu used_set_finite by (metis One_nat_def Suc_leI card_gt_0_iff empty_iff)
  moreover have "slab_shape (freed i e)"
    using sh by (simp add: slab_shape_def freed_def Let_def clear_used_def upd_def)
  moreover have "free_chain (freed i e) (i # fl)"
    by (rule freed_chain[OF sh fl i])
  ultimately show ?thesis
    using ok i(1) by (auto simp: slab_ok_def U nth_list_update vacant_reset)
qed

lemma free_slot_closable:
  assumes ok: "slab_ok e" and i: "is_used e i" and z: "closable (accounts e ! i)"
  shows "free_slot i e = (Ok (), freed i e)"
proof -
  have sh: "slab_shape e" using ok by (simp add: slab_ok_def)
  have iM: "i < MAX_ACCOUNTS e" using i by (simp add: is_used_bit)
  obtain fl where fl: "free_chain e fl" using ok by (auto simp: slab_ok_def)
  have h: "free_head e \<noteq> NIL \<Longrightarrow> free_head e < MAX_ACCOUNTS e"
    using fl free_chain_nil(1)[OF sh fl, of "free_head e"] by (cases fl) (auto simp: free_chain_def)
  have "0 < card (used_set e)"
    using i used_set_finite[of e] by (auto simp: used_set_def card_gt_0_iff)
  then have n: "num_used_accounts e \<noteq> 0" "\<not> materialized_account_count e < 1"
    using ok by (auto simp: slab_ok_def)
  have len: "length (prev_free e) = MAX_ACCOUNTS e" using sh by (simp add: slab_shape_def)
  show ?thesis
    using h n iM i z len
    by (simp add: free_slot_def freed_def closable_def Let_def clear_used_def upd_def assertion_def)
qed

text \<open>
  \<open>for_each_used\<close> visits exactly the used slots, each once: the closure bodies of the code only
  accumulate, so this is the fact their callers rest on.
\<close>

lemma trailing_zeros_props:
  fixes w :: "64 word"
  assumes "w \<noteq> 0"
  shows "trailing_zeros w < 64" "bit w (trailing_zeros w)" "i < trailing_zeros w \<Longrightarrow> \<not> bit w i"
proof -
  let ?P = "\<lambda>i. \<not> bit w i"
  obtain k where k: "bit w k" using assms by (metis bit_0_eq bit_eqI bot_apply bot_bool_def)
  then have ex: "\<exists>i < 64. bit w i" using bit_imp_le_length[OF k] by auto
  show lt: "trailing_zeros w < 64"
  proof (rule ccontr)
    assume "\<not> trailing_zeros w < 64"
    then have "takeWhile ?P [0..<64] = [0..<64]"
      by (metis length_takeWhile_le length_upt diff_zero nat_less_le not_le takeWhile_eq_take take_all trailing_zeros_def)
    then have "\<forall>i \<in> set [0..<64]. ?P i" by (simp add: takeWhile_eq_all_conv)
    then show False using ex by auto
  qed
  show "bit w (trailing_zeros w)"
    using nth_length_takeWhile[of ?P "[0..<64]"] lt by (simp add: trailing_zeros_def)
  show "\<not> bit w i" if "i < trailing_zeros w"
    using takeWhile_nth[of i ?P "[0..<64]"] that lt nth_mem[of i "takeWhile ?P [0..<64]"]
      set_takeWhileD[of "[0..<64] ! i" ?P "[0..<64]"]
    by (simp add: trailing_zeros_def)
qed


lemma clear_lowest_bit:
  fixes w :: "64 word"
  assumes "w \<noteq> 0"
  shows "bit (w AND (w - 1)) j \<longleftrightarrow> bit w j \<and> j \<noteq> trailing_zeros w"
proof -
  let ?t = "trailing_zeros w"
  define k where "k = Suc ?t"
  let ?h = "push_bit k (drop_bit k w)"
  note T = trailing_zeros_props[OF assms]
  have h: "bit ?h i \<longleftrightarrow> ?t < i \<and> bit w i" for i
    using bit_imp_le_length[of w i]
    by (auto simp: bit_push_bit_iff bit_drop_bit_eq k_def[symmetric] Suc_le_eq[symmetric])
  have t64: "?t < 64" using T(1) .
  have "w = ?h OR 2 ^ ?t"
    using T(2,3) t64
    by (intro bit_eqI) (auto simp: bit_or_iff h bit_exp_iff dest: linorder_neqE_nat)
  also have "\<dots> = ?h + 2 ^ ?t"
    by (rule disjunctive_add_eq_or[symmetric])
      (auto intro!: bit_eqI simp: bit_and_iff h bit_exp_iff)
  finally have "w - 1 = ?h + mask ?t"
    by (simp add: mask_eq_exp_minus_1)
  also have "\<dots> = ?h OR mask ?t"
    by (rule disjunctive_add_eq_or) (auto intro!: bit_eqI simp: bit_and_iff h bit_mask_iff)
  finally have w1: "w - 1 = ?h OR mask ?t" .
  show ?thesis
    unfolding w1 using T(2,3)
    by (auto simp: bit_and_iff bit_or_iff h bit_mask_iff dest: linorder_neqE_nat)
qed

lemma word_bits_spec:
  assumes "card {i. bit w i} \<le> n"
  shows "set (word_bits n w) = {i. bit w i} \<and> sorted_wrt (<) (word_bits n w)"
  using assms
proof (induction n arbitrary: w)
  case 0
  have "finite {i. bit w i}" by (rule finite_subset[of _ "{..<64}"]) (auto dest: bit_imp_le_length)
  then show ?case using 0 by simp
next
  case (Suc n)
  show ?case
  proof (cases "w = 0")
    case True
    then show ?thesis by simp
  next
    case False
    let ?v = "w AND (w - 1)"
    have v: "{i. bit ?v i} = {i. bit w i} - {trailing_zeros w}"
      using clear_lowest_bit[OF False] by auto
    have "finite {i. bit w i}" by (rule finite_subset[of _ "{..<64}"]) (auto dest: bit_imp_le_length)
    then have "card {i. bit ?v i} \<le> n"
      using Suc.prems trailing_zeros_props(2)[OF False] unfolding v by simp
    then have IH: "set (word_bits n ?v) = {i. bit ?v i}" "sorted_wrt (<) (word_bits n ?v)"
      using Suc.IH by auto
    have "trailing_zeros w < i" if "i \<in> {i. bit ?v i}" for i
      using that trailing_zeros_props(3)[OF False, of i] unfolding v
      by (auto dest: linorder_neqE_nat)
    then show ?thesis
      using False IH v trailing_zeros_props(2)[OF False] by auto
  qed
qed

lemma word_bits_64:
  "set (word_bits 64 w) = {i. bit w i}" "sorted_wrt (<) (word_bits 64 w)"
proof -
  have "{i. bit w i} \<subseteq> {..<64}" by (auto dest: bit_imp_le_length)
  then have "card {i. bit w i} \<le> 64" using card_mono[of "{..<64::nat}"] by fastforce
  then show "set (word_bits 64 w) = {i. bit w i}" "sorted_wrt (<) (word_bits 64 w)"
    using word_bits_spec by auto
qed

lemma for_each_used_set:
  assumes "slab_shape e"
  shows "set (for_each_used e) = used_set e"
proof -
  have "j \<in> used_set e \<longleftrightarrow> j \<in> set (for_each_used e)" for j
  proof
    assume "j \<in> used_set e"
    then have j: "j < MAX_ACCOUNTS e" "bit (used e ! (j div 64)) (j mod 64)"
      by (auto simp: used_set_def is_used_bit)
    then have "(j div 64, used e ! (j div 64)) \<in> set (zip [0..<length (used e)] (used e))"
      using used_index[OF assms j(1)] by (force simp: set_zip)
    then show "j \<in> set (for_each_used e)"
      using j word_bits_64(1) unfolding for_each_used_def
      by (auto intro!: bexI[of _ "(j div 64, used e ! (j div 64))"] image_eqI[of _ _ "j mod 64"])
  next
    assume "j \<in> set (for_each_used e)"
    then obtain n b where "n < length (used e)" "j < MAX_ACCOUNTS e" "bit (used e ! n) b" "j = n * 64 + b"
      unfolding for_each_used_def by (auto simp: set_zip word_bits_64(1))
    moreover have "b < 64" using calculation(3) by (auto dest: bit_imp_le_length)
    ultimately show "j \<in> used_set e" by (simp add: used_set_def is_used_bit)
  qed
  then show ?thesis by blast
qed


section \<open>Initialisation establishes the invariant\<close>

lemma seg_identity:
  assumes "\<And>j. j < n \<Longrightarrow> nx ! j = (if j + 1 < n then j + 1 else NIL)"
    and "\<And>j. j < n \<Longrightarrow> pv ! j = (if j = 0 then NIL else j - 1)"
    and "m < n"
  shows "seg nx pv (if m = 0 then NIL else m - 1) m [m..<n] NIL"
  using assms(3)
proof (induction "n - m" arbitrary: m)
  case 0
  then show ?case by simp
next
  case (Suc k)
  have e: "[m..<n] = m # [Suc m..<n]" using Suc.prems by (simp add: upt_conv_Cons)
  show ?case
  proof (cases "Suc m < n")
    case True
    then have "seg nx pv m (Suc m) [Suc m..<n] NIL" using Suc.hyps(1)[of "Suc m"] Suc.hyps(2) by simp
    then show ?thesis using e assms(1)[of m] assms(2)[of m] True Suc.prems by simp
  next
    case False
    then show ?thesis using e assms(1)[of m] assms(2)[of m] Suc.prems by simp
  qed
qed

lemma link_fold:
  assumes "k < n" "n \<le> NIL" "length (next_free e) = n" "length (prev_free e) = n"
    and "prev_free e ! 0 = NIL"
  defines "e' \<equiv> fold (\<lambda>i e. e\<lparr> next_free := (next_free e)[i := (i + 1) mod 65536],
                             prev_free := (prev_free e)[i + 1 := i mod 65536] \<rparr>) [0..<k] e"
  shows "(\<exists>nx pv. e' = e\<lparr> next_free := nx, prev_free := pv \<rparr> \<and> length nx = n \<and> length pv = n
           \<and> (\<forall>j < k. nx ! j = j + 1) \<and> pv ! 0 = NIL \<and> (\<forall>j < k. pv ! (j + 1) = j))"
  using assms(1) unfolding e'_def
proof (induction k)
  case 0
  show ?case using assms(3,4,5) by (intro exI[of _ "next_free e"] exI[of _ "prev_free e"]) simp
next
  case (Suc k)
  obtain nx pv where f: "fold (\<lambda>i e. e\<lparr> next_free := (next_free e)[i := (i + 1) mod 65536],
                             prev_free := (prev_free e)[i + 1 := i mod 65536] \<rparr>) [0..<k] e
        = e\<lparr> next_free := nx, prev_free := pv \<rparr>"
    and g: "length nx = n" "length pv = n" "\<forall>j < k. nx ! j = j + 1" "pv ! 0 = NIL"
      "\<forall>j < k. pv ! (j + 1) = j"
    using Suc by auto
  have m: "(k + 1) mod 65536 = k + 1" "k mod 65536 = k"
    using Suc.prems assms(2) by (simp_all add: NIL_def)
  have "nx[k := k + 1] ! j = j + 1" if "j < Suc k" for j
    using that g(1,3) Suc.prems by (cases "j = k") auto
  moreover have "pv[k + 1 := k] ! (j + 1) = j" if "j < Suc k" for j
    using that g(2,5) Suc.prems by (cases "j = k") auto
  moreover have "pv[k + 1 := k] ! 0 = NIL" using g(4) by simp
  ultimately show ?case
    using f g(1,2) m
    by - (rule exI[of _ "nx[k := k + 1]"], rule exI[of _ "pv[k + 1 := k]"], simp)
qed

definition linked_next :: "nat \<Rightarrow> nat list" where
  "linked_next n = map (\<lambda>j. if j + 1 < n then j + 1 else NIL) [0..<n]"

definition linked_prev :: "nat \<Rightarrow> nat list" where
  "linked_prev n = map (\<lambda>j. if j = 0 then NIL else j - 1) [0..<n]"

lemma build_free_list_spec:
  assumes "0 < n" "n \<le> NIL" "MAX_ACCOUNTS e = n" "length (next_free e) = n" "length (prev_free e) = n"
  shows "build_free_list e = e\<lparr> next_free := linked_next n, prev_free := linked_prev n \<rparr>"
proof -
  let ?e0 = "e\<lparr> prev_free := (prev_free e)[0 := NIL] \<rparr>"
  let ?F = "fold (\<lambda>i e. e\<lparr> next_free := (next_free e)[i := (i + 1) mod 65536],
                             prev_free := (prev_free e)[i + 1 := i mod 65536] \<rparr>) [0..<n - 1] ?e0"
  obtain nx pv where f: "?F = ?e0\<lparr> next_free := nx, prev_free := pv \<rparr>"
    and g: "length nx = n" "length pv = n" "\<forall>j < n - 1. nx ! j = j + 1" "pv ! 0 = NIL"
      "\<forall>j < n - 1. pv ! (j + 1) = j"
    using link_fold[of "n - 1" n ?e0] assms by auto
  have "nx[n - 1 := NIL] = linked_next n"
  proof (rule nth_equalityI)
    fix j assume "j < length (nx[n - 1 := NIL])"
    then show "nx[n - 1 := NIL] ! j = linked_next n ! j"
      using g(1,3) by (cases "j = n - 1") (auto simp: linked_next_def)
  qed (simp add: linked_next_def g)
  moreover have "pv = linked_prev n"
  proof (rule nth_equalityI)
    fix j assume "j < length pv"
    then show "pv ! j = linked_prev n ! j"
      using g(2,4) g(5)[rule_format, of "j - 1"] by (cases j) (auto simp: linked_prev_def)
  qed (simp add: linked_prev_def g)
  ultimately show ?thesis
    using f assms(3) by (simp add: build_free_list_def Let_def)
qed

lemma linked_seg:
  assumes "0 < n"
  shows "seg (linked_next n) (linked_prev n) NIL 0 [0..<n] NIL"
  using seg_identity[of n "linked_next n" "linked_prev n" 0] assms
  by (simp add: linked_next_def linked_prev_def)

text \<open>
  \<open>init_in_place\<close> on memory of the right shape, whatever its contents, yields the engine
  \<open>new_with_market\<close> builds.
\<close>

lemma reset_all: "map (reset_account 0) as = replicate (length as) empty_account"
  by (induction as) (simp_all add: reset_account_eq empty_account_def)

lemma init_in_place_new:
  assumes m: "slab_shape e"
  shows "init_in_place p slot px e =
     (case new_with_market (MAX_ACCOUNTS e) p slot px of
        Ok e' \<Rightarrow> (Ok (), e') | Err x \<Rightarrow> (Err x, e) | Panic \<Rightarrow> (Panic, e))"
proof -
  have usd: "map (\<lambda>_. 0) (used e) = replicate ((MAX_ACCOUNTS e + 63) div 64) 0"
    using m by (simp add: slab_shape_def map_replicate_const)
  have b: "build_free_list x = x\<lparr> next_free := linked_next (MAX_ACCOUNTS e), prev_free := linked_prev (MAX_ACCOUNTS e) \<rparr>"
    if "MAX_ACCOUNTS x = MAX_ACCOUNTS e" "length (next_free x) = MAX_ACCOUNTS e"
      "length (prev_free x) = MAX_ACCOUNTS e" for x
    using that m by (intro build_free_list_spec) (auto simp: slab_shape_def)
  have len: "length (next_free e) = MAX_ACCOUNTS e" "length (prev_free e) = MAX_ACCOUNTS e"
    using m by (auto simp: slab_shape_def)
  show ?thesis
    by (cases "validate_params (MAX_ACCOUNTS e) p")
      (simp_all add: init_in_place_def new_with_market_def blank_engine_def Let_def usd reset_all b len assertion_def)
qed

lemma new_with_market_slab:
  assumes r: "new_with_market n p slot px = Ok e" and n: "n \<le> NIL" and t: "params_typed p"
  shows "slab_ok e" "params e = p" "MAX_ACCOUNTS e = n" "params_ok n p"
    "accounts e = replicate n empty_account" "\<And>i. \<not> is_used e i"
proof -
  show ok: "params_ok n p"
    using r validate_params_iff[OF t, of n] by (auto simp: new_with_market_def Ok_iffs)
  then have n0: "0 < n" by (auto simp: params_ok_def)
  have e: "accounts e = replicate n empty_account" "next_free e = linked_next n"
    "prev_free e = linked_prev n" "used e = replicate ((n + 63) div 64) 0" "free_head e = 0"
    "num_used_accounts e = 0" "materialized_account_count e = 0" "params e = p"
    using r n n0
    by (auto simp: new_with_market_def Ok_iffs build_free_list_spec[of n] blank_engine_def)
  show "accounts e = replicate n empty_account" "params e = p" "MAX_ACCOUNTS e = n" using e by simp_all
  show U: "\<not> is_used e i" for i
  proof -
    have "i < n \<Longrightarrow> i div 64 < (n + 63) div 64" by auto
    then show ?thesis using e by (auto simp: is_used_bit)
  qed
  have "slab_shape e"
    using e n n0 by (simp add: slab_shape_def linked_next_def linked_prev_def)
  moreover have "free_chain e [0..<n]"
    using e linked_seg[OF n0] U by (auto simp: free_chain_def)
  ultimately show "slab_ok e"
    using e U by (auto simp: slab_ok_def used_set_def vacant_def)
qed


text \<open>The fresh engine in closed form.\<close>

lemma new_with_market_eq:
  assumes "params_typed p" "params_ok n p" "n \<le> NIL" "0 < px" "px \<le> MAX_ORACLE_PRICE"
  shows "new_with_market n p slot px =
    Ok ((blank_engine n p slot px)\<lparr> next_free := linked_next n, prev_free := linked_prev n \<rparr>)"
proof -
  have "0 < n" using assms(2) by (auto simp: params_ok_def)
  moreover have "validate_params n p = Ok ()" using validate_params_iff assms(1,2) by blast
  ultimately show ?thesis
    using assms(3-5)
    by (simp add: new_with_market_def assertion_def build_free_list_spec[of n] blank_engine_def)
qed

end
