(* ===== verification/Reserve.thy ===== *)
theory Reserve
  imports Slab
begin

text \<open>
  The two-bucket warm-up reserve of \<open>src/src/percolator.rs\<close>: \<open>validate_reserve_shape\<close>,
  \<open>append_or_route_new_reserve\<close>, \<open>apply_reserve_loss_newest_first\<close>, \<open>advance_profit_warmup\<close> and
  the two admission rules.  The predicate \<open>reserve_ok\<close> is what the code's validation accepts; the
  account-level operations keep it.
\<close>

section \<open>Bucket operations\<close>

definition sched_r :: "account \<Rightarrow> int" where
  "sched_r a = (if sched_present a \<noteq> 0 then sched_remaining_q a else 0)"

definition pend_r :: "account \<Rightarrow> int" where
  "pend_r a = (if pending_present a \<noteq> 0 then pending_remaining_q a else 0)"

definition validate_reserve_shape :: "risk_params \<Rightarrow> account \<Rightarrow> unit outcome" where
  "validate_reserve_shape p a =
     rthen (if sched_present a = 0
            then require (\<not> (sched_remaining_q a \<noteq> 0 \<or> sched_anchor_q a \<noteq> 0
                   \<or> sched_start_slot a \<noteq> 0 \<or> sched_horizon a \<noteq> 0
                   \<or> sched_release_q a \<noteq> 0)) CorruptState
            else
              rthen (require (sched_horizon a \<noteq> 0) CorruptState) (\<lambda>_.
              rthen (require (\<not> sched_horizon a < h_min p) CorruptState) (\<lambda>_.
              rthen (require (\<not> sched_horizon a > h_max p) CorruptState) (\<lambda>_.
              rthen (require (\<not> sched_release_q a > sched_anchor_q a) CorruptState) (\<lambda>_.
              rthen (ok_or CorruptState (fit_u128 (sched_remaining_q a + sched_release_q a)))
                (\<lambda>used'. require (\<not> used' > sched_anchor_q a) CorruptState)))))) (\<lambda>_.
     rthen (require (\<not> (sched_present a \<noteq> 0 \<and> sched_remaining_q a = 0)) CorruptState) (\<lambda>_.
     rthen (if pending_present a = 0
            then require (\<not> (pending_remaining_q a \<noteq> 0 \<or> pending_horizon a \<noteq> 0
                   \<or> pending_created_slot a \<noteq> 0)) CorruptState
            else
              rthen (require (pending_horizon a \<noteq> 0) CorruptState) (\<lambda>_.
              rthen (require (\<not> pending_horizon a < h_min p) CorruptState) (\<lambda>_.
              rthen (require (\<not> pending_horizon a > h_max p) CorruptState) (\<lambda>_.
                require (pending_remaining_q a \<noteq> 0) CorruptState)))) (\<lambda>_.
     rthen (ok_or CorruptState (fit_u128 (sched_r a + pend_r a))) (\<lambda>total.
     rthen (require (total = reserved_pnl a) CorruptState) (\<lambda>_.
     let pos_pnl = (if pnl a > 0 then pnl a else 0) in
     require (\<not> reserved_pnl a > pos_pnl) CorruptState)))))"

text \<open>Promotion of the pending bucket, the same field assignments at each place that does it.\<close>

definition promote_pending :: "int \<Rightarrow> account \<Rightarrow> account" where
  "promote_pending now a = a\<lparr>
     sched_present := 1, sched_remaining_q := pending_remaining_q a,
     sched_anchor_q := pending_remaining_q a, sched_start_slot := now,
     sched_horizon := pending_horizon a, sched_release_q := 0,
     pending_present := 0, pending_remaining_q := 0, pending_horizon := 0,
     pending_created_slot := 0 \<rparr>"

definition append_or_route_acct :: "risk_params \<Rightarrow> int \<Rightarrow> int \<Rightarrow> int \<Rightarrow> account
    \<Rightarrow> unit outcome \<times> account" where
  "append_or_route_acct p reserve_add now_slot h_lock a =
     sval (validate_reserve_shape p a) a (\<lambda>_.
     let a = (if sched_present a = 0 \<and> pending_present a \<noteq> 0 then promote_pending now_slot a else a)
     in
     sthen
       (if sched_present a = 0 then
          (Ok (), a\<lparr> sched_present := 1, sched_remaining_q := reserve_add,
                     sched_anchor_q := reserve_add, sched_start_slot := now_slot,
                     sched_horizon := h_lock, sched_release_q := 0 \<rparr>)
        else if sched_present a \<noteq> 0 \<and> pending_present a = 0 \<and> sched_start_slot a = now_slot
                \<and> sched_horizon a = h_lock \<and> sched_release_q a = 0 then
          sval (ok_or Overflow (fit_u128 (sched_remaining_q a + reserve_add))) a (\<lambda>r.
          let a = a\<lparr> sched_remaining_q := r \<rparr> in
          sval (ok_or Overflow (fit_u128 (sched_anchor_q a + reserve_add))) a (\<lambda>q.
            (Ok (), a\<lparr> sched_anchor_q := q \<rparr>)))
        else if pending_present a = 0 then
          (Ok (), a\<lparr> pending_present := 1, pending_remaining_q := reserve_add,
                     pending_horizon := h_lock, pending_created_slot := now_slot \<rparr>)
        else
          sval (ok_or Overflow (fit_u128 (pending_remaining_q a + reserve_add))) a (\<lambda>r.
            (Ok (), a\<lparr> pending_remaining_q := r,
                       pending_horizon := max (pending_horizon a) h_lock \<rparr>)))
       (\<lambda>_ a.
          sval (ok_or Overflow (fit_u128 (reserved_pnl a + reserve_add))) a (\<lambda>r.
            (Ok (), a\<lparr> reserved_pnl := r \<rparr>))))"

definition append_or_route_new_reserve :: "nat \<Rightarrow> int \<Rightarrow> int \<Rightarrow> int \<Rightarrow> engine \<Rightarrow> unit step" where
  "append_or_route_new_reserve idx reserve_add now_slot h_lock e =
     on_acct idx (append_or_route_acct (params e) reserve_add now_slot h_lock) e"

definition consume_pending :: "int \<Rightarrow> account \<Rightarrow> account" where
  "consume_pending take_pend a =
     (if take_pend > 0 then
        let a = a\<lparr> pending_remaining_q := pending_remaining_q a - take_pend \<rparr> in
        if pending_remaining_q a = 0
        then a\<lparr> pending_present := 0, pending_horizon := 0, pending_created_slot := 0 \<rparr>
        else a
      else a)"

definition consume_sched :: "int \<Rightarrow> account \<Rightarrow> account" where
  "consume_sched take_sched a =
     (if take_sched > 0 then
        let a = a\<lparr> sched_remaining_q := sched_remaining_q a - take_sched \<rparr> in
        if sched_remaining_q a = 0
        then a\<lparr> sched_present := 0, sched_anchor_q := 0, sched_start_slot := 0,
                sched_horizon := 0, sched_release_q := 0 \<rparr>
        else a
      else a)"

definition apply_reserve_loss_acct :: "risk_params \<Rightarrow> int \<Rightarrow> account \<Rightarrow> unit outcome \<times> account" where
  "apply_reserve_loss_acct p reserve_loss a =
     sval (validate_reserve_shape p a) a (\<lambda>_.
     let pend_avail = pend_r a; sched_avail = sched_r a in
     sval (ok_or CorruptState (fit_u128 (pend_avail + sched_avail))) a (\<lambda>total_avail.
     sval (require (\<not> reserve_loss > total_avail) CorruptState) a (\<lambda>_.
     sval (ok_or CorruptState (fit_u128 (reserved_pnl a - reserve_loss))) a (\<lambda>new_reserved_pnl.
     let take_pend = min reserve_loss pend_avail;
         take_sched = reserve_loss - take_pend
     in (Ok (), (consume_sched take_sched (consume_pending take_pend a))
                  \<lparr> reserved_pnl := new_reserved_pnl \<rparr>)))))"

definition apply_reserve_loss_newest_first :: "nat \<Rightarrow> int \<Rightarrow> engine \<Rightarrow> unit step" where
  "apply_reserve_loss_newest_first idx reserve_loss e =
     on_acct idx (apply_reserve_loss_acct (params e) reserve_loss) e"

text \<open>The clearing of both buckets and of the reserve.\<close>

definition clear_reserve :: "account \<Rightarrow> account" where
  "clear_reserve a = a\<lparr>
     sched_present := 0, sched_remaining_q := 0, sched_anchor_q := 0, sched_start_slot := 0,
     sched_horizon := 0, sched_release_q := 0,
     pending_present := 0, pending_remaining_q := 0, pending_horizon := 0,
     pending_created_slot := 0, reserved_pnl := 0 \<rparr>"

definition prepare_account_for_resolved_touch :: "nat \<Rightarrow> engine \<Rightarrow> unit step" where
  "prepare_account_for_resolved_touch idx e =
     sacct e idx (\<lambda>a. (Ok (), upd idx clear_reserve e))"

text \<open>Steps 10 to 12 of \<open>advance_profit_warmup\<close>, on the account.\<close>

definition warmup_settle_acct :: "int \<Rightarrow> int \<Rightarrow> account \<Rightarrow> unit outcome \<times> account" where
  "warmup_settle_acct now sched_total a =
     (let a = a\<lparr> sched_release_q := sched_total \<rparr>;
          a = (if sched_remaining_q a = 0
               then
                 let a = a\<lparr> sched_present := 0, sched_anchor_q := 0, sched_start_slot := 0,
                            sched_horizon := 0, sched_release_q := 0 \<rparr> in
                 if pending_present a \<noteq> 0 then promote_pending now a else a
               else a)
      in
      if reserved_pnl a = 0 \<and> (sched_present a \<noteq> 0 \<or> pending_present a \<noteq> 0)
      then (Err CorruptState, a)
      else (Ok (), a))"

text \<open>Steps 7 to 12, for the slot contents \<open>a\<close> and the scheduled total computed in step 5.\<close>

definition warmup_release :: "nat \<Rightarrow> account \<Rightarrow> int \<Rightarrow> engine \<Rightarrow> unit step" where
  "warmup_release idx a sched_total e =
     (let sched_increment = sched_total - sched_release_q a;
          release = min (sched_remaining_q a) sched_increment
      in
      sthen
        (if release > 0 then
           sval (ok_or CorruptState (fit_u128 (sched_remaining_q a - release))) e (\<lambda>x.
           let e = upd idx (\<lambda>a. a\<lparr> sched_remaining_q := x \<rparr>) e in
           sval (ok_or CorruptState (fit_u128 (reserved_pnl a - release))) e (\<lambda>y.
           let e = upd idx (\<lambda>a. a\<lparr> reserved_pnl := y \<rparr>) e in
           sval (ok_or Overflow (fit_u128 (pnl_matured_pos_tot e + release))) e (\<lambda>m.
             (Ok (), e\<lparr> pnl_matured_pos_tot := m \<rparr>))))
         else (Ok (), e))
        (\<lambda>_ e. on_acct idx (warmup_settle_acct (current_slot e) sched_total) e))"

definition advance_profit_warmup :: "nat \<Rightarrow> engine \<Rightarrow> unit step" where
  "advance_profit_warmup idx e =
     sacct e idx (\<lambda>a.
     sval (validate_reserve_shape (params e) a) e (\<lambda>_.
     if reserved_pnl a = 0 then (Ok (), e)
     else
       let a = (if sched_present a = 0 \<and> pending_present a \<noteq> 0
                then promote_pending (current_slot e) a else a);
           e = upd idx (\<lambda>_. a) e
       in
       sval (require (sched_present a \<noteq> 0) CorruptState) e (\<lambda>_.
       sval (require (\<not> current_slot e < sched_start_slot a) CorruptState) e (\<lambda>_.
       let elapsed = current_slot e - sched_start_slot a in
       sval (require (sched_horizon a \<noteq> 0) CorruptState) e (\<lambda>_.
       sval (if elapsed \<ge> sched_horizon a then Ok (sched_anchor_q a)
             else mul_div_floor_u128 (sched_anchor_q a) elapsed (sched_horizon a)) e (\<lambda>sched_total.
       sval (require (\<not> sched_total < sched_release_q a) CorruptState) e (\<lambda>_.
       warmup_release idx a sched_total e)))))))"

section \<open>Admission\<close>

definition senior_claims :: "engine \<Rightarrow> int outcome" where
  "senior_claims e = ok_or Overflow (fit_u128 (c_tot e + balance (insurance_fund e)))"

definition admit_fresh_reserve_h_lock ::
  "nat \<Rightarrow> int \<Rightarrow> int \<Rightarrow> int \<Rightarrow> instruction_context \<Rightarrow> engine \<Rightarrow> (int \<times> instruction_context) outcome"
where
  "admit_fresh_reserve_h_lock idx fresh_positive_pnl admit_h_min admit_h_max ctx e =
     (if is_h_max_sticky ctx (idx mod 65536) then Ok (admit_h_max, ctx)
      else
        rthen (senior_claims e) (\<lambda>senior.
        rthen (ok_or CorruptState (fit_u128 (vault e - senior))) (\<lambda>residual.
        rthen (ok_or Overflow (fit_u128 (pnl_matured_pos_tot e + fresh_positive_pnl)))
          (\<lambda>matured_plus_fresh.
        let admitted_h_eff = (if matured_plus_fresh \<le> residual then admit_h_min else admit_h_max) in
        if admitted_h_eff = admit_h_max then
          let (b, ctx') = mark_h_max_sticky (idx mod 65536) ctx in
          if b then Ok (admitted_h_eff, ctx') else Err Overflow
        else Ok (admitted_h_eff, ctx)))))"

definition admit_outstanding_reserve_on_touch :: "nat \<Rightarrow> engine \<Rightarrow> unit step" where
  "admit_outstanding_reserve_on_touch idx e =
     (if market_mode e \<noteq> Live then (Ok (), e)
      else
        sacct e idx (\<lambda>a.
        sval (validate_reserve_shape (params e) a) e (\<lambda>_.
        sval (ok_or CorruptState (fit_u128 (sched_r a + pend_r a))) e (\<lambda>reserve_total.
        if reserve_total = 0 then (Ok (), e)
        else
          sval (senior_claims e) e (\<lambda>senior.
          sval (ok_or CorruptState (fit_u128 (vault e - senior))) e (\<lambda>residual.
          sval (ok_or Overflow (fit_u128 (pnl_matured_pos_tot e + reserve_total))) e (\<lambda>new_matured.
          if new_matured > residual then (Ok (), e)
          else if new_matured > pnl_pos_tot e then (Err CorruptState, e)
          else
            let e = e\<lparr> pnl_matured_pos_tot := new_matured \<rparr>
            in (Ok (), upd idx clear_reserve e))))))))"


section \<open>The shape of the reserve\<close>

text \<open>
  \<open>buckets_ok p a\<close> is what \<open>validate_reserve_shape\<close> tests of the two buckets, with the ranges of
  the fields; \<open>reserve_ok\<close> adds that the reserve is backed by positive PnL.
\<close>

definition sched_ok :: "risk_params \<Rightarrow> account \<Rightarrow> bool" where
  "sched_ok p a =
     (if sched_present a = 0
      then sched_remaining_q a = 0 \<and> sched_anchor_q a = 0 \<and> sched_start_slot a = 0
           \<and> sched_horizon a = 0 \<and> sched_release_q a = 0
      else sched_horizon a \<noteq> 0 \<and> h_min p \<le> sched_horizon a \<and> sched_horizon a \<le> h_max p
           \<and> 0 \<le> sched_release_q a \<and> 0 < sched_remaining_q a
           \<and> sched_remaining_q a + sched_release_q a \<le> sched_anchor_q a \<and> in_u128 (sched_anchor_q a))"

definition pending_ok :: "risk_params \<Rightarrow> account \<Rightarrow> bool" where
  "pending_ok p a =
     (if pending_present a = 0
      then pending_remaining_q a = 0 \<and> pending_horizon a = 0 \<and> pending_created_slot a = 0
      else pending_horizon a \<noteq> 0 \<and> h_min p \<le> pending_horizon a \<and> pending_horizon a \<le> h_max p
           \<and> 0 < pending_remaining_q a)"

definition buckets_ok :: "risk_params \<Rightarrow> account \<Rightarrow> bool" where
  "buckets_ok p a =
     (sched_ok p a \<and> pending_ok p a
      \<and> reserved_pnl a = sched_remaining_q a + pending_remaining_q a \<and> in_u128 (reserved_pnl a))"

definition reserve_ok :: "risk_params \<Rightarrow> account \<Rightarrow> bool" where
  "reserve_ok p a = (buckets_ok p a \<and> reserved_pnl a \<le> max 0 (pnl a))"

lemmas bucket_defs = buckets_ok_def sched_ok_def pending_ok_def

lemma bucket_reads:
  assumes "buckets_ok p a"
  shows "sched_r a = sched_remaining_q a" "pend_r a = pending_remaining_q a"
    "0 \<le> sched_remaining_q a" "0 \<le> pending_remaining_q a" "0 \<le> reserved_pnl a"
  using assms by (auto simp: bucket_defs sched_r_def pend_r_def in_u128_def split: if_splits)

lemma validate_complete:
  assumes "reserve_ok p a"
  shows "validate_reserve_shape p a = Ok ()"
proof -
  have u: "in_u128 (sched_remaining_q a + sched_release_q a)" if "sched_present a \<noteq> 0"
    using assms that by (simp add: reserve_ok_def bucket_defs in_u128_def)
  have b: "buckets_ok p a" and m: "reserved_pnl a \<le> max 0 (pnl a)"
    using assms by (simp_all add: reserve_ok_def)
  have t: "sched_r a + pend_r a = reserved_pnl a" "in_u128 (reserved_pnl a)"
    using b bucket_reads(1,2)[OF b] by (auto simp: buckets_ok_def)
  have S: "sched_ok p a" "pending_ok p a" using b by (simp_all add: buckets_ok_def)
  show ?thesis
    using S m u
    by (cases "sched_present a = 0"; cases "pending_present a = 0")
      (simp_all add: validate_reserve_shape_def sched_ok_def pending_ok_def require_def Let_def
        fit_u128_def t max_def split: if_splits)
qed

text \<open>For fields in the ranges of their types, the validation accepts exactly the well-shaped reserves.\<close>

definition reserve_typed :: "account \<Rightarrow> bool" where
  "reserve_typed a =
     (0 \<le> sched_remaining_q a \<and> 0 \<le> sched_release_q a \<and> in_u128 (sched_anchor_q a)
      \<and> 0 \<le> pending_remaining_q a \<and> in_u128 (reserved_pnl a))"

lemma validate_reserve_iff:
  assumes "reserve_typed a"
  shows "validate_reserve_shape p a = Ok () \<longleftrightarrow> reserve_ok p a"
proof
  assume "validate_reserve_shape p a = Ok ()"
  then show "reserve_ok p a"
    using assms
    by (auto simp: validate_reserve_shape_def reserve_ok_def bucket_defs reserve_typed_def Ok_iffs
          Let_def sched_r_def pend_r_def split: if_splits)
qed (rule validate_complete)

lemma okR_validate:
  assumes "reserve_ok p a"
  shows "okR (validate_reserve_shape p a) P = P ()"
  using validate_complete[OF assms] by simp

text \<open>Everything of an account but its PnL and its reserve.\<close>

definition core :: "account \<Rightarrow> account" where
  "core a = a\<lparr> pnl := 0, reserved_pnl := 0,
     sched_present := 0, sched_remaining_q := 0, sched_anchor_q := 0, sched_start_slot := 0,
     sched_horizon := 0, sched_release_q := 0,
     pending_present := 0, pending_remaining_q := 0, pending_horizon := 0,
     pending_created_slot := 0 \<rparr>"

lemma core_fields:
  assumes "core a = core b"
  shows "capital a = capital b" "kind a = kind b" "position_basis_q a = position_basis_q b"
    "adl_a_basis a = adl_a_basis b" "adl_k_snap a = adl_k_snap b" "f_snap a = f_snap b"
    "adl_epoch_snap a = adl_epoch_snap b" "fee_credits a = fee_credits b"
    "last_fee_slot a = last_fee_slot b" "owner a = owner b"
    "matcher_program a = matcher_program b" "matcher_context a = matcher_context b"
  using assms by (cases a; cases b; simp add: core_def)+

lemma core_upd [simp]:
  "core (a\<lparr> pnl := x \<rparr>) = core a" "core (a\<lparr> reserved_pnl := x \<rparr>) = core a"
  "core (a\<lparr> sched_present := x \<rparr>) = core a" "core (a\<lparr> sched_remaining_q := x \<rparr>) = core a"
  "core (a\<lparr> sched_anchor_q := x \<rparr>) = core a" "core (a\<lparr> sched_start_slot := x \<rparr>) = core a"
  "core (a\<lparr> sched_horizon := x \<rparr>) = core a" "core (a\<lparr> sched_release_q := x \<rparr>) = core a"
  "core (a\<lparr> pending_present := x \<rparr>) = core a" "core (a\<lparr> pending_remaining_q := x \<rparr>) = core a"
  "core (a\<lparr> pending_horizon := x \<rparr>) = core a" "core (a\<lparr> pending_created_slot := x \<rparr>) = core a"
  by (simp_all add: core_def)

text \<open>A horizon the engine may store in a bucket.\<close>

definition horizon_ok :: "risk_params \<Rightarrow> int \<Rightarrow> bool" where
  "horizon_ok p h = (0 < h \<and> h_min p \<le> h \<and> h \<le> h_max p)"

lemma promote_ok:
  assumes "buckets_ok p a" "sched_present a = 0" "pending_present a \<noteq> 0"
  shows "buckets_ok p (promote_pending now a)" "core (promote_pending now a) = core a"
    "pnl (promote_pending now a) = pnl a" "reserved_pnl (promote_pending now a) = reserved_pnl a"
    "sched_present (promote_pending now a) \<noteq> 0" "pending_present (promote_pending now a) = 0"
  using assms by (auto simp: promote_pending_def bucket_defs in_u128_def)

lemma append_or_route_spec:
  assumes r: "reserve_ok p a" and h: "horizon_ok p h_lock" and x: "0 < x"
  shows "okP (append_or_route_acct p x now h_lock a)
           (\<lambda>_ a'. core a' = core a \<and> pnl a' = pnl a \<and> reserved_pnl a' = reserved_pnl a + x
              \<and> buckets_ok p a')"
proof -
  define b where "b = (if sched_present a = 0 \<and> pending_present a \<noteq> 0 then promote_pending now a else a)"
  have b: "buckets_ok p b" "core b = core a" "pnl b = pnl a" "reserved_pnl b = reserved_pnl a"
    using r promote_ok[of p a now] by (auto simp: b_def reserve_ok_def)
  show ?thesis
    unfolding append_or_route_acct_def
    using b h x
    by (simp add: okP_sval okR_validate[OF r] Let_def b_def[symmetric] okP_sthen okR_ok_or
        cong: if_cong)
      (auto simp: bucket_defs horizon_ok_def in_u128_def)
qed

lemma consume_pending_spec:
  assumes "pending_ok p a" "0 \<le> t" "t \<le> pending_remaining_q a"
  shows "pending_ok p (consume_pending t a)"
    "pending_remaining_q (consume_pending t a) = pending_remaining_q a - t"
    "sched_ok p (consume_pending t a) = sched_ok p a"
    "sched_remaining_q (consume_pending t a) = sched_remaining_q a"
    "core (consume_pending t a) = core a" "pnl (consume_pending t a) = pnl a"
  using assms by (auto simp: consume_pending_def pending_ok_def sched_ok_def Let_def core_def)

lemma consume_sched_spec:
  assumes "sched_ok p a" "0 \<le> t" "t \<le> sched_remaining_q a"
  shows "sched_ok p (consume_sched t a)"
    "sched_remaining_q (consume_sched t a) = sched_remaining_q a - t"
    "pending_ok p (consume_sched t a) = pending_ok p a"
    "pending_remaining_q (consume_sched t a) = pending_remaining_q a"
    "core (consume_sched t a) = core a" "pnl (consume_sched t a) = pnl a"
  using assms by (auto simp: consume_sched_def pending_ok_def sched_ok_def Let_def core_def)

lemma apply_loss_spec:
  assumes r: "reserve_ok p a" and x: "0 < x"
  shows "okP (apply_reserve_loss_acct p x a)
           (\<lambda>_ a'. core a' = core a \<and> pnl a' = pnl a \<and> reserved_pnl a' = reserved_pnl a - x
              \<and> buckets_ok p a' \<and> x \<le> reserved_pnl a)"
proof -
  have b: "buckets_ok p a" using r by (simp add: reserve_ok_def)
  note R = bucket_reads[OF b]
  define t where "t = min x (pending_remaining_q a)"
  have t: "0 \<le> t" "t \<le> pending_remaining_q a" "t \<le> x" using x R by (auto simp: t_def)
  let ?b = "consume_pending t a"
  have P: "pending_ok p ?b" "pending_remaining_q ?b = pending_remaining_q a - t" "sched_ok p ?b"
    "sched_remaining_q ?b = sched_remaining_q a" "core ?b = core a" "pnl ?b = pnl a"
    using b t consume_pending_spec[of p a t] by (auto simp: buckets_ok_def)
  have S: "x - t \<le> sched_remaining_q a" if "x \<le> reserved_pnl a"
    using that b by (auto simp: t_def buckets_ok_def min_def R)
  have Q: "sched_ok p (consume_sched (x - t) ?b)"
    "sched_remaining_q (consume_sched (x - t) ?b) = sched_remaining_q a - (x - t)"
    "pending_ok p (consume_sched (x - t) ?b)"
    "pending_remaining_q (consume_sched (x - t) ?b) = pending_remaining_q a - t"
    "core (consume_sched (x - t) ?b) = core a" "pnl (consume_sched (x - t) ?b) = pnl a"
    if "x \<le> reserved_pnl a"
    using consume_sched_spec[of p ?b "x - t"] P t S[OF that] by auto
  have so: "sched_ok p (c\<lparr> reserved_pnl := y \<rparr>) = sched_ok p c"
    "pending_ok p (c\<lparr> reserved_pnl := y \<rparr>) = pending_ok p c" for c y
    by (simp_all add: sched_ok_def pending_ok_def)
  show ?thesis
    unfolding apply_reserve_loss_acct_def
    using Q b
    by (auto simp: okP_sval okR_validate[OF r] Let_def okR_ok_or okR_require R t_def[symmetric]
        buckets_ok_def so)
qed


text \<open>
  The last steps of the warm-up on a slot from which \<open>r\<close> has just been released: the buckets are
  in shape again.
\<close>

lemma warmup_settle_spec:
  assumes b: "buckets_ok p b" and sp: "sched_present b \<noteq> 0"
    and t: "sched_release_q b \<le> t" "t \<le> sched_anchor_q b"
    and r: "r = min (sched_remaining_q b) (t - sched_release_q b)"
    and c: "c = b\<lparr> sched_remaining_q := sched_remaining_q b - r, reserved_pnl := reserved_pnl b - r \<rparr>"
  shows "okP (warmup_settle_acct now t c)
     (\<lambda>_ a'. core a' = core b \<and> pnl a' = pnl b \<and> reserved_pnl a' = reserved_pnl b - r
        \<and> buckets_ok p a')"
proof -
  have s: "sched_ok p b" and q: "pending_ok p b" and tot: "reserved_pnl b = sched_remaining_q b + pending_remaining_q b"
    and u: "in_u128 (reserved_pnl b)"
    using b by (auto simp: buckets_ok_def)
  have pr: "0 \<le> pending_remaining_q b" using bucket_reads(4)[OF b] .
  let ?d = "c\<lparr> sched_release_q := t \<rparr>"
  show ?thesis
  proof (cases "sched_remaining_q b = r")
    case True
    let ?f = "?d\<lparr> sched_present := 0, sched_anchor_q := 0, sched_start_slot := 0,
                sched_horizon := 0, sched_release_q := 0 \<rparr>"
    have f: "buckets_ok p ?f"
      using True tot u q pr s sp by (simp add: buckets_ok_def sched_ok_def pending_ok_def c in_u128_def)
    then show ?thesis
      using promote_ok[of p ?f now] True
      by (simp add: warmup_settle_acct_def Let_def c)
  next
    case False
    then have "r = t - sched_release_q b" "r < sched_remaining_q b"
      using r by (auto simp: min_def split: if_splits)
    then have "buckets_ok p ?d"
      using tot u q pr s sp t by (simp add: buckets_ok_def sched_ok_def pending_ok_def c in_u128_def)
    then show ?thesis
      using False sp by (simp add: warmup_settle_acct_def Let_def c)
  qed
qed

text \<open>The linear schedule never exceeds the anchor.\<close>

lemma sched_total_bound:
  assumes s: "sched_ok p a" "sched_present a \<noteq> 0" "0 \<le> elapsed"
    and r: "(if elapsed \<ge> sched_horizon a then Ok (sched_anchor_q a)
             else mul_div_floor_u128 (sched_anchor_q a) elapsed (sched_horizon a)) = Ok t"
  shows "0 \<le> t" "t \<le> sched_anchor_q a"
proof -
  have an: "0 \<le> sched_anchor_q a" using s by (simp add: sched_ok_def in_u128_def)
  show "0 \<le> t" "t \<le> sched_anchor_q a"
  proof -
    consider "t = sched_anchor_q a"
      | "elapsed < sched_horizon a" "0 < sched_horizon a" "t = sched_anchor_q a * elapsed div sched_horizon a"
      using r by (auto simp: mul_div_floor_u128_Ok split: if_splits)
    then have "0 \<le> t \<and> t \<le> sched_anchor_q a"
    proof cases
      case 1
      then show ?thesis using an by simp
    next
      case 2
      have "sched_anchor_q a * elapsed div sched_horizon a \<le> sched_anchor_q a * sched_horizon a div sched_horizon a"
        using 2 an by (intro zdiv_mono1 mult_left_mono) auto
      then show ?thesis using 2 an s(3) by (simp add: pos_imp_zdiv_nonneg_iff)
    qed
    then show "0 \<le> t" "t \<le> sched_anchor_q a" by auto
  qed
qed

end
