(* ===== verification/Pnl.thy ===== *)
theory Pnl
  imports Reserve
begin

text \<open>
  The canonical mutators of \<open>PNL_i\<close> and \<open>C_i\<close> of \<open>src/src/percolator.rs\<close>: \<open>set_pnl_with_reserve\<close>,
  \<open>consume_released_pnl\<close> and \<open>set_capital\<close>.  Every one of them keeps the O(1) aggregates of the
  engine equal to the sums over the account table (\<open>agg\<close>) and the reserve of every account in
  shape; \<open>pnl_set\<close> and \<open>cap_set\<close> describe their whole effect.
\<close>

section \<open>The canonical PnL and capital mutators\<close>

text \<open>
  The instruction context is a local of the public entry point: a call that takes it by
  \<open>&mut\<close> returns it with its \<open>Ok\<close> value.
\<close>

definition neg_count_step :: "int \<Rightarrow> int \<Rightarrow> engine \<Rightarrow> unit step" where
  "neg_count_step old new_pnl e =
     (if old < 0 \<and> new_pnl \<ge> 0 then
        sval (ok_or CorruptState (fit_u64 (neg_pnl_account_count e - 1))) e (\<lambda>n.
          (Ok (), e\<lparr> neg_pnl_account_count := n \<rparr>))
      else if old \<ge> 0 \<and> new_pnl < 0 then
        sval (ok_or CorruptState (fit_u64 (neg_pnl_account_count e + 1))) e (\<lambda>n.
          (Ok (), e\<lparr> neg_pnl_account_count := n \<rparr>))
      else (Ok (), e))"

definition set_pnl_final :: "nat \<Rightarrow> int \<Rightarrow> 'b \<Rightarrow> engine \<Rightarrow> 'b step" where
  "set_pnl_final idx new_pnl r e =
     sval (require (\<not> pnl_matured_pos_tot e > pnl_pos_tot e) CorruptState) e (\<lambda>_.
     let pos_pnl_final = (if new_pnl > 0 then new_pnl else 0) in
     sval (require (\<not> reserved_pnl (accounts e ! idx) > pos_pnl_final) CorruptState) e (\<lambda>_.
     (Ok r, e)))"

text \<open>Case A of \<open>set_pnl_with_reserve\<close>: the positive part grows by \<open>reserve_add\<close>.\<close>

definition set_pnl_case_a ::
  "nat \<Rightarrow> int \<Rightarrow> reserve_mode \<Rightarrow> instruction_context option \<Rightarrow> int \<Rightarrow> int \<Rightarrow> engine
     \<Rightarrow> instruction_context option step"
where
  "set_pnl_case_a idx new_pnl mode octx old reserve_add e =
     sthen (neg_count_step old new_pnl e) (\<lambda>_ e.
     let e = upd idx (\<lambda>a. a\<lparr> pnl := new_pnl \<rparr>) e in
     (case mode of
        NoPositiveIncreaseAllowed \<Rightarrow> (Err Overflow, e)
      | ImmediateReleaseResolvedOnly \<Rightarrow>
          sval (ok_or Overflow (fit_u128 (pnl_matured_pos_tot e + reserve_add))) e (\<lambda>m.
          set_pnl_final idx new_pnl octx (e\<lparr> pnl_matured_pos_tot := m \<rparr>))
      | UseAdmissionPair admit_h_min admit_h_max \<Rightarrow>
          sval (ok_or CorruptState octx) e (\<lambda>ctx.
          sval (admit_fresh_reserve_h_lock idx reserve_add admit_h_min admit_h_max ctx e) e
            (\<lambda>(admitted_h_eff, ctx).
          sthen
            (if admitted_h_eff = 0
             then sval (ok_or Overflow (fit_u128 (pnl_matured_pos_tot e + reserve_add))) e (\<lambda>m.
                    (Ok (), e\<lparr> pnl_matured_pos_tot := m \<rparr>))
             else append_or_route_new_reserve idx reserve_add (current_slot e) admitted_h_eff e)
            (\<lambda>_ e. set_pnl_final idx new_pnl (Some ctx) e)))))"

text \<open>Case B: no positive increase; the loss \<open>pos_loss\<close> of positive PnL eats the reserve first.\<close>

definition set_pnl_case_b ::
  "nat \<Rightarrow> int \<Rightarrow> instruction_context option \<Rightarrow> int \<Rightarrow> int \<Rightarrow> int \<Rightarrow> engine
     \<Rightarrow> instruction_context option step"
where
  "set_pnl_case_b idx new_pnl octx old new_pos pos_loss e =
     sthen
       (if market_mode e = Live then
          let reserve_loss = min pos_loss (reserved_pnl (accounts e ! idx)) in
          sthen (if reserve_loss > 0 then apply_reserve_loss_newest_first idx reserve_loss e
                 else (Ok (), e)) (\<lambda>_ e.
          let matured_loss = pos_loss - reserve_loss in
          if matured_loss > 0
          then sval (ok_or CorruptState (fit_u128 (pnl_matured_pos_tot e - matured_loss))) e (\<lambda>m.
                 (Ok (), e\<lparr> pnl_matured_pos_tot := m \<rparr>))
          else (Ok (), e))
        else
          sval (require (reserved_pnl (accounts e ! idx) = 0) CorruptState) e (\<lambda>_.
          if pos_loss > 0
          then sval (ok_or CorruptState (fit_u128 (pnl_matured_pos_tot e - pos_loss))) e (\<lambda>m.
                 (Ok (), e\<lparr> pnl_matured_pos_tot := m \<rparr>))
          else (Ok (), e)))
       (\<lambda>_ e.
     sthen (neg_count_step old new_pnl e) (\<lambda>_ e.
     let e = upd idx (\<lambda>a. a\<lparr> pnl := new_pnl \<rparr>) e; a = accounts e ! idx in
     sval (if new_pos = 0 \<and> market_mode e = Live
           then rthen (require (reserved_pnl a = 0) CorruptState) (\<lambda>_.
                rthen (require (sched_present a = 0) CorruptState) (\<lambda>_.
                require (pending_present a = 0) CorruptState))
           else Ok ()) e (\<lambda>_.
     set_pnl_final idx new_pnl octx e)))"

text \<open>The validation that precedes every mutation.\<close>

definition set_pnl_checks :: "int \<Rightarrow> reserve_mode \<Rightarrow> account \<Rightarrow> engine \<Rightarrow> unit outcome" where
  "set_pnl_checks new_pnl mode a e =
     (let old_pos = i128_clamp_pos (pnl a); new_pos = i128_clamp_pos new_pnl in
      rthen (require (\<not> reserved_pnl a > old_pos) CorruptState) (\<lambda>_.
      rthen (if market_mode e = Live
             then rthen (ok_or CorruptState (fit_u128 (old_pos - reserved_pnl a))) (\<lambda>_. Ok ())
             else require (reserved_pnl a = 0) CorruptState) (\<lambda>_.
      rthen (if new_pos > old_pos then
               (case mode of
                  NoPositiveIncreaseAllowed \<Rightarrow> Err Overflow
                | ImmediateReleaseResolvedOnly \<Rightarrow> require (market_mode e \<noteq> Live) Unauthorized
                | UseAdmissionPair lo hi \<Rightarrow> require (market_mode e = Live) Unauthorized)
             else Ok ()) (\<lambda>_.
      rthen (require (\<not> (market_mode e = Live \<and> new_pos > MAX_ACCOUNT_POSITIVE_PNL)) Overflow) (\<lambda>_.
        if new_pos > old_pos
        then rthen (ok_or Overflow (fit_u128 (pnl_pos_tot e + (new_pos - old_pos)))) (\<lambda>new_tot.
             require (\<not> (market_mode e = Live \<and> new_tot > MAX_PNL_POS_TOT)) Overflow)
        else Ok ())))))"

definition set_pnl_with_reserve ::
  "nat \<Rightarrow> int \<Rightarrow> reserve_mode \<Rightarrow> instruction_context option \<Rightarrow> engine
     \<Rightarrow> instruction_context option step"
where
  "set_pnl_with_reserve idx new_pnl mode octx e =
     (if new_pnl = I128_MIN then (Err Overflow, e)
      else
        sacct e idx (\<lambda>a.
        let old = pnl a; old_pos = i128_clamp_pos old; new_pos = i128_clamp_pos new_pnl in
        sval (set_pnl_checks new_pnl mode a e) e (\<lambda>_.
        sthen
          (if new_pos > old_pos
           then sval (ok_or Overflow (fit_u128 (pnl_pos_tot e + (new_pos - old_pos)))) e (\<lambda>t.
                  (Ok (), e\<lparr> pnl_pos_tot := t \<rparr>))
           else if old_pos > new_pos
           then sval (ok_or Overflow (fit_u128 (pnl_pos_tot e - (old_pos - new_pos)))) e (\<lambda>t.
                  (Ok (), e\<lparr> pnl_pos_tot := t \<rparr>))
           else (Ok (), e)) (\<lambda>_ e.
        if new_pos > old_pos
        then set_pnl_case_a idx new_pnl mode octx old (new_pos - old_pos) e
        else set_pnl_case_b idx new_pnl octx old new_pos (old_pos - new_pos) e))))"

definition set_pnl :: "nat \<Rightarrow> int \<Rightarrow> engine \<Rightarrow> unit step" where
  "set_pnl idx new_pnl e =
     sthen (set_pnl_with_reserve idx new_pnl ImmediateReleaseResolvedOnly None e) (\<lambda>_ e. (Ok (), e))"

definition consume_released_pnl :: "nat \<Rightarrow> int \<Rightarrow> engine \<Rightarrow> unit step" where
  "consume_released_pnl idx x e =
     (if x = 0 then (Err CorruptState, e)
      else
        sacct e idx (\<lambda>a.
        let old_pos = i128_clamp_pos (pnl a); old_r = reserved_pnl a in
        sval (ok_or CorruptState (fit_u128 (old_pos - old_r))) e (\<lambda>old_rel.
        sval (require (\<not> x > old_rel) CorruptState) e (\<lambda>_.
        sval (ok_or CorruptState (fit_u128 (old_pos - x))) e (\<lambda>new_pos.
        sval (ok_or CorruptState (fit_u128 (old_rel - x))) e (\<lambda>new_rel.
        sval (require (\<not> new_pos < old_r) CorruptState) e (\<lambda>_.
        sval (ok_or CorruptState (fit_u128 (pnl_pos_tot e - x))) e (\<lambda>t.
        let e = e\<lparr> pnl_pos_tot := t \<rparr> in
        sval (ok_or CorruptState (fit_u128 (pnl_matured_pos_tot e - x))) e (\<lambda>m.
        let e = e\<lparr> pnl_matured_pos_tot := m \<rparr> in
        sval (require (\<not> pnl_matured_pos_tot e > pnl_pos_tot e) CorruptState) e (\<lambda>_.
        sval (ok_or Overflow (fit_i128 x)) e (\<lambda>x_i128.
        sval (ok_or Overflow (fit_i128 (pnl a - x_i128))) e (\<lambda>new_pnl.
        sval (require (new_pnl \<noteq> I128_MIN) Overflow) e (\<lambda>_.
          (Ok (), upd idx (\<lambda>a. a\<lparr> pnl := new_pnl \<rparr>) e))))))))))))))"

definition set_capital :: "nat \<Rightarrow> int \<Rightarrow> engine \<Rightarrow> unit step" where
  "set_capital idx new_capital e =
     sacct e idx (\<lambda>a.
     let old = capital a in
     sthen
       (if new_capital \<ge> old
        then sval (ok_or Overflow (fit_u128 (c_tot e + (new_capital - old)))) e (\<lambda>t.
               (Ok (), e\<lparr> c_tot := t \<rparr>))
        else sval (ok_or CorruptState (fit_u128 (c_tot e - (old - new_capital)))) e (\<lambda>t.
               (Ok (), e\<lparr> c_tot := t \<rparr>)))
       (\<lambda>_ e. (Ok (), upd idx (\<lambda>a. a\<lparr> capital := new_capital \<rparr>) e)))"


section \<open>The aggregates\<close>

definition posp :: "account \<Rightarrow> int" where "posp a = max 0 (pnl a)"
definition matp :: "account \<Rightarrow> int" where "matp a = max 0 (pnl a) - reserved_pnl a"
definition negp :: "account \<Rightarrow> int" where "negp a = (if pnl a < 0 then 1 else 0)"
definition longp :: "account \<Rightarrow> int" where "longp a = (if position_basis_q a > 0 then 1 else 0)"
definition shortp :: "account \<Rightarrow> int" where "shortp a = (if position_basis_q a < 0 then 1 else 0)"

text \<open>
  The stored aggregates are the sums over the account table: total capital, total positive PnL,
  the matured part of it (in a live market what is not reserved, in a resolved one all of it), and
  the counts of negative accounts and of positions on each side.
\<close>

definition agg :: "engine \<Rightarrow> bool" where
  "agg e =
     (c_tot e = tot capital (accounts e)
      \<and> pnl_pos_tot e = tot posp (accounts e)
      \<and> pnl_matured_pos_tot e =
          (if market_mode e = Live then tot matp (accounts e) else tot posp (accounts e))
      \<and> neg_pnl_account_count e = tot negp (accounts e)
      \<and> stored_pos_count_long e = tot longp (accounts e)
      \<and> stored_pos_count_short e = tot shortp (accounts e))"

definition acct_ok :: "risk_params \<Rightarrow> account \<Rightarrow> bool" where
  "acct_ok p a =
     (reserve_ok p a \<and> in_u128 (capital a) \<and> in_i128 (pnl a) \<and> pnl a \<noteq> I128_MIN)"

definition accts_ok :: "engine \<Rightarrow> bool" where
  "accts_ok e = (\<forall>a \<in> set (accounts e). acct_ok (params e) a)"

definition pnl_inv :: "engine \<Rightarrow> bool" where
  "pnl_inv e = (agg e \<and> accts_ok e)"

lemma accts_ok_nth: "accts_ok e \<Longrightarrow> i < MAX_ACCOUNTS e \<Longrightarrow> acct_ok (params e) (accounts e ! i)"
  by (simp add: accts_ok_def)

lemma accts_ok_update:
  assumes "accts_ok e" "params e' = params e" "accounts e' = (accounts e)[i := a]"
    "i < MAX_ACCOUNTS e \<Longrightarrow> acct_ok (params e) a"
  shows "accts_ok e'"
  using assms set_update_subset_insert[of "accounts e" i a]
  by (cases "i < MAX_ACCOUNTS e") (auto simp: accts_ok_def list_update_beyond)

text \<open>
  \<open>pnl_effect i new a' e\<close> is the state after the PnL of slot \<open>i\<close> has been set to \<open>new\<close>, with \<open>a'\<close>
  the new contents of the slot: exactly the aggregates that depend on PnL move, each by the change
  of the slot's own term.
\<close>

definition pnl_effect :: "nat \<Rightarrow> account \<Rightarrow> engine \<Rightarrow> engine" where
  "pnl_effect i a' e =
     (let a = accounts e ! i in
      e\<lparr> accounts := (accounts e)[i := a'],
         pnl_pos_tot := pnl_pos_tot e + posp a' - posp a,
         pnl_matured_pos_tot := pnl_matured_pos_tot e
           + (if market_mode e = Live then matp a' - matp a else posp a' - posp a),
         neg_pnl_account_count := neg_pnl_account_count e + negp a' - negp a \<rparr>)"

lemma pnl_effect_frame:
  "vault (pnl_effect i a' e) = vault e" "insurance_fund (pnl_effect i a' e) = insurance_fund e"
  "c_tot (pnl_effect i a' e) = c_tot e" "params (pnl_effect i a' e) = params e"
  "market_mode (pnl_effect i a' e) = market_mode e"
  "accounts (pnl_effect i a' e) = (accounts e)[i := a']"
  by (simp_all add: pnl_effect_def Let_def)

lemma core_longp: "core a = core b \<Longrightarrow> longp a = longp b \<and> shortp a = shortp b"
  using core_fields(3)[of a b] by (simp add: longp_def shortp_def)

lemma pnl_effect_inv:
  assumes "pnl_inv e" "i < MAX_ACCOUNTS e" "core a' = core (accounts e ! i)"
    "reserve_ok (params e) a'" "in_i128 (pnl a')" "pnl a' \<noteq> I128_MIN"
  shows "pnl_inv (pnl_effect i a' e)"
proof -
  have "acct_ok (params e) a'"
    using assms accts_ok_nth[of e i] core_fields(1)[OF assms(3)]
    by (simp add: pnl_inv_def acct_ok_def)
  then have "accts_ok (pnl_effect i a' e)"
    using assms(1) by - (rule accts_ok_update[of e _ i a'], simp_all add: pnl_inv_def pnl_effect_frame)
  moreover have "agg (pnl_effect i a' e)"
    using assms(1,2) core_fields(1)[OF assms(3)] core_longp[OF assms(3)]
    by (simp add: pnl_inv_def agg_def pnl_effect_def Let_def tot_update)
  ultimately show ?thesis by (simp add: pnl_inv_def)
qed

text \<open>The effect depends on the contents of the slot only through what the aggregates read.\<close>

lemma pnl_effect_I:
  assumes "i < MAX_ACCOUNTS e"
    "e' = e\<lparr> accounts := (accounts e)[i := a'], pnl_pos_tot := t, pnl_matured_pos_tot := m,
             neg_pnl_account_count := n \<rparr>"
    "t = pnl_pos_tot e + posp a' - posp (accounts e ! i)"
    "m = pnl_matured_pos_tot e
          + (if market_mode e = Live then matp a' - matp (accounts e ! i)
             else posp a' - posp (accounts e ! i))"
    "n = neg_pnl_account_count e + negp a' - negp (accounts e ! i)"
  shows "e' = pnl_effect i a' e"
  by (simp only: assms(2-5) pnl_effect_def Let_def)

section \<open>The mutators keep the aggregates\<close>

lemma neg_count_step_okP:
  "okP (neg_count_step old new e) P =
     (let n = neg_pnl_account_count e + (if new < 0 then 1 else 0) - (if old < 0 then 1 else 0) in
      (old < 0) = (new < 0) \<and> P () e
      \<or> (old < 0) \<noteq> (new < 0) \<and> (in_u64 n \<longrightarrow> P () (e\<lparr> neg_pnl_account_count := n \<rparr>)))"
  by (auto simp: neg_count_step_def okP_sval okR_ok_or Let_def)

lemma admit_fresh_okR:
  assumes "\<And>ctx'. P (hi, ctx')" "\<And>ctx'. P (lo, ctx')"
  shows "okR (admit_fresh_reserve_h_lock idx x lo hi ctx e) P"
  using assms
  by (auto simp: admit_fresh_reserve_h_lock_def okR_rthen okR_ok_or senior_claims_def Let_def
      split: prod.splits)

definition mode_ok :: "risk_params \<Rightarrow> reserve_mode \<Rightarrow> bool" where
  "mode_ok p m =
     (case m of UseAdmissionPair lo hi \<Rightarrow>
        (lo = 0 \<or> horizon_ok p lo) \<and> (hi = 0 \<or> horizon_ok p hi) | _ \<Rightarrow> True)"


text \<open>\<open>pnl_set i new e e'\<close>: slot \<open>i\<close> now has PnL \<open>new\<close> and a well-shaped reserve; nothing else changed.\<close>

definition pnl_set :: "nat \<Rightarrow> int \<Rightarrow> engine \<Rightarrow> engine \<Rightarrow> bool" where
  "pnl_set i new e e' =
     (i < MAX_ACCOUNTS e
      \<and> e' = pnl_effect i (accounts e' ! i) e \<and> core (accounts e' ! i) = core (accounts e ! i)
      \<and> pnl (accounts e' ! i) = new \<and> reserve_ok (params e) (accounts e' ! i))"

lemma pnl_set_inv:
  assumes "pnl_set i new e e'" "pnl_inv e" "in_i128 new" "new \<noteq> I128_MIN"
  shows "pnl_inv e'"
  using assms pnl_effect_inv unfolding pnl_set_def by metis

lemma pos_clamp: "i128_clamp_pos x = max 0 x"
  by (simp add: i128_clamp_pos_def)

lemma set_pnl_final_okP:
  "okP (set_pnl_final i new r e) P =
     (pnl_matured_pos_tot e \<le> pnl_pos_tot e \<and> reserved_pnl (accounts e ! i) \<le> max 0 new \<longrightarrow> P r e)"
  by (auto simp: set_pnl_final_def okP_sval okR_require Let_def not_less)

text \<open>
  What the two cases of \<open>set_pnl_with_reserve\<close> leave, given the total they start with: \<open>x\<close> is the
  signed change of the positive part.
\<close>

definition case_post :: "nat \<Rightarrow> int \<Rightarrow> int \<Rightarrow> int \<Rightarrow> engine \<Rightarrow> engine \<Rightarrow> bool" where
  "case_post i new old x e e' =
     (let a = accounts e ! i; a' = accounts e' ! i in
      e' = e\<lparr> accounts := (accounts e)[i := a'],
              pnl_matured_pos_tot := pnl_matured_pos_tot e + x
                - (if market_mode e = Live then reserved_pnl a' - reserved_pnl a else 0),
              neg_pnl_account_count := neg_pnl_account_count e
                + (if new < 0 then 1 else 0) - (if old < 0 then 1 else 0) \<rparr>
      \<and> core a' = core a \<and> pnl a' = new \<and> reserve_ok (params e) a')"

lemma case_post_I:
  assumes "i < MAX_ACCOUNTS e"
    "e' = e\<lparr> accounts := (accounts e)[i := a'], pnl_matured_pos_tot := m,
             neg_pnl_account_count := n \<rparr>"
    "m = pnl_matured_pos_tot e + x
          - (if market_mode e = Live then reserved_pnl a' - reserved_pnl (accounts e ! i) else 0)"
    "n = neg_pnl_account_count e + (if new < 0 then 1 else 0) - (if old < 0 then 1 else 0)"
    "core a' = core (accounts e ! i)" "pnl a' = new" "reserve_ok (params e) a'"
  shows "case_post i new old x e e'"
  using assms by (simp add: case_post_def)

lemma neg_count_okP:
  assumes "\<And>e'. e' = e\<lparr> neg_pnl_account_count := neg_pnl_account_count e
                + (if new < 0 then 1 else 0) - (if old < 0 then 1 else 0) \<rparr> \<Longrightarrow> P () e'"
  shows "okP (neg_count_step old new e) P"
  using assms by (cases "old < 0"; cases "new < 0") (simp_all add: neg_count_step_okP Let_def)

lemma set_pnl_case_a_spec:
  assumes i: "i < MAX_ACCOUNTS e" and md: "mode_ok (params e) mode" and x: "0 < x"
    and r: "reserve_ok (params e) ((accounts e ! i)\<lparr> pnl := new \<rparr>)"
    and b: "reserved_pnl (accounts e ! i) + x \<le> max 0 new"
    and live: "\<And>lo hi. mode = UseAdmissionPair lo hi \<Longrightarrow> market_mode e = Live"
  shows "okP (set_pnl_case_a i new mode octx old x e) (\<lambda>_ e'. case_post i new old x e e')"
proof -
  let ?a = "(accounts e ! i)\<lparr> pnl := new \<rparr>"
  let ?n = "neg_pnl_account_count e + (if new < 0 then 1 else 0) - (if old < 0 then 1 else 0)"
  define e1 where "e1 = e\<lparr> accounts := (accounts e)[i := ?a], neg_pnl_account_count := ?n \<rparr>"
  have up: "upd i (\<lambda>a. a\<lparr> pnl := new \<rparr>) (e\<lparr> neg_pnl_account_count := ?n \<rparr>) = e1"
    by (simp add: upd_def e1_def)
  have imm: "case_post i new old x e (e1\<lparr> pnl_matured_pos_tot := pnl_matured_pos_tot e1 + x \<rparr>)"
    by (rule case_post_I[OF i, where a' = ?a]) (simp_all add: e1_def r)
  have app: "okP (append_or_route_new_reserve i x now h e1) (\<lambda>_ e'. case_post i new old x e e')"
    if h: "horizon_ok (params e) h" and L: "market_mode e = Live" for now h
  proof -
    have "okP (append_or_route_acct (params e) x now h ?a)
           (\<lambda>_ a'. case_post i new old x e (e1\<lparr> accounts := (accounts e1)[i := a'] \<rparr>))"
    proof (rule okP_mono[OF append_or_route_spec[OF r h x]])
      fix u a'
      assume A: "core a' = core ?a \<and> pnl a' = pnl ?a \<and> reserved_pnl a' = reserved_pnl ?a + x
              \<and> buckets_ok (params e) a'"
      show "case_post i new old x e (e1\<lparr> accounts := (accounts e1)[i := a'] \<rparr>)"
        by (rule case_post_I[OF i, where a' = a' and m = "pnl_matured_pos_tot e" and n = ?n])
          (use A b L in \<open>simp_all add: e1_def reserve_ok_def\<close>)
    qed
    then show ?thesis
      unfolding append_or_route_new_reserve_def okP_on_acct
      using i by (simp add: e1_def)
  qed
  show ?thesis
    unfolding set_pnl_case_a_def okP_sthen
  proof (rule neg_count_okP)
    fix e' assume e': "e' = e\<lparr> neg_pnl_account_count := ?n \<rparr>"
    note wps = okP_sval okP_sthen okR_ok_or set_pnl_final_okP Let_def
    show "okP (let e = upd i (\<lambda>a. a\<lparr> pnl := new \<rparr>) e' in
        (case mode of
        NoPositiveIncreaseAllowed \<Rightarrow> (Err Overflow, e)
      | ImmediateReleaseResolvedOnly \<Rightarrow>
          sval (ok_or Overflow (fit_u128 (pnl_matured_pos_tot e + x))) e (\<lambda>m.
          set_pnl_final i new octx (e\<lparr> pnl_matured_pos_tot := m \<rparr>))
      | UseAdmissionPair admit_h_min admit_h_max \<Rightarrow>
          sval (ok_or CorruptState octx) e (\<lambda>ctx.
          sval (admit_fresh_reserve_h_lock i x admit_h_min admit_h_max ctx e) e
            (\<lambda>(admitted_h_eff, ctx).
          sthen
            (if admitted_h_eff = 0
             then sval (ok_or Overflow (fit_u128 (pnl_matured_pos_tot e + x))) e (\<lambda>m.
                    (Ok (), e\<lparr> pnl_matured_pos_tot := m \<rparr>))
             else append_or_route_new_reserve i x (current_slot e) admitted_h_eff e)
            (\<lambda>_ e. set_pnl_final i new (Some ctx) e)))))
       (\<lambda>_ e'. case_post i new old x e e')"
    proof (cases mode)
      case NoPositiveIncreaseAllowed
      then show ?thesis by (simp add: wps)
    next
      case ImmediateReleaseResolvedOnly
      then show ?thesis using imm by (simp add: wps e' up)
    next
      case (UseAdmissionPair lo' hi')
      have L: "market_mode e = Live" using live UseAdmissionPair by simp
      have fin: "okP (if h = 0
             then sval (ok_or Overflow (fit_u128 (pnl_matured_pos_tot e1 + x))) e1 (\<lambda>m.
                    (Ok (), e1\<lparr> pnl_matured_pos_tot := m \<rparr>))
             else append_or_route_new_reserve i x (current_slot e1) h e1)
            (\<lambda>_ s. okP (set_pnl_final i new (Some ctx) s) (\<lambda>_ e'. case_post i new old x e e'))"
        if "h = 0 \<or> horizon_ok (params e) h" for h ctx
      proof (cases "h = 0")
        case True
        then show ?thesis using imm by (simp add: wps)
      next
        case False
        then have "okP (append_or_route_new_reserve i x (current_slot e1) h e1)
            (\<lambda>_ e'. case_post i new old x e e')"
          using app that L by simp
        then show ?thesis using False by (auto simp: wps elim!: okP_mono)
      qed
      show ?thesis
        using fin[of lo'] fin[of hi'] md UseAdmissionPair
        by (simp add: wps e' up mode_ok_def del: okP_basic)
          (rule allI, rule impI, rule admit_fresh_okR, auto simp: wps)
    qed
  qed
qed


lemma buckets_ok_pnl [simp]: "buckets_ok p (a\<lparr> pnl := x \<rparr>) = buckets_ok p a"
  by (simp add: bucket_defs)

text \<open>Case B in two stages: the loss eats the reserve and the matured total, then the PnL is stored.\<close>

definition loss_post :: "nat \<Rightarrow> int \<Rightarrow> engine \<Rightarrow> engine \<Rightarrow> bool" where
  "loss_post i loss e e1 =
     (let a = accounts e ! i; a1 = accounts e1 ! i in
      e1 = e\<lparr> accounts := (accounts e)[i := a1],
              pnl_matured_pos_tot := pnl_matured_pos_tot e - loss
                - (if market_mode e = Live then reserved_pnl a1 - reserved_pnl a else 0) \<rparr>
      \<and> core a1 = core a \<and> buckets_ok (params e) a1)"

lemma loss_post_I:
  assumes "i < MAX_ACCOUNTS e"
    "e1 = e\<lparr> accounts := (accounts e)[i := b], pnl_matured_pos_tot := m \<rparr>"
    "m = pnl_matured_pos_tot e - loss
          - (if market_mode e = Live then reserved_pnl b - reserved_pnl (accounts e ! i) else 0)"
    "core b = core (accounts e ! i)" "buckets_ok (params e) b"
  shows "loss_post i loss e e1"
  using assms by (simp add: loss_post_def)

lemma loss_stage:
  assumes i: "i < MAX_ACCOUNTS e" and r: "reserve_ok (params e) (accounts e ! i)" and ll: "0 \<le> loss"
  shows "okP (if market_mode e = Live then
          let reserve_loss = min loss (reserved_pnl (accounts e ! i)) in
          sthen (if reserve_loss > 0 then apply_reserve_loss_newest_first i reserve_loss e
                 else (Ok (), e)) (\<lambda>_ e.
          let matured_loss = loss - reserve_loss in
          if matured_loss > 0
          then sval (ok_or CorruptState (fit_u128 (pnl_matured_pos_tot e - matured_loss))) e (\<lambda>m.
                 (Ok (), e\<lparr> pnl_matured_pos_tot := m \<rparr>))
          else (Ok (), e))
        else
          sval (require (reserved_pnl (accounts e ! i) = 0) CorruptState) e (\<lambda>_.
          if loss > 0
          then sval (ok_or CorruptState (fit_u128 (pnl_matured_pos_tot e - loss))) e (\<lambda>m.
                 (Ok (), e\<lparr> pnl_matured_pos_tot := m \<rparr>))
          else (Ok (), e)))
       (\<lambda>_ e1. loss_post i loss e e1)"
proof -
  let ?a = "accounts e ! i"
  define l where "l = min loss (reserved_pnl ?a)"
  have b: "buckets_ok (params e) ?a" using r by (simp add: reserve_ok_def)
  have R: "0 \<le> reserved_pnl ?a" using bucket_reads(5)[OF b] .
  have lb: "0 \<le> l" "l \<le> loss" using R ll by (auto simp: l_def)
  have res: "loss_post i loss e (e\<lparr> pnl_matured_pos_tot := pnl_matured_pos_tot e - loss \<rparr>)"
    if "market_mode e \<noteq> Live"
    by (rule loss_post_I[OF i, where b = ?a]) (simp_all add: that b)
  have res0: "loss_post i loss e e" if "market_mode e \<noteq> Live" "loss = 0"
    by (rule loss_post_I[OF i, where b = ?a]) (simp_all add: that b)
  have fin: "okP (if loss - l > 0
          then sval (ok_or CorruptState (fit_u128 (pnl_matured_pos_tot e1 - (loss - l)))) e1 (\<lambda>m.
                 (Ok (), e1\<lparr> pnl_matured_pos_tot := m \<rparr>))
          else (Ok (), e1)) (\<lambda>_ e'. loss_post i loss e e')"
    if e1: "e1 = e\<lparr> accounts := (accounts e)[i := a1] \<rparr>" and L: "market_mode e = Live"
      and a1: "core a1 = core ?a" "reserved_pnl a1 = reserved_pnl ?a - l" "buckets_ok (params e) a1"
    for e1 a1
  proof -
    have "loss_post i loss e (e1\<lparr> pnl_matured_pos_tot := pnl_matured_pos_tot e - (loss - l) \<rparr>)"
      by (rule loss_post_I[OF i, where b = a1]) (simp_all add: e1 L a1)
    moreover have "loss_post i loss e e1" if "loss - l \<le> 0"
      by (rule loss_post_I[OF i, where b = a1 and m = "pnl_matured_pos_tot e"])
        (use that R ll lb in \<open>simp_all add: e1 L a1\<close>)
    ultimately show ?thesis by (auto simp: okP_sval okR_ok_or e1)
  qed
  have app: "okP (apply_reserve_loss_newest_first i l e)
      (\<lambda>_ e1. okP (if loss - l > 0
          then sval (ok_or CorruptState (fit_u128 (pnl_matured_pos_tot e1 - (loss - l)))) e1 (\<lambda>m.
                 (Ok (), e1\<lparr> pnl_matured_pos_tot := m \<rparr>))
          else (Ok (), e1)) (\<lambda>_ e'. loss_post i loss e e'))"
    if "0 < l" "market_mode e = Live"
    unfolding apply_reserve_loss_newest_first_def okP_on_acct
    by (intro impI okP_mono[OF apply_loss_spec[OF r that(1)]] fin[OF refl]) (simp_all add: that)
  show ?thesis
  proof (cases "market_mode e = Live")
    case True
    then show ?thesis
      using app fin[of e ?a] b R ll lb
      by (cases "0 < l") (auto simp: Let_def okP_sthen l_def[symmetric])
  next
    case False
    then show ?thesis
      using res res0 ll by (simp add: okP_sval okR_require okR_ok_or)
  qed
qed

lemma set_pnl_case_b_spec:
  assumes i: "i < MAX_ACCOUNTS e" and r: "reserve_ok (params e) (accounts e ! i)" and l: "0 \<le> loss"
  shows "okP (set_pnl_case_b i new octx old new_pos loss e) (\<lambda>_ e'. case_post i new old (- loss) e e')"
  unfolding set_pnl_case_b_def okP_sthen
proof (rule okP_mono[OF loss_stage[OF i r l, unfolded okP_sthen]], rule neg_count_okP)
  fix u e1 e2
  assume L: "loss_post i loss e e1"
    and e2: "e2 = e1\<lparr> neg_pnl_account_count := neg_pnl_account_count e1
                + (if new < 0 then 1 else 0) - (if old < 0 then 1 else 0) \<rparr>"
  define c where "c = accounts e1 ! i"
  have c: "core c = core (accounts e ! i)" "buckets_ok (params e) c"
    using L by (simp_all add: loss_post_def Let_def c_def)
  define m where "m = pnl_matured_pos_tot e - loss
                - (if market_mode e = Live then reserved_pnl c - reserved_pnl (accounts e ! i) else 0)"
  have e1: "e1 = e\<lparr> accounts := (accounts e)[i := c], pnl_matured_pos_tot := m \<rparr>"
    using L unfolding loss_post_def Let_def c_def[symmetric] m_def by (rule conjunct1)
  have post: "case_post i new old (- loss) e (upd i (\<lambda>a. a\<lparr> pnl := new \<rparr>) e2)"
    if "reserved_pnl c \<le> max 0 new"
    by (rule case_post_I[OF i, where a' = "c\<lparr> pnl := new \<rparr>" and m = m])
      (use c m_def i that in \<open>simp_all add: reserve_ok_def upd_def e2 e1\<close>)
  have acc: "accounts e2 ! i = c" "i < MAX_ACCOUNTS e2" using i by (simp_all add: e2 e1)
  show "okP (let e = upd i (\<lambda>a. a\<lparr> pnl := new \<rparr>) e2; a = accounts e ! i in
     sval (if new_pos = 0 \<and> market_mode e = Live
           then rthen (require (reserved_pnl a = 0) CorruptState) (\<lambda>_.
                rthen (require (sched_present a = 0) CorruptState) (\<lambda>_.
                require (pending_present a = 0) CorruptState))
           else Ok ()) e (\<lambda>_.
     set_pnl_final i new octx e)) (\<lambda>_ e'. case_post i new old (- loss) e e')"
    using post acc
    by (simp add: Let_def okP_sval okR_rthen okR_require set_pnl_final_okP okR_if)
qed


lemma set_pnl_checks_Ok:
  "set_pnl_checks new mode a e = Ok () \<Longrightarrow> mode = UseAdmissionPair lo hi \<Longrightarrow> max 0 (pnl a) < max 0 new
     \<Longrightarrow> market_mode e = Live"
  by (auto simp: set_pnl_checks_def Let_def Ok_iffs pos_clamp split: if_splits)

theorem set_pnl_spec:
  assumes inv: "pnl_inv e" and md: "mode_ok (params e) mode"
  shows "okP (set_pnl_with_reserve i new mode octx e) (\<lambda>_ e'. pnl_set i new e e')"
proof -
  let ?old = "pnl (accounts e ! i)"
  have main: "okP (if max 0 new > max 0 ?old
        then set_pnl_case_a i new mode octx ?old (max 0 new - max 0 ?old) e1
        else set_pnl_case_b i new octx ?old (max 0 new) (max 0 ?old - max 0 new) e1)
       (\<lambda>_ e'. pnl_set i new e e')"
    if i: "i < MAX_ACCOUNTS e" and ck: "set_pnl_checks new mode (accounts e ! i) e = Ok ()"
      and e1: "e1 = e\<lparr> pnl_pos_tot := pnl_pos_tot e + (max 0 new - max 0 ?old) \<rparr>" for e1
  proof -
    have r: "reserve_ok (params e) (accounts e ! i)"
      using accts_ok_nth[of e i] inv i by (simp add: pnl_inv_def acct_ok_def)
    have fin: "pnl_set i new e e'"
      if C: "case_post i new ?old (max 0 new - max 0 ?old) e1 e'" for e'
    proof -
      define c where "c = accounts e' ! i"
      have c: "core c = core (accounts e ! i)" "pnl c = new" "reserve_ok (params e) c"
        using C by (simp_all add: case_post_def Let_def c_def e1)
      have "e' = e1\<lparr> accounts := (accounts e1)[i := c],
              pnl_matured_pos_tot := pnl_matured_pos_tot e1 + (max 0 new - max 0 ?old)
                - (if market_mode e1 = Live then reserved_pnl c - reserved_pnl (accounts e ! i) else 0),
              neg_pnl_account_count := neg_pnl_account_count e1
                + (if new < 0 then 1 else 0) - (if ?old < 0 then 1 else 0) \<rparr>"
        using C unfolding case_post_def Let_def c_def[symmetric] by (simp add: e1)
      then have "e' = pnl_effect i c e"
        by (intro pnl_effect_I[OF i])
          (simp_all add: e1 posp_def matp_def negp_def c(2))
      then show ?thesis using c i unfolding c_def pnl_set_def by blast
    qed
    show ?thesis
    proof (cases "max 0 new > max 0 ?old")
      case True
      have "okP (set_pnl_case_a i new mode octx ?old (max 0 new - max 0 ?old) e1)
          (\<lambda>_ e'. case_post i new ?old (max 0 new - max 0 ?old) e1 e')"
        by (rule set_pnl_case_a_spec)
          (use True i md r set_pnl_checks_Ok[OF ck _ True] in
            \<open>auto simp: e1 reserve_ok_def bucket_defs\<close>)
      from okP_mono[OF this fin] show ?thesis unfolding if_P[OF True] .
    next
      case False
      have "okP (set_pnl_case_b i new octx ?old (max 0 new) (max 0 ?old - max 0 new) e1)
          (\<lambda>_ e'. case_post i new ?old (- (max 0 ?old - max 0 new)) e1 e')"
        using False i r by - (rule set_pnl_case_b_spec, simp_all only: e1 not_less diff_ge_0_iff_ge, simp_all)
      then have "okP (set_pnl_case_b i new octx ?old (max 0 new) (max 0 ?old - max 0 new) e1)
          (\<lambda>_ e'. case_post i new ?old (max 0 new - max 0 ?old) e1 e')"
        by simp
      from okP_mono[OF this fin] show ?thesis unfolding if_not_P[OF False] .
    qed
  qed
  define po where "po = max 0 ?old"
  define pn where "pn = max 0 new"
  have M: "okP (if pn > po then set_pnl_case_a i new mode octx ?old (pn - po) e1
                else set_pnl_case_b i new octx ?old pn (po - pn) e1)
       (\<lambda>_ e'. pnl_set i new e e')"
    if "i < MAX_ACCOUNTS e" "set_pnl_checks new mode (accounts e ! i) e = Ok ()"
      "e1 = e\<lparr> pnl_pos_tot := pnl_pos_tot e + (pn - po) \<rparr>" for e1
    using main[of e1] that by (simp only: po_def pn_def)
  have top: "set_pnl_with_reserve i new mode octx e = (if new = I128_MIN then (Err Overflow, e) else m)
      \<Longrightarrow> okP m P \<Longrightarrow> okP (set_pnl_with_reserve i new mode octx e) P" for m P
    by simp
  show ?thesis
    apply (rule top)
     apply (simp only: set_pnl_with_reserve_def)
    unfolding Let_def pos_clamp po_def[symmetric] pn_def[symmetric]
      okP_sacct okP_sval okP_sthen okR_def
  proof (intro impI allI)
    fix u
    assume A: "i < MAX_ACCOUNTS e" and u: "set_pnl_checks new mode (accounts e ! i) e = Ok u"
    have B: "set_pnl_checks new mode (accounts e ! i) e = Ok ()" using u by simp
    have M': "okP (if pn > po then set_pnl_case_a i new mode octx ?old (pn - po) e1
                else set_pnl_case_b i new octx ?old pn (po - pn) e1)
       (\<lambda>_ e'. pnl_set i new e e')"
      if "e1 = e\<lparr> pnl_pos_tot := pnl_pos_tot e + (pn - po) \<rparr>" for e1
      using that by (rule M[OF A B])
    have eq: "pnl_pos_tot e - (po - pn) = pnl_pos_tot e + (pn - po)" by simp
    consider "pn > po" | "po > pn" | "po = pn" by linarith
    then show "okP (if pn > po then sval (ok_or Overflow (fit_u128 (pnl_pos_tot e + (pn - po)))) e
                       (\<lambda>t. (Ok (), e\<lparr> pnl_pos_tot := t \<rparr>))
          else if po > pn then sval (ok_or Overflow (fit_u128 (pnl_pos_tot e - (po - pn)))) e
                       (\<lambda>t. (Ok (), e\<lparr> pnl_pos_tot := t \<rparr>))
          else (Ok (), e))
       (\<lambda>x s. okP (if pn > po then set_pnl_case_a i new mode octx ?old (pn - po) s
                else set_pnl_case_b i new octx ?old pn (po - pn) s) (\<lambda>_ e'. pnl_set i new e e'))"
    proof cases
      case 1
      then show ?thesis using M'[OF refl] by (simp add: okP_sval okR_ok_or)
    next
      case 2
      then show ?thesis using M'[OF refl] unfolding eq by (simp add: okP_sval okR_ok_or)
    next
      case 3
      then show ?thesis using M'[OF refl] by simp
    qed
  qed
qed

section \<open>The other mutators\<close>

theorem set_pnl_resolved_spec:
  assumes "pnl_inv e"
  shows "okP (set_pnl i new e) (\<lambda>_ e'. pnl_set i new e e')"
  unfolding set_pnl_def okP_sthen
  using set_pnl_spec[OF assms, of ImmediateReleaseResolvedOnly i new None]
  by (simp add: mode_ok_def)

text \<open>Consuming released PnL: the effect on the slot and the aggregates, and its bound.\<close>

theorem consume_released_spec:
  assumes inv: "pnl_inv e" and x: "0 \<le> x"
  shows "okP (consume_released_pnl i x e)
     (\<lambda>_ e'. pnl_set i (pnl (accounts e ! i) - x) e e'
        \<and> reserved_pnl (accounts e' ! i) = reserved_pnl (accounts e ! i)
        \<and> 0 < x \<and> x \<le> matp (accounts e ! i))"
proof -
  let ?a = "accounts e ! i"
  have "pnl_set i (pnl ?a - x) e
      (upd i (\<lambda>a. a\<lparr> pnl := pnl ?a - x \<rparr>)
         (e\<lparr> pnl_pos_tot := pnl_pos_tot e - x, pnl_matured_pos_tot := pnl_matured_pos_tot e - x \<rparr>))"
    if i: "i < MAX_ACCOUNTS e" and b: "0 < x" "x \<le> matp ?a"
  proof -
    have r: "reserve_ok (params e) ?a"
      using accts_ok_nth[of e i] inv i by (simp add: pnl_inv_def acct_ok_def)
    then have R: "0 \<le> reserved_pnl ?a" using bucket_reads(5) by (auto simp: reserve_ok_def)
    have p: "0 < pnl ?a" "x \<le> pnl ?a - reserved_pnl ?a" using b R by (auto simp: matp_def max_def split: if_splits)
    show ?thesis
      unfolding pnl_set_def
      using i p R r b(1)
      by (simp add: upd_def pnl_effect_def posp_def matp_def negp_def Let_def reserve_ok_def)
  qed
  then show ?thesis
    using x
    by (auto simp: consume_released_pnl_def okP_sacct okP_sval okR_ok_or okR_require Let_def pos_clamp
        matp_def upd_def in_u128_def)
qed

text \<open>Setting capital: the total follows.\<close>

definition cap_effect :: "nat \<Rightarrow> int \<Rightarrow> engine \<Rightarrow> engine" where
  "cap_effect i c e =
     e\<lparr> c_tot := c_tot e + c - capital (accounts e ! i),
        accounts := (accounts e)[i := (accounts e ! i)\<lparr> capital := c \<rparr>] \<rparr>"

theorem set_capital_spec:
  "okP (set_capital i c e)
     (\<lambda>_ e'. i < MAX_ACCOUNTS e \<and> e' = cap_effect i c e \<and> in_u128 (c_tot e'))"
proof -
  have eq: "c_tot e + (c - k) = c_tot e + c - k" "c_tot e - (k - c) = c_tot e + c - k" for k
    by simp_all
  show ?thesis
    unfolding set_capital_def Let_def eq
    by (simp add: okP_sacct okP_sthen okP_sval okR_ok_or cap_effect_def upd_def)
qed

text \<open>Fields the aggregates and the reserve do not read.\<close>

lemma reserve_ok_frame [simp]:
  "reserve_ok p (a\<lparr> capital := c \<rparr>) = reserve_ok p a"
  "reserve_ok p (a\<lparr> position_basis_q := x \<rparr>) = reserve_ok p a"
  "reserve_ok p (a\<lparr> adl_a_basis := x \<rparr>) = reserve_ok p a"
  "reserve_ok p (a\<lparr> adl_k_snap := x \<rparr>) = reserve_ok p a"
  "reserve_ok p (a\<lparr> f_snap := x \<rparr>) = reserve_ok p a"
  "reserve_ok p (a\<lparr> adl_epoch_snap := x \<rparr>) = reserve_ok p a"
  "reserve_ok p (a\<lparr> fee_credits := x \<rparr>) = reserve_ok p a"
  "reserve_ok p (a\<lparr> last_fee_slot := x \<rparr>) = reserve_ok p a"
  "reserve_ok p (a\<lparr> owner := k \<rparr>) = reserve_ok p a"
  by (simp_all add: reserve_ok_def bucket_defs)

lemma terms_frame [simp]:
  "posp (a\<lparr> capital := c \<rparr>) = posp a" "matp (a\<lparr> capital := c \<rparr>) = matp a"
  "negp (a\<lparr> capital := c \<rparr>) = negp a" "longp (a\<lparr> capital := c \<rparr>) = longp a"
  "shortp (a\<lparr> capital := c \<rparr>) = shortp a"
  "posp (a\<lparr> fee_credits := c \<rparr>) = posp a" "matp (a\<lparr> fee_credits := c \<rparr>) = matp a"
  "negp (a\<lparr> fee_credits := c \<rparr>) = negp a" "longp (a\<lparr> fee_credits := c \<rparr>) = longp a"
  "shortp (a\<lparr> fee_credits := c \<rparr>) = shortp a"
  by (simp_all add: posp_def matp_def negp_def longp_def shortp_def)

lemma acct_ok_frame [simp]:
  "acct_ok p (a\<lparr> position_basis_q := x \<rparr>) = acct_ok p a"
  "acct_ok p (a\<lparr> adl_a_basis := x \<rparr>) = acct_ok p a"
  "acct_ok p (a\<lparr> adl_k_snap := x \<rparr>) = acct_ok p a"
  "acct_ok p (a\<lparr> f_snap := x \<rparr>) = acct_ok p a"
  "acct_ok p (a\<lparr> adl_epoch_snap := x \<rparr>) = acct_ok p a"
  "acct_ok p (a\<lparr> fee_credits := x \<rparr>) = acct_ok p a"
  "acct_ok p (a\<lparr> last_fee_slot := x \<rparr>) = acct_ok p a"
  "acct_ok p (a\<lparr> owner := k \<rparr>) = acct_ok p a"
  by (simp_all add: acct_ok_def)

lemma cap_effect_inv:
  assumes inv: "pnl_inv e" and i: "i < MAX_ACCOUNTS e" and c: "in_u128 c"
  shows "pnl_inv (cap_effect i c e)"
proof -
  let ?a = "(accounts e ! i)\<lparr> capital := c \<rparr>"
  have "acct_ok (params e) ?a"
    using accts_ok_nth[of e i] inv i c by (simp add: pnl_inv_def acct_ok_def)
  then have "accts_ok (cap_effect i c e)"
    using inv by - (rule accts_ok_update[of e _ i ?a], simp_all add: pnl_inv_def cap_effect_def)
  moreover have "agg (cap_effect i c e)"
    using inv i by (simp add: pnl_inv_def agg_def cap_effect_def tot_update)
  ultimately show ?thesis by (simp add: pnl_inv_def)
qed


section \<open>Warm-up and admission keep the aggregates\<close>

lemma pnl_set_refl:
  assumes "i < MAX_ACCOUNTS e" "reserve_ok (params e) (accounts e ! i)"
  shows "pnl_set i (pnl (accounts e ! i)) e e"
  using assms by (simp add: pnl_set_def pnl_effect_def Let_def)

text \<open>A release of \<open>r\<close> from the reserve of slot \<open>i\<close> in a live market.\<close>

lemma pnl_set_release:
  assumes i: "i < MAX_ACCOUNTS e" and L: "market_mode e = Live"
    and c: "core c = core (accounts e ! i)" "pnl c = pnl (accounts e ! i)" "reserve_ok (params e) c"
    and e': "e' = e\<lparr> accounts := (accounts e)[i := c],
        pnl_matured_pos_tot := pnl_matured_pos_tot e + (reserved_pnl (accounts e ! i) - reserved_pnl c) \<rparr>"
  shows "pnl_set i (pnl (accounts e ! i)) e e'"
  unfolding pnl_set_def e'
  using i L c by (simp add: pnl_effect_def Let_def posp_def matp_def negp_def)

theorem advance_warmup_spec:
  assumes inv: "pnl_inv e" and L: "market_mode e = Live"
  shows "okP (advance_profit_warmup i e)
     (\<lambda>_ e'. pnl_set i (pnl (accounts e ! i)) e e'
        \<and> reserved_pnl (accounts e' ! i) \<le> reserved_pnl (accounts e ! i))"
    (is "okP _ ?P")
proof (cases "i < MAX_ACCOUNTS e")
  case False
  then show ?thesis by (simp add: advance_profit_warmup_def okP_sacct)
next
  case i: True
  let ?a = "accounts e ! i"
  have r: "reserve_ok (params e) ?a"
    using accts_ok_nth[of e i] inv i by (simp add: pnl_inv_def acct_ok_def)
  define b where "b = (if sched_present ?a = 0 \<and> pending_present ?a \<noteq> 0
                then promote_pending (current_slot e) ?a else ?a)"
  have b: "buckets_ok (params e) b" "core b = core ?a" "pnl b = pnl ?a" "reserved_pnl b = reserved_pnl ?a"
    using r promote_ok[of "params e" ?a "current_slot e"] by (auto simp: b_def reserve_ok_def)
  have nb: "reserved_pnl ?a \<le> max 0 (pnl ?a)" using r by (simp add: reserve_ok_def)
  have fin: "okP (on_acct i (warmup_settle_acct (current_slot e1) t) e1) ?P"
    if sp: "sched_present b \<noteq> 0"
      and t: "sched_release_q b \<le> t" "t \<le> sched_anchor_q b"
      and x: "x = min (sched_remaining_q b) (t - sched_release_q b)"
      and e1: "e1 = e\<lparr> accounts := (accounts e)[i := b\<lparr> sched_remaining_q := sched_remaining_q b - x,
                   reserved_pnl := reserved_pnl b - x \<rparr>],
                 pnl_matured_pos_tot := pnl_matured_pos_tot e + x \<rparr>" for x t e1
  proof -
    have x0: "0 \<le> x" using x t(1) bucket_reads(3)[OF b(1)] by simp
    have "okP (warmup_settle_acct (current_slot e1) t
             (b\<lparr> sched_remaining_q := sched_remaining_q b - x, reserved_pnl := reserved_pnl b - x \<rparr>))
       (\<lambda>_ c. ?P () (e1\<lparr> accounts := (accounts e1)[i := c] \<rparr>))"
    proof (rule okP_mono[OF warmup_settle_spec[OF b(1) sp t x refl]])
      fix u c
      assume C: "core c = core b \<and> pnl c = pnl b \<and> reserved_pnl c = reserved_pnl b - x
          \<and> buckets_ok (params e) c"
      have "pnl_set i (pnl ?a) e (e1\<lparr> accounts := (accounts e1)[i := c] \<rparr>)"
        by (rule pnl_set_release[OF i L, of c]) (use C b nb x0 in \<open>simp_all add: e1 reserve_ok_def\<close>)
      then show "?P () (e1\<lparr> accounts := (accounts e1)[i := c] \<rparr>)"
        using C b i x0 by (simp add: e1)
    qed
    then show ?thesis using i by (simp add: okP_on_acct e1)
  qed
  have done0: "?P () e" using pnl_set_refl[OF i r] by simp
  define E where "E = upd i (\<lambda>_. b) e"
  have cs: "current_slot E = current_slot e" by (simp add: E_def)
  have inner: "okP (warmup_release i b t E) ?P"
    if sp: "sched_present b \<noteq> 0" and t: "sched_release_q b \<le> t" "t \<le> sched_anchor_q b" for t
  proof -
    define x where "x = min (sched_remaining_q b) (t - sched_release_q b)"
    define e1 where "e1 = e\<lparr> accounts := (accounts e)[i := b\<lparr> sched_remaining_q := sched_remaining_q b - x,
                   reserved_pnl := reserved_pnl b - x \<rparr>],
                 pnl_matured_pos_tot := pnl_matured_pos_tot e + x \<rparr>"
    have F: "okP (on_acct i (warmup_settle_acct (current_slot e1) t) e1) ?P"
      by (rule fin[OF sp t x_def e1_def])
    have cs1: "current_slot e1 = current_slot e" "pnl_matured_pos_tot E = pnl_matured_pos_tot e"
      by (simp_all add: E_def e1_def)
    have U: "(upd i (\<lambda>a. a\<lparr> reserved_pnl := reserved_pnl b - x \<rparr>)
        (upd i (\<lambda>a. a\<lparr> sched_remaining_q := sched_remaining_q b - x \<rparr>) E))
          \<lparr> pnl_matured_pos_tot := pnl_matured_pos_tot e + x \<rparr> = e1"
      using i by (simp add: e1_def E_def upd_def)
    show ?thesis
    proof (cases "0 < x")
      case True
      then show ?thesis
        unfolding warmup_release_def Let_def x_def[symmetric] if_P[OF True] okP_sthen okP_sval okR_ok_or
        using F by (clarsimp simp: U cs1)
    next
      case False
      then have "x = 0" using t bucket_reads(3)[OF b(1)] by (auto simp: x_def min_def)
      then have "E = e1" using i by (simp add: e1_def E_def upd_def)
      then show ?thesis
        unfolding warmup_release_def Let_def x_def[symmetric] if_not_P[OF False]
        using F by (simp add: okP_sthen)
    qed
  qed
  have tb: "t \<le> sched_anchor_q b" if "sched_present b \<noteq> 0" "sched_start_slot b \<le> current_slot e"
    "(if current_slot e - sched_start_slot b \<ge> sched_horizon b then Ok (sched_anchor_q b)
      else mul_div_floor_u128 (sched_anchor_q b) (current_slot e - sched_start_slot b) (sched_horizon b)) = Ok t" for t
    by (rule sched_total_bound(2)[of "params e" b "current_slot e - sched_start_slot b"])
      (use b(1) that in \<open>simp_all add: buckets_ok_def\<close>)
  have go: "okP (warmup_release i b t E) ?P" if "sched_present b \<noteq> 0"
    "\<not> current_slot e < sched_start_slot b" "\<not> t < sched_release_q b"
    "(if current_slot e - sched_start_slot b \<ge> sched_horizon b then Ok (sched_anchor_q b)
      else mul_div_floor_u128 (sched_anchor_q b) (current_slot e - sched_start_slot b) (sched_horizon b)) = Ok t" for t
    using inner[of t] tb[of t] that unfolding not_less by blast
  show ?thesis
    unfolding advance_profit_warmup_def Let_def b_def[symmetric] E_def[symmetric] okP_sacct
      okP_sval okR_validate[OF r] okP_if okR_require cs
    using done0 go by (intro conjI impI) (simp_all only: okP_basic okR_def, blast)
qed

text \<open>Accelerating the whole reserve of a slot on touch.\<close>

theorem admit_outstanding_spec:
  assumes inv: "pnl_inv e" and L: "market_mode e = Live"
  shows "okP (admit_outstanding_reserve_on_touch i e)
     (\<lambda>_ e'. pnl_set i (pnl (accounts e ! i)) e e'
        \<and> (reserved_pnl (accounts e' ! i) = 0
           \<or> e' = e \<and> vault e < c_tot e + balance (insurance_fund e) + pnl_matured_pos_tot e
                       + reserved_pnl (accounts e ! i)))"
    (is "okP _ ?P")
proof (cases "i < MAX_ACCOUNTS e")
  case False
  then show ?thesis using L by (simp add: admit_outstanding_reserve_on_touch_def okP_sacct)
next
  case i: True
  let ?a = "accounts e ! i"
  have r: "reserve_ok (params e) ?a"
    using accts_ok_nth[of e i] inv i by (simp add: pnl_inv_def acct_ok_def)
  have b: "buckets_ok (params e) ?a" using r by (simp add: reserve_ok_def)
  have R: "sched_r ?a + pend_r ?a = reserved_pnl ?a" "0 \<le> reserved_pnl ?a"
    using b bucket_reads[OF b] by (auto simp: buckets_ok_def)
  have same: "pnl_set i (pnl ?a) e e" by (rule pnl_set_refl[OF i r])
  have clr: "reserve_ok (params e) (clear_reserve ?a)" "core (clear_reserve ?a) = core ?a"
    "pnl (clear_reserve ?a) = pnl ?a" "reserved_pnl (clear_reserve ?a) = 0"
    by (simp_all add: clear_reserve_def reserve_ok_def bucket_defs in_u128_def bounds)
  have "pnl_set i (pnl ?a) e (upd i clear_reserve (e\<lparr> pnl_matured_pos_tot := pnl_matured_pos_tot e + reserved_pnl ?a \<rparr>))"
    by (rule pnl_set_release[OF i L clr(2,3,1)]) (use clr(4) in \<open>simp add: upd_def\<close>)
  then have adm: "?P () (upd i clear_reserve (e\<lparr> pnl_matured_pos_tot := pnl_matured_pos_tot e + reserved_pnl ?a \<rparr>))"
    using i by (simp add: upd_def clear_reserve_def)
  define P where "P = (\<lambda>u. ?P u)"
  have P: "P () (upd i clear_reserve (e\<lparr> pnl_matured_pos_tot := pnl_matured_pos_tot e + reserved_pnl ?a \<rparr>))"
    "reserved_pnl ?a = 0 \<Longrightarrow> P () e"
    "vault e < c_tot e + balance (insurance_fund e) + pnl_matured_pos_tot e + reserved_pnl ?a \<Longrightarrow> P () e"
    using adm same by (simp_all add: P_def)
  have "okP (admit_outstanding_reserve_on_touch i e) P"
    unfolding admit_outstanding_reserve_on_touch_def Let_def okP_sacct okP_sval
      okR_ok_or senior_claims_def
    using L i P by (auto simp: okP_if okP_sacct okP_sval okR_ok_or okR_validate[OF r] R(1))
  then show ?thesis by (simp add: P_def)
qed

text \<open>In a resolved market the reserve of a slot is cleared without touching the totals.\<close>

theorem prepare_resolved_spec:
  assumes inv: "pnl_inv e" and R: "market_mode e = Resolved"
  shows "okP (prepare_account_for_resolved_touch i e)
     (\<lambda>_ e'. pnl_set i (pnl (accounts e ! i)) e e' \<and> reserved_pnl (accounts e' ! i) = 0)"
proof (cases "i < MAX_ACCOUNTS e")
  case False
  then show ?thesis by (simp add: prepare_account_for_resolved_touch_def okP_sacct)
next
  case i: True
  have "reserve_ok (params e) (clear_reserve (accounts e ! i))"
    by (simp add: clear_reserve_def reserve_ok_def bucket_defs in_u128_def bounds)
  then show ?thesis
    using i R
    by (simp add: prepare_account_for_resolved_touch_def okP_sacct pnl_set_def pnl_effect_def Let_def
        upd_def clear_reserve_def core_def posp_def negp_def)
qed


section \<open>Frames\<close>

text \<open>
  \<open>frame S e e'\<close>: from \<open>e\<close> to \<open>e'\<close> only the accounts of \<open>S\<close>, the totals and counters over the
  accounts and the dust bounds may have changed; the vault, the insurance fund, the parameters,
  the market mode, the slab and the market fields are the same.
\<close>

definition slab_fields :: "engine \<Rightarrow> 64 word list \<times> nat \<times> nat \<times> nat list \<times> nat list \<times> int \<times> nat" where
  "slab_fields e = (used e, num_used_accounts e, free_head e, next_free e, prev_free e,
     materialized_account_count e, MAX_ACCOUNTS e)"

definition mkt_fields where
  "mkt_fields e = ((adl_mult_long e, adl_mult_short e, adl_coeff_long e, adl_coeff_short e,
      f_long_num e, f_short_num e),
     (adl_epoch_long e, adl_epoch_short e, adl_epoch_start_k_long e, adl_epoch_start_k_short e,
      f_epoch_start_long_num e, f_epoch_start_short_num e),
     (oi_eff_long_q e, oi_eff_short_q e, side_mode_long e, side_mode_short e),
     (last_oracle_price e, fund_px_last e, last_market_slot e, current_slot e),
     (resolved_price e, resolved_slot e, resolved_payout_h_num e, resolved_payout_h_den e,
      resolved_payout_ready e, resolved_k_long_terminal_delta e, resolved_k_short_terminal_delta e,
      resolved_live_price e),
     (last_crank_slot e, gc_cursor e))"

definition frame :: "nat set \<Rightarrow> engine \<Rightarrow> engine \<Rightarrow> bool" where
  "frame S e e' =
     (vault e' = vault e \<and> insurance_fund e' = insurance_fund e \<and> params e' = params e
      \<and> market_mode e' = market_mode e \<and> slab_fields e' = slab_fields e
      \<and> mkt_fields e' = mkt_fields e
      \<and> (\<forall>j. j \<notin> S \<longrightarrow> accounts e' ! j = accounts e ! j))"

lemma frame_refl [simp]: "frame S e e"
  by (simp add: frame_def)

lemma frame_trans: "frame S e e1 \<Longrightarrow> frame S e1 e2 \<Longrightarrow> frame S e e2"
  by (simp add: frame_def)

lemma frame_mono: "frame S e e1 \<Longrightarrow> S \<subseteq> T \<Longrightarrow> frame T e e1"
  by (auto simp: frame_def)

lemma frame_D:
  assumes "frame S e e'"
  shows "vault e' = vault e" "insurance_fund e' = insurance_fund e" "params e' = params e"
    "market_mode e' = market_mode e" "MAX_ACCOUNTS e' = MAX_ACCOUNTS e"
    "\<And>j. j \<notin> S \<Longrightarrow> accounts e' ! j = accounts e ! j" "used e' = used e"
    "num_used_accounts e' = num_used_accounts e" "\<And>j. is_used e' j = is_used e j"
  using assms by (simp_all add: frame_def slab_fields_def mkt_fields_def is_used_bit)

lemma frame_slab:
  assumes "frame S e e'" "slab_ok e" "\<And>i. i \<in> S \<Longrightarrow> is_used e i"
  shows "slab_ok e'"
proof -
  note D = frame_D[OF assms(1)]
  have L: "next_free e' = next_free e" "prev_free e' = prev_free e" "free_head e' = free_head e"
    "materialized_account_count e' = materialized_account_count e"
    using assms(1) by (simp_all add: frame_def slab_fields_def mkt_fields_def)
  have c: "free_chain e' fl = free_chain e fl" for fl by (simp add: free_chain_def D L)
  have v: "accounts e' ! i = accounts e ! i" if "\<not> is_used e i" for i
    using D(6) assms(3) that by blast
  have u: "used_set e' = used_set e" by (simp add: used_set_def D)
  show ?thesis
    using assms(2) v by (simp add: slab_ok_def slab_shape_def c u D L)
qed

lemma frame_upd [simp]:
  assumes "i \<in> S"
  shows "frame S e (upd i f e)"
proof -
  have "j \<noteq> i" if "j \<notin> S" for j using that assms by blast
  then show ?thesis by (simp add: frame_def slab_fields_def mkt_fields_def)
qed

lemma pnl_set_frame:
  assumes "pnl_set i new e e'"
  shows "frame {i} e e'" "c_tot e' = c_tot e"
    "core (accounts e' ! i) = core (accounts e ! i)" "pnl (accounts e' ! i) = new"
    "i < MAX_ACCOUNTS e"
proof -
  obtain a' where e': "e' = pnl_effect i a' e" using assms by (auto simp: pnl_set_def)
  show "frame {i} e e'" "c_tot e' = c_tot e"
    unfolding e' by (auto simp: frame_def slab_fields_def mkt_fields_def pnl_effect_def Let_def)
  show "core (accounts e' ! i) = core (accounts e ! i)" "pnl (accounts e' ! i) = new"
    "i < MAX_ACCOUNTS e"
    using assms by (simp_all add: pnl_set_def)
qed

lemma cap_effect_frame: "frame {i} e (cap_effect i c e)"
  by (auto simp: frame_def slab_fields_def mkt_fields_def cap_effect_def)


section \<open>Initialisation and the slab, with the aggregates\<close>

lemma empty_acct_ok: "acct_ok p (empty_account\<lparr> last_fee_slot := s \<rparr>)"
  by (simp add: acct_ok_def reserve_ok_def bucket_defs empty_account_def in_u128_def in_i128_def bounds)

lemma empty_terms:
  "capital (empty_account\<lparr> last_fee_slot := s \<rparr>) = 0" "posp (empty_account\<lparr> last_fee_slot := s \<rparr>) = 0"
  "matp (empty_account\<lparr> last_fee_slot := s \<rparr>) = 0" "negp (empty_account\<lparr> last_fee_slot := s \<rparr>) = 0"
  "longp (empty_account\<lparr> last_fee_slot := s \<rparr>) = 0" "shortp (empty_account\<lparr> last_fee_slot := s \<rparr>) = 0"
  by (simp_all add: empty_account_def posp_def matp_def negp_def longp_def shortp_def)

lemma empty_eq: "empty_account = empty_account\<lparr> last_fee_slot := 0 \<rparr>"
  by (simp add: empty_account_def)

lemma new_pnl_inv:
  assumes r: "new_with_market n p slot px = Ok e" and n: "n \<le> NIL" and t: "params_typed p"
  shows "pnl_inv e"
proof -
  note S = new_with_market_slab[OF r n t]
  have "0 < px" "px \<le> MAX_ORACLE_PRICE"
    using r by (auto simp: new_with_market_def Ok_iffs)
  then have e: "e = (blank_engine n p slot px)\<lparr> next_free := linked_next n, prev_free := linked_prev n \<rparr>"
    using new_with_market_eq[OF t S(4) n, of px slot] r by simp
  have "accts_ok e"
    using S(5) empty_acct_ok[of "params e" 0] empty_eq by (auto simp: accts_ok_def)
  moreover have "agg e"
    using empty_terms[of 0] by (simp add: agg_def e blank_engine_def flip: empty_eq)
  ultimately show ?thesis by (simp add: pnl_inv_def)
qed

lemma init_cases:
  assumes m: "slab_shape e" and t: "params_typed p"
  shows "(\<exists>e'. init_in_place p slot px e = (Ok (), e') \<and> params_ok (MAX_ACCOUNTS e) p \<and> 0 < px
            \<and> px \<le> MAX_ORACLE_PRICE \<and> slab_ok e' \<and> pnl_inv e' \<and> used_set e' = {} \<and> params e' = p)
      \<or> (init_in_place p slot px e = (Panic, e)
         \<and> \<not> (params_ok (MAX_ACCOUNTS e) p \<and> 0 < px \<and> px \<le> MAX_ORACLE_PRICE))"
proof (cases "params_ok (MAX_ACCOUNTS e) p \<and> 0 < px \<and> px \<le> MAX_ORACLE_PRICE")
  case True
  have n: "MAX_ACCOUNTS e \<le> NIL" using m by (simp add: slab_shape_def)
  obtain e' where N: "new_with_market (MAX_ACCOUNTS e) p slot px = Ok e'"
    using new_with_market_eq[OF t _ n, of px slot] True by blast
  have "init_in_place p slot px e = (Ok (), e')" using init_in_place_new[OF m] N by simp
  moreover have "used_set e' = {}" using new_with_market_slab(6)[OF N n t] by (simp add: used_set_def)
  ultimately show ?thesis
    using True new_with_market_slab[OF N n t] new_pnl_inv[OF N n t] by blast
next
  case False
  have "new_with_market (MAX_ACCOUNTS e) p slot px = Panic"
  proof (cases "validate_params (MAX_ACCOUNTS e) p")
    case (Ok u)
    then show ?thesis
      using False validate_params_iff[OF t, of "MAX_ACCOUNTS e"]
      by (simp add: new_with_market_def assertion_def)
  next
    case (Err x)
    then show ?thesis
      by (simp add: validate_params_def assertion_def split: if_splits)
  qed (simp add: new_with_market_def)
  then show ?thesis using False init_in_place_new[OF m, of p slot px] by simp
qed

lemma materialize_cases:
  assumes ok: "slab_ok e"
  shows "(\<exists>e'. materialize_at i slot e = (Ok (), e') \<and> i < MAX_ACCOUNTS e \<and> \<not> is_used e i
            \<and> int i < max_accounts (params e) \<and> slab_ok e' \<and> used_set e' = insert i (used_set e)
            \<and> accounts e' = (accounts e)[i := empty_account\<lparr> last_fee_slot := slot \<rparr>])
      \<or> (\<exists>x. materialize_at i slot e = (Err x, e)
         \<and> (i < MAX_ACCOUNTS e \<longrightarrow> is_used e i \<or> \<not> int i < max_accounts (params e)))"
proof (cases "i < MAX_ACCOUNTS e \<and> \<not> is_used e i \<and> int i < max_accounts (params e)")
  case True
  have sh: "slab_shape e" using ok by (simp add: slab_ok_def)
  show ?thesis
    using True materialize_at_free[OF ok, of i slot] materialized_ok[OF ok, of i slot]
      is_used_materialized[OF sh, of i slot]
    by (auto simp: used_set_def reset_account_eq)
next
  case False
  then have "\<exists>x. materialize_at i slot e = (Err x, e)"
    by (auto simp: materialize_at_def)
  then show ?thesis using False by blast
qed

lemma materialized_pnl_inv:
  assumes inv: "pnl_inv e" and ok: "slab_ok e" and i: "i < MAX_ACCOUNTS e" "\<not> is_used e i"
  shows "pnl_inv (materialized i slot e)"
proof -
  have v: "accounts e ! i = empty_account" using ok i by (simp add: slab_ok_def vacant_def)
  let ?m = "materialized i slot e"
  have f: "c_tot ?m = c_tot e" "pnl_pos_tot ?m = pnl_pos_tot e" "pnl_matured_pos_tot ?m = pnl_matured_pos_tot e"
    "neg_pnl_account_count ?m = neg_pnl_account_count e" "market_mode ?m = market_mode e"
    "stored_pos_count_long ?m = stored_pos_count_long e" "stored_pos_count_short ?m = stored_pos_count_short e"
    by (simp_all add: materialized_def Let_def set_used_def)
  have "accts_ok ?m"
    using inv empty_acct_ok[of "params e" slot]
    by - (rule accts_ok_update[of e _ i "empty_account\<lparr> last_fee_slot := slot \<rparr>"],
          simp_all add: pnl_inv_def reset_account_eq)
  moreover have "agg ?m"
    using inv i(1) empty_terms[of slot] empty_terms[of 0]
    by (simp add: pnl_inv_def agg_def f tot_update reset_account_eq v flip: empty_eq)
  ultimately show ?thesis by (simp add: pnl_inv_def)
qed


section \<open>The instruction context through the mutators\<close>

definition ctx_rel :: "instruction_context \<Rightarrow> instruction_context \<Rightarrow> bool" where
  "ctx_rel c c' =
     ((ctx_ok c \<longrightarrow> ctx_ok c' \<and> touched c' = touched c)
      \<and> admit_h_min_shared c' = admit_h_min_shared c \<and> admit_h_max_shared c' = admit_h_max_shared c
      \<and> pending_reset_long c' = pending_reset_long c \<and> pending_reset_short c' = pending_reset_short c)"

lemma ctx_rel_refl [simp]: "ctx_rel c c"
  by (simp add: ctx_rel_def)

lemma ctx_rel_mark:
  assumes "mark_h_max_sticky i c = (b, c')"
  shows "ctx_rel c c'"
proof -
  have "c' = c \<or> (\<exists>xs n. c' = c\<lparr> h_max_sticky_accounts := xs, h_max_sticky_count := n \<rparr>)"
    using assms unfolding mark_h_max_sticky_def Let_def by (metis Pair_inject)
  moreover have "ctx_ok c \<Longrightarrow> ctx_ok c' \<and> touched c' = touched c"
    using mark_sticky_spec(1,2)[OF _ assms] by blast
  ultimately show ?thesis
    unfolding ctx_rel_def by (elim disjE exE) simp_all
qed

lemma admit_fresh_ctx: "okR (admit_fresh_reserve_h_lock i x lo hi c e) (\<lambda>(h, c'). ctx_rel c c')"
  using ctx_rel_mark[of "i mod 65536" c]
  by (auto simp: admit_fresh_reserve_h_lock_def okR_rthen okR_ok_or senior_claims_def Let_def
      split: prod.splits)

lemma okP_any: "(\<And>x s. P x s) \<Longrightarrow> okP m P"
  by (simp add: okP_def)

theorem set_pnl_ctx:
  "okP (set_pnl_with_reserve i new mode (Some c) e) (\<lambda>oc _. \<exists>c'. oc = Some c' \<and> ctx_rel c c')"
proof -
  let ?P = "\<lambda>oc (_ :: engine). \<exists>c'. oc = Some c' \<and> ctx_rel c c'"
  have F: "ctx_rel c c' \<Longrightarrow> okP (set_pnl_final i new (Some c') s) ?P" for c' s
    by (simp add: set_pnl_final_okP)
  have F0: "okP (set_pnl_final i new (Some c) s) ?P" for s by (rule F) simp
  have adm: "okR (admit_fresh_reserve_h_lock i x lo hi c s)
     (\<lambda>p. okP (case p of (h, c') \<Rightarrow> sthen (m h s) (\<lambda>_ s. set_pnl_final i new (Some c') s)) ?P)"
    for x lo hi s and m :: "int \<Rightarrow> engine \<Rightarrow> unit step"
  proof (rule okR_mono[OF admit_fresh_ctx])
    fix p :: "int \<times> instruction_context"
    assume "case p of (h, c') \<Rightarrow> ctx_rel c c'"
    then show "okP (case p of (h, c') \<Rightarrow> sthen (m h s) (\<lambda>_ s. set_pnl_final i new (Some c') s)) ?P"
      by (cases p) (simp only: prod.case okP_sthen, rule okP_any, rule F, simp)
  qed
  have A: "okP (set_pnl_case_a i new mode (Some c) old x s) ?P" for old x s
    unfolding set_pnl_case_a_def okP_sthen Let_def
  proof (rule okP_any)
    fix u s
    show "okP (case mode of
        UseAdmissionPair admit_h_min admit_h_max \<Rightarrow>
          sval (ok_or CorruptState (Some c)) (upd i (pnl_update (\<lambda>_. new)) s) (\<lambda>ctx.
          sval (admit_fresh_reserve_h_lock i x admit_h_min admit_h_max ctx (upd i (pnl_update (\<lambda>_. new)) s)) (upd i (pnl_update (\<lambda>_. new)) s)
            (\<lambda>(admitted_h_eff, ctx).
          sthen
            (if admitted_h_eff = 0
             then sval (ok_or Overflow (fit_u128 (pnl_matured_pos_tot (upd i (pnl_update (\<lambda>_. new)) s) + x))) (upd i (pnl_update (\<lambda>_. new)) s) (\<lambda>m.
                    (Ok (), (upd i (pnl_update (\<lambda>_. new)) s)\<lparr> pnl_matured_pos_tot := m \<rparr>))
             else append_or_route_new_reserve i x (current_slot (upd i (pnl_update (\<lambda>_. new)) s)) admitted_h_eff (upd i (pnl_update (\<lambda>_. new)) s))
            (\<lambda>_ e. set_pnl_final i new (Some ctx) e)))
      | ImmediateReleaseResolvedOnly \<Rightarrow>
          sval (ok_or Overflow (fit_u128 (pnl_matured_pos_tot (upd i (pnl_update (\<lambda>_. new)) s) + x))) (upd i (pnl_update (\<lambda>_. new)) s) (\<lambda>m.
          set_pnl_final i new (Some c) ((upd i (pnl_update (\<lambda>_. new)) s)\<lparr> pnl_matured_pos_tot := m \<rparr>))
      | NoPositiveIncreaseAllowed \<Rightarrow> (Err Overflow, upd i (pnl_update (\<lambda>_. new)) s)) ?P"
      using adm F0 by (cases mode) (simp_all add: okP_sval okR_ok_or)
  qed
  have B: "okP (set_pnl_case_b i new (Some c) old np l s) ?P" for old np l s
    unfolding set_pnl_case_b_def okP_sthen Let_def okP_sval
    by (intro okP_any okR_I F0)
  show ?thesis
    unfolding set_pnl_with_reserve_def okP_sacct okP_sval okP_sthen Let_def
    using A B by (cases "new = I128_MIN") (simp_all add: okP_sacct okP_sval okP_sthen okR_def okP_any)
qed

end
