(* ===== verification/Position.thy ===== *)
theory Position
  imports Pnl
begin

text \<open>
  Positions and the lazy A/K side indices of \<open>src/src/percolator.rs\<close>: the side accessors,
  \<open>set_position_basis_q\<close>, \<open>attach_effective_position\<close>, \<open>effective_pos_q\<close>, the combined K/F
  settlement \<open>compute_kf_pnl_delta\<close> and \<open>settle_side_effects_live\<close>.
\<close>

section \<open>Side accessors\<close>

fun get_a_side :: "side \<Rightarrow> engine \<Rightarrow> int" where
  "get_a_side Long e = adl_mult_long e" | "get_a_side Short e = adl_mult_short e"
fun get_k_side :: "side \<Rightarrow> engine \<Rightarrow> int" where
  "get_k_side Long e = adl_coeff_long e" | "get_k_side Short e = adl_coeff_short e"
fun get_epoch_side :: "side \<Rightarrow> engine \<Rightarrow> int" where
  "get_epoch_side Long e = adl_epoch_long e" | "get_epoch_side Short e = adl_epoch_short e"
fun get_k_epoch_start :: "side \<Rightarrow> engine \<Rightarrow> int" where
  "get_k_epoch_start Long e = adl_epoch_start_k_long e"
| "get_k_epoch_start Short e = adl_epoch_start_k_short e"
fun get_f_side :: "side \<Rightarrow> engine \<Rightarrow> int" where
  "get_f_side Long e = f_long_num e" | "get_f_side Short e = f_short_num e"
fun get_f_epoch_start :: "side \<Rightarrow> engine \<Rightarrow> int" where
  "get_f_epoch_start Long e = f_epoch_start_long_num e"
| "get_f_epoch_start Short e = f_epoch_start_short_num e"
fun get_side_mode :: "side \<Rightarrow> engine \<Rightarrow> side_mode" where
  "get_side_mode Long e = side_mode_long e" | "get_side_mode Short e = side_mode_short e"
fun get_oi_eff :: "side \<Rightarrow> engine \<Rightarrow> int" where
  "get_oi_eff Long e = oi_eff_long_q e" | "get_oi_eff Short e = oi_eff_short_q e"
fun get_stale_count :: "side \<Rightarrow> engine \<Rightarrow> int" where
  "get_stale_count Long e = stale_account_count_long e"
| "get_stale_count Short e = stale_account_count_short e"
fun get_stored_pos_count :: "side \<Rightarrow> engine \<Rightarrow> int" where
  "get_stored_pos_count Long e = stored_pos_count_long e"
| "get_stored_pos_count Short e = stored_pos_count_short e"

fun set_oi_eff :: "side \<Rightarrow> int \<Rightarrow> engine \<Rightarrow> engine" where
  "set_oi_eff Long v e = e\<lparr> oi_eff_long_q := v \<rparr>"
| "set_oi_eff Short v e = e\<lparr> oi_eff_short_q := v \<rparr>"
fun set_side_mode :: "side \<Rightarrow> side_mode \<Rightarrow> engine \<Rightarrow> engine" where
  "set_side_mode Long m e = e\<lparr> side_mode_long := m \<rparr>"
| "set_side_mode Short m e = e\<lparr> side_mode_short := m \<rparr>"
fun set_a_side :: "side \<Rightarrow> int \<Rightarrow> engine \<Rightarrow> engine" where
  "set_a_side Long v e = e\<lparr> adl_mult_long := v \<rparr>"
| "set_a_side Short v e = e\<lparr> adl_mult_short := v \<rparr>"
fun set_k_side :: "side \<Rightarrow> int \<Rightarrow> engine \<Rightarrow> engine" where
  "set_k_side Long v e = e\<lparr> adl_coeff_long := v \<rparr>"
| "set_k_side Short v e = e\<lparr> adl_coeff_short := v \<rparr>"
fun set_stale_count :: "side \<Rightarrow> int \<Rightarrow> engine \<Rightarrow> engine" where
  "set_stale_count Long v e = e\<lparr> stale_account_count_long := v \<rparr>"
| "set_stale_count Short v e = e\<lparr> stale_account_count_short := v \<rparr>"

fun inc_phantom_dust_bound_by :: "side \<Rightarrow> int \<Rightarrow> engine \<Rightarrow> unit step" where
  "inc_phantom_dust_bound_by Long amount_q e =
     sval (ok_or Overflow (fit_u128 (phantom_dust_bound_long_q e + amount_q))) e (\<lambda>d.
       (Ok (), e\<lparr> phantom_dust_bound_long_q := d \<rparr>))"
| "inc_phantom_dust_bound_by Short amount_q e =
     sval (ok_or Overflow (fit_u128 (phantom_dust_bound_short_q e + amount_q))) e (\<lambda>d.
       (Ok (), e\<lparr> phantom_dust_bound_short_q := d \<rparr>))"

fun inc_phantom_dust_bound :: "side \<Rightarrow> engine \<Rightarrow> unit step" where
  "inc_phantom_dust_bound Long e =
     sval (ok_or Overflow (fit_u128 (phantom_dust_bound_long_q e + 1))) e (\<lambda>d.
       (Ok (), e\<lparr> phantom_dust_bound_long_q := d \<rparr>))"
| "inc_phantom_dust_bound Short e =
     sval (ok_or Overflow (fit_u128 (phantom_dust_bound_short_q e + 1))) e (\<lambda>d.
       (Ok (), e\<lparr> phantom_dust_bound_short_q := d \<rparr>))"

section \<open>Positions\<close>

definition dec_pos_count :: "side option \<Rightarrow> engine \<Rightarrow> unit step" where
  "dec_pos_count s e =
     (case s of None \<Rightarrow> (Ok (), e)
      | Some Long \<Rightarrow>
          sval (ok_or CorruptState (fit_u64 (stored_pos_count_long e - 1))) e (\<lambda>n.
            (Ok (), e\<lparr> stored_pos_count_long := n \<rparr>))
      | Some Short \<Rightarrow>
          sval (ok_or CorruptState (fit_u64 (stored_pos_count_short e - 1))) e (\<lambda>n.
            (Ok (), e\<lparr> stored_pos_count_short := n \<rparr>)))"

definition inc_pos_count :: "side option \<Rightarrow> engine \<Rightarrow> unit step" where
  "inc_pos_count s e =
     (case s of None \<Rightarrow> (Ok (), e)
      | Some Long \<Rightarrow>
          sval (ok_or CorruptState (fit_u64 (stored_pos_count_long e + 1))) e (\<lambda>n.
            (Ok (), e\<lparr> stored_pos_count_long := n \<rparr>))
      | Some Short \<Rightarrow>
          sval (ok_or CorruptState (fit_u64 (stored_pos_count_short e + 1))) e (\<lambda>n.
            (Ok (), e\<lparr> stored_pos_count_short := n \<rparr>)))"

definition set_position_basis_q :: "nat \<Rightarrow> int \<Rightarrow> engine \<Rightarrow> unit step" where
  "set_position_basis_q idx new_basis e =
     sacct e idx (\<lambda>a.
     sthen (dec_pos_count (side_of_i128 (position_basis_q a)) e) (\<lambda>_ e.
     sthen (inc_pos_count (side_of_i128 new_basis) e) (\<lambda>_ e.
     (Ok (), upd idx (\<lambda>a. a\<lparr> position_basis_q := new_basis \<rparr>) e))))"

text \<open>The canonical zero-position defaults.\<close>

definition clear_snaps :: "account \<Rightarrow> account" where
  "clear_snaps a = a\<lparr> adl_a_basis := ADL_ONE, adl_k_snap := 0, f_snap := 0, adl_epoch_snap := 0 \<rparr>"

definition take_snaps :: "side \<Rightarrow> engine \<Rightarrow> account \<Rightarrow> account" where
  "take_snaps s e a =
     (case s of
        Long \<Rightarrow> a\<lparr> adl_a_basis := adl_mult_long e, adl_k_snap := adl_coeff_long e,
                   f_snap := f_long_num e, adl_epoch_snap := adl_epoch_long e \<rparr>
      | Short \<Rightarrow> a\<lparr> adl_a_basis := adl_mult_short e, adl_k_snap := adl_coeff_short e,
                   f_snap := f_short_num e, adl_epoch_snap := adl_epoch_short e \<rparr>)"

definition attach_effective_position :: "nat \<Rightarrow> int \<Rightarrow> engine \<Rightarrow> unit step" where
  "attach_effective_position idx new_eff_pos_q e =
     sacct e idx (\<lambda>a.
     let old_basis = position_basis_q a in
     sthen
       (if old_basis \<noteq> 0 then
          case side_of_i128 old_basis of
            None \<Rightarrow> (Ok (), e)
          | Some old_side \<Rightarrow>
              if adl_epoch_snap a = get_epoch_side old_side e \<and> adl_a_basis a \<noteq> 0 then
                case fit_u256 (\<bar>old_basis\<bar> * get_a_side old_side e) of
                  None \<Rightarrow> (Ok (), e)
                | Some p \<Rightarrow>
                    if p mod adl_a_basis a \<noteq> 0 then inc_phantom_dust_bound old_side e
                    else (Ok (), e)
              else (Ok (), e)
        else (Ok (), e))
       (\<lambda>_ e.
     if new_eff_pos_q = 0 then
       sthen (set_position_basis_q idx 0 e) (\<lambda>_ e. (Ok (), upd idx clear_snaps e))
     else if \<bar>new_eff_pos_q\<bar> > MAX_POSITION_ABS_Q then (Err Overflow, e)
     else
       sval (ok_or CorruptState (side_of_i128 new_eff_pos_q)) e (\<lambda>s.
       sthen (set_position_basis_q idx new_eff_pos_q e) (\<lambda>_ e.
         (Ok (), upd idx (take_snaps s e) e)))))"

definition effective_pos_q :: "nat \<Rightarrow> engine \<Rightarrow> int outcome" where
  "effective_pos_q idx e =
     acct e idx (\<lambda>a.
     let basis = position_basis_q a in
     if basis = 0 then Ok 0
     else
       rthen (expect (side_of_i128 basis)) (\<lambda>s.
       if adl_epoch_snap a \<noteq> get_epoch_side s e then Ok 0
       else
         let a_side = get_a_side s e; a_basis = adl_a_basis a in
         if a_basis = 0 then Ok 0
         else
           rthen (mul_div_floor_u128 \<bar>basis\<bar> a_side a_basis) (\<lambda>effective_abs.
           if basis < 0 then
             if effective_abs = 0 then Ok 0
             else if effective_abs > I128_MAX then Ok 0
             else Ok (- effective_abs)
           else
             if effective_abs > I128_MAX then Ok 0 else Ok effective_abs)))"

section \<open>K/F settlement\<close>

text \<open>
  The body the two variants \<open>compute_kf_pnl_delta\<close> and \<open>compute_kf_pnl_delta_wide\<close> share; they
  differ in the type of \<open>k_now\<close> and \<open>f_now\<close> only.
\<close>

definition kf_floor :: "int \<Rightarrow> int \<Rightarrow> int \<Rightarrow> int outcome" where
  "kf_floor abs_basis combined den =
     (if combined = 0 then Ok 0
      else if combined = I256_MIN then Err Overflow
      else
        rthen (ok_or Overflow (fit_u256 (den * FUNDING_DEN))) (\<lambda>den_wide.
        rthen (ok_or Overflow (fit_u256 (abs_basis * \<bar>combined\<bar>))) (\<lambda>p.
        rthen (assertion (den_wide \<noteq> 0)) (\<lambda>_.
        let q = p div den_wide; rem = p mod den_wide in
        if combined < 0 then
          rthen (if rem \<noteq> 0 then ok_or Overflow (fit_u256 (q + 1)) else Ok q) (\<lambda>mag.
          rthen (ok_or Overflow (fit_u128 mag)) (\<lambda>mag_u128.
          if mag_u128 > I128_MAX then Err Overflow else Ok (- mag_u128)))
        else
          rthen (ok_or Overflow (fit_u128 q)) (\<lambda>q_u128.
          if q_u128 > I128_MAX then Err Overflow else Ok q_u128)))))"

definition kf_scale :: "int \<Rightarrow> int outcome" where
  "kf_scale k_diff =
     (if k_diff = 0 then Ok 0
      else if k_diff = I256_MIN then Err Overflow
      else
        rthen (ok_or Overflow (fit_u256 (\<bar>k_diff\<bar> * FUNDING_DEN))) (\<lambda>prod.
        rthen (require (prod \<le> I256_MAX) Overflow) (\<lambda>_.
        if k_diff < 0 then ok_or Overflow (fit_i256 (0 - prod)) else Ok prod)))"

definition kf_body :: "int \<Rightarrow> int \<Rightarrow> int \<Rightarrow> int \<Rightarrow> int \<Rightarrow> int \<Rightarrow> int outcome" where
  "kf_body abs_basis k_snap k_now fs f_now den =
     (if abs_basis = 0 then Ok 0
      else
        rthen (ok_or Overflow (fit_i256 (k_now - k_snap))) (\<lambda>k_diff.
        rthen (kf_scale k_diff) (\<lambda>k_scaled.
        rthen (ok_or Overflow (fit_i256 (f_now - fs))) (\<lambda>f_diff.
        rthen (ok_or Overflow (fit_i256 (k_scaled + f_diff))) (\<lambda>combined.
        kf_floor abs_basis combined den)))))"

definition compute_kf_pnl_delta :: "int \<Rightarrow> int \<Rightarrow> int \<Rightarrow> int \<Rightarrow> int \<Rightarrow> int \<Rightarrow> int outcome" where
  "compute_kf_pnl_delta abs_basis k_snap k_now fs f_now den =
     kf_body abs_basis k_snap k_now fs f_now den"

definition compute_kf_pnl_delta_wide :: "int \<Rightarrow> int \<Rightarrow> int \<Rightarrow> int \<Rightarrow> int \<Rightarrow> int \<Rightarrow> int outcome"
where
  "compute_kf_pnl_delta_wide abs_basis k_snap k_now_wide fs f_now_wide den =
     kf_body abs_basis k_snap k_now_wide fs f_now_wide den"

text \<open>An \<open>i128\<close> addition with its overflow and its guard against the most negative value.\<close>

definition checked_pnl_add :: "int \<Rightarrow> int \<Rightarrow> int outcome" where
  "checked_pnl_add a b =
     rthen (ok_or Overflow (fit_i128 (a + b))) (\<lambda>x.
     if x = I128_MIN then Err Overflow else Ok x)"

definition settle_side_effects_live ::
  "nat \<Rightarrow> instruction_context \<Rightarrow> engine \<Rightarrow> instruction_context step"
where
  "settle_side_effects_live idx ctx e =
     sacct e idx (\<lambda>a.
     let basis = position_basis_q a in
     if basis = 0 then (Ok ctx, e)
     else
       sval (expect (side_of_i128 basis)) e (\<lambda>s.
       let epoch_snap = adl_epoch_snap a; epoch_side = get_epoch_side s e;
           a_basis = adl_a_basis a in
       if a_basis = 0 then (Err CorruptState, e)
       else
         let abs_basis = \<bar>basis\<bar>;
             mode = UseAdmissionPair (admit_h_min_shared ctx) (admit_h_max_shared ctx) in
         if epoch_snap = epoch_side then
           let a_side = get_a_side s e; k_side = get_k_side s e; f_side = get_f_side s e in
           sval (mul_div_floor_u128 abs_basis a_side a_basis) e (\<lambda>q_eff_new.
           sval (ok_or Overflow (fit_u128 (a_basis * POS_SCALE))) e (\<lambda>den.
           sval (compute_kf_pnl_delta abs_basis (adl_k_snap a) k_side (f_snap a) f_side den) e
             (\<lambda>pnl_delta.
           sval (checked_pnl_add (pnl a) pnl_delta) e (\<lambda>new_pnl.
           sthen (set_pnl_with_reserve idx new_pnl mode (Some ctx) e) (\<lambda>octx e.
           sval (expect octx) e (\<lambda>ctx.
           if q_eff_new = 0 then
             sthen (inc_phantom_dust_bound s e) (\<lambda>_ e.
             sthen (set_position_basis_q idx 0 e) (\<lambda>_ e.
               (Ok ctx, upd idx clear_snaps e)))
           else
             (Ok ctx, upd idx (\<lambda>a. a\<lparr> adl_k_snap := k_side, f_snap := f_side,
                                       adl_epoch_snap := epoch_side \<rparr>) e)))))))
         else if get_side_mode s e \<noteq> ResetPending then (Err CorruptState, e)
         else if fit_u64 (epoch_snap + 1) \<noteq> Some epoch_side then (Err CorruptState, e)
         else
           sval (ok_or Overflow (fit_u128 (a_basis * POS_SCALE))) e (\<lambda>den.
           sval (compute_kf_pnl_delta abs_basis (adl_k_snap a) (get_k_epoch_start s e)
                   (f_snap a) (get_f_epoch_start s e) den) e (\<lambda>pnl_delta.
           sval (checked_pnl_add (pnl a) pnl_delta) e (\<lambda>new_pnl.
           sval (ok_or CorruptState (fit_u64 (get_stale_count s e - 1))) e (\<lambda>new_stale.
           sthen (set_pnl_with_reserve idx new_pnl mode (Some ctx) e) (\<lambda>octx e.
           sval (expect octx) e (\<lambda>ctx.
           sthen (set_position_basis_q idx 0 e) (\<lambda>_ e.
             (Ok ctx, upd idx clear_snaps (set_stale_count s new_stale e))))))))))) "


section \<open>What the settlement computes\<close>

text \<open>
  The settlement is a single floor of the exact quotient: the K difference scaled by
  \<open>FUNDING_DEN\<close> plus the F difference, times the basis, over the scaled denominator.
\<close>

lemma kf_floor_value:
  assumes r: "kf_floor b c den = Ok x" and d: "0 \<le> den"
  shows "x = b * c div (den * FUNDING_DEN)" "\<bar>x\<bar> \<le> I128_MAX"
proof -
  let ?D = "den * FUNDING_DEN"
  have M0: "0 \<le> I128_MAX" "0 < FUNDING_DEN" by (simp_all add: bounds)
  consider "c = 0" | "c < 0" | "c > 0" by linarith
  then have "x = b * c div ?D \<and> \<bar>x\<bar> \<le> I128_MAX"
  proof cases
    case 1
    then show ?thesis using r M0 by (simp add: kf_floor_def)
  next
    case 2
    have D0: "?D \<noteq> 0" using r 2 by (auto simp: kf_floor_def Ok_iffs split: if_splits)
    then have D: "0 < ?D" using d M0 by (simp add: zero_less_mult_iff)
    have e: "b * \<bar>c\<bar> = - (b * c)" using 2 by simp
    have "x = - (if b * \<bar>c\<bar> mod ?D \<noteq> 0 then b * \<bar>c\<bar> div ?D + 1 else b * \<bar>c\<bar> div ?D)
        \<and> 0 \<le> - x \<and> - x \<le> I128_MAX"
      using r 2 by (auto simp: kf_floor_def Ok_iffs Let_def in_u128_def split: if_splits)
    then show ?thesis unfolding ceil_eq[OF D] e by simp
  next
    case 3
    then show ?thesis
      using r by (auto simp: kf_floor_def Ok_iffs Let_def in_u128_def split: if_splits)
  qed
  then show "x = b * c div ?D" "\<bar>x\<bar> \<le> I128_MAX" by blast+
qed

lemma kf_scale_value: "kf_scale k = Ok s \<Longrightarrow> s = k * FUNDING_DEN"
  by (auto simp: kf_scale_def Ok_iffs split: if_splits)

theorem kf_value:
  assumes r: "kf_body b k0 k1 f0 f1 den = Ok x" and d: "0 \<le> den"
  shows "x = b * ((k1 - k0) * FUNDING_DEN + (f1 - f0)) div (den * FUNDING_DEN)"
    and "\<bar>x\<bar> \<le> I128_MAX"
proof -
  have "b = 0 \<and> x = 0 \<or> kf_floor b ((k1 - k0) * FUNDING_DEN + (f1 - f0)) den = Ok x"
    using r by (auto simp: kf_body_def Ok_iffs dest: kf_scale_value split: if_splits)
  then show "x = b * ((k1 - k0) * FUNDING_DEN + (f1 - f0)) div (den * FUNDING_DEN)" "\<bar>x\<bar> \<le> I128_MAX"
    using kf_floor_value[OF _ d] by (auto simp: bounds)
qed

text \<open>The effective position keeps the sign of the basis and scales it down by the side index.\<close>

theorem effective_pos_value:
  assumes r: "effective_pos_q i e = Ok q" and i: "i < MAX_ACCOUNTS e"
    and a: "0 \<le> get_a_side s e" "0 \<le> adl_a_basis (accounts e ! i)"
    and s: "side_of_i128 (position_basis_q (accounts e ! i)) = Some s"
  shows "q = 0 \<or> (adl_epoch_snap (accounts e ! i) = get_epoch_side s e
      \<and> \<bar>q\<bar> = \<bar>position_basis_q (accounts e ! i)\<bar> * get_a_side s e div adl_a_basis (accounts e ! i)
      \<and> (q < 0) = (position_basis_q (accounts e ! i) < 0))"
proof -
  let ?b = "position_basis_q (accounts e ! i)" and ?A = "get_a_side s e" and ?B = "adl_a_basis (accounts e ! i)"
  have nn: "0 \<le> \<bar>?b\<bar> * ?A div ?B" using a
    by (cases "?B = 0") (simp_all add: pos_imp_zdiv_nonneg_iff)
  show ?thesis
    using r i s nn
    by (auto simp: effective_pos_q_def acct_def Let_def Ok_iffs mul_div_floor_u128_Ok split: if_splits)
qed

lemma effective_pos_bound:
  assumes r: "effective_pos_q i e = Ok q" and i: "i < MAX_ACCOUNTS e"
    and a: "\<And>s. 0 \<le> get_a_side s e" "\<And>s. get_a_side s e \<le> adl_a_basis (accounts e ! i)"
  shows "\<bar>q\<bar> \<le> \<bar>position_basis_q (accounts e ! i)\<bar>"
proof (cases "side_of_i128 (position_basis_q (accounts e ! i))")
  case None
  then show ?thesis
    using r i by (auto simp: effective_pos_q_def acct_def side_of_i128_def split: if_splits)
next
  case (Some s)
  let ?b = "\<bar>position_basis_q (accounts e ! i)\<bar>"
  have B: "0 \<le> adl_a_basis (accounts e ! i)" using a[of s] by simp
  have "?b * get_a_side s e div adl_a_basis (accounts e ! i) \<le> ?b"
  proof (cases "adl_a_basis (accounts e ! i) = 0")
    case False
    have "?b * get_a_side s e div adl_a_basis (accounts e ! i)
        \<le> ?b * adl_a_basis (accounts e ! i) div adl_a_basis (accounts e ! i)"
      using a(2)[of s] B False by (intro zdiv_mono1 mult_left_mono) auto
    then show ?thesis using False by simp
  qed simp
  then show ?thesis using effective_pos_value[OF r i a(1) B Some] by auto
qed

section \<open>Effect on the aggregates\<close>

text \<open>Everything of an account but its position fields.\<close>

definition money :: "account \<Rightarrow> account" where
  "money a = a\<lparr> position_basis_q := 0, adl_a_basis := 0, adl_k_snap := 0, f_snap := 0,
     adl_epoch_snap := 0 \<rparr>"

lemma money_fields:
  assumes "money a = money b"
  shows "capital a = capital b" "pnl a = pnl b" "reserved_pnl a = reserved_pnl b"
    "fee_credits a = fee_credits b" "last_fee_slot a = last_fee_slot b" "owner a = owner b"
    "posp a = posp b" "matp a = matp b" "negp a = negp b" "reserve_ok p a = reserve_ok p b"
    "acct_ok p a = acct_ok p b"
proof -
  obtain x1 x2 x3 x4 x5 where "a = b\<lparr> position_basis_q := x1, adl_a_basis := x2, adl_k_snap := x3,
      f_snap := x4, adl_epoch_snap := x5 \<rparr>"
    using assms by (cases a; cases b) (simp add: money_def)
  then show "capital a = capital b" "pnl a = pnl b" "reserved_pnl a = reserved_pnl b"
    "fee_credits a = fee_credits b" "last_fee_slot a = last_fee_slot b" "owner a = owner b"
    "posp a = posp b" "matp a = matp b" "negp a = negp b" "reserve_ok p a = reserve_ok p b"
    "acct_ok p a = acct_ok p b"
    by (simp_all add: posp_def matp_def negp_def)
qed

text \<open>The effect of a position update on the table and the two position counts.\<close>

definition pos_effect :: "nat \<Rightarrow> account \<Rightarrow> engine \<Rightarrow> engine" where
  "pos_effect i a' e =
     e\<lparr> accounts := (accounts e)[i := a'],
        stored_pos_count_long := stored_pos_count_long e + longp a' - longp (accounts e ! i),
        stored_pos_count_short := stored_pos_count_short e + shortp a' - shortp (accounts e ! i) \<rparr>"

lemma pos_effect_inv:
  assumes inv: "pnl_inv e" and i: "i < MAX_ACCOUNTS e" and m: "money a' = money (accounts e ! i)"
  shows "pnl_inv (pos_effect i a' e)" "frame {i} e (pos_effect i a' e)"
proof -
  note M = money_fields[OF m]
  have "acct_ok (params e) a'" using accts_ok_nth[of e i] inv i by (simp add: M pnl_inv_def)
  then have "accts_ok (pos_effect i a' e)"
    using inv by - (rule accts_ok_update[of e _ i a'], simp_all add: pnl_inv_def pos_effect_def)
  moreover have "agg (pos_effect i a' e)"
    using inv i M by (simp add: pnl_inv_def agg_def pos_effect_def tot_update)
  ultimately show "pnl_inv (pos_effect i a' e)" by (simp add: pnl_inv_def)
  show "frame {i} e (pos_effect i a' e)" by (auto simp: frame_def slab_fields_def mkt_fields_def pos_effect_def)
qed

definition pos_set :: "nat \<Rightarrow> int \<Rightarrow> engine \<Rightarrow> engine \<Rightarrow> bool" where
  "pos_set i b e e' =
     (i < MAX_ACCOUNTS e \<and> e' = pos_effect i ((accounts e ! i)\<lparr> position_basis_q := b \<rparr>) e)"

theorem set_position_spec: "okP (set_position_basis_q i b e) (\<lambda>_ e'. pos_set i b e e')"
proof -
  have D: "okP (dec_pos_count s e) (\<lambda>_ e'. P e')"
    if "P (e\<lparr> stored_pos_count_long := stored_pos_count_long e - (if s = Some Long then 1 else 0),
            stored_pos_count_short := stored_pos_count_short e - (if s = Some Short then 1 else 0) \<rparr>)"
    for s P e using that
    by (cases s) (auto simp: dec_pos_count_def okP_sval okR_ok_or split: side.splits)
  have I: "okP (inc_pos_count s e) (\<lambda>_ e'. P e')"
    if "P (e\<lparr> stored_pos_count_long := stored_pos_count_long e + (if s = Some Long then 1 else 0),
            stored_pos_count_short := stored_pos_count_short e + (if s = Some Short then 1 else 0) \<rparr>)"
    for s P e using that
    by (cases s) (auto simp: inc_pos_count_def okP_sval okR_ok_or split: side.splits)
  show ?thesis
    unfolding set_position_basis_q_def okP_sacct okP_sthen
    by (intro impI D I)
      (simp add: pos_set_def pos_effect_def upd_def longp_def shortp_def side_of_i128_def)
qed


text \<open>Dust accounting and side updates touch neither the accounts nor the aggregates.\<close>

definition quiet :: "engine \<Rightarrow> engine \<Rightarrow> bool" where
  "quiet e e' =
     (frame {} e e' \<and> accounts e' = accounts e \<and> c_tot e' = c_tot e
      \<and> pnl_pos_tot e' = pnl_pos_tot e \<and> pnl_matured_pos_tot e' = pnl_matured_pos_tot e
      \<and> neg_pnl_account_count e' = neg_pnl_account_count e
      \<and> stored_pos_count_long e' = stored_pos_count_long e
      \<and> stored_pos_count_short e' = stored_pos_count_short e)"

lemma quiet_refl [simp]: "quiet e e"
  by (simp add: quiet_def)

lemma quiet_trans: "quiet e e1 \<Longrightarrow> quiet e1 e2 \<Longrightarrow> quiet e e2"
  by (auto simp: quiet_def intro: frame_trans)

lemma quiet_inv:
  assumes "quiet e e'" "pnl_inv e"
  shows "pnl_inv e'" "frame S e e'"
  using assms frame_D(3,4)[of "{}" e e'] frame_mono[of "{}" e e' S]
  by (simp_all add: quiet_def pnl_inv_def agg_def accts_ok_def)

lemma quiet_upds [simp]:
  "quiet e (e\<lparr> phantom_dust_bound_long_q := x \<rparr>)" "quiet e (e\<lparr> phantom_dust_bound_short_q := x \<rparr>)"
  "quiet e (set_stale_count s y e)"
  by (cases s; simp add: quiet_def frame_def slab_fields_def mkt_fields_def)+

lemma inc_dust_quiet: "okP (inc_phantom_dust_bound s e) (\<lambda>_ e'. quiet e e')"
  "okP (inc_phantom_dust_bound_by s x e) (\<lambda>_ e'. quiet e e')"
  by (cases s; simp add: okP_sval okR_ok_or)+

text \<open>Writing the snapshots of a slot.\<close>

lemma snap_upd_inv:
  assumes inv: "pnl_inv e" and i: "i < MAX_ACCOUNTS e"
    and f: "money (f (accounts e ! i)) = money (accounts e ! i)"
      "position_basis_q (f (accounts e ! i)) = position_basis_q (accounts e ! i)"
  shows "pnl_inv (upd i f e)"
proof -
  have "upd i f e = pos_effect i (f (accounts e ! i)) e"
    using f(2) by (simp add: upd_def pos_effect_def longp_def shortp_def)
  then show ?thesis using pos_effect_inv[OF inv i f(1)] by simp
qed

lemma snap_money [simp]:
  "money (clear_snaps a) = money a" "money (take_snaps s e a) = money a"
  "money (a\<lparr> adl_k_snap := x, f_snap := y, adl_epoch_snap := z \<rparr>) = money a"
  "money (a\<lparr> position_basis_q := x \<rparr>) = money a"
  "position_basis_q (clear_snaps a) = position_basis_q a"
  "position_basis_q (take_snaps s e a) = position_basis_q a"
  by (cases s; simp add: money_def clear_snaps_def take_snaps_def)+

text \<open>
  \<open>pos_step i e e'\<close>: a position operation on slot \<open>i\<close>: invariant kept, capital, PnL and reserve of
  every account unchanged, no money moved.
\<close>

definition pos_step :: "nat \<Rightarrow> engine \<Rightarrow> engine \<Rightarrow> bool" where
  "pos_step i e e' =
     (pnl_inv e' \<and> frame {i} e e' \<and> c_tot e' = c_tot e \<and> pnl_pos_tot e' = pnl_pos_tot e
      \<and> pnl_matured_pos_tot e' = pnl_matured_pos_tot e
      \<and> money (accounts e' ! i) = money (accounts e ! i))"

lemma pos_step_trans: "pos_step i e e1 \<Longrightarrow> pos_step i e1 e2 \<Longrightarrow> pos_step i e e2"
  by (auto simp: pos_step_def intro: frame_trans)

lemma quiet_pos_step: "quiet e e' \<Longrightarrow> pnl_inv e \<Longrightarrow> pos_step i e e'"
  using quiet_inv by (simp add: pos_step_def) (simp add: quiet_def)

lemma pos_set_step:
  assumes "pos_set i b e e'" "pnl_inv e"
  shows "pos_step i e e'" "position_basis_q (accounts e' ! i) = b" "i < MAX_ACCOUNTS e"
proof -
  let ?a = "(accounts e ! i)\<lparr> position_basis_q := b \<rparr>"
  have e': "e' = pos_effect i ?a e" and i: "i < MAX_ACCOUNTS e" using assms by (simp_all add: pos_set_def)
  show "pos_step i e e'"
    using pos_effect_inv[OF assms(2) i, of ?a] i
    unfolding pos_step_def e' by (simp add: pos_effect_def)
  show "position_basis_q (accounts e' ! i) = b" "i < MAX_ACCOUNTS e"
    using i by (simp_all add: e' pos_effect_def)
qed

lemma snap_pos_step:
  assumes "pnl_inv e" "i < MAX_ACCOUNTS e" "money (f (accounts e ! i)) = money (accounts e ! i)"
    "position_basis_q (f (accounts e ! i)) = position_basis_q (accounts e ! i)"
  shows "pos_step i e (upd i f e)"
  using snap_upd_inv[of e i f] assms by (simp add: pos_step_def)

theorem attach_spec:
  assumes inv: "pnl_inv e"
  shows "okP (attach_effective_position i q e)
     (\<lambda>_ e'. pos_step i e e' \<and> i < MAX_ACCOUNTS e \<and> position_basis_q (accounts e' ! i) = q
        \<and> \<bar>q\<bar> \<le> MAX_POSITION_ABS_Q)"
proof -
  have fin: "okP (sthen (set_position_basis_q i q e1) (\<lambda>_ e2. (Ok (), upd i (f e2) e2)))
      (\<lambda>_ e'. pos_step i e e' \<and> i < MAX_ACCOUNTS e \<and> position_basis_q (accounts e' ! i) = q)"
    if q: "quiet e e1" and f: "\<And>e a. money (f e a) = money a" "\<And>e a. position_basis_q (f e a) = position_basis_q a"
    for e1 f
    unfolding okP_sthen okP_basic
  proof (rule okP_mono[OF set_position_spec])
    fix u e2 assume S: "pos_set i q e1 e2"
    have I1: "pnl_inv e1" using quiet_inv[OF q inv] by simp
    note P = pos_set_step[OF S I1]
    have L: "MAX_ACCOUNTS e1 = MAX_ACCOUNTS e" "MAX_ACCOUNTS e2 = MAX_ACCOUNTS e"
      using q P(1) frame_D(5)[of "{i}" e1 e2] by (auto simp: quiet_def pos_step_def)
    have "pos_step i e2 (upd i (f e2) e2)"
      by (rule snap_pos_step) (use P(1,3) L f in \<open>simp_all add: pos_step_def\<close>)
    then have "pos_step i e (upd i (f e2) e2)"
      using pos_step_trans quiet_pos_step[OF q inv] P(1) by blast
    then show "pos_step i e (upd i (f e2) e2) \<and> i < MAX_ACCOUNTS e
        \<and> position_basis_q (accounts (upd i (f e2) e2) ! i) = q"
      using P L f by simp
  qed
  have two: "okP (if q = 0 then sthen (set_position_basis_q i 0 e1) (\<lambda>_ e. (Ok (), upd i clear_snaps e))
     else if \<bar>q\<bar> > MAX_POSITION_ABS_Q then (Err Overflow, e1)
     else sval (ok_or CorruptState (side_of_i128 q)) e1 (\<lambda>s.
       sthen (set_position_basis_q i q e1) (\<lambda>_ e. (Ok (), upd i (take_snaps s e) e))))
     (\<lambda>_ e'. pos_step i e e' \<and> i < MAX_ACCOUNTS e \<and> position_basis_q (accounts e' ! i) = q
        \<and> \<bar>q\<bar> \<le> MAX_POSITION_ABS_Q)" if q: "quiet e e1" for e1
  proof (cases "\<bar>q\<bar> \<le> MAX_POSITION_ABS_Q")
    case True
    then show ?thesis
      using fin[OF q, of "\<lambda>_. clear_snaps"] fin[OF q, of "take_snaps s" for s]
      by (auto simp: okP_sval okR_ok_or)
  next
    case False
    then show ?thesis by (auto simp: bounds)
  qed
  have dust: "okP m (\<lambda>_ e1. quiet e e1)"
    if "m = (case fit_u256 x of None \<Rightarrow> (Ok (), e)
          | Some p \<Rightarrow> if p mod y \<noteq> 0 then inc_phantom_dust_bound s e else (Ok (), e))" for m x y s
    using that inc_dust_quiet(1) by (simp split: option.splits)
  show ?thesis
    unfolding attach_effective_position_def okP_sacct okP_sthen Let_def
    by (intro impI okP_mono[OF _ two])
      (auto simp: okP_if dust split: option.splits)
qed


text \<open>
  \<open>cash_step i e e'\<close>: PnL, reserve and position of slot \<open>i\<close> may have moved; the invariant holds and
  no capital, fee credit, fee checkpoint or owner has changed anywhere.
\<close>

definition cash :: "account \<Rightarrow> int \<times> int \<times> int \<times> 8 word list" where
  "cash a = (capital a, fee_credits a, last_fee_slot a, owner a)"

definition cash_step :: "nat \<Rightarrow> engine \<Rightarrow> engine \<Rightarrow> bool" where
  "cash_step i e e' =
     (pnl_inv e' \<and> frame {i} e e' \<and> c_tot e' = c_tot e
      \<and> cash (accounts e' ! i) = cash (accounts e ! i))"

lemma cash_step_refl: "pnl_inv e \<Longrightarrow> cash_step i e e"
  by (simp add: cash_step_def)

lemma cash_step_trans: "cash_step i e e1 \<Longrightarrow> cash_step i e1 e2 \<Longrightarrow> cash_step i e e2"
  by (auto simp: cash_step_def intro: frame_trans)

lemma pos_cash_step: "pos_step i e e' \<Longrightarrow> cash_step i e e'"
  using money_fields[of "accounts e' ! i" "accounts e ! i"]
  by (simp add: pos_step_def cash_step_def cash_def)

lemma pnl_cash_step:
  assumes "pnl_set i new e e'" "pnl_inv e" "in_i128 new" "new \<noteq> I128_MIN"
  shows "cash_step i e e'"
  using pnl_set_inv[OF assms] pnl_set_frame[OF assms(1)]
    core_fields[of "accounts e' ! i" "accounts e ! i"]
  by (simp add: cash_step_def cash_def)

lemma checked_pnl_add_okR:
  "okR (checked_pnl_add a b) P = (in_i128 (a + b) \<and> a + b \<noteq> I128_MIN \<longrightarrow> P (a + b))"
  by (auto simp: checked_pnl_add_def okR_rthen okR_ok_or)

text \<open>\<open>set_pnl_with_reserve\<close> with a context: the step and the context it returns.\<close>

lemma set_pnl_ctx_step:
  assumes inv: "pnl_inv e" and md: "mode_ok (params e) mode" and r: "in_i128 new" "new \<noteq> I128_MIN"
  shows "okP (set_pnl_with_reserve i new mode (Some c) e)
     (\<lambda>oc e'. \<exists>c'. oc = Some c' \<and> ctx_rel c c' \<and> cash_step i e e' \<and> pnl_set i new e e')"
  using okP_conj[OF set_pnl_ctx set_pnl_spec[OF inv md]]
proof (rule okP_mono)
  fix oc e'
  assume "(\<exists>c'. oc = Some c' \<and> ctx_rel c c') \<and> pnl_set i new e e'"
  then show "\<exists>c'. oc = Some c' \<and> ctx_rel c c' \<and> cash_step i e e' \<and> pnl_set i new e e'"
    using pnl_cash_step[OF _ inv r] by blast
qed

abbreviation ctx_mode :: "instruction_context \<Rightarrow> reserve_mode" where
  "ctx_mode c \<equiv> UseAdmissionPair (admit_h_min_shared c) (admit_h_max_shared c)"

theorem settle_live_spec:
  assumes inv: "pnl_inv e" and md: "mode_ok (params e) (ctx_mode c)"
  shows "okP (settle_side_effects_live i c e) (\<lambda>c' e'. ctx_rel c c' \<and> cash_step i e e')"
proof (cases "i < MAX_ACCOUNTS e")
  case False
  then show ?thesis by (simp add: settle_side_effects_live_def okP_sacct)
next
  case i: True
  let ?P = "\<lambda>c' e'. ctx_rel c c' \<and> cash_step i e e'"
  have clr: "okP (set_position_basis_q i 0 e2) (\<lambda>_ e3. cash_step i e (upd i clear_snaps (g e3)))"
    if C: "cash_step i e e2" and g: "\<And>e. quiet e (g e)" for e2 g
  proof (rule okP_mono[OF set_position_spec])
    fix u e3 assume S: "pos_set i 0 e2 e3"
    have I2: "pnl_inv e2" using C by (simp add: cash_step_def)
    note P = pos_set_step[OF S I2]
    have I3: "pnl_inv (g e3)" using quiet_inv[OF g] P(1) by (simp add: pos_step_def)
    have L: "MAX_ACCOUNTS e3 = MAX_ACCOUNTS e2" "MAX_ACCOUNTS (g e3) = MAX_ACCOUNTS e3"
      using P(1) g[of e3] frame_D(5)[of "{i}" e2 e3] by (simp_all add: quiet_def pos_step_def)
    have "pos_step i (g e3) (upd i clear_snaps (g e3))"
      by (rule snap_pos_step[OF I3]) (use P L in simp_all)
    moreover have "pos_step i e3 (g e3)"
      by (rule quiet_pos_step[OF g]) (use P(1) in \<open>simp add: pos_step_def\<close>)
    ultimately show "cash_step i e (upd i clear_snaps (g e3))"
      using C P(1) pos_cash_step cash_step_trans by meson
  qed
  have same: "okP (sval (expect oc) e1 (\<lambda>c'.
          if q = 0 then sthen (inc_phantom_dust_bound s e1) (\<lambda>_ e.
             sthen (set_position_basis_q i 0 e) (\<lambda>_ e. (Ok c', upd i clear_snaps e)))
          else (Ok c', upd i (\<lambda>a. a\<lparr> adl_k_snap := k, f_snap := f, adl_epoch_snap := ep \<rparr>) e1))) ?P"
    if O: "oc = Some c'" "ctx_rel c c'" and C: "cash_step i e e1" for oc c' e1 q s k f ep
  proof -
    have I1: "pnl_inv e1" and L1: "MAX_ACCOUNTS e1 = MAX_ACCOUNTS e"
      using C frame_D(5)[of "{i}" e e1] by (simp_all add: cash_step_def)
    have "okP (inc_phantom_dust_bound s e1)
        (\<lambda>_ e2. okP (set_position_basis_q i 0 e2) (\<lambda>_ e3. cash_step i e (upd i clear_snaps e3)))"
    proof (rule okP_mono[OF inc_dust_quiet(1)])
      fix u e2 assume "quiet e1 e2"
      then have "cash_step i e e2" using C I1 quiet_pos_step pos_cash_step cash_step_trans by meson
      then show "okP (set_position_basis_q i 0 e2) (\<lambda>_ e3. cash_step i e (upd i clear_snaps e3))"
        using clr[of e2 "\<lambda>e. e"] by simp
    qed
    moreover have "cash_step i e (upd i (\<lambda>a. a\<lparr> adl_k_snap := k, f_snap := f, adl_epoch_snap := ep \<rparr>) e1)"
      by (rule cash_step_trans[OF C pos_cash_step[OF snap_pos_step[OF I1]]]) (use i L1 in simp_all)
    ultimately show ?thesis using O by (simp add: okP_sval okP_sthen)
  qed
  have next': "okP (sval (expect oc) e1 (\<lambda>c'.
           sthen (set_position_basis_q i 0 e1) (\<lambda>_ e. (Ok c', upd i clear_snaps (set_stale_count s n e))))) ?P"
    if O: "oc = Some c'" "ctx_rel c c'" and C: "cash_step i e e1" for oc c' e1 s n
    using clr[OF C, of "set_stale_count s n"] O by (simp add: okP_sval okP_sthen)
  have call: "okP (sthen (set_pnl_with_reserve i new (ctx_mode c) (Some c) e) k) ?P"
    if "in_i128 new" "new \<noteq> I128_MIN"
      "\<And>oc c' e1. oc = Some c' \<Longrightarrow> ctx_rel c c' \<Longrightarrow> cash_step i e e1 \<Longrightarrow> okP (k oc e1) ?P" for new k
    unfolding okP_sthen
    by (rule okP_mono[OF set_pnl_ctx_step[OF inv md that(1,2)]]) (use that(3) in blast)
  show ?thesis
    unfolding settle_side_effects_live_def Let_def okP_sacct
    using i inv
    by (auto simp: okP_if okP_sval checked_pnl_add_okR cash_step_refl intro!: okR_I call same next')
qed

end
