(* ===== verification/Market.thy ===== *)
theory Market
  imports Position
begin

text \<open>
  The market clock and the money that is not an account's: \<open>check_live_accrual_envelope\<close>,
  \<open>accrue_market_to\<close>, \<open>validate_admission_pair\<close>, the insurance buffer, \<open>charge_fee_to_insurance\<close>
  and \<open>sync_account_fee_to_slot\<close> of \<open>src/src/percolator.rs\<close>.
\<close>

section \<open>Accrual\<close>

definition check_live_accrual_envelope :: "int \<Rightarrow> engine \<Rightarrow> unit outcome" where
  "check_live_accrual_envelope now_slot e =
     (let envelope_top = sat_u64 (last_market_slot e + max_accrual_dt_slots (params e)) in
      if now_slot > envelope_top then Err Overflow else Ok ())"

definition mark_k :: "bool \<Rightarrow> int \<Rightarrow> int \<Rightarrow> int \<Rightarrow> int \<Rightarrow> int outcome" where
  "mark_k live dir a_side delta_p k =
     (if delta_p \<noteq> 0 \<and> live then
        rthen (ok_or Overflow (i256_mul a_side delta_p)) (\<lambda>dk.
        rthen (ok_or Overflow (fit_i256 (k + dir * dk))) (\<lambda>k'.
        ok_or Overflow (fit_i128 k')))
      else Ok k)"

definition fund_f :: "int \<Rightarrow> int \<Rightarrow> int \<Rightarrow> int \<Rightarrow> int outcome" where
  "fund_f dir a_side fund_num f =
     rthen (ok_or Overflow (i256_mul a_side fund_num)) (\<lambda>df.
     rthen (ok_or Overflow (fit_i256 (f + dir * df))) (\<lambda>f'.
     ok_or Overflow (fit_i128 f')))"

definition fund_pair :: "int \<Rightarrow> int \<Rightarrow> engine \<Rightarrow> (int \<times> int) outcome" where
  "fund_pair funding_rate_e9 total_dt e =
     rthen (ok_or Overflow (i256_mul (fund_px_last e) funding_rate_e9)) (\<lambda>pr.
     rthen (ok_or Overflow (i256_mul pr total_dt)) (\<lambda>fund_num_total.
     rthen (fund_f (-1) (adl_mult_long e) fund_num_total (f_long_num e)) (\<lambda>fl.
     rthen (fund_f 1 (adl_mult_short e) fund_num_total (f_short_num e)) (\<lambda>fs.
     Ok (fl, fs)))))"

definition accrue_market_to :: "int \<Rightarrow> int \<Rightarrow> int \<Rightarrow> engine \<Rightarrow> unit step" where
  "accrue_market_to now_slot oracle_price funding_rate_e9 e =
     (if market_mode e \<noteq> Live then (Err Unauthorized, e)
      else if oracle_price = 0 \<or> oracle_price > MAX_ORACLE_PRICE then (Err Overflow, e)
      else if \<bar>funding_rate_e9\<bar> > max_abs_funding_e9_per_slot (params e) then (Err Overflow, e)
      else if now_slot < current_slot e then (Err Overflow, e)
      else if now_slot < last_market_slot e then (Err Overflow, e)
      else
        let long_live = (oi_eff_long_q e \<noteq> 0); short_live = (oi_eff_short_q e \<noteq> 0);
            total_dt = sat_u64 (now_slot - last_market_slot e) in
        if total_dt = 0 \<and> last_oracle_price e = oracle_price
        then (Ok (), e\<lparr> current_slot := now_slot \<rparr>)
        else
          let funding_active = (funding_rate_e9 \<noteq> 0 \<and> long_live \<and> short_live \<and> fund_px_last e > 0) in
          if funding_active \<and> total_dt > max_accrual_dt_slots (params e) then (Err Overflow, e)
          else
            sval (ok_or Overflow (fit_i128 (oracle_price - last_oracle_price e))) e (\<lambda>delta_p.
            sval (mark_k long_live 1 (adl_mult_long e) delta_p (adl_coeff_long e)) e (\<lambda>k_long.
            sval (mark_k short_live (-1) (adl_mult_short e) delta_p (adl_coeff_short e)) e (\<lambda>k_short.
            sval (if funding_rate_e9 \<noteq> 0 \<and> total_dt > 0 \<and> long_live \<and> short_live \<and> fund_px_last e > 0
                  then fund_pair funding_rate_e9 total_dt e
                  else Ok (f_long_num e, f_short_num e)) e (\<lambda>(fl, fs).
            (Ok (), e\<lparr> adl_coeff_long := k_long, adl_coeff_short := k_short,
                       f_long_num := fl, f_short_num := fs,
                       current_slot := now_slot, last_market_slot := now_slot,
                       last_oracle_price := oracle_price, fund_px_last := oracle_price \<rparr>))))))"

definition validate_admission_pair :: "int \<Rightarrow> int \<Rightarrow> risk_params \<Rightarrow> unit outcome" where
  "validate_admission_pair admit_h_min admit_h_max p =
     (if admit_h_max = 0 then Err Overflow
      else if admit_h_max < h_min p then Err Overflow
      else if admit_h_min > admit_h_max then Err Overflow
      else if admit_h_max > h_max p then Err Overflow
      else if admit_h_min > 0 \<and> admit_h_min < h_min p then Err Overflow
      else Ok ())"

lemma admission_pair_ok:
  assumes "validate_admission_pair lo hi p = Ok u" "0 \<le> lo" "0 \<le> hi"
  shows "mode_ok p (UseAdmissionPair lo hi)" "0 < hi"
  using assms by (auto simp: validate_admission_pair_def mode_ok_def horizon_ok_def split: if_splits)

section \<open>Insurance\<close>

abbreviation ins_bal :: "engine \<Rightarrow> int" where
  "ins_bal e \<equiv> balance (insurance_fund e)"

definition set_insurance :: "int \<Rightarrow> engine \<Rightarrow> engine" where
  "set_insurance v e = e\<lparr> insurance_fund := \<lparr> balance = v \<rparr> \<rparr>"

definition use_insurance_buffer :: "int \<Rightarrow> engine \<Rightarrow> int \<times> engine" where
  "use_insurance_buffer loss e =
     (if loss = 0 then (0, e)
      else
        let bal = ins_bal e;
            available = sat_u128 (bal - insurance_floor (params e));
            pay = min loss available;
            e = (if pay > 0 then set_insurance (bal - pay) e else e)
        in (loss - pay, e))"

definition record_uninsured_protocol_loss :: "int \<Rightarrow> engine \<Rightarrow> engine" where
  "record_uninsured_protocol_loss loss e = e"

definition absorb_protocol_loss :: "int \<Rightarrow> engine \<Rightarrow> engine" where
  "absorb_protocol_loss loss e =
     (if loss = 0 then e
      else let (rem, e) = use_insurance_buffer loss e in record_uninsured_protocol_loss rem e)"

section \<open>Fees\<close>

text \<open>
  \<open>charge_fee_to_insurance\<close> in its two stages: the part the capital covers moves to the insurance
  fund, and the shortfall becomes fee debt as far as \<open>fee_credits\<close> has room.  It returns the
  capital paid to insurance, the total equity impact and the dropped excess.
\<close>

definition fee_from_capital :: "nat \<Rightarrow> int \<Rightarrow> int \<Rightarrow> engine \<Rightarrow> unit step" where
  "fee_from_capital idx cap fee_paid e =
     (if fee_paid > 0 then
        sthen (set_capital idx (cap - fee_paid) e) (\<lambda>_ e.
        sval (ok_or Overflow (fit_u128 (ins_bal e + fee_paid))) e (\<lambda>b.
          (Ok (), set_insurance b e)))
      else (Ok (), e))"

definition fee_to_debt :: "nat \<Rightarrow> int \<Rightarrow> int \<Rightarrow> engine \<Rightarrow> (int \<times> int \<times> int) step" where
  "fee_to_debt idx fee fee_paid e =
     (let fee_shortfall = fee - fee_paid in
      if fee_shortfall > 0 then
        let current_fc = fee_credits (accounts e ! idx);
            headroom = (case fit_i128 (current_fc + I128_MAX) of
                          Some h \<Rightarrow> (if h > 0 then h else 0) | None \<Rightarrow> 0);
            collectible = min fee_shortfall headroom in
        sthen
          (if collectible > 0 then
             sval (expect (fit_i128 (current_fc - collectible))) e (\<lambda>new_fc.
               (Ok (), upd idx (\<lambda>a. a\<lparr> fee_credits := new_fc \<rparr>) e))
           else (Ok (), e)) (\<lambda>_ e.
        sval (add_u128 fee_paid collectible) e (\<lambda>equity_impact.
          (Ok (fee_paid, equity_impact, fee - equity_impact), e)))
      else (Ok (fee_paid, fee_paid, 0), e))"

definition charge_fee_to_insurance :: "nat \<Rightarrow> int \<Rightarrow> engine \<Rightarrow> (int \<times> int \<times> int) step" where
  "charge_fee_to_insurance idx fee e =
     (if fee > MAX_PROTOCOL_FEE_ABS then (Err Overflow, e)
      else
        sacct e idx (\<lambda>a.
        let cap = capital a; fee_paid = min fee cap in
        sthen (fee_from_capital idx cap fee_paid e) (\<lambda>_ e. fee_to_debt idx fee fee_paid e)))"

definition sync_account_fee_to_slot :: "nat \<Rightarrow> int \<Rightarrow> int \<Rightarrow> engine \<Rightarrow> unit step" where
  "sync_account_fee_to_slot idx fee_slot_anchor fee_rate_per_slot e =
     (if idx \<ge> MAX_ACCOUNTS e \<or> \<not> is_used e idx then (Err AccountNotFound, e)
      else
        let last = last_fee_slot (accounts e ! idx) in
        if fee_slot_anchor < last then (Err Overflow, e)
        else if (case market_mode e of
                   Live \<Rightarrow> fee_slot_anchor > current_slot e
                 | Resolved \<Rightarrow> fee_slot_anchor > resolved_slot e) then (Err Overflow, e)
        else
          let dt = fee_slot_anchor - last in
          if dt = 0 then (Ok (), e)
          else if fee_rate_per_slot = 0
          then (Ok (), upd idx (\<lambda>a. a\<lparr> last_fee_slot := fee_slot_anchor \<rparr>) e)
          else
            sval (ok_or Overflow (fit_u256 (fee_rate_per_slot * dt))) e (\<lambda>raw.
            let fee_abs_u256 = (if raw > MAX_PROTOCOL_FEE_ABS then MAX_PROTOCOL_FEE_ABS else raw) in
            sval (ok_or Overflow (fit_u128 fee_abs_u256)) e (\<lambda>fee_abs.
            sthen (if fee_abs > 0
                   then sthen (charge_fee_to_insurance idx fee_abs e) (\<lambda>_ e. (Ok (), e))
                   else (Ok (), e)) (\<lambda>_ e.
              (Ok (), upd idx (\<lambda>a. a\<lparr> last_fee_slot := fee_slot_anchor \<rparr>) e)))))"

section \<open>What accrual computes\<close>

text \<open>An error leaves the state unchanged: all computation precedes the single commit.\<close>

lemma sval_atomic: "sval r e k = (Err x, e') \<Longrightarrow> (\<And>v. k v = (Err x, e') \<Longrightarrow> e' = e) \<Longrightarrow> e' = e"
  by (cases r) auto

theorem accrue_atomic:
  assumes "accrue_market_to now px rate e = (Err x, e')"
  shows "e' = e"
  using assms unfolding accrue_market_to_def Let_def
  by (simp split: if_splits) (elim sval_atomic, simp split: prod.splits)+

text \<open>Accrual never panics.\<close>

lemma ok_or_not_panic [simp]: "ok_or x v \<noteq> Panic"
  by (cases v) auto

lemma rthen_not_panic: "r \<noteq> Panic \<Longrightarrow> (\<And>v. k v \<noteq> Panic) \<Longrightarrow> rthen r k \<noteq> Panic"
  by (cases r) auto

lemma sval_not_panic: "r \<noteq> Panic \<Longrightarrow> (\<And>v. fst (k v) \<noteq> Panic) \<Longrightarrow> fst (sval r s k) \<noteq> Panic"
  by (cases r) auto

lemma accrual_not_panic [simp]:
  "mark_k live dir a d k \<noteq> Panic" "fund_f dir a n f \<noteq> Panic" "fund_pair r t e \<noteq> Panic"
  by (simp_all add: mark_k_def fund_f_def fund_pair_def rthen_not_panic)

theorem accrue_no_panic: "fst (accrue_market_to now px rate e) \<noteq> Panic"
  unfolding accrue_market_to_def Let_def
  by (simp del: if_split_asm) (intro conjI impI sval_not_panic; simp split: prod.splits)+

text \<open>
  A successful accrual is exact: although the wide product of the build is wrong on some large
  negative products, no such product survives the narrowing that follows it.
\<close>

lemma i256_mul_value: "i256_mul a b = Some x \<Longrightarrow> x = a * b \<or> x = I256_MIN"
  by (auto simp: i256_mul_def fit_u256_def abs_if mult_less_0_iff split: if_splits)

lemma i256_min_not_i128:
  assumes "in_i128 k"
  shows "\<not> in_i128 (k + I256_MIN)" "\<not> in_i128 (k - I256_MIN)"
  using assms by (simp_all add: in_i128_def bounds)

definition fund_amount :: "int \<Rightarrow> int \<Rightarrow> engine \<Rightarrow> int" where
  "fund_amount now rate e =
     (if oi_eff_long_q e \<noteq> 0 \<and> oi_eff_short_q e \<noteq> 0
      then fund_px_last e * rate * (now - last_market_slot e) else 0)"

definition accrued :: "int \<Rightarrow> int \<Rightarrow> int \<Rightarrow> engine \<Rightarrow> engine" where
  "accrued now px rate e =
     (let dp = px - last_oracle_price e; fund = fund_amount now rate e in
      e\<lparr> adl_coeff_long := adl_coeff_long e + (if oi_eff_long_q e \<noteq> 0 then adl_mult_long e * dp else 0),
         adl_coeff_short := adl_coeff_short e - (if oi_eff_short_q e \<noteq> 0 then adl_mult_short e * dp else 0),
         f_long_num := f_long_num e - adl_mult_long e * fund,
         f_short_num := f_short_num e + adl_mult_short e * fund,
         current_slot := now, last_market_slot := now, last_oracle_price := px,
         fund_px_last := (if now = last_market_slot e \<and> last_oracle_price e = px
                          then fund_px_last e else px) \<rparr>)"

definition market_typed :: "engine \<Rightarrow> bool" where
  "market_typed e =
     (in_i128 (adl_coeff_long e) \<and> in_i128 (adl_coeff_short e)
      \<and> in_i128 (f_long_num e) \<and> in_i128 (f_short_num e)
      \<and> 0 \<le> last_market_slot e \<and> 0 \<le> fund_px_last e
      \<and> 0 \<le> adl_mult_long e \<and> 0 \<le> adl_mult_short e)"

lemma mark_k_value:
  assumes "in_i128 k" "dir = 1 \<or> dir = -1"
  shows "okR (mark_k live dir a d k) (\<lambda>k'. k' = k + (if live then dir * (a * d) else 0) \<and> in_i128 k')"
  using assms i256_mul_value[of a d] i256_min_not_i128[of k]
  by (auto simp: mark_k_def okR_rthen okR_ok_or)

lemma fund_f_value:
  assumes "in_i128 f" "dir = 1 \<or> dir = -1"
  shows "okR (fund_f dir a n f) (\<lambda>f'. f' = f + dir * (a * n) \<and> in_i128 f')"
  using assms i256_mul_value[of a n] i256_min_not_i128[of f]
  by (auto simp: fund_f_def okR_rthen okR_ok_or)

lemma i256_mul_min: "i256_mul a I256_MIN = Some x \<Longrightarrow> 0 \<le> a \<Longrightarrow> x = I256_MIN \<or> a = 0 \<and> x = 0"
  by (auto simp: i256_mul_def bounds split: if_splits)

lemma fund_f_min:
  assumes "in_i128 f" "dir = 1 \<or> dir = -1" "0 \<le> a"
  shows "okR (fund_f dir a I256_MIN f) (\<lambda>f'. a = 0 \<and> f' = f \<and> in_i128 f')"
  using assms i256_mul_min[of a] i256_min_not_i128[of f]
  by (auto simp: fund_f_def okR_rthen okR_ok_or)

lemma fund_pair_value:
  assumes t: "market_typed e" and dt: "0 < dt"
  shows "okR (fund_pair rate dt e)
     (\<lambda>(fl, fs). fl = f_long_num e - adl_mult_long e * (fund_px_last e * rate * dt)
        \<and> fs = f_short_num e + adl_mult_short e * (fund_px_last e * rate * dt)
        \<and> in_i128 fl \<and> in_i128 fs)"
proof -
  let ?n = "fund_px_last e * rate * dt"
  let ?P = "\<lambda>fl fs. fl = f_long_num e - adl_mult_long e * ?n \<and> fs = f_short_num e + adl_mult_short e * ?n
      \<and> in_i128 fl \<and> in_i128 fs"
  have f: "in_i128 (f_long_num e)" "in_i128 (f_short_num e)" "0 \<le> adl_mult_long e" "0 \<le> adl_mult_short e"
    using t by (simp_all add: market_typed_def)
  have main: "okR (fund_f (-1) (adl_mult_long e) n (f_long_num e)) (\<lambda>fl.
      okR (fund_f 1 (adl_mult_short e) n (f_short_num e)) (\<lambda>fs. ?P fl fs))"
    if n: "n = ?n \<or> n = I256_MIN" for n
  proof (cases "n = ?n")
    case True
    show ?thesis
      unfolding True
      by (rule okR_mono[OF fund_f_value[OF f(1)]], simp, rule okR_mono[OF fund_f_value[OF f(2)]]) simp_all
  next
    case False
    then have n: "n = I256_MIN" using n by simp
    show ?thesis
      unfolding n
      by (rule okR_mono[OF fund_f_min[OF f(1) _ f(3)]], simp, rule okR_mono[OF fund_f_min[OF f(2) _ f(4)]])
        simp_all
  qed
  have val: "n = ?n \<or> n = I256_MIN"
    if "i256_mul (fund_px_last e) rate = Some pr" "i256_mul pr dt = Some n" for pr n
  proof (cases "pr = fund_px_last e * rate")
    case True
    then show ?thesis using i256_mul_value[OF that(2)] by simp
  next
    case False
    then have "pr = I256_MIN" using i256_mul_value[OF that(1)] by simp
    then show ?thesis using that(2) dt by (auto simp: i256_mul_def bounds split: if_splits)
  qed
  show ?thesis
    unfolding fund_pair_def okR_rthen okR_ok_or
    using main val by simp
qed

lemma accrued_idle:
  assumes "now = last_market_slot e" "last_oracle_price e = px"
  shows "accrued now px rate e = e\<lparr> current_slot := now \<rparr>"
  using assms by (simp add: accrued_def fund_amount_def Let_def)

theorem accrue_spec:
  assumes t: "market_typed e" and now: "in_u64 now" and px0: "0 \<le> px"
  shows "okP (accrue_market_to now px rate e)
     (\<lambda>_ e'. e' = accrued now px rate e \<and> market_typed e' \<and> market_mode e = Live \<and> 0 < px \<and> px \<le> MAX_ORACLE_PRICE
        \<and> \<bar>rate\<bar> \<le> max_abs_funding_e9_per_slot (params e)
        \<and> current_slot e \<le> now \<and> last_market_slot e \<le> now)"
proof -
  have K: "in_i128 (adl_coeff_long e)" "in_i128 (adl_coeff_short e)" "0 \<le> last_market_slot e" "0 \<le> fund_px_last e"
    using t by (simp_all add: market_typed_def)
  define dt where "dt = now - last_market_slot e"
  have sat: "sat_u64 dt = dt" if "\<not> now < last_market_slot e"
    using that K(3) now by (auto simp: sat_u64_def in_u64_def dt_def)
  define active where "active = (rate \<noteq> 0 \<and> dt > 0 \<and> oi_eff_long_q e \<noteq> 0 \<and> oi_eff_short_q e \<noteq> 0 \<and> fund_px_last e > 0)"
  have fund: "okR (if active then fund_pair rate dt e else Ok (f_long_num e, f_short_num e))
     (\<lambda>(fl, fs). fl = f_long_num e - adl_mult_long e * fund_amount now rate e
        \<and> fs = f_short_num e + adl_mult_short e * fund_amount now rate e
        \<and> in_i128 fl \<and> in_i128 fs)"
    if "\<not> now < last_market_slot e"
  proof (cases active)
    case True
    then show ?thesis
      using fund_pair_value[OF t, of dt rate] by (simp add: active_def fund_amount_def dt_def)
  next
    case False
    have "fund_amount now rate e = 0"
      using False K(4) that by (auto simp: active_def fund_amount_def dt_def)
    then show ?thesis using False t by (simp add: market_typed_def)
  qed
  let ?goal = "\<lambda>e'. e' = accrued now px rate e \<and> market_typed e'"
  have fin: "okP (sval (ok_or Overflow (fit_i128 (px - last_oracle_price e))) e (\<lambda>delta_p.
            sval (mark_k (oi_eff_long_q e \<noteq> 0) 1 (adl_mult_long e) delta_p (adl_coeff_long e)) e (\<lambda>k_long.
            sval (mark_k (oi_eff_short_q e \<noteq> 0) (-1) (adl_mult_short e) delta_p (adl_coeff_short e)) e (\<lambda>k_short.
            sval (if active then fund_pair rate dt e else Ok (f_long_num e, f_short_num e)) e (\<lambda>(fl, fs).
            (Ok (), e\<lparr> adl_coeff_long := k_long, adl_coeff_short := k_short,
                       f_long_num := fl, f_short_num := fs,
                       current_slot := now, last_market_slot := now,
                       last_oracle_price := px, fund_px_last := px \<rparr>)))))) (\<lambda>_. ?goal)"
    if A: "\<not> now < last_market_slot e" "\<not> (dt = 0 \<and> last_oracle_price e = px)"
    unfolding okP_sval okR_ok_or fit_Some
  proof (intro allI impI, elim conjE, hypsubst, rule okR_mono[OF mark_k_value[OF K(1)]], simp,
      rule okR_mono[OF mark_k_value[OF K(2)]], simp, rule okR_mono[OF fund[OF A(1)]])
    fix kl ks p
    assume *: "kl = adl_coeff_long e + (if oi_eff_long_q e \<noteq> 0 then 1 * (adl_mult_long e * (px - last_oracle_price e)) else 0) \<and> in_i128 kl"
      "ks = adl_coeff_short e + (if oi_eff_short_q e \<noteq> 0 then - 1 * (adl_mult_short e * (px - last_oracle_price e)) else 0) \<and> in_i128 ks"
      "case p of (fl, fs) \<Rightarrow> fl = f_long_num e - adl_mult_long e * fund_amount now rate e
        \<and> fs = f_short_num e + adl_mult_short e * fund_amount now rate e \<and> in_i128 fl \<and> in_i128 fs"
    have px: "0 \<le> px" "0 \<le> now" using px0 A now by (simp_all add: in_u64_def)
    have nd: "\<not> (now = last_market_slot e \<and> last_oracle_price e = px)" using A by (simp add: dt_def)
    obtain fl fs where p: "p = (fl, fs)" by (cases p)
    let ?E = "e\<lparr> adl_coeff_long := kl, adl_coeff_short := ks,
                       f_long_num := fl, f_short_num := fs,
                       current_slot := now, last_market_slot := now,
                       last_oracle_price := px, fund_px_last := px \<rparr>"
    have ty: "in_i128 kl" "in_i128 ks" "in_i128 fl" "in_i128 fs"
      using * unfolding p prod.case by blast+
    have "market_typed ?E" using ty px t by (simp add: market_typed_def)
    moreover have "?E = accrued now px rate e"
      using * unfolding accrued_def Let_def if_not_P[OF nd] by (simp add: p)
    ultimately show "okP (case p of (fl, fs) \<Rightarrow> (Ok (), e\<lparr> adl_coeff_long := kl, adl_coeff_short := ks,
                       f_long_num := fl, f_short_num := fs,
                       current_slot := now, last_market_slot := now,
                       last_oracle_price := px, fund_px_last := px \<rparr>)) (\<lambda>_. ?goal)"
      by (simp add: p)
  qed
  have idle: "?goal (e\<lparr> current_slot := now \<rparr>)" if "dt = 0" "last_oracle_price e = px"
    using accrued_idle[of now e px rate] that t by (simp add: dt_def market_typed_def)
  show ?thesis
  proof (cases "market_mode e = Live \<and> \<not> (px = 0 \<or> px > MAX_ORACLE_PRICE)
      \<and> \<not> \<bar>rate\<bar> > max_abs_funding_e9_per_slot (params e) \<and> \<not> now < current_slot e
      \<and> \<not> now < last_market_slot e")
    case True
    then have s: "sat_u64 (now - last_market_slot e) = dt" using sat by (simp add: dt_def)
    have "okP (accrue_market_to now px rate e) (\<lambda>_. ?goal)"
    proof (cases "dt = 0 \<and> last_oracle_price e = px")
      case d: True
      have "accrue_market_to now px rate e = (Ok (), e\<lparr> current_slot := now \<rparr>)"
        using True d unfolding accrue_market_to_def Let_def s by simp
      moreover have "?goal (e\<lparr> current_slot := now \<rparr>)" using idle d by blast
      ultimately show ?thesis by (rule okP_ret)
    next
      case d: False
      show ?thesis
        using True fin[OF _ d] unfolding accrue_market_to_def Let_def s active_def if_not_P[OF d]
        by simp
    qed
    then show ?thesis
      by (rule okP_mono) (use True px0 in auto)
  next
    case False
    then show ?thesis
      by (auto simp: accrue_market_to_def)
  qed
qed

section \<open>What the insurance and fee operations do\<close>

theorem insurance_buffer_spec:
  assumes r: "use_insurance_buffer loss e = (rem, e')"
    and t: "0 \<le> loss" "in_u128 (ins_bal e)" "0 \<le> insurance_floor (params e)"
  shows "e' = set_insurance (ins_bal e - (loss - rem)) e" "0 \<le> rem" "rem \<le> loss"
    "loss - rem = min loss (max 0 (ins_bal e - insurance_floor (params e)))"
proof -
  have a: "sat_u128 (ins_bal e - insurance_floor (params e)) = max 0 (ins_bal e - insurance_floor (params e))"
    using t(2,3) by simp
  define av where "av = max 0 (ins_bal e - insurance_floor (params e))"
  have id: "set_insurance (ins_bal e) e = e" by (simp add: set_insurance_def)
  have "rem = loss - min loss av"
    using r t(1) unfolding use_insurance_buffer_def Let_def a av_def[symmetric]
    by (cases "loss = 0") (simp_all add: av_def)
  moreover have "e' = set_insurance (ins_bal e - min loss av) e"
  proof (cases "min loss av > 0")
    case True
    then show ?thesis
      using r t(1) unfolding use_insurance_buffer_def Let_def a av_def[symmetric]
      by (cases "loss = 0") auto
  next
    case False
    then have z: "min loss av = 0" using t(1) by (auto simp: av_def)
    then show ?thesis
      using r id unfolding use_insurance_buffer_def Let_def a av_def[symmetric]
      by (cases "loss = 0") simp_all
  qed
  ultimately show "e' = set_insurance (ins_bal e - (loss - rem)) e" "0 \<le> rem" "rem \<le> loss"
    "loss - rem = min loss (max 0 (ins_bal e - insurance_floor (params e)))"
    using t(1) by (auto simp: av_def)
qed

text \<open>Setting the insurance balance is invisible to the aggregates and the slab.\<close>

lemma set_insurance_inv [simp]: "pnl_inv (set_insurance v e) = pnl_inv e" "slab_ok (set_insurance v e) = slab_ok e"
  "accounts (set_insurance v e) = accounts e" "vault (set_insurance v e) = vault e"
  "c_tot (set_insurance v e) = c_tot e" "params (set_insurance v e) = params e"
  "ins_bal (set_insurance v e) = v" "market_mode (set_insurance v e) = market_mode e"
  "pnl_pos_tot (set_insurance v e) = pnl_pos_tot e"
  "pnl_matured_pos_tot (set_insurance v e) = pnl_matured_pos_tot e"
  "current_slot (set_insurance v e) = current_slot e"
  by (simp_all add: set_insurance_def pnl_inv_def agg_def accts_ok_def slab_ok_def slab_shape_def
      free_chain_def used_set_def is_used_bit)

text \<open>
  \<open>fee_effect i paid coll e\<close> is the state after a fee of which \<open>paid\<close> comes from capital into the
  insurance fund and \<open>coll\<close> becomes fee debt.
\<close>

definition fee_effect :: "nat \<Rightarrow> int \<Rightarrow> int \<Rightarrow> engine \<Rightarrow> engine" where
  "fee_effect i paid coll e =
     e\<lparr> accounts := (accounts e)[i := (accounts e ! i)\<lparr> capital := capital (accounts e ! i) - paid,
                                   fee_credits := fee_credits (accounts e ! i) - coll \<rparr>],
        c_tot := c_tot e - paid,
        insurance_fund := \<lparr> balance = ins_bal e + paid \<rparr> \<rparr>"

lemma fee_effect_id: "i < MAX_ACCOUNTS e \<Longrightarrow> fee_effect i 0 0 e = e"
  by (simp add: fee_effect_def)

definition fee_room :: "account \<Rightarrow> int" where
  "fee_room a = max 0 (min I128_MAX (fee_credits a + I128_MAX))"

lemma fee_headroom:
  assumes "in_i128 fc" "fc \<le> 0"
  shows "(case fit_i128 (fc + I128_MAX) of Some h \<Rightarrow> (if h > 0 then h else 0) | None \<Rightarrow> 0)
    = max 0 (fc + I128_MAX)"
  using assms by (auto simp: fit_i128_def in_i128_def bounds)

theorem charge_fee_spec:
  assumes inv: "pnl_inv e" and fee: "0 \<le> fee"
    and fc: "in_i128 (fee_credits (accounts e ! i))" "fee_credits (accounts e ! i) \<le> 0"
  shows "okP (charge_fee_to_insurance i fee e)
     (\<lambda>(paid, impact, dropped) e'. i < MAX_ACCOUNTS e \<and> e' = fee_effect i paid (impact - paid) e
        \<and> paid = min fee (capital (accounts e ! i))
        \<and> impact = paid + min (fee - paid) (max 0 (fee_credits (accounts e ! i) + I128_MAX))
        \<and> impact + dropped = fee \<and> fee \<le> MAX_PROTOCOL_FEE_ABS)"
    (is "okP _ ?Q")
proof (cases "i < MAX_ACCOUNTS e")
  case False
  then show ?thesis by (simp add: charge_fee_to_insurance_def okP_sacct)
next
  case i: True
  let ?a = "accounts e ! i"
  define paid where "paid = min fee (capital ?a)"
  define room where "room = max 0 (fee_credits ?a + I128_MAX)"
  have cap: "0 \<le> capital ?a"
    using accts_ok_nth[of e i] inv i by (simp add: pnl_inv_def acct_ok_def in_u128_def)
  have p0: "0 \<le> paid" using fee cap by (simp add: paid_def)
  define e1 where "e1 = fee_effect i paid 0 e"
  have e1: "accounts e1 ! i = ?a\<lparr> capital := capital ?a - paid \<rparr>" "MAX_ACCOUNTS e1 = MAX_ACCOUNTS e"
    using i by (simp_all add: e1_def fee_effect_def)
  have coll: "fee_effect i paid x e = upd i (\<lambda>a. a\<lparr> fee_credits := fee_credits (accounts e1 ! i) - x \<rparr>) e1" for x
    using i by (simp add: e1 fee_effect_def upd_def) (simp add: e1_def fee_effect_def)
  have e10: "fee_effect i paid 0 e = e1" by (simp add: e1_def)
  have z: "e1 = e" if "\<not> paid > 0" using that p0 i by (simp add: e1_def fee_effect_id)
  have pay: "okP (fee_from_capital i (capital ?a) paid e) (\<lambda>_ e'. e' = e1)"
    unfolding fee_from_capital_def okP_if okP_sthen okP_sval okR_ok_or
  proof (intro conjI impI okP_mono[OF set_capital_spec])
    fix u s assume "i < MAX_ACCOUNTS e \<and> s = cap_effect i (capital ?a - paid) e \<and> in_u128 (c_tot s)"
    then show "\<forall>x. fit_u128 (ins_bal s + paid) = Some x \<longrightarrow> okP (Ok (), set_insurance x s) (\<lambda>_ e'. e' = e1)"
      by (simp add: e1_def fee_effect_def cap_effect_def set_insurance_def)
  qed (simp add: z)
  have h: "(case fit_i128 (fee_credits (accounts e1 ! i) + I128_MAX) of
        Some h \<Rightarrow> (if h > 0 then h else 0) | None \<Rightarrow> 0) = room"
    using fee_headroom[OF fc] by (simp add: e1 room_def)
  have r0: "0 \<le> room" by (simp add: room_def)
  have Q: "?Q (paid, impact, dropped) (fee_effect i paid (impact - paid) e)"
    if "fee \<le> MAX_PROTOCOL_FEE_ABS" "impact = paid + min (fee - paid) room" "dropped = fee - impact"
    for impact dropped
    using that i unfolding paid_def[symmetric] room_def[symmetric] by simp
  define PQ where "PQ = ?Q"
  have debt: "okP (fee_to_debt i fee paid e1) PQ" if le: "fee \<le> MAX_PROTOCOL_FEE_ABS"
  proof (cases "fee - paid > 0")
    case False
    then have "fee = paid" by (simp add: paid_def)
    then show ?thesis using Q[OF le, of paid 0, folded PQ_def] r0 e10 by (simp add: fee_to_debt_def)
  next
    case True
    define c where "c = min (fee - paid) room"
    have c0: "0 \<le> c" using True r0 by (simp add: c_def)
    have q: "PQ (paid, paid + c, fee - (paid + c)) (fee_effect i paid c e)"
      using Q[OF le, of "paid + c" "fee - (paid + c)", folded PQ_def] unfolding c_def[symmetric] by simp
    show ?thesis
    proof (cases "c > 0")
      case cp: True
      then show ?thesis
        unfolding fee_to_debt_def Let_def if_P[OF True] h c_def[symmetric] if_P[OF cp]
        using q coll[of c] by (simp add: okP_sthen okP_sval okR_expect add_u128_def)
    next
      case cp: False
      then have cz: "c = 0" using c0 by simp
      show ?thesis
        unfolding fee_to_debt_def Let_def if_P[OF True] h c_def[symmetric] if_not_P[OF cp]
        using q e10 unfolding cz by (simp add: okP_sthen okP_sval okR_expect add_u128_def)
    qed
  qed
  have "okP (charge_fee_to_insurance i fee e) PQ"
    unfolding charge_fee_to_insurance_def Let_def okP_if okP_sacct paid_def[symmetric] okP_sthen
    using okP_mono[OF pay, of "\<lambda>_ s. okP (fee_to_debt i fee paid s) PQ"] debt
    by (simp add: not_less)
  then show ?thesis by (simp only: PQ_def)
qed

end
