(* ===== verification/Stage.thy ===== *)
theory Stage
  imports Market
begin

text \<open>
  What every stage of an instruction keeps: \<open>good\<close>, the well-formedness of the engine (the
  aggregates and reserves, the fee credits, the market fields and the parameters), and
  \<open>stage S\<close>, the relation between the states before and after a stage that works on the accounts
  of \<open>S\<close> only.
\<close>

section \<open>Well-formed engines\<close>

definition fee_ok :: "account \<Rightarrow> bool" where
  "fee_ok a = (- I128_MAX \<le> fee_credits a \<and> fee_credits a \<le> 0)"

definition fees_ok :: "engine \<Rightarrow> bool" where
  "fees_ok e = (\<forall>i < MAX_ACCOUNTS e. fee_ok (accounts e ! i))"

definition market_ok :: "engine \<Rightarrow> bool" where
  "market_ok e =
     (0 < adl_mult_long e \<and> adl_mult_long e \<le> ADL_ONE
      \<and> 0 < adl_mult_short e \<and> adl_mult_short e \<le> ADL_ONE
      \<and> in_i128 (adl_coeff_long e) \<and> in_i128 (adl_coeff_short e)
      \<and> in_i128 (f_long_num e) \<and> in_i128 (f_short_num e)
      \<and> in_i128 (adl_epoch_start_k_long e) \<and> in_i128 (adl_epoch_start_k_short e)
      \<and> in_i128 (f_epoch_start_long_num e) \<and> in_i128 (f_epoch_start_short_num e)
      \<and> in_u128 (oi_eff_long_q e) \<and> in_u128 (oi_eff_short_q e)
      \<and> 0 < last_oracle_price e \<and> last_oracle_price e \<le> MAX_ORACLE_PRICE
      \<and> 0 < fund_px_last e \<and> fund_px_last e \<le> MAX_ORACLE_PRICE
      \<and> 0 \<le> last_market_slot e \<and> last_market_slot e \<le> current_slot e \<and> in_u64 (current_slot e))"

definition good :: "engine \<Rightarrow> bool" where
  "good e =
     (pnl_inv e \<and> fees_ok e \<and> market_ok e \<and> in_u128 (ins_bal e) \<and> in_u128 (vault e)
      \<and> params_ok (MAX_ACCOUNTS e) (params e) \<and> params_typed (params e))"

lemma good_D:
  assumes "good e"
  shows "pnl_inv e" "fees_ok e" "market_ok e" "in_u128 (ins_bal e)"
    "params_ok (MAX_ACCOUNTS e) (params e)" "params_typed (params e)" "accts_ok e" "agg e"
    "in_u128 (vault e)"
  using assms by (simp_all add: good_def pnl_inv_def)

definition solvent :: "engine \<Rightarrow> bool" where
  "solvent e = (c_tot e + ins_bal e \<le> vault e)"

section \<open>Stages\<close>

definition stage :: "nat set \<Rightarrow> engine \<Rightarrow> engine \<Rightarrow> bool" where
  "stage S e e' =
     (good e' \<and> (solvent e \<longrightarrow> solvent e') \<and> vault e' = vault e \<and> params e' = params e
      \<and> market_mode e' = market_mode e \<and> slab_fields e' = slab_fields e
      \<and> (\<forall>j. j \<notin> S \<longrightarrow> accounts e' ! j = accounts e ! j))"

lemma stage_D:
  assumes "stage S e e'"
  shows "good e'" "vault e' = vault e" "params e' = params e" "market_mode e' = market_mode e"
    "MAX_ACCOUNTS e' = MAX_ACCOUNTS e" "\<And>j. is_used e' j = is_used e j" "solvent e \<Longrightarrow> solvent e'"
    "\<And>j. j \<notin> S \<Longrightarrow> accounts e' ! j = accounts e ! j"
  using assms by (simp_all add: stage_def slab_fields_def is_used_bit)

lemma stage_refl: "good e \<Longrightarrow> stage S e e"
  by (simp add: stage_def)

lemma stage_trans [trans]: "stage S e e1 \<Longrightarrow> stage S e1 e2 \<Longrightarrow> stage S e e2"
  by (simp add: stage_def)

lemma stage_mono: "stage S e e' \<Longrightarrow> S \<subseteq> T \<Longrightarrow> stage T e e'"
  by (auto simp: stage_def)

lemma slab_fields_ok:
  assumes f: "slab_fields e' = slab_fields e" and o: "\<And>j. j \<notin> S \<Longrightarrow> accounts e' ! j = accounts e ! j"
    and p: "params e' = params e" and ok: "slab_ok e" and u: "\<And>i. i \<in> S \<Longrightarrow> is_used e i"
  shows "slab_ok e'"
proof -
  have D: "used e' = used e" "next_free e' = next_free e" "prev_free e' = prev_free e"
    "free_head e' = free_head e" "materialized_account_count e' = materialized_account_count e"
    "MAX_ACCOUNTS e' = MAX_ACCOUNTS e" "num_used_accounts e' = num_used_accounts e"
    using f by (simp_all add: slab_fields_def)
  have D2: "\<And>j. is_used e' j = is_used e j" using D by (simp add: is_used_bit)
  have c: "free_chain e' fl = free_chain e fl" for fl by (simp add: free_chain_def D D2)
  have v: "accounts e' ! i = accounts e ! i" if "\<not> is_used e i" for i
    using o u that by blast
  have us: "used_set e' = used_set e" by (simp add: used_set_def D D2)
  show ?thesis
    using ok v by (simp add: slab_ok_def slab_shape_def c us D D2 p)
qed

lemma stage_slab:
  assumes "stage S e e'" "slab_ok e" "\<And>i. i \<in> S \<Longrightarrow> is_used e i"
  shows "slab_ok e'"
  by (rule slab_fields_ok[of e' e S]) (use assms in \<open>simp_all add: stage_def\<close>)

text \<open>A framed change is a stage when it keeps the aggregates, the credits and the solvency.\<close>

lemma frame_market: "frame S e e' \<Longrightarrow> market_ok e' = market_ok e"
  by (simp add: frame_def mkt_fields_def market_ok_def)

lemma fees_ok_frame:
  assumes "frame S e e'" "fees_ok e" "\<And>i. i \<in> S \<Longrightarrow> i < MAX_ACCOUNTS e \<Longrightarrow> fee_ok (accounts e' ! i)"
  shows "fees_ok e'"
  unfolding fees_ok_def
proof (intro allI impI)
  fix i assume "i < MAX_ACCOUNTS e'"
  then show "fee_ok (accounts e' ! i)"
    using assms frame_D(5,6)[OF assms(1)] by (cases "i \<in> S") (simp_all add: fees_ok_def)
qed

lemma frame_good:
  assumes f: "frame S e e'" and g: "good e" and p: "pnl_inv e'"
    and a: "\<And>i. i \<in> S \<Longrightarrow> i < MAX_ACCOUNTS e \<Longrightarrow> fee_ok (accounts e' ! i)"
  shows "good e'"
  using fees_ok_frame[OF f _ a] frame_market[OF f] frame_D[OF f] g p by (simp add: good_def)

lemma frame_stage:
  assumes f: "frame S e e'" and g: "good e" and p: "pnl_inv e'"
    and a: "\<And>i. i \<in> S \<Longrightarrow> i < MAX_ACCOUNTS e \<Longrightarrow> fee_ok (accounts e' ! i)"
    and c: "c_tot e' \<le> c_tot e"
  shows "stage S e e'"
  using frame_good[OF f g p a] f c by (simp add: stage_def frame_def solvent_def)

lemma cash_stage:
  assumes "cash_step i e e'" "good e"
  shows "stage {i} e e'"
proof -
  have c: "fee_credits (accounts e' ! i) = fee_credits (accounts e ! i)" "frame {i} e e'" "pnl_inv e'"
    "c_tot e' = c_tot e"
    using assms(1) by (simp_all add: cash_step_def cash_def)
  show ?thesis
    using c(1,4) good_D(2)[OF assms(2)]
    by - (rule frame_stage[OF c(2) assms(2) c(3)], simp_all add: fees_ok_def fee_ok_def)
qed

lemma quiet_stage: "quiet e e' \<Longrightarrow> good e \<Longrightarrow> stage {} e e'"
  using quiet_inv[of e e'] good_D(1)
  by - (rule frame_stage, simp_all add: quiet_def)

text \<open>Changes outside the accounts: the market fields and the insurance fund.\<close>

definition outer :: "engine \<Rightarrow> engine \<Rightarrow> bool" where
  "outer e e' =
     (accounts e' = accounts e \<and> vault e' = vault e \<and> params e' = params e
      \<and> market_mode e' = market_mode e \<and> slab_fields e' = slab_fields e \<and> c_tot e' = c_tot e
      \<and> pnl_pos_tot e' = pnl_pos_tot e \<and> pnl_matured_pos_tot e' = pnl_matured_pos_tot e
      \<and> neg_pnl_account_count e' = neg_pnl_account_count e
      \<and> stored_pos_count_long e' = stored_pos_count_long e
      \<and> stored_pos_count_short e' = stored_pos_count_short e)"

lemma outer_refl [simp]: "outer e e"
  by (simp add: outer_def)

lemma outer_trans: "outer e e1 \<Longrightarrow> outer e1 e2 \<Longrightarrow> outer e e2"
  by (simp add: outer_def)

lemma outer_inv:
  assumes "outer e e'"
  shows "pnl_inv e' = pnl_inv e" "fees_ok e' = fees_ok e" "MAX_ACCOUNTS e' = MAX_ACCOUNTS e"
  using assms by (simp_all add: outer_def pnl_inv_def agg_def accts_ok_def fees_ok_def)

lemma outer_stage:
  assumes o: "outer e e'" and g: "good e" and m: "market_ok e'" and i: "0 \<le> ins_bal e'" "ins_bal e' \<le> ins_bal e"
  shows "stage S e e'"
proof -
  have "in_u128 (ins_bal e')" using good_D(4)[OF g] i by (simp add: in_u128_def)
  then show ?thesis
    using outer_inv[OF o] g m o i by (simp add: stage_def good_def outer_def solvent_def)
qed

lemma outer_upds [simp]:
  "outer e (e\<lparr> phantom_dust_bound_long_q := x \<rparr>)" "outer e (e\<lparr> phantom_dust_bound_short_q := x \<rparr>)"
  "outer e (set_stale_count s y e)" "outer e (set_oi_eff s x e)" "outer e (set_side_mode s m e)"
  "outer e (set_a_side s x e)" "outer e (set_k_side s x e)"
  "outer e (e\<lparr> current_slot := x \<rparr>)" "outer e (set_insurance x e)"
  by (cases s; simp add: outer_def slab_fields_def set_insurance_def)+

text \<open>The side accessors: reading after writing, and the writes that keep the market well formed.\<close>

lemma side_reads [simp]:
  "get_oi_eff s (set_oi_eff s v e) = v" "get_a_side s (set_a_side s v e) = v"
  "get_k_side s (set_k_side s v e) = v" "get_side_mode s (set_side_mode s m e) = m"
  "get_stale_count s (set_stale_count s v e) = v"
  "get_oi_eff t (set_a_side s v e) = get_oi_eff t e" "get_oi_eff t (set_k_side s v e) = get_oi_eff t e"
  "get_oi_eff t (set_side_mode s m e) = get_oi_eff t e"
  "get_oi_eff t (set_stale_count s v e) = get_oi_eff t e"
  "get_a_side t (set_oi_eff s v e) = get_a_side t e" "get_a_side t (set_k_side s v e) = get_a_side t e"
  "get_a_side t (set_side_mode s m e) = get_a_side t e"
  "get_a_side t (set_stale_count s v e) = get_a_side t e"
  "get_k_side t (set_oi_eff s v e) = get_k_side t e" "get_k_side t (set_a_side s v e) = get_k_side t e"
  "get_k_side t (set_side_mode s m e) = get_k_side t e"
  "get_k_side t (set_stale_count s v e) = get_k_side t e"
  "get_side_mode t (set_oi_eff s v e) = get_side_mode t e"
  "get_side_mode t (set_a_side s v e) = get_side_mode t e"
  "get_side_mode t (set_k_side s v e) = get_side_mode t e"
  "get_side_mode t (set_stale_count s v e) = get_side_mode t e"
  "get_stored_pos_count t (set_oi_eff s v e) = get_stored_pos_count t e"
  "get_oi_eff t (set_insurance x e) = get_oi_eff t e" "get_a_side t (set_insurance x e) = get_a_side t e"
  "get_k_side t (set_insurance x e) = get_k_side t e"
  "get_side_mode t (set_insurance x e) = get_side_mode t e"
  "ins_bal (set_oi_eff s v e) = ins_bal e" "ins_bal (set_a_side s v e) = ins_bal e"
  "ins_bal (set_k_side s v e) = ins_bal e" "ins_bal (set_side_mode s m e) = ins_bal e"
  "ins_bal (set_stale_count s v e) = ins_bal e"
  by (cases s; cases t; simp add: set_insurance_def)+

lemma opposite_reads [simp]:
  "get_oi_eff (opposite_side s) (set_oi_eff s v e) = get_oi_eff (opposite_side s) e"
  "get_a_side (opposite_side s) (set_a_side s v e) = get_a_side (opposite_side s) e"
  "get_k_side (opposite_side s) (set_k_side s v e) = get_k_side (opposite_side s) e"
  "get_side_mode (opposite_side s) (set_side_mode s m e) = get_side_mode (opposite_side s) e"
  "get_oi_eff s (set_oi_eff (opposite_side s) v e) = get_oi_eff s e"
  "get_a_side s (set_a_side (opposite_side s) v e) = get_a_side s e"
  "get_k_side s (set_k_side (opposite_side s) v e) = get_k_side s e"
  "get_side_mode s (set_side_mode (opposite_side s) m e) = get_side_mode s e"
  "opposite_side (opposite_side s) = s" "opposite_side s \<noteq> s" "s \<noteq> opposite_side s"
  by (cases s; simp)+

lemma market_ok_sides:
  assumes "market_ok e"
  shows "0 < get_a_side s e" "get_a_side s e \<le> ADL_ONE" "in_i128 (get_k_side s e)"
    "in_i128 (get_f_side s e)" "in_u128 (get_oi_eff s e)"
  using assms by (cases s; simp add: market_ok_def)+

lemma market_ok_writes:
  assumes "market_ok e"
  shows "in_u128 v \<Longrightarrow> market_ok (set_oi_eff s v e)"
    "0 < v \<Longrightarrow> v \<le> ADL_ONE \<Longrightarrow> market_ok (set_a_side s v e)"
    "in_i128 v \<Longrightarrow> market_ok (set_k_side s v e)"
    "market_ok (set_side_mode s m e)" "market_ok (set_stale_count s v e)"
    "market_ok (set_insurance v e)"
    "market_ok (e\<lparr> phantom_dust_bound_long_q := v \<rparr>)"
    "market_ok (e\<lparr> phantom_dust_bound_short_q := v \<rparr>)"
  using assms by (cases s; simp add: market_ok_def set_insurance_def)+

section \<open>Accrual is a stage\<close>

lemma market_ok_typed: "market_ok e \<Longrightarrow> market_typed e"
  by (simp add: market_ok_def market_typed_def)

theorem accrue_stage:
  assumes g: "good e" and t: "in_u64 now" "0 \<le> px"
  shows "okP (accrue_market_to now px rate e) (\<lambda>_ e'. stage {} e e' \<and> market_mode e = Live \<and> current_slot e' = now
     \<and> 0 < px \<and> px \<le> MAX_ORACLE_PRICE \<and> last_oracle_price e' = px)"
proof (rule okP_mono[OF accrue_spec[OF market_ok_typed[OF good_D(3)[OF g]] t]])
  fix u e'
  assume A: "e' = accrued now px rate e \<and> market_typed e' \<and> market_mode e = Live \<and> 0 < px
      \<and> px \<le> MAX_ORACLE_PRICE \<and> \<bar>rate\<bar> \<le> max_abs_funding_e9_per_slot (params e)
      \<and> current_slot e \<le> now \<and> last_market_slot e \<le> now"
  have m: "market_ok e" by (rule good_D(3)[OF g])
  have eq: "e' = accrued now px rate e" and ty: "market_typed e'" using A by blast+
  have O: "outer e e'" unfolding eq accrued_def Let_def by (simp add: outer_def slab_fields_def)
  have F: "adl_mult_long e' = adl_mult_long e" "adl_mult_short e' = adl_mult_short e"
    "adl_epoch_start_k_long e' = adl_epoch_start_k_long e"
    "adl_epoch_start_k_short e' = adl_epoch_start_k_short e"
    "f_epoch_start_long_num e' = f_epoch_start_long_num e"
    "f_epoch_start_short_num e' = f_epoch_start_short_num e"
    "oi_eff_long_q e' = oi_eff_long_q e" "oi_eff_short_q e' = oi_eff_short_q e"
    "last_oracle_price e' = px" "last_market_slot e' = now" "current_slot e' = now"
    "ins_bal e' = ins_bal e"
    unfolding eq accrued_def Let_def by simp_all
  have fp: "fund_px_last e' = fund_px_last e \<or> fund_px_last e' = px"
    unfolding eq accrued_def Let_def by simp
  have B: "0 < px" "px \<le> MAX_ORACLE_PRICE" "current_slot e \<le> now" "market_mode e = Live" using A by blast+
  have fp2: "0 < fund_px_last e'" "fund_px_last e' \<le> MAX_ORACLE_PRICE"
    using fp m B unfolding market_ok_def by auto
  have "market_ok e'"
    using m ty B t fp2 by (simp add: market_ok_def market_typed_def in_u64_def F)
  then show "stage {} e e' \<and> market_mode e = Live \<and> current_slot e' = now
     \<and> 0 < px \<and> px \<le> MAX_ORACLE_PRICE \<and> last_oracle_price e' = px"
    using outer_stage[OF O g, of "{}"] B F good_D(4)[OF g] by (simp add: in_u128_def)
qed

end
