(* ===== verification/Adl.thy ===== *)
theory Adl
  imports Stage
begin

text \<open>
  Auto-deleveraging and the side life cycle of \<open>src/src/percolator.rs\<close>: \<open>enqueue_adl\<close>,
  \<open>begin_full_drain_reset\<close>, \<open>finalize_side_reset\<close>, \<open>schedule_end_of_instruction_resets\<close> and
  \<open>finalize_end_of_instruction_resets\<close>.
\<close>

section \<open>enqueue_adl\<close>

fun set_pending_reset :: "side \<Rightarrow> instruction_context \<Rightarrow> instruction_context" where
  "set_pending_reset Long ctx = ctx\<lparr> pending_reset_long := True \<rparr>"
| "set_pending_reset Short ctx = ctx\<lparr> pending_reset_short := True \<rparr>"

text \<open>Steps 1 and 2: the liquidated side's interest falls, insurance covers the deficit first.\<close>

definition adl_open :: "side \<Rightarrow> int \<Rightarrow> int \<Rightarrow> engine \<Rightarrow> int step" where
  "adl_open liq_side q_close_q d e =
     sthen
       (if q_close_q \<noteq> 0 then
          sval (ok_or CorruptState (fit_u128 (get_oi_eff liq_side e - q_close_q))) e (\<lambda>new_oi.
            (Ok (), set_oi_eff liq_side new_oi e))
        else (Ok (), e)) (\<lambda>_ e.
     if d > 0 then (let (rem, e) = use_insurance_buffer d e in (Ok rem, e)) else (Ok 0, e))"

text \<open>Step 7: the deficit becomes a K movement when it leaves room for a later mark.\<close>

definition adl_headroom :: "int \<Rightarrow> int \<Rightarrow> int \<Rightarrow> int option" where
  "adl_headroom a_old k_opp delta_k =
     (case fit_i128 (k_opp + delta_k) of
        None \<Rightarrow> None
      | Some new_k \<Rightarrow>
          (case fit_u256 (a_old * MAX_ORACLE_PRICE) of
             None \<Rightarrow> None
           | Some mark \<Rightarrow>
               (case fit_u256 (I128_MAX - \<bar>new_k\<bar>) of
                  None \<Rightarrow> None
                | Some budget \<Rightarrow> if mark \<le> budget then Some new_k else None)))"

definition adl_quote :: "side \<Rightarrow> int \<Rightarrow> int \<Rightarrow> int \<Rightarrow> engine \<Rightarrow> unit step" where
  "adl_quote opp d_rem a_old oi e =
     (if d_rem \<noteq> 0 then
        sval (ok_or Overflow (fit_u128 (a_old * POS_SCALE))) e (\<lambda>a_ps.
        (case wide_mul_div_ceil_u128_or_over_i128max d_rem a_ps oi of
           Panic \<Rightarrow> (Panic, e)
         | Ok delta_k_abs \<Rightarrow>
             (case adl_headroom a_old (get_k_side opp e) (- delta_k_abs) of
                Some new_k \<Rightarrow> (Ok (), set_k_side opp new_k e)
              | None \<Rightarrow> (Ok (), record_uninsured_protocol_loss d_rem e))
         | Err OverI128Magnitude \<Rightarrow> (Ok (), record_uninsured_protocol_loss d_rem e)))
      else (Ok (), e))"

text \<open>Steps 8 to 11: the opposing side shrinks by its multiplier, or drains.\<close>

definition adl_dust :: "side \<Rightarrow> int \<Rightarrow> int \<Rightarrow> engine \<Rightarrow> unit step" where
  "adl_dust opp a_old oi e =
     (let n_opp = get_stored_pos_count opp e;
          oi_plus_n = (case fit_u256 (oi + n_opp) of Some x \<Rightarrow> x | None \<Rightarrow> U256_MAX) in
      sval (ceil_div_positive_checked oi_plus_n a_old) e (\<lambda>ceil_term.
      let global_a_dust_bound = (case fit_u256 (n_opp + ceil_term) of Some x \<Rightarrow> x | None \<Rightarrow> U256_MAX);
          bound_u128 = (case fit_u128 global_a_dust_bound of Some x \<Rightarrow> x | None \<Rightarrow> U128_MAX) in
      inc_phantom_dust_bound_by opp bound_u128 e))"

definition adl_shrink ::
  "instruction_context \<Rightarrow> side \<Rightarrow> side \<Rightarrow> int \<Rightarrow> int \<Rightarrow> int \<Rightarrow> engine \<Rightarrow> instruction_context step"
where
  "adl_shrink ctx liq_side opp a_old oi oi_post e =
     (if oi_post = 0 then
        let e = set_oi_eff opp 0 e; ctx = set_pending_reset opp ctx in
        (Ok (if get_oi_eff liq_side e = 0 then set_pending_reset liq_side ctx else ctx), e)
      else
        sval (mul_div_floor_u256_with_rem a_old oi_post oi) e (\<lambda>(a_candidate, a_trunc_rem).
        if a_candidate \<noteq> 0 then
          sval (ok_or Overflow (fit_u128 a_candidate)) e (\<lambda>a_new.
          let e = set_oi_eff opp oi_post (set_a_side opp a_new e) in
          sthen (if oi_post < oi then adl_dust opp a_old oi e else (Ok (), e)) (\<lambda>_ e.
            (Ok ctx, if a_new < MIN_A_SIDE then set_side_mode opp DrainOnly e else e)))
        else
          (Ok (set_pending_reset liq_side (set_pending_reset opp ctx)),
           set_oi_eff liq_side 0 (set_oi_eff opp 0 e))))"

definition enqueue_adl ::
  "instruction_context \<Rightarrow> side \<Rightarrow> int \<Rightarrow> int \<Rightarrow> engine \<Rightarrow> instruction_context step"
where
  "enqueue_adl ctx liq_side q_close_q d e =
     (let opp = opposite_side liq_side in
      sthen (adl_open liq_side q_close_q d e) (\<lambda>d_rem e.
      let oi = get_oi_eff opp e in
      if oi = 0 then
        let e = (if d_rem > 0 then record_uninsured_protocol_loss d_rem e else e) in
        (Ok (if get_oi_eff liq_side e = 0
             then set_pending_reset opp (set_pending_reset liq_side ctx) else ctx), e)
      else if get_stored_pos_count opp e = 0 then
        if q_close_q > oi then (Err CorruptState, e)
        else
          sval (ok_or Overflow (fit_u128 (oi - q_close_q))) e (\<lambda>oi_post.
          let e = (if d_rem > 0 then record_uninsured_protocol_loss d_rem e else e);
              e = set_oi_eff opp oi_post e in
          (Ok (if oi_post = 0 then
                 let ctx = set_pending_reset opp ctx in
                 if get_oi_eff liq_side e = 0 then set_pending_reset liq_side ctx else ctx
               else ctx), e))
      else if q_close_q > oi then (Err CorruptState, e)
      else
        let a_old = get_a_side opp e in
        sval (ok_or Overflow (fit_u128 (oi - q_close_q))) e (\<lambda>oi_post.
        sthen (adl_quote opp d_rem a_old oi e) (\<lambda>_ e.
          adl_shrink ctx liq_side opp a_old oi oi_post e))))"

section \<open>Side resets\<close>

definition begin_full_drain_reset :: "side \<Rightarrow> engine \<Rightarrow> unit step" where
  "begin_full_drain_reset s e =
     (if get_oi_eff s e \<noteq> 0 then (Err CorruptState, e)
      else
        let k = get_k_side s e;
            e = (case s of Long \<Rightarrow> e\<lparr> adl_epoch_start_k_long := k \<rparr>
                         | Short \<Rightarrow> e\<lparr> adl_epoch_start_k_short := k \<rparr>);
            e = (case s of Long \<Rightarrow> e\<lparr> f_epoch_start_long_num := f_long_num e \<rparr>
                         | Short \<Rightarrow> e\<lparr> f_epoch_start_short_num := f_short_num e \<rparr>);
            e = (case s of Long \<Rightarrow> e\<lparr> adl_coeff_long := 0, f_long_num := 0 \<rparr>
                         | Short \<Rightarrow> e\<lparr> adl_coeff_short := 0, f_short_num := 0 \<rparr>) in
        sthen
          (case s of
             Long \<Rightarrow> sval (ok_or Overflow (fit_u64 (adl_epoch_long e + 1))) e (\<lambda>x.
                       (Ok (), e\<lparr> adl_epoch_long := x \<rparr>))
           | Short \<Rightarrow> sval (ok_or Overflow (fit_u64 (adl_epoch_short e + 1))) e (\<lambda>x.
                       (Ok (), e\<lparr> adl_epoch_short := x \<rparr>))) (\<lambda>_ e.
        let e = set_a_side s ADL_ONE e;
            spc = get_stored_pos_count s e;
            e = set_stale_count s spc e;
            e = (case s of Long \<Rightarrow> e\<lparr> phantom_dust_bound_long_q := 0 \<rparr>
                         | Short \<Rightarrow> e\<lparr> phantom_dust_bound_short_q := 0 \<rparr>) in
        (Ok (), set_side_mode s ResetPending e)))"

definition finalize_side_reset :: "side \<Rightarrow> engine \<Rightarrow> unit step" where
  "finalize_side_reset s e =
     (if get_side_mode s e \<noteq> ResetPending then (Err CorruptState, e)
      else if get_oi_eff s e \<noteq> 0 then (Err CorruptState, e)
      else if get_stale_count s e \<noteq> 0 then (Err CorruptState, e)
      else if get_stored_pos_count s e \<noteq> 0 then (Err CorruptState, e)
      else (Ok (), set_side_mode s Normal e))"

text \<open>The dust clearance of the three empty-side cases, with the bound each compares against.\<close>

definition clear_dust ::
  "bool \<Rightarrow> bool \<Rightarrow> instruction_context \<Rightarrow> engine \<Rightarrow> instruction_context step"
where
  "clear_dust has_residual within ctx e =
     (if has_residual then
        if oi_eff_long_q e \<noteq> oi_eff_short_q e then (Err CorruptState, e)
        else if within then
          (Ok (ctx\<lparr> pending_reset_long := True, pending_reset_short := True \<rparr>),
           e\<lparr> oi_eff_long_q := 0, oi_eff_short_q := 0 \<rparr>)
        else (Err CorruptState, e)
      else (Ok ctx, e))"

definition schedule_end_of_instruction_resets ::
  "instruction_context \<Rightarrow> engine \<Rightarrow> instruction_context step"
where
  "schedule_end_of_instruction_resets ctx e =
     sthen
       (if stored_pos_count_long e = 0 \<and> stored_pos_count_short e = 0 then
          sval (ok_or CorruptState
                 (fit_u128 (phantom_dust_bound_long_q e + phantom_dust_bound_short_q e))) e
            (\<lambda>clear_bound_q.
          clear_dust
            (oi_eff_long_q e \<noteq> 0 \<or> oi_eff_short_q e \<noteq> 0
               \<or> phantom_dust_bound_long_q e \<noteq> 0 \<or> phantom_dust_bound_short_q e \<noteq> 0)
            (oi_eff_long_q e \<le> clear_bound_q \<and> oi_eff_short_q e \<le> clear_bound_q) ctx e)
        else if stored_pos_count_long e = 0 \<and> stored_pos_count_short e > 0 then
          clear_dust
            (oi_eff_long_q e \<noteq> 0 \<or> oi_eff_short_q e \<noteq> 0 \<or> phantom_dust_bound_long_q e \<noteq> 0)
            (oi_eff_long_q e \<le> phantom_dust_bound_long_q e) ctx e
        else if stored_pos_count_short e = 0 \<and> stored_pos_count_long e > 0 then
          clear_dust
            (oi_eff_long_q e \<noteq> 0 \<or> oi_eff_short_q e \<noteq> 0 \<or> phantom_dust_bound_short_q e \<noteq> 0)
            (oi_eff_short_q e \<le> phantom_dust_bound_short_q e) ctx e
        else (Ok ctx, e)) (\<lambda>ctx e.
     let ctx = (if side_mode_long e = DrainOnly \<and> oi_eff_long_q e = 0
                then ctx\<lparr> pending_reset_long := True \<rparr> else ctx);
         ctx = (if side_mode_short e = DrainOnly \<and> oi_eff_short_q e = 0
                then ctx\<lparr> pending_reset_short := True \<rparr> else ctx) in
     (Ok ctx, e))"

definition side_ready :: "side \<Rightarrow> engine \<Rightarrow> bool" where
  "side_ready s e =
     (get_side_mode s e = ResetPending \<and> get_oi_eff s e = 0 \<and> get_stale_count s e = 0
      \<and> get_stored_pos_count s e = 0)"

definition maybe_finalize_ready_reset_sides :: "engine \<Rightarrow> engine" where
  "maybe_finalize_ready_reset_sides e =
     (let e = (if side_ready Long e then set_side_mode Long Normal e else e) in
      if side_ready Short e then set_side_mode Short Normal e else e)"

definition finalize_end_of_instruction_resets :: "instruction_context \<Rightarrow> engine \<Rightarrow> unit step" where
  "finalize_end_of_instruction_resets ctx e =
     sthen (if pending_reset_long ctx \<and> side_mode_long e \<noteq> ResetPending
            then begin_full_drain_reset Long e else (Ok (), e)) (\<lambda>_ e.
     sthen (if pending_reset_short ctx \<and> side_mode_short e \<noteq> ResetPending
            then begin_full_drain_reset Short e else (Ok (), e)) (\<lambda>_ e.
     (Ok (), maybe_finalize_ready_reset_sides e)))"

section \<open>What deleveraging does\<close>

lemma side_ids [simp]:
  "set_oi_eff s (get_oi_eff s e) e = e" "set_k_side s (get_k_side s e) e = e"
  "set_insurance (ins_bal e) e = e"
  by (cases s; simp add: set_insurance_def)+

lemma set_insurance_same: "x = ins_bal e \<Longrightarrow> set_insurance x e = e"
  by simp

lemma adl_open_spec:
  assumes g: "good e" and d: "0 \<le> d"
  shows "okP (adl_open liq q d e) (\<lambda>rem e1.
     e1 = set_insurance (ins_bal e - (d - rem)) (set_oi_eff liq (get_oi_eff liq e - q) e)
     \<and> in_u128 (get_oi_eff liq e - q) \<and> 0 \<le> rem \<and> rem \<le> d
     \<and> d - rem = min d (max 0 (ins_bal e - insurance_floor (params e))))"
    (is "okP _ ?P")
proof -
  have oi: "in_u128 (get_oi_eff liq e)" by (rule market_ok_sides[OF good_D(3)[OF g]])
  have fl: "0 \<le> insurance_floor (params e)"
    using good_D(6)[OF g] by (simp add: params_typed_def in_u128_def)
  let ?e = "set_oi_eff liq (get_oi_eff liq e - q) e"
  have pe: "params ?e = params e" by (cases liq) simp_all
  have two: "okP (if d > 0 then (let (rem, e) = use_insurance_buffer d ?e in (Ok rem, e)) else (Ok 0, ?e)) ?P"
    if b: "in_u128 (get_oi_eff liq e - q)"
  proof (cases "d > 0")
    case True
    obtain rem e1 where u: "use_insurance_buffer d ?e = (rem, e1)" by fastforce
    show ?thesis
      using insurance_buffer_spec[OF u d] good_D(4)[OF g] fl b True by (simp add: u pe)
  next
    case False
    moreover have "set_insurance (ins_bal e) ?e = ?e" by (rule set_insurance_same) simp
    ultimately show ?thesis using d b by simp
  qed
  show ?thesis
    unfolding adl_open_def okP_sthen
  proof (cases "q = 0")
    case True
    then have E: "set_oi_eff liq (get_oi_eff liq e - q) e = e" by simp
    show "okP (if q \<noteq> 0 then sval (ok_or CorruptState (fit_u128 (get_oi_eff liq e - q))) e (\<lambda>new_oi.
            (Ok (), set_oi_eff liq new_oi e)) else (Ok (), e))
      (\<lambda>_ e. okP (if d > 0 then (let (rem, e) = use_insurance_buffer d e in (Ok rem, e)) else (Ok 0, e)) ?P)"
      using two oi unfolding E using True by simp
  next
    case False
    then show "okP (if q \<noteq> 0 then sval (ok_or CorruptState (fit_u128 (get_oi_eff liq e - q))) e (\<lambda>new_oi.
            (Ok (), set_oi_eff liq new_oi e)) else (Ok (), e))
      (\<lambda>_ e. okP (if d > 0 then (let (rem, e) = use_insurance_buffer d e in (Ok rem, e)) else (Ok 0, e)) ?P)"
      using two unfolding if_P[OF False] okP_sval okR_ok_or fit_Some okP_basic by blast
  qed
qed

text \<open>
  The quote deficit is charged to the opposing side rounding against it, and a charge always
  leaves room in \<open>i128\<close> for one more mark at the maximal price.
\<close>

lemma wide_ceil_value:
  assumes r: "wide_mul_div_ceil_u128_or_over_i128max a b d = Ok x"
  shows "a * b \<le> x * d" "0 < d" "x \<le> I128_MAX"
proof -
  have d: "0 < d" and m: "x \<le> I128_MAX" and x: "x = (if a * b mod d = 0 then a * b div d else a * b div d + 1)"
    using r by (auto simp: wide_mul_div_ceil_u128_or_over_i128max_def mul_div_ceil_u256_def
        mul_div_floor_u256_with_rem_def Ok_iffs Let_def split: option.splits if_splits)
  have e: "a * b = (a * b div d) * d + a * b mod d" by simp
  have m1: "a * b mod d < d" using d by simp
  define Q where "Q = a * b div d"
  have "(Q + 1) * d = Q * d + d" by (simp add: distrib_right)
  then show "a * b \<le> x * d"
    using e m1 unfolding x Q_def[symmetric] by (simp split: if_split)
  show "0 < d" "x \<le> I128_MAX" by fact+
qed

lemma adl_headroom_value:
  assumes "adl_headroom a k dk = Some k'"
  shows "k' = k + dk" "in_i128 k'" "a * MAX_ORACLE_PRICE + \<bar>k'\<bar> \<le> I128_MAX"
  using assms by (auto simp: adl_headroom_def fit_u256_def split: option.splits if_splits)

lemma adl_quote_spec:
  assumes d: "0 \<le> d_rem" and a: "0 \<le> a_old" and k: "in_i128 (get_k_side opp e)"
  shows "okP (adl_quote opp d_rem a_old oi e) (\<lambda>_ e1.
     e1 = set_k_side opp (get_k_side opp e1) e \<and> in_i128 (get_k_side opp e1)
     \<and> get_k_side opp e1 \<le> get_k_side opp e
     \<and> (get_k_side opp e1 = get_k_side opp e
        \<or> d_rem * (a_old * POS_SCALE) \<le> (get_k_side opp e - get_k_side opp e1) * oi
          \<and> a_old * MAX_ORACLE_PRICE + \<bar>get_k_side opp e1\<bar> \<le> I128_MAX))"
    (is "okP _ ?P")
proof (cases "d_rem = 0")
  case True
  then show ?thesis using k by (simp add: adl_quote_def)
next
  case False
  have same: "?P () e" using k by simp
  have new: "?P () (set_k_side opp k' e)"
    if r: "wide_mul_div_ceil_u128_or_over_i128max d_rem (a_old * POS_SCALE) oi = Ok x"
      and h: "adl_headroom a_old (get_k_side opp e) (- x) = Some k'" for x k'
  proof -
    note W = wide_ceil_value[OF r] and H = adl_headroom_value[OF h]
    have "0 \<le> d_rem * (a_old * POS_SCALE)" using d a by (simp add: bounds)
    then have "0 \<le> x * oi" using W(1) by linarith
    then have "0 \<le> x" using W(2) by (simp add: zero_le_mult_iff)
    then show ?thesis using W H by simp
  qed
  define P where "P = ?P"
  have same': "P () e" and new': "\<And>x k'. wide_mul_div_ceil_u128_or_over_i128max d_rem (a_old * POS_SCALE) oi = Ok x
      \<Longrightarrow> adl_headroom a_old (get_k_side opp e) (- x) = Some k' \<Longrightarrow> P () (set_k_side opp k' e)"
    using same new unfolding P_def by blast+
  have "okP (adl_quote opp d_rem a_old oi e) P"
    unfolding adl_quote_def okP_if okP_sval okR_ok_or fit_Some record_uninsured_protocol_loss_def
    using same' new' False
    by (auto split: res.splits over_i128_magnitude.splits option.splits)
  then show ?thesis by (simp only: P_def)
qed

text \<open>The reset flags are the only fields of the context a deleveraging or a schedule writes.\<close>

definition ctx_sim :: "instruction_context \<Rightarrow> instruction_context \<Rightarrow> bool" where
  "ctx_sim c c' =
     ((ctx_ok c \<longrightarrow> ctx_ok c' \<and> touched c' = touched c)
      \<and> admit_h_min_shared c' = admit_h_min_shared c \<and> admit_h_max_shared c' = admit_h_max_shared c)"

lemma ctx_sim_refl [simp]: "ctx_sim c c"
  by (simp add: ctx_sim_def)

lemma ctx_sim_trans: "ctx_sim c c1 \<Longrightarrow> ctx_sim c1 c2 \<Longrightarrow> ctx_sim c c2"
  by (auto simp: ctx_sim_def)

lemma ctx_rel_sim: "ctx_rel c c' \<Longrightarrow> ctx_sim c c'"
  by (simp add: ctx_rel_def ctx_sim_def)

lemma ctx_sim_pending [simp]:
  "ctx_sim c (set_pending_reset s c') = ctx_sim c c'"
  "ctx_sim c (c'\<lparr> pending_reset_long := x \<rparr>) = ctx_sim c c'"
  "ctx_sim c (c'\<lparr> pending_reset_short := x \<rparr>) = ctx_sim c c'"
  by (cases s; simp add: ctx_sim_def ctx_ok_def touched_def sticky_def)+

lemma inc_dust_outer:
  "okP (inc_phantom_dust_bound_by s x e) (\<lambda>_ e'. outer e e' \<and> mkt_fields e' = mkt_fields e \<and> ins_bal e' = ins_bal e)"
  by (cases s; simp add: okP_sval okR_ok_or mkt_fields_def)

lemma adl_dust_outer:
  "okP (adl_dust s a oi e) (\<lambda>_ e'. outer e e' \<and> mkt_fields e' = mkt_fields e \<and> ins_bal e' = ins_bal e)"
  unfolding adl_dust_def Let_def okP_sval by (rule okR_I) (rule inc_dust_outer)

lemma mkt_fields_reads:
  assumes "mkt_fields e' = mkt_fields e"
  shows "market_ok e' = market_ok e" "get_oi_eff s e' = get_oi_eff s e" "get_a_side s e' = get_a_side s e"
    "get_k_side s e' = get_k_side s e" "get_side_mode s e' = get_side_mode s e"
    "get_f_side s e' = get_f_side s e" "current_slot e' = current_slot e"
  using assms by (cases s; simp add: mkt_fields_def market_ok_def)+

definition shrunk :: "side \<Rightarrow> int \<Rightarrow> engine \<Rightarrow> engine \<Rightarrow> bool" where
  "shrunk liq q e e' =
     (let opp = opposite_side liq in
      outer e e' \<and> market_ok e' \<and> ins_bal e' = ins_bal e
      \<and> (\<forall>s. get_k_side s e' = get_k_side s e) \<and> get_a_side liq e' = get_a_side liq e
      \<and> get_a_side opp e' \<le> get_a_side opp e
      \<and> (get_a_side opp e' \<noteq> get_a_side opp e \<and> get_a_side opp e' < MIN_A_SIDE
           \<longrightarrow> get_side_mode opp e' = DrainOnly)
      \<and> (get_oi_eff liq e' = get_oi_eff liq e \<and> get_oi_eff opp e' = get_oi_eff opp e - q
         \<or> get_oi_eff liq e' = 0 \<and> get_oi_eff opp e' = 0))"

lemma adl_shrink_spec:
  assumes m: "market_ok e" and opp: "opp = opposite_side liq" and a: "a_old = get_a_side opp e"
    and oi: "oi = get_oi_eff opp e" "0 < oi" and q: "0 \<le> q" "in_u128 (oi - q)"
  shows "okP (adl_shrink ctx liq opp a_old oi (oi - q) e) (\<lambda>ctx' e'. ctx_sim ctx ctx' \<and> shrunk liq q e e')"
    (is "okP _ ?P")
proof -
  have z: "in_u128 0" by (simp add: in_u128_def bounds)
  have a0: "0 < a_old" "a_old \<le> ADL_ONE" using market_ok_sides[OF m, of opp] by (simp_all add: a)
  have drained: "shrunk liq q e (set_oi_eff liq 0 (set_oi_eff opp 0 e))"
    using outer_trans[of e "set_oi_eff opp 0 e"] market_ok_writes(1)[OF market_ok_writes(1)[OF m z] z]
    by (simp add: shrunk_def opp)
  have closed: "shrunk liq q e (set_oi_eff opp 0 e)" if "oi - q = 0"
    using market_ok_writes(1)[OF m z] that by (simp add: shrunk_def opp oi)
  have fin: "okP (sthen (if c then adl_dust opp a_old oi E else (Ok (), E)) (\<lambda>_ e.
            (Ok ctx, if a_new < MIN_A_SIDE then set_side_mode opp DrainOnly e else e))) ?P"
    if E: "E = set_oi_eff opp (oi - q) (set_a_side opp a_new e)"
      and new: "a_new = a_old * (oi - q) div oi" "a_new \<noteq> 0" for c E a_new
  proof -
    have p: "0 \<le> a_old * (oi - q)" using a0 q by (simp add: in_u128_def)
    have n0: "0 < a_new" using new p oi(2) by (simp add: order_less_le pos_imp_zdiv_nonneg_iff)
    have "a_old * (oi - q) \<le> a_old * oi" using a0 q by (intro mult_left_mono) auto
    then have "a_new \<le> a_old * oi div oi" unfolding new(1) using oi(2) by (intro zdiv_mono1) auto
    then have n1: "a_new \<le> a_old" using oi(2) by simp
    have mE: "market_ok E"
      unfolding E by (intro market_ok_writes m n0 q) (use n1 a0 in simp)
    have oE: "outer e E" unfolding E using outer_trans[of e "set_a_side opp a_new e"] by simp
    have rd: "get_oi_eff liq E = get_oi_eff liq e" "get_oi_eff opp E = oi - q"
      "get_a_side liq E = get_a_side liq e" "get_a_side opp E = a_new" "\<And>s. get_k_side s E = get_k_side s e"
      "ins_bal E = ins_bal e"
      by (simp_all add: E opp)
    have done1: "shrunk liq q e (if a_new < MIN_A_SIDE then set_side_mode opp DrainOnly e1 else e1)"
      if o: "outer E e1" "mkt_fields e1 = mkt_fields E" "ins_bal e1 = ins_bal E" for e1
    proof -
      note R = mkt_fields_reads[OF o(2)]
      have "outer e e1" "outer e (set_side_mode opp DrainOnly e1)"
        using oE o(1) outer_trans outer_upds(5) by blast+
      moreover have "market_ok e1" "market_ok (set_side_mode opp DrainOnly e1)"
        using mE R(1) market_ok_writes(4) by blast+
      ultimately show ?thesis
        using n1 by (simp add: shrunk_def opp[symmetric] R o(3) rd a[symmetric] oi(1)[symmetric])
    qed
    show ?thesis
      unfolding okP_sthen
    proof (cases c)
      case True
      show "okP (if c then adl_dust opp a_old oi E else (Ok (), E))
        (\<lambda>_ e. okP (Ok ctx, if a_new < MIN_A_SIDE then set_side_mode opp DrainOnly e else e) ?P)"
        unfolding if_P[OF True] okP_basic
        by (rule okP_mono[OF adl_dust_outer]) (use done1 in simp)
    next
      case False
      show "okP (if c then adl_dust opp a_old oi E else (Ok (), E))
        (\<lambda>_ e. okP (Ok ctx, if a_new < MIN_A_SIDE then set_side_mode opp DrainOnly e else e) ?P)"
        unfolding if_not_P[OF False] okP_basic using done1[of E] by simp
    qed
  qed
  define P where "P = ?P"
  have end1: "P (if b then set_pending_reset liq (set_pending_reset opp ctx) else set_pending_reset opp ctx)
        (set_oi_eff opp 0 e)" if "oi - q = 0" for b
    using closed[OF that] by (simp add: P_def)
  have end2: "P (set_pending_reset liq (set_pending_reset opp ctx)) (set_oi_eff liq 0 (set_oi_eff opp 0 e))"
    using drained by (simp add: P_def)
  have "okP (adl_shrink ctx liq opp a_old oi (oi - q) e) P"
  proof (cases "oi - q = 0")
    case True
    show ?thesis
      unfolding adl_shrink_def if_P[OF True] Let_def okP_basic by (rule end1[OF True])
  next
    case False
    show ?thesis
      unfolding adl_shrink_def if_not_P[OF False] Let_def okP_sval mul_div_floor_u256_with_rem_def
        okR_rthen okR_assertion okR_expect okR_basic prod.case okP_if okP_basic okR_ok_or
      using end2 fin[folded P_def] by (auto simp: fit_u256_def split: if_splits)
  qed
  then show ?thesis by (simp only: P_def)
qed

definition adl_post :: "side \<Rightarrow> int \<Rightarrow> int \<Rightarrow> engine \<Rightarrow> engine \<Rightarrow> bool" where
  "adl_post liq q d e e' =
     (let opp = opposite_side liq in
      outer e e' \<and> market_ok e'
      \<and> (get_oi_eff liq e' = get_oi_eff liq e - q
           \<and> get_oi_eff opp e' = (if get_oi_eff opp e = 0 then 0 else get_oi_eff opp e - q)
         \<or> get_oi_eff liq e' = 0 \<and> get_oi_eff opp e' = 0)
      \<and> get_a_side liq e' = get_a_side liq e \<and> get_a_side opp e' \<le> get_a_side opp e
      \<and> (get_a_side opp e' \<noteq> get_a_side opp e \<and> get_a_side opp e' < MIN_A_SIDE
           \<longrightarrow> get_side_mode opp e' = DrainOnly)
      \<and> get_k_side liq e' = get_k_side liq e \<and> get_k_side opp e' \<le> get_k_side opp e
      \<and> (get_k_side opp e' \<noteq> get_k_side opp e
           \<longrightarrow> get_a_side opp e * MAX_ORACLE_PRICE + \<bar>get_k_side opp e'\<bar> \<le> I128_MAX)
      \<and> ins_bal e' = ins_bal e - min d (max 0 (ins_bal e - insurance_floor (params e))))"

theorem enqueue_adl_spec:
  assumes g: "good e" and d: "0 \<le> d" and q: "0 \<le> q"
  shows "okP (enqueue_adl ctx liq q d e) (\<lambda>ctx' e'. ctx_sim ctx ctx' \<and> adl_post liq q d e e')"
    (is "okP _ ?P")
proof -
  define opp where "opp = opposite_side liq"
  define P where "P = ?P"
  have m: "market_ok e" by (rule good_D(3)[OF g])
  have ol: "liq = opposite_side opp" by (simp add: opp_def)
  have post: "okP (let oi = get_oi_eff opp e1 in
      if oi = 0 then
        let e = (if rem > 0 then record_uninsured_protocol_loss rem e1 else e1) in
        (Ok (if get_oi_eff liq e = 0
             then set_pending_reset opp (set_pending_reset liq ctx) else ctx), e)
      else if get_stored_pos_count opp e1 = 0 then
        if q > oi then (Err CorruptState, e1)
        else
          sval (ok_or Overflow (fit_u128 (oi - q))) e1 (\<lambda>oi_post.
          let e = (if rem > 0 then record_uninsured_protocol_loss rem e1 else e1);
              e = set_oi_eff opp oi_post e in
          (Ok (if oi_post = 0 then
                 let ctx = set_pending_reset opp ctx in
                 if get_oi_eff liq e = 0 then set_pending_reset liq ctx else ctx
               else ctx), e))
      else if q > oi then (Err CorruptState, e1)
      else
        let a_old = get_a_side opp e1 in
        sval (ok_or Overflow (fit_u128 (oi - q))) e1 (\<lambda>oi_post.
        sthen (adl_quote opp rem a_old oi e1) (\<lambda>_ e.
          adl_shrink ctx liq opp a_old oi oi_post e))) P"
    if e1: "e1 = set_insurance (ins_bal e - (d - rem)) (set_oi_eff liq (get_oi_eff liq e - q) e)"
      and b: "in_u128 (get_oi_eff liq e - q)" "0 \<le> rem" "rem \<le> d"
        "d - rem = min d (max 0 (ins_bal e - insurance_floor (params e)))" for rem e1
  proof -
    have o1: "outer e e1" unfolding e1 using outer_trans[of e "set_oi_eff liq (get_oi_eff liq e - q) e"] by simp
    have m1: "market_ok e1" unfolding e1 by (intro market_ok_writes m b)
    have R: "get_oi_eff liq e1 = get_oi_eff liq e - q" "get_oi_eff opp e1 = get_oi_eff opp e"
      "\<And>s. get_a_side s e1 = get_a_side s e" "\<And>s. get_k_side s e1 = get_k_side s e"
      "\<And>s. get_side_mode s e1 = get_side_mode s e"
      "ins_bal e1 = ins_bal e - min d (max 0 (ins_bal e - insurance_floor (params e)))"
      using b(4) by (simp_all add: e1 opp_def)
    have c1: "P c' e1" if "ctx_sim ctx c'" "get_oi_eff opp e1 = 0" for c'
      unfolding P_def using that o1 m1 by (simp add: adl_post_def opp_def[symmetric] R)
    have c2: "P c' (set_oi_eff opp (get_oi_eff opp e1 - q) e1)"
      if "ctx_sim ctx c'" "get_oi_eff opp e1 \<noteq> 0" "in_u128 (get_oi_eff opp e1 - q)" for c'
    proof -
      have "outer e (set_oi_eff opp (get_oi_eff opp e1 - q) e1)" "market_ok (set_oi_eff opp (get_oi_eff opp e1 - q) e1)"
        using o1 outer_trans outer_upds(4) market_ok_writes(1)[OF m1] that by blast+
      then show ?thesis
        unfolding P_def using that R by (simp add: adl_post_def opp_def)
    qed
    have c3: "okP (sthen (adl_quote opp rem (get_a_side opp e1) (get_oi_eff opp e1) e1) (\<lambda>_ e.
          adl_shrink ctx liq opp (get_a_side opp e1) (get_oi_eff opp e1) (get_oi_eff opp e1 - q) e)) P"
      if nz: "get_oi_eff opp e1 \<noteq> 0" and f: "in_u128 (get_oi_eff opp e1 - q)"
      unfolding okP_sthen
    proof (rule okP_mono[OF adl_quote_spec[OF b(2)]])
      show "0 \<le> get_a_side opp e1" using market_ok_sides(1)[OF m1, of opp] by simp
      show "in_i128 (get_k_side opp e1)" using market_ok_sides(3)[OF m1] .
      fix u e2
      define k where "k = get_k_side opp e2"
      assume "e2 = set_k_side opp (get_k_side opp e2) e1 \<and> in_i128 (get_k_side opp e2)
        \<and> get_k_side opp e2 \<le> get_k_side opp e1
        \<and> (get_k_side opp e2 = get_k_side opp e1
           \<or> rem * (get_a_side opp e1 * POS_SCALE) \<le> (get_k_side opp e1 - get_k_side opp e2) * get_oi_eff opp e1
             \<and> get_a_side opp e1 * MAX_ORACLE_PRICE + \<bar>get_k_side opp e2\<bar> \<le> I128_MAX)"
      then have e2: "e2 = set_k_side opp k e1" and k: "in_i128 k" "k \<le> get_k_side opp e1"
        "k \<noteq> get_k_side opp e1 \<longrightarrow> get_a_side opp e1 * MAX_ORACLE_PRICE + \<bar>k\<bar> \<le> I128_MAX"
        unfolding k_def[symmetric] by blast+
      have o2: "outer e e2" unfolding e2 using o1 outer_trans outer_upds(7) by blast
      have m2: "market_ok e2" unfolding e2 by (rule market_ok_writes(3)[OF m1 k(1)])
      have R2: "get_oi_eff s e2 = get_oi_eff s e1" "get_a_side s e2 = get_a_side s e1"
        "get_side_mode s e2 = get_side_mode s e1" "ins_bal e2 = ins_bal e1" "get_k_side opp e2 = k"
        "get_k_side liq e2 = get_k_side liq e1" for s
        by (simp_all add: e2 ol)
      have p: "0 < get_oi_eff opp e1"
        using nz market_ok_sides(5)[OF m1, of opp] by (simp add: in_u128_def)
      show "okP (adl_shrink ctx liq opp (get_a_side opp e1) (get_oi_eff opp e1) (get_oi_eff opp e1 - q) e2) P"
      proof (rule okP_mono[OF adl_shrink_spec[OF m2 opp_def _ _ p q f]])
        show "get_a_side opp e1 = get_a_side opp e2" "get_oi_eff opp e1 = get_oi_eff opp e2"
          by (simp_all add: R2)
        fix c' e3 assume A: "ctx_sim ctx c' \<and> shrunk liq q e2 e3"
        have "outer e e3" using A o2 outer_trans unfolding shrunk_def Let_def by blast
        then show "P c' e3"
          unfolding P_def
          using A k R R2 nz unfolding shrunk_def adl_post_def Let_def opp_def[symmetric] by simp
      qed
    qed
    show ?thesis
      unfolding Let_def okP_if okP_sval okR_ok_or fit_Some okP_basic record_uninsured_protocol_loss_def
      using c1 c2 c3 by simp
  qed
  have "okP (enqueue_adl ctx liq q d e) P"
    unfolding enqueue_adl_def opp_def[symmetric]
    unfolding Let_def[of opp] okP_sthen
    by (rule okP_mono[OF adl_open_spec[OF g d]]) (elim conjE, rule post)
  then show ?thesis by (simp only: P_def)
qed

text \<open>Deleveraging keeps the two sides balanced.\<close>

lemma adl_balanced:
  assumes "adl_post liq q d e e'" "get_oi_eff Long e = get_oi_eff Short e" "0 \<le> q" "market_ok e"
  shows "get_oi_eff Long e' = get_oi_eff Short e'"
proof -
  have "in_u128 (get_oi_eff liq e')" "market_ok e'"
    using assms(1) market_ok_sides(5)[of e'] by (simp_all add: adl_post_def Let_def)
  then show ?thesis
    using assms by (cases liq) (auto simp: adl_post_def Let_def in_u128_def split: if_splits)
qed

lemma adl_stage:
  assumes "adl_post liq q d e e'" "good e" "0 \<le> d"
  shows "stage S e e'"
  using assms good_D(4,6)[OF assms(2)]
  by - (rule outer_stage, auto simp: adl_post_def Let_def in_u128_def params_typed_def)

section \<open>What the resets do\<close>

definition balanced :: "engine \<Rightarrow> bool" where
  "balanced e = (oi_eff_long_q e = oi_eff_short_q e)"

lemma balanced_sides: "balanced e = (get_oi_eff Long e = get_oi_eff Short e)"
  by (simp add: balanced_def)

lemma clear_dust_spec:
  assumes g: "good e"
  shows "okP (clear_dust r w ctx e) (\<lambda>ctx' e'. ctx_sim ctx ctx' \<and> stage {} e e' \<and> (balanced e \<longrightarrow> balanced e')
     \<and> (r \<longrightarrow> w \<and> balanced e \<and> oi_eff_long_q e' = 0 \<and> oi_eff_short_q e' = 0) \<and> (\<not> r \<longrightarrow> e' = e))"
proof -
  let ?e = "e\<lparr> oi_eff_long_q := 0, oi_eff_short_q := 0 \<rparr>"
  have "market_ok ?e" using good_D(3)[OF g] by (simp add: market_ok_def in_u128_def bounds)
  moreover have "outer e ?e" by (simp add: outer_def slab_fields_def)
  ultimately have "stage {} e ?e" using outer_stage[OF _ g, of ?e] good_D(4)[OF g] by (simp add: in_u128_def)
  then show ?thesis
    using stage_refl[OF g] by (simp add: clear_dust_def balanced_def)
qed

theorem schedule_spec:
  assumes g: "good e"
  shows "okP (schedule_end_of_instruction_resets ctx e)
     (\<lambda>ctx' e'. ctx_sim ctx ctx' \<and> stage {} e e' \<and> (balanced e \<longrightarrow> balanced e'))"
proof -
  let ?P = "\<lambda>ctx' e'. ctx_sim ctx ctx' \<and> stage {} e e' \<and> (balanced e \<longrightarrow> balanced e')"
  have c: "okP (clear_dust r w ctx e) ?P" for r w
    by (rule okP_mono[OF clear_dust_spec[OF g]]) blast
  have n: "okP (Ok ctx, e) ?P" using stage_refl[OF g] by simp
  have m: "okP (if stored_pos_count_long e = 0 \<and> stored_pos_count_short e = 0 then
          sval (ok_or CorruptState
                 (fit_u128 (phantom_dust_bound_long_q e + phantom_dust_bound_short_q e))) e (f e)
        else if b1 then clear_dust r1 w1 ctx e else if b2 then clear_dust r2 w2 ctx e else (Ok ctx, e)) ?P"
    if "\<And>x. okP (f e x) ?P" for f b1 b2 r1 r2 w1 w2
    unfolding okP_if okP_sval okR_ok_or using c n that by blast
  show ?thesis
    unfolding schedule_end_of_instruction_resets_def okP_sthen
    by (rule okP_mono[OF m]) (use c in \<open>simp_all add: Let_def\<close>)
qed

definition reset_effect :: "side \<Rightarrow> engine \<Rightarrow> engine" where
  "reset_effect s e =
     (case s of
        Long \<Rightarrow> e\<lparr> adl_epoch_start_k_long := adl_coeff_long e, f_epoch_start_long_num := f_long_num e,
                   adl_coeff_long := 0, f_long_num := 0, adl_epoch_long := adl_epoch_long e + 1,
                   adl_mult_long := ADL_ONE, stale_account_count_long := stored_pos_count_long e,
                   phantom_dust_bound_long_q := 0, side_mode_long := ResetPending \<rparr>
      | Short \<Rightarrow> e\<lparr> adl_epoch_start_k_short := adl_coeff_short e, f_epoch_start_short_num := f_short_num e,
                   adl_coeff_short := 0, f_short_num := 0, adl_epoch_short := adl_epoch_short e + 1,
                   adl_mult_short := ADL_ONE, stale_account_count_short := stored_pos_count_short e,
                   phantom_dust_bound_short_q := 0, side_mode_short := ResetPending \<rparr>)"

lemma begin_reset_spec:
  "okP (begin_full_drain_reset s e) (\<lambda>_ e'. e' = reset_effect s e \<and> get_oi_eff s e = 0
     \<and> in_u64 (get_epoch_side s e + 1))"
  by (cases s)
    (simp_all add: begin_full_drain_reset_def Let_def okP_sthen okP_sval okR_ok_or reset_effect_def)

lemma reset_effect_stage:
  assumes g: "good e"
  shows "stage {} e (reset_effect s e)" "balanced (reset_effect s e) = balanced e"
    "get_oi_eff t (reset_effect s e) = get_oi_eff t e"
proof -
  have "market_ok (reset_effect s e)"
    using good_D(3)[OF g] by (cases s) (simp_all add: market_ok_def reset_effect_def in_i128_def bounds)
  moreover have "outer e (reset_effect s e)" "ins_bal (reset_effect s e) = ins_bal e"
    by (cases s; simp add: reset_effect_def outer_def slab_fields_def)+
  ultimately show "stage {} e (reset_effect s e)"
    using outer_stage[OF _ g] good_D(4)[OF g] by (simp add: in_u128_def)
  show "balanced (reset_effect s e) = balanced e" "get_oi_eff t (reset_effect s e) = get_oi_eff t e"
    by (cases s; cases t; simp add: reset_effect_def balanced_def)+
qed

lemma maybe_finalize_stage:
  assumes g: "good e"
  shows "stage {} e (maybe_finalize_ready_reset_sides e)"
    "balanced (maybe_finalize_ready_reset_sides e) = balanced e"
proof -
  have "market_ok (set_side_mode s m e)" "outer e (set_side_mode s m e)" "ins_bal (set_side_mode s m e) = ins_bal e"
    if "market_ok e" for s m e using market_ok_writes(4)[OF that] by simp_all
  then have st: "stage {} e (set_side_mode s m e)" if "good e" for s m e
    using outer_stage[OF _ that] good_D(3,4)[OF that] by (simp add: in_u128_def)
  have one: "stage {} e (if side_ready s e then set_side_mode s Normal e else e)" if "good e" for s e
    using st[OF that] stage_refl[OF that] by simp
  have "stage {} e (maybe_finalize_ready_reset_sides e)"
    unfolding maybe_finalize_ready_reset_sides_def Let_def
    by (rule stage_trans[OF one[OF g] one[OF stage_D(1)[OF one[OF g]]]])
  then show "stage {} e (maybe_finalize_ready_reset_sides e)" .
  show "balanced (maybe_finalize_ready_reset_sides e) = balanced e"
    by (simp add: maybe_finalize_ready_reset_sides_def Let_def balanced_def)
qed

theorem finalize_resets_spec:
  assumes g: "good e"
  shows "okP (finalize_end_of_instruction_resets ctx e)
     (\<lambda>_ e'. stage {} e e' \<and> (balanced e \<longrightarrow> balanced e'))"
proof -
  have step: "okP (if c then begin_full_drain_reset s e else (Ok (), e))
     (\<lambda>_ e'. stage {} e e' \<and> (balanced e \<longrightarrow> balanced e'))" if "good e" for c s e
    using begin_reset_spec[of s e] reset_effect_stage[OF that] stage_refl[OF that]
    by (auto elim!: okP_mono)
  show ?thesis
    unfolding finalize_end_of_instruction_resets_def okP_sthen okP_basic
  proof (rule okP_mono[OF step[OF g]])
    fix u e1 assume A: "stage {} e e1 \<and> (balanced e \<longrightarrow> balanced e1)"
    have g1: "good e1" using A stage_D(1) by blast
    show "okP (if pending_reset_short ctx \<and> side_mode_short e1 \<noteq> ResetPending
            then begin_full_drain_reset Short e1 else (Ok (), e1))
       (\<lambda>_ e2. stage {} e (maybe_finalize_ready_reset_sides e2)
          \<and> (balanced e \<longrightarrow> balanced (maybe_finalize_ready_reset_sides e2)))"
    proof (rule okP_mono[OF step[OF g1]])
      fix v e2 assume B: "stage {} e1 e2 \<and> (balanced e1 \<longrightarrow> balanced e2)"
      have g2: "good e2" using B stage_D(1) by blast
      show "stage {} e (maybe_finalize_ready_reset_sides e2)
          \<and> (balanced e \<longrightarrow> balanced (maybe_finalize_ready_reset_sides e2))"
        using A B maybe_finalize_stage[OF g2] stage_trans by meson
    qed
  qed
qed

end
