(* ===== verification/Equity.thy ===== *)
theory Equity
  imports Adl
begin

text \<open>
  The haircut, the equity lanes and the margin tests of \<open>src/src/percolator.rs\<close>, and the
  conservation checks: \<open>haircut_ratio\<close>, \<open>effective_matured_pnl\<close>, the \<open>account_equity\<close> family,
  \<open>notional\<close>, the margin predicates, \<open>check_conservation\<close>, \<open>assert_public_postconditions\<close> and
  \<open>sweep_empty_market_surplus_to_insurance\<close>.
\<close>

section \<open>Haircut\<close>

definition haircut_ratio :: "engine \<Rightarrow> int \<times> int" where
  "haircut_ratio e =
     (if pnl_matured_pos_tot e = 0 then (1, 1)
      else
        let residual = (case fit_u128 (c_tot e + ins_bal e) of
                          Some ss \<Rightarrow> (if vault e \<ge> ss then vault e - ss else 0)
                        | None \<Rightarrow> 0);
            h_num = (if residual < pnl_matured_pos_tot e then residual else pnl_matured_pos_tot e)
        in (h_num, pnl_matured_pos_tot e))"

definition released_pos :: "nat \<Rightarrow> engine \<Rightarrow> int outcome" where
  "released_pos idx e =
     acct e idx (\<lambda>a. Ok (sat_u128 (i128_clamp_pos (pnl a) - reserved_pnl a)))"

definition effective_matured_pnl :: "nat \<Rightarrow> engine \<Rightarrow> int outcome" where
  "effective_matured_pnl idx e =
     rthen (released_pos idx e) (\<lambda>released.
     if released = 0 then Ok 0
     else
       let (h_num, h_den) = haircut_ratio e in
       if h_den = 0 then Ok released else wide_mul_div_floor_u128 released h_num h_den)"

section \<open>Equity\<close>

definition account_equity_maint_raw_wide :: "account \<Rightarrow> int outcome" where
  "account_equity_maint_raw_wide a =
     (let fee_debt = fee_debt_u128_checked (fee_credits a) in
      rthen (expect (fit_i256 (capital a + pnl a))) (\<lambda>sum.
      expect (fit_i256 (sum - fee_debt))))"

text \<open>An exact 256-bit equity projected to \<open>i128\<close>; anything that does not fit fails the gates.\<close>

definition project_i128 :: "int \<Rightarrow> int" where
  "project_i128 wide = (case fit_i128 wide of Some v \<Rightarrow> v | None \<Rightarrow> I128_MIN + 1)"

definition account_equity_maint_raw :: "account \<Rightarrow> int outcome" where
  "account_equity_maint_raw a =
     rthen (account_equity_maint_raw_wide a) (\<lambda>wide. Ok (project_i128 wide))"

definition account_equity_net :: "account \<Rightarrow> int outcome" where
  "account_equity_net a =
     rthen (account_equity_maint_raw a) (\<lambda>raw. Ok (if raw < 0 then 0 else raw))"

definition account_equity_init_raw :: "account \<Rightarrow> nat \<Rightarrow> engine \<Rightarrow> int outcome" where
  "account_equity_init_raw a idx e =
     (let neg_pnl = (if pnl a < 0 then pnl a else 0) in
      rthen (effective_matured_pnl idx e) (\<lambda>eff_matured.
      let fee_debt = fee_debt_u128_checked (fee_credits a) in
      rthen (expect (fit_i256 (capital a + neg_pnl))) (\<lambda>s1.
      rthen (expect (fit_i256 (s1 + eff_matured))) (\<lambda>s2.
      rthen (expect (fit_i256 (s2 - fee_debt))) (\<lambda>sum. Ok (project_i128 sum))))))"

definition account_equity_init_net :: "account \<Rightarrow> nat \<Rightarrow> engine \<Rightarrow> int outcome" where
  "account_equity_init_net a idx e =
     rthen (account_equity_init_raw a idx e) (\<lambda>raw. Ok (if raw < 0 then 0 else raw))"

definition account_equity_withdraw_raw :: "account \<Rightarrow> nat \<Rightarrow> engine \<Rightarrow> int outcome" where
  "account_equity_withdraw_raw a idx e =
     (let neg_pnl = (if pnl a < 0 then pnl a else 0) in
      rthen (effective_matured_pnl idx e) (\<lambda>eff_matured.
      let fee_debt = fee_debt_u128_checked (fee_credits a) in
      rthen (expect (fit_i256 (capital a + neg_pnl))) (\<lambda>s1.
      rthen (expect (fit_i256 (s1 + eff_matured))) (\<lambda>s2.
      rthen (expect (fit_i256 (s2 - fee_debt))) (\<lambda>sum. Ok (project_i128 sum))))))"

definition max_safe_flat_conversion_released ::
  "nat \<Rightarrow> int \<Rightarrow> int \<Rightarrow> int \<Rightarrow> engine \<Rightarrow> int outcome"
where
  "max_safe_flat_conversion_released idx x_cap h_num h_den e =
     (if x_cap = 0 then Ok 0
      else
        acct e idx (\<lambda>a.
        rthen (account_equity_maint_raw a) (\<lambda>e_before.
        if e_before \<le> 0 then Ok 0
        else if h_den = 0 \<or> h_num = h_den then Ok x_cap
        else
          rthen (expect (fit_u128 (h_den - h_num))) (\<lambda>haircut_loss_num.
          rthen (wide_mul_div_floor_u128 e_before h_den haircut_loss_num) (\<lambda>safe.
          Ok (min x_cap safe))))))"

definition account_equity_trade_open_raw :: "account \<Rightarrow> int \<Rightarrow> engine \<Rightarrow> int outcome" where
  "account_equity_trade_open_raw a candidate_trade_pnl e =
     (let trade_gain = (if candidate_trade_pnl > 0 then candidate_trade_pnl else 0);
          pos_pnl = i128_clamp_pos (pnl a);
          pos_pnl_trade_open = sat_u128 (pos_pnl - trade_gain);
          pnl_trade_open = (case fit_i128 (pnl a - trade_gain) of Some v \<Rightarrow> v | None \<Rightarrow> I128_MIN + 1) in
      case fit_u128 (pnl_pos_tot e - pos_pnl) of
        None \<Rightarrow> Ok (I128_MIN + 1)
      | Some v \<Rightarrow>
      case fit_u128 (v + pos_pnl_trade_open) of
        None \<Rightarrow> Ok (I128_MIN + 1)
      | Some pnl_pos_tot_trade_open \<Rightarrow>
          rthen
            (if pnl_pos_tot_trade_open = 0 then Ok pos_pnl_trade_open
             else
               let senior_sum = (case fit_u128 (c_tot e + ins_bal e) of Some s \<Rightarrow> s | None \<Rightarrow> U128_MAX);
                   residual = (if vault e \<ge> senior_sum then vault e - senior_sum else 0);
                   g_num = min residual pnl_pos_tot_trade_open in
               mul_div_floor_u128 pos_pnl_trade_open g_num pnl_pos_tot_trade_open)
            (\<lambda>pnl_eff_trade_open.
          let neg_pnl = (if pnl_trade_open < 0 then pnl_trade_open else 0);
              fee_debt = fee_debt_u128_checked (fee_credits a) in
          rthen (expect (fit_i256 (capital a + neg_pnl))) (\<lambda>s1.
          rthen (expect (fit_i256 (s1 + pnl_eff_trade_open))) (\<lambda>s2.
          rthen (expect (fit_i256 (s2 - fee_debt))) (\<lambda>result. Ok (project_i128 result))))))"

section \<open>Margin\<close>

definition notional :: "nat \<Rightarrow> int \<Rightarrow> engine \<Rightarrow> int outcome" where
  "notional idx oracle_price e =
     rthen (effective_pos_q idx e) (\<lambda>eff.
     if eff = 0 then Ok 0 else mul_div_floor_u128 \<bar>eff\<bar> oracle_price POS_SCALE)"

definition clamp_i128 :: "int \<Rightarrow> int" where
  "clamp_i128 req = (if req > I128_MAX then I128_MAX else req)"

definition is_above_maintenance_margin :: "account \<Rightarrow> nat \<Rightarrow> int \<Rightarrow> engine \<Rightarrow> bool outcome" where
  "is_above_maintenance_margin a idx oracle_price e =
     rthen (account_equity_net a) (\<lambda>eq_net.
     rthen (effective_pos_q idx e) (\<lambda>eff.
     if eff = 0 then Ok (eq_net > 0)
     else
       rthen (notional idx oracle_price e) (\<lambda>nt.
       rthen (mul_div_floor_u128 nt (maintenance_margin_bps (params e)) 10000) (\<lambda>proportional.
       let mm_req = max proportional (min_nonzero_mm_req (params e)) in
       Ok (eq_net > clamp_i128 mm_req)))))"

definition is_above_initial_margin :: "account \<Rightarrow> nat \<Rightarrow> int \<Rightarrow> engine \<Rightarrow> bool outcome" where
  "is_above_initial_margin a idx oracle_price e =
     rthen (account_equity_init_raw a idx e) (\<lambda>eq_init_raw.
     rthen (effective_pos_q idx e) (\<lambda>eff.
     if eff = 0 then Ok (eq_init_raw \<ge> 0)
     else
       rthen (notional idx oracle_price e) (\<lambda>nt.
       rthen (mul_div_floor_u128 nt (initial_margin_bps (params e)) 10000) (\<lambda>proportional.
       let im_req = max proportional (min_nonzero_im_req (params e)) in
       Ok (eq_init_raw \<ge> clamp_i128 im_req)))))"

definition is_above_initial_margin_trade_open ::
  "account \<Rightarrow> nat \<Rightarrow> int \<Rightarrow> int \<Rightarrow> engine \<Rightarrow> bool outcome"
where
  "is_above_initial_margin_trade_open a idx oracle_price candidate_trade_pnl e =
     rthen (account_equity_trade_open_raw a candidate_trade_pnl e) (\<lambda>eq.
     rthen (effective_pos_q idx e) (\<lambda>eff.
     if eff = 0 then Ok (eq \<ge> 0)
     else
       rthen (notional idx oracle_price e) (\<lambda>nt.
       rthen (mul_div_floor_u128 nt (initial_margin_bps (params e)) 10000) (\<lambda>proportional.
       let im_req = max proportional (min_nonzero_im_req (params e)) in
       Ok (eq \<ge> clamp_i128 im_req)))))"

section \<open>Conservation\<close>

definition check_conservation :: "engine \<Rightarrow> bool" where
  "check_conservation e =
     (case fit_u128 (c_tot e + ins_bal e) of Some s \<Rightarrow> vault e \<ge> s | None \<Rightarrow> False)"

definition assert_public_postconditions :: "engine \<Rightarrow> unit outcome" where
  "assert_public_postconditions e =
     (if \<not> check_conservation e then Err CorruptState
      else if oi_eff_long_q e \<noteq> oi_eff_short_q e then Err CorruptState
      else Ok ())"

definition sweep_empty_market_surplus_to_insurance :: "engine \<Rightarrow> unit step" where
  "sweep_empty_market_surplus_to_insurance e =
     (if num_used_accounts e \<noteq> 0 then (Ok (), e)
      else if c_tot e \<noteq> 0 \<or> pnl_pos_tot e \<noteq> 0 \<or> pnl_matured_pos_tot e \<noteq> 0
              \<or> oi_eff_long_q e \<noteq> 0 \<or> oi_eff_short_q e \<noteq> 0 then (Ok (), e)
      else
        let v = vault e; i = ins_bal e in
        if v < i then (Err CorruptState, e)
        else
          let surplus = v - i in
          if surplus \<noteq> 0 then
            sval (ok_or Overflow (fit_u128 (i + surplus))) e (\<lambda>b. (Ok (), set_insurance b e))
          else (Ok (), e))"

lemma postconditions_okR: "okR (assert_public_postconditions e) (\<lambda>_. solvent e \<and> balanced e)"
  by (auto simp: assert_public_postconditions_def check_conservation_def solvent_def balanced_def
      split: option.splits)

section \<open>The haircut is fair\<close>

text \<open>
  No set of accounts can claim more than the vault holds beyond capital and insurance: the
  haircutted claims of all accounts together fit in the residual.
\<close>

definition residual :: "engine \<Rightarrow> int" where
  "residual e = max 0 (vault e - c_tot e - ins_bal e)"

definition claim :: "int \<times> int \<Rightarrow> account \<Rightarrow> int" where
  "claim h a = (if matp a = 0 \<or> snd h = 0 then matp a else matp a * fst h div snd h)"

lemma acct_matp:
  assumes "acct_ok p a"
  shows "0 \<le> matp a" "matp a \<le> I128_MAX" "0 \<le> posp a" "matp a \<le> posp a"
proof -
  have r: "reserve_ok p a" using assms by (simp add: acct_ok_def)
  then have "0 \<le> reserved_pnl a" "reserved_pnl a \<le> max 0 (pnl a)"
    using bucket_reads(5) by (auto simp: reserve_ok_def)
  then show "0 \<le> matp a" "matp a \<le> I128_MAX" "0 \<le> posp a" "matp a \<le> posp a"
    using assms by (auto simp: matp_def posp_def acct_ok_def in_i128_def bounds)
qed

lemma haircut_bounds:
  assumes a: "accts_ok e" and g: "agg e" and v: "0 \<le> ins_bal e"
  shows "0 \<le> fst (haircut_ratio e)" "fst (haircut_ratio e) \<le> snd (haircut_ratio e)"
    "0 < snd (haircut_ratio e)"
proof -
  have "\<And>x. x \<in> set (accounts e) \<Longrightarrow> 0 \<le> matp x \<and> 0 \<le> posp x"
    using a acct_matp by (auto simp: accts_ok_def)
  then have m: "0 \<le> pnl_matured_pos_tot e"
    using g tot_nonneg[of "accounts e" matp] tot_nonneg[of "accounts e" posp] by (simp add: agg_def)
  then show "0 \<le> fst (haircut_ratio e)" "fst (haircut_ratio e) \<le> snd (haircut_ratio e)"
    "0 < snd (haircut_ratio e)"
    by (auto simp: haircut_ratio_def Let_def split: option.splits)
qed

text \<open>The effective matured PnL of a slot never panics; it is the haircutted claim.\<close>

lemma effective_claim:
  assumes inv: "pnl_inv e" and i: "i < MAX_ACCOUNTS e" and v: "0 \<le> ins_bal e"
  shows "effective_matured_pnl i e = Ok (claim (haircut_ratio e) (accounts e ! i))"
    "0 \<le> claim (haircut_ratio e) (accounts e ! i)"
    "claim (haircut_ratio e) (accounts e ! i) \<le> matp (accounts e ! i)"
proof -
  have a: "accts_ok e" "agg e" using inv by (simp_all add: pnl_inv_def)
  have m: "acct_ok (params e) (accounts e ! i)" by (rule accts_ok_nth[OF a(1) i])
  note M = acct_matp[OF m]
  have s: "sat_u128 (i128_clamp_pos (pnl (accounts e ! i)) - reserved_pnl (accounts e ! i)) = matp (accounts e ! i)"
    using M by (simp add: matp_def i128_clamp_pos_max sat_u128_def bounds)
  obtain n d where h: "haircut_ratio e = (n, d)" by fastforce
  have H: "0 \<le> n" "n \<le> d" "0 < d" using haircut_bounds[OF a v] by (simp_all add: h)
  have c: "claim (n, d) (accounts e ! i) = matp (accounts e ! i) * n div d"
    using H by (simp add: claim_def)
  have "matp (accounts e ! i) * n div d \<le> matp (accounts e ! i) * d div d"
    using H M by (intro zdiv_mono1 mult_left_mono) auto
  then have le: "matp (accounts e ! i) * n div d \<le> matp (accounts e ! i)" using H by simp
  have ge: "0 \<le> matp (accounts e ! i) * n div d" using H M by (simp add: pos_imp_zdiv_nonneg_iff)
  show "0 \<le> claim (haircut_ratio e) (accounts e ! i)"
    "claim (haircut_ratio e) (accounts e ! i) \<le> matp (accounts e ! i)"
    using le ge by (simp_all add: h c)
  have "in_u256 (matp (accounts e ! i) * n div d)" "in_u128 (matp (accounts e ! i) * n div d)"
    using le ge M by (simp_all add: in_u256_def in_u128_def bounds)
  then show "effective_matured_pnl i e = Ok (claim (haircut_ratio e) (accounts e ! i))"
    using i H
    by (simp add: effective_matured_pnl_def released_pos_def acct_def s h c
        wide_mul_div_floor_u128_def mul_div_floor_u256_def mul_div_floor_u256_with_rem_def
        assertion_def fit_u256_def fit_u128_def Let_def)
qed

lemma floor_sum:
  fixes h d :: int
  assumes "0 < d" "\<And>x. x \<in> set xs \<Longrightarrow> 0 \<le> f x"
  shows "tot (\<lambda>x. f x * h div d) xs * d \<le> tot f xs * h"
proof (induction xs)
  case Nil
  then show ?case by simp
next
  case (Cons x xs)
  have "f x * h div d * d \<le> f x * h" using assms(1) by (simp add: minus_mod_eq_div_mult [symmetric])
  then show ?case using Cons by (simp add: distrib_right)
qed

theorem claims_fit:
  assumes inv: "pnl_inv e" and L: "market_mode e = Live" and v: "0 \<le> ins_bal e"
  shows "tot (claim (haircut_ratio e)) (accounts e) \<le> residual e"
proof (cases "pnl_matured_pos_tot e = 0")
  case True
  have ok: "\<And>a. a \<in> set (accounts e) \<Longrightarrow> 0 \<le> matp a"
    using inv acct_matp(1) by (auto simp: pnl_inv_def accts_ok_def)
  have "tot matp (accounts e) = 0" using inv L True by (simp add: pnl_inv_def agg_def)
  then have "tot (claim (haircut_ratio e)) (accounts e) = tot (\<lambda>_. 0) (accounts e)"
    using tot_zero_member[of matp "accounts e"] ok by (intro tot_cong) (simp add: claim_def)
  then show ?thesis by (simp add: tot_def residual_def)
next
  case False
  have ok: "\<And>a. a \<in> set (accounts e) \<Longrightarrow> 0 \<le> matp a"
    using inv acct_matp(1) by (auto simp: pnl_inv_def accts_ok_def)
  define d where "d = pnl_matured_pos_tot e"
  have d: "tot matp (accounts e) = d" using inv L by (simp add: d_def pnl_inv_def agg_def)
  have d0: "0 < d" using False tot_nonneg[of "accounts e" matp] ok d by (simp add: d_def)
  obtain h where h: "haircut_ratio e = (h, d)" "h \<le> residual e"
    using False by (auto simp: haircut_ratio_def d_def residual_def Let_def split: option.splits)
  have "claim (haircut_ratio e) a = matp a * h div d" for a
    using d0 by (simp add: claim_def h)
  then have "tot (claim (haircut_ratio e)) (accounts e) = tot (\<lambda>a. matp a * h div d) (accounts e)"
    by (intro tot_cong)
  moreover have "tot (\<lambda>a. matp a * h div d) (accounts e) * d \<le> h * d"
    using floor_sum[OF d0, of "accounts e" matp h] ok d by (simp add: mult.commute)
  then have "tot (\<lambda>a. matp a * h div d) (accounts e) \<le> h" using d0 by simp
  ultimately show ?thesis using h(2) by simp
qed

text \<open>The value a fallible read returns, for sums over the table.\<close>

fun ok_value :: "int outcome \<Rightarrow> int" where
  "ok_value (Ok x) = x"
| "ok_value _ = 0"

theorem effective_fits:
  assumes inv: "pnl_inv e" and L: "market_mode e = Live" and v: "0 \<le> ins_bal e"
  shows "(\<forall>i < MAX_ACCOUNTS e. \<exists>x. effective_matured_pnl i e = Ok x \<and> 0 \<le> x \<and> x \<le> matp (accounts e ! i))
     \<and> (\<Sum>i \<leftarrow> [0..<MAX_ACCOUNTS e]. ok_value (effective_matured_pnl i e)) \<le> residual e"
proof -
  have "map (\<lambda>i. ok_value (effective_matured_pnl i e)) [0..<MAX_ACCOUNTS e]
      = map (\<lambda>i. claim (haircut_ratio e) (accounts e ! i)) [0..<MAX_ACCOUNTS e]"
    by (rule map_cong) (simp_all add: effective_claim[OF inv _ v])
  also have "\<dots> = map (claim (haircut_ratio e)) (accounts e)"
    using map_nth[of "accounts e"] by (metis map_map comp_apply map_cong)
  finally have "(\<Sum>i \<leftarrow> [0..<MAX_ACCOUNTS e]. ok_value (effective_matured_pnl i e)) \<le> residual e"
    using claims_fit[OF inv L v] by (simp add: tot_def)
  then show ?thesis using effective_claim[OF inv _ v] by blast
qed

end
