(* ===== verification/Sorting.thy ===== *)
theory Sorting
  imports "HOL-Library.Multiset"
begin

text \<open>
  The insertion sort that the code writes in place twice: over the touched set of an instruction
  (\<open>finalize_touched_accounts_post_live\<close> in \<open>src/src/percolator.rs\<close>) and over the ring of observed
  prices (\<open>ring_median\<close> in \<open>src/oracle/src/state.rs\<close>). \<open>sift\<close> is the inner \<open>while\<close> loop, which moves
  the element at an index down by swaps, and \<open>sort_prefix\<close> the outer \<open>for\<close> loop over a prefix of the
  array. The result is the library's \<open>sort\<close> of the prefix.
\<close>

definition swap :: "nat \<Rightarrow> nat \<Rightarrow> 'a list \<Rightarrow> 'a list" where
  "swap i j xs = xs[i := xs ! j, j := xs ! i]"

fun sift :: "nat \<Rightarrow> ('a :: linorder) list \<Rightarrow> 'a list" where
  "sift 0 xs = xs"
| "sift (Suc j) xs = (if xs ! j > xs ! Suc j then sift j (swap j (Suc j) xs) else xs)"

definition sort_prefix :: "nat \<Rightarrow> ('a :: linorder) list \<Rightarrow> 'a list" where
  "sort_prefix cnt xs = fold sift [1..<cnt] xs"

lemma insort_snoc_gt: "y > x \<Longrightarrow> insort x (ys @ [y]) = insort x ys @ [y]"
  by (induction ys) auto

lemma insort_snoc_le:
  assumes "sorted ys" "\<And>y. y \<in> set ys \<Longrightarrow> y \<le> x"
  shows "insort x ys = ys @ [x]"
proof -
  have "sort (x # ys) = ys @ [x]"
    by (rule properties_for_sort) (use assms in \<open>simp_all add: sorted_append\<close>)
  then show ?thesis using assms(1) by (simp add: sorted_sort_id)
qed

lemma sift_insort: "sorted ys \<Longrightarrow> sift (length ys) (ys @ x # zs) = insort x ys @ zs"
proof (induction ys arbitrary: zs rule: rev_induct)
  case Nil
  then show ?case by simp
next
  case (snoc y ys)
  have s: "sorted ys" "\<And>z. z \<in> set ys \<Longrightarrow> z \<le> y" using snoc.prems by (simp_all add: sorted_append)
  show ?case
  proof (cases "y > x")
    case True
    have "swap (length ys) (Suc (length ys)) ((ys @ [y]) @ x # zs) = ys @ x # (y # zs)"
      by (simp add: swap_def list_update_append nth_append)
    then show ?thesis using True snoc.IH[OF s(1), of "y # zs"] by (simp add: nth_append insort_snoc_gt)
  next
    case False
    have "insort x (ys @ [y]) = (ys @ [y]) @ [x]"
      by (rule insort_snoc_le) (use s(2) snoc.prems False in fastforce)+
    then show ?thesis using False by (simp add: nth_append)
  qed
qed

lemma sort_prefix_sorts:
  fixes xs :: "('a :: linorder) list"
  assumes "cnt \<le> length xs"
  shows "sort_prefix cnt xs = sort (take cnt xs) @ drop cnt xs"
  using assms
proof (induction cnt)
  case 0
  then show ?case by (simp add: sort_prefix_def)
next
  case (Suc n)
  show ?case
  proof (cases n)
    case 0
    then show ?thesis using Suc.prems by (cases xs) (simp_all add: sort_prefix_def)
  next
    case (Suc m)
    have n: "n < length xs" using Suc.prems by simp
    have ih: "sort_prefix n xs = sort (take n xs) @ drop n xs" using Suc.IH Suc.prems by simp
    have "sort_prefix (Suc n) xs = sift n (sort_prefix n xs)"
      by (simp add: sort_prefix_def Suc)
    also have "\<dots> = sift (length (sort (take n xs))) (sort (take n xs) @ xs ! n # drop (Suc n) xs)"
      using n by (simp add: ih Cons_nth_drop_Suc)
    also have "\<dots> = insort (xs ! n) (sort (take n xs)) @ drop (Suc n) xs"
      by (rule sift_insort) simp
    also have "insort (xs ! n) (sort (take n xs)) = sort (take (Suc n) xs)"
      using n by (intro properties_for_sort[symmetric]) (simp_all add: take_Suc_conv_app_nth sorted_insort)
    finally show ?thesis .
  qed
qed

end
