(* ===== verification/Touch.thy ===== *)
theory Touch
  imports Equity Sorting
begin

text \<open>
  Touching an account: \<open>settle_losses\<close>, \<open>resolve_flat_negative\<close>, \<open>fee_debt_sweep\<close>,
  \<open>touch_account_live_local\<close> and \<open>finalize_touched_accounts_post_live\<close> of
  \<open>src/src/percolator.rs\<close>, with the insertion sort of the touched set.
\<close>

section \<open>Losses and fee debt\<close>

definition settle_losses :: "nat \<Rightarrow> engine \<Rightarrow> unit step" where
  "settle_losses idx e =
     sacct e idx (\<lambda>a.
     if pnl a \<ge> 0 then (Ok (), e)
     else if pnl a = I128_MIN then (Err CorruptState, e)
     else
       let need = \<bar>pnl a\<bar>; cap = capital a; pay = min need cap in
       if pay > 0 then
         sthen (set_capital idx (cap - pay) e) (\<lambda>_ e.
         sval (ok_or CorruptState (fit_i128 (pnl a + pay))) e (\<lambda>new_pnl.
         if new_pnl = I128_MIN then (Err CorruptState, e) else set_pnl idx new_pnl e))
       else (Ok (), e))"

definition resolve_flat_negative :: "nat \<Rightarrow> engine \<Rightarrow> unit step" where
  "resolve_flat_negative idx e =
     sval (effective_pos_q idx e) e (\<lambda>eff.
     if eff \<noteq> 0 then (Ok (), e)
     else
       sacct e idx (\<lambda>a.
       if pnl a < 0 then
         if pnl a = I128_MIN then (Err CorruptState, e)
         else set_pnl idx 0 (absorb_protocol_loss \<bar>pnl a\<bar> e)
       else (Ok (), e)))"

definition fee_debt_sweep :: "nat \<Rightarrow> engine \<Rightarrow> unit step" where
  "fee_debt_sweep idx e =
     sacct e idx (\<lambda>a.
     let debt = fee_debt_u128_checked (fee_credits a) in
     if debt = 0 then (Ok (), e)
     else
       let cap = capital a; pay = min debt cap in
       if pay > 0 then
         sthen (set_capital idx (cap - pay) e) (\<lambda>_ e.
         let pay_i128 = min pay I128_MAX in
         sval (ok_or CorruptState (fit_i128 (fee_credits (accounts e ! idx) + pay_i128))) e (\<lambda>fc.
         let e = upd idx (\<lambda>a. a\<lparr> fee_credits := fc \<rparr>) e in
         sval (ok_or Overflow (fit_u128 (ins_bal e + pay))) e (\<lambda>b.
           (Ok (), set_insurance b e))))
       else (Ok (), e))"

section \<open>Touch\<close>

definition touch_account_live_local :: "nat \<Rightarrow> instruction_context \<Rightarrow> engine \<Rightarrow> instruction_context step" where
  "touch_account_live_local idx ctx e =
     (if market_mode e \<noteq> Live then (Err Unauthorized, e)
      else if idx \<ge> MAX_ACCOUNTS e \<or> \<not> is_used e idx then (Err AccountNotFound, e)
      else
        let (added, ctx) = add_touched (idx mod 65536) ctx in
        if \<not> added then (Err Overflow, e)
        else
          sacct e idx (\<lambda>a.
          sval (validate_reserve_shape (params e) a) e (\<lambda>_.
          sthen (admit_outstanding_reserve_on_touch idx e) (\<lambda>_ e.
          sthen (advance_profit_warmup idx e) (\<lambda>_ e.
          sthen (settle_side_effects_live idx ctx e) (\<lambda>ctx e.
          sthen (settle_losses idx e) (\<lambda>_ e.
          sval (effective_pos_q idx e) e (\<lambda>eff.
          sthen (if eff = 0 \<and> pnl (accounts e ! idx) < 0 then resolve_flat_negative idx e
                 else (Ok (), e)) (\<lambda>_ e.
            (Ok ctx, e))))))))))"

section \<open>Finalisation\<close>

definition whole_snapshot :: "engine \<Rightarrow> bool" where
  "whole_snapshot e =
     (let senior_sum = (case fit_u128 (c_tot e + ins_bal e) of Some s \<Rightarrow> s | None \<Rightarrow> U128_MAX);
          residual = (if vault e \<ge> senior_sum then vault e - senior_sum else 0);
          h_snapshot_den = pnl_matured_pos_tot e;
          h_snapshot_num = (if h_snapshot_den = 0 then 0 else min residual h_snapshot_den) in
      h_snapshot_den > 0 \<and> h_snapshot_num = h_snapshot_den)"

definition finalize_one :: "bool \<Rightarrow> nat \<Rightarrow> engine \<Rightarrow> unit step" where
  "finalize_one is_whole idx e =
     sthen
       (sacct e idx (\<lambda>a.
        if is_whole \<and> position_basis_q a = 0 \<and> pnl a > 0 then
          sval (released_pos idx e) e (\<lambda>released.
          if released > 0 then
            sthen (consume_released_pnl idx released e) (\<lambda>_ e.
            sval (ok_or Overflow (fit_u128 (capital (accounts e ! idx) + released))) e (\<lambda>new_cap.
            set_capital idx new_cap e))
          else (Ok (), e))
        else (Ok (), e))) (\<lambda>_ e.
     fee_debt_sweep idx e)"

definition finalize_touched_accounts_post_live :: "instruction_context \<Rightarrow> engine \<Rightarrow> unit step" where
  "finalize_touched_accounts_post_live ctx e =
     (let is_whole = whole_snapshot e;
          cnt = touched_count ctx;
          srt = sort_prefix cnt (touched_accounts ctx) in
      sfor (take cnt srt) (finalize_one is_whole) e)"

section \<open>The touched set is visited in ascending order\<close>

lemma finalize_order:
  assumes "ctx_ok ctx"
  shows "take (touched_count ctx) (sort_prefix (touched_count ctx) (touched_accounts ctx)) = sort (touched ctx)"
  using assms by (simp add: sort_prefix_sorts ctx_ok_def touched_def)

section \<open>Local stages\<close>

text \<open>A stage on one account that leaves every market field alone.\<close>

definition lstage :: "nat \<Rightarrow> engine \<Rightarrow> engine \<Rightarrow> bool" where
  "lstage i e e' = (stage {i} e e' \<and> mkt_fields e' = mkt_fields e)"

lemma lstage_refl: "good e \<Longrightarrow> lstage i e e"
  by (simp add: lstage_def stage_refl)

lemma lstage_trans [trans]: "lstage i e e1 \<Longrightarrow> lstage i e1 e2 \<Longrightarrow> lstage i e e2"
  using stage_trans by (auto simp: lstage_def)

lemma lstage_D:
  assumes "lstage i e e'"
  shows "good e'" "stage {i} e e'" "balanced e' = balanced e" "MAX_ACCOUNTS e' = MAX_ACCOUNTS e"
    "params e' = params e" "market_mode e' = market_mode e" "current_slot e' = current_slot e"
    "\<And>s. get_a_side s e' = get_a_side s e" "\<And>s. get_epoch_side s e' = get_epoch_side s e"
  using assms stage_D(1,3,4,5)[of "{i}" e e']
  by (auto simp: lstage_def balanced_def mkt_fields_def) (case_tac s, simp_all)+

lemma cash_lstage: "cash_step i e e' \<Longrightarrow> good e \<Longrightarrow> lstage i e e'"
  using cash_stage by (simp add: lstage_def cash_step_def frame_def)

text \<open>Setting capital and setting PnL, as transformations of well-formed engines.\<close>

lemma cap_effect_good:
  assumes "good e" "i < MAX_ACCOUNTS e" "in_u128 c"
  shows "good (cap_effect i c e)" "mkt_fields (cap_effect i c e) = mkt_fields e"
    "accounts (cap_effect i c e) ! i = (accounts e ! i)\<lparr> capital := c \<rparr>"
proof -
  show a: "accounts (cap_effect i c e) ! i = (accounts e ! i)\<lparr> capital := c \<rparr>"
    using assms(2) by (simp add: cap_effect_def)
  show "good (cap_effect i c e)"
    using assms cap_effect_inv[OF good_D(1)[OF assms(1)] assms(2,3)] good_D(2)[OF assms(1)]
    by - (rule frame_good[OF cap_effect_frame], auto simp: a fees_ok_def fee_ok_def)
  show "mkt_fields (cap_effect i c e) = mkt_fields e" by (simp add: cap_effect_def mkt_fields_def)
qed

lemma pnl_set_good:
  assumes "pnl_set i new e e'" "good e" "in_i128 new" "new \<noteq> I128_MIN"
  shows "good e'" "mkt_fields e' = mkt_fields e" "lstage i e e'"
proof -
  have "cash_step i e e'" using pnl_cash_step[OF assms(1) good_D(1)[OF assms(2)] assms(3,4)] .
  then show "lstage i e e'" using cash_lstage assms(2) by blast
  then show "good e'" "mkt_fields e' = mkt_fields e" using lstage_D by (auto simp: lstage_def)
qed

text \<open>
  Settling a loss: the loss is paid from capital as far as capital goes; capital and PnL move by the
  same amount, so the account's equity is unchanged, and nothing else moves.
\<close>

definition loss_settled :: "nat \<Rightarrow> engine \<Rightarrow> engine \<Rightarrow> bool" where
  "loss_settled i e e' =
     (let a = accounts e ! i; b = accounts e' ! i in
      pnl b = (if pnl a < 0 then min 0 (pnl a + capital a) else pnl a)
      \<and> capital b = (if pnl a < 0 then max 0 (capital a + pnl a) else capital a)
      \<and> fee_credits b = fee_credits a \<and> position_basis_q b = position_basis_q a
      \<and> adl_a_basis b = adl_a_basis a \<and> adl_epoch_snap b = adl_epoch_snap a
      \<and> insurance_fund e' = insurance_fund e
      \<and> c_tot e' - c_tot e = capital b - capital a)"

lemma acct_typed:
  assumes "good e" "i < MAX_ACCOUNTS e"
  shows "in_u128 (capital (accounts e ! i))" "in_i128 (pnl (accounts e ! i))"
    "pnl (accounts e ! i) \<noteq> I128_MIN" "reserve_ok (params e) (accounts e ! i)"
    "fee_ok (accounts e ! i)" "0 \<le> capital (accounts e ! i)"
  using accts_ok_nth[OF good_D(7)[OF assms(1)] assms(2)] good_D(2)[OF assms(1)] assms(2)
  by (simp_all add: acct_ok_def fees_ok_def in_u128_def)

theorem settle_losses_spec:
  assumes g: "good e"
  shows "okP (settle_losses i e) (\<lambda>_ e'. i < MAX_ACCOUNTS e \<and> lstage i e e' \<and> loss_settled i e e')"
    (is "okP _ ?P")
proof (cases "i < MAX_ACCOUNTS e")
  case False
  then show ?thesis by (simp add: settle_losses_def okP_sacct)
next
  case i: True
  let ?a = "accounts e ! i"
  define pay where "pay = min \<bar>pnl ?a\<bar> (capital ?a)"
  define P where "P = ?P"
  note T = acct_typed[OF g i]
  have idle: "P () e" if "pnl ?a \<ge> 0 \<or> pay = 0"
    unfolding P_def loss_settled_def Let_def
    using that lstage_refl[OF g] i T(6) by (auto simp: pay_def)
  have go: "okP (sthen (set_capital i (capital ?a - pay) e) (\<lambda>_ e.
         sval (ok_or CorruptState (fit_i128 (pnl ?a + pay))) e (\<lambda>new_pnl.
         if new_pnl = I128_MIN then (Err CorruptState, e) else set_pnl i new_pnl e))) P"
    if neg: "pnl ?a < 0" and p: "0 < pay"
    unfolding okP_sthen okP_sval okR_ok_or fit_Some
  proof (rule okP_mono[OF set_capital_spec], intro allI impI)
    fix u s x
    assume "i < MAX_ACCOUNTS e \<and> s = cap_effect i (capital ?a - pay) e \<and> in_u128 (c_tot s)"
      and x: "in_i128 (pnl ?a + pay) \<and> x = pnl ?a + pay"
    then have s: "s = cap_effect i (capital ?a - pay) e" by blast
    have c: "in_u128 (capital ?a - pay)" using T(1,6) p by (auto simp: pay_def in_u128_def)
    note C = cap_effect_good[OF g i c, folded s]
    have st: "lstage i e s"
      using C p i unfolding lstage_def stage_def s
      by (auto simp: solvent_def cap_effect_def slab_fields_def)
    have "okP (set_pnl i x s) P" if nm: "x \<noteq> I128_MIN"
    proof (rule okP_mono[OF set_pnl_resolved_spec[OF good_D(1)[OF C(1)]]])
      fix v e2 assume S: "pnl_set i x s e2"
      note F = pnl_set_frame[OF S]
      note K = core_fields[OF F(3)]
      have "lstage i e e2"
        using lstage_trans[OF st pnl_set_good(3)[OF S C(1)]] x nm by blast
      moreover have "loss_settled i e e2"
        unfolding loss_settled_def Let_def
        using neg p x C(3) K F(2,4) frame_D(2)[OF F(1)] T(6) by (auto simp: s cap_effect_def pay_def)
      ultimately show "P v e2" using i by (simp add: P_def)
    qed
    then show "okP (if x = I128_MIN then (Err CorruptState, s) else set_pnl i x s) P" by simp
  qed
  have "okP (settle_losses i e) P"
    unfolding settle_losses_def okP_sacct Let_def pay_def[symmetric]
    using idle go i T(6) by (auto simp: okP_if pay_def)
  then show ?thesis by (simp only: P_def)
qed

text \<open>Sweeping fee debt: capital pays debt into the insurance fund, one for one.\<close>

definition debt_swept :: "nat \<Rightarrow> engine \<Rightarrow> engine \<Rightarrow> bool" where
  "debt_swept i e e' =
     (let a = accounts e ! i; pay = min (- fee_credits a) (capital a) in
      e' = fee_effect i pay (- pay) e)"

lemma fee_effect_reads:
  assumes "i < MAX_ACCOUNTS e"
  shows "accounts (fee_effect i p c e) ! i = (accounts e ! i)\<lparr> capital := capital (accounts e ! i) - p,
      fee_credits := fee_credits (accounts e ! i) - c \<rparr>"
    "mkt_fields (fee_effect i p c e) = mkt_fields e" "slab_fields (fee_effect i p c e) = slab_fields e"
    "vault (fee_effect i p c e) = vault e" "params (fee_effect i p c e) = params e"
    "market_mode (fee_effect i p c e) = market_mode e" "c_tot (fee_effect i p c e) = c_tot e - p"
    "ins_bal (fee_effect i p c e) = ins_bal e + p" "MAX_ACCOUNTS (fee_effect i p c e) = MAX_ACCOUNTS e"
    "j \<noteq> i \<Longrightarrow> accounts (fee_effect i p c e) ! j = accounts e ! j"
  using assms by (simp_all add: fee_effect_def mkt_fields_def slab_fields_def)

lemma fee_effect_lstage:
  assumes g: "good e" and i: "i < MAX_ACCOUNTS e"
    and p: "0 \<le> p" "p \<le> capital (accounts e ! i)" "in_u128 (ins_bal e + p)"
    and f: "- I128_MAX \<le> fee_credits (accounts e ! i) - c" "fee_credits (accounts e ! i) - c \<le> 0"
  shows "lstage i e (fee_effect i p c e)"
proof -
  let ?e = "fee_effect i p c e" and ?a = "accounts e ! i"
  let ?b = "?a\<lparr> capital := capital ?a - p, fee_credits := fee_credits ?a - c \<rparr>"
  note R = fee_effect_reads[OF i] and T = acct_typed[OF g i]
  have cap: "in_u128 (capital ?a - p)" using T(1) p by (simp add: in_u128_def)
  have "acct_ok (params e) ?b"
    using accts_ok_nth[OF good_D(7)[OF g] i] cap by (simp add: acct_ok_def)
  then have "accts_ok ?e"
    by - (rule accts_ok_update[OF good_D(7)[OF g], of _ i ?b], simp_all add: fee_effect_def)
  moreover have "agg ?e"
    using good_D(8)[OF g] i by (simp add: agg_def fee_effect_def tot_update)
  moreover have "fees_ok ?e"
    unfolding fees_ok_def
  proof (intro allI impI)
    fix j assume "j < MAX_ACCOUNTS ?e"
    then show "fee_ok (accounts ?e ! j)"
      using good_D(2)[OF g] f R(1) R(9) R(10)[of j] by (cases "j = i") (simp_all add: fees_ok_def fee_ok_def)
  qed
  moreover have "market_ok ?e" using good_D(3)[OF g] by (simp add: market_ok_def fee_effect_def)
  ultimately have "good ?e"
    using good_D(5,6,9)[OF g] p(3) by (simp add: good_def pnl_inv_def R)
  then show ?thesis
    unfolding lstage_def stage_def using R by (simp add: solvent_def)
qed

theorem fee_debt_sweep_spec:
  assumes g: "good e"
  shows "okP (fee_debt_sweep i e) (\<lambda>_ e'. i < MAX_ACCOUNTS e \<and> lstage i e e' \<and> debt_swept i e e')"
    (is "okP _ ?P")
proof (cases "i < MAX_ACCOUNTS e")
  case False
  then show ?thesis by (simp add: fee_debt_sweep_def okP_sacct)
next
  case i: True
  let ?a = "accounts e ! i"
  note T = acct_typed[OF g i]
  have fc: "fee_credits ?a \<le> 0" "- I128_MAX \<le> fee_credits ?a" using T(5) by (simp_all add: fee_ok_def)
  define pay where "pay = min (- fee_credits ?a) (capital ?a)"
  define P where "P = ?P"
  have debt: "fee_debt_u128_checked (fee_credits ?a) = - fee_credits ?a"
    using fc by (simp add: fee_debt_u128_checked_def)
  have idle: "P () e" if "fee_credits ?a = 0 \<or> \<not> pay > 0"
  proof -
    have "pay = 0" using that fc T(6) by (auto simp: pay_def)
    then have "debt_swept i e e"
      using fee_effect_id[OF i] by (simp add: debt_swept_def pay_def[symmetric] Let_def)
    then show ?thesis using i lstage_refl[OF g] by (simp add: P_def)
  qed
  have go: "okP (sthen (set_capital i (capital ?a - pay) e) (\<lambda>_ e.
         let pay_i128 = min pay I128_MAX in
         sval (ok_or CorruptState (fit_i128 (fee_credits (accounts e ! i) + pay_i128))) e (\<lambda>fc.
         let e = upd i (\<lambda>a. a\<lparr> fee_credits := fc \<rparr>) e in
         sval (ok_or Overflow (fit_u128 (ins_bal e + pay))) e (\<lambda>b.
           (Ok (), set_insurance b e))))) P"
    if p: "pay > 0"
    unfolding okP_sthen Let_def okP_sval okR_ok_or fit_Some okP_basic
  proof (rule okP_mono[OF set_capital_spec], intro allI impI)
    fix u s f b
    have m: "min pay I128_MAX = pay" using fc by (simp add: pay_def)
    have pl: "pay \<le> capital ?a" "pay \<le> - fee_credits ?a" by (simp_all add: pay_def)
    assume "i < MAX_ACCOUNTS e \<and> s = cap_effect i (capital ?a - pay) e \<and> in_u128 (c_tot s)"
      "in_i128 (fee_credits (accounts s ! i) + min pay I128_MAX) \<and> f = fee_credits (accounts s ! i) + min pay I128_MAX"
      "in_u128 (ins_bal (upd i (\<lambda>a. a\<lparr> fee_credits := f \<rparr>) s) + pay)
         \<and> b = ins_bal (upd i (\<lambda>a. a\<lparr> fee_credits := f \<rparr>) s) + pay"
    then have s: "s = cap_effect i (capital ?a - pay) e" and f: "f = fee_credits (accounts s ! i) + pay"
      and b: "in_u128 (ins_bal s + pay)" "b = ins_bal s + pay"
      unfolding m by simp_all
    have sr: "accounts s ! i = ?a\<lparr> capital := capital ?a - pay \<rparr>" "ins_bal s = ins_bal e"
      using i by (simp_all add: s cap_effect_def)
    have eq: "set_insurance b (upd i (\<lambda>a. a\<lparr> fee_credits := f \<rparr>) s) = fee_effect i pay (- pay) e"
      using i by (simp add: b f sr set_insurance_def upd_def fee_effect_def)
        (simp add: s cap_effect_def)
    have "lstage i e (fee_effect i pay (- pay) e)"
      by (rule fee_effect_lstage[OF g i]) (use p b sr fc pl in simp_all)
    then show "P () (set_insurance b (upd i (\<lambda>a. a\<lparr> fee_credits := f \<rparr>) s))"
      unfolding eq using i by (simp add: P_def debt_swept_def pay_def)
  qed
  have "okP (fee_debt_sweep i e) P"
    unfolding fee_debt_sweep_def okP_sacct debt
    unfolding Let_def[of "- fee_credits ?a"] Let_def[of "capital ?a"] pay_def[symmetric] Let_def[of pay]
    using idle go i fc by (simp only: okP_if okP_basic) auto
  then show ?thesis by (simp only: P_def)
qed

text \<open>The loss of a flat account: insurance absorbs it down to its floor, and the PnL is cleared.\<close>

theorem resolve_flat_spec:
  assumes g: "good e"
  shows "okP (resolve_flat_negative i e) (\<lambda>_ e'. i < MAX_ACCOUNTS e \<and> lstage i e e'
     \<and> c_tot e' = c_tot e
     \<and> ins_bal e' = (if pnl (accounts e' ! i) = pnl (accounts e ! i) then ins_bal e
         else ins_bal e - min (- pnl (accounts e ! i)) (max 0 (ins_bal e - insurance_floor (params e))))
     \<and> (pnl (accounts e' ! i) = pnl (accounts e ! i) \<or> pnl (accounts e ! i) < 0 \<and> pnl (accounts e' ! i) = 0)
     \<and> (effective_pos_q i e = Ok 0 \<longrightarrow> 0 \<le> pnl (accounts e' ! i)))"
    (is "okP _ ?P")
proof (cases "i < MAX_ACCOUNTS e")
  case False
  then show ?thesis by (simp add: resolve_flat_negative_def okP_sval effective_pos_q_def acct_def)
next
  case i: True
  let ?a = "accounts e ! i"
  define P where "P = ?P"
  have idle: "P () e" if "effective_pos_q i e \<noteq> Ok 0 \<or> 0 \<le> pnl ?a"
    using that i lstage_refl[OF g] by (auto simp: P_def)
  have fl: "0 \<le> insurance_floor (params e)"
    using good_D(6)[OF g] by (simp add: params_typed_def in_u128_def)
  have go: "okP (set_pnl i 0 (absorb_protocol_loss \<bar>pnl ?a\<bar> e)) P" if neg: "pnl ?a < 0"
  proof -
    obtain rem e1 where u: "use_insurance_buffer \<bar>pnl ?a\<bar> e = (rem, e1)" by fastforce
    note B = insurance_buffer_spec[OF u _ good_D(4)[OF g] fl]
    have e1: "absorb_protocol_loss \<bar>pnl ?a\<bar> e = e1"
      using neg unfolding absorb_protocol_loss_def u by (simp add: record_uninsured_protocol_loss_def)
    have E: "e1 = set_insurance (ins_bal e - min (- pnl ?a) (max 0 (ins_bal e - insurance_floor (params e)))) e"
      using B(1,4) neg by simp
    have nn: "0 \<le> ins_bal e1" "ins_bal e1 \<le> ins_bal e"
      using good_D(4)[OF g] fl neg by (auto simp: E in_u128_def)
    have st: "stage {i} e e1"
      unfolding E by (rule outer_stage[OF _ g market_ok_writes(6)[OF good_D(3)[OF g]]])
        (use nn in \<open>simp_all add: E\<close>)
    have l1: "lstage i e e1" using st by (simp add: lstage_def) (simp add: E set_insurance_def mkt_fields_def)
    have g1: "good e1" using stage_D(1)[OF st] .
    have ac: "accounts e1 = accounts e" "c_tot e1 = c_tot e" by (simp_all add: E)
    show ?thesis
      unfolding e1
    proof (rule okP_mono[OF set_pnl_resolved_spec[OF good_D(1)[OF g1]]])
      fix v e2 assume S: "pnl_set i 0 e1 e2"
      note F = pnl_set_frame[OF S]
      have "lstage i e e2"
        by (rule lstage_trans[OF l1 pnl_set_good(3)[OF S g1]]) (simp_all add: in_i128_def bounds)
      then show "P v e2"
        using i neg F frame_D(2)[OF F(1)] unfolding P_def by (simp add: ac) (simp add: E)
    qed
  qed
  have "okP (resolve_flat_negative i e) P"
    unfolding resolve_flat_negative_def okP_sval okP_if okP_sacct
    using idle go by (auto intro!: okR_I)
  then show ?thesis by (simp only: P_def)
qed

section \<open>A touch\<close>

definition ctx_admits :: "instruction_context \<Rightarrow> instruction_context \<Rightarrow> bool" where
  "ctx_admits c c' =
     (admit_h_min_shared c' = admit_h_min_shared c \<and> admit_h_max_shared c' = admit_h_max_shared c)"

text \<open>
  After a touch the account's loss is settled: PnL is negative only if the capital is exhausted
  and the position is still open.
\<close>

definition settled :: "nat \<Rightarrow> engine \<Rightarrow> bool" where
  "settled i e =
     (pnl (accounts e ! i) < 0 \<longrightarrow> capital (accounts e ! i) = 0 \<and> effective_pos_q i e \<noteq> Ok 0)"

lemma same_pnl_good:
  assumes "pnl_set i (pnl (accounts e ! i)) e e'" "good e"
  shows "lstage i e e'"
  using pnl_set_good(3)[OF assms] acct_typed[OF assms(2)] assms(1) by (simp add: pnl_set_def)

lemma okP_then: "okP m (\<lambda>x s. Q x s) \<Longrightarrow> (\<And>x s. Q x s \<Longrightarrow> okP (k x s) P) \<Longrightarrow> okP (sthen m k) P"
  unfolding okP_sthen by (rule okP_mono)

theorem touch_spec:
  assumes g: "good e" and c: "ctx_ok ctx" and md: "mode_ok (params e) (ctx_mode ctx)"
  shows "okP (touch_account_live_local i ctx e) (\<lambda>ctx' e'.
     i < MAX_ACCOUNTS e \<and> is_used e i \<and> market_mode e = Live \<and> lstage i e e' \<and> settled i e'
     \<and> ctx_ok ctx' \<and> ctx_admits ctx ctx' \<and> set (touched ctx') = insert (i mod 65536) (set (touched ctx)))"
    (is "okP _ ?P")
proof (cases "market_mode e = Live \<and> i < MAX_ACCOUNTS e \<and> is_used e i")
  case False
  then show ?thesis by (auto simp: touch_account_live_local_def)
next
  case True
  then have L: "market_mode e = Live" and i: "i < MAX_ACCOUNTS e" and u: "is_used e i" by blast+
  define P where "P = ?P"
  obtain b c1 where a: "add_touched (i mod 65536) ctx = (b, c1)" by fastforce
  note A = add_touched_spec[OF c a]
  have tail: "okP (sthen (settle_losses i e3) (\<lambda>_ e.
        sval (effective_pos_q i e) e (\<lambda>eff.
          sthen (if eff = 0 \<and> pnl (accounts e ! i) < 0 then resolve_flat_negative i e else (Ok (), e))
            (\<lambda>_ e. (Ok c2, e))))) P"
    if l: "lstage i e e3" and r: "ctx_rel c1 c2" and b: "b" for e3 c2
  proof (rule okP_then[OF settle_losses_spec[OF lstage_D(1)[OF l]]])
    fix v e4 assume S: "i < MAX_ACCOUNTS e3 \<and> lstage i e3 e4 \<and> loss_settled i e3 e4"
    have l4: "lstage i e e4" using lstage_trans[OF l] S by blast
    have g4: "good e4" using lstage_D(1)[OF l4] .
    have cap: "pnl (accounts e4 ! i) < 0 \<longrightarrow> capital (accounts e4 ! i) = 0"
      using S unfolding loss_settled_def Let_def by (auto simp: min_def max_def split: if_splits)
    have fin: "P c2 e5" if "lstage i e e5" "settled i e5" for e5
      using that i u L A b r by (simp add: P_def ctx_rel_def ctx_admits_def)
    show "okP (sval (effective_pos_q i e4) e4 (\<lambda>eff.
          sthen (if eff = 0 \<and> pnl (accounts e4 ! i) < 0 then resolve_flat_negative i e4 else (Ok (), e4))
            (\<lambda>_ e. (Ok c2, e)))) P"
      unfolding okP_sval okP_sthen okP_basic
    proof (rule okR_I)
      fix eff assume E: "effective_pos_q i e4 = Ok eff"
      show "okP (if eff = 0 \<and> pnl (accounts e4 ! i) < 0 then resolve_flat_negative i e4 else (Ok (), e4))
          (\<lambda>_ s. P c2 s)"
      proof (cases "eff = 0 \<and> pnl (accounts e4 ! i) < 0")
        case True
        have "okP (resolve_flat_negative i e4) (\<lambda>_ e5. P c2 e5)"
        proof (rule okP_mono[OF resolve_flat_spec[OF g4]], elim conjE)
          fix x e5
          assume "lstage i e4 e5" "effective_pos_q i e4 = Ok 0 \<longrightarrow> 0 \<le> pnl (accounts e5 ! i)"
          then have "lstage i e e5" "settled i e5"
            using lstage_trans[OF l4] E True by (simp_all add: settled_def)
          then show "P c2 e5" by (rule fin)
        qed
        then show ?thesis unfolding if_P[OF True] .
      next
        case False
        have "settled i e4" using False E cap by (auto simp: settled_def)
        then show ?thesis unfolding if_not_P[OF False] okP_basic by (rule fin[OF l4])
      qed
    qed
  qed
  have mid: "okP (sthen (settle_side_effects_live i c1 e2) (\<lambda>ctx e.
          sthen (settle_losses i e) (\<lambda>_ e.
          sval (effective_pos_q i e) e (\<lambda>eff.
          sthen (if eff = 0 \<and> pnl (accounts e ! i) < 0 then resolve_flat_negative i e else (Ok (), e))
            (\<lambda>_ e. (Ok ctx, e)))))) P"
    if l: "lstage i e e2" and b: "b" for e2
  proof (rule okP_then[OF settle_live_spec[OF good_D(1)[OF lstage_D(1)[OF l]]]])
    show "mode_ok (params e2) (ctx_mode c1)" using md A lstage_D(5)[OF l] by simp
    fix c2 e3 assume "ctx_rel c1 c2 \<and> cash_step i e2 e3"
    then show "okP (sthen (settle_losses i e3) (\<lambda>_ e.
          sval (effective_pos_q i e) e (\<lambda>eff.
          sthen (if eff = 0 \<and> pnl (accounts e ! i) < 0 then resolve_flat_negative i e else (Ok (), e))
            (\<lambda>_ e. (Ok c2, e))))) P"
      using tail lstage_trans[OF l] cash_lstage lstage_D(1)[OF l] b by blast
  qed
  have start: "okP (sthen (admit_outstanding_reserve_on_touch i e) (\<lambda>_ e.
          sthen (advance_profit_warmup i e) (\<lambda>_ e.
          sthen (settle_side_effects_live i c1 e) (\<lambda>ctx e.
          sthen (settle_losses i e) (\<lambda>_ e.
          sval (effective_pos_q i e) e (\<lambda>eff.
          sthen (if eff = 0 \<and> pnl (accounts e ! i) < 0 then resolve_flat_negative i e else (Ok (), e))
            (\<lambda>_ e. (Ok ctx, e)))))))) P" if b: "b"
  proof (rule okP_then[OF admit_outstanding_spec[OF good_D(1)[OF g] L]], rule okP_then[OF advance_warmup_spec])
    fix v e1
    assume "pnl_set i (pnl (accounts e ! i)) e e1 \<and> (reserved_pnl (accounts e1 ! i) = 0
           \<or> e1 = e \<and> vault e < c_tot e + balance (insurance_fund e) + pnl_matured_pos_tot e + reserved_pnl (accounts e ! i))"
    then have l1: "lstage i e e1" using same_pnl_good g by blast
    show "pnl_inv e1" "market_mode e1 = Live" using lstage_D(1,6)[OF l1] good_D(1) L by auto
    fix w e2
    assume "pnl_set i (pnl (accounts e1 ! i)) e1 e2 \<and> reserved_pnl (accounts e2 ! i) \<le> reserved_pnl (accounts e1 ! i)"
    then have l2: "lstage i e e2" using same_pnl_good lstage_D(1)[OF l1] lstage_trans[OF l1] by blast
    show "okP (sthen (settle_side_effects_live i c1 e2) (\<lambda>ctx e.
          sthen (settle_losses i e) (\<lambda>_ e.
          sval (effective_pos_q i e) e (\<lambda>eff.
          sthen (if eff = 0 \<and> pnl (accounts e ! i) < 0 then resolve_flat_negative i e else (Ok (), e))
            (\<lambda>_ e. (Ok ctx, e)))))) P"
      by (rule mid[OF l2 b])
  qed
  have "okP (touch_account_live_local i ctx e) P"
    unfolding touch_account_live_local_def a prod.case Let_def
    using True start i by (simp add: okP_sacct okP_sval okR_I)
  then show ?thesis by (simp only: P_def)
qed

section \<open>Finalisation\<close>

text \<open>
  The maintenance equity of an account; conversion and sweep move value inside it only, so that
  finalisation changes no account's equity.
\<close>

definition eqm :: "account \<Rightarrow> int" where "eqm a = capital a + pnl a + fee_credits a"

text \<open>What finalisation keeps of every account: its equity, its position and its owner.\<close>

definition kept :: "account \<Rightarrow> int \<times> int \<times> int \<times> int \<times> int \<times> int \<times> 8 word list" where
  "kept a = (eqm a, position_basis_q a, adl_a_basis a, adl_k_snap a, f_snap a, adl_epoch_snap a, owner a)"

lemma kept_D:
  assumes "kept a = kept b"
  shows "eqm a = eqm b" "position_basis_q a = position_basis_q b" "owner a = owner b"
    "adl_a_basis a = adl_a_basis b" "adl_epoch_snap a = adl_epoch_snap b"
  using assms by (simp_all add: kept_def)

lemma maint_raw_wide:
  assumes "good e" "i < MAX_ACCOUNTS e"
  shows "account_equity_maint_raw_wide (accounts e ! i) = Ok (eqm (accounts e ! i))"
proof -
  note T = acct_typed[OF assms]
  have "fee_debt_u128_checked (fee_credits (accounts e ! i)) = - fee_credits (accounts e ! i)"
    using T(5) by (simp add: fee_ok_def fee_debt_u128_checked_def)
  then show ?thesis
    using T by (auto simp: account_equity_maint_raw_wide_def eqm_def fee_ok_def rthen_Ok_iff
        fit_i256_def in_i256_def in_u128_def in_i128_def bounds)
qed

definition covered :: "engine \<Rightarrow> bool" where
  "covered e = (c_tot e + ins_bal e + pnl_matured_pos_tot e \<le> vault e)"

lemma whole_covered:
  assumes "whole_snapshot e" "good e"
  shows "covered e"
  using assms good_D(4,9)[OF assms(2)]
  by (auto simp: whole_snapshot_def covered_def Let_def min_def fit_u128_def in_u128_def
      split: if_splits option.splits)

lemma matured_nonneg:
  assumes "good e"
  shows "0 \<le> pnl_matured_pos_tot e"
proof -
  have "\<And>a. a \<in> set (accounts e) \<Longrightarrow> 0 \<le> matp a \<and> 0 \<le> posp a"
    using good_D(7)[OF assms] acct_matp by (auto simp: accts_ok_def)
  then show ?thesis
    using good_D(8)[OF assms] tot_nonneg[of "accounts e" matp] tot_nonneg[of "accounts e" posp]
    by (simp add: agg_def)
qed

lemma covered_solvent: "good e \<Longrightarrow> covered e \<Longrightarrow> solvent e"
  using matured_nonneg by (fastforce simp: covered_def solvent_def)

lemma convert_spec:
  assumes g: "good e" and x: "0 \<le> x" and cv: "covered e"
  shows "okP (sthen (consume_released_pnl i x e) (\<lambda>_ e.
            sval (ok_or Overflow (fit_u128 (capital (accounts e ! i) + x))) e (\<lambda>new_cap.
            set_capital i new_cap e)))
     (\<lambda>_ e'. lstage i e e' \<and> covered e' \<and> kept (accounts e' ! i) = kept (accounts e ! i))"
    (is "okP _ ?P")
proof (rule okP_then[OF consume_released_spec[OF good_D(1)[OF g] x]], elim conjE)
  fix u e1
  assume S: "pnl_set i (pnl (accounts e ! i) - x) e e1" and R: "reserved_pnl (accounts e1 ! i) = reserved_pnl (accounts e ! i)"
    and b: "0 < x" "x \<le> matp (accounts e ! i)"
  have i: "i < MAX_ACCOUNTS e" using S by (simp add: pnl_set_def)
  note T = acct_typed[OF g i]
  note F = pnl_set_frame[OF S]
  note K = core_fields[OF F(3)]
  have "0 \<le> reserved_pnl (accounts e ! i)" using T(4) bucket_reads(5) by (auto simp: reserve_ok_def)
  then have p: "0 < pnl (accounts e ! i)" "x \<le> pnl (accounts e ! i)"
    using b by (auto simp: matp_def max_def split: if_splits)
  have ty: "in_i128 (pnl (accounts e ! i) - x)" "pnl (accounts e ! i) - x \<noteq> I128_MIN"
    using p T(2) b(1) by (auto simp: in_i128_def bounds)
  have l1: "lstage i e e1" using pnl_set_good(3)[OF S g ty] .
  have g1: "good e1" using lstage_D(1)[OF l1] .
  have e1: "e1 = pnl_effect i (accounts e1 ! i) e" using S by (simp add: pnl_set_def)
  have m: "pnl_matured_pos_tot e1 = pnl_matured_pos_tot e - x"
    by (subst e1, simp only: pnl_effect_def Let_def, simp)
      (use F(4) R p in \<open>simp add: posp_def matp_def\<close>)
  show "okP (sval (ok_or Overflow (fit_u128 (capital (accounts e1 ! i) + x))) e1 (\<lambda>new_cap. set_capital i new_cap e1)) ?P"
    unfolding okP_sval okR_ok_or fit_Some
  proof (intro allI impI, elim conjE, hypsubst, rule okP_mono[OF set_capital_spec], elim conjE)
    fix v e2
    let ?c = "capital (accounts e1 ! i) + x"
    assume c: "in_u128 ?c" and e2: "e2 = cap_effect i ?c e1" and i1: "i < MAX_ACCOUNTS e1"
    note C = cap_effect_good[OF g1 i1 c, folded e2]
    have sum: "c_tot e2 = c_tot e + x" "ins_bal e2 = ins_bal e" "vault e2 = vault e"
      "pnl_matured_pos_tot e2 = pnl_matured_pos_tot e - x"
      using F(2) frame_D(1,2)[OF F(1)] m by (simp_all add: e2 cap_effect_def)
    have cv2: "covered e2" using cv by (simp add: covered_def sum)
    have "stage {i} e1 e2"
      using C(1) covered_solvent[OF C(1) cv2] i1 unfolding stage_def e2
      by (auto simp: cap_effect_def slab_fields_def)
    then have "lstage i e e2" using lstage_trans[OF l1] C(2) by (simp add: lstage_def)
    moreover have "kept (accounts e2 ! i) = kept (accounts e ! i)"
      using C(3) F(4) K by (simp add: kept_def eqm_def)
    ultimately show "?P v e2" using cv2 by simp
  qed
qed

lemma sweep_spec:
  assumes "good e"
  shows "okP (fee_debt_sweep i e) (\<lambda>_ e'. lstage i e e' \<and> (covered e \<longrightarrow> covered e')
     \<and> kept (accounts e' ! i) = kept (accounts e ! i) \<and> i < MAX_ACCOUNTS e)"
proof (rule okP_mono[OF fee_debt_sweep_spec[OF assms]], elim conjE)
  fix u e' assume i: "i < MAX_ACCOUNTS e" and l: "lstage i e e'" and d: "debt_swept i e e'"
  define pay where "pay = min (- fee_credits (accounts e ! i)) (capital (accounts e ! i))"
  have e': "e' = fee_effect i pay (- pay) e" using d by (simp add: debt_swept_def Let_def pay_def)
  have "pnl_matured_pos_tot e' = pnl_matured_pos_tot e" by (simp add: e' fee_effect_def)
  then show "lstage i e e' \<and> (covered e \<longrightarrow> covered e') \<and> kept (accounts e' ! i) = kept (accounts e ! i)
     \<and> i < MAX_ACCOUNTS e"
    using l fee_effect_reads[OF i] i by (simp add: e' covered_def kept_def eqm_def)
qed

lemma finalize_one_spec:
  assumes g: "good e" and w: "w \<longrightarrow> covered e"
  shows "okP (finalize_one w i e) (\<lambda>_ e'. lstage i e e' \<and> (w \<longrightarrow> covered e')
     \<and> kept (accounts e' ! i) = kept (accounts e ! i))"
    (is "okP _ ?P")
proof -
  let ?a = "accounts e ! i"
  have conv: "okP (sacct e i (\<lambda>a.
        if w \<and> position_basis_q a = 0 \<and> pnl a > 0 then
          sval (released_pos i e) e (\<lambda>released.
          if released > 0 then
            sthen (consume_released_pnl i released e) (\<lambda>_ e.
            sval (ok_or Overflow (fit_u128 (capital (accounts e ! i) + released))) e (\<lambda>new_cap.
            set_capital i new_cap e))
          else (Ok (), e))
        else (Ok (), e))) ?P"
  proof -
    define P where "P = ?P"
    have idle: "P () e" using lstage_refl[OF g] w by (simp add: P_def)
    have cs: "okP (sthen (consume_released_pnl i x e) (\<lambda>_ e.
            sval (ok_or Overflow (fit_u128 (capital (accounts e ! i) + x))) e (\<lambda>new_cap.
            set_capital i new_cap e))) P" if "x > 0" w for x
      by (rule okP_mono[OF convert_spec[OF g]]) (use that w in \<open>simp_all add: P_def\<close>)
    show ?thesis
      unfolding P_def[symmetric] okP_sacct okP_if okP_sval
      using idle cs by (auto intro!: okR_I)
  qed
  show ?thesis
    unfolding finalize_one_def
  proof (rule okP_then[OF conv], elim conjE)
    fix u e1
    assume l: "lstage i e e1" and c: "w \<longrightarrow> covered e1" and q: "kept (accounts e1 ! i) = kept ?a"
    show "okP (fee_debt_sweep i e1) ?P"
      by (rule okP_mono[OF sweep_spec[OF lstage_D(1)[OF l]]]) (use lstage_trans[OF l] c q in auto)
  qed
qed

theorem finalize_touched_spec:
  assumes g: "good e" and c: "ctx_ok ctx"
  shows "okP (finalize_touched_accounts_post_live ctx e)
     (\<lambda>_ e'. stage (set (touched ctx)) e e' \<and> mkt_fields e' = mkt_fields e
        \<and> (\<forall>j. kept (accounts e' ! j) = kept (accounts e ! j)))"
proof -
  define w where "w = whole_snapshot e"
  define S where "S = set (touched ctx)"
  let ?I = "\<lambda>e'. stage S e e' \<and> mkt_fields e' = mkt_fields e \<and> (w \<longrightarrow> covered e')
        \<and> (\<forall>j. kept (accounts e' ! j) = kept (accounts e ! j))"
  have "okP (sfor (sort (touched ctx)) (finalize_one w) e) (\<lambda>_ e'. ?I e')"
  proof (rule okP_sfor)
    show "?I e" using stage_refl[OF g] whole_covered[OF _ g] by (simp add: w_def)
    fix i s assume i: "i \<in> set (sort (touched ctx))" and I: "?I s"
    have gs: "good s" using I stage_D(1) by blast
    have ws: "w \<longrightarrow> covered s" using I by blast
    show "okP (finalize_one w i s) (\<lambda>_ s'. ?I s')"
    proof (rule okP_mono[OF finalize_one_spec[OF gs ws]], elim conjE)
      fix u s' assume l: "lstage i s s'" and cv: "w \<longrightarrow> covered s'"
        and q: "kept (accounts s' ! i) = kept (accounts s ! i)"
      have st: "stage S s s'"
        using l i stage_mono[of "{i}" s s' S] by (simp add: lstage_def S_def)
      have "kept (accounts s' ! j) = kept (accounts e ! j)" for j
        using I q stage_D(8)[OF lstage_D(2)[OF l], of j] by (cases "j = i") simp_all
      then show "?I s'"
        using I st cv l stage_trans by (auto simp: lstage_def)
    qed
  qed
  then show ?thesis
    unfolding finalize_touched_accounts_post_live_def Let_def finalize_order[OF c] w_def[symmetric]
    by (rule okP_mono) (simp add: S_def)
qed

end
