(* ===== verification/Ops.thy ===== *)
theory Ops
  imports Touch
begin

text \<open>
  The public operations on one account of \<open>src/src/percolator.rs\<close>: \<open>set_owner\<close>,
  \<open>deposit_not_atomic\<close>, \<open>withdraw_not_atomic\<close> and \<open>settle_account_not_atomic\<close>, with the prologue
  and epilogue the live instructions share and what both keep.
\<close>

section \<open>Operations\<close>

definition set_owner :: "nat \<Rightarrow> 8 word list \<Rightarrow> engine \<Rightarrow> unit step" where
  "set_owner idx ow e =
     (if idx \<ge> MAX_ACCOUNTS e \<or> \<not> is_used e idx then (Err Unauthorized, e)
      else if ow = ZERO32 then (Err Unauthorized, e)
      else if owner (accounts e ! idx) \<noteq> ZERO32 then (Err Unauthorized, e)
      else (Ok (), upd idx (\<lambda>a. a\<lparr> owner := ow \<rparr>) e))"

definition deposit_not_atomic :: "nat \<Rightarrow> int \<Rightarrow> int \<Rightarrow> engine \<Rightarrow> unit step" where
  "deposit_not_atomic idx amount now_slot e =
     (if market_mode e \<noteq> Live then (Err Unauthorized, e)
      else if now_slot < current_slot e then (Err Overflow, e)
      else if now_slot < last_market_slot e then (Err Overflow, e)
      else
        sval (check_live_accrual_envelope now_slot e) e (\<lambda>_.
        sval (ok_or Overflow (fit_u128 (vault e + amount))) e (\<lambda>v_candidate.
        if v_candidate > MAX_VAULT_TVL then (Err Overflow, e)
        else
          sthen
            (if \<not> is_used e idx then
               if amount < min_initial_deposit (params e) then (Err InsufficientBalance, e)
               else materialize_at idx now_slot e
             else (Ok (), e)) (\<lambda>_ e.
          if is_used e idx \<and> pnl (accounts e ! idx) = I128_MIN then (Err CorruptState, e)
          else
            let e = e\<lparr> current_slot := now_slot \<rparr>; e = e\<lparr> vault := v_candidate \<rparr> in
            sacct e idx (\<lambda>a.
            sval (ok_or Overflow (fit_u128 (capital a + amount))) e (\<lambda>new_cap.
            sthen (set_capital idx new_cap e) (\<lambda>_ e.
            sthen (settle_losses idx e) (\<lambda>_ e.
            sthen (if position_basis_q (accounts e ! idx) = 0 \<and> pnl (accounts e ! idx) \<ge> 0
                   then fee_debt_sweep idx e else (Ok (), e)) (\<lambda>_ e.
            sval (assert_public_postconditions e) e (\<lambda>_. (Ok (), e)))))))))))"

text \<open>The checks and the market accrual a live instruction starts with.\<close>

definition live_prologue ::
  "int \<Rightarrow> int \<Rightarrow> int \<Rightarrow> nat \<Rightarrow> engine \<Rightarrow> unit outcome"
where
  "live_prologue admit_h_min admit_h_max oracle_price idx e =
     rthen (validate_admission_pair admit_h_min admit_h_max (params e)) (\<lambda>_.
     if oracle_price = 0 \<or> oracle_price > MAX_ORACLE_PRICE then Err Overflow
     else if \<not> is_used e idx then Err AccountNotFound
     else if market_mode e \<noteq> Live then Err Unauthorized
     else Ok ())"

definition accrue_to :: "int \<Rightarrow> int \<Rightarrow> int \<Rightarrow> engine \<Rightarrow> unit step" where
  "accrue_to now_slot oracle_price funding_rate_e9 e =
     sthen (accrue_market_to now_slot oracle_price funding_rate_e9 e) (\<lambda>_ e.
       (Ok (), e\<lparr> current_slot := now_slot \<rparr>))"

text \<open>The end-of-instruction resets and the public postconditions.\<close>

definition live_epilogue :: "instruction_context \<Rightarrow> engine \<Rightarrow> unit step" where
  "live_epilogue ctx e =
     sthen (schedule_end_of_instruction_resets ctx e) (\<lambda>ctx e.
     sthen (finalize_end_of_instruction_resets ctx e) (\<lambda>_ e.
     sval (assert_public_postconditions e) e (\<lambda>_. (Ok (), e))))"

text \<open>\<open>as i128\<close> of a \<open>u128\<close>, and \<open>i128::saturating_sub\<close>.\<close>

definition as_i128 :: "int \<Rightarrow> int" where
  "as_i128 x = (if x > I128_MAX then x - 2 ^ 128 else x)"

definition sat_i128 :: "int \<Rightarrow> int" where
  "sat_i128 x = max I128_MIN (min I128_MAX x)"

definition withdraw_margin :: "nat \<Rightarrow> int \<Rightarrow> int \<Rightarrow> engine \<Rightarrow> unit outcome" where
  "withdraw_margin idx amount oracle_price e =
     rthen (effective_pos_q idx e) (\<lambda>eff.
     if eff \<noteq> 0 then
       acct e idx (\<lambda>a.
       rthen (account_equity_withdraw_raw a idx e) (\<lambda>eq_withdraw.
       let eq_post = sat_i128 (eq_withdraw - as_i128 amount) in
       rthen (notional idx oracle_price e) (\<lambda>nt.
       rthen (mul_div_floor_u128 nt (initial_margin_bps (params e)) 10000) (\<lambda>p.
       let im_req = max p (min_nonzero_im_req (params e)) in
       if eq_post < as_i128 im_req then Err Undercollateralized else Ok ()))))
     else Ok ())"

definition withdraw_not_atomic ::
  "nat \<Rightarrow> int \<Rightarrow> int \<Rightarrow> int \<Rightarrow> int \<Rightarrow> int \<Rightarrow> int \<Rightarrow> engine \<Rightarrow> unit step"
where
  "withdraw_not_atomic idx amount oracle_price now_slot funding_rate_e9 admit_h_min admit_h_max e =
     sval (live_prologue admit_h_min admit_h_max oracle_price idx e) e (\<lambda>_.
     let ctx = new_with_admission admit_h_min admit_h_max in
     sthen (accrue_to now_slot oracle_price funding_rate_e9 e) (\<lambda>_ e.
     sthen (touch_account_live_local idx ctx e) (\<lambda>ctx e.
     sthen (finalize_touched_accounts_post_live ctx e) (\<lambda>_ e.
     sacct e idx (\<lambda>a.
     if capital a < amount then (Err InsufficientBalance, e)
     else
       let post_cap = capital a - amount in
       if post_cap \<noteq> 0 \<and> post_cap < min_initial_deposit (params e)
       then (Err InsufficientBalance, e)
       else
         sval (withdraw_margin idx amount oracle_price e) e (\<lambda>_.
         sthen (set_capital idx (capital a - amount) e) (\<lambda>_ e.
         sval (ok_or CorruptState (fit_u128 (vault e - amount))) e (\<lambda>v.
         live_epilogue ctx (e\<lparr> vault := v \<rparr>)))))))))"

definition settle_account_not_atomic ::
  "nat \<Rightarrow> int \<Rightarrow> int \<Rightarrow> int \<Rightarrow> int \<Rightarrow> int \<Rightarrow> engine \<Rightarrow> unit step"
where
  "settle_account_not_atomic idx oracle_price now_slot funding_rate_e9 admit_h_min admit_h_max e =
     sval (live_prologue admit_h_min admit_h_max oracle_price idx e) e (\<lambda>_.
     let ctx = new_with_admission admit_h_min admit_h_max in
     sthen (accrue_to now_slot oracle_price funding_rate_e9 e) (\<lambda>_ e.
     sthen (touch_account_live_local idx ctx e) (\<lambda>ctx e.
     sthen (finalize_touched_accounts_post_live ctx e) (\<lambda>_ e.
     live_epilogue ctx e))))"

section \<open>What the shared parts keep\<close>

text \<open>
  The invariant of the public operations: a well-formed slab and engine, capital and insurance
  covered by the vault, and open interest equal on the two sides.
\<close>

definition inv :: "engine \<Rightarrow> bool" where
  "inv e = (slab_ok e \<and> good e \<and> solvent e \<and> balanced e)"

lemma inv_D:
  assumes "inv e"
  shows "slab_ok e" "good e" "solvent e" "balanced e" "MAX_ACCOUNTS e \<le> NIL"
  using assms by (simp_all add: inv_def slab_ok_def slab_shape_def)

lemma live_prologue_okR:
  "okR (live_prologue lo hi px i e) (\<lambda>_. is_used e i \<and> market_mode e = Live \<and> px \<noteq> 0 \<and> px \<le> MAX_ORACLE_PRICE
     \<and> (0 \<le> lo \<longrightarrow> 0 \<le> hi \<longrightarrow> mode_ok (params e) (UseAdmissionPair lo hi)))"
  using admission_pair_ok[of lo hi "params e" "()"]
  unfolding live_prologue_def okR_rthen okR_if by (auto simp: okR_def)

lemma accrue_to_stage:
  assumes g: "good e" and t: "in_u64 now" "0 \<le> px"
  shows "okP (accrue_to now px rate e) (\<lambda>_ e'. stage {} e e' \<and> balanced e' = balanced e \<and> current_slot e' = now)"
  unfolding accrue_to_def okP_sthen okP_basic
proof (rule okP_mono[OF okP_conj[OF accrue_stage[OF g t] accrue_spec[OF market_ok_typed[OF good_D(3)[OF g]] t]]], elim conjE)
  fix u e1
  assume A: "stage {} e e1" "current_slot e1 = now" "e1 = accrued now px rate e"
  have E: "e1\<lparr> current_slot := now \<rparr> = e1" using A(2) by simp
  have "balanced e1 = balanced e" by (simp add: A(3) accrued_def balanced_def Let_def)
  then show "stage {} e (e1\<lparr> current_slot := now \<rparr>) \<and> balanced (e1\<lparr> current_slot := now \<rparr>) = balanced e
      \<and> current_slot (e1\<lparr> current_slot := now \<rparr>) = now"
    unfolding E using A(1,2) by blast
qed

lemma epilogue_spec:
  assumes g: "good e"
  shows "okP (live_epilogue ctx e) (\<lambda>_ e'. stage {} e e' \<and> solvent e' \<and> balanced e')"
  unfolding live_epilogue_def
proof (rule okP_then[OF schedule_spec[OF g]], elim conjE)
  fix c e1 assume s1: "stage {} e e1"
  show "okP (sthen (finalize_end_of_instruction_resets c e1)
      (\<lambda>_ e. sval (assert_public_postconditions e) e (\<lambda>_. (Ok (), e))))
     (\<lambda>_ e'. stage {} e e' \<and> solvent e' \<and> balanced e')"
  proof (rule okP_then[OF finalize_resets_spec[OF stage_D(1)[OF s1]]], elim conjE)
    fix u e2 assume s2: "stage {} e1 e2"
    show "okP (sval (assert_public_postconditions e2) e2 (\<lambda>_. (Ok (), e2)))
       (\<lambda>_ e'. stage {} e e' \<and> solvent e' \<and> balanced e')"
      unfolding okP_sval okP_basic
      by (rule okR_mono[OF postconditions_okR]) (use stage_trans[OF s1 s2] in blast)
  qed
qed

text \<open>The shared body of the one-account instructions: accrue, touch, finalise.\<close>

lemma touch_one_spec:
  assumes g: "good e" and n: "MAX_ACCOUNTS e \<le> NIL" and t: "in_u64 now" "0 \<le> px"
    and md: "mode_ok (params e) (UseAdmissionPair lo hi)"
    and k: "\<And>c e3. stage {i} e e3 \<Longrightarrow> is_used e i \<Longrightarrow> i < MAX_ACCOUNTS e \<Longrightarrow> market_mode e = Live
        \<Longrightarrow> current_slot e3 = now \<Longrightarrow> okP (k c e3) P"
  shows "okP (sthen (accrue_to now px rate e) (\<lambda>_ e.
     sthen (touch_account_live_local i (new_with_admission lo hi) e) (\<lambda>ctx e.
     sthen (finalize_touched_accounts_post_live ctx e) (\<lambda>_ e. k ctx e)))) P"
proof (rule okP_then[OF accrue_to_stage[OF g t]], elim conjE)
  fix u e1 assume s1: "stage {} e e1" and c1: "current_slot e1 = now"
  note D1 = stage_D[OF s1]
  show "okP (sthen (touch_account_live_local i (new_with_admission lo hi) e1) (\<lambda>ctx e.
     sthen (finalize_touched_accounts_post_live ctx e) (\<lambda>_ e. k ctx e))) P"
  proof (rule okP_then[OF touch_spec[OF D1(1) ctx_ok_new(1)]])
    show "mode_ok (params e1) (ctx_mode (new_with_admission lo hi))"
      using md D1(3) by (simp add: new_with_admission_def)
    fix c2 e2
    assume A: "i < MAX_ACCOUNTS e1 \<and> is_used e1 i \<and> market_mode e1 = Live \<and> lstage i e1 e2 \<and> settled i e2
     \<and> ctx_ok c2 \<and> ctx_admits (new_with_admission lo hi) c2
     \<and> set (touched c2) = insert (i mod 65536) (set (touched (new_with_admission lo hi)))"
    have im: "i mod 65536 = i" using A n D1(5) by (simp add: NIL_def)
    have tc: "set (touched c2) = {i}" using A unfolding im by (simp add: touched_def new_with_admission_def)
    have l2: "lstage i e1 e2" and co: "ctx_ok c2" using A by blast+
    show "okP (sthen (finalize_touched_accounts_post_live c2 e2) (\<lambda>_ e. k c2 e)) P"
    proof (rule okP_then[OF finalize_touched_spec[OF lstage_D(1)[OF l2] co]], elim conjE)
      fix v e3 assume s3: "stage (set (touched c2)) e2 e3" and m3: "mkt_fields e3 = mkt_fields e2"
      have "stage {i} e e3"
        using stage_trans[OF stage_trans[OF stage_mono[OF s1]] s3[unfolded tc]] lstage_D(2)[OF l2] by blast
      moreover have "current_slot e3 = now"
        using c1 lstage_D(7)[OF l2] mkt_fields_reads(7)[OF m3] by simp
      ultimately show "okP (k c2 e3) P" using k A D1(4,5,6) by simp
    qed
  qed
qed

section \<open>Deposit, withdraw and settle keep the invariant\<close>

lemma materialized_good:
  assumes g: "good e" and ok: "slab_ok e" and i: "i < MAX_ACCOUNTS e" "\<not> is_used e i"
  shows "good (materialized i slot e)"
    "accounts (materialized i slot e) ! i = empty_account\<lparr> last_fee_slot := slot \<rparr>"
    "j \<noteq> i \<Longrightarrow> accounts (materialized i slot e) ! j = accounts e ! j"
    "vault (materialized i slot e) = vault e" "ins_bal (materialized i slot e) = ins_bal e"
    "c_tot (materialized i slot e) = c_tot e" "balanced (materialized i slot e) = balanced e"
    "market_mode (materialized i slot e) = market_mode e" "params (materialized i slot e) = params e"
    "MAX_ACCOUNTS (materialized i slot e) = MAX_ACCOUNTS e"
    "market_ok (materialized i slot e) = market_ok e"
proof -
  let ?m = "materialized i slot e"
  show a: "accounts ?m ! i = empty_account\<lparr> last_fee_slot := slot \<rparr>"
    using i by (simp add: reset_account_eq)
  show b: "j \<noteq> i \<Longrightarrow> accounts ?m ! j = accounts e ! j" for j by simp
  show f: "vault ?m = vault e" "ins_bal ?m = ins_bal e" "c_tot ?m = c_tot e" "balanced ?m = balanced e"
    "market_mode ?m = market_mode e" "params ?m = params e" "MAX_ACCOUNTS ?m = MAX_ACCOUNTS e"
    "market_ok ?m = market_ok e"
    by (simp_all add: materialized_def Let_def set_used_def balanced_def market_ok_def)
  have "fees_ok ?m"
    unfolding fees_ok_def f
  proof (intro allI impI)
    fix j assume "j < MAX_ACCOUNTS e"
    then show "fee_ok (accounts ?m ! j)"
      using good_D(2)[OF g] a b[of j]
      by (cases "j = i") (simp_all add: fees_ok_def fee_ok_def empty_account_def bounds)
  qed
  then show "good ?m"
    using g materialized_pnl_inv[OF good_D(1)[OF g] ok i] f by (simp add: good_def)
qed

lemma good_clock:
  assumes "good e" "current_slot e \<le> now" "in_u64 now" "in_u128 v"
  shows "good (e\<lparr> current_slot := now, vault := v \<rparr>)"
proof -
  have "pnl_inv (e\<lparr> current_slot := now, vault := v \<rparr>)" "fees_ok (e\<lparr> current_slot := now, vault := v \<rparr>)"
    using good_D(1,2)[OF assms(1)] by (simp_all add: pnl_inv_def agg_def accts_ok_def fees_ok_def)
  then show ?thesis
    using good_D[OF assms(1)] assms(2-4) by (simp add: good_def market_ok_def)
qed

lemma slab_ok_clock: "slab_ok (e\<lparr> current_slot := now, vault := v \<rparr>) = slab_ok e"
  by (simp add: slab_ok_def slab_shape_def free_chain_def used_set_def is_used_bit)

lemma is_used_clock: "is_used (e\<lparr> current_slot := now, vault := v \<rparr>) j = is_used e j"
  by (simp add: is_used_bit)

text \<open>
  A deposit adds the amount to the vault and to the equity of the slot, which it materialises when
  it is vacant; no other account changes.
\<close>

definition deposited :: "nat \<Rightarrow> int \<Rightarrow> int \<Rightarrow> engine \<Rightarrow> engine \<Rightarrow> bool" where
  "deposited i amount now e e' =
     (market_mode e = Live \<and> i < MAX_ACCOUNTS e \<and> is_used e' i
      \<and> (is_used e i \<or> min_initial_deposit (params e) \<le> amount)
      \<and> vault e' = vault e + amount \<and> vault e' \<le> MAX_VAULT_TVL \<and> current_slot e' = now
      \<and> current_slot e \<le> now \<and> params e' = params e \<and> market_mode e' = market_mode e
      \<and> eqm (accounts e' ! i) = eqm (accounts e ! i) + amount
      \<and> (\<forall>j. j \<noteq> i \<longrightarrow> accounts e' ! j = accounts e ! j))"

lemma deposit_tail:
  assumes g: "good e1" and i: "i < MAX_ACCOUNTS e1" "is_used e1 i" and ok: "slab_ok e1"
    and am: "0 \<le> amount" and now: "current_slot e1 \<le> now" "in_u64 now" and v: "in_u128 v" "v \<le> MAX_VAULT_TVL"
  shows "okP (let e = e1\<lparr> current_slot := now \<rparr>; e = e\<lparr> vault := v \<rparr> in
            sacct e i (\<lambda>a.
            sval (ok_or Overflow (fit_u128 (capital a + amount))) e (\<lambda>new_cap.
            sthen (set_capital i new_cap e) (\<lambda>_ e.
            sthen (settle_losses i e) (\<lambda>_ e.
            sthen (if position_basis_q (accounts e ! i) = 0 \<and> pnl (accounts e ! i) \<ge> 0
                   then fee_debt_sweep i e else (Ok (), e)) (\<lambda>_ e.
            sval (assert_public_postconditions e) e (\<lambda>_. (Ok (), e))))))))
     (\<lambda>_ e'. inv e' \<and> is_used e' i \<and> vault e' = v \<and> params e' = params e1 \<and> market_mode e' = market_mode e1
        \<and> current_slot e' = now \<and> eqm (accounts e' ! i) = eqm (accounts e1 ! i) + amount
        \<and> (\<forall>j. j \<noteq> i \<longrightarrow> accounts e' ! j = accounts e1 ! j))"
    (is "okP _ ?P")
proof -
  define e2 where "e2 = e1\<lparr> current_slot := now, vault := v \<rparr>"
  have g2: "good e2" unfolding e2_def by (rule good_clock[OF g now v(1)])
  have a2: "accounts e2 = accounts e1" "vault e2 = v" "params e2 = params e1" "market_mode e2 = market_mode e1"
    "current_slot e2 = now" "slab_fields e2 = slab_fields e1" by (simp_all add: e2_def slab_fields_def)
  have eq: "(e1\<lparr> current_slot := now \<rparr>)\<lparr> vault := v \<rparr> = e2" by (simp add: e2_def)
  show ?thesis
    unfolding Let_def eq okP_sacct okP_sval okR_ok_or fit_Some
  proof (intro impI allI, elim conjE, hypsubst, rule okP_then[OF set_capital_spec], elim conjE)
    fix u e3
    let ?c = "capital (accounts e2 ! i) + amount"
    assume c: "in_u128 ?c" and e3: "e3 = cap_effect i ?c e2" and i2: "i < MAX_ACCOUNTS e2"
    note C = cap_effect_good[OF g2 i2 c, folded e3]
    note F3 = cap_effect_frame[of i e2 ?c, folded e3]
    show "okP (sthen (settle_losses i e3) (\<lambda>_ e.
            sthen (if position_basis_q (accounts e ! i) = 0 \<and> pnl (accounts e ! i) \<ge> 0
                   then fee_debt_sweep i e else (Ok (), e)) (\<lambda>_ e.
            sval (assert_public_postconditions e) e (\<lambda>_. (Ok (), e))))) ?P"
    proof (rule okP_then[OF settle_losses_spec[OF C(1)]], elim conjE)
      fix w e4 assume l4: "lstage i e3 e4" and s4: "loss_settled i e3 e4"
      have q4: "eqm (accounts e4 ! i) = eqm (accounts e3 ! i)"
        using s4 by (auto simp: loss_settled_def eqm_def Let_def)
      have sw: "okP (if position_basis_q (accounts e4 ! i) = 0 \<and> pnl (accounts e4 ! i) \<ge> 0
                   then fee_debt_sweep i e4 else (Ok (), e4))
           (\<lambda>_ e5. lstage i e4 e5 \<and> eqm (accounts e5 ! i) = eqm (accounts e4 ! i))"
      proof -
        have "okP (fee_debt_sweep i e4) (\<lambda>_ e5. lstage i e4 e5 \<and> eqm (accounts e5 ! i) = eqm (accounts e4 ! i))"
          by (rule okP_mono[OF sweep_spec[OF lstage_D(1)[OF l4]]]) (blast dest: kept_D(1))
        then show ?thesis using lstage_refl[OF lstage_D(1)[OF l4]] by (simp add: okP_if)
      qed
      show "okP (sthen (if position_basis_q (accounts e4 ! i) = 0 \<and> pnl (accounts e4 ! i) \<ge> 0
                   then fee_debt_sweep i e4 else (Ok (), e4)) (\<lambda>_ e.
            sval (assert_public_postconditions e) e (\<lambda>_. (Ok (), e)))) ?P"
      proof (rule okP_then[OF sw], elim conjE)
        fix x e5 assume l5: "lstage i e4 e5" and q5: "eqm (accounts e5 ! i) = eqm (accounts e4 ! i)"
        have l: "lstage i e3 e5" by (rule lstage_trans[OF l4 l5])
        note S = stage_D[OF lstage_D(2)[OF l]]
        have oth: "accounts e5 ! j = accounts e1 ! j" if "j \<noteq> i" for j
          using that S(8)[of j] frame_D(6)[OF F3, of j] a2(1) by simp
        have sf: "slab_fields e5 = slab_fields e1"
          using l F3 a2(6) by (simp add: lstage_def stage_def frame_def)
        have pe: "params e5 = params e1" using S(3) frame_D(3)[OF F3] a2(3) by simp
        have sl: "slab_ok e5" by (rule slab_fields_ok[OF sf _ pe ok, of "{i}"]) (use oth i in auto)
        have us: "is_used e5 i" using sf i(2) by (simp add: slab_fields_def is_used_bit)
        have rest: "vault e5 = v" "market_mode e5 = market_mode e1" "current_slot e5 = now"
          using S(2,4) frame_D(1,4)[OF F3] a2 lstage_D(7)[OF l] F3
          by (simp_all add: frame_def mkt_fields_def)
        have q: "eqm (accounts e5 ! i) = eqm (accounts e1 ! i) + amount"
          using q4 q5 C(3) a2(1) by (simp add: eqm_def)
        show "okP (sval (assert_public_postconditions e5) e5 (\<lambda>_. (Ok (), e5))) ?P"
          unfolding okP_sval okP_basic
          by (rule okR_mono[OF postconditions_okR])
            (use sl S(1) us rest q oth pe in \<open>simp add: inv_def\<close>)
      qed
    qed
  qed
qed

theorem deposit_spec:
  assumes v: "inv e" and t: "in_u64 now" "0 \<le> amount"
  shows "okP (deposit_not_atomic i amount now e) (\<lambda>_ e'. inv e' \<and> deposited i amount now e e')"
    (is "okP _ ?P")
proof -
  note I = inv_D[OF v]
  define P where "P = ?P"
  have tail: "okP (if is_used e1 i \<and> pnl (accounts e1 ! i) = I128_MIN then (Err CorruptState, e1)
          else
            let e = e1\<lparr> current_slot := now \<rparr>; e = e\<lparr> vault := v \<rparr> in
            sacct e i (\<lambda>a.
            sval (ok_or Overflow (fit_u128 (capital a + amount))) e (\<lambda>new_cap.
            sthen (set_capital i new_cap e) (\<lambda>_ e.
            sthen (settle_losses i e) (\<lambda>_ e.
            sthen (if position_basis_q (accounts e ! i) = 0 \<and> pnl (accounts e ! i) \<ge> 0
                   then fee_debt_sweep i e else (Ok (), e)) (\<lambda>_ e.
            sval (assert_public_postconditions e) e (\<lambda>_. (Ok (), e)))))))) P"
    if g1: "good e1" and u: "is_used e1 i" "i < MAX_ACCOUNTS e1" and ok: "slab_ok e1"
      and cur: "current_slot e1 \<le> now" and m: "market_mode e = Live" "current_slot e \<le> now"
      and vv: "in_u128 v" "v \<le> MAX_VAULT_TVL" "v = vault e + amount"
      and same: "params e1 = params e" "market_mode e1 = market_mode e" "MAX_ACCOUNTS e1 = MAX_ACCOUNTS e"
        "eqm (accounts e1 ! i) = eqm (accounts e ! i)" "\<And>j. j \<noteq> i \<Longrightarrow> accounts e1 ! j = accounts e ! j"
      and dep: "is_used e i \<or> min_initial_deposit (params e) \<le> amount" for e1 v
  proof -
    have nm: "\<not> (is_used e1 i \<and> pnl (accounts e1 ! i) = I128_MIN)" using acct_typed(3)[OF g1 u(2)] by blast
    show ?thesis
      unfolding if_not_P[OF nm]
      by (rule okP_mono[OF deposit_tail[OF g1 u(2) u(1) ok t(2) cur t(1) vv(1,2)]])
        (use same m vv u dep in \<open>simp add: P_def deposited_def\<close>)
  qed
  have main: "okP (sthen
            (if \<not> is_used e i then
               if amount < min_initial_deposit (params e) then (Err InsufficientBalance, e)
               else materialize_at i now e
             else (Ok (), e)) (\<lambda>_ e1.
          if is_used e1 i \<and> pnl (accounts e1 ! i) = I128_MIN then (Err CorruptState, e1)
          else
            let e = e1\<lparr> current_slot := now \<rparr>; e = e\<lparr> vault := v \<rparr> in
            sacct e i (\<lambda>a.
            sval (ok_or Overflow (fit_u128 (capital a + amount))) e (\<lambda>new_cap.
            sthen (set_capital i new_cap e) (\<lambda>_ e.
            sthen (settle_losses i e) (\<lambda>_ e.
            sthen (if position_basis_q (accounts e ! i) = 0 \<and> pnl (accounts e ! i) \<ge> 0
                   then fee_debt_sweep i e else (Ok (), e)) (\<lambda>_ e.
            sval (assert_public_postconditions e) e (\<lambda>_. (Ok (), e))))))))) P"
    if m: "market_mode e = Live" "current_slot e \<le> now"
      and vv: "in_u128 v" "v \<le> MAX_VAULT_TVL" "v = vault e + amount" for v
  proof (cases "is_used e i")
    case True
    have i: "i < MAX_ACCOUNTS e" using True by (simp add: is_used_def split: if_splits)
    show ?thesis
      using tail[OF I(2) True i I(1) m(2) m vv] True by simp
  next
    case False
    show ?thesis
    proof (cases "amount < min_initial_deposit (params e)")
      case True
      then show ?thesis using False by simp
    next
      case ge: False
      from materialize_cases[OF I(1), of i now] show ?thesis
      proof (elim disjE exE conjE)
        fix e1 assume M: "materialize_at i now e = (Ok (), e1)" and i: "i < MAX_ACCOUNTS e"
          "int i < max_accounts (params e)" and s1: "slab_ok e1"
        have e1: "e1 = materialized i now e"
          using M materialize_at_free[OF I(1) i(1) False i(2)] by simp
        note G = materialized_good[OF I(2,1) i(1) False, where slot = now, folded e1]
        have sh: "slab_shape e" using I(1) by (simp add: slab_ok_def)
        have us: "is_used e1 i" using is_used_materialized[OF sh i(1)] by (simp add: e1)
        have vac: "accounts e ! i = empty_account" using I(1) i False by (simp add: slab_ok_def vacant_def)
        have q: "eqm (accounts e1 ! i) = eqm (accounts e ! i)" by (simp add: G(2) vac eqm_def empty_account_def)
        have cs: "current_slot e1 = current_slot e" by (simp add: e1 materialized_def Let_def set_used_def)
        show ?thesis
          using tail[OF G(1) us _ s1 _ m vv G(9,8,10) q G(3)] i ge False M cs m G(10) by simp
      next
        fix x assume "materialize_at i now e = (Err x, e)"
        then show ?thesis using False ge by simp
      qed
    qed
  qed
  have "okP (deposit_not_atomic i amount now e) P"
    unfolding deposit_not_atomic_def okP_if okP_sval okR_ok_or fit_Some
    using main by (auto intro!: okR_I)
  then show ?thesis by (simp only: P_def)
qed

text \<open>From a stage on one used account and a change of its capital and the vault to the invariant.\<close>

lemma paid_out_good:
  assumes g: "good e" and i: "i < MAX_ACCOUNTS e" and c: "in_u128 c" and v: "in_u128 v"
  shows "good ((cap_effect i c e)\<lparr> vault := v \<rparr>)"
proof -
  let ?e = "cap_effect i c e"
  have g1: "good ?e" by (rule cap_effect_good(1)[OF g i c])
  have "pnl_inv (?e\<lparr> vault := v \<rparr>)" "fees_ok (?e\<lparr> vault := v \<rparr>)" "market_ok (?e\<lparr> vault := v \<rparr>)"
    using good_D(1,2,3)[OF g1] by (simp_all add: pnl_inv_def agg_def accts_ok_def fees_ok_def market_ok_def)
  then show ?thesis using good_D[OF g1] v by (simp add: good_def)
qed

lemma epilogue_inv:
  assumes g: "good e1" and sf: "slab_fields e1 = slab_fields e" and pe: "params e1 = params e"
    and ok: "slab_ok e" and o: "\<And>j. j \<notin> S \<Longrightarrow> accounts e1 ! j = accounts e ! j"
    and u: "\<And>j. j \<in> S \<Longrightarrow> is_used e j"
  shows "okP (live_epilogue ctx e1) (\<lambda>_ e'. inv e' \<and> stage {} e1 e')"
proof -
  have ok1: "slab_ok e1" by (rule slab_fields_ok[OF sf _ pe ok, of S]) (use o u in auto)
  show ?thesis
  proof (rule okP_mono[OF epilogue_spec[OF g]], elim conjE)
    fix x e' assume "stage {} e1 e'" "solvent e'" "balanced e'"
    then show "inv e' \<and> stage {} e1 e'"
      using stage_slab[of "{}" e1 e'] ok1 stage_D(1) by (simp add: inv_def)
  qed
qed

lemma stage_epilogue_inv:
  assumes s: "stage S e e1" and v: "inv e" and u: "\<And>j. j \<in> S \<Longrightarrow> is_used e j"
  shows "okP (live_epilogue ctx e1) (\<lambda>_ e'. inv e' \<and> stage S e e')"
proof (rule okP_mono[OF epilogue_inv[OF stage_D(1)[OF s] _ stage_D(3)[OF s] inv_D(1)[OF v] stage_D(8)[OF s] u]])
  show "slab_fields e1 = slab_fields e" using s by (simp add: stage_def)
  show "inv e' \<and> stage {} e1 e' \<Longrightarrow> inv e' \<and> stage S e e'" for e'
    using stage_trans[OF s] stage_mono by blast
qed

theorem settle_account_spec:
  assumes v: "inv e" and t: "in_u64 now" "0 \<le> px" "0 \<le> lo" "0 \<le> hi"
  shows "okP (settle_account_not_atomic i px now rate lo hi e) (\<lambda>_ e'. inv e' \<and> stage {i} e e')"
  unfolding settle_account_not_atomic_def okP_sval Let_def
proof (rule okR_mono[OF live_prologue_okR], elim conjE)
  fix u :: unit assume md: "0 \<le> lo \<longrightarrow> 0 \<le> hi \<longrightarrow> mode_ok (params e) (UseAdmissionPair lo hi)"
  show "okP (sthen (accrue_to now px rate e) (\<lambda>_ e.
     sthen (touch_account_live_local i (new_with_admission lo hi) e) (\<lambda>ctx e.
     sthen (finalize_touched_accounts_post_live ctx e) (\<lambda>_ e. live_epilogue ctx e))))
     (\<lambda>_ e'. inv e' \<and> stage {i} e e')"
    by (rule touch_one_spec[OF inv_D(2,5)[OF v] t(1,2)])
      (use md t(3,4) stage_epilogue_inv[OF _ v] in auto)
qed

text \<open>
  A withdrawal pays exactly the amount out of the vault, leaves the slot with no capital or with at
  least the minimum deposit, and touches no other account.
\<close>

definition withdrawn :: "nat \<Rightarrow> int \<Rightarrow> engine \<Rightarrow> engine \<Rightarrow> bool" where
  "withdrawn i amount e e' =
     (market_mode e = Live \<and> is_used e i \<and> vault e' = vault e - amount \<and> params e' = params e
      \<and> market_mode e' = market_mode e
      \<and> 0 \<le> capital (accounts e' ! i)
      \<and> (capital (accounts e' ! i) = 0 \<or> min_initial_deposit (params e) \<le> capital (accounts e' ! i))
      \<and> (\<forall>j. j \<noteq> i \<longrightarrow> accounts e' ! j = accounts e ! j))"

theorem withdraw_spec:
  assumes v: "inv e" and t: "in_u64 now" "0 \<le> px" "0 \<le> lo" "0 \<le> hi" "0 \<le> amount"
  shows "okP (withdraw_not_atomic i amount px now rate lo hi e) (\<lambda>_ e'. inv e' \<and> withdrawn i amount e e')"
    (is "okP _ ?P")
  unfolding withdraw_not_atomic_def okP_sval Let_def
proof (rule okR_mono[OF live_prologue_okR], elim conjE)
  fix u :: unit
  assume md: "0 \<le> lo \<longrightarrow> 0 \<le> hi \<longrightarrow> mode_ok (params e) (UseAdmissionPair lo hi)"
    and us: "is_used e i" and L: "market_mode e = Live"
  show "okP (sthen (accrue_to now px rate e) (\<lambda>_ e.
     sthen (touch_account_live_local i (new_with_admission lo hi) e) (\<lambda>ctx e.
     sthen (finalize_touched_accounts_post_live ctx e) (\<lambda>_ e.
     sacct e i (\<lambda>a.
     if capital a < amount then (Err InsufficientBalance, e)
     else if capital a - amount \<noteq> 0 \<and> capital a - amount < min_initial_deposit (params e)
       then (Err InsufficientBalance, e)
       else
         sval (withdraw_margin i amount px e) e (\<lambda>_.
         sthen (set_capital i (capital a - amount) e) (\<lambda>_ e.
         sval (ok_or CorruptState (fit_u128 (vault e - amount))) e (\<lambda>v.
         live_epilogue ctx (e\<lparr> vault := v \<rparr>))))))))) ?P"
  proof (rule touch_one_spec[OF inv_D(2,5)[OF v] t(1,2)])
    show "mode_ok (params e) (UseAdmissionPair lo hi)" using md t by simp
    fix c e3 assume s: "stage {i} e e3" and i: "i < MAX_ACCOUNTS e"
    note S = stage_D[OF s]
    let ?a = "accounts e3 ! i"
    have i3: "i < MAX_ACCOUNTS e3" using i S(5) by simp
    have pay: "okP (sthen (set_capital i (capital ?a - amount) e3) (\<lambda>_ e.
         sval (ok_or CorruptState (fit_u128 (vault e - amount))) e (\<lambda>v.
         live_epilogue c (e\<lparr> vault := v \<rparr>)))) ?P"
      if le: "amount \<le> capital ?a"
        and d: "capital ?a - amount = 0 \<or> min_initial_deposit (params e3) \<le> capital ?a - amount"
    proof (rule okP_then[OF set_capital_spec], elim conjE, unfold okP_sval okR_ok_or fit_Some, intro allI impI, elim conjE, hypsubst)
      fix w
      let ?c = "capital ?a - amount"
      define e4 where "e4 = cap_effect i ?c e3"
      assume v4: "in_u128 (vault (cap_effect i ?c e3) - amount)"
      have c: "in_u128 ?c" using le t(5) acct_typed(1)[OF S(1) i3] by (simp add: in_u128_def)
      have v3: "vault (cap_effect i ?c e3) = vault e3" by (simp add: cap_effect_def)
      define e5 where "e5 = e4\<lparr> vault := vault e3 - amount \<rparr>"
      have g5: "good e5" unfolding e5_def e4_def by (rule paid_out_good[OF S(1) i3 c]) (use v4 v3 in simp)
      have f5: "slab_fields e5 = slab_fields e" "params e5 = params e" "market_mode e5 = market_mode e"
        "vault e5 = vault e - amount" "capital (accounts e5 ! i) = ?c"
        "\<And>j. j \<noteq> i \<Longrightarrow> accounts e5 ! j = accounts e ! j"
        using s S i3 by (simp_all add: e5_def e4_def cap_effect_def slab_fields_def stage_def)
      have "okP (live_epilogue c e5) ?P"
      proof (rule okP_mono[OF epilogue_inv[OF g5 f5(1,2) inv_D(1)[OF v], of "{i}"]])
        show "accounts e5 ! j = accounts e ! j" if "j \<notin> {i}" for j using f5(6) that by simp
        show "is_used e j" if "j \<in> {i}" for j using us that by simp
        fix x e' assume A: "inv e' \<and> stage {} e5 e'"
        then have st: "stage {} e5 e'" by blast
        note E = stage_D[OF st]
        have "accounts e' ! j = accounts e5 ! j" for j using E(8) by simp
        then show "inv e' \<and> withdrawn i amount e e'"
          using A E(2,3,4) f5 d c S(3) L us by (simp add: withdrawn_def in_u128_def)
      qed
      then show "okP (live_epilogue c ((cap_effect i ?c e3)\<lparr> vault := vault (cap_effect i ?c e3) - amount \<rparr>)) ?P"
        by (simp only: e5_def e4_def v3)
    qed
    show "okP (sacct e3 i (\<lambda>a.
     if capital a < amount then (Err InsufficientBalance, e3)
     else if capital a - amount \<noteq> 0 \<and> capital a - amount < min_initial_deposit (params e3)
       then (Err InsufficientBalance, e3)
       else
         sval (withdraw_margin i amount px e3) e3 (\<lambda>_.
         sthen (set_capital i (capital a - amount) e3) (\<lambda>_ e.
         sval (ok_or CorruptState (fit_u128 (vault e - amount))) e (\<lambda>v.
         live_epilogue c (e\<lparr> vault := v \<rparr>)))))) ?P"
      unfolding okP_sacct okP_if okP_sval[of "withdraw_margin i amount px e3"]
      using pay by (auto intro!: okR_I simp: not_less)
  qed
qed

section \<open>Instructions that touch several accounts\<close>

text \<open>
  The state in the middle of an instruction: a stage on the accounts of \<open>S\<close>, with a context whose
  touched accounts lie in \<open>S\<close>.
\<close>

definition touching ::
  "nat set \<Rightarrow> int \<Rightarrow> int \<Rightarrow> engine \<Rightarrow> instruction_context \<Rightarrow> engine \<Rightarrow> bool"
where
  "touching S lo hi e0 c e =
     (stage S e0 e \<and> ctx_ok c \<and> ctx_mode c = UseAdmissionPair lo hi \<and> set (touched c) \<subseteq> S)"

lemma touching_D:
  assumes "touching S lo hi e0 c e"
  shows "stage S e0 e" "ctx_ok c" "ctx_mode c = UseAdmissionPair lo hi" "set (touched c) \<subseteq> S" "good e"
    "params e = params e0" "MAX_ACCOUNTS e = MAX_ACCOUNTS e0" "\<And>j. is_used e j = is_used e0 j"
  using assms stage_D(1,3,5,6) by (auto simp: touching_def)

lemma touching_new: "good e \<Longrightarrow> touching S lo hi e (new_with_admission lo hi) e"
  by (simp add: touching_def stage_refl) (simp add: new_with_admission_def touched_def)

lemma touching_stage: "touching S lo hi e0 c e \<Longrightarrow> stage S e e' \<Longrightarrow> touching S lo hi e0 c e'"
  using stage_trans by (auto simp: touching_def)

lemma touching_rel: "touching S lo hi e0 c e \<Longrightarrow> ctx_rel c c' \<Longrightarrow> touching S lo hi e0 c' e"
  by (simp add: touching_def ctx_rel_def)

lemma touch_into:
  assumes T: "touching S lo hi e0 c e" and md: "mode_ok (params e0) (UseAdmissionPair lo hi)"
    and i: "i \<in> S" and n: "MAX_ACCOUNTS e0 \<le> NIL"
  shows "okP (touch_account_live_local i c e) (\<lambda>c' e'. touching S lo hi e0 c' e' \<and> is_used e0 i
     \<and> i < MAX_ACCOUNTS e0 \<and> lstage i e e' \<and> settled i e')"
proof (rule okP_mono[OF touch_spec[OF touching_D(5,2)[OF T]]])
  show "mode_ok (params e) (ctx_mode c)" using md touching_D(3,6)[OF T] by simp
  fix c' e'
  assume A: "i < MAX_ACCOUNTS e \<and> is_used e i \<and> market_mode e = Live \<and> lstage i e e' \<and> settled i e'
     \<and> ctx_ok c' \<and> ctx_admits c c' \<and> set (touched c') = insert (i mod 65536) (set (touched c))"
  have im: "i mod 65536 = i" using A n touching_D(7)[OF T] by (simp add: NIL_def)
  have "stage S e0 e'" using A stage_trans[OF touching_D(1)[OF T]] stage_mono[OF lstage_D(2)] i by blast
  then have "touching S lo hi e0 c' e'"
    using A touching_D(3,4)[OF T] i by (simp add: touching_def ctx_admits_def im)
  then show "touching S lo hi e0 c' e' \<and> is_used e0 i \<and> i < MAX_ACCOUNTS e0 \<and> lstage i e e' \<and> settled i e'"
    using A touching_D(7,8)[OF T] by simp
qed

lemma touching_finish:
  assumes T: "touching S lo hi e0 c e" and v: "inv e0" and u: "\<And>j. j \<in> S \<Longrightarrow> is_used e0 j"
  shows "okP (sthen (finalize_touched_accounts_post_live c e) (\<lambda>_ e. live_epilogue c e))
     (\<lambda>_ e'. inv e' \<and> stage S e0 e')"
proof (rule okP_then[OF finalize_touched_spec[OF touching_D(5,2)[OF T]]], elim conjE)
  fix x e1 assume s: "stage (set (touched c)) e e1"
  have "stage S e0 e1" by (rule stage_trans[OF touching_D(1)[OF T] stage_mono[OF s touching_D(4)[OF T]]])
  then show "okP (live_epilogue c e1) (\<lambda>_ e'. inv e' \<and> stage S e0 e')"
    by (rule stage_epilogue_inv[OF _ v u])
qed

end
