(* ===== verification/Trade.thy ===== *)
theory Trade
  imports Ops
begin

text \<open>
  \<open>execute_trade_not_atomic\<close> of \<open>src/src/percolator.rs\<close>: its validation, the bilateral open
  interest, the trade PnL, the fees and the post-trade margin rules.
\<close>

section \<open>Trade PnL and bilateral open interest\<close>

definition compute_trade_pnl :: "int \<Rightarrow> int \<Rightarrow> int outcome" where
  "compute_trade_pnl size_q price_diff =
     (if size_q = 0 \<or> price_diff = 0 then Ok 0
      else
        let result_negative = ((size_q < 0) \<noteq> (price_diff < 0)) in
        rthen (mul_div_floor_u256_with_rem \<bar>size_q\<bar> \<bar>price_diff\<bar> POS_SCALE) (\<lambda>(q, r).
        if result_negative then
          rthen (if r \<noteq> 0 then ok_or Overflow (fit_u256 (q + 1)) else Ok q) (\<lambda>mag.
          (case fit_u128 mag of
             Some v \<Rightarrow> if v \<le> I128_MAX then Ok (- v) else Err Overflow
           | None \<Rightarrow> Err Overflow))
        else
          (case fit_u128 q of
             Some v \<Rightarrow> if v \<le> I128_MAX then Ok v else Err Overflow
           | None \<Rightarrow> Err Overflow)))"

definition checked_u128_mul_i128 :: "int \<Rightarrow> int \<Rightarrow> int outcome" where
  "checked_u128_mul_i128 a b =
     (if a = 0 \<or> b = 0 then Ok 0
      else if b = I128_MIN then Err Overflow
      else
        rthen (ok_or Overflow (fit_u256 (a * \<bar>b\<bar>))) (\<lambda>product.
        (case fit_u128 product of
           Some v \<Rightarrow> if v \<le> I128_MAX then Ok (if b < 0 then - v else v) else Err Overflow
         | None \<Rightarrow> Err Overflow)))"

definition oi_long_component :: "int \<Rightarrow> int" where
  "oi_long_component p = (if p > 0 then p else 0)"

definition oi_short_component :: "int \<Rightarrow> int" where
  "oi_short_component p = (if p < 0 then \<bar>p\<bar> else 0)"

definition bilateral_oi_after :: "int \<Rightarrow> int \<Rightarrow> int \<Rightarrow> int \<Rightarrow> engine \<Rightarrow> (int \<times> int) outcome" where
  "bilateral_oi_after old_a new_a old_b new_b e =
     rthen (ok_or CorruptState (fit_u128 (oi_eff_long_q e - oi_long_component old_a))) (\<lambda>l.
     rthen (ok_or CorruptState (fit_u128 (l - oi_long_component old_b))) (\<lambda>l.
     rthen (ok_or Overflow (fit_u128 (l + oi_long_component new_a))) (\<lambda>l.
     rthen (ok_or Overflow (fit_u128 (l + oi_long_component new_b))) (\<lambda>oi_long_after.
     rthen (ok_or CorruptState (fit_u128 (oi_eff_short_q e - oi_short_component old_a))) (\<lambda>s.
     rthen (ok_or CorruptState (fit_u128 (s - oi_short_component old_b))) (\<lambda>s.
     rthen (ok_or Overflow (fit_u128 (s + oi_short_component new_a))) (\<lambda>s.
     rthen (ok_or Overflow (fit_u128 (s + oi_short_component new_b))) (\<lambda>oi_short_after.
     Ok (oi_long_after, oi_short_after)))))))))"

section \<open>Margin after the trade\<close>

text \<open>The maintenance requirement of a notional.\<close>

definition mm_req_of :: "int \<Rightarrow> engine \<Rightarrow> int outcome" where
  "mm_req_of nt e =
     rthen (mul_div_floor_u128 nt (maintenance_margin_bps (params e)) 10000) (\<lambda>p.
     Ok (max p (min_nonzero_mm_req (params e))))"

definition enforce_one_side_margin ::
  "nat \<Rightarrow> int \<Rightarrow> int \<Rightarrow> int \<Rightarrow> int \<Rightarrow> int \<Rightarrow> int \<Rightarrow> engine \<Rightarrow> unit outcome"
where
  "enforce_one_side_margin idx oracle_price old_eff new_eff buffer_pre fee candidate_trade_pnl e =
     (if new_eff = 0 then
        rthen (if old_eff = 0 then Ok 0
               else rthen (mul_div_floor_u128 \<bar>old_eff\<bar> oracle_price POS_SCALE) (\<lambda>not_pre.
                    mm_req_of not_pre e)) (\<lambda>mm_req_pre_wide.
        rthen (expect (fit_i256 (buffer_pre + mm_req_pre_wide))) (\<lambda>eq_maint_raw_pre.
        let shortfall_pre = (if eq_maint_raw_pre < 0 then eq_maint_raw_pre else 0) in
        acct e idx (\<lambda>a.
        rthen (account_equity_maint_raw_wide a) (\<lambda>eq_maint_raw_post.
        rthen (expect (fit_i256 (eq_maint_raw_post + fee))) (\<lambda>maint_raw_fee_neutral.
        let shortfall_post = (if maint_raw_fee_neutral < 0 then maint_raw_fee_neutral else 0) in
        if (case fit_i256 (shortfall_post - shortfall_pre) of None \<Rightarrow> True | Some d \<Rightarrow> d < 0)
        then Err Undercollateralized else Ok ())))))
      else
        let abs_old = \<bar>old_eff\<bar>; abs_new = \<bar>new_eff\<bar>;
            risk_increasing = (abs_new > abs_old \<or> (old_eff > 0 \<and> new_eff < 0)
              \<or> (old_eff < 0 \<and> new_eff > 0) \<or> old_eff = 0);
            strictly_reducing = (old_eff \<noteq> 0 \<and> new_eff \<noteq> 0
              \<and> ((old_eff > 0 \<and> new_eff > 0) \<or> (old_eff < 0 \<and> new_eff < 0)) \<and> abs_new < abs_old) in
        acct e idx (\<lambda>a.
        if risk_increasing then
          rthen (is_above_initial_margin_trade_open a idx oracle_price candidate_trade_pnl e) (\<lambda>ok.
          if \<not> ok then Err Undercollateralized else Ok ())
        else
          rthen (is_above_maintenance_margin a idx oracle_price e) (\<lambda>ok.
          if ok then Ok ()
          else if strictly_reducing then
            rthen (account_equity_maint_raw_wide a) (\<lambda>maint_raw_wide_post.
            rthen (expect (fit_i256 (maint_raw_wide_post + fee))) (\<lambda>maint_raw_fee_neutral.
            rthen (rthen (notional idx oracle_price e) (\<lambda>nt. mm_req_of nt e)) (\<lambda>mm_req_post.
            rthen (expect (fit_i256 (maint_raw_fee_neutral - mm_req_post))) (\<lambda>buffer_post_fee_neutral.
            rthen (rthen (if old_eff = 0 then Ok 0
                          else mul_div_floor_u128 \<bar>old_eff\<bar> oracle_price POS_SCALE)
                     (\<lambda>not_pre. mm_req_of not_pre e)) (\<lambda>mm_req_pre.
            rthen (expect (fit_i256 (buffer_pre + mm_req_pre))) (\<lambda>maint_raw_pre.
            let cond1 = (buffer_post_fee_neutral > buffer_pre);
                shortfall_post = (if maint_raw_fee_neutral < 0 then maint_raw_fee_neutral else 0);
                shortfall_pre = (if maint_raw_pre < 0 then maint_raw_pre else 0);
                cond2 = (shortfall_post \<ge> shortfall_pre) in
            if cond1 \<and> cond2 then Ok () else Err Undercollateralized))))))
          else Err Undercollateralized)))"

definition enforce_post_trade_margin ::
  "nat \<Rightarrow> nat \<Rightarrow> int \<Rightarrow> int \<Rightarrow> int \<Rightarrow> int \<Rightarrow> int \<Rightarrow> int \<Rightarrow> int \<Rightarrow> int \<Rightarrow> int \<Rightarrow> int \<Rightarrow> int
     \<Rightarrow> engine \<Rightarrow> unit outcome"
where
  "enforce_post_trade_margin a b oracle_price old_eff_a new_eff_a old_eff_b new_eff_b
     buffer_pre_a buffer_pre_b fee_a fee_b trade_pnl_a trade_pnl_b e =
     rthen (enforce_one_side_margin a oracle_price old_eff_a new_eff_a buffer_pre_a fee_a trade_pnl_a e) (\<lambda>_.
     rthen (enforce_one_side_margin b oracle_price old_eff_b new_eff_b buffer_pre_b fee_b trade_pnl_b e) (\<lambda>_.
     Ok ()))"

section \<open>The trade\<close>

text \<open>The checks before any state is touched.\<close>

definition trade_checks ::
  "nat \<Rightarrow> nat \<Rightarrow> int \<Rightarrow> int \<Rightarrow> int \<Rightarrow> int \<Rightarrow> int \<Rightarrow> engine \<Rightarrow> unit outcome"
where
  "trade_checks a b oracle_price size_q exec_price admit_h_min admit_h_max e =
     rthen (validate_admission_pair admit_h_min admit_h_max (params e)) (\<lambda>_.
     if oracle_price = 0 \<or> oracle_price > MAX_ORACLE_PRICE then Err Overflow
     else if exec_price = 0 \<or> exec_price > MAX_ORACLE_PRICE then Err Overflow
     else if size_q \<le> 0 then Err Overflow
     else if size_q > MAX_TRADE_SIZE_Q then Err Overflow
     else
       rthen (mul_div_floor_u128 size_q exec_price POS_SCALE) (\<lambda>trade_notional_check.
       if trade_notional_check > MAX_ACCOUNT_NOTIONAL then Err Overflow
       else if \<not> is_used e a \<or> \<not> is_used e b then Err AccountNotFound
       else if a = b then Err Overflow
       else if market_mode e \<noteq> Live then Err Unauthorized
       else Ok ()))"

text \<open>The dust flush between touching and trading, with a context of its own.\<close>

definition flush_resets :: "engine \<Rightarrow> unit step" where
  "flush_resets e =
     sthen (schedule_end_of_instruction_resets ctx_new e) (\<lambda>reset_ctx e.
     finalize_end_of_instruction_resets reset_ctx e)"

text \<open>Pre-trade equity less the maintenance requirement.\<close>

definition pre_buffer :: "nat \<Rightarrow> int \<Rightarrow> int \<Rightarrow> engine \<Rightarrow> int outcome" where
  "pre_buffer idx old_eff oracle_price e =
     rthen (if old_eff = 0 then Ok 0
            else rthen (notional idx oracle_price e) (\<lambda>nt. mm_req_of nt e)) (\<lambda>mm_req_pre.
     acct e idx (\<lambda>a.
     rthen (account_equity_maint_raw_wide a) (\<lambda>maint_raw_wide_pre.
     expect (fit_i256 (maint_raw_wide_pre - mm_req_pre)))))"

text \<open>\<open>as i64\<close> of a \<open>u64\<close>, and the checked \<open>i64\<close> arithmetic of the release build.\<close>

definition as_i64 :: "int \<Rightarrow> int" where
  "as_i64 x = (if x > 9223372036854775807 then x - 2 ^ 64 else x)"

definition fit_i64 :: "int \<Rightarrow> int option" where
  "fit_i64 x = (if - 9223372036854775808 \<le> x \<and> x \<le> 9223372036854775807 then Some x else None)"

definition on_side :: "side \<Rightarrow> int \<Rightarrow> int" where
  "on_side s q = (if side_of_i128 q = Some s then 1 else 0)"

definition position_cap :: "int \<Rightarrow> int \<Rightarrow> int \<Rightarrow> int \<Rightarrow> engine \<Rightarrow> unit outcome" where
  "position_cap old_eff_a new_eff_a old_eff_b new_eff_b e =
     (let long_before = on_side Long old_eff_a + on_side Long old_eff_b;
          long_after = on_side Long new_eff_a + on_side Long new_eff_b;
          short_before = on_side Short old_eff_a + on_side Short old_eff_b;
          short_after = on_side Short new_eff_a + on_side Short new_eff_b in
      rthen (expect (fit_i64 (as_i64 (stored_pos_count_long e) + long_after))) (\<lambda>l.
      rthen (expect (fit_i64 (l - long_before))) (\<lambda>final_long.
      rthen (expect (fit_i64 (as_i64 (stored_pos_count_short e) + short_after))) (\<lambda>s.
      rthen (expect (fit_i64 (s - short_before))) (\<lambda>final_short.
      if final_long < 0 \<or> final_short < 0 then Err CorruptState
      else
        let cap = as_i64 (max_active_positions_per_side (params e)) in
        if final_long > cap \<or> final_short > cap then Err Overflow else Ok ())))))"

text \<open>The candidate positions and open interest, with every limit they must meet.\<close>

definition trade_positions ::
  "int \<Rightarrow> int \<Rightarrow> int \<Rightarrow> int \<Rightarrow> (int \<times> int) outcome"
where
  "trade_positions old_eff_a old_eff_b size_q oracle_price =
     rthen (ok_or Overflow (fit_i128 (old_eff_a + size_q))) (\<lambda>new_eff_a.
     rthen (ok_or Overflow (fit_i128 (- size_q))) (\<lambda>neg_size_q.
     rthen (ok_or Overflow (fit_i128 (old_eff_b + neg_size_q))) (\<lambda>new_eff_b.
     if new_eff_a \<noteq> 0 \<and> \<bar>new_eff_a\<bar> > MAX_POSITION_ABS_Q then Err Overflow
     else if new_eff_b \<noteq> 0 \<and> \<bar>new_eff_b\<bar> > MAX_POSITION_ABS_Q then Err Overflow
     else
       rthen (mul_div_floor_u128 \<bar>new_eff_a\<bar> oracle_price POS_SCALE) (\<lambda>notional_a.
       if notional_a > MAX_ACCOUNT_NOTIONAL then Err Overflow
       else
         rthen (mul_div_floor_u128 \<bar>new_eff_b\<bar> oracle_price POS_SCALE) (\<lambda>notional_b.
         if notional_b > MAX_ACCOUNT_NOTIONAL then Err Overflow
         else Ok (new_eff_a, new_eff_b))))))"

definition side_blocked :: "side \<Rightarrow> int \<Rightarrow> engine \<Rightarrow> bool" where
  "side_blocked s oi_after e =
     ((get_side_mode s e = DrainOnly \<or> get_side_mode s e = ResetPending) \<and> oi_after > get_oi_eff s e)"

definition trade_oi ::
  "int \<Rightarrow> int \<Rightarrow> int \<Rightarrow> int \<Rightarrow> engine \<Rightarrow> (int \<times> int) outcome"
where
  "trade_oi old_eff_a new_eff_a old_eff_b new_eff_b e =
     rthen (bilateral_oi_after old_eff_a new_eff_a old_eff_b new_eff_b e) (\<lambda>(oi_long_after, oi_short_after).
     if oi_long_after > MAX_OI_SIDE_Q \<or> oi_short_after > MAX_OI_SIDE_Q then Err Overflow
     else if side_blocked Long oi_long_after e then Err SideBlocked
     else if side_blocked Short oi_short_after e then Err SideBlocked
     else
       rthen (position_cap old_eff_a new_eff_a old_eff_b new_eff_b e) (\<lambda>_.
       Ok (oi_long_after, oi_short_after)))"

text \<open>Moving the trade PnL, attaching the positions and writing the open interest.\<close>

definition add_trade_pnl ::
  "nat \<Rightarrow> int \<Rightarrow> instruction_context \<Rightarrow> engine \<Rightarrow> instruction_context step"
where
  "add_trade_pnl idx trade_pnl ctx e =
     sacct e idx (\<lambda>a.
     sval (checked_pnl_add (pnl a) trade_pnl) e (\<lambda>new_pnl.
     sthen (set_pnl_with_reserve idx new_pnl (ctx_mode ctx) (Some ctx) e) (\<lambda>octx e.
     sval (expect octx) e (\<lambda>ctx. (Ok ctx, e)))))"

definition trade_commit ::
  "nat \<Rightarrow> nat \<Rightarrow> int \<Rightarrow> int \<Rightarrow> int \<Rightarrow> int \<Rightarrow> int \<times> int \<Rightarrow> instruction_context \<Rightarrow> engine
     \<Rightarrow> instruction_context step"
where
  "trade_commit a b trade_pnl_a trade_pnl_b new_eff_a new_eff_b ois ctx e =
     sthen (add_trade_pnl a trade_pnl_a ctx e) (\<lambda>ctx e.
     sthen (add_trade_pnl b trade_pnl_b ctx e) (\<lambda>ctx e.
     sthen (attach_effective_position a new_eff_a e) (\<lambda>_ e.
     sthen (attach_effective_position b new_eff_b e) (\<lambda>_ e.
     let e = e\<lparr> oi_eff_long_q := fst ois, oi_eff_short_q := snd ois \<rparr> in
     sthen (settle_losses a e) (\<lambda>_ e.
     sthen (settle_losses b e) (\<lambda>_ e.
     (Ok ctx, e)))))))"

definition trade_fee :: "int \<Rightarrow> int \<Rightarrow> engine \<Rightarrow> int outcome" where
  "trade_fee size_q exec_price e =
     rthen (mul_div_floor_u128 \<bar>size_q\<bar> exec_price POS_SCALE) (\<lambda>trade_notional.
     if trade_notional > 0 \<and> trading_fee_bps (params e) > 0
     then mul_div_ceil_u128 trade_notional (trading_fee_bps (params e)) 10000 else Ok 0)"

text \<open>Both accounts are charged the same fee; the impacts on their equity are returned.\<close>

definition trade_charge :: "nat \<Rightarrow> nat \<Rightarrow> int \<Rightarrow> engine \<Rightarrow> (int \<times> int) step" where
  "trade_charge a b fee e =
     (if fee > 0 then
        if fee > MAX_PROTOCOL_FEE_ABS then (Err Overflow, e)
        else
          sthen (charge_fee_to_insurance a fee e) (\<lambda>(cash_a, impact_a, dropped_a) e.
          sthen (charge_fee_to_insurance b fee e) (\<lambda>(cash_b, impact_b, dropped_b) e.
          (Ok (impact_a, impact_b), e)))
      else (Ok (0, 0), e))"

definition trade_settle ::
  "nat \<Rightarrow> nat \<Rightarrow> int \<Rightarrow> int \<Rightarrow> int \<Rightarrow> int \<Rightarrow> int \<Rightarrow> int \<Rightarrow> int \<Rightarrow> int \<Rightarrow> int \<Rightarrow> int \<Rightarrow> int
     \<Rightarrow> engine \<Rightarrow> unit step"
where
  "trade_settle a b oracle_price size_q exec_price old_eff_a new_eff_a old_eff_b new_eff_b
     buffer_pre_a buffer_pre_b trade_pnl_a trade_pnl_b e =
     sval (trade_fee size_q exec_price e) e (\<lambda>fee.
     sthen (trade_charge a b fee e) (\<lambda>(fee_impact_a, fee_impact_b) e.
     if new_eff_a = 0 \<and> pnl (accounts e ! a) < 0 then (Err Undercollateralized, e)
     else if new_eff_b = 0 \<and> pnl (accounts e ! b) < 0 then (Err Undercollateralized, e)
     else
       sval (enforce_post_trade_margin a b oracle_price old_eff_a new_eff_a old_eff_b new_eff_b
               buffer_pre_a buffer_pre_b fee_impact_a fee_impact_b trade_pnl_a trade_pnl_b e) e (\<lambda>_.
       (Ok (), e))))"

definition trade_core ::
  "nat \<Rightarrow> nat \<Rightarrow> int \<Rightarrow> int \<Rightarrow> int \<Rightarrow> instruction_context \<Rightarrow> engine \<Rightarrow> instruction_context step"
where
  "trade_core a b oracle_price size_q exec_price ctx e =
     sval (effective_pos_q a e) e (\<lambda>old_eff_a.
     sval (effective_pos_q b e) e (\<lambda>old_eff_b.
     sval (pre_buffer a old_eff_a oracle_price e) e (\<lambda>buffer_pre_a.
     sval (pre_buffer b old_eff_b oracle_price e) e (\<lambda>buffer_pre_b.
     sval (trade_positions old_eff_a old_eff_b size_q oracle_price) e (\<lambda>(new_eff_a, new_eff_b).
     let e = maybe_finalize_ready_reset_sides e in
     sval (trade_oi old_eff_a new_eff_a old_eff_b new_eff_b e) e (\<lambda>ois.
     sval (compute_trade_pnl size_q (oracle_price - exec_price)) e (\<lambda>trade_pnl_a.
     sval (ok_or Overflow (fit_i128 (- trade_pnl_a))) e (\<lambda>trade_pnl_b.
     sthen (trade_commit a b trade_pnl_a trade_pnl_b new_eff_a new_eff_b ois ctx e) (\<lambda>ctx e.
     sthen (trade_settle a b oracle_price size_q exec_price old_eff_a new_eff_a old_eff_b new_eff_b
              buffer_pre_a buffer_pre_b trade_pnl_a trade_pnl_b e) (\<lambda>_ e.
     (Ok ctx, e)))))))))))"

definition execute_trade_not_atomic ::
  "nat \<Rightarrow> nat \<Rightarrow> int \<Rightarrow> int \<Rightarrow> int \<Rightarrow> int \<Rightarrow> int \<Rightarrow> int \<Rightarrow> int \<Rightarrow> engine \<Rightarrow> unit step"
where
  "execute_trade_not_atomic a b oracle_price now_slot size_q exec_price funding_rate_e9
     admit_h_min admit_h_max e =
     sval (trade_checks a b oracle_price size_q exec_price admit_h_min admit_h_max e) e (\<lambda>_.
     let ctx = new_with_admission admit_h_min admit_h_max in
     sthen (accrue_to now_slot oracle_price funding_rate_e9 e) (\<lambda>_ e.
     sthen (touch_account_live_local a ctx e) (\<lambda>ctx e.
     sthen (touch_account_live_local b ctx e) (\<lambda>ctx e.
     sthen (flush_resets e) (\<lambda>_ e.
     sthen (trade_core a b oracle_price size_q exec_price ctx e) (\<lambda>ctx e.
     sthen (finalize_touched_accounts_post_live ctx e) (\<lambda>_ e.
     live_epilogue ctx e)))))))"

section \<open>What the pieces compute\<close>

theorem trade_pnl_value:
  assumes "compute_trade_pnl q d = Ok x"
  shows "x = q * d div POS_SCALE" "\<bar>x\<bar> \<le> I128_MAX"
proof -
  have P: "0 < POS_SCALE" by (simp add: bounds)
  have M: "0 \<le> I128_MAX" by (simp add: bounds)
  have pos: "x = \<bar>q\<bar> * \<bar>d\<bar> div POS_SCALE \<and> 0 \<le> x \<and> x \<le> I128_MAX"
    if "q \<noteq> 0" "d \<noteq> 0" "(q < 0) = (d < 0)"
    using assms that
    by (auto simp: compute_trade_pnl_def mul_div_floor_u256_with_rem_def Ok_iffs Let_def in_u128_def
        split: option.splits if_splits)
  have neg: "x = - (if \<bar>q\<bar> * \<bar>d\<bar> mod POS_SCALE \<noteq> 0 then \<bar>q\<bar> * \<bar>d\<bar> div POS_SCALE + 1
                    else \<bar>q\<bar> * \<bar>d\<bar> div POS_SCALE) \<and> - x \<le> I128_MAX \<and> 0 \<le> - x"
    if "q \<noteq> 0" "d \<noteq> 0" "(q < 0) \<noteq> (d < 0)"
    using assms that
    by (auto simp: compute_trade_pnl_def mul_div_floor_u256_with_rem_def Ok_iffs Let_def in_u128_def
        split: option.splits if_splits)
  have "x = q * d div POS_SCALE \<and> \<bar>x\<bar> \<le> I128_MAX"
  proof (cases "q = 0 \<or> d = 0")
    case True
    then show ?thesis using assms M by (auto simp: compute_trade_pnl_def)
  next
    case False
    show ?thesis
    proof (cases "(q < 0) = (d < 0)")
      case True
      then have "\<bar>q\<bar> * \<bar>d\<bar> = q * d" using False by (auto simp: abs_if)
      then show ?thesis using pos True False by simp
    next
      case n: False
      then have "\<bar>q\<bar> * \<bar>d\<bar> = - (q * d)" using False by (auto simp: abs_if)
      then show ?thesis using neg n False ceil_eq[OF P, of "- (q * d)"] by auto
    qed
  qed
  then show "x = q * d div POS_SCALE" "\<bar>x\<bar> \<le> I128_MAX" by blast+
qed

text \<open>The candidate open interest: each side loses the old positions and gains the new ones.\<close>

lemma bilateral_oi_value:
  "okR (bilateral_oi_after oa na ob nb e) (\<lambda>(l, s).
     l = oi_eff_long_q e - oi_long_component oa - oi_long_component ob + oi_long_component na + oi_long_component nb
     \<and> s = oi_eff_short_q e - oi_short_component oa - oi_short_component ob + oi_short_component na + oi_short_component nb
     \<and> in_u128 l \<and> in_u128 s)"
  by (simp add: bilateral_oi_after_def okR_rthen okR_ok_or)

text \<open>A trade moves a size from one account to the other, so it keeps the two sides balanced.\<close>

lemma component_diff: "oi_long_component p - oi_short_component p = p"
  by (simp add: oi_long_component_def oi_short_component_def)

lemma bilateral_balanced:
  assumes "bilateral_oi_after oa (oa + q) ob (ob - q) e = Ok (l, s)" "balanced e"
  shows "l = s"
proof -
  have "l = oi_eff_long_q e - oi_long_component oa - oi_long_component ob + oi_long_component (oa + q) + oi_long_component (ob - q)
     \<and> s = oi_eff_short_q e - oi_short_component oa - oi_short_component ob + oi_short_component (oa + q) + oi_short_component (ob - q)"
    using okR_D[OF bilateral_oi_value assms(1)] by simp
  then show ?thesis
    using assms(2) component_diff[of oa] component_diff[of ob] component_diff[of "oa + q"] component_diff[of "ob - q"]
    by (simp add: balanced_def)
qed

lemma trade_oi_value:
  "okR (trade_oi oa na ob nb e) (\<lambda>(l, s). bilateral_oi_after oa na ob nb e = Ok (l, s)
     \<and> in_u128 l \<and> in_u128 s \<and> l \<le> MAX_OI_SIDE_Q \<and> s \<le> MAX_OI_SIDE_Q
     \<and> \<not> side_blocked Long l e \<and> \<not> side_blocked Short s e)"
proof (rule okR_I)
  fix p assume r: "trade_oi oa na ob nb e = Ok p"
  then obtain l s where b: "bilateral_oi_after oa na ob nb e = Ok (l, s)"
    by (auto simp: trade_oi_def rthen_Ok_iff)
  then have "p = (l, s)" "l \<le> MAX_OI_SIDE_Q" "s \<le> MAX_OI_SIDE_Q" "\<not> side_blocked Long l e" "\<not> side_blocked Short s e"
    using r by (auto simp: trade_oi_def rthen_Ok_iff split: if_splits)
  then show "case p of (l, s) \<Rightarrow> bilateral_oi_after oa na ob nb e = Ok (l, s)
     \<and> in_u128 l \<and> in_u128 s \<and> l \<le> MAX_OI_SIDE_Q \<and> s \<le> MAX_OI_SIDE_Q
     \<and> \<not> side_blocked Long l e \<and> \<not> side_blocked Short s e"
  proof -
    have "in_u128 l \<and> in_u128 s" using okR_D[OF bilateral_oi_value b] by blast
    then show ?thesis using \<open>p = (l, s)\<close> \<open>l \<le> MAX_OI_SIDE_Q\<close> \<open>s \<le> MAX_OI_SIDE_Q\<close>
        \<open>\<not> side_blocked Long l e\<close> \<open>\<not> side_blocked Short s e\<close> b by blast
  qed
qed

text \<open>The margin rules, read off the outcome.\<close>

definition risk_increasing :: "int \<Rightarrow> int \<Rightarrow> bool" where
  "risk_increasing old_eff new_eff =
     (\<bar>new_eff\<bar> > \<bar>old_eff\<bar> \<or> (old_eff > 0 \<and> new_eff < 0) \<or> (old_eff < 0 \<and> new_eff > 0) \<or> old_eff = 0)"

theorem one_side_margin:
  assumes "enforce_one_side_margin i px old_eff new_eff buf fee tp e = Ok u" "new_eff \<noteq> 0"
  shows "risk_increasing old_eff new_eff
      \<Longrightarrow> is_above_initial_margin_trade_open (accounts e ! i) i px tp e = Ok True"
    "\<not> risk_increasing old_eff new_eff \<Longrightarrow> is_above_maintenance_margin (accounts e ! i) i px e \<noteq> Ok True
      \<Longrightarrow> \<bar>new_eff\<bar> < \<bar>old_eff\<bar>"
proof -
  let ?m = "is_above_maintenance_margin (accounts e ! i) i px e"
  let ?t = "is_above_initial_margin_trade_open (accounts e ! i) i px tp e"
  show "?t = Ok True" if "risk_increasing old_eff new_eff"
    using assms that
    by (cases ?t) (auto simp: enforce_one_side_margin_def risk_increasing_def acct_def Let_def split: if_splits)
  show "\<bar>new_eff\<bar> < \<bar>old_eff\<bar>" if "\<not> risk_increasing old_eff new_eff" "?m \<noteq> Ok True"
  proof (rule ccontr)
    assume "\<not> \<bar>new_eff\<bar> < \<bar>old_eff\<bar>"
    then show False
      using assms that
      by (cases ?m) (auto simp: enforce_one_side_margin_def risk_increasing_def acct_def Let_def split: if_splits)
  qed
qed

section \<open>The steps of a trade\<close>

lemma mode_params: "mode_ok (params e) m \<Longrightarrow> params e' = params e \<Longrightarrow> mode_ok (params e') m"
  by simp

text \<open>Adding the trade PnL to one account.\<close>

lemma add_trade_pnl_spec:
  assumes g: "good e" and md: "mode_ok (params e) (ctx_mode c)"
  shows "okP (add_trade_pnl i tp c e) (\<lambda>c' e'. i < MAX_ACCOUNTS e \<and> ctx_rel c c' \<and> lstage i e e'
     \<and> eqm (accounts e' ! i) = eqm (accounts e ! i) + tp \<and> ins_bal e' = ins_bal e)"
    (is "okP _ ?P")
  unfolding add_trade_pnl_def okP_sacct okP_sval checked_pnl_add_okR
proof (intro impI, elim conjE)
  let ?new = "pnl (accounts e ! i) + tp"
  assume i: "i < MAX_ACCOUNTS e" and r: "in_i128 ?new" "?new \<noteq> I128_MIN"
  show "okP (sthen (set_pnl_with_reserve i ?new (ctx_mode c) (Some c) e) (\<lambda>octx e.
     sval (expect octx) e (\<lambda>ctx. (Ok ctx, e)))) ?P"
  proof (rule okP_then[OF set_pnl_ctx_step[OF good_D(1)[OF g] md r]], elim exE conjE)
    fix oc e' c' assume oc: "oc = Some c'" and cr: "ctx_rel c c'" and cs: "cash_step i e e'"
      and S: "pnl_set i ?new e e'"
    note F = pnl_set_frame[OF S]
    show "okP (sval (expect oc) e' (\<lambda>ctx. (Ok ctx, e'))) ?P"
      using cash_lstage[OF cs g] cr F(4) core_fields[OF F(3)] frame_D(2)[OF F(1)] i
      by (simp add: oc okP_sval eqm_def)
  qed
qed

text \<open>Attaching an effective position.\<close>

lemma attach_stage:
  assumes g: "good e"
  shows "okP (attach_effective_position i q e) (\<lambda>_ e'. i < MAX_ACCOUNTS e \<and> lstage i e e'
     \<and> eqm (accounts e' ! i) = eqm (accounts e ! i) \<and> position_basis_q (accounts e' ! i) = q
     \<and> \<bar>q\<bar> \<le> MAX_POSITION_ABS_Q \<and> ins_bal e' = ins_bal e)"
proof (rule okP_mono[OF attach_spec[OF good_D(1)[OF g]]], elim conjE)
  fix u e' assume P: "pos_step i e e'" and i: "i < MAX_ACCOUNTS e" and q: "position_basis_q (accounts e' ! i) = q"
    and b: "\<bar>q\<bar> \<le> MAX_POSITION_ABS_Q"
  have m: "money (accounts e' ! i) = money (accounts e ! i)" "frame {i} e e'" using P by (simp_all add: pos_step_def)
  show "i < MAX_ACCOUNTS e \<and> lstage i e e' \<and> eqm (accounts e' ! i) = eqm (accounts e ! i)
     \<and> position_basis_q (accounts e' ! i) = q \<and> \<bar>q\<bar> \<le> MAX_POSITION_ABS_Q \<and> ins_bal e' = ins_bal e"
    using cash_lstage[OF pos_cash_step[OF P] g] money_fields[OF m(1)] frame_D(2)[OF m(2)] i q b
    by (simp add: eqm_def)
qed

lemma settle_losses_eq:
  assumes "good e"
  shows "okP (settle_losses i e) (\<lambda>_ e'. i < MAX_ACCOUNTS e \<and> lstage i e e'
     \<and> eqm (accounts e' ! i) = eqm (accounts e ! i)
     \<and> position_basis_q (accounts e' ! i) = position_basis_q (accounts e ! i) \<and> ins_bal e' = ins_bal e)"
  by (rule okP_mono[OF settle_losses_spec[OF assms]])
    (auto simp: loss_settled_def eqm_def Let_def)

text \<open>Charging a fee: the equity falls by the impact, of which the cash goes to insurance.\<close>

lemma fee_ins_typed:
  assumes "in_u128 (ins_bal e)"
  shows "okP (charge_fee_to_insurance i fee e) (\<lambda>_ e'. in_u128 (ins_bal e'))"
proof -
  have A: "okP (fee_from_capital i c p e) (\<lambda>_ e'. in_u128 (ins_bal e'))" for c p
    unfolding fee_from_capital_def okP_if okP_sthen okP_sval okR_ok_or
    by (intro conjI) (rule impI, rule okP_any, simp, simp add: assms)
  have B: "okP (fee_to_debt i f p s) (\<lambda>_ e'. in_u128 (ins_bal e'))" if "in_u128 (ins_bal s)" for f p s
    unfolding fee_to_debt_def Let_def okP_if okP_sthen okP_sval add_u128_def okR_expect okP_basic
    using that by (simp add: okP_sval okR_expect)
  show ?thesis
    unfolding charge_fee_to_insurance_def okP_if okP_sacct Let_def okP_sthen
    by (intro conjI impI okP_basic) (rule okP_mono[OF A B])
qed

lemma charge_fee_stage:
  assumes g: "good e" and f: "0 \<le> fee"
  shows "okP (charge_fee_to_insurance i fee e) (\<lambda>(cash, impact, dropped) e'. i < MAX_ACCOUNTS e \<and> lstage i e e'
     \<and> eqm (accounts e' ! i) = eqm (accounts e ! i) - impact
     \<and> position_basis_q (accounts e' ! i) = position_basis_q (accounts e ! i)
     \<and> ins_bal e' = ins_bal e + cash \<and> cash = min fee (capital (accounts e ! i))
     \<and> 0 \<le> cash \<and> cash \<le> impact \<and> impact + dropped = fee \<and> 0 \<le> dropped)"
    (is "okP _ ?P")
proof (cases "i < MAX_ACCOUNTS e")
  case False
  then show ?thesis by (simp add: charge_fee_to_insurance_def okP_sacct)
next
  case i: True
  note T = acct_typed[OF g i]
  have fc: "in_i128 (fee_credits (accounts e ! i))" "fee_credits (accounts e ! i) \<le> 0"
    using T(5) by (auto simp: fee_ok_def in_i128_def bounds)
  show ?thesis
  proof (rule okP_mono[OF okP_conj[OF charge_fee_spec[OF good_D(1)[OF g] f fc] fee_ins_typed[OF good_D(4)[OF g]]]])
    fix p :: "int \<times> int \<times> int" and e'
    obtain cash impact dropped where p: "p = (cash, impact, dropped)" by (cases p)
    assume A: "(case p of (paid, impact, dropped) \<Rightarrow> \<lambda>e'. i < MAX_ACCOUNTS e \<and> e' = fee_effect i paid (impact - paid) e
        \<and> paid = min fee (capital (accounts e ! i))
        \<and> impact = paid + min (fee - paid) (max 0 (fee_credits (accounts e ! i) + I128_MAX))
        \<and> impact + dropped = fee \<and> fee \<le> MAX_PROTOCOL_FEE_ABS) e' \<and> in_u128 (ins_bal e')"
    have e': "e' = fee_effect i cash (impact - cash) e" using A unfolding p prod.case by blast
    have R: "cash = min fee (capital (accounts e ! i))"
      "impact = cash + min (fee - cash) (max 0 (fee_credits (accounts e ! i) + I128_MAX))"
      and d: "impact + dropped = fee" and iu: "in_u128 (ins_bal (fee_effect i cash (impact - cash) e))"
      using A unfolding p prod.case by blast+
    have c: "0 \<le> cash" "cash \<le> capital (accounts e ! i)" "cash \<le> fee"
      using R(1) f T(6) by simp_all
    have m: "0 \<le> impact - cash" "impact - cash \<le> max 0 (fee_credits (accounts e ! i) + I128_MAX)" "impact \<le> fee"
      using R(2) c by simp_all
    have fo: "- I128_MAX \<le> fee_credits (accounts e ! i)" using T(5) by (simp add: fee_ok_def)
    note E = fee_effect_reads[OF i, where p = cash and c = "impact - cash"]
    have l: "lstage i e (fee_effect i cash (impact - cash) e)"
      by (rule fee_effect_lstage[OF g i c(1,2)]) (use iu E(8) m fo fc in simp_all)
    have q: "eqm (accounts (fee_effect i cash (impact - cash) e) ! i) = eqm (accounts e ! i) - impact"
      "position_basis_q (accounts (fee_effect i cash (impact - cash) e) ! i) = position_basis_q (accounts e ! i)"
      by (simp_all add: E(1) eqm_def)
    show "?P p e'"
      unfolding p prod.case e' using i l q E(8) c m d R(1) by linarith
  qed
qed

lemma lstage_other: "lstage i e e' \<Longrightarrow> j \<noteq> i \<Longrightarrow> accounts e' ! j = accounts e ! j"
  using stage_D(8)[OF lstage_D(2)] by blast

lemma lstage_in: "lstage i e e' \<Longrightarrow> i \<in> S \<Longrightarrow> stage S e e'"
  using stage_mono[OF lstage_D(2)] by blast

lemma write_oi_stage:
  assumes g: "good e" and u: "in_u128 l" "in_u128 s"
  shows "stage S e (e\<lparr> oi_eff_long_q := l, oi_eff_short_q := s \<rparr>)"
proof (rule outer_stage[OF _ g])
  show "outer e (e\<lparr> oi_eff_long_q := l, oi_eff_short_q := s \<rparr>)" by (simp add: outer_def slab_fields_def)
  show "market_ok (e\<lparr> oi_eff_long_q := l, oi_eff_short_q := s \<rparr>)"
    using good_D(3)[OF g] u by (simp add: market_ok_def)
  show "0 \<le> ins_bal (e\<lparr> oi_eff_long_q := l, oi_eff_short_q := s \<rparr>)"
    "ins_bal (e\<lparr> oi_eff_long_q := l, oi_eff_short_q := s \<rparr>) \<le> ins_bal e"
    using good_D(4)[OF g] by (simp_all add: in_u128_def)
qed

definition committed ::
  "nat \<Rightarrow> nat \<Rightarrow> int \<Rightarrow> int \<Rightarrow> int \<Rightarrow> int \<Rightarrow> int \<times> int \<Rightarrow> engine \<Rightarrow> engine \<Rightarrow> bool"
where
  "committed a b tpa tpb na nb ois e e' =
     (stage {a, b} e e' \<and> ins_bal e' = ins_bal e
      \<and> eqm (accounts e' ! a) = eqm (accounts e ! a) + tpa
      \<and> eqm (accounts e' ! b) = eqm (accounts e ! b) + tpb
      \<and> position_basis_q (accounts e' ! a) = na \<and> position_basis_q (accounts e' ! b) = nb
      \<and> oi_eff_long_q e' = fst ois \<and> oi_eff_short_q e' = snd ois)"

lemma trade_commit_spec:
  assumes g: "good e" and ab: "a \<noteq> b" and md: "mode_ok (params e) (ctx_mode c)"
    and oi: "in_u128 (fst ois)" "in_u128 (snd ois)"
  shows "okP (trade_commit a b tpa tpb na nb ois c e) (\<lambda>c' e'. ctx_rel c c' \<and> committed a b tpa tpb na nb ois e e')"
    (is "okP _ ?P")
  unfolding trade_commit_def
proof (rule okP_then[OF add_trade_pnl_spec[OF g md]], elim conjE)
  fix c1 e1
  assume r1: "ctx_rel c c1" and l1: "lstage a e e1" and q1: "eqm (accounts e1 ! a) = eqm (accounts e ! a) + tpa"
    and i1: "ins_bal e1 = ins_bal e"
  note D1 = lstage_D[OF l1]
  have m1: "mode_ok (params e1) (ctx_mode c1)" using md r1 D1(5) by (simp add: ctx_rel_def)
  show "okP (sthen (add_trade_pnl b tpb c1 e1) (\<lambda>ctx e.
     sthen (attach_effective_position a na e) (\<lambda>_ e.
     sthen (attach_effective_position b nb e) (\<lambda>_ e.
     let e = e\<lparr> oi_eff_long_q := fst ois, oi_eff_short_q := snd ois \<rparr> in
     sthen (settle_losses a e) (\<lambda>_ e.
     sthen (settle_losses b e) (\<lambda>_ e. (Ok ctx, e))))))) ?P"
  proof (rule okP_then[OF add_trade_pnl_spec[OF D1(1) m1]], elim conjE)
    fix c2 e2
    assume r2: "ctx_rel c1 c2" and l2: "lstage b e1 e2" and q2: "eqm (accounts e2 ! b) = eqm (accounts e1 ! b) + tpb"
      and i2: "ins_bal e2 = ins_bal e1"
    have r: "ctx_rel c c2" using r1 r2 by (simp add: ctx_rel_def)
    show "okP (sthen (attach_effective_position a na e2) (\<lambda>_ e.
     sthen (attach_effective_position b nb e) (\<lambda>_ e.
     let e = e\<lparr> oi_eff_long_q := fst ois, oi_eff_short_q := snd ois \<rparr> in
     sthen (settle_losses a e) (\<lambda>_ e.
     sthen (settle_losses b e) (\<lambda>_ e. (Ok c2, e)))))) ?P"
    proof (rule okP_then[OF attach_stage[OF lstage_D(1)[OF l2]]], elim conjE)
      fix u3 e3
      assume l3: "lstage a e2 e3" and q3: "eqm (accounts e3 ! a) = eqm (accounts e2 ! a)"
        and p3: "position_basis_q (accounts e3 ! a) = na" and i3: "ins_bal e3 = ins_bal e2"
      show "okP (sthen (attach_effective_position b nb e3) (\<lambda>_ e.
     let e = e\<lparr> oi_eff_long_q := fst ois, oi_eff_short_q := snd ois \<rparr> in
     sthen (settle_losses a e) (\<lambda>_ e.
     sthen (settle_losses b e) (\<lambda>_ e. (Ok c2, e))))) ?P"
      proof (rule okP_then[OF attach_stage[OF lstage_D(1)[OF l3]]], elim conjE, unfold Let_def)
        fix u4 e4
        assume l4: "lstage b e3 e4" and q4: "eqm (accounts e4 ! b) = eqm (accounts e3 ! b)"
          and p4: "position_basis_q (accounts e4 ! b) = nb" and i4: "ins_bal e4 = ins_bal e3"
        define e5 where "e5 = e4\<lparr> oi_eff_long_q := fst ois, oi_eff_short_q := snd ois \<rparr>"
        have s5: "stage {a, b} e4 e5" unfolding e5_def by (rule write_oi_stage[OF lstage_D(1)[OF l4] oi])
        have f5: "accounts e5 = accounts e4" "ins_bal e5 = ins_bal e4" "oi_eff_long_q e5 = fst ois"
          "oi_eff_short_q e5 = snd ois" by (simp_all add: e5_def)
        have "okP (sthen (settle_losses a e5) (\<lambda>_ e. sthen (settle_losses b e) (\<lambda>_ e. (Ok c2, e)))) ?P"
        proof (rule okP_then[OF settle_losses_eq[OF stage_D(1)[OF s5]]], elim conjE)
          fix u6 e6
          assume l6: "lstage a e5 e6" and q6: "eqm (accounts e6 ! a) = eqm (accounts e5 ! a)"
            and p6: "position_basis_q (accounts e6 ! a) = position_basis_q (accounts e5 ! a)"
            and i6: "ins_bal e6 = ins_bal e5"
          show "okP (sthen (settle_losses b e6) (\<lambda>_ e. (Ok c2, e))) ?P"
          proof (rule okP_then[OF settle_losses_eq[OF lstage_D(1)[OF l6]]], elim conjE)
            fix u7 e7
            assume l7: "lstage b e6 e7" and q7: "eqm (accounts e7 ! b) = eqm (accounts e6 ! b)"
              and p7: "position_basis_q (accounts e7 ! b) = position_basis_q (accounts e6 ! b)"
              and i7: "ins_bal e7 = ins_bal e6"
            note LS = l1 l2 l3 l4 l6 l7
            have st: "stage {a, b} e e7"
              using stage_trans[OF stage_trans[OF stage_trans[OF stage_trans[OF stage_trans[OF stage_trans[OF
                lstage_in[OF l1] lstage_in[OF l2]] lstage_in[OF l3]] lstage_in[OF l4]] s5] lstage_in[OF l6]] lstage_in[OF l7]]
              by simp
            have A: "accounts e7 ! a = accounts e6 ! a" "accounts e4 ! a = accounts e3 ! a"
              "accounts e2 ! a = accounts e1 ! a"
              using lstage_other[OF l7 ab] lstage_other[OF l4 ab] lstage_other[OF l2 ab] by blast+
            have B: "accounts e6 ! b = accounts e5 ! b" "accounts e3 ! b = accounts e2 ! b"
              "accounts e1 ! b = accounts e ! b"
              using lstage_other[OF l6 ab[symmetric]] lstage_other[OF l3 ab[symmetric]]
                lstage_other[OF l1 ab[symmetric]] by blast+
            have O: "oi_eff_long_q e7 = fst ois" "oi_eff_short_q e7 = snd ois"
              using l6 l7 f5 by (simp_all add: lstage_def mkt_fields_def)
            show "okP (Ok c2, e7) ?P"
              unfolding okP_basic committed_def
              using r st O A B q1 q2 q3 q4 q6 q7 p3 p4 p6 p7 i1 i2 i3 i4 i6 i7 f5 by simp
          qed
        qed
        then show "okP (sthen (settle_losses a (e4\<lparr> oi_eff_long_q := fst ois, oi_eff_short_q := snd ois \<rparr>))
            (\<lambda>_ e. sthen (settle_losses b e) (\<lambda>_ e. (Ok c2, e)))) ?P"
          by (simp only: e5_def)
      qed
    qed
  qed
qed

definition charged :: "nat \<Rightarrow> nat \<Rightarrow> int \<Rightarrow> engine \<Rightarrow> engine \<Rightarrow> bool" where
  "charged a b fee e e' =
     (stage {a, b} e e' \<and> mkt_fields e' = mkt_fields e
      \<and> position_basis_q (accounts e' ! a) = position_basis_q (accounts e ! a)
      \<and> position_basis_q (accounts e' ! b) = position_basis_q (accounts e ! b)
      \<and> eqm (accounts e ! a) - fee \<le> eqm (accounts e' ! a) \<and> eqm (accounts e' ! a) \<le> eqm (accounts e ! a)
      \<and> eqm (accounts e ! b) - fee \<le> eqm (accounts e' ! b) \<and> eqm (accounts e' ! b) \<le> eqm (accounts e ! b)
      \<and> ins_bal e \<le> ins_bal e'
      \<and> ins_bal e' - ins_bal e \<le> (eqm (accounts e ! a) - eqm (accounts e' ! a))
           + (eqm (accounts e ! b) - eqm (accounts e' ! b)))"

lemma trade_charge_spec:
  assumes g: "good e" and ab: "a \<noteq> b" and f: "0 \<le> fee"
  shows "okP (trade_charge a b fee e) (\<lambda>_ e'. charged a b fee e e')"
proof (cases "fee > 0 \<and> \<not> fee > MAX_PROTOCOL_FEE_ABS")
  case True
  have "okP (sthen (charge_fee_to_insurance a fee e) (\<lambda>(cash_a, impact_a, dropped_a) e.
          sthen (charge_fee_to_insurance b fee e) (\<lambda>(cash_b, impact_b, dropped_b) e.
          (Ok (impact_a, impact_b), e)))) (\<lambda>_ e'. charged a b fee e e')"
  proof (rule okP_then[OF charge_fee_stage[OF g f]], goal_cases)
    case (1 p e1)
    obtain ca ia da where p: "p = (ca, ia, da)" by (cases p)
    have l1: "lstage a e e1" and q1: "eqm (accounts e1 ! a) = eqm (accounts e ! a) - ia"
      and p1: "position_basis_q (accounts e1 ! a) = position_basis_q (accounts e ! a)"
      and n1: "ins_bal e1 = ins_bal e + ca" "0 \<le> ca" "ca \<le> ia" "ia + da = fee" "0 \<le> da"
      using 1 unfolding p prod.case by blast+
    show ?case
      unfolding p prod.case
    proof (rule okP_then[OF charge_fee_stage[OF lstage_D(1)[OF l1] f]], goal_cases)
      case (1 p' e2)
      obtain cb ib db where p': "p' = (cb, ib, db)" by (cases p')
      have l2: "lstage b e1 e2" and q2: "eqm (accounts e2 ! b) = eqm (accounts e1 ! b) - ib"
        and p2: "position_basis_q (accounts e2 ! b) = position_basis_q (accounts e1 ! b)"
        and n2: "ins_bal e2 = ins_bal e1 + cb" "0 \<le> cb" "cb \<le> ib" "ib + db = fee" "0 \<le> db"
        using 1 unfolding p' prod.case by blast+
      have st: "stage {a, b} e e2" using stage_trans[OF lstage_in[OF l1] lstage_in[OF l2]] by simp
      have mk: "mkt_fields e2 = mkt_fields e" using l1 l2 by (simp add: lstage_def)
      have o: "accounts e2 ! a = accounts e1 ! a" "accounts e1 ! b = accounts e ! b"
        using lstage_other[OF l2 ab] lstage_other[OF l1 ab[symmetric]] by blast+
      show ?case
        unfolding p' prod.case okP_basic charged_def
        using st mk o q1 p1 q2 p2 n1 n2 by simp
    qed
  qed
  then show ?thesis using True by (simp add: trade_charge_def)
next
  case False
  then show ?thesis
    using stage_refl[OF g] f by (auto simp: trade_charge_def charged_def)
qed

lemma div_ceil_nonneg: "mul_div_ceil_u128 x y z = Ok f \<Longrightarrow> 0 \<le> f"
  by (auto simp: mul_div_ceil_u128_def Ok_iffs in_u128_def Let_def
      intro!: add_nonneg_nonneg div_le_num(1) split: if_splits)

lemma trade_fee_nonneg: "okR (trade_fee q px e) (\<lambda>fee. 0 \<le> fee)"
  unfolding trade_fee_def okR_rthen okR_if okR_basic by (auto intro!: okR_I div_ceil_nonneg)

text \<open>After a trade: positions and equity moved by exactly the trade, limits and margin met.\<close>

definition traded_margin :: "nat \<Rightarrow> int \<Rightarrow> int \<Rightarrow> int \<Rightarrow> int \<Rightarrow> engine \<Rightarrow> bool" where
  "traded_margin i px old_eff new_eff tp e =
     ((new_eff = 0 \<longrightarrow> 0 \<le> pnl (accounts e ! i))
      \<and> (new_eff \<noteq> 0 \<longrightarrow> risk_increasing old_eff new_eff
           \<longrightarrow> is_above_initial_margin_trade_open (accounts e ! i) i px tp e = Ok True)
      \<and> (new_eff \<noteq> 0 \<longrightarrow> \<not> risk_increasing old_eff new_eff
           \<longrightarrow> is_above_maintenance_margin (accounts e ! i) i px e = Ok True \<or> \<bar>new_eff\<bar> < \<bar>old_eff\<bar>))"

definition traded ::
  "nat \<Rightarrow> nat \<Rightarrow> int \<Rightarrow> int \<Rightarrow> int \<Rightarrow> engine \<Rightarrow> engine \<Rightarrow> bool"
where
  "traded a b px q xp e e' =
     (let tp = q * (px - xp) div POS_SCALE in
      stage {a, b} e e' \<and> (balanced e \<longrightarrow> balanced e')
      \<and> (\<forall>oa ob fee. effective_pos_q a e = Ok oa \<longrightarrow> effective_pos_q b e = Ok ob \<longrightarrow> trade_fee q xp e = Ok fee \<longrightarrow>
           position_basis_q (accounts e' ! a) = oa + q \<and> position_basis_q (accounts e' ! b) = ob - q
           \<and> traded_margin a px oa (oa + q) tp e' \<and> traded_margin b px ob (ob - q) (- tp) e'
           \<and> eqm (accounts e ! a) + tp - fee \<le> eqm (accounts e' ! a)
           \<and> eqm (accounts e' ! a) \<le> eqm (accounts e ! a) + tp
           \<and> eqm (accounts e ! b) - tp - fee \<le> eqm (accounts e' ! b)
           \<and> eqm (accounts e' ! b) \<le> eqm (accounts e ! b) - tp)
      \<and> eqm (accounts e' ! a) + eqm (accounts e' ! b) + (ins_bal e' - ins_bal e)
          \<le> eqm (accounts e ! a) + eqm (accounts e ! b)
      \<and> ins_bal e \<le> ins_bal e'
      \<and> oi_eff_long_q e' \<le> MAX_OI_SIDE_Q \<and> oi_eff_short_q e' \<le> MAX_OI_SIDE_Q
      \<and> (\<forall>s. get_side_mode s e = DrainOnly \<longrightarrow> get_oi_eff s e' \<le> get_oi_eff s e))"

lemma maybe_finalize_reads:
  "accounts (maybe_finalize_ready_reset_sides e) = accounts e"
  "params (maybe_finalize_ready_reset_sides e) = params e"
  "ins_bal (maybe_finalize_ready_reset_sides e) = ins_bal e"
  "get_oi_eff s (maybe_finalize_ready_reset_sides e) = get_oi_eff s e"
  "get_side_mode s e = DrainOnly \<Longrightarrow> get_side_mode s (maybe_finalize_ready_reset_sides e) = DrainOnly"
  by (cases s; simp add: maybe_finalize_ready_reset_sides_def side_ready_def Let_def)+

lemma trade_positions_value:
  "okR (trade_positions oa ob q px) (\<lambda>(na, nb). na = oa + q \<and> nb = ob - q
     \<and> \<bar>na\<bar> \<le> MAX_POSITION_ABS_Q \<and> \<bar>nb\<bar> \<le> MAX_POSITION_ABS_Q)"
proof (rule okR_I)
  fix p assume "trade_positions oa ob q px = Ok p"
  then have "p = (oa + q, ob - q) \<and> (oa + q = 0 \<or> \<bar>oa + q\<bar> \<le> MAX_POSITION_ABS_Q)
      \<and> (ob - q = 0 \<or> \<bar>ob - q\<bar> \<le> MAX_POSITION_ABS_Q)"
    by (auto simp: trade_positions_def Ok_iffs split: if_splits)
  moreover have "0 \<le> MAX_POSITION_ABS_Q" by (simp add: bounds)
  ultimately show "case p of (na, nb) \<Rightarrow> na = oa + q \<and> nb = ob - q
     \<and> \<bar>na\<bar> \<le> MAX_POSITION_ABS_Q \<and> \<bar>nb\<bar> \<le> MAX_POSITION_ABS_Q"
    by auto
qed


lemma trade_settle_spec:
  assumes g: "good e" and ab: "a \<noteq> b"
  shows "okP (trade_settle a b px q xp oa na ob nb ba bb tpa tpb e)
     (\<lambda>_ e'. \<exists>fee. trade_fee q xp e = Ok fee \<and> charged a b fee e e'
        \<and> traded_margin a px oa na tpa e' \<and> traded_margin b px ob nb tpb e')"
    (is "okP _ ?P")
  unfolding trade_settle_def okP_sval
proof (rule okR_I)
  fix fee assume f: "trade_fee q xp e = Ok fee"
  have f0: "0 \<le> fee" using okR_D[OF trade_fee_nonneg f] .
  show "okP (sthen (trade_charge a b fee e) (\<lambda>(fee_impact_a, fee_impact_b) e.
     if na = 0 \<and> pnl (accounts e ! a) < 0 then (Err Undercollateralized, e)
     else if nb = 0 \<and> pnl (accounts e ! b) < 0 then (Err Undercollateralized, e)
     else
       sval (enforce_post_trade_margin a b px oa na ob nb ba bb fee_impact_a fee_impact_b tpa tpb e) e (\<lambda>_.
       (Ok (), e)))) ?P"
  proof (rule okP_then[OF trade_charge_spec[OF g ab f0]])
    fix p :: "int \<times> int" and e1 assume c: "charged a b fee e e1"
    obtain ia ib where p: "p = (ia, ib)" by (cases p)
    have tm: "traded_margin i px old new tp e1"
      if "new = 0 \<longrightarrow> \<not> pnl (accounts e1 ! i) < 0" "enforce_one_side_margin i px old new buf im tp e1 = Ok v"
      for i old new tp buf im v
      using that one_side_margin[OF that(2)] unfolding traded_margin_def by (simp add: not_less) metis
    show "okP ((case p of (fee_impact_a, fee_impact_b) \<Rightarrow> \<lambda>e.
     if na = 0 \<and> pnl (accounts e ! a) < 0 then (Err Undercollateralized, e)
     else if nb = 0 \<and> pnl (accounts e ! b) < 0 then (Err Undercollateralized, e)
     else
       sval (enforce_post_trade_margin a b px oa na ob nb ba bb fee_impact_a fee_impact_b tpa tpb e) e (\<lambda>_.
       (Ok (), e))) e1) ?P"
      unfolding p prod.case okP_if okP_sval okP_basic
    proof (intro conjI impI okP_basic okR_I)
      fix u assume n: "\<not> (na = 0 \<and> pnl (accounts e1 ! a) < 0)" "\<not> (nb = 0 \<and> pnl (accounts e1 ! b) < 0)"
        and m: "enforce_post_trade_margin a b px oa na ob nb ba bb ia ib tpa tpb e1 = Ok u"
      obtain v w where "enforce_one_side_margin a px oa na ba ia tpa e1 = Ok v"
        "enforce_one_side_margin b px ob nb bb ib tpb e1 = Ok w"
        using m unfolding enforce_post_trade_margin_def rthen_Ok_iff by blast
      then have "traded_margin a px oa na tpa e1" "traded_margin b px ob nb tpb e1"
        using tm n by blast+
      then show "\<exists>fee. trade_fee q xp e = Ok fee \<and> charged a b fee e e1
        \<and> traded_margin a px oa na tpa e1 \<and> traded_margin b px ob nb tpb e1"
        using f c by blast
    qed
  qed
qed


lemma trade_fee_params: "params e' = params e \<Longrightarrow> trade_fee q xp e' = trade_fee q xp e"
  by (simp add: trade_fee_def cong: if_cong)

lemma trade_moved:
  assumes g: "good e" and c: "committed a b tp (- tp) (oa + q) (ob - q) ois (maybe_finalize_ready_reset_sides e) e2"
    and o: "trade_oi oa (oa + q) ob (ob - q) (maybe_finalize_ready_reset_sides e) = Ok ois"
    and ch: "charged a b fee e2 e3"
  shows "stage {a, b} e e3" "balanced e \<Longrightarrow> balanced e3"
    "position_basis_q (accounts e3 ! a) = oa + q" "position_basis_q (accounts e3 ! b) = ob - q"
    "eqm (accounts e ! a) + tp - fee \<le> eqm (accounts e3 ! a)"
    "eqm (accounts e3 ! a) \<le> eqm (accounts e ! a) + tp"
    "eqm (accounts e ! b) - tp - fee \<le> eqm (accounts e3 ! b)"
    "eqm (accounts e3 ! b) \<le> eqm (accounts e ! b) - tp"
    "eqm (accounts e3 ! a) + eqm (accounts e3 ! b) + (ins_bal e3 - ins_bal e)
      \<le> eqm (accounts e ! a) + eqm (accounts e ! b)"
    "ins_bal e \<le> ins_bal e3"
    "oi_eff_long_q e3 \<le> MAX_OI_SIDE_Q" "oi_eff_short_q e3 \<le> MAX_OI_SIDE_Q"
    "get_side_mode s e = DrainOnly \<Longrightarrow> get_oi_eff s e3 \<le> get_oi_eff s e"
    "params e2 = params e"
proof -
  let ?m = "maybe_finalize_ready_reset_sides e"
  obtain l r where ois: "ois = (l, r)" by (cases ois)
  have v: "bilateral_oi_after oa (oa + q) ob (ob - q) ?m = Ok (l, r)" "l \<le> MAX_OI_SIDE_Q" "r \<le> MAX_OI_SIDE_Q"
    "\<not> side_blocked Long l ?m" "\<not> side_blocked Short r ?m"
    using okR_D[OF trade_oi_value o] unfolding ois prod.case by blast+
  have c2: "stage {a, b} ?m e2" and c3: "stage {a, b} e2 e3" and mk: "mkt_fields e3 = mkt_fields e2"
    using c ch unfolding committed_def charged_def by blast+
  have m0: "stage {a, b} e ?m" using stage_mono[OF maybe_finalize_stage(1)[OF g]] by blast
  show "stage {a, b} e e3" using stage_trans[OF stage_trans[OF m0 c2] c3] .
  show "params e2 = params e" using stage_D(3)[OF c2] by (simp add: maybe_finalize_reads)
  have oi: "oi_eff_long_q e3 = l" "oi_eff_short_q e3 = r"
    using mk c by (simp_all add: mkt_fields_def committed_def ois)
  show "oi_eff_long_q e3 \<le> MAX_OI_SIDE_Q" "oi_eff_short_q e3 \<le> MAX_OI_SIDE_Q" using v oi by simp_all
  show "balanced e3" if "balanced e"
    using bilateral_balanced[OF v(1)] that maybe_finalize_stage(2)[OF g] oi by (simp add: balanced_def)
  show "get_oi_eff s e3 \<le> get_oi_eff s e" if d: "get_side_mode s e = DrainOnly"
    using v(4,5) maybe_finalize_reads(5)[OF d] maybe_finalize_reads(4)[of s e] oi
    by (cases s) (simp_all add: side_blocked_def)
  show "position_basis_q (accounts e3 ! a) = oa + q" "position_basis_q (accounts e3 ! b) = ob - q"
    "eqm (accounts e ! a) + tp - fee \<le> eqm (accounts e3 ! a)"
    "eqm (accounts e3 ! a) \<le> eqm (accounts e ! a) + tp"
    "eqm (accounts e ! b) - tp - fee \<le> eqm (accounts e3 ! b)"
    "eqm (accounts e3 ! b) \<le> eqm (accounts e ! b) - tp"
    "eqm (accounts e3 ! a) + eqm (accounts e3 ! b) + (ins_bal e3 - ins_bal e)
      \<le> eqm (accounts e ! a) + eqm (accounts e ! b)"
    "ins_bal e \<le> ins_bal e3"
    using c ch by (simp_all add: committed_def charged_def maybe_finalize_reads)
qed

theorem trade_core_spec:
  assumes g: "good e" and ab: "a \<noteq> b" and md: "mode_ok (params e) (ctx_mode c)"
  shows "okP (trade_core a b px q xp c e) (\<lambda>c' e'. ctx_rel c c' \<and> traded a b px q xp e e')"
    (is "okP _ ?P")
proof -
  let ?m = "maybe_finalize_ready_reset_sides e"
  define P where "P = ?P"
  have tail: "okP (sthen (trade_commit a b tp tpb na nb ois c ?m) (\<lambda>ctx e.
     sthen (trade_settle a b px q xp oa na ob nb ba bb tp tpb e) (\<lambda>_ e. (Ok ctx, e)))) P"
    if pos: "effective_pos_q a e = Ok oa" "effective_pos_q b e = Ok ob" and n: "na = oa + q" "nb = ob - q"
      and o: "trade_oi oa na ob nb ?m = Ok ois" and tp: "tp = q * (px - xp) div POS_SCALE" "tpb = - tp"
    for oa ob na nb ois tp tpb ba bb
  proof -
    have "case ois of (l, s) \<Rightarrow> in_u128 l \<and> in_u128 s" using okR_D[OF trade_oi_value o] by auto
    then have u: "in_u128 (fst ois)" "in_u128 (snd ois)" by (simp_all add: case_prod_beta)
    have gm: "good ?m" using stage_D(1)[OF maybe_finalize_stage(1)[OF g]] .
    have mm: "mode_ok (params ?m) (ctx_mode c)" using md by (simp add: maybe_finalize_reads)
    show ?thesis
    proof (rule okP_then[OF trade_commit_spec[OF gm ab mm u]], elim conjE)
      fix c1 e2 assume r: "ctx_rel c c1" and cm: "committed a b tp tpb na nb ois ?m e2"
      have g2: "good e2" using cm stage_D(1) unfolding committed_def by blast
      show "okP (sthen (trade_settle a b px q xp oa na ob nb ba bb tp tpb e2) (\<lambda>_ e. (Ok c1, e))) P"
      proof (rule okP_then[OF trade_settle_spec[OF g2 ab]], elim exE conjE)
        fix x e3 fee
        assume f: "trade_fee q xp e2 = Ok fee" and ch: "charged a b fee e2 e3"
          and ta: "traded_margin a px oa na tp e3" "traded_margin b px ob nb tpb e3"
        note M = trade_moved[OF g cm[unfolded n tp(2)] o[unfolded n] ch]
        have f': "trade_fee q xp e = Ok fee" using f trade_fee_params[OF M(14)] by simp
        have "traded a b px q xp e e3"
          unfolding traded_def Let_def pos f' tp(1)[symmetric]
          using M ta n tp(2) by simp
        then show "okP (Ok c1, e3) P" using r by (simp add: P_def)
      qed
    qed
  qed
  have "okP (trade_core a b px q xp c e) P"
    unfolding trade_core_def Let_def okP_sval
  proof (intro okR_I)
    fix oa ob ba bb :: int and nn :: "int \<times> int"
    assume oa: "effective_pos_q a e = Ok oa" and ob: "effective_pos_q b e = Ok ob"
      and tp0: "trade_positions oa ob q px = Ok nn"
    obtain na nb where nn: "nn = (na, nb)" by (cases nn)
    have n: "na = oa + q" "nb = ob - q" using okR_D[OF trade_positions_value tp0] by (simp_all add: nn)
    show "okP (case nn of (new_eff_a, new_eff_b) \<Rightarrow>
     sval (trade_oi oa new_eff_a ob new_eff_b ?m) ?m (\<lambda>ois.
     sval (compute_trade_pnl q (px - xp)) ?m (\<lambda>trade_pnl_a.
     sval (ok_or Overflow (fit_i128 (- trade_pnl_a))) ?m (\<lambda>trade_pnl_b.
     sthen (trade_commit a b trade_pnl_a trade_pnl_b new_eff_a new_eff_b ois c ?m) (\<lambda>ctx e.
     sthen (trade_settle a b px q xp oa new_eff_a ob new_eff_b
              ba bb trade_pnl_a trade_pnl_b e) (\<lambda>_ e.
     (Ok ctx, e))))))) P"
      unfolding nn prod.case okP_sval okR_ok_or fit_Some
    proof (intro okR_I allI impI, elim conjE)
      fix ois tp tpb assume o: "trade_oi oa na ob nb ?m = Ok ois" and t: "compute_trade_pnl q (px - xp) = Ok tp"
        and tb: "tpb = - tp"
      show "okP (sthen (trade_commit a b tp tpb na nb ois c ?m) (\<lambda>ctx e.
     sthen (trade_settle a b px q xp oa na ob nb ba bb tp tpb e) (\<lambda>_ e. (Ok ctx, e)))) P"
        by (rule tail[OF oa ob n o trade_pnl_value(1)[OF t] tb])
    qed
  qed
  then show ?thesis by (simp only: P_def)
qed


section \<open>The whole instruction keeps the invariant\<close>

lemma trade_checks_okR:
  "okR (trade_checks a b px q xp lo hi e) (\<lambda>_. is_used e a \<and> is_used e b \<and> a \<noteq> b \<and> market_mode e = Live
     \<and> 0 < q \<and> q \<le> MAX_TRADE_SIZE_Q \<and> px \<noteq> 0 \<and> px \<le> MAX_ORACLE_PRICE
     \<and> (0 \<le> lo \<longrightarrow> 0 \<le> hi \<longrightarrow> mode_ok (params e) (UseAdmissionPair lo hi)))"
  using admission_pair_ok[of lo hi "params e" "()"]
  unfolding trade_checks_def okR_rthen okR_if by (auto simp: okR_def)

lemma flush_stage:
  assumes "good e"
  shows "okP (flush_resets e) (\<lambda>_ e'. stage {} e e')"
  unfolding flush_resets_def
  by (rule okP_then[OF schedule_spec[OF assms]], elim conjE,
      rule okP_mono[OF finalize_resets_spec], erule stage_D(1), blast intro: stage_trans)

theorem execute_trade_spec:
  assumes v: "inv e" and t: "in_u64 now" "0 \<le> px" "0 \<le> lo" "0 \<le> hi"
  shows "okP (execute_trade_not_atomic a b px now q xp rate lo hi e)
     (\<lambda>_ e'. inv e' \<and> stage {a, b} e e' \<and> is_used e a \<and> is_used e b \<and> a \<noteq> b \<and> 0 < q)"
    (is "okP _ ?P")
  unfolding execute_trade_not_atomic_def okP_sval Let_def
proof (rule okR_mono[OF trade_checks_okR], elim conjE)
  fix u :: unit
  assume us: "is_used e a" "is_used e b" and ab: "a \<noteq> b" and q: "0 < q"
    and md0: "0 \<le> lo \<longrightarrow> 0 \<le> hi \<longrightarrow> mode_ok (params e) (UseAdmissionPair lo hi)"
  note I = inv_D[OF v]
  have md: "mode_ok (params e) (UseAdmissionPair lo hi)" using md0 t by simp
  have fin: "okP (sthen (finalize_touched_accounts_post_live c e') (\<lambda>_ e. live_epilogue c e)) ?P"
    if "touching {a, b} lo hi e c e'" for c e'
    by (rule okP_mono[OF touching_finish[OF that v]]) (use us ab q in auto)
  have mid: "okP (sthen (flush_resets e1) (\<lambda>_ e.
     sthen (trade_core a b px q xp c e) (\<lambda>ctx e.
     sthen (finalize_touched_accounts_post_live ctx e) (\<lambda>_ e. live_epilogue ctx e)))) ?P"
    if T: "touching {a, b} lo hi e c e1" for c e1
  proof (rule okP_then[OF flush_stage[OF touching_D(5)[OF T]]])
    fix x e2 assume s: "stage {} e1 e2"
    have T2: "touching {a, b} lo hi e c e2" using touching_stage[OF T stage_mono[OF s]] by simp
    have m2: "mode_ok (params e2) (ctx_mode c)" using md touching_D(3,6)[OF T2] by simp
    show "okP (sthen (trade_core a b px q xp c e2) (\<lambda>ctx e.
       sthen (finalize_touched_accounts_post_live ctx e) (\<lambda>_ e. live_epilogue ctx e))) ?P"
    proof (rule okP_then[OF trade_core_spec[OF touching_D(5)[OF T2] ab m2]], elim conjE)
      fix c3 e3 assume r: "ctx_rel c c3" and d: "traded a b px q xp e2 e3"
      have "stage {a, b} e2 e3" using d unfolding traded_def Let_def by blast
      then show "okP (sthen (finalize_touched_accounts_post_live c3 e3) (\<lambda>_ e. live_epilogue c3 e)) ?P"
        by (rule fin[OF touching_rel[OF touching_stage[OF T2] r]])
    qed
  qed
  show "okP (sthen (accrue_to now px rate e) (\<lambda>_ e.
     sthen (touch_account_live_local a (new_with_admission lo hi) e) (\<lambda>ctx e.
     sthen (touch_account_live_local b ctx e) (\<lambda>ctx e.
     sthen (flush_resets e) (\<lambda>_ e.
     sthen (trade_core a b px q xp ctx e) (\<lambda>ctx e.
     sthen (finalize_touched_accounts_post_live ctx e) (\<lambda>_ e. live_epilogue ctx e))))))) ?P"
  proof (rule okP_then[OF accrue_to_stage[OF I(2) t(1,2)]], elim conjE)
    fix x e1 assume s1: "stage {} e e1"
    have T1: "touching {a, b} lo hi e (new_with_admission lo hi) e1"
      by (rule touching_stage[OF touching_new[OF I(2)] stage_mono[OF s1]]) simp
    show "okP (sthen (touch_account_live_local a (new_with_admission lo hi) e1) (\<lambda>ctx e.
     sthen (touch_account_live_local b ctx e) (\<lambda>ctx e.
     sthen (flush_resets e) (\<lambda>_ e.
     sthen (trade_core a b px q xp ctx e) (\<lambda>ctx e.
     sthen (finalize_touched_accounts_post_live ctx e) (\<lambda>_ e. live_epilogue ctx e)))))) ?P"
    proof (rule okP_then[OF touch_into[OF T1 md _ I(5)]], simp, elim conjE)
      fix c2 e2 assume T2: "touching {a, b} lo hi e c2 e2"
      show "okP (sthen (touch_account_live_local b c2 e2) (\<lambda>ctx e.
     sthen (flush_resets e) (\<lambda>_ e.
     sthen (trade_core a b px q xp ctx e) (\<lambda>ctx e.
     sthen (finalize_touched_accounts_post_live ctx e) (\<lambda>_ e. live_epilogue ctx e))))) ?P"
        by (rule okP_then[OF touch_into[OF T2 md _ I(5)]]) (simp, blast intro: mid)
    qed
  qed
qed

end
