(* ===== verification/Liquidate.thy ===== *)
theory Liquidate
  imports Trade
begin

text \<open>
  Liquidation and the keeper crank of \<open>src/src/percolator.rs\<close>: \<open>liquidate_at_oracle_not_atomic\<close>,
  \<open>liquidate_at_oracle_internal\<close>, \<open>validate_keeper_hint\<close> and \<open>keeper_crank_not_atomic\<close>.
\<close>

section \<open>Operations\<close>

definition liquidation_fee :: "int \<Rightarrow> int \<Rightarrow> engine \<Rightarrow> int outcome" where
  "liquidation_fee q_close_q oracle_price e =
     rthen (mul_div_floor_u128 q_close_q oracle_price POS_SCALE) (\<lambda>notional_val.
     rthen (mul_div_ceil_u128 notional_val (liquidation_fee_bps (params e)) 10000) (\<lambda>liq_fee_raw.
     Ok (min (max liq_fee_raw (min_liquidation_abs (params e))) (liquidation_fee_cap (params e)))))"

text \<open>The part both policies share: attach the remaining position, settle, charge the fee.\<close>

definition liq_close :: "nat \<Rightarrow> int \<Rightarrow> int \<Rightarrow> int \<Rightarrow> engine \<Rightarrow> unit step" where
  "liq_close idx new_eff q_close_q oracle_price e =
     sthen (attach_effective_position idx new_eff e) (\<lambda>_ e.
     sthen (settle_losses idx e) (\<lambda>_ e.
     sval (if q_close_q = 0 then Ok 0 else liquidation_fee q_close_q oracle_price e) e (\<lambda>liq_fee.
     sthen (charge_fee_to_insurance idx liq_fee e) (\<lambda>_ e. (Ok (), e)))))"

definition liq_partial ::
  "nat \<Rightarrow> int \<Rightarrow> int \<Rightarrow> side \<Rightarrow> int \<Rightarrow> instruction_context \<Rightarrow> engine \<Rightarrow> (bool \<times> instruction_context) step"
where
  "liq_partial idx oracle_price q_close_q liq_side old_eff ctx e =
     (if q_close_q = 0 \<or> q_close_q \<ge> \<bar>old_eff\<bar> then (Err Overflow, e)
      else
        sval (ok_or Overflow (fit_u128 (\<bar>old_eff\<bar> - q_close_q))) e (\<lambda>new_eff_abs_q.
        if new_eff_abs_q = 0 then (Err Overflow, e)
        else
          let sign = (if old_eff > 0 then 1 else - 1) in
          sval (ok_or Overflow (fit_i128 (sign * as_i128 new_eff_abs_q))) e (\<lambda>new_eff.
          sthen (liq_close idx new_eff q_close_q oracle_price e) (\<lambda>_ e.
          sthen (enqueue_adl ctx liq_side q_close_q 0 e) (\<lambda>ctx e.
          sacct e idx (\<lambda>a.
          sval (is_above_maintenance_margin a idx oracle_price e) e (\<lambda>ok.
          if \<not> ok then (Err Undercollateralized, e) else (Ok (True, ctx), e))))))))"

definition liq_full ::
  "nat \<Rightarrow> int \<Rightarrow> side \<Rightarrow> int \<Rightarrow> instruction_context \<Rightarrow> engine \<Rightarrow> (bool \<times> instruction_context) step"
where
  "liq_full idx oracle_price liq_side old_eff ctx e =
     (let q_close_q = \<bar>old_eff\<bar> in
      sthen (liq_close idx 0 q_close_q oracle_price e) (\<lambda>_ e.
      sval (effective_pos_q idx e) e (\<lambda>eff_post.
      sacct e idx (\<lambda>a.
      if eff_post = 0 \<and> pnl a < 0 \<and> pnl a = I128_MIN then (Err CorruptState, e)
      else
        let d = (if eff_post = 0 \<and> pnl a < 0 then \<bar>pnl a\<bar> else 0) in
        sthen (if q_close_q \<noteq> 0 \<or> d \<noteq> 0 then enqueue_adl ctx liq_side q_close_q d e
               else (Ok ctx, e)) (\<lambda>ctx e.
        sthen (if d \<noteq> 0
               then sthen (set_pnl_with_reserve idx 0 NoPositiveIncreaseAllowed None e) (\<lambda>_ e. (Ok (), e))
               else (Ok (), e)) (\<lambda>_ e.
        (Ok (True, ctx), e)))))))"

definition liquidate_at_oracle_internal ::
  "nat \<Rightarrow> int \<Rightarrow> liquidation_policy \<Rightarrow> instruction_context \<Rightarrow> engine \<Rightarrow> (bool \<times> instruction_context) step"
where
  "liquidate_at_oracle_internal idx oracle_price policy ctx e =
     (if idx \<ge> MAX_ACCOUNTS e \<or> \<not> is_used e idx then (Ok (False, ctx), e)
      else if oracle_price = 0 \<or> oracle_price > MAX_ORACLE_PRICE then (Err Overflow, e)
      else
        sval (effective_pos_q idx e) e (\<lambda>old_eff.
        if old_eff = 0 then (Ok (False, ctx), e)
        else
          sval (is_above_maintenance_margin (accounts e ! idx) idx oracle_price e) e (\<lambda>healthy.
          if healthy then (Ok (False, ctx), e)
          else
            sval (expect (side_of_i128 old_eff)) e (\<lambda>liq_side.
            case policy of
              ExactPartial q_close_q \<Rightarrow> liq_partial idx oracle_price q_close_q liq_side old_eff ctx e
            | FullClose \<Rightarrow> liq_full idx oracle_price liq_side old_eff ctx e))))"

definition liquidate_at_oracle_not_atomic ::
  "nat \<Rightarrow> int \<Rightarrow> int \<Rightarrow> liquidation_policy \<Rightarrow> int \<Rightarrow> int \<Rightarrow> int \<Rightarrow> engine \<Rightarrow> bool step"
where
  "liquidate_at_oracle_not_atomic idx now_slot oracle_price policy funding_rate_e9 admit_h_min admit_h_max e =
     sval (validate_admission_pair admit_h_min admit_h_max (params e)) e (\<lambda>_.
     if idx \<ge> MAX_ACCOUNTS e \<or> \<not> is_used e idx then (Err AccountNotFound, e)
     else if market_mode e \<noteq> Live then (Err Unauthorized, e)
     else
       let ctx = new_with_admission admit_h_min admit_h_max in
       sthen (accrue_to now_slot oracle_price funding_rate_e9 e) (\<lambda>_ e.
       sthen (touch_account_live_local idx ctx e) (\<lambda>ctx e.
       sthen (liquidate_at_oracle_internal idx oracle_price policy ctx e) (\<lambda>(result, ctx) e.
       sthen (finalize_touched_accounts_post_live ctx e) (\<lambda>_ e.
       sthen (live_epilogue ctx e) (\<lambda>_ e. (Ok result, e)))))))"

section \<open>The keeper crank\<close>

text \<open>The fee a charge would take from the account, predicted without charging it.\<close>

definition predicted_fee :: "account \<Rightarrow> int \<Rightarrow> int outcome" where
  "predicted_fee a liq_fee =
     (let fee_from_capital = min liq_fee (capital a);
          fee_shortfall = liq_fee - fee_from_capital;
          fc_headroom = (case fit_i128 (fee_credits a + I128_MAX) of
                           Some h \<Rightarrow> if h > 0 then h else 0 | None \<Rightarrow> 0);
          fee_from_debt = min fee_shortfall fc_headroom in
      expect (fit_u128 (fee_from_capital + fee_from_debt)))"

definition validate_keeper_hint ::
  "nat \<Rightarrow> int \<Rightarrow> liquidation_policy option \<Rightarrow> int \<Rightarrow> engine \<Rightarrow> liquidation_policy option outcome"
where
  "validate_keeper_hint idx eff hint oracle_price e =
     (case hint of
        None \<Rightarrow> Ok None
      | Some FullClose \<Rightarrow> Ok (Some FullClose)
      | Some (ExactPartial q_close_q) \<Rightarrow>
          let abs_eff = \<bar>eff\<bar> in
          if q_close_q = 0 \<or> q_close_q \<ge> abs_eff then Ok None
          else
            acct e idx (\<lambda>a.
            rthen (liquidation_fee q_close_q oracle_price e) (\<lambda>liq_fee.
            rthen (predicted_fee a liq_fee) (\<lambda>fee_applied.
            rthen (account_equity_maint_raw_wide a) (\<lambda>eq_raw_wide.
            case fit_i256 (eq_raw_wide - fee_applied) of
              None \<Rightarrow> Ok None
            | Some predicted_eq \<Rightarrow>
                rthen (expect (fit_u128 (abs_eff - q_close_q))) (\<lambda>rem_eff.
                rthen (mul_div_floor_u128 rem_eff oracle_price POS_SCALE) (\<lambda>rem_notional.
                rthen (mul_div_floor_u128 rem_notional (maintenance_margin_bps (params e)) 10000)
                  (\<lambda>proportional_mm.
                let predicted_mm_req =
                      (if rem_eff = 0 then 0 else max proportional_mm (min_nonzero_mm_req (params e))) in
                if predicted_eq \<le> predicted_mm_req then Ok None
                else Ok (Some (ExactPartial q_close_q))))))))))"

text \<open>One candidate: touch it, and liquidate it when it is unhealthy and the hint is valid.\<close>

definition crank_one ::
  "nat \<Rightarrow> liquidation_policy option \<Rightarrow> int \<Rightarrow> instruction_context \<Rightarrow> engine
     \<Rightarrow> (nat \<times> instruction_context) step"
where
  "crank_one cidx hint oracle_price ctx e =
     sthen (touch_account_live_local cidx ctx e) (\<lambda>ctx e.
     if \<not> pending_reset_long ctx \<and> \<not> pending_reset_short ctx then
       sval (effective_pos_q cidx e) e (\<lambda>eff.
       if eff \<noteq> 0 then
         sval (is_above_maintenance_margin (accounts e ! cidx) cidx oracle_price e) e (\<lambda>healthy.
         if \<not> healthy then
           sval (validate_keeper_hint cidx eff hint oracle_price e) e (\<lambda>opt_policy.
           case opt_policy of
             Some policy \<Rightarrow>
               sthen (liquidate_at_oracle_internal cidx oracle_price policy ctx e) (\<lambda>(liq, ctx) e.
               (Ok (if liq then 1 else 0, ctx), e))
           | None \<Rightarrow> (Ok (0, ctx), e))
         else (Ok (0, ctx), e))
       else (Ok (0, ctx), e))
     else (Ok (0, ctx), e))"

text \<open>
  The candidate loop: it stops on the budget or on a pending reset, and skips missing accounts
  without counting them.
\<close>

fun crank_loop ::
  "(nat \<times> liquidation_policy option) list \<Rightarrow> int \<Rightarrow> int \<Rightarrow> nat \<Rightarrow> int \<Rightarrow> instruction_context \<Rightarrow> engine
     \<Rightarrow> (nat \<times> instruction_context) step"
where
  "crank_loop [] max_revalidations attempts liqs oracle_price ctx e =
     (Ok (liqs, ctx), e)"
| "crank_loop ((candidate_idx, hint) # cs) max_revalidations attempts liqs oracle_price ctx e =
     (if attempts \<ge> max_revalidations then (Ok (liqs, ctx), e)
      else if pending_reset_long ctx \<or> pending_reset_short ctx then (Ok (liqs, ctx), e)
      else if candidate_idx \<ge> MAX_ACCOUNTS e \<or> \<not> is_used e candidate_idx
      then crank_loop cs max_revalidations attempts liqs oracle_price ctx e
      else
        sthen (crank_one candidate_idx hint oracle_price ctx e) (\<lambda>(n, ctx) e.
        crank_loop cs max_revalidations (attempts + 1) (liqs + n) oracle_price ctx e))"

definition keeper_crank_not_atomic ::
  "int \<Rightarrow> int \<Rightarrow> (nat \<times> liquidation_policy option) list \<Rightarrow> int \<Rightarrow> int \<Rightarrow> int \<Rightarrow> int \<Rightarrow> engine
     \<Rightarrow> crank_outcome step"
where
  "keeper_crank_not_atomic now_slot oracle_price ordered_candidates max_revalidations funding_rate_e9
     admit_h_min admit_h_max e =
     sval (validate_admission_pair admit_h_min admit_h_max (params e)) e (\<lambda>_.
     if oracle_price = 0 \<or> oracle_price > MAX_ORACLE_PRICE then (Err Overflow, e)
     else if market_mode e \<noteq> Live then (Err Unauthorized, e)
     else if max_revalidations > int MAX_TOUCHED_PER_INSTRUCTION then (Err Overflow, e)
     else if now_slot < current_slot e then (Err Overflow, e)
     else if now_slot < last_market_slot e then (Err Overflow, e)
     else
       let ctx = new_with_admission admit_h_min admit_h_max in
       sthen (accrue_to now_slot oracle_price funding_rate_e9 e) (\<lambda>_ e.
       let adv = (now_slot > last_crank_slot e);
           e = (if adv then e\<lparr> last_crank_slot := now_slot \<rparr> else e) in
       sthen (crank_loop ordered_candidates max_revalidations 0 0 oracle_price ctx e) (\<lambda>(liqs, ctx) e.
       sthen (finalize_touched_accounts_post_live ctx e) (\<lambda>_ e.
       sthen (live_epilogue ctx e) (\<lambda>_ e.
       (Ok \<lparr> advanced = adv, num_liquidations = liqs, num_gc_closed = 0 \<rparr>, e))))))"


section \<open>What a liquidation does\<close>

lemma lstage_balanced: "lstage i e e' \<Longrightarrow> balanced e' = balanced e"
  using mkt_fields_reads(2)[of e' e] by (simp add: balanced_sides lstage_def)

lemma liq_fee_nonneg:
  assumes "params_typed (params e)"
  shows "okR (if q = 0 then Ok 0 else liquidation_fee q px e) (\<lambda>fee. 0 \<le> fee)"
  using assms
  unfolding liquidation_fee_def okR_rthen okR_if okR_basic
  by (auto intro!: okR_I simp: params_typed_def in_u128_def)

text \<open>Closing attaches the remaining position and moves equity by the fee impact only.\<close>

definition liq_closed :: "nat \<Rightarrow> int \<Rightarrow> engine \<Rightarrow> engine \<Rightarrow> bool" where
  "liq_closed i q e e' =
     (lstage i e e' \<and> position_basis_q (accounts e' ! i) = q
      \<and> 0 \<le> ins_bal e' - ins_bal e
      \<and> ins_bal e' - ins_bal e \<le> eqm (accounts e ! i) - eqm (accounts e' ! i))"

lemma liq_close_spec:
  assumes g: "good e"
  shows "okP (liq_close i q c px e) (\<lambda>_ e'. liq_closed i q e e' \<and> i < MAX_ACCOUNTS e)"
    (is "okP _ ?P")
  unfolding liq_close_def
proof (rule okP_then[OF attach_stage[OF g]], elim conjE)
  fix u e1 assume i: "i < MAX_ACCOUNTS e" and l1: "lstage i e e1" and q1: "eqm (accounts e1 ! i) = eqm (accounts e ! i)"
    and p1: "position_basis_q (accounts e1 ! i) = q" and i1: "ins_bal e1 = ins_bal e"
  show "okP (sthen (settle_losses i e1) (\<lambda>_ e.
     sval (if c = 0 then Ok 0 else liquidation_fee c px e) e (\<lambda>liq_fee.
     sthen (charge_fee_to_insurance i liq_fee e) (\<lambda>_ e. (Ok (), e))))) ?P"
  proof (rule okP_then[OF settle_losses_eq[OF lstage_D(1)[OF l1]]], elim conjE)
    fix v e2 assume l2: "lstage i e1 e2" and q2: "eqm (accounts e2 ! i) = eqm (accounts e1 ! i)"
      and p2: "position_basis_q (accounts e2 ! i) = position_basis_q (accounts e1 ! i)" and i2: "ins_bal e2 = ins_bal e1"
    have g2: "good e2" using lstage_D(1)[OF l2] .
    show "okP (sval (if c = 0 then Ok 0 else liquidation_fee c px e2) e2 (\<lambda>liq_fee.
     sthen (charge_fee_to_insurance i liq_fee e2) (\<lambda>_ e. (Ok (), e)))) ?P"
      unfolding okP_sval
    proof (rule okR_mono[OF liq_fee_nonneg[OF good_D(6)[OF g2]]])
      fix fee :: int assume f: "0 \<le> fee"
      show "okP (sthen (charge_fee_to_insurance i fee e2) (\<lambda>_ e. (Ok (), e))) ?P"
      proof (rule okP_then[OF charge_fee_stage[OF g2 f]])
        fix p :: "int \<times> int \<times> int" and e3
        obtain cash impact dropped where p: "p = (cash, impact, dropped)" by (cases p)
        assume A: "(case p of (cash, impact, dropped) \<Rightarrow> \<lambda>e'. i < MAX_ACCOUNTS e2 \<and> lstage i e2 e'
     \<and> eqm (accounts e' ! i) = eqm (accounts e2 ! i) - impact
     \<and> position_basis_q (accounts e' ! i) = position_basis_q (accounts e2 ! i)
     \<and> ins_bal e' = ins_bal e2 + cash \<and> cash = min fee (capital (accounts e2 ! i))
     \<and> 0 \<le> cash \<and> cash \<le> impact \<and> impact + dropped = fee \<and> 0 \<le> dropped) e3"
        have l3: "lstage i e2 e3" using A unfolding p prod.case by blast
        have E: "eqm (accounts e3 ! i) = eqm (accounts e2 ! i) - impact"
          "position_basis_q (accounts e3 ! i) = position_basis_q (accounts e2 ! i)"
          "ins_bal e3 = ins_bal e2 + cash" "0 \<le> cash" "cash \<le> impact"
          using A unfolding p prod.case by blast+
        have "lstage i e e3" using lstage_trans[OF lstage_trans[OF l1 l2] l3] .
        then show "okP (Ok (), e3) ?P"
          using E q1 p1 i1 q2 p2 i2 i by (simp add: liq_closed_def)
      qed
    qed
  qed
qed

text \<open>
  A successful liquidation: the account was open and not above maintenance; a partial leaves it
  above maintenance with the rest of its position, a full one leaves it flat and without loss, the
  deficit \<open>d\<close> being met by insurance down to its floor first.
\<close>

definition liquidated :: "nat \<Rightarrow> int \<Rightarrow> liquidation_policy \<Rightarrow> engine \<Rightarrow> engine \<Rightarrow> bool" where
  "liquidated i px policy e e' =
     (\<exists>q d cash. effective_pos_q i e = Ok q \<and> q \<noteq> 0
        \<and> is_above_maintenance_margin (accounts e ! i) i px e = Ok False
        \<and> stage {i} e e' \<and> (balanced e \<longrightarrow> balanced e')
        \<and> 0 \<le> d \<and> 0 \<le> cash
        \<and> ins_bal e' = ins_bal e + cash - min d (max 0 (ins_bal e + cash - insurance_floor (params e)))
        \<and> eqm (accounts e' ! i) \<le> eqm (accounts e ! i) - cash + d
        \<and> (case policy of
             FullClose \<Rightarrow> position_basis_q (accounts e' ! i) = 0 \<and> 0 \<le> pnl (accounts e' ! i)
                \<and> (d \<noteq> 0 \<longrightarrow> pnl (accounts e' ! i) = 0)
           | ExactPartial c \<Rightarrow> d = 0 \<and> c \<noteq> 0 \<and> c < \<bar>q\<bar>
                \<and> position_basis_q (accounts e' ! i) = (if q > 0 then q - c else q + c)
                \<and> is_above_maintenance_margin (accounts e' ! i) i px e' = Ok True))"

lemma adl_effects:
  assumes "adl_post liq q d e e'" "good e" "0 \<le> d" "0 \<le> q"
  shows "stage {} e e'" "accounts e' = accounts e" "balanced e \<Longrightarrow> balanced e'"
    "ins_bal e' = ins_bal e - min d (max 0 (ins_bal e - insurance_floor (params e)))"
  using adl_stage[OF assms(1,2,3)] adl_balanced[OF assms(1) _ assms(4) good_D(3)[OF assms(2)]] assms(1)
  by (simp_all add: adl_post_def outer_def Let_def balanced_sides)

lemma flat_effective: "i < MAX_ACCOUNTS e \<Longrightarrow> position_basis_q (accounts e ! i) = 0 \<Longrightarrow> effective_pos_q i e = Ok 0"
  by (simp add: effective_pos_q_def acct_def)

lemma liq_partial_spec:
  assumes g: "good e" and c: "0 \<le> c" and q: "effective_pos_q i e = Ok q" "q \<noteq> 0" "in_i128 q"
    and m: "is_above_maintenance_margin (accounts e ! i) i px e = Ok False"
  shows "okP (liq_partial i px c s q ctx e) (\<lambda>(b, ctx') e'. ctx_sim ctx ctx' \<and> b \<and> liquidated i px (ExactPartial c) e e')"
    (is "okP _ ?P")
proof -
  define P where "P = ?P"
  have go: "okP (sthen (liq_close i new c px e) (\<lambda>_ e.
          sthen (enqueue_adl ctx s c 0 e) (\<lambda>ctx e.
          sacct e i (\<lambda>a.
          sval (is_above_maintenance_margin a i px e) e (\<lambda>ok.
          if \<not> ok then (Err Undercollateralized, e) else (Ok (True, ctx), e)))))) P"
    if b: "c \<noteq> 0" "c < \<bar>q\<bar>" and new: "new = (if q > 0 then q - c else q + c)" for new
  proof (rule okP_then[OF liq_close_spec[OF g]], elim conjE)
    fix u e1 assume L: "liq_closed i new e e1" and i: "i < MAX_ACCOUNTS e"
    have l1: "lstage i e e1" using L by (simp add: liq_closed_def)
    have g1: "good e1" using lstage_D(1)[OF l1] .
    show "okP (sthen (enqueue_adl ctx s c 0 e1) (\<lambda>ctx e.
          sacct e i (\<lambda>a.
          sval (is_above_maintenance_margin a i px e) e (\<lambda>ok.
          if \<not> ok then (Err Undercollateralized, e) else (Ok (True, ctx), e))))) P"
    proof (rule okP_then[OF enqueue_adl_spec[OF g1 order_refl c]], elim conjE)
      fix ctx2 e2 assume r: "ctx_sim ctx ctx2" and A: "adl_post s c 0 e1 e2"
      note E = adl_effects[OF A g1 order_refl c]
      have st: "stage {i} e e2" using stage_trans[OF lstage_D(2)[OF l1] stage_mono[OF E(1)]] by simp
      have bal: "balanced e \<longrightarrow> balanced e2" using E(3) lstage_balanced[OF l1] by simp
      have fin: "P (True, ctx2) e2" if ok: "is_above_maintenance_margin (accounts e2 ! i) i px e2 = Ok True"
      proof -
        have "liquidated i px (ExactPartial c) e e2"
          unfolding liquidated_def
          by (rule exI[where x = q], rule exI[where x = 0], rule exI[where x = "ins_bal e1 - ins_bal e"])
            (use q m st bal ok b L E(2,4) in \<open>simp add: liq_closed_def new\<close>)
        then show ?thesis using r by (simp add: P_def)
      qed
      have "okR (is_above_maintenance_margin (accounts e2 ! i) i px e2)
          (\<lambda>ok. okP (if \<not> ok then (Err Undercollateralized, e2) else (Ok (True, ctx2), e2)) P)"
        using fin by (auto intro!: okR_I)
      then show "okP (sacct e2 i (\<lambda>a.
          sval (is_above_maintenance_margin a i px e2) e2 (\<lambda>ok.
          if \<not> ok then (Err Undercollateralized, e2) else (Ok (True, ctx2), e2)))) P"
        unfolding okP_sacct okP_sval by blast
    qed
  qed
  have new: "(if q > 0 then 1 else - 1) * as_i128 (\<bar>q\<bar> - c) = (if q > 0 then q - c else q + c)" if "c \<noteq> 0" "c < \<bar>q\<bar>"
    using that c q(3) by (auto simp: as_i128_def in_i128_def bounds abs_if split: if_splits)
  have "okP (liq_partial i px c s q ctx e) P"
    unfolding liq_partial_def Let_def okP_if okP_sval okR_ok_or fit_Some okP_basic
    using go new by auto
  then show ?thesis by (simp only: P_def)
qed


lemma effective_typed: "okR (effective_pos_q i e) in_i128"
proof -
  have "okR (mul_div_floor_u128 a b d) (\<lambda>x. 0 \<le> x)" for a b d
    by (auto intro!: okR_I simp: mul_div_floor_u128_Ok in_u128_def pos_imp_zdiv_nonneg_iff)
  then have "okR (mul_div_floor_u128 a b d)
      (\<lambda>x. okR (if c then if x = 0 then Ok 0 else if x > I128_MAX then Ok 0 else Ok (- x)
                 else if x > I128_MAX then Ok 0 else Ok x) in_i128)" for a b d c
    by (rule okR_mono) (auto simp: in_i128_def bounds)
  then show ?thesis
    unfolding effective_pos_q_def acct_def Let_def okR_rthen okR_if okR_basic okR_expect
    by (auto simp: in_i128_def bounds)
qed

lemma clear_pnl_spec:
  assumes g: "good e" and i: "i < MAX_ACCOUNTS e"
  shows "okP (sthen (set_pnl_with_reserve i 0 NoPositiveIncreaseAllowed None e) (\<lambda>_ e. (Ok (), e)))
     (\<lambda>_ e'. lstage i e e' \<and> pnl (accounts e' ! i) = 0
        \<and> eqm (accounts e' ! i) = eqm (accounts e ! i) - pnl (accounts e ! i)
        \<and> position_basis_q (accounts e' ! i) = position_basis_q (accounts e ! i) \<and> ins_bal e' = ins_bal e)"
    (is "okP _ ?P")
proof (rule okP_then[OF set_pnl_spec[OF good_D(1)[OF g]]])
  show "mode_ok (params e) NoPositiveIncreaseAllowed" by (simp add: mode_ok_def)
  fix u e' assume S: "pnl_set i 0 e e'"
  note F = pnl_set_frame[OF S]
  have "lstage i e e'"
    by (rule pnl_set_good(3)[OF S g]) (simp_all add: in_i128_def bounds)
  then show "okP (Ok (), e') ?P"
    using F(4) core_fields[OF F(3)] frame_D(2)[OF F(1)] by (simp add: eqm_def)
qed

text \<open>The deficit of a closed account, met by insurance, and the rest of a full close.\<close>

lemma full_deficit:
  assumes g: "good e" and i: "i < MAX_ACCOUNTS e" and flat: "position_basis_q (accounts e ! i) = 0" and c: "0 < c"
    and k: "\<And>ctx' e'. ctx_sim ctx ctx' \<Longrightarrow> stage {i} e e' \<Longrightarrow> (balanced e \<longrightarrow> balanced e')
        \<Longrightarrow> position_basis_q (accounts e' ! i) = 0 \<Longrightarrow> 0 \<le> pnl (accounts e' ! i)
        \<Longrightarrow> (d \<noteq> 0 \<longrightarrow> pnl (accounts e' ! i) = 0)
        \<Longrightarrow> eqm (accounts e' ! i) = eqm (accounts e ! i) + d
        \<Longrightarrow> ins_bal e' = ins_bal e - min d (max 0 (ins_bal e - insurance_floor (params e)))
        \<Longrightarrow> P (True, ctx') e'"
    and d: "d = (if pnl (accounts e ! i) < 0 then \<bar>pnl (accounts e ! i)\<bar> else 0)"
  shows "okP (sthen (if c \<noteq> 0 \<or> d \<noteq> 0 then enqueue_adl ctx s c d e else (Ok ctx, e)) (\<lambda>ctx e.
        sthen (if d \<noteq> 0
               then sthen (set_pnl_with_reserve i 0 NoPositiveIncreaseAllowed None e) (\<lambda>_ e. (Ok (), e))
               else (Ok (), e)) (\<lambda>_ e.
        (Ok (True, ctx), e)))) P"
proof -
  have c': "c \<noteq> 0 \<or> d \<noteq> 0" "0 \<le> c" using c by simp_all
  have d0: "0 \<le> d" by (simp add: d)
  show ?thesis
    unfolding if_P[OF c'(1)]
  proof (rule okP_then[OF enqueue_adl_spec[OF g d0 c'(2)]], elim conjE)
    fix ctx2 e2 assume r: "ctx_sim ctx ctx2" and A: "adl_post s c d e e2"
    note E = adl_effects[OF A g d0 c'(2)]
    have g2: "good e2" using stage_D(1)[OF E(1)] .
    have i2: "i < MAX_ACCOUNTS e2" using i E(2) by simp
    have st: "stage {i} e e2" using stage_mono[OF E(1)] by simp
    show "okP (sthen (if d \<noteq> 0
               then sthen (set_pnl_with_reserve i 0 NoPositiveIncreaseAllowed None e2) (\<lambda>_ e. (Ok (), e))
               else (Ok (), e2)) (\<lambda>_ e. (Ok (True, ctx2), e))) P"
    proof (cases "d = 0")
      case True
      then have nn: "0 \<le> pnl (accounts e ! i)" by (simp add: d split: if_splits)
      have "P (True, ctx2) e2"
        by (rule k[OF r st]) (use E True flat nn in simp_all)
      then show ?thesis using True by simp
    next
      case False
      then have neg: "d = - pnl (accounts e ! i)" by (simp add: d split: if_splits)
      have "okP (sthen (sthen (set_pnl_with_reserve i 0 NoPositiveIncreaseAllowed None e2) (\<lambda>_ e. (Ok (), e)))
          (\<lambda>_ e. (Ok (True, ctx2), e))) P"
      proof (rule okP_then[OF clear_pnl_spec[OF g2 i2]], elim conjE)
        fix u e3 assume l: "lstage i e2 e3" and z: "pnl (accounts e3 ! i) = 0"
          and q: "eqm (accounts e3 ! i) = eqm (accounts e2 ! i) - pnl (accounts e2 ! i)"
          and p: "position_basis_q (accounts e3 ! i) = position_basis_q (accounts e2 ! i)"
          and n: "ins_bal e3 = ins_bal e2"
        have "P (True, ctx2) e3"
          by (rule k[OF r stage_trans[OF st lstage_D(2)[OF l]]])
            (use lstage_balanced[OF l] E z q p n flat neg in simp_all)
        then show "okP (Ok (True, ctx2), e3) P" by simp
      qed
      then show ?thesis using False by simp
    qed
  qed
qed

lemma liq_full_spec:
  assumes g: "good e" and q: "effective_pos_q i e = Ok q" "q \<noteq> 0"
    and m: "is_above_maintenance_margin (accounts e ! i) i px e = Ok False"
  shows "okP (liq_full i px s q ctx e) (\<lambda>(b, ctx') e'. ctx_sim ctx ctx' \<and> b \<and> liquidated i px FullClose e e')"
    (is "okP _ ?P")
  unfolding liq_full_def Let_def
proof (rule okP_then[OF liq_close_spec[OF g]], elim conjE)
  fix u e1 assume L: "liq_closed i 0 e e1" and i: "i < MAX_ACCOUNTS e"
  have l1: "lstage i e e1" using L by (simp add: liq_closed_def)
  have g1: "good e1" using lstage_D(1)[OF l1] .
  have i1: "i < MAX_ACCOUNTS e1" using i stage_D(5)[OF lstage_D(2)[OF l1]] by simp
  have flat: "position_basis_q (accounts e1 ! i) = 0" using L by (simp add: liq_closed_def)
  define P where "P = ?P"
  define d where "d = (if pnl (accounts e1 ! i) < 0 then \<bar>pnl (accounts e1 ! i)\<bar> else 0)"
  have main: "okP (sthen (if \<bar>q\<bar> \<noteq> 0 \<or> d \<noteq> 0 then enqueue_adl ctx s \<bar>q\<bar> d e1 else (Ok ctx, e1)) (\<lambda>ctx e.
        sthen (if d \<noteq> 0
               then sthen (set_pnl_with_reserve i 0 NoPositiveIncreaseAllowed None e) (\<lambda>_ e. (Ok (), e))
               else (Ok (), e)) (\<lambda>_ e.
        (Ok (True, ctx), e)))) P"
  proof (rule full_deficit[OF g1 i1 flat _ _ d_def])
    show "0 < \<bar>q\<bar>" using q by simp
    fix ctx' e' assume r: "ctx_sim ctx ctx'" and st: "stage {i} e1 e'" and b: "balanced e1 \<longrightarrow> balanced e'"
      and f: "position_basis_q (accounts e' ! i) = 0" "0 \<le> pnl (accounts e' ! i)" "d \<noteq> 0 \<longrightarrow> pnl (accounts e' ! i) = 0"
      and n: "eqm (accounts e' ! i) = eqm (accounts e1 ! i) + d"
        "ins_bal e' = ins_bal e1 - min d (max 0 (ins_bal e1 - insurance_floor (params e1)))"
    have "stage {i} e e'" using stage_trans[OF lstage_D(2)[OF l1] st] .
    moreover have "balanced e \<longrightarrow> balanced e'" using b lstage_balanced[OF l1] by simp
    moreover have "0 \<le> d" by (simp add: d_def)
    ultimately have "liquidated i px FullClose e e'"
      unfolding liquidated_def
      by (intro exI[where x = q] exI[where x = d] exI[where x = "ins_bal e1 - ins_bal e"])
        (use q m f n L stage_D(3)[OF lstage_D(2)[OF l1]] in \<open>simp add: liq_closed_def\<close>)
    then show "P (True, ctx') e'" using r by (simp add: P_def)
  qed
  show "okP (sval (effective_pos_q i e1) e1 (\<lambda>eff_post.
      sacct e1 i (\<lambda>a.
      if eff_post = 0 \<and> pnl a < 0 \<and> pnl a = I128_MIN then (Err CorruptState, e1)
      else
        sthen (if \<bar>q\<bar> \<noteq> 0 \<or> (if eff_post = 0 \<and> pnl a < 0 then \<bar>pnl a\<bar> else 0) \<noteq> 0
               then enqueue_adl ctx s \<bar>q\<bar> (if eff_post = 0 \<and> pnl a < 0 then \<bar>pnl a\<bar> else 0) e1
               else (Ok ctx, e1)) (\<lambda>ctx e.
        sthen (if (if eff_post = 0 \<and> pnl a < 0 then \<bar>pnl a\<bar> else 0) \<noteq> 0
               then sthen (set_pnl_with_reserve i 0 NoPositiveIncreaseAllowed None e) (\<lambda>_ e. (Ok (), e))
               else (Ok (), e)) (\<lambda>_ e.
        (Ok (True, ctx), e)))))) ?P"
    unfolding flat_effective[OF i1 flat] sval.simps okP_sacct P_def[symmetric]
    by (simp only: simp_thms d_def[symmetric] okP_if okP_basic main)
qed


definition policy_typed :: "liquidation_policy \<Rightarrow> bool" where
  "policy_typed policy = (case policy of FullClose \<Rightarrow> True | ExactPartial q \<Rightarrow> in_u128 q)"

theorem liquidate_internal_spec:
  assumes g: "good e" and c: "policy_typed policy"
  shows "okP (liquidate_at_oracle_internal i px policy ctx e) (\<lambda>(b, ctx') e'. ctx_sim ctx ctx'
     \<and> (b \<longrightarrow> liquidated i px policy e e') \<and> (\<not> b \<longrightarrow> e' = e))"
    (is "okP _ ?P")
proof -
  define P where "P = ?P"
  have no: "P (False, ctx) e" by (simp add: P_def)
  have go: "okP (case policy of
              ExactPartial q_close_q \<Rightarrow> liq_partial i px q_close_q s q ctx e
            | FullClose \<Rightarrow> liq_full i px s q ctx e) P"
    if q: "effective_pos_q i e = Ok q" "q \<noteq> 0" and m: "is_above_maintenance_margin (accounts e ! i) i px e = Ok False"
    for q s
  proof (cases policy)
    case FullClose
    have "okP (liq_full i px s q ctx e) P"
      by (rule okP_mono[OF liq_full_spec[OF g q m]]) (auto simp: P_def FullClose)
    then show ?thesis by (simp add: FullClose)
  next
    case (ExactPartial x')
    have "0 \<le> x'" using c ExactPartial by (simp add: policy_typed_def in_u128_def)
    have "okP (liq_partial i px x' s q ctx e) P"
      by (rule okP_mono[OF liq_partial_spec[OF g \<open>0 \<le> x'\<close> q okR_D[OF effective_typed q(1)] m]])
        (auto simp: P_def ExactPartial)
    then show ?thesis by (simp add: ExactPartial)
  qed
  have "okP (liquidate_at_oracle_internal i px policy ctx e) P"
    unfolding liquidate_at_oracle_internal_def okP_if okP_sval okR_expect okP_basic
    using no go by (auto intro!: okR_I)
  then show ?thesis by (simp only: P_def)
qed


section \<open>The instructions keep the invariant\<close>

lemma admission_okR:
  "okR (validate_admission_pair lo hi p) (\<lambda>_. 0 \<le> lo \<longrightarrow> 0 \<le> hi \<longrightarrow> mode_ok p (UseAdmissionPair lo hi))"
  using admission_pair_ok[of lo hi p "()"] by (auto intro!: okR_I)

lemma touching_sim: "touching S lo hi e0 c e \<Longrightarrow> ctx_sim c c' \<Longrightarrow> touching S lo hi e0 c' e"
  by (simp add: touching_def ctx_sim_def)

lemma touching_finish_then:
  assumes "touching S lo hi e0 c e" "inv e0" "\<And>j. j \<in> S \<Longrightarrow> is_used e0 j"
    and "\<And>e'. inv e' \<Longrightarrow> stage S e0 e' \<Longrightarrow> okP (k e') P"
  shows "okP (sthen (finalize_touched_accounts_post_live c e) (\<lambda>_ e. sthen (live_epilogue c e) (\<lambda>_ e. k e))) P"
proof -
  have "okP (sthen (sthen (finalize_touched_accounts_post_live c e) (\<lambda>_ e. live_epilogue c e)) (\<lambda>_ e. k e)) P"
    by (rule okP_then[OF touching_finish[OF assms(1-3)]]) (use assms(4) in auto)
  then show ?thesis by (simp only: okP_sthen)
qed

lemma touching_liquidate:
  assumes T: "touching S lo hi e0 c e" and i: "i \<in> S" and p: "policy_typed policy"
  shows "okP (liquidate_at_oracle_internal i px policy c e) (\<lambda>(b, c') e'. touching S lo hi e0 c' e'
     \<and> (b \<longrightarrow> liquidated i px policy e e') \<and> (\<not> b \<longrightarrow> e' = e))"
proof (rule okP_mono[OF liquidate_internal_spec[OF touching_D(5)[OF T] p]])
  fix r :: "bool \<times> instruction_context" and e'
  obtain b c' where r: "r = (b, c')" by (cases r)
  assume "(case r of (b, ctx') \<Rightarrow> \<lambda>e'. ctx_sim c ctx' \<and> (b \<longrightarrow> liquidated i px policy e e') \<and> (\<not> b \<longrightarrow> e' = e)) e'"
  then have A: "ctx_sim c c'" "b \<longrightarrow> liquidated i px policy e e'" "\<not> b \<longrightarrow> e' = e" unfolding r prod.case by blast+
  have "stage S e e'"
    using A stage_refl[OF touching_D(5)[OF T]] stage_mono[of "{i}" e e' S] i
    by (cases b) (auto simp: liquidated_def)
  then show "(case r of (b, c') \<Rightarrow> \<lambda>e'. touching S lo hi e0 c' e'
     \<and> (b \<longrightarrow> liquidated i px policy e e') \<and> (\<not> b \<longrightarrow> e' = e)) e'"
    unfolding r prod.case using A touching_sim[OF touching_stage[OF T]] by blast
qed

theorem liquidate_spec:
  assumes v: "inv e" and t: "in_u64 now" "0 \<le> px" "0 \<le> lo" "0 \<le> hi" and p: "policy_typed policy"
  shows "okP (liquidate_at_oracle_not_atomic i now px policy rate lo hi e) (\<lambda>_ e'. inv e' \<and> stage {i} e e')"
    (is "okP _ ?P")
proof -
  define P where "P = ?P"
  note I = inv_D[OF v]
  have "okP (sthen (accrue_to now px rate e) (\<lambda>_ e.
       sthen (touch_account_live_local i (new_with_admission lo hi) e) (\<lambda>ctx e.
       sthen (liquidate_at_oracle_internal i px policy ctx e) (\<lambda>(result, ctx) e.
       sthen (finalize_touched_accounts_post_live ctx e) (\<lambda>_ e.
       sthen (live_epilogue ctx e) (\<lambda>_ e. (Ok result, e))))))) P"
    if md: "mode_ok (params e) (UseAdmissionPair lo hi)" and u: "is_used e i"
  proof (rule okP_then[OF accrue_to_stage[OF I(2) t(1,2)]], elim conjE)
    fix x e1 assume s1: "stage {} e e1"
    have T1: "touching {i} lo hi e (new_with_admission lo hi) e1"
      by (rule touching_stage[OF touching_new[OF I(2)] stage_mono[OF s1]]) simp
    show "okP (sthen (touch_account_live_local i (new_with_admission lo hi) e1) (\<lambda>ctx e.
       sthen (liquidate_at_oracle_internal i px policy ctx e) (\<lambda>(result, ctx) e.
       sthen (finalize_touched_accounts_post_live ctx e) (\<lambda>_ e.
       sthen (live_epilogue ctx e) (\<lambda>_ e. (Ok result, e)))))) P"
    proof (rule okP_then[OF touch_into[OF T1 md _ I(5)]], simp, elim conjE)
      fix c2 e2 assume T2: "touching {i} lo hi e c2 e2"
      show "okP (sthen (liquidate_at_oracle_internal i px policy c2 e2) (\<lambda>(result, ctx) e.
       sthen (finalize_touched_accounts_post_live ctx e) (\<lambda>_ e.
       sthen (live_epilogue ctx e) (\<lambda>_ e. (Ok result, e))))) P"
      proof (rule okP_then[OF touching_liquidate[OF T2 singletonI p]])
        fix r :: "bool \<times> instruction_context" and e3
        obtain b c3 where r: "r = (b, c3)" by (cases r)
        assume "(case r of (b, c') \<Rightarrow> \<lambda>e'. touching {i} lo hi e c' e'
          \<and> (b \<longrightarrow> liquidated i px policy e2 e') \<and> (\<not> b \<longrightarrow> e' = e2)) e3"
        then have T3: "touching {i} lo hi e c3 e3" unfolding r prod.case by blast
        show "okP ((case r of (result, ctx) \<Rightarrow> \<lambda>e.
           sthen (finalize_touched_accounts_post_live ctx e) (\<lambda>_ e.
           sthen (live_epilogue ctx e) (\<lambda>_ e. (Ok result, e)))) e3) P"
          unfolding r prod.case
          by (rule touching_finish_then[OF T3 v]) (use u in \<open>auto simp: P_def\<close>)
      qed
    qed
  qed
  note main = this
  have "okP (liquidate_at_oracle_not_atomic i now px policy rate lo hi e) P"
    unfolding liquidate_at_oracle_not_atomic_def Let_def okP_sval okP_if okP_basic
    by (rule okR_mono[OF admission_okR]) (use main t(3,4) in simp)
  then show ?thesis by (simp only: P_def)
qed

section \<open>The crank\<close>

lemma keeper_hint_policy:
  "okR (validate_keeper_hint i eff hint px e) (\<lambda>p. p = None \<or> p = hint
     \<and> (\<forall>c. p = Some (ExactPartial c) \<longrightarrow> c \<noteq> 0 \<and> c < \<bar>eff\<bar>))"
    (is "okR _ ?P")
proof -
  define P where "P = ?P"
  have n: "P None" by (simp add: P_def)
  have s: "P (Some (ExactPartial c))" if "hint = Some (ExactPartial c)" "\<not> (c = 0 \<or> c \<ge> \<bar>eff\<bar>)" for c
    using that by (simp add: P_def)
  have f: "P (Some FullClose)" if "hint = Some FullClose" using that by (simp add: P_def)
  have "okR (validate_keeper_hint i eff hint px e) P"
    unfolding validate_keeper_hint_def Let_def acct_def
    using n s f
    by (auto simp: okR_rthen okR_expect okR_if intro!: okR_I split: option.splits liquidation_policy.splits if_splits)
  then show ?thesis by (simp only: P_def)
qed

lemma crank_one_spec:
  assumes T: "touching S lo hi e0 c e" and md: "mode_ok (params e0) (UseAdmissionPair lo hi)"
    and i: "i \<in> S" and n: "MAX_ACCOUNTS e0 \<le> NIL" and h: "\<And>p. hint = Some p \<Longrightarrow> policy_typed p"
  shows "okP (crank_one i hint px c e) (\<lambda>(k, c') e'. touching S lo hi e0 c' e' \<and> k \<le> 1)"
    (is "okP _ ?P")
proof -
  define P where "P = ?P"
  have "okP (crank_one i hint px c e) P"
    unfolding crank_one_def
  proof (rule okP_then[OF touch_into[OF T md i n]], elim conjE)
    fix c1 e1 assume T1: "touching S lo hi e0 c1 e1"
    have no: "P (0, c1) e1" using T1 by (simp add: P_def)
    have liq: "okP (sthen (liquidate_at_oracle_internal i px policy c1 e1) (\<lambda>(liq, ctx) e.
               (Ok (if liq then 1 else 0, ctx), e))) P" if "policy_typed policy" for policy
    proof (rule okP_then[OF touching_liquidate[OF T1 i that]])
      fix r :: "bool \<times> instruction_context" and e2
      obtain b c2 where r: "r = (b, c2)" by (cases r)
      assume "(case r of (b, c') \<Rightarrow> \<lambda>e'. touching S lo hi e0 c' e'
          \<and> (b \<longrightarrow> liquidated i px policy e1 e') \<and> (\<not> b \<longrightarrow> e' = e1)) e2"
      then have "touching S lo hi e0 c2 e2" unfolding r prod.case by blast
      then show "okP ((case r of (liq, ctx) \<Rightarrow> \<lambda>e. (Ok (if liq then 1 else 0, ctx), e)) e2) P"
        unfolding r prod.case okP_basic by (simp add: P_def)
    qed
    have opt: "okP (case p of
             Some policy \<Rightarrow>
               sthen (liquidate_at_oracle_internal i px policy c1 e1) (\<lambda>(liq, ctx) e.
               (Ok (if liq then 1 else 0, ctx), e))
           | None \<Rightarrow> (Ok (0, c1), e1)) P" if "validate_keeper_hint i eff hint px e1 = Ok p" for p eff
    proof (cases p)
      case None
      then show ?thesis using no by simp
    next
      case (Some policy)
      then have "hint = Some policy" using okR_D[OF keeper_hint_policy that] by simp
      then show ?thesis using liq h Some by simp
    qed
    show "okP (if \<not> pending_reset_long c1 \<and> \<not> pending_reset_short c1 then
       sval (effective_pos_q i e1) e1 (\<lambda>eff.
       if eff \<noteq> 0 then
         sval (is_above_maintenance_margin (accounts e1 ! i) i px e1) e1 (\<lambda>healthy.
         if \<not> healthy then
           sval (validate_keeper_hint i eff hint px e1) e1 (\<lambda>opt_policy.
           case opt_policy of
             Some policy \<Rightarrow>
               sthen (liquidate_at_oracle_internal i px policy c1 e1) (\<lambda>(liq, ctx) e.
               (Ok (if liq then 1 else 0, ctx), e))
           | None \<Rightarrow> (Ok (0, c1), e1))
         else (Ok (0, c1), e1))
       else (Ok (0, c1), e1))
     else (Ok (0, c1), e1)) P"
      unfolding okP_if okP_sval okP_basic using no opt by (auto intro!: okR_I)
  qed
  then show ?thesis by (simp only: P_def)
qed


lemma crank_loop_spec:
  assumes "touching S lo hi e0 c e" "mode_ok (params e0) (UseAdmissionPair lo hi)" "MAX_ACCOUNTS e0 \<le> NIL"
    and "\<And>j h. (j, h) \<in> set cs \<Longrightarrow> is_used e0 j \<Longrightarrow> j \<in> S"
    and "\<And>j p. (j, Some p) \<in> set cs \<Longrightarrow> policy_typed p"
  shows "okP (crank_loop cs m att liqs px c e) (\<lambda>(k, c') e'. touching S lo hi e0 c' e' \<and> liqs \<le> k
     \<and> int (k - liqs) \<le> max 0 (m - att))"
  using assms
proof (induction cs arbitrary: att liqs c e)
  case Nil
  then show ?case by simp
next
  case (Cons x cs)
  obtain j h where x: "x = (j, h)" by (cases x)
  let ?P = "\<lambda>(k, c') e'. touching S lo hi e0 c' e' \<and> liqs \<le> k \<and> int (k - liqs) \<le> max 0 (m - att)"
  define P where "P = ?P"
  have stop: "P (liqs, c) e" using Cons.prems(1) by (simp add: P_def)
  have T: "\<And>j. is_used e j = is_used e0 j" using touching_D(8)[OF Cons.prems(1)] .
  have skip: "okP (crank_loop cs m att liqs px c e) P"
    unfolding P_def by (rule Cons.IH) (use Cons.prems in auto)
  have go: "okP (sthen (crank_one j h px c e) (\<lambda>(n, ctx) e. crank_loop cs m (att + 1) (liqs + n) px ctx e)) P"
    if b: "\<not> att \<ge> m" and u: "is_used e j"
  proof (rule okP_then[OF crank_one_spec[OF Cons.prems(1,2) _ Cons.prems(3)]])
    show "j \<in> S" using Cons.prems(4) u T x by auto
    show "h = Some p \<Longrightarrow> policy_typed p" for p using Cons.prems(5) x by auto
    fix r :: "nat \<times> instruction_context" and e1
    obtain n c1 where r: "r = (n, c1)" by (cases r)
    assume "(case r of (k, c') \<Rightarrow> \<lambda>e'. touching S lo hi e0 c' e' \<and> k \<le> 1) e1"
    then have T1: "touching S lo hi e0 c1 e1" and n: "n \<le> 1" unfolding r prod.case by blast+
    show "okP ((case r of (n, ctx) \<Rightarrow> \<lambda>e. crank_loop cs m (att + 1) (liqs + n) px ctx e) e1) P"
      unfolding r prod.case
    proof (rule okP_mono[OF Cons.IH[OF T1 Cons.prems(2,3)]])
      show "\<And>j h. (j, h) \<in> set cs \<Longrightarrow> is_used e0 j \<Longrightarrow> j \<in> S" using Cons.prems(4) by auto
      show "\<And>j p. (j, Some p) \<in> set cs \<Longrightarrow> policy_typed p" using Cons.prems(5) by auto
      fix y :: "nat \<times> instruction_context" and e'
      assume "(case y of (k, c') \<Rightarrow> \<lambda>e'. touching S lo hi e0 c' e' \<and> liqs + n \<le> k
         \<and> int (k - (liqs + n)) \<le> max 0 (m - (att + 1))) e'"
      then show "P y e'" unfolding P_def by (cases y) (use n b in auto)
    qed
  qed
  have "okP (crank_loop (x # cs) m att liqs px c e) P"
    unfolding x crank_loop.simps okP_if okP_basic using stop skip go by blast
  then show ?case by (simp only: P_def)
qed

lemma crank_clock_stage:
  assumes "good e"
  shows "stage S e (e\<lparr> last_crank_slot := x \<rparr>)"
proof (rule outer_stage[OF _ assms])
  show "outer e (e\<lparr> last_crank_slot := x \<rparr>)" by (simp add: outer_def slab_fields_def)
  show "market_ok (e\<lparr> last_crank_slot := x \<rparr>)" using good_D(3)[OF assms] by (simp add: market_ok_def)
  show "0 \<le> ins_bal (e\<lparr> last_crank_slot := x \<rparr>)" "ins_bal (e\<lparr> last_crank_slot := x \<rparr>) \<le> ins_bal e"
    using good_D(4)[OF assms] by (simp_all add: in_u128_def)
qed

text \<open>
  The crank keeps the invariant, changes no account that is not on the candidate list, and
  liquidates at most as many accounts as its budget.
\<close>

theorem crank_spec:
  assumes v: "inv e" and t: "in_u64 now" "0 \<le> px" "0 \<le> lo" "0 \<le> hi"
    and p: "\<And>j p. (j, Some p) \<in> set cs \<Longrightarrow> policy_typed p"
  shows "okP (keeper_crank_not_atomic now px cs m rate lo hi e) (\<lambda>out e'. inv e'
     \<and> stage {j. j \<in> fst ` set cs \<and> is_used e j} e e' \<and> int (num_liquidations out) \<le> max 0 m)"
    (is "okP _ ?P")
proof -
  define P where "P = ?P"
  define S where "S = {j. j \<in> fst ` set cs \<and> is_used e j}"
  note I = inv_D[OF v]
  have main: "okP (sthen (accrue_to now px rate e) (\<lambda>_ e.
       sthen (crank_loop cs m 0 0 px (new_with_admission lo hi)
                (if now > last_crank_slot e then e\<lparr> last_crank_slot := now \<rparr> else e)) (\<lambda>(liqs, ctx) e'.
       sthen (finalize_touched_accounts_post_live ctx e') (\<lambda>_ e'.
       sthen (live_epilogue ctx e') (\<lambda>_ e'.
       (Ok \<lparr> advanced = now > last_crank_slot e, num_liquidations = liqs, num_gc_closed = 0 \<rparr>, e')))))) P"
    if md: "mode_ok (params e) (UseAdmissionPair lo hi)"
  proof (rule okP_then[OF accrue_to_stage[OF I(2) t(1,2)]], elim conjE)
    fix x e1 assume s1: "stage {} e e1"
    let ?e = "if now > last_crank_slot e1 then e1\<lparr> last_crank_slot := now \<rparr> else e1"
    have "stage S e1 ?e" using crank_clock_stage[OF stage_D(1)[OF s1]] stage_refl[OF stage_D(1)[OF s1]] by simp
    then have T1: "touching S lo hi e (new_with_admission lo hi) ?e"
      by (rule touching_stage[OF touching_stage[OF touching_new[OF I(2)] stage_mono[OF s1]], rotated]) simp
    show "okP (sthen (crank_loop cs m 0 0 px (new_with_admission lo hi) ?e) (\<lambda>(liqs, ctx) e'.
       sthen (finalize_touched_accounts_post_live ctx e') (\<lambda>_ e'.
       sthen (live_epilogue ctx e') (\<lambda>_ e'.
       (Ok \<lparr> advanced = now > last_crank_slot e1, num_liquidations = liqs, num_gc_closed = 0 \<rparr>, e'))))) P"
    proof (rule okP_then[OF crank_loop_spec[OF T1 md I(5)]])
      show "\<And>j h. (j, h) \<in> set cs \<Longrightarrow> is_used e j \<Longrightarrow> j \<in> S" by (force simp: S_def)
      show "\<And>j p. (j, Some p) \<in> set cs \<Longrightarrow> policy_typed p" by (rule p)
      fix r :: "nat \<times> instruction_context" and e3
      obtain k c3 where r: "r = (k, c3)" by (cases r)
      assume "(case r of (k, c') \<Rightarrow> \<lambda>e'. touching S lo hi e c' e' \<and> 0 \<le> k \<and> int (k - 0) \<le> max 0 (m - 0)) e3"
      then have T3: "touching S lo hi e c3 e3" and k: "int k \<le> max 0 m" unfolding r prod.case by auto
      show "okP ((case r of (liqs, ctx) \<Rightarrow> \<lambda>e'.
         sthen (finalize_touched_accounts_post_live ctx e') (\<lambda>_ e'.
         sthen (live_epilogue ctx e') (\<lambda>_ e'.
         (Ok \<lparr> advanced = now > last_crank_slot e1, num_liquidations = liqs, num_gc_closed = 0 \<rparr>, e')))) e3) P"
        unfolding r prod.case
        by (rule touching_finish_then[OF T3 v]) (use k in \<open>auto simp: P_def S_def\<close>)
    qed
  qed
  have "okP (keeper_crank_not_atomic now px cs m rate lo hi e) P"
    unfolding keeper_crank_not_atomic_def Let_def okP_sval okP_if okP_basic
    by (rule okR_mono[OF admission_okR]) (use main t(3,4) in simp)
  then show ?thesis by (simp only: P_def)
qed

end
