(* ===== verification/Close.thy ===== *)
theory Close
  imports Liquidate
begin

text \<open>
  \<open>convert_released_pnl_not_atomic\<close> and \<open>close_account_not_atomic\<close> of \<open>src/src/percolator.rs\<close>, and
  the freeing of a slot with the end-of-market sweep that every closing instruction ends with.
\<close>

section \<open>Operations\<close>

text \<open>The flat-account safety cap.\<close>

definition convert_cap :: "nat \<Rightarrow> int \<Rightarrow> int \<Rightarrow> int \<Rightarrow> engine \<Rightarrow> unit outcome" where
  "convert_cap idx x_req h_num h_den e =
     acct e idx (\<lambda>a.
     if position_basis_q a = 0 then
       rthen (max_safe_flat_conversion_released idx x_req h_num h_den e) (\<lambda>max_safe.
       if x_req > max_safe then Err Undercollateralized else Ok ())
     else Ok ())"

definition convert_health :: "nat \<Rightarrow> int \<Rightarrow> engine \<Rightarrow> unit outcome" where
  "convert_health idx oracle_price e =
     rthen (effective_pos_q idx e) (\<lambda>eff.
     if eff \<noteq> 0 then
       rthen (is_above_maintenance_margin (accounts e ! idx) idx oracle_price e) (\<lambda>ok.
       if \<not> ok then Err Undercollateralized else Ok ())
     else
       acct e idx (\<lambda>a.
       rthen (account_equity_maint_raw a) (\<lambda>eq.
       if eq < 0 then Err Undercollateralized else Ok ())))"

definition convert_requested :: "nat \<Rightarrow> int \<Rightarrow> int \<Rightarrow> engine \<Rightarrow> unit step" where
  "convert_requested idx x_req oracle_price e =
     sval (released_pos idx e) e (\<lambda>released.
     if x_req = 0 \<or> x_req > released then (Err Overflow, e)
     else
       let (h_num, h_den) = haircut_ratio e in
       if h_den = 0 then (Err CorruptState, e)
       else
         sval (convert_cap idx x_req h_num h_den e) e (\<lambda>_.
         sval (wide_mul_div_floor_u128 x_req h_num h_den) e (\<lambda>y.
         sthen (consume_released_pnl idx x_req e) (\<lambda>_ e.
         sval (ok_or Overflow (fit_u128 (capital (accounts e ! idx) + y))) e (\<lambda>new_cap.
         sthen (set_capital idx new_cap e) (\<lambda>_ e.
         sthen (fee_debt_sweep idx e) (\<lambda>_ e.
         sval (convert_health idx oracle_price e) e (\<lambda>_. (Ok (), e)))))))))"

definition convert_released_pnl_not_atomic ::
  "nat \<Rightarrow> int \<Rightarrow> int \<Rightarrow> int \<Rightarrow> int \<Rightarrow> int \<Rightarrow> int \<Rightarrow> engine \<Rightarrow> unit step"
where
  "convert_released_pnl_not_atomic idx x_req oracle_price now_slot funding_rate_e9 admit_h_min admit_h_max e =
     sval (live_prologue admit_h_min admit_h_max oracle_price idx e) e (\<lambda>_.
     let ctx = new_with_admission admit_h_min admit_h_max in
     sthen (accrue_to now_slot oracle_price funding_rate_e9 e) (\<lambda>_ e.
     sthen (touch_account_live_local idx ctx e) (\<lambda>ctx e.
     sthen (convert_requested idx x_req oracle_price e) (\<lambda>_ e.
     sthen (finalize_touched_accounts_post_live ctx e) (\<lambda>_ e.
     live_epilogue ctx e)))))"

definition close_checks :: "nat \<Rightarrow> engine \<Rightarrow> unit outcome" where
  "close_checks idx e =
     rthen (effective_pos_q idx e) (\<lambda>eff.
     if eff \<noteq> 0 then Err Undercollateralized
     else
       acct e idx (\<lambda>a.
       if pnl a > 0 then Err PnlNotWarmedUp
       else if pnl a < 0 then Err Undercollateralized
       else if fee_credits a < 0 then Err Undercollateralized
       else if reserved_pnl a \<noteq> 0 \<or> sched_present a \<noteq> 0 \<or> pending_present a \<noteq> 0 then Err Undercollateralized
       else Ok ()))"

text \<open>Freeing the slot, sweeping an emptied market and the public postconditions.\<close>

definition free_and_sweep :: "nat \<Rightarrow> engine \<Rightarrow> unit step" where
  "free_and_sweep idx e =
     sthen (free_slot idx e) (\<lambda>_ e.
     sthen (sweep_empty_market_surplus_to_insurance e) (\<lambda>_ e.
     sval (assert_public_postconditions e) e (\<lambda>_. (Ok (), e))))"

definition close_account_not_atomic ::
  "nat \<Rightarrow> int \<Rightarrow> int \<Rightarrow> int \<Rightarrow> int \<Rightarrow> int \<Rightarrow> engine \<Rightarrow> int step"
where
  "close_account_not_atomic idx now_slot oracle_price funding_rate_e9 admit_h_min admit_h_max e =
     sval (validate_admission_pair admit_h_min admit_h_max (params e)) e (\<lambda>_.
     if market_mode e \<noteq> Live then (Err Unauthorized, e)
     else if idx \<ge> MAX_ACCOUNTS e \<or> \<not> is_used e idx then (Err AccountNotFound, e)
     else
       let ctx = new_with_admission admit_h_min admit_h_max in
       sthen (accrue_to now_slot oracle_price funding_rate_e9 e) (\<lambda>_ e.
       sthen (touch_account_live_local idx ctx e) (\<lambda>ctx e.
       sthen (finalize_touched_accounts_post_live ctx e) (\<lambda>_ e.
       sval (close_checks idx e) e (\<lambda>_.
       sacct e idx (\<lambda>a.
       if capital a > vault e then (Err InsufficientBalance, e)
       else
         let e = e\<lparr> vault := vault e - capital a \<rparr> in
         sthen (set_capital idx 0 e) (\<lambda>_ e.
         sthen (schedule_end_of_instruction_resets ctx e) (\<lambda>ctx e.
         sthen (finalize_end_of_instruction_resets ctx e) (\<lambda>_ e.
         sthen (free_and_sweep idx e) (\<lambda>_ e. (Ok (capital a), e)))))))))))"

section \<open>Conversion\<close>

text \<open>
  Converting \<open>x\<close> of released PnL into \<open>y\<close> of capital: the aggregates follow, and the equity falls by
  the haircut \<open>x - y\<close>.
\<close>

definition converted :: "nat \<Rightarrow> int \<Rightarrow> int \<Rightarrow> engine \<Rightarrow> engine \<Rightarrow> bool" where
  "converted i x y e e' =
     (good e' \<and> mkt_fields e' = mkt_fields e \<and> slab_fields e' = slab_fields e \<and> params e' = params e
      \<and> market_mode e' = market_mode e \<and> vault e' = vault e \<and> ins_bal e' = ins_bal e
      \<and> c_tot e' = c_tot e + y \<and> pnl_matured_pos_tot e' = pnl_matured_pos_tot e - x
      \<and> (\<forall>j. j \<noteq> i \<longrightarrow> accounts e' ! j = accounts e ! j)
      \<and> eqm (accounts e' ! i) = eqm (accounts e ! i) - (x - y)
      \<and> position_basis_q (accounts e' ! i) = position_basis_q (accounts e ! i))"

lemma converted_stage: "converted i x y e e' \<Longrightarrow> (solvent e \<Longrightarrow> solvent e') \<Longrightarrow> lstage i e e'"
  by (simp add: converted_def lstage_def stage_def)

lemma consume_and_credit:
  assumes g: "good e" and x: "0 \<le> x" and y: "0 \<le> y"
  shows "okP (sthen (consume_released_pnl i x e) (\<lambda>_ e.
            sval (ok_or Overflow (fit_u128 (capital (accounts e ! i) + y))) e (\<lambda>new_cap.
            set_capital i new_cap e)))
     (\<lambda>_ e'. converted i x y e e' \<and> x \<le> matp (accounts e ! i) \<and> i < MAX_ACCOUNTS e)"
    (is "okP _ ?P")
proof (rule okP_then[OF consume_released_spec[OF good_D(1)[OF g] x]], elim conjE)
  fix u e1
  assume S: "pnl_set i (pnl (accounts e ! i) - x) e e1" and R: "reserved_pnl (accounts e1 ! i) = reserved_pnl (accounts e ! i)"
    and b: "0 < x" "x \<le> matp (accounts e ! i)"
  have i: "i < MAX_ACCOUNTS e" using S by (simp add: pnl_set_def)
  note T = acct_typed[OF g i]
  note F = pnl_set_frame[OF S]
  note K = core_fields[OF F(3)]
  have "0 \<le> reserved_pnl (accounts e ! i)" using T(4) bucket_reads(5) by (auto simp: reserve_ok_def)
  then have p: "0 < pnl (accounts e ! i)" "x \<le> pnl (accounts e ! i)"
    using b by (auto simp: matp_def max_def split: if_splits)
  have ty: "in_i128 (pnl (accounts e ! i) - x)" "pnl (accounts e ! i) - x \<noteq> I128_MIN"
    using p T(2) b(1) by (auto simp: in_i128_def bounds)
  have l1: "lstage i e e1" using pnl_set_good(3)[OF S g ty] .
  have g1: "good e1" using lstage_D(1)[OF l1] .
  have e1: "e1 = pnl_effect i (accounts e1 ! i) e" using S by (simp add: pnl_set_def)
  have m: "pnl_matured_pos_tot e1 = pnl_matured_pos_tot e - x"
    by (subst e1, simp only: pnl_effect_def Let_def, simp)
      (use F(4) R p in \<open>simp add: posp_def matp_def\<close>)
  show "okP (sval (ok_or Overflow (fit_u128 (capital (accounts e1 ! i) + y))) e1 (\<lambda>new_cap. set_capital i new_cap e1)) ?P"
    unfolding okP_sval okR_ok_or fit_Some
  proof (intro allI impI, elim conjE, hypsubst, rule okP_mono[OF set_capital_spec], elim conjE)
    fix v e2
    let ?c = "capital (accounts e1 ! i) + y"
    assume c: "in_u128 ?c" and e2: "e2 = cap_effect i ?c e1" and i1: "i < MAX_ACCOUNTS e1"
    note C = cap_effect_good[OF g1 i1 c, folded e2]
    have sum: "c_tot e2 = c_tot e + y" "ins_bal e2 = ins_bal e" "vault e2 = vault e"
      "pnl_matured_pos_tot e2 = pnl_matured_pos_tot e - x"
      using F(2) frame_D(1,2)[OF F(1)] m by (simp_all add: e2 cap_effect_def)
    have fr: "frame {i} e e2"
      using frame_trans[OF F(1) cap_effect_frame[of i e1 ?c]] by (simp add: e2)
    show "?P v e2"
      using C sum fr F(4) K b i by (simp add: converted_def frame_def eqm_def)
  qed
qed

text \<open>
  The haircut leaves room: one account's whole matured PnL, haircutted, fits in the residual, so
  that converting any part of it cannot make capital and insurance exceed the vault.
\<close>

lemma haircut_room:
  assumes g: "good e" and L: "market_mode e = Live" and i: "i < MAX_ACCOUNTS e"
    and h: "haircut_ratio e = (n, d)" and x: "0 < x" "x \<le> matp (accounts e ! i)"
  shows "0 \<le> x * n div d" "x * n div d \<le> x" "solvent e \<Longrightarrow> c_tot e + x * n div d + ins_bal e \<le> vault e"
proof -
  have v: "0 \<le> ins_bal e" using good_D(4)[OF g] by (simp add: in_u128_def)
  have H: "0 \<le> n" "n \<le> d" "0 < d" using haircut_bounds[OF good_D(7,8)[OF g] v] by (simp_all add: h)
  show "0 \<le> x * n div d" using H x by (simp add: pos_imp_zdiv_nonneg_iff)
  have "x * n div d \<le> x * d div d" using H x by (intro zdiv_mono1 mult_left_mono) auto
  then show "x * n div d \<le> x" using H by simp
  have nn: "\<And>a. a \<in> set (accounts e) \<Longrightarrow> 0 \<le> matp a"
    using good_D(7)[OF g] acct_matp(1) by (auto simp: accts_ok_def)
  have "matp (accounts e ! i) \<le> tot matp (accounts e)" by (rule tot_member_le[OF i nn])
  then have M: "x \<le> pnl_matured_pos_tot e" using x good_D(8)[OF g] L by (simp add: agg_def)
  have "pnl_matured_pos_tot e \<noteq> 0" using M x by simp
  then have d: "d = pnl_matured_pos_tot e" and n: "n \<le> residual e"
    using h by (auto simp: haircut_ratio_def residual_def Let_def split: option.splits)
  have "x * n div d \<le> d * n div d" using H x M d by (intro zdiv_mono1 mult_right_mono) auto
  then have "x * n div d \<le> residual e" using n H by simp
  then show "c_tot e + x * n div d + ins_bal e \<le> vault e" if "solvent e"
    using that by (simp add: residual_def solvent_def)
qed

theorem convert_requested_spec:
  assumes g: "good e" and L: "market_mode e = Live" and x: "0 \<le> x"
  shows "okP (convert_requested i x px e) (\<lambda>_ e'. i < MAX_ACCOUNTS e \<and> lstage i e e' \<and> 0 < x
     \<and> x \<le> matp (accounts e ! i)
     \<and> eqm (accounts e' ! i) = eqm (accounts e ! i)
         - (x - x * fst (haircut_ratio e) div snd (haircut_ratio e))
     \<and> position_basis_q (accounts e' ! i) = position_basis_q (accounts e ! i))"
    (is "okP _ ?P")
proof -
  define P where "P = ?P"
  obtain n d where h: "haircut_ratio e = (n, d)" by fastforce
  have go: "okP (sthen (sthen (consume_released_pnl i x e) (\<lambda>_ e.
            sval (ok_or Overflow (fit_u128 (capital (accounts e ! i) + y))) e (\<lambda>new_cap.
            set_capital i new_cap e))) (\<lambda>_ e.
         sthen (fee_debt_sweep i e) (\<lambda>_ e.
         sval (convert_health i px e) e (\<lambda>_. (Ok (), e))))) P"
    if x0: "x \<noteq> 0" and y: "y = x * n div d" "0 \<le> y" for y
  proof (rule okP_then[OF consume_and_credit[OF g x y(2)]], elim conjE)
    fix u e1 assume C: "converted i x y e e1" and m: "x \<le> matp (accounts e ! i)" and i: "i < MAX_ACCOUNTS e"
    have "0 < x" using x x0 by simp
    note H = haircut_room[OF g L i h this m]
    have l1: "lstage i e e1"
      by (rule converted_stage[OF C]) (use C H(3) y(1) in \<open>simp add: converted_def solvent_def\<close>)
    show "okP (sthen (fee_debt_sweep i e1) (\<lambda>_ e. sval (convert_health i px e) e (\<lambda>_. (Ok (), e)))) P"
    proof (rule okP_then[OF sweep_spec[OF lstage_D(1)[OF l1]]], elim conjE)
      fix v e2 assume l2: "lstage i e1 e2" and k: "kept (accounts e2 ! i) = kept (accounts e1 ! i)"
      have "P () e2"
        using lstage_trans[OF l1 l2] kept_D(1,2)[OF k] C i m x x0 y(1) by (simp add: P_def h converted_def)
      then show "okP (sval (convert_health i px e2) e2 (\<lambda>_. (Ok (), e2))) P"
        unfolding okP_sval okP_basic by (auto intro!: okR_I)
    qed
  qed
  have yv: "y = x * n div d" "0 \<le> y" if "wide_mul_div_floor_u128 x n d = Ok y" for y
    using that by (auto simp: wide_mul_div_floor_u128_def mul_div_floor_u256_def
        mul_div_floor_u256_with_rem_def Ok_iffs in_u128_def Let_def)
  have "okP (convert_requested i x px e) P"
    unfolding convert_requested_def h Let_def prod.case okP_sval okP_if okP_basic
    using go yv by (auto intro!: okR_I simp: okP_sthen okP_sval)
  then show ?thesis by (simp only: P_def)
qed


theorem convert_spec_public:
  assumes v: "inv e" and t: "in_u64 now" "0 \<le> px" "0 \<le> lo" "0 \<le> hi" "0 \<le> x"
  shows "okP (convert_released_pnl_not_atomic i x px now rate lo hi e) (\<lambda>_ e'. inv e' \<and> stage {i} e e')"
    (is "okP _ ?P")
  unfolding convert_released_pnl_not_atomic_def okP_sval Let_def
proof (rule okR_mono[OF live_prologue_okR], elim conjE)
  fix u :: unit
  assume us: "is_used e i" and L: "market_mode e = Live"
    and md0: "0 \<le> lo \<longrightarrow> 0 \<le> hi \<longrightarrow> mode_ok (params e) (UseAdmissionPair lo hi)"
  note I = inv_D[OF v]
  have md: "mode_ok (params e) (UseAdmissionPair lo hi)" using md0 t by simp
  show "okP (sthen (accrue_to now px rate e) (\<lambda>_ e.
     sthen (touch_account_live_local i (new_with_admission lo hi) e) (\<lambda>ctx e.
     sthen (convert_requested i x px e) (\<lambda>_ e.
     sthen (finalize_touched_accounts_post_live ctx e) (\<lambda>_ e. live_epilogue ctx e))))) ?P"
  proof (rule okP_then[OF accrue_to_stage[OF I(2) t(1,2)]], elim conjE)
    fix w e1 assume s1: "stage {} e e1"
    have T1: "touching {i} lo hi e (new_with_admission lo hi) e1"
      by (rule touching_stage[OF touching_new[OF I(2)] stage_mono[OF s1]]) simp
    show "okP (sthen (touch_account_live_local i (new_with_admission lo hi) e1) (\<lambda>ctx e.
       sthen (convert_requested i x px e) (\<lambda>_ e.
       sthen (finalize_touched_accounts_post_live ctx e) (\<lambda>_ e. live_epilogue ctx e)))) ?P"
    proof (rule okP_then[OF touch_into[OF T1 md _ I(5)]], simp, elim conjE)
      fix c2 e2 assume T2: "touching {i} lo hi e c2 e2"
      have L2: "market_mode e2 = Live" using stage_D(4)[OF touching_D(1)[OF T2]] L by simp
      show "okP (sthen (convert_requested i x px e2) (\<lambda>_ e.
         sthen (finalize_touched_accounts_post_live c2 e) (\<lambda>_ e. live_epilogue c2 e))) ?P"
      proof (rule okP_then[OF convert_requested_spec[OF touching_D(5)[OF T2] L2 t(5)]], elim conjE)
        fix z e3 assume "lstage i e2 e3"
        then have T3: "touching {i} lo hi e c2 e3" using touching_stage[OF T2 lstage_D(2)] by blast
        show "okP (sthen (finalize_touched_accounts_post_live c2 e3) (\<lambda>_ e. live_epilogue c2 e)) ?P"
          by (rule touching_finish[OF T3 v]) (use us in simp)
      qed
    qed
  qed
qed

section \<open>Freeing a slot\<close>

lemma freed_fields:
  "vault (freed i e) = vault e" "ins_bal (freed i e) = ins_bal e" "c_tot (freed i e) = c_tot e"
  "market_mode (freed i e) = market_mode e" "balanced (freed i e) = balanced e"
  "market_ok (freed i e) = market_ok e" "solvent (freed i e) = solvent e"
  "pnl_pos_tot (freed i e) = pnl_pos_tot e" "pnl_matured_pos_tot (freed i e) = pnl_matured_pos_tot e"
  "neg_pnl_account_count (freed i e) = neg_pnl_account_count e"
  "stored_pos_count_long (freed i e) = stored_pos_count_long e"
  "stored_pos_count_short (freed i e) = stored_pos_count_short e"
  by (simp_all add: freed_def clear_used_def Let_def balanced_def market_ok_def solvent_def)

lemma freed_good:
  assumes g: "good e" and i: "i < MAX_ACCOUNTS e" and z: "closable (accounts e ! i)"
  shows "good (freed i e)"
proof -
  let ?a = "reset_account 0 (accounts e ! i)"
  have r: "?a = empty_account\<lparr> last_fee_slot := 0 \<rparr>" by (simp add: reset_account_eq)
  have Z: "capital (accounts e ! i) = 0" "posp (accounts e ! i) = 0" "matp (accounts e ! i) = 0"
    "negp (accounts e ! i) = 0" "longp (accounts e ! i) = 0" "shortp (accounts e ! i) = 0"
    using z by (simp_all add: closable_def posp_def matp_def negp_def longp_def shortp_def)
  have "agg (freed i e)"
    using good_D(8)[OF g] i by (simp add: agg_def r tot_update Z empty_terms freed_fields)
  moreover have "accts_ok (freed i e)"
    by (rule accts_ok_update[OF good_D(7)[OF g], of _ i ?a])
      (use empty_acct_ok in \<open>simp_all add: r\<close>)
  moreover have "fees_ok (freed i e)"
    unfolding fees_ok_def
  proof (intro allI impI)
    fix j assume "j < MAX_ACCOUNTS (freed i e)"
    then show "fee_ok (accounts (freed i e) ! j)"
      using good_D(2)[OF g] i
      by (cases "j = i") (simp_all add: r fees_ok_def fee_ok_def empty_account_def bounds)
  qed
  ultimately show ?thesis
    using good_D(3,4,5,6,9)[OF g] by (simp add: good_def pnl_inv_def freed_fields)
qed

text \<open>The sweep of an emptied market puts what the vault still holds into the insurance fund.\<close>

lemma sweep_market_spec:
  assumes g: "good e"
  shows "okP (sweep_empty_market_surplus_to_insurance e) (\<lambda>_ e'. e' = set_insurance (ins_bal e') e
     \<and> (ins_bal e' = ins_bal e \<or> num_used_accounts e = 0 \<and> ins_bal e' = vault e \<and> c_tot e = 0
       \<and> pnl_pos_tot e = 0))"
proof -
  have id: "set_insurance (ins_bal e) e = e" by simp
  have v: "ins_bal e + (vault e - ins_bal e) = vault e" by simp
  show ?thesis
    unfolding sweep_empty_market_surplus_to_insurance_def Let_def okP_if okP_sval okR_ok_or fit_Some okP_basic v
    using id by (auto simp: set_insurance_def)
qed

text \<open>
  What a closing instruction leaves: the slot is free, the payment left the vault, no other
  account changed.
\<close>

definition closed_out :: "nat \<Rightarrow> engine \<Rightarrow> engine \<Rightarrow> bool" where
  "closed_out i e e' =
     (is_used e i \<and> used_set e' = used_set e - {i} \<and> vault e' = vault e
      \<and> market_mode e' = market_mode e \<and> params e' = params e
      \<and> accounts e' = (accounts e)[i := empty_account])"

lemma set_insurance_fields:
  "accounts (set_insurance x e) = accounts e" "vault (set_insurance x e) = vault e"
  "is_used (set_insurance x e) j = is_used e j" "used_set (set_insurance x e) = used_set e"
  "params (set_insurance x e) = params e" "market_mode (set_insurance x e) = market_mode e"
  "balanced (set_insurance x e) = balanced e" "slab_ok (set_insurance x e) = slab_ok e"
  by (simp_all add: set_insurance_def is_used_bit used_set_def balanced_def slab_ok_def slab_shape_def
      free_chain_def)

lemma set_insurance_good:
  assumes g: "good e" and x: "in_u128 x"
  shows "good (set_insurance x e)"
proof -
  have "pnl_inv (set_insurance x e)" "fees_ok (set_insurance x e)"
    using good_D(1,2)[OF g] by (simp_all add: fees_ok_def)
  then show ?thesis
    using good_D(5,6,9)[OF g] market_ok_writes(6)[OF good_D(3)[OF g]] x by (simp add: good_def)
qed

theorem free_and_sweep_spec:
  assumes g: "good e" and ok: "slab_ok e"
  shows "okP (free_and_sweep i e) (\<lambda>_ e'. inv e' \<and> closed_out i e e' \<and> closable (accounts e ! i)
     \<and> i < MAX_ACCOUNTS e)"
    (is "okP _ ?P")
  unfolding free_and_sweep_def okP_sthen[of "free_slot i e"]
proof (rule okP_I)
  fix u e1 assume f: "free_slot i e = (Ok u, e1)"
  note F = free_slot_Ok[OF f]
  have g1: "good e1" using freed_good[OF g F(1,3)] F(4) by simp
  have s1: "slab_ok e1" using freed_ok[OF ok F(1,2)] F(4) by simp
  have sh: "slab_shape e" using ok by (simp add: slab_ok_def)
  have us: "used_set e1 = used_set e - {i}"
    using is_used_freed[OF sh F(1)] by (auto simp: used_set_def F(4))
  have ac: "accounts e1 = (accounts e)[i := empty_account]"
    by (simp add: F(4) reset_account_eq) (simp add: empty_account_def)
  show "okP (sthen (sweep_empty_market_surplus_to_insurance e1) (\<lambda>_ e.
     sval (assert_public_postconditions e) e (\<lambda>_. (Ok (), e)))) ?P"
  proof (rule okP_then[OF sweep_market_spec[OF g1]], elim conjE)
    fix w e2 assume e2: "e2 = set_insurance (ins_bal e2) e1"
      and b: "ins_bal e2 = ins_bal e1 \<or> num_used_accounts e1 = 0 \<and> ins_bal e2 = vault e1 \<and> c_tot e1 = 0 \<and> pnl_pos_tot e1 = 0"
    have "in_u128 (ins_bal e2)" using b good_D(4,9)[OF g1] by auto
    then have g2: "good e2" using set_insurance_good[OF g1] e2 by metis
    note S = set_insurance_fields[of "ins_bal e2" e1, folded e2]
    have "closed_out i e e2"
      using F(2) us ac by (simp add: closed_out_def S) (simp add: F(4) freed_fields)
    then show "okP (sval (assert_public_postconditions e2) e2 (\<lambda>_. (Ok (), e2))) ?P"
      unfolding okP_sval okP_basic
      by - (rule okR_mono[OF postconditions_okR], use g2 s1 F(1,3) S(8) in \<open>simp add: inv_def\<close>)
  qed
qed


section \<open>Closing an account\<close>

text \<open>
  A close pays the capital \<open>cap\<close> out of the vault and frees the slot; the other accounts are as
  they were.
\<close>

definition account_closed :: "nat \<Rightarrow> int \<Rightarrow> engine \<Rightarrow> engine \<Rightarrow> bool" where
  "account_closed i cap e e' =
     (is_used e i \<and> used_set e' = used_set e - {i} \<and> 0 \<le> cap \<and> vault e' = vault e - cap
      \<and> params e' = params e \<and> market_mode e' = market_mode e
      \<and> accounts e' ! i = empty_account \<and> (\<forall>j. j \<noteq> i \<longrightarrow> accounts e' ! j = accounts e ! j))"

lemma stage_used_set: "stage S e e' \<Longrightarrow> used_set e' = used_set e"
  using stage_D(5,6)[of S e e'] by (simp add: used_set_def)

lemma stage_slab_fields: "stage S e e' \<Longrightarrow> slab_fields e' = slab_fields e"
  by (simp add: stage_def)

text \<open>Paying the capital out and freeing the slot, from a well-formed state on.\<close>

lemma pay_out_good:
  assumes g: "good e" and i: "i < MAX_ACCOUNTS e" and le: "capital (accounts e ! i) \<le> vault e"
    and e': "e' = cap_effect i 0 (e\<lparr> vault := vault e - capital (accounts e ! i) \<rparr>)"
  shows "good e'" "slab_fields e' = slab_fields e" "params e' = params e" "market_mode e' = market_mode e"
    "vault e' = vault e - capital (accounts e ! i)" "\<And>j. j \<noteq> i \<Longrightarrow> accounts e' ! j = accounts e ! j"
    "balanced e' = balanced e"
proof -
  let ?v = "vault e - capital (accounts e ! i)"
  have z: "in_u128 0" by (simp add: in_u128_def bounds)
  have v: "in_u128 ?v" using acct_typed(6)[OF g i] le good_D(9)[OF g] by (simp add: in_u128_def)
  have "e' = (cap_effect i 0 e)\<lparr> vault := ?v \<rparr>" by (simp add: e' cap_effect_def)
  then show "good e'" using paid_out_good[OF g i z v] by simp
  show "slab_fields e' = slab_fields e" "params e' = params e" "market_mode e' = market_mode e"
    "vault e' = ?v" "\<And>j. j \<noteq> i \<Longrightarrow> accounts e' ! j = accounts e ! j" "balanced e' = balanced e"
    by (simp_all add: e' cap_effect_def slab_fields_def balanced_def)
qed

lemma pay_and_free:
  assumes v: "slab_ok e" and u: "is_used e i" and s: "stage {i} e e3" and i: "i < MAX_ACCOUNTS e3"
    and k: "\<And>e'. inv e' \<Longrightarrow> account_closed i (capital (accounts e3 ! i)) e e' \<Longrightarrow> P (capital (accounts e3 ! i)) e'"
  shows "okP (sacct e3 i (\<lambda>a.
       if capital a > vault e3 then (Err InsufficientBalance, e3)
       else
         let e = e3\<lparr> vault := vault e3 - capital a \<rparr> in
         sthen (set_capital i 0 e) (\<lambda>_ e.
         sthen (schedule_end_of_instruction_resets ctx e) (\<lambda>ctx e.
         sthen (finalize_end_of_instruction_resets ctx e) (\<lambda>_ e.
         sthen (free_and_sweep i e) (\<lambda>_ e. (Ok (capital a), e))))))) P"
proof -
  let ?cap = "capital (accounts e3 ! i)"
  have g3: "good e3" using stage_D(1)[OF s] .
  have c0: "0 \<le> ?cap" using acct_typed(6)[OF g3 i] .
  have main: "okP (sthen (set_capital i 0 (e3\<lparr> vault := vault e3 - ?cap \<rparr>)) (\<lambda>_ e.
         sthen (schedule_end_of_instruction_resets ctx e) (\<lambda>ctx e.
         sthen (finalize_end_of_instruction_resets ctx e) (\<lambda>_ e.
         sthen (free_and_sweep i e) (\<lambda>_ e. (Ok ?cap, e)))))) P" if le: "?cap \<le> vault e3"
  proof (rule okP_then[OF set_capital_spec], elim conjE)
    fix x e4 assume e4: "e4 = cap_effect i 0 (e3\<lparr> vault := vault e3 - ?cap \<rparr>)"
    note G = pay_out_good[OF g3 i le e4]
    show "okP (sthen (schedule_end_of_instruction_resets ctx e4) (\<lambda>ctx e.
         sthen (finalize_end_of_instruction_resets ctx e) (\<lambda>_ e.
         sthen (free_and_sweep i e) (\<lambda>_ e. (Ok ?cap, e))))) P"
    proof (rule okP_then[OF schedule_spec[OF G(1)]], elim conjE)
      fix c5 e5 assume s5: "stage {} e4 e5"
      show "okP (sthen (finalize_end_of_instruction_resets c5 e5) (\<lambda>_ e.
         sthen (free_and_sweep i e) (\<lambda>_ e. (Ok ?cap, e)))) P"
      proof (rule okP_then[OF finalize_resets_spec[OF stage_D(1)[OF s5]]], elim conjE)
        fix y e6 assume s6: "stage {} e5 e6"
        have st: "stage {} e4 e6" by (rule stage_trans[OF s5 s6])
        note S = stage_D[OF st] and S3 = stage_D[OF s]
        have sf: "slab_fields e6 = slab_fields e"
          using stage_slab_fields[OF st] G(2) stage_slab_fields[OF s] by simp
        have pe: "params e6 = params e" using S(3) G(3) S3(3) by simp
        have ac: "accounts e6 ! j = accounts e ! j" if "j \<noteq> i" for j
          using S(8)[of j] G(6)[OF that] S3(8)[of j] that by simp
        have ok: "slab_ok e6" by (rule slab_fields_ok[OF sf _ pe v, of "{i}"]) (use ac u in auto)
        have us: "used_set e6 = used_set e" using sf by (simp add: used_set_def slab_fields_def is_used_bit)
        show "okP (sthen (free_and_sweep i e6) (\<lambda>_ e. (Ok ?cap, e))) P"
        proof (rule okP_then[OF free_and_sweep_spec[OF S(1) ok]], elim conjE)
          fix z e7 assume iv: "inv e7" and c: "closed_out i e6 e7" and i6: "i < MAX_ACCOUNTS e6"
          have "account_closed i ?cap e e7"
            using c u us c0 S(2,4) G(4,5) S3(2,4) pe ac i6
            by (simp add: account_closed_def closed_out_def)
          then show "okP (Ok ?cap, e7) P" using k[OF iv] by simp
        qed
      qed
    qed
  qed
  show ?thesis
    unfolding okP_sacct okP_if okP_basic Let_def using main by (simp add: not_less)
qed

theorem close_account_spec:
  assumes v: "inv e" and t: "in_u64 now" "0 \<le> px" "0 \<le> lo" "0 \<le> hi"
  shows "okP (close_account_not_atomic i now px rate lo hi e) (\<lambda>cap e'. inv e' \<and> account_closed i cap e e')"
    (is "okP _ ?P")
proof -
  define P where "P = ?P"
  note I = inv_D[OF v]
  have main: "okP (sthen (accrue_to now px rate e) (\<lambda>_ e.
       sthen (touch_account_live_local i (new_with_admission lo hi) e) (\<lambda>ctx e.
       sthen (finalize_touched_accounts_post_live ctx e) (\<lambda>_ e.
       sval (close_checks i e) e (\<lambda>_.
       sacct e i (\<lambda>a.
       if capital a > vault e then (Err InsufficientBalance, e)
       else
         let e = e\<lparr> vault := vault e - capital a \<rparr> in
         sthen (set_capital i 0 e) (\<lambda>_ e.
         sthen (schedule_end_of_instruction_resets ctx e) (\<lambda>ctx e.
         sthen (finalize_end_of_instruction_resets ctx e) (\<lambda>_ e.
         sthen (free_and_sweep i e) (\<lambda>_ e. (Ok (capital a), e))))))))))) P"
    if md: "mode_ok (params e) (UseAdmissionPair lo hi)"
  proof (rule touch_one_spec[OF I(2,5) t(1,2) md])
    fix c e3 assume s: "stage {i} e e3" and u: "is_used e i" and i: "i < MAX_ACCOUNTS e"
    have i3: "i < MAX_ACCOUNTS e3" using i stage_D(5)[OF s] by simp
    have k: "P (capital (accounts e3 ! i)) e'" if "inv e'" "account_closed i (capital (accounts e3 ! i)) e e'" for e'
      using that by (simp add: P_def)
    show "okP (sval (close_checks i e3) e3 (\<lambda>_.
       sacct e3 i (\<lambda>a.
       if capital a > vault e3 then (Err InsufficientBalance, e3)
       else
         let e = e3\<lparr> vault := vault e3 - capital a \<rparr> in
         sthen (set_capital i 0 e) (\<lambda>_ e.
         sthen (schedule_end_of_instruction_resets c e) (\<lambda>ctx e.
         sthen (finalize_end_of_instruction_resets ctx e) (\<lambda>_ e.
         sthen (free_and_sweep i e) (\<lambda>_ e. (Ok (capital a), e)))))))) P"
      unfolding okP_sval by (rule okR_I, rule pay_and_free[OF I(1) u s i3], rule k)
  qed
  have "okP (close_account_not_atomic i now px rate lo hi e) P"
    unfolding close_account_not_atomic_def Let_def[of "new_with_admission lo hi"] okP_sval okP_if okP_basic
    by (rule okR_mono[OF admission_okR]) (use main t(3,4) in \<open>simp only: okP_sval okP_basic simp_thms\<close>)
  then show ?thesis by (simp only: P_def)
qed

end
