(* ===== verification/Admin.thy ===== *)
theory Admin
  imports Close
begin

text \<open>
  The instructions of \<open>src/src/percolator.rs\<close> that do not accrue the market: reclaiming and collecting
  dust accounts, topping up the insurance fund, account fees and their payment, the settlement of
  flat losses, and the getters.
\<close>

section \<open>Operations\<close>

unbundle bit_operations_syntax

text \<open>The checks these instructions share.\<close>

definition live_clock :: "int \<Rightarrow> engine \<Rightarrow> unit outcome" where
  "live_clock now_slot e =
     (if now_slot < current_slot e then Err Overflow else check_live_accrual_envelope now_slot e)"

definition live_account :: "nat \<Rightarrow> int \<Rightarrow> engine \<Rightarrow> unit outcome" where
  "live_account idx now_slot e =
     (if market_mode e \<noteq> Live then Err Unauthorized
      else if idx \<ge> MAX_ACCOUNTS e \<or> \<not> is_used e idx then Err AccountNotFound
      else live_clock now_slot e)"

definition flat_clean :: "account \<Rightarrow> unit outcome" where
  "flat_clean a =
     (if position_basis_q a \<noteq> 0 then Err Undercollateralized
      else if pnl a \<noteq> 0 then Err Undercollateralized
      else if reserved_pnl a \<noteq> 0 then Err Undercollateralized
      else if sched_present a \<noteq> 0 \<or> pending_present a \<noteq> 0 then Err Undercollateralized
      else if fee_credits a > 0 then Err CorruptState
      else Ok ())"

definition forgive_debt :: "nat \<Rightarrow> engine \<Rightarrow> engine" where
  "forgive_debt idx e =
     (if fee_credits (accounts e ! idx) < 0 then upd idx (\<lambda>a. a\<lparr> fee_credits := 0 \<rparr>) e else e)"

definition reclaim_empty_account_not_atomic :: "nat \<Rightarrow> int \<Rightarrow> engine \<Rightarrow> unit step" where
  "reclaim_empty_account_not_atomic idx now_slot e =
     sval (live_account idx now_slot e) e (\<lambda>_.
     sacct e idx (\<lambda>a.
     sval (flat_clean a) e (\<lambda>_.
     let e = e\<lparr> current_slot := now_slot \<rparr> in
     if capital a \<ge> min_initial_deposit (params e) \<and> capital a \<noteq> 0 then (Err Undercollateralized, e)
     else
       let dust_cap = capital a in
       sthen (if dust_cap > 0 then
                sval (ok_or Overflow (fit_u128 (ins_bal e + dust_cap))) e (\<lambda>new_insurance.
                sthen (set_capital idx 0 e) (\<lambda>_ e. (Ok (), set_insurance new_insurance e)))
              else (Ok (), e)) (\<lambda>_ e.
       let e = forgive_debt idx e in
       free_and_sweep idx e))))"

text \<open>Garbage collection: the predicate, the sweep of one account, the scan and the freeing.\<close>

definition is_dust :: "account \<Rightarrow> engine \<Rightarrow> bool" where
  "is_dust a e =
     (position_basis_q a = 0 \<and> pnl a = 0 \<and> reserved_pnl a = 0 \<and> sched_present a = 0
      \<and> pending_present a = 0 \<and> \<not> fee_credits a > 0
      \<and> \<not> (capital a \<ge> min_initial_deposit (params e) \<and> capital a \<noteq> 0))"

definition sweep_dust :: "nat \<Rightarrow> engine \<Rightarrow> unit step" where
  "sweep_dust idx e =
     sacct e idx (\<lambda>a.
     let dust_cap = capital a in
     sthen (if dust_cap > 0 then
              sthen (set_capital idx 0 e) (\<lambda>_ e.
              sval (ok_or Overflow (fit_u128 (ins_bal e + dust_cap))) e (\<lambda>b. (Ok (), set_insurance b e)))
            else (Ok (), e)) (\<lambda>_ e.
     (Ok (), forgive_debt idx e)))"

fun gc_scan :: "nat list \<Rightarrow> nat \<Rightarrow> nat list \<Rightarrow> nat \<Rightarrow> engine \<Rightarrow> (nat list \<times> nat) step" where
  "gc_scan [] start to_free scanned e = (Ok (to_free, scanned), e)"
| "gc_scan (offset # os) start to_free scanned e =
     (if length to_free \<ge> GC_CLOSE_BUDGET then (Ok (to_free, scanned), e)
      else
        let scanned = offset + 1;
            idx = (start + offset) AND (MAX_ACCOUNTS e - 1) in
        if \<not> is_used e idx then gc_scan os start to_free scanned e
        else if \<not> is_dust (accounts e ! idx) e then gc_scan os start to_free scanned e
        else
          sthen (sweep_dust idx e) (\<lambda>_ e. gc_scan os start (to_free @ [idx]) scanned e))"

definition garbage_collect_dust :: "engine \<Rightarrow> nat step" where
  "garbage_collect_dust e =
     (let max_scan = min ACCOUNTS_PER_CRANK (MAX_ACCOUNTS e);
          start = gc_cursor e in
      sthen (gc_scan [0..<max_scan] start [] 0 e) (\<lambda>(to_free, scanned) e.
      let e = e\<lparr> gc_cursor := (start + scanned) AND (MAX_ACCOUNTS e - 1) \<rparr> in
      sthen (sfor to_free free_slot e) (\<lambda>_ e.
      sthen (sweep_empty_market_surplus_to_insurance e) (\<lambda>_ e. (Ok (length to_free), e)))))"

definition top_up_insurance_fund :: "int \<Rightarrow> int \<Rightarrow> engine \<Rightarrow> bool step" where
  "top_up_insurance_fund amount now_slot e =
     (if market_mode e \<noteq> Live then (Err Unauthorized, e)
      else
        sval (live_clock now_slot e) e (\<lambda>_.
        sval (ok_or Overflow (fit_u128 (vault e + amount))) e (\<lambda>new_vault.
        if new_vault > MAX_VAULT_TVL then (Err Overflow, e)
        else
          sval (ok_or Overflow (fit_u128 (ins_bal e + amount))) e (\<lambda>new_ins.
          let e = set_insurance new_ins (e\<lparr> current_slot := now_slot, vault := new_vault \<rparr>) in
          (Ok (ins_bal e > insurance_floor (params e)), e)))))"

definition charge_account_fee_not_atomic :: "nat \<Rightarrow> int \<Rightarrow> int \<Rightarrow> engine \<Rightarrow> unit step" where
  "charge_account_fee_not_atomic idx fee_abs now_slot e =
     sval (live_account idx now_slot e) e (\<lambda>_.
     if fee_abs > MAX_PROTOCOL_FEE_ABS then (Err Overflow, e)
     else
       let e = e\<lparr> current_slot := now_slot \<rparr> in
       sthen (if fee_abs > 0 then sthen (charge_fee_to_insurance idx fee_abs e) (\<lambda>_ e. (Ok (), e))
              else (Ok (), e)) (\<lambda>_ e.
       sval (assert_public_postconditions e) e (\<lambda>_. (Ok (), e))))"

definition settle_flat_negative_pnl_not_atomic :: "nat \<Rightarrow> int \<Rightarrow> engine \<Rightarrow> unit step" where
  "settle_flat_negative_pnl_not_atomic idx now_slot e =
     sval (live_account idx now_slot e) e (\<lambda>_.
     sacct e idx (\<lambda>a.
     if position_basis_q a \<noteq> 0 then (Err Undercollateralized, e)
     else if reserved_pnl a \<noteq> 0 \<or> sched_present a \<noteq> 0 \<or> pending_present a \<noteq> 0
     then (Err Undercollateralized, e)
     else if pnl a \<ge> 0 then (Ok (), e)
     else
       let e = e\<lparr> current_slot := now_slot \<rparr> in
       sthen (settle_losses idx e) (\<lambda>_ e.
       sthen (resolve_flat_negative idx e) (\<lambda>_ e.
       sval (assert_public_postconditions e) e (\<lambda>_. (Ok (), e))))))"

definition sync_account_fee_to_slot_not_atomic :: "nat \<Rightarrow> int \<Rightarrow> int \<Rightarrow> engine \<Rightarrow> unit step" where
  "sync_account_fee_to_slot_not_atomic idx now_slot fee_rate_per_slot e =
     (if idx \<ge> MAX_ACCOUNTS e \<or> \<not> is_used e idx then (Err AccountNotFound, e)
      else if now_slot < current_slot e then (Err Overflow, e)
      else
        sval (if market_mode e = Live then check_live_accrual_envelope now_slot e else Ok ()) e (\<lambda>_.
        let (anchor, e) = (case market_mode e of
                             Live \<Rightarrow> (now_slot, e\<lparr> current_slot := now_slot \<rparr>)
                           | Resolved \<Rightarrow> (resolved_slot e, e)) in
        sthen (sync_account_fee_to_slot idx anchor fee_rate_per_slot e) (\<lambda>_ e.
        sval (assert_public_postconditions e) e (\<lambda>_. (Ok (), e)))))"

definition is_resolved :: "engine \<Rightarrow> bool" where
  "is_resolved e = (market_mode e = Resolved)"

definition resolved_context :: "engine \<Rightarrow> int \<times> int" where
  "resolved_context e = (resolved_price e, resolved_slot e)"

definition deposit_fee_credits :: "nat \<Rightarrow> int \<Rightarrow> int \<Rightarrow> engine \<Rightarrow> unit step" where
  "deposit_fee_credits idx amount now_slot e =
     sval (live_account idx now_slot e) e (\<lambda>_.
     sacct e idx (\<lambda>a.
     let debt = fee_debt_u128_checked (fee_credits a) in
     if amount > debt then (Err Overflow, e)
     else if amount = 0 then (Ok (), e\<lparr> current_slot := now_slot \<rparr>)
     else if amount > I128_MAX then (Err Overflow, e)
     else
       sval (ok_or Overflow (fit_u128 (vault e + amount))) e (\<lambda>new_vault.
       if new_vault > MAX_VAULT_TVL then (Err Overflow, e)
       else
         sval (ok_or Overflow (fit_u128 (ins_bal e + amount))) e (\<lambda>new_ins.
         sval (ok_or Overflow (fit_i128 (fee_credits a + as_i128 amount))) e (\<lambda>new_credits.
         (Ok (), upd idx (\<lambda>a. a\<lparr> fee_credits := new_credits \<rparr>)
                   (set_insurance new_ins (e\<lparr> current_slot := now_slot, vault := new_vault \<rparr>))))))))"

definition advance_slot :: "int \<Rightarrow> engine \<Rightarrow> engine" where
  "advance_slot slots e = e\<lparr> current_slot := sat_u64 (current_slot e + slots) \<rparr>"

definition count_used :: "engine \<Rightarrow> nat" where
  "count_used e = length (for_each_used e)"

section \<open>The clock\<close>

lemma clock_stage:
  assumes g: "good e" and t: "current_slot e \<le> now" "in_u64 now"
  shows "stage S e (e\<lparr> current_slot := now \<rparr>)" "balanced (e\<lparr> current_slot := now \<rparr>) = balanced e"
    "eqm (accounts (e\<lparr> current_slot := now \<rparr>) ! i) = eqm (accounts e ! i)"
proof -
  have m: "market_ok (e\<lparr> current_slot := now \<rparr>)" using good_D(3)[OF g] t by (simp add: market_ok_def)
  show "stage S e (e\<lparr> current_slot := now \<rparr>)"
    by (rule outer_stage[OF _ g m]) (use good_D(4)[OF g] in \<open>simp_all add: in_u128_def\<close>)
  show "balanced (e\<lparr> current_slot := now \<rparr>) = balanced e"
    "eqm (accounts (e\<lparr> current_slot := now \<rparr>) ! i) = eqm (accounts e ! i)" by (simp_all add: balanced_def)
qed

lemma live_clock_okR: "okR (live_clock now e) (\<lambda>_. current_slot e \<le> now)"
  by (auto simp: live_clock_def okR_def)

lemma live_account_okR:
  "okR (live_account i now e) (\<lambda>_. market_mode e = Live \<and> i < MAX_ACCOUNTS e \<and> is_used e i \<and> current_slot e \<le> now)"
  using live_clock_okR[of now e] by (auto simp: live_account_def okR_def)

lemma post_inv:
  assumes s: "stage S e e'" and v: "slab_ok e" and u: "\<And>j. j \<in> S \<Longrightarrow> is_used e j"
  shows "okP (sval (assert_public_postconditions e') e' (\<lambda>_. (Ok (), e'))) (\<lambda>_ e''. e'' = e' \<and> inv e')"
  unfolding okP_sval okP_basic
  by (rule okR_mono[OF postconditions_okR]) (use stage_slab[OF s v u] stage_D(1)[OF s] in \<open>simp add: inv_def\<close>)

text \<open>Writing the fee credits, the fee slot or the owner of one account.\<close>

lemma acct_write_stage:
  assumes g: "good e" and i: "i < MAX_ACCOUNTS e"
    and f: "f = (\<lambda>a. a\<lparr> fee_credits := c \<rparr>) \<and> - I128_MAX \<le> c \<and> c \<le> 0
       \<or> f = (\<lambda>a. a\<lparr> last_fee_slot := s \<rparr>) \<or> f = (\<lambda>a. a\<lparr> owner := ow \<rparr>)"
  shows "lstage i e (upd i f e)"
proof -
  let ?a = "accounts e ! i"
  have T: "acct_ok p (f a) = acct_ok p a" "capital (f a) = capital a" "posp (f a) = posp a" "matp (f a) = matp a"
    "negp (f a) = negp a" "longp (f a) = longp a" "shortp (f a) = shortp a" for p a
    using f by (elim disjE conjE; simp add: posp_def matp_def negp_def longp_def shortp_def)+
  have fo: "fee_ok (f ?a)"
    using f good_D(2)[OF g] i by (elim disjE conjE) (simp_all add: fees_ok_def fee_ok_def)
  have "agg (upd i f e)" using good_D(8)[OF g] i by (simp add: agg_def upd_def tot_update T)
  moreover have "accts_ok (upd i f e)"
    by (rule accts_ok_update[OF good_D(7)[OF g], of _ i "f ?a"])
      (use accts_ok_nth[OF good_D(7)[OF g] i] in \<open>simp_all add: upd_def T\<close>)
  ultimately have p: "pnl_inv (upd i f e)" by (simp add: pnl_inv_def)
  have "stage {i} e (upd i f e)"
    by (rule frame_stage[OF frame_upd[OF singletonI] g p]) (use fo i in \<open>simp_all add: upd_def\<close>)
  then show ?thesis by (simp add: lstage_def mkt_fields_def upd_def)
qed


section \<open>Fees\<close>

text \<open>What a fee does to the account it is charged to.\<close>

definition fee_taken :: "nat \<Rightarrow> int \<Rightarrow> engine \<Rightarrow> engine \<Rightarrow> bool" where
  "fee_taken i fee e e' =
     (lstage i e e' \<and> ins_bal e \<le> ins_bal e'
      \<and> ins_bal e' - ins_bal e \<le> eqm (accounts e ! i) - eqm (accounts e' ! i)
      \<and> eqm (accounts e ! i) - eqm (accounts e' ! i) \<le> fee)"

lemma charge_fee_taken:
  assumes g: "good e" and f: "0 \<le> fee"
  shows "okP (sthen (charge_fee_to_insurance i fee e) (\<lambda>_ e. (Ok (), e))) (\<lambda>_ e'. fee_taken i fee e e')"
proof (rule okP_then[OF charge_fee_stage[OF g f]])
  fix p :: "int \<times> int \<times> int" and e'
  obtain cash impact dropped where p: "p = (cash, impact, dropped)" by (cases p)
  assume A: "(case p of (cash, impact, dropped) \<Rightarrow> \<lambda>e'. i < MAX_ACCOUNTS e \<and> lstage i e e'
     \<and> eqm (accounts e' ! i) = eqm (accounts e ! i) - impact
     \<and> position_basis_q (accounts e' ! i) = position_basis_q (accounts e ! i)
     \<and> ins_bal e' = ins_bal e + cash \<and> cash = min fee (capital (accounts e ! i))
     \<and> 0 \<le> cash \<and> cash \<le> impact \<and> impact + dropped = fee \<and> 0 \<le> dropped) e'"
  have l: "lstage i e e'" using A unfolding p prod.case by blast
  have "eqm (accounts e' ! i) = eqm (accounts e ! i) - impact" "ins_bal e' = ins_bal e + cash"
    "0 \<le> cash" "cash \<le> impact" "impact + dropped = fee" "0 \<le> dropped"
    using A unfolding p prod.case by blast+
  then show "okP (Ok (), e') (\<lambda>_ e'. fee_taken i fee e e')" using l by (simp add: fee_taken_def)
qed

lemma fee_taken_refl: "good e \<Longrightarrow> 0 \<le> fee \<Longrightarrow> fee_taken i fee e e"
  by (simp add: fee_taken_def lstage_refl)

theorem sync_fee_spec:
  assumes g: "good e" and r: "0 \<le> rate"
  shows "okP (sync_account_fee_to_slot i anchor rate e) (\<lambda>_ e'. i < MAX_ACCOUNTS e \<and> is_used e i
     \<and> last_fee_slot (accounts e ! i) \<le> anchor \<and> last_fee_slot (accounts e' ! i) = anchor
     \<and> fee_taken i (rate * (anchor - last_fee_slot (accounts e ! i))) e e')"
    (is "okP _ ?P")
proof -
  define P where "P = ?P"
  define last where "last = last_fee_slot (accounts e ! i)"
  define stamp where "stamp = upd i (\<lambda>a. a\<lparr> last_fee_slot := anchor \<rparr>)"
  have stamped: "P () (stamp e1)" if t: "fee_taken i (rate * (anchor - last)) e e1" and u: "is_used e i" "i < MAX_ACCOUNTS e" "last \<le> anchor" for e1
  proof -
    have l: "lstage i e e1" using t by (simp add: fee_taken_def)
    have i1: "i < MAX_ACCOUNTS e1" using u stage_D(5)[OF lstage_D(2)[OF l]] by simp
    have "lstage i e1 (stamp e1)"
      unfolding stamp_def by (rule acct_write_stage[OF lstage_D(1)[OF l] i1]) blast
    then have "lstage i e (stamp e1)" using lstage_trans[OF l] by blast
    then show ?thesis
      using t u i1 by (simp add: P_def fee_taken_def stamp_def upd_def eqm_def last_def)
  qed
  have idle: "P () e" if "is_used e i" "i < MAX_ACCOUNTS e" "anchor - last = 0"
    using fee_taken_refl[OF g order_refl] that by (simp add: P_def last_def)
  have chg: "okP (sthen (if fee > 0 then sthen (charge_fee_to_insurance i fee e) (\<lambda>_ e. (Ok (), e)) else (Ok (), e))
       (\<lambda>_ e. (Ok (), upd i (\<lambda>a. a\<lparr> last_fee_slot := anchor \<rparr>) e))) P"
    if u: "is_used e i" "i < MAX_ACCOUNTS e" "last \<le> anchor" and f: "fee \<le> rate * (anchor - last)" "0 \<le> fee" for fee
  proof -
    have "okP (if fee > 0 then sthen (charge_fee_to_insurance i fee e) (\<lambda>_ e. (Ok (), e)) else (Ok (), e))
        (\<lambda>_ e1. fee_taken i fee e e1)"
      using charge_fee_taken[OF g f(2)] fee_taken_refl[OF g f(2)] by (simp add: okP_if)
    then show ?thesis
      by (rule okP_then) (use stamped[OF _ u] f in \<open>auto simp: stamp_def fee_taken_def\<close>)
  qed
  have "okP (sync_account_fee_to_slot i anchor rate e) P"
  proof (cases "i < MAX_ACCOUNTS e \<and> is_used e i \<and> last \<le> anchor")
    case False
    then show ?thesis by (auto simp: sync_account_fee_to_slot_def last_def Let_def)
  next
    case True
    have nn: "0 \<le> rate * (anchor - last)" using True r by simp
    have z: "P () (stamp e)" if "rate = 0" using stamped[OF fee_taken_refl[OF g]] nn True by simp
    have m: "0 \<le> MAX_PROTOCOL_FEE_ABS" by (simp add: bounds)
    show ?thesis
      unfolding sync_account_fee_to_slot_def Let_def last_def[symmetric] okP_if okP_sval okR_ok_or okP_basic fit_Some
      using idle chg z True nn m by (auto simp: stamp_def fit_u256_def split: if_splits)
  qed
  then show ?thesis by (simp only: P_def last_def)
qed

text \<open>Charging is once per interval: a second synchronisation to the same slot does nothing.\<close>

theorem sync_fee_idempotent:
  assumes g: "good e" and r: "0 \<le> rate" and s: "sync_account_fee_to_slot i anchor rate e = (Ok (), e')"
  shows "sync_account_fee_to_slot i anchor rate' e' = (Ok (), e')"
proof -
  have P: "i < MAX_ACCOUNTS e \<and> is_used e i \<and> last_fee_slot (accounts e ! i) \<le> anchor
     \<and> last_fee_slot (accounts e' ! i) = anchor
     \<and> fee_taken i (rate * (anchor - last_fee_slot (accounts e ! i))) e e'"
    using okP_D[OF sync_fee_spec[OF g r] s] .
  have l: "lstage i e e'" using P by (simp add: fee_taken_def)
  note D = stage_D[OF lstage_D(2)[OF l]] and mk = lstage_D(7)[OF l]
  have rs: "resolved_slot e' = resolved_slot e" using l by (simp add: lstage_def mkt_fields_def)
  have "\<not> (case market_mode e of Live \<Rightarrow> anchor > current_slot e | Resolved \<Rightarrow> anchor > resolved_slot e)"
    using s P by (auto simp: sync_account_fee_to_slot_def Let_def split: if_splits)
  then show ?thesis
    using P D(4,5,6) mk rs by (simp add: sync_account_fee_to_slot_def Let_def split: market_mode.splits)
qed


theorem sync_fee_public_spec:
  assumes v: "inv e" and t: "in_u64 now" "0 \<le> rate"
  shows "okP (sync_account_fee_to_slot_not_atomic i now rate e) (\<lambda>_ e'. inv e' \<and> stage {i} e e'
     \<and> ins_bal e \<le> ins_bal e'
     \<and> last_fee_slot (accounts e' ! i) = (case market_mode e of Live \<Rightarrow> now | Resolved \<Rightarrow> resolved_slot e))"
    (is "okP _ ?P")
proof -
  define P where "P = ?P"
  have g: "good e" by (rule inv_D(2)[OF v])
  have tail: "okP (sthen (sync_account_fee_to_slot i anchor rate e1) (\<lambda>_ e.
        sval (assert_public_postconditions e) e (\<lambda>_. (Ok (), e)))) P"
    if s: "stage {} e e1" and u: "is_used e i" and n: "ins_bal e1 = ins_bal e"
      and a: "anchor = (case market_mode e of Live \<Rightarrow> now | Resolved \<Rightarrow> resolved_slot e)" for anchor e1
  proof (rule okP_then[OF sync_fee_spec[OF stage_D(1)[OF s] t(2)]], elim conjE)
    fix x e2 assume l: "last_fee_slot (accounts e2 ! i) = anchor"
      and f: "fee_taken i (rate * (anchor - last_fee_slot (accounts e1 ! i))) e1 e2"
    have st: "stage {i} e e2"
      using stage_trans[OF stage_mono[OF s] lstage_D(2)] f by (simp add: fee_taken_def)
    show "okP (sval (assert_public_postconditions e2) e2 (\<lambda>_. (Ok (), e2))) P"
      by (rule okP_mono[OF post_inv[OF st inv_D(1)[OF v]]])
        (use u f n st l a in \<open>auto simp: P_def fee_taken_def\<close>)
  qed
  have ck: "stage {} e (e\<lparr> current_slot := now \<rparr>)" if "\<not> now < current_slot e"
    by (rule clock_stage(1)[OF g]) (use that t in simp_all)
  have lv: "okP (sthen (sync_account_fee_to_slot i now rate (e\<lparr> current_slot := now \<rparr>)) (\<lambda>_ e.
        sval (assert_public_postconditions e) e (\<lambda>_. (Ok (), e)))) P"
    if "\<not> now < current_slot e" "is_used e i" "market_mode e = Live"
    by (rule tail[OF ck]) (use that in simp_all)
  have rs: "okP (sthen (sync_account_fee_to_slot i (resolved_slot e) rate e) (\<lambda>_ e.
        sval (assert_public_postconditions e) e (\<lambda>_. (Ok (), e)))) P"
    if "is_used e i" "market_mode e = Resolved"
    by (rule tail[OF stage_refl[OF g]]) (use that in simp_all)
  have "okP (sync_account_fee_to_slot_not_atomic i now rate e) P"
  proof (cases "market_mode e")
    case Live
    show ?thesis
      unfolding sync_account_fee_to_slot_not_atomic_def Live market_mode.case prod.case Let_def okP_if okP_sval okP_basic
      using lv Live by (auto intro!: okR_I)
  next
    case Resolved
    show ?thesis
      unfolding sync_account_fee_to_slot_not_atomic_def Resolved market_mode.case prod.case Let_def okP_if okP_sval okP_basic
      using rs Resolved by (auto intro!: okR_I)
  qed
  then show ?thesis by (simp only: P_def)
qed

theorem charge_account_fee_spec:
  assumes v: "inv e" and t: "in_u64 now" "0 \<le> fee"
  shows "okP (charge_account_fee_not_atomic i fee now e) (\<lambda>_ e'. inv e' \<and> stage {i} e e'
     \<and> fee \<le> MAX_PROTOCOL_FEE_ABS
     \<and> 0 \<le> ins_bal e' - ins_bal e
     \<and> ins_bal e' - ins_bal e \<le> eqm (accounts e ! i) - eqm (accounts e' ! i)
     \<and> eqm (accounts e ! i) - eqm (accounts e' ! i) \<le> fee)"
    (is "okP _ ?P")
proof -
  define P where "P = ?P"
  have g: "good e" by (rule inv_D(2)[OF v])
  let ?c = "e\<lparr> current_slot := now \<rparr>"
  have main: "okP (sthen (if fee > 0 then sthen (charge_fee_to_insurance i fee ?c) (\<lambda>_ e. (Ok (), e)) else (Ok (), ?c)) (\<lambda>_ e.
       sval (assert_public_postconditions e) e (\<lambda>_. (Ok (), e)))) P"
    if u: "is_used e i" "current_slot e \<le> now" "\<not> fee > MAX_PROTOCOL_FEE_ABS"
  proof -
    note C = clock_stage[OF g u(2) t(1)]
    have gc: "good ?c" using stage_D(1)[OF C(1)] .
    have "okP (if fee > 0 then sthen (charge_fee_to_insurance i fee ?c) (\<lambda>_ e. (Ok (), e)) else (Ok (), ?c))
        (\<lambda>_ e1. fee_taken i fee ?c e1)"
      using charge_fee_taken[OF gc t(2)] fee_taken_refl[OF gc t(2)] by (simp add: okP_if)
    then show ?thesis
    proof (rule okP_then)
      fix x e1 assume f: "fee_taken i fee ?c e1"
      have st: "stage {i} e e1" using stage_trans[OF C(1) lstage_D(2)] f by (simp add: fee_taken_def)
      show "okP (sval (assert_public_postconditions e1) e1 (\<lambda>_. (Ok (), e1))) P"
        by (rule okP_mono[OF post_inv[OF st inv_D(1)[OF v]]])
          (use u f st in \<open>auto simp: P_def fee_taken_def\<close>)
    qed
  qed
  have "okP (charge_account_fee_not_atomic i fee now e) P"
    unfolding charge_account_fee_not_atomic_def Let_def okP_sval[of "live_account i now e"]
  proof (rule okR_mono[OF live_account_okR], elim conjE)
    fix x assume "is_used e i" "current_slot e \<le> now"
    then show "okP (if fee > MAX_PROTOCOL_FEE_ABS then (Err Overflow, e)
     else sthen (if fee > 0 then sthen (charge_fee_to_insurance i fee ?c) (\<lambda>_ e. (Ok (), e)) else (Ok (), ?c)) (\<lambda>_ e.
       sval (assert_public_postconditions e) e (\<lambda>_. (Ok (), e)))) P"
      using main by (cases "fee > MAX_PROTOCOL_FEE_ABS") simp_all
  qed
  then show ?thesis by (simp only: P_def)
qed

theorem settle_flat_negative_spec:
  assumes v: "inv e" and t: "in_u64 now"
  shows "okP (settle_flat_negative_pnl_not_atomic i now e) (\<lambda>_ e'. inv e' \<and> stage {i} e e'
     \<and> 0 \<le> pnl (accounts e' ! i))"
    (is "okP _ ?P")
proof -
  define P where "P = ?P"
  have g: "good e" by (rule inv_D(2)[OF v])
  let ?c = "e\<lparr> current_slot := now \<rparr>"
  have main: "okP (sthen (settle_losses i ?c) (\<lambda>_ e. sthen (resolve_flat_negative i e) (\<lambda>_ e.
       sval (assert_public_postconditions e) e (\<lambda>_. (Ok (), e))))) P"
    if u: "is_used e i" "current_slot e \<le> now" "position_basis_q (accounts e ! i) = 0"
  proof -
    note C = clock_stage[OF g u(2) t]
    have gc: "good ?c" using stage_D(1)[OF C(1)] .
    show ?thesis
    proof (rule okP_then[OF settle_losses_spec[OF gc]], elim conjE)
      fix x e1 assume l: "lstage i ?c e1" and S: "loss_settled i ?c e1" and i: "i < MAX_ACCOUNTS ?c"
      have fl: "effective_pos_q i e1 = Ok 0"
        by (rule flat_effective) (use S u i stage_D(5)[OF lstage_D(2)[OF l]] in \<open>simp_all add: loss_settled_def Let_def\<close>)
      show "okP (sthen (resolve_flat_negative i e1) (\<lambda>_ e.
          sval (assert_public_postconditions e) e (\<lambda>_. (Ok (), e)))) P"
      proof (rule okP_then[OF resolve_flat_spec[OF lstage_D(1)[OF l]]], elim conjE)
        fix y e2 assume l2: "lstage i e1 e2" and z: "effective_pos_q i e1 = Ok 0 \<longrightarrow> 0 \<le> pnl (accounts e2 ! i)"
        have st: "stage {i} e e2"
          using stage_trans[OF stage_trans[OF C(1) lstage_D(2)[OF l]] lstage_D(2)[OF l2]] .
        show "okP (sval (assert_public_postconditions e2) e2 (\<lambda>_. (Ok (), e2))) P"
          by (rule okP_mono[OF post_inv[OF st inv_D(1)[OF v]]]) (use u fl z st in \<open>auto simp: P_def\<close>)
      qed
    qed
  qed
  have idle: "P () e" if "0 \<le> pnl (accounts e ! i)" using that v stage_refl[OF g] by (simp add: P_def)
  have "okP (settle_flat_negative_pnl_not_atomic i now e) P"
    unfolding settle_flat_negative_pnl_not_atomic_def Let_def okP_sval[of "live_account i now e"] okP_sacct okP_if okP_basic
    by (rule okR_mono[OF live_account_okR]) (simp add: main idle)
  then show ?thesis by (simp only: P_def)
qed


section \<open>Payments into the insurance fund\<close>

lemma paid_in_good:
  assumes g: "good e" and t: "current_slot e \<le> now" "in_u64 now" and v: "in_u128 v" "in_u128 x"
  shows "good (set_insurance x (e\<lparr> current_slot := now, vault := v \<rparr>))"
  by (rule set_insurance_good[OF good_clock[OF g t v(1)] v(2)])

lemma paid_in_inv:
  assumes v: "inv e" and t: "current_slot e \<le> now" "in_u64 now"
    and a: "in_u128 (vault e + amount)" "in_u128 (ins_bal e + amount)"
  shows "inv (set_insurance (ins_bal e + amount) (e\<lparr> current_slot := now, vault := vault e + amount \<rparr>))"
  using paid_in_good[OF inv_D(2)[OF v] t a] inv_D(1,3,4)[OF v]
  by (simp add: inv_def slab_ok_clock solvent_def balanced_def) (simp add: set_insurance_def)

theorem top_up_spec:
  assumes v: "inv e" and t: "in_u64 now" "0 \<le> amount"
  shows "okP (top_up_insurance_fund amount now e) (\<lambda>above e'. inv e'
     \<and> e' = set_insurance (ins_bal e + amount) (e\<lparr> current_slot := now, vault := vault e + amount \<rparr>)
     \<and> vault e' \<le> MAX_VAULT_TVL \<and> above = (ins_bal e' > insurance_floor (params e')))"
    (is "okP _ ?P")
proof -
  define P where "P = ?P"
  let ?e = "set_insurance (ins_bal e + amount) (e\<lparr> current_slot := now, vault := vault e + amount \<rparr>)"
  have main: "P (ins_bal ?e > insurance_floor (params ?e)) ?e"
    if "current_slot e \<le> now" "in_u128 (vault e + amount)" "\<not> vault e + amount > MAX_VAULT_TVL"
      "in_u128 (ins_bal e + amount)"
    using paid_in_inv[OF v that(1) t(1) that(2,4)] that by (simp add: P_def)
  have "okP (top_up_insurance_fund amount now e) P"
    unfolding top_up_insurance_fund_def Let_def okP_if okP_basic okP_sval
  proof (intro conjI impI okP_basic okR_mono[OF live_clock_okR])
    fix x assume c: "current_slot e \<le> now"
    show "okR (ok_or Overflow (fit_u128 (vault e + amount))) (\<lambda>v.
       (v > MAX_VAULT_TVL \<longrightarrow> okP (Err Overflow, e) P)
       \<and> (\<not> v > MAX_VAULT_TVL \<longrightarrow> okR (ok_or Overflow (fit_u128 (ins_bal e + amount))) (\<lambda>n.
          P (ins_bal (set_insurance n (e\<lparr> current_slot := now, vault := v \<rparr>))
              > insurance_floor (params (set_insurance n (e\<lparr> current_slot := now, vault := v \<rparr>))))
            (set_insurance n (e\<lparr> current_slot := now, vault := v \<rparr>)))))"
      unfolding okR_ok_or fit_Some using main[OF c] by auto
  qed
  then show ?thesis by (simp only: P_def)
qed

theorem deposit_fee_credits_spec:
  assumes v: "inv e" and t: "in_u64 now" "0 \<le> amount"
  shows "okP (deposit_fee_credits i amount now e) (\<lambda>_ e'. inv e' \<and> vault e' = vault e + amount
     \<and> ins_bal e' = ins_bal e + amount
     \<and> fee_credits (accounts e' ! i) = fee_credits (accounts e ! i) + amount
     \<and> fee_credits (accounts e' ! i) \<le> 0
     \<and> (\<forall>j. j \<noteq> i \<longrightarrow> accounts e' ! j = accounts e ! j))"
    (is "okP _ ?P")
proof -
  define P where "P = ?P"
  let ?a = "accounts e ! i"
  note I = inv_D[OF v]
  have none: "P () (e\<lparr> current_slot := now \<rparr>)" if "amount = 0" "current_slot e \<le> now" "i < MAX_ACCOUNTS e"
  proof -
    note C = clock_stage[OF I(2) that(2) t(1)]
    have "slab_ok (e\<lparr> current_slot := now \<rparr>)" by (rule stage_slab[OF C(1)[of "{}"] I(1)]) simp
    then have "inv (e\<lparr> current_slot := now \<rparr>)"
      using stage_D(1,7)[OF C(1)[of "{}"]] C(2) I(3,4) by (simp add: inv_def)
    then show ?thesis using that acct_typed(5)[OF I(2) that(3)] by (simp add: P_def fee_ok_def)
  qed
  have pay: "P () (upd i (\<lambda>a. a\<lparr> fee_credits := fee_credits ?a + amount \<rparr>)
        (set_insurance (ins_bal e + amount) (e\<lparr> current_slot := now, vault := vault e + amount \<rparr>)))"
    if c: "current_slot e \<le> now" "i < MAX_ACCOUNTS e" "is_used e i" and d: "amount \<le> - fee_credits ?a"
      and f: "in_u128 (vault e + amount)" "in_u128 (ins_bal e + amount)"
  proof -
    let ?p = "set_insurance (ins_bal e + amount) (e\<lparr> current_slot := now, vault := vault e + amount \<rparr>)"
    have vp: "inv ?p" by (rule paid_in_inv[OF v c(1) t(1) f])
    have l: "lstage i ?p (upd i (\<lambda>a. a\<lparr> fee_credits := fee_credits ?a + amount \<rparr>) ?p)"
      by (rule acct_write_stage[OF inv_D(2)[OF vp]])
        (use c d t(2) acct_typed(5)[OF I(2) c(2)] in \<open>auto simp: fee_ok_def\<close>)
    have "is_used ?p i" using c(3) by (simp add: set_insurance_fields(3) is_used_clock)
    then have "slab_ok (upd i (\<lambda>a. a\<lparr> fee_credits := fee_credits ?a + amount \<rparr>) ?p)"
      using stage_slab[OF lstage_D(2)[OF l] inv_D(1)[OF vp]] by blast
    then have "inv (upd i (\<lambda>a. a\<lparr> fee_credits := fee_credits ?a + amount \<rparr>) ?p)"
      using lstage_D(1,3)[OF l] inv_D(3,4)[OF vp] stage_D(7)[OF lstage_D(2)[OF l]] by (simp add: inv_def)
    then show ?thesis using c d by (simp add: P_def upd_def)
  qed
  have fc: "fee_debt_u128_checked (fee_credits ?a) = - fee_credits ?a" if "i < MAX_ACCOUNTS e"
    using acct_typed(5)[OF I(2) that] by (simp add: fee_ok_def fee_debt_u128_checked_def)
  have "okP (deposit_fee_credits i amount now e) P"
    unfolding deposit_fee_credits_def okP_sval[of "live_account i now e"]
  proof (rule okR_mono[OF live_account_okR], elim conjE)
    fix x assume c: "i < MAX_ACCOUNTS e" "is_used e i" "current_slot e \<le> now"
    have ai: "as_i128 amount = amount" if "\<not> amount > I128_MAX" using that by (simp add: as_i128_def)
    show "okP (sacct e i (\<lambda>a.
     let debt = fee_debt_u128_checked (fee_credits a) in
     if amount > debt then (Err Overflow, e)
     else if amount = 0 then (Ok (), e\<lparr> current_slot := now \<rparr>)
     else if amount > I128_MAX then (Err Overflow, e)
     else
       sval (ok_or Overflow (fit_u128 (vault e + amount))) e (\<lambda>new_vault.
       if new_vault > MAX_VAULT_TVL then (Err Overflow, e)
       else
         sval (ok_or Overflow (fit_u128 (ins_bal e + amount))) e (\<lambda>new_ins.
         sval (ok_or Overflow (fit_i128 (fee_credits a + as_i128 amount))) e (\<lambda>new_credits.
         (Ok (), upd i (\<lambda>a. a\<lparr> fee_credits := new_credits \<rparr>)
                   (set_insurance new_ins (e\<lparr> current_slot := now, vault := new_vault \<rparr>)))))))) P"
      unfolding okP_sacct Let_def fc[OF c(1)] okP_if okP_sval okR_ok_or fit_Some okP_basic
      using none pay c ai by auto
  qed
  then show ?thesis by (simp only: P_def)
qed

theorem set_owner_spec:
  assumes v: "inv e"
  shows "okP (set_owner i ow e) (\<lambda>_ e'. inv e' \<and> stage {i} e e' \<and> ow \<noteq> ZERO32
     \<and> owner (accounts e ! i) = ZERO32 \<and> owner (accounts e' ! i) = ow)"
proof (cases "i < MAX_ACCOUNTS e \<and> is_used e i")
  case False
  then show ?thesis by (auto simp: set_owner_def)
next
  case True
  let ?e = "upd i (\<lambda>a. a\<lparr> owner := ow \<rparr>) e"
  have l: "lstage i e ?e" using True by (intro acct_write_stage[OF inv_D(2)[OF v]]) auto
  have "slab_ok ?e" using stage_slab[OF lstage_D(2)[OF l] inv_D(1)[OF v]] True by blast
  then have "inv ?e"
    using lstage_D(1,3)[OF l] inv_D(3,4)[OF v] stage_D(7)[OF lstage_D(2)[OF l]] by (simp add: inv_def)
  then show ?thesis using True lstage_D(2)[OF l] by (simp add: set_owner_def okP_if upd_def)
qed


section \<open>Reclaiming dust\<close>

text \<open>Moving the dust capital of an account into the insurance fund.\<close>

definition dust_moved :: "nat \<Rightarrow> engine \<Rightarrow> engine \<Rightarrow> bool" where
  "dust_moved i e e' =
     (lstage i e e' \<and> ins_bal e' = ins_bal e + capital (accounts e ! i)
      \<and> accounts e' ! i = (accounts e ! i)\<lparr> capital := 0 \<rparr>)"

lemma dust_effect:
  assumes g: "good e" and i: "i < MAX_ACCOUNTS e" and b: "in_u128 (ins_bal e + capital (accounts e ! i))"
  shows "dust_moved i e (set_insurance (ins_bal e + capital (accounts e ! i)) (cap_effect i 0 e))"
proof -
  let ?c = "capital (accounts e ! i)"
  have eq: "set_insurance (ins_bal e + ?c) (cap_effect i 0 e) = fee_effect i ?c 0 e"
    using i by (simp add: set_insurance_def cap_effect_def fee_effect_def)
  have f: "- I128_MAX \<le> fee_credits (accounts e ! i)" "fee_credits (accounts e ! i) \<le> 0"
    using acct_typed(5)[OF g i] by (simp_all add: fee_ok_def)
  have "lstage i e (fee_effect i ?c 0 e)"
    by (rule fee_effect_lstage[OF g i]) (use f b acct_typed(6)[OF g i] in simp_all)
  then show ?thesis
    unfolding dust_moved_def eq using fee_effect_reads[OF i, where p = ?c and c = 0] by simp
qed

lemma dust_none: "good e \<Longrightarrow> i < MAX_ACCOUNTS e \<Longrightarrow> \<not> capital (accounts e ! i) > 0 \<Longrightarrow> dust_moved i e e"
  using acct_typed(6)[of e i] lstage_refl[of e i] by (simp add: dust_moved_def)

lemma forgive_lstage:
  assumes g: "good e" and i: "i < MAX_ACCOUNTS e"
  shows "lstage i e (forgive_debt i e)"
proof -
  have "lstage i e (upd i (\<lambda>a. a\<lparr> fee_credits := 0 \<rparr>) e)"
    by (rule acct_write_stage[OF g i], rule disjI1, intro conjI, rule refl, simp_all add: bounds)
  then show ?thesis using lstage_refl[OF g] by (simp add: forgive_debt_def)
qed

text \<open>
  Reclaiming frees the slot of a flat, clean account with no capital or with less than the minimum
  deposit; the dust goes to the insurance fund and no payment leaves the vault.
\<close>

theorem reclaim_spec:
  assumes v: "inv e" and t: "in_u64 now"
  shows "okP (reclaim_empty_account_not_atomic i now e) (\<lambda>_ e'. inv e' \<and> account_closed i 0 e e'
     \<and> is_dust (accounts e ! i) e)"
    (is "okP _ ?P")
proof -
  define P where "P = ?P"
  note I = inv_D[OF v]
  let ?c = "e\<lparr> current_slot := now \<rparr>" and ?a = "accounts e ! i"
  have fin: "okP (free_and_sweep i (forgive_debt i e1)) P"
    if c: "current_slot e \<le> now" "i < MAX_ACCOUNTS e" "is_used e i" and m: "dust_moved i ?c e1" and d: "is_dust ?a e" for e1
  proof -
    note C = clock_stage[OF I(2) c(1) t]
    have l: "lstage i ?c e1" using m by (simp add: dust_moved_def)
    have i1: "i < MAX_ACCOUNTS e1" using c stage_D(5)[OF lstage_D(2)[OF l]] by simp
    have st: "stage {i} e (forgive_debt i e1)"
      using stage_trans[OF stage_trans[OF C(1) lstage_D(2)[OF l]] lstage_D(2)[OF forgive_lstage[OF lstage_D(1)[OF l] i1]]] .
    note S = stage_D[OF st]
    have ok: "slab_ok (forgive_debt i e1)" using stage_slab[OF st I(1)] c by simp
    show ?thesis
    proof (rule okP_mono[OF free_and_sweep_spec[OF S(1) ok]], elim conjE)
      fix x e' assume iv: "inv e'" and co: "closed_out i (forgive_debt i e1) e'" and i2: "i < MAX_ACCOUNTS (forgive_debt i e1)"
      have "account_closed i 0 e e'"
        using co c S stage_used_set[OF st] i2 by (simp add: account_closed_def closed_out_def)
      then show "P x e'" using iv d by (simp add: P_def)
    qed
  qed
  have main: "okP (sthen (if capital ?a > 0 then
                sval (ok_or Overflow (fit_u128 (ins_bal ?c + capital ?a))) ?c (\<lambda>new_insurance.
                sthen (set_capital i 0 ?c) (\<lambda>_ e. (Ok (), set_insurance new_insurance e)))
              else (Ok (), ?c)) (\<lambda>_ e. free_and_sweep i (forgive_debt i e))) P"
    if c: "current_slot e \<le> now" "i < MAX_ACCOUNTS e" "is_used e i" and d: "is_dust ?a e"
  proof -
    note C = clock_stage[OF I(2) c(1) t]
    have gc: "good ?c" using stage_D(1)[OF C(1)] .
    have ic: "i < MAX_ACCOUNTS ?c" using c by simp
    have z: "dust_moved i ?c (set_insurance (ins_bal ?c + capital ?a) (cap_effect i 0 ?c))" if "in_u128 (ins_bal ?c + capital ?a)"
      using dust_effect[OF gc ic] that by simp
    have "okP (if capital ?a > 0 then
                sval (ok_or Overflow (fit_u128 (ins_bal ?c + capital ?a))) ?c (\<lambda>new_insurance.
                sthen (set_capital i 0 ?c) (\<lambda>_ e. (Ok (), set_insurance new_insurance e)))
              else (Ok (), ?c)) (\<lambda>_ e1. dust_moved i ?c e1)"
    proof (cases "capital ?a > 0")
      case True
      have "okP (sthen (set_capital i 0 ?c) (\<lambda>_ e. (Ok (), set_insurance (ins_bal ?c + capital ?a) e)))
          (\<lambda>_ e1. dust_moved i ?c e1)" if "in_u128 (ins_bal ?c + capital ?a)"
        by (rule okP_then[OF set_capital_spec], elim conjE) (use z[OF that] in simp)
      then show ?thesis using True by (simp add: okP_sval okR_ok_or)
    next
      case False
      then show ?thesis using dust_none[OF gc ic] by simp
    qed
    then show ?thesis by (rule okP_then) (use fin c d in blast)
  qed
  have "okP (reclaim_empty_account_not_atomic i now e) P"
    unfolding reclaim_empty_account_not_atomic_def Let_def okP_sval[of "live_account i now e"] okP_sacct okP_sval[of "flat_clean _"]
  proof (rule okR_mono[OF live_account_okR], elim conjE, intro impI okR_I)
    fix x y assume c: "i < MAX_ACCOUNTS e" "is_used e i" "current_slot e \<le> now" and f: "flat_clean ?a = Ok y"
    show "okP (if capital ?a \<ge> min_initial_deposit (params ?c) \<and> capital ?a \<noteq> 0 then (Err Undercollateralized, ?c)
       else sthen (if capital ?a > 0 then
                sval (ok_or Overflow (fit_u128 (ins_bal ?c + capital ?a))) ?c (\<lambda>new_insurance.
                sthen (set_capital i 0 ?c) (\<lambda>_ e. (Ok (), set_insurance new_insurance e)))
              else (Ok (), ?c)) (\<lambda>_ e. free_and_sweep i (forgive_debt i e))) P"
    proof (cases "capital ?a \<ge> min_initial_deposit (params ?c) \<and> capital ?a \<noteq> 0")
      case True
      then show ?thesis by simp
    next
      case False
      have "is_dust ?a e" using False f by (auto simp: is_dust_def flat_clean_def split: if_splits)
      then show ?thesis unfolding if_not_P[OF False] using main c by blast
    qed
  qed
  then show ?thesis by (simp only: P_def)
qed


section \<open>Garbage collection\<close>

lemma sweep_dust_spec:
  assumes g: "good e"
  shows "okP (sweep_dust i e) (\<lambda>_ e'. i < MAX_ACCOUNTS e \<and> lstage i e e')"
    (is "okP _ ?P")
proof (cases "i < MAX_ACCOUNTS e")
  case False
  then show ?thesis by (simp add: sweep_dust_def okP_sacct)
next
  case i: True
  let ?a = "accounts e ! i"
  have "okP (if capital ?a > 0 then
              sthen (set_capital i 0 e) (\<lambda>_ e1.
              sval (ok_or Overflow (fit_u128 (ins_bal e1 + capital ?a))) e1 (\<lambda>b. (Ok (), set_insurance b e1)))
            else (Ok (), e)) (\<lambda>_ e1. dust_moved i e e1)"
  proof (cases "capital ?a > 0")
    case True
    have "okP (sthen (set_capital i 0 e) (\<lambda>_ e1.
              sval (ok_or Overflow (fit_u128 (ins_bal e1 + capital ?a))) e1 (\<lambda>b. (Ok (), set_insurance b e1))))
         (\<lambda>_ e1. dust_moved i e e1)"
    proof (rule okP_then[OF set_capital_spec], elim conjE)
      fix x e1 assume e1: "e1 = cap_effect i 0 e"
      have n: "ins_bal e1 = ins_bal e" by (simp add: e1 cap_effect_def)
      show "okP (sval (ok_or Overflow (fit_u128 (ins_bal e1 + capital ?a))) e1 (\<lambda>b. (Ok (), set_insurance b e1)))
         (\<lambda>_ e1. dust_moved i e e1)"
        unfolding okP_sval okR_ok_or fit_Some okP_basic n unfolding e1 using dust_effect[OF g i] by blast
    qed
    then show ?thesis using True by simp
  next
    case False
    then show ?thesis using dust_none[OF g i] by simp
  qed
  then have "okP (sthen (if capital ?a > 0 then
              sthen (set_capital i 0 e) (\<lambda>_ e1.
              sval (ok_or Overflow (fit_u128 (ins_bal e1 + capital ?a))) e1 (\<lambda>b. (Ok (), set_insurance b e1)))
            else (Ok (), e)) (\<lambda>_ e. (Ok (), forgive_debt i e))) ?P"
  proof (rule okP_then)
    fix x e1 assume "dust_moved i e e1"
    then have l: "lstage i e e1" by (simp add: dust_moved_def)
    have "lstage i e1 (forgive_debt i e1)"
      by (rule forgive_lstage[OF lstage_D(1)[OF l]]) (use i stage_D(5)[OF lstage_D(2)[OF l]] in simp)
    then show "okP (Ok (), forgive_debt i e1) ?P" using lstage_trans[OF l] i by simp
  qed
  then show ?thesis using i by (simp add: sweep_dust_def okP_sacct Let_def)
qed

text \<open>The scan works on used dust accounts only, and at most on its budget of them.\<close>

definition gc_swept :: "nat list \<Rightarrow> engine \<Rightarrow> engine \<Rightarrow> bool" where
  "gc_swept xs e e' =
     (stage (set xs) e e' \<and> mkt_fields e' = mkt_fields e \<and> length xs \<le> GC_CLOSE_BUDGET
      \<and> (\<forall>j \<in> set xs. is_used e j \<and> is_dust (accounts e ! j) e))"

lemma is_dust_params: "params e' = params e \<Longrightarrow> is_dust a e' = is_dust a e"
  by (simp add: is_dust_def)

lemma gc_scan_spec:
  assumes "gc_swept xs e0 e"
  shows "okP (gc_scan os start xs scanned e) (\<lambda>(ys, n) e'. gc_swept ys e0 e')"
  using assms
proof (induction os arbitrary: xs scanned e)
  case Nil
  then show ?case by simp
next
  case (Cons off os)
  let ?i = "(start + off) AND (MAX_ACCOUNTS e - 1)"
  have st: "stage (set xs) e0 e" using Cons.prems by (simp add: gc_swept_def)
  note S = stage_D[OF st]
  let ?P = "\<lambda>(ys, n :: nat) e'. gc_swept ys e0 e'"
  have stop: "okP (Ok (xs, scanned), e) ?P" using Cons.prems by simp
  have skip: "okP (gc_scan os start xs (off + 1) e) ?P" by (rule Cons.IH[OF Cons.prems])
  have go: "okP (sthen (sweep_dust ?i e) (\<lambda>_ e. gc_scan os start (xs @ [?i]) (off + 1) e)) ?P"
    if n: "\<not> length xs \<ge> GC_CLOSE_BUDGET" and u: "is_used e ?i" and d: "is_dust (accounts e ! ?i) e"
  proof (rule okP_then[OF sweep_dust_spec[OF S(1)]], elim conjE)
    fix u e1 assume l: "lstage ?i e e1"
    have mk: "mkt_fields e1 = mkt_fields e0" using l Cons.prems by (simp add: lstage_def gc_swept_def)
    have sub: "set xs \<subseteq> set (xs @ [?i])" "{?i} \<subseteq> set (xs @ [?i])" by auto
    have st1: "stage (set (xs @ [?i])) e0 e1"
      by (rule stage_trans[OF stage_mono[OF st sub(1)] stage_mono[OF lstage_D(2)[OF l] sub(2)]])
    have old: "\<forall>j \<in> set xs. is_used e0 j \<and> is_dust (accounts e0 ! j) e0"
      using Cons.prems unfolding gc_swept_def by blast
    have ui: "is_used e0 ?i" using u S(6) by blast
    have "is_dust (accounts e0 ! ?i) e0"
    proof (cases "?i \<in> set xs")
      case True
      then show ?thesis using old by blast
    next
      case False
      then show ?thesis using d S(8)[OF False] is_dust_params[OF S(3)] by metis
    qed
    then have new: "\<forall>j \<in> set (xs @ [?i]). is_used e0 j \<and> is_dust (accounts e0 ! j) e0" using ui old by simp
    have "length (xs @ [?i]) \<le> GC_CLOSE_BUDGET" using n by simp
    then have "gc_swept (xs @ [?i]) e0 e1" unfolding gc_swept_def using st1 mk new by blast
    then show "okP (gc_scan os start (xs @ [?i]) (off + 1) e1) ?P" by (rule Cons.IH)
  qed
  show ?case
    unfolding gc_scan.simps Let_def okP_if using stop skip go by blast
qed

text \<open>Freeing a list of slots.\<close>

lemma free_all_spec:
  assumes "good e" "slab_ok e"
  shows "okP (sfor xs free_slot e) (\<lambda>_ e'. good e' \<and> slab_ok e' \<and> used_set e' = used_set e - set xs
     \<and> vault e' = vault e \<and> ins_bal e' = ins_bal e \<and> c_tot e' = c_tot e \<and> balanced e' = balanced e
     \<and> params e' = params e \<and> market_mode e' = market_mode e
     \<and> (\<forall>j. j \<notin> set xs \<longrightarrow> accounts e' ! j = accounts e ! j))"
  using assms
proof (induction xs arbitrary: e)
  case Nil
  then show ?case by simp
next
  case (Cons x xs)
  show ?case
    unfolding sfor.simps okP_sthen
  proof (rule okP_I)
    fix u e1 assume f: "free_slot x e = (Ok u, e1)"
    note F = free_slot_Ok[OF f]
    have g1: "good e1" using freed_good[OF Cons.prems(1) F(1,3)] F(4) by simp
    have s1: "slab_ok e1" using freed_ok[OF Cons.prems(2) F(1,2)] F(4) by simp
    have sh: "slab_shape e" using Cons.prems(2) by (simp add: slab_ok_def)
    have us: "used_set e1 = used_set e - {x}"
      using is_used_freed[OF sh F(1)] by (auto simp: used_set_def F(4))
    have fl: "vault e1 = vault e" "ins_bal e1 = ins_bal e" "c_tot e1 = c_tot e" "balanced e1 = balanced e"
      "params e1 = params e" "market_mode e1 = market_mode e" "\<And>j. j \<noteq> x \<Longrightarrow> accounts e1 ! j = accounts e ! j"
      by (simp_all add: F(4) freed_fields)
    show "okP (sfor xs free_slot e1) (\<lambda>_ e'. good e' \<and> slab_ok e' \<and> used_set e' = used_set e - set (x # xs)
     \<and> vault e' = vault e \<and> ins_bal e' = ins_bal e \<and> c_tot e' = c_tot e \<and> balanced e' = balanced e
     \<and> params e' = params e \<and> market_mode e' = market_mode e
     \<and> (\<forall>j. j \<notin> set (x # xs) \<longrightarrow> accounts e' ! j = accounts e ! j))"
      by (rule okP_mono[OF Cons.IH[OF g1 s1]]) (use us fl in auto)
  qed
qed

text \<open>
  Garbage collection keeps the invariant and the vault, frees only flat dust accounts, at most its
  budget of them, and leaves every surviving account as it was.
\<close>

theorem gc_spec:
  assumes v: "inv e"
  shows "okP (garbage_collect_dust e) (\<lambda>n e'. inv e' \<and> vault e' = vault e
     \<and> used_set e' \<subseteq> used_set e \<and> n \<le> GC_CLOSE_BUDGET
     \<and> (\<forall>j \<in> used_set e'. accounts e' ! j = accounts e ! j)
     \<and> (\<forall>j \<in> used_set e - used_set e'. is_dust (accounts e ! j) e))"
    (is "okP _ ?P")
proof -
  define P where "P = ?P"
  note I = inv_D[OF v]
  have start: "gc_swept [] e e" using stage_refl[OF I(2)] by (simp add: gc_swept_def)
  have "okP (garbage_collect_dust e) P"
    unfolding garbage_collect_dust_def Let_def
  proof (rule okP_then[OF gc_scan_spec[OF start]])
    fix p :: "nat list \<times> nat" and e1
    obtain xs n where p: "p = (xs, n)" by (cases p)
    let ?cur = "(gc_cursor e + n) AND (MAX_ACCOUNTS e1 - 1)"
    let ?e1 = "e1\<lparr> gc_cursor := ?cur \<rparr>"
    assume "(case p of (ys, n) \<Rightarrow> \<lambda>e'. gc_swept ys e e') e1"
    then have sw: "gc_swept xs e e1" unfolding p prod.case .
    have st: "stage (set xs) e e1" using sw by (simp add: gc_swept_def)
    note S = stage_D[OF st]
    have "stage (set xs) e1 ?e1"
    proof (rule outer_stage[OF _ S(1)])
      show "outer e1 ?e1" by (simp add: outer_def slab_fields_def)
      show "market_ok ?e1" using good_D(3)[OF S(1)] by (simp add: market_ok_def)
      show "0 \<le> ins_bal ?e1" "ins_bal ?e1 \<le> ins_bal e1" using good_D(4)[OF S(1)] by (simp_all add: in_u128_def)
    qed
    then have st1: "stage (set xs) e ?e1" by (rule stage_trans[OF st])
    note T = stage_D[OF st1]
    have ok: "slab_ok ?e1" using stage_slab[OF st1 I(1)] sw by (simp add: gc_swept_def)
    have us: "used_set ?e1 = used_set e" by (rule stage_used_set[OF st1])
    have bal: "balanced ?e1" using sw I(4) mkt_fields_reads(2)[of e1 e Long] mkt_fields_reads(2)[of e1 e Short]
      by (simp add: balanced_def gc_swept_def)
    show "okP ((case p of (to_free, scanned) \<Rightarrow> \<lambda>e'.
        sthen (sfor to_free free_slot (e'\<lparr> gc_cursor := (gc_cursor e + scanned) AND (MAX_ACCOUNTS e' - 1) \<rparr>)) (\<lambda>_ e.
        sthen (sweep_empty_market_surplus_to_insurance e) (\<lambda>_ e. (Ok (length to_free), e)))) e1) P"
      unfolding p prod.case
    proof (rule okP_then[OF free_all_spec[OF T(1) ok]], elim conjE)
      fix u e2 assume g2: "good e2" and s2: "slab_ok e2" and u2: "used_set e2 = used_set ?e1 - set xs"
        and f2: "vault e2 = vault ?e1" "ins_bal e2 = ins_bal ?e1" "c_tot e2 = c_tot ?e1" "balanced e2 = balanced ?e1"
        and a2: "\<forall>j. j \<notin> set xs \<longrightarrow> accounts e2 ! j = accounts ?e1 ! j"
      show "okP (sthen (sweep_empty_market_surplus_to_insurance e2) (\<lambda>_ e. (Ok (length xs), e))) P"
      proof (rule okP_then[OF sweep_market_spec[OF g2]], elim conjE)
        fix w e3 assume e3: "e3 = set_insurance (ins_bal e3) e2"
          and b: "ins_bal e3 = ins_bal e2 \<or> num_used_accounts e2 = 0 \<and> ins_bal e3 = vault e2 \<and> c_tot e2 = 0 \<and> pnl_pos_tot e2 = 0"
        have n3: "in_u128 (ins_bal e3)" using b good_D(4,9)[OF g2] by auto
        have g3: "good e3" using set_insurance_good[OF g2 n3] e3 by simp
        note F = set_insurance_fields[of "ins_bal e3" e2, folded e3]
        have c3: "c_tot e3 = c_tot e2" using e3 by (metis set_insurance_inv(5))
        have so: "solvent e3" using T(7)[OF I(3)] b f2 F(2) c3 by (auto simp: solvent_def)
        have iv: "inv e3" using g3 s2 F(7,8) so f2(4) bal by (simp add: inv_def)
        have u3: "used_set e3 = used_set e - set xs" using u2 us F(4) by simp
        have a3: "accounts e3 ! j = accounts e ! j" if "j \<notin> set xs" for j
          using that a2 T(8)[of j] F(1) by simp
        show "okP (Ok (length xs), e3) P"
          using iv u3 a3 F(2) f2(1) T(2) sw by (auto simp: P_def gc_swept_def)
      qed
    qed
  qed
  then show ?thesis by (simp only: P_def)
qed

end
