(* ===== verification/Resolve.thy ===== *)
theory Resolve
  imports Admin
begin

text \<open>
  The end of a market in \<open>src/src/percolator.rs\<close>: \<open>resolve_market_not_atomic\<close>, the reconciliation of
  the accounts (\<open>reconcile_resolved_not_atomic\<close>), and the payouts
  (\<open>close_resolved_terminal_not_atomic\<close>, \<open>force_close_resolved_not_atomic\<close>).
\<close>

section \<open>Resolving the market\<close>

definition resolve_checks :: "int \<Rightarrow> int \<Rightarrow> int \<Rightarrow> engine \<Rightarrow> unit outcome" where
  "resolve_checks resolved live_oracle now_slot e =
     (if market_mode e \<noteq> Live then Err Unauthorized
      else if now_slot < current_slot e then Err Overflow
      else if now_slot < last_market_slot e then Err Overflow
      else if resolved = 0 \<or> resolved > MAX_ORACLE_PRICE then Err Overflow
      else if live_oracle = 0 \<or> live_oracle > MAX_ORACLE_PRICE then Err Overflow
      else Ok ())"

text \<open>The two branches, with the flag \<open>used_degenerate\<close> they return.\<close>

definition resolve_accrue :: "resolve_mode \<Rightarrow> int \<Rightarrow> int \<Rightarrow> int \<Rightarrow> engine \<Rightarrow> bool step" where
  "resolve_accrue mode live_oracle now_slot rate e =
     (case mode of
        Degenerate \<Rightarrow>
          if live_oracle \<noteq> last_oracle_price e then (Err Overflow, e)
          else if rate \<noteq> 0 then (Err Overflow, e)
          else (Ok True, e\<lparr> current_slot := now_slot, last_market_slot := now_slot \<rparr>)
      | Ordinary \<Rightarrow> sthen (accrue_market_to now_slot live_oracle rate e) (\<lambda>_ e. (Ok False, e)))"

definition resolve_band :: "int \<Rightarrow> engine \<Rightarrow> unit outcome" where
  "resolve_band resolved e =
     (let p_last = last_oracle_price e;
          dev_bps = resolve_price_deviation_bps (params e);
          diff_abs = \<bar>resolved - p_last\<bar> in
      rthen (ok_or Overflow (fit_u128 (diff_abs * 10000))) (\<lambda>lhs.
      rthen (ok_or Overflow (fit_u128 (dev_bps * p_last))) (\<lambda>rhs.
      if lhs > rhs then Err Overflow else Ok ())))"

definition terminal_delta_long :: "int \<Rightarrow> engine \<Rightarrow> int outcome" where
  "terminal_delta_long price_diff e =
     (if side_mode_long e = ResetPending then Ok 0
      else checked_u128_mul_i128 (adl_mult_long e) price_diff)"

definition terminal_delta_short :: "int \<Rightarrow> engine \<Rightarrow> int outcome" where
  "terminal_delta_short price_diff e =
     (if side_mode_short e = ResetPending then Ok 0
      else
        rthen (ok_or Overflow (fit_i128 (- price_diff))) (\<lambda>neg_price_diff.
        checked_u128_mul_i128 (adl_mult_short e) neg_price_diff))"

definition resolve_commit :: "int \<Rightarrow> int \<Rightarrow> int \<Rightarrow> int \<Rightarrow> int \<Rightarrow> engine \<Rightarrow> engine" where
  "resolve_commit resolved live_oracle now_slot td_long td_short e =
     e\<lparr> current_slot := now_slot, market_mode := Resolved, resolved_price := resolved,
        resolved_live_price := live_oracle, resolved_slot := now_slot,
        resolved_k_long_terminal_delta := td_long, resolved_k_short_terminal_delta := td_short,
        resolved_payout_h_num := 0, resolved_payout_h_den := 0, resolved_payout_ready := 0,
        pnl_matured_pos_tot := pnl_pos_tot e, oi_eff_long_q := 0, oi_eff_short_q := 0 \<rparr>"

definition drain_side :: "side \<Rightarrow> engine \<Rightarrow> unit step" where
  "drain_side s e =
     (if get_side_mode s e \<noteq> ResetPending then begin_full_drain_reset s e else (Ok (), e))"

definition reopen_side :: "side \<Rightarrow> engine \<Rightarrow> unit step" where
  "reopen_side s e =
     (if get_side_mode s e = ResetPending \<and> get_stale_count s e = 0 \<and> get_stored_pos_count s e = 0
      then finalize_side_reset s e else (Ok (), e))"

definition resolve_market_not_atomic ::
  "resolve_mode \<Rightarrow> int \<Rightarrow> int \<Rightarrow> int \<Rightarrow> int \<Rightarrow> engine \<Rightarrow> unit step"
where
  "resolve_market_not_atomic mode resolved live_oracle now_slot rate e =
     sval (resolve_checks resolved live_oracle now_slot e) e (\<lambda>_.
     sthen (resolve_accrue mode live_oracle now_slot rate e) (\<lambda>used_degenerate e.
     sval (if \<not> used_degenerate then resolve_band resolved e else Ok ()) e (\<lambda>_.
     let price_diff = resolved - live_oracle in
     sval (terminal_delta_long price_diff e) e (\<lambda>td_long.
     sval (terminal_delta_short price_diff e) e (\<lambda>td_short.
     let e = resolve_commit resolved live_oracle now_slot td_long td_short e in
     sthen (drain_side Long e) (\<lambda>_ e.
     sthen (drain_side Short e) (\<lambda>_ e.
     sthen (reopen_side Long e) (\<lambda>_ e.
     sthen (reopen_side Short e) (\<lambda>_ e.
     if oi_eff_long_q e \<noteq> 0 \<or> oi_eff_short_q e \<noteq> 0 then (Err CorruptState, e)
     else sval (assert_public_postconditions e) e (\<lambda>_. (Ok (), e)))))))))))"

section \<open>Reconciling an account\<close>

text \<open>The settlement of an open position against the terminal indices.\<close>

definition resolved_pnl_delta :: "account \<Rightarrow> side \<Rightarrow> engine \<Rightarrow> int outcome" where
  "resolved_pnl_delta a s e =
     (let resolved_k_td = (case s of Long \<Rightarrow> resolved_k_long_terminal_delta e
                                   | Short \<Rightarrow> resolved_k_short_terminal_delta e) in
      rthen (ok_or Overflow (fit_u128 (adl_a_basis a * POS_SCALE))) (\<lambda>den.
      if adl_epoch_snap a = get_epoch_side s e then Err CorruptState
      else if fit_u64 (adl_epoch_snap a + 1) \<noteq> Some (get_epoch_side s e) then Err CorruptState
      else if get_stale_count s e = 0 then Err CorruptState
      else
        rthen (ok_or Overflow (fit_i256 (get_k_epoch_start s e + resolved_k_td))) (\<lambda>k_terminal_wide.
        compute_kf_pnl_delta_wide \<bar>position_basis_q a\<bar> (adl_k_snap a) k_terminal_wide (f_snap a)
          (get_f_epoch_start s e) den)))"

definition reconcile_position :: "nat \<Rightarrow> engine \<Rightarrow> unit step" where
  "reconcile_position i e =
     sacct e i (\<lambda>a.
     if position_basis_q a = 0 then (Ok (), e)
     else if adl_a_basis a = 0 then (Err CorruptState, e)
     else
       sval (expect (side_of_i128 (position_basis_q a))) e (\<lambda>s.
       sval (resolved_pnl_delta a s e) e (\<lambda>pnl_delta.
       sval (checked_pnl_add (pnl a) pnl_delta) e (\<lambda>new_pnl.
       sthen (if pnl_delta \<noteq> 0 then
                sthen (set_pnl i new_pnl e) (\<lambda>_ e. (Ok (), e\<lparr> pnl_matured_pos_tot := pnl_pos_tot e \<rparr>))
              else (Ok (), e)) (\<lambda>_ e.
       sthen (if adl_epoch_snap a \<noteq> get_epoch_side s e then
                sval (ok_or CorruptState (fit_u64 (get_stale_count s e - 1))) e (\<lambda>x.
                (Ok (), set_stale_count s x e))
              else (Ok (), e)) (\<lambda>_ e.
       sthen (set_position_basis_q i 0 e) (\<lambda>_ e.
       (Ok (), upd i clear_snaps e))))))))"

definition reconcile_resolved_not_atomic :: "nat \<Rightarrow> engine \<Rightarrow> unit step" where
  "reconcile_resolved_not_atomic idx e =
     (if market_mode e \<noteq> Resolved then (Err Unauthorized, e)
      else if idx \<ge> MAX_ACCOUNTS e \<or> \<not> is_used e idx then (Err AccountNotFound, e)
      else
        let e = e\<lparr> current_slot := resolved_slot e \<rparr> in
        sthen (prepare_account_for_resolved_touch idx e) (\<lambda>_ e.
        sthen (reconcile_position idx e) (\<lambda>_ e.
        sthen (settle_losses idx e) (\<lambda>_ e.
        sthen (resolve_flat_negative idx e) (\<lambda>_ e.
        sval (assert_public_postconditions e) e (\<lambda>_. (Ok (), e)))))))"

section \<open>Payouts\<close>

definition is_terminal_ready :: "engine \<Rightarrow> bool" where
  "is_terminal_ready e =
     (if resolved_payout_ready e \<noteq> 0 then True
      else if stored_pos_count_long e \<noteq> 0 \<or> stored_pos_count_short e \<noteq> 0 then False
      else if stale_account_count_long e \<noteq> 0 \<or> stale_account_count_short e \<noteq> 0 then False
      else neg_pnl_account_count e = 0)"

text \<open>The haircut snapshot, taken once, by the first payout.\<close>

definition payout_snapshot :: "engine \<Rightarrow> engine" where
  "payout_snapshot e =
     (if resolved_payout_ready e = 0 then
        let e = e\<lparr> pnl_matured_pos_tot := pnl_pos_tot e \<rparr>;
            senior = (case fit_u128 (c_tot e + ins_bal e) of Some s \<Rightarrow> s | None \<Rightarrow> U128_MAX);
            residual = (if vault e \<ge> senior then vault e - senior else 0);
            h_den = pnl_matured_pos_tot e;
            h_num = (if h_den = 0 then 0 else min residual h_den) in
        e\<lparr> resolved_payout_h_num := h_num, resolved_payout_h_den := h_den, resolved_payout_ready := 1 \<rparr>
      else e)"

definition terminal_payout :: "nat \<Rightarrow> engine \<Rightarrow> unit step" where
  "terminal_payout i e =
     sacct e i (\<lambda>a.
     if pnl a > 0 then
       if \<not> is_terminal_ready e then (Err Unauthorized, e)
       else
         let e = payout_snapshot e in
         if reserved_pnl a \<noteq> 0 then (Err CorruptState, e)
         else
           sval (released_pos i e) e (\<lambda>released.
           if released > 0 then
             if resolved_payout_h_den e = 0 then (Err CorruptState, e)
             else
               sval (wide_mul_div_floor_u128 released (resolved_payout_h_num e) (resolved_payout_h_den e)) e (\<lambda>y.
               sthen (set_pnl_with_reserve i 0 NoPositiveIncreaseAllowed None e) (\<lambda>_ e.
               sval (ok_or Overflow (fit_u128 (capital (accounts e ! i) + y))) e (\<lambda>new_cap.
               set_capital i new_cap e)))
           else (Ok (), e))
     else (Ok (), e))"

definition close_resolved_terminal_not_atomic :: "nat \<Rightarrow> engine \<Rightarrow> int step" where
  "close_resolved_terminal_not_atomic idx e =
     (if market_mode e \<noteq> Resolved then (Err Unauthorized, e)
      else if idx \<ge> MAX_ACCOUNTS e \<or> \<not> is_used e idx then (Err AccountNotFound, e)
      else
        sacct e idx (\<lambda>a.
        if position_basis_q a \<noteq> 0 then (Err Undercollateralized, e)
        else if pnl a < 0 then (Err Undercollateralized, e)
        else
          sthen (prepare_account_for_resolved_touch idx e) (\<lambda>_ e.
          sthen (terminal_payout idx e) (\<lambda>_ e.
          sthen (fee_debt_sweep idx e) (\<lambda>_ e.
          let e = forgive_debt idx e in
          sacct e idx (\<lambda>a.
          if capital a > vault e then (Err InsufficientBalance, e)
          else
            let e = e\<lparr> vault := vault e - capital a \<rparr> in
            sthen (set_capital idx 0 e) (\<lambda>_ e.
            sthen (free_and_sweep idx e) (\<lambda>_ e. (Ok (capital a), e)))))))))"

definition force_close_resolved_not_atomic :: "nat \<Rightarrow> engine \<Rightarrow> resolved_close_result step" where
  "force_close_resolved_not_atomic idx e =
     sthen (reconcile_resolved_not_atomic idx e) (\<lambda>_ e.
     let e = maybe_finalize_ready_reset_sides e in
     sacct e idx (\<lambda>a.
     if pnl a > 0 \<and> \<not> is_terminal_ready e then (Ok ProgressOnly, e)
     else
       sthen (close_resolved_terminal_not_atomic idx e) (\<lambda>cap e. (Ok (Closed cap), e))))"


section \<open>What resolving leaves\<close>

text \<open>The states between the steps, in closed form.\<close>

definition drained :: "side \<Rightarrow> engine \<Rightarrow> engine" where
  "drained s e = (if get_side_mode s e \<noteq> ResetPending then reset_effect s e else e)"

definition reopened :: "side \<Rightarrow> engine \<Rightarrow> engine" where
  "reopened s e =
     (if get_side_mode s e = ResetPending \<and> get_stale_count s e = 0 \<and> get_stored_pos_count s e = 0
      then set_side_mode s Normal e else e)"

definition terminal_mark :: "side \<Rightarrow> int \<Rightarrow> engine \<Rightarrow> int" where
  "terminal_mark s price_diff e =
     (if get_side_mode s e = ResetPending then 0
      else case s of Long \<Rightarrow> get_a_side s e * price_diff | Short \<Rightarrow> - (get_a_side s e * price_diff))"

lemma drain_side_spec: "okP (drain_side s e) (\<lambda>_ e'. e' = drained s e)"
  unfolding drain_side_def okP_if by (auto simp: drained_def intro!: okP_mono[OF begin_reset_spec])

lemma reopen_side_spec: "okP (reopen_side s e) (\<lambda>_ e'. e' = reopened s e)"
  by (simp add: reopen_side_def reopened_def finalize_side_reset_def okP_if)

lemma okP_then_eq: "okP m (\<lambda>_ e'. e' = t) \<Longrightarrow> (\<And>x. okP (k x t) P) \<Longrightarrow> okP (sthen m k) P"
  by (auto simp: okP_sthen elim!: okP_mono)

lemma mul_i128_value: "okR (checked_u128_mul_i128 a b) (\<lambda>v. v = a * b)"
  by (auto simp: checked_u128_mul_i128_def okR_rthen okR_ok_or split: option.splits)

lemma terminal_delta_okR:
  "okR (terminal_delta_long d e) (\<lambda>v. v = terminal_mark Long d e)"
  "okR (terminal_delta_short d e) (\<lambda>v. v = terminal_mark Short d e)"
  unfolding terminal_delta_long_def terminal_delta_short_def okR_if okR_rthen okR_ok_or fit_Some
  by (auto simp: terminal_mark_def intro!: okR_mono[OF mul_i128_value])

lemma drained_stage:
  assumes "good e"
  shows "good (drained s e)" "outer e (drained s e)" "ins_bal (drained s e) = ins_bal e"
    "get_oi_eff t (drained s e) = get_oi_eff t e"
proof -
  have "outer e (reset_effect s e)" "ins_bal (reset_effect s e) = ins_bal e"
    by (cases s; simp add: reset_effect_def outer_def slab_fields_def)+
  then show "good (drained s e)" "outer e (drained s e)" "ins_bal (drained s e) = ins_bal e"
    "get_oi_eff t (drained s e) = get_oi_eff t e"
    using assms stage_D(1)[OF reset_effect_stage(1)[OF assms, of s]] reset_effect_stage(3)[OF assms]
    by (simp_all add: drained_def)
qed

lemma reopened_stage:
  assumes "good e"
  shows "good (reopened s e)" "outer e (reopened s e)" "ins_bal (reopened s e) = ins_bal e"
    "get_oi_eff t (reopened s e) = get_oi_eff t e"
proof -
  have "good (set_side_mode s Normal e)"
    using assms outer_inv[OF outer_upds(5)[of e s Normal]] market_ok_writes(4)[OF good_D(3)[OF assms]]
    by (simp add: good_def) (cases s; simp)
  then show "good (reopened s e)" "outer e (reopened s e)" "ins_bal (reopened s e) = ins_bal e"
    "get_oi_eff t (reopened s e) = get_oi_eff t e"
    using assms by (simp_all add: reopened_def)
qed

lemma resolve_commit_good:
  assumes g: "good e" and t: "in_u64 now" "last_market_slot e \<le> now"
  shows "good (resolve_commit r l now x y e)"
proof -
  have "pnl_inv (resolve_commit r l now x y e)" "fees_ok (resolve_commit r l now x y e)"
    using good_D(1,2,7)[OF g]
    by (simp_all add: pnl_inv_def agg_def accts_ok_def fees_ok_def resolve_commit_def)
  moreover have "market_ok (resolve_commit r l now x y e)"
    using good_D(3)[OF g] t by (simp add: market_ok_def resolve_commit_def in_u128_def bounds)
  ultimately show ?thesis
    using good_D(4,5,6,9)[OF g] by (simp add: good_def resolve_commit_def)
qed


text \<open>
  The invariant with the resolved mode: the clock stands at the resolution slot, and once the payout
  snapshot is taken every account is flat without loss, and capital, insurance and the haircut claims
  of all accounts together are covered by the vault.
\<close>

definition payable :: "engine \<Rightarrow> bool" where
  "payable e =
     (0 \<le> resolved_payout_h_num e \<and> resolved_payout_h_num e \<le> resolved_payout_h_den e
      \<and> 0 < resolved_payout_h_den e
      \<and> (\<forall>a \<in> set (accounts e). 0 \<le> pnl a \<and> position_basis_q a = 0)
      \<and> c_tot e + ins_bal e
          + tot (\<lambda>a. pnl a * resolved_payout_h_num e div resolved_payout_h_den e) (accounts e) \<le> vault e)"

definition resolved_ok :: "engine \<Rightarrow> bool" where
  "resolved_ok e =
     (market_mode e = Resolved \<longrightarrow>
        current_slot e = resolved_slot e \<and> (resolved_payout_ready e \<noteq> 0 \<longrightarrow> payable e))"

definition rinv :: "engine \<Rightarrow> bool" where
  "rinv e = (inv e \<and> resolved_ok e)"

lemma rinv_D:
  assumes "rinv e"
  shows "inv e" "good e" "slab_ok e"
    "market_mode e = Resolved \<Longrightarrow> current_slot e = resolved_slot e"
    "market_mode e = Resolved \<Longrightarrow> resolved_payout_ready e \<noteq> 0 \<Longrightarrow> payable e"
  using assms inv_D by (simp_all add: rinv_def resolved_ok_def)

lemma live_rinv: "inv e \<Longrightarrow> market_mode e = Live \<Longrightarrow> rinv e"
  by (simp add: rinv_def resolved_ok_def)

definition accrual_kept :: "engine \<Rightarrow> engine \<Rightarrow> bool" where
  "accrual_kept e e' =
     (outer e e' \<and> ins_bal e' = ins_bal e
      \<and> (\<forall>s. get_side_mode s e' = get_side_mode s e \<and> get_a_side s e' = get_a_side s e
             \<and> get_epoch_side s e' = get_epoch_side s e \<and> get_stale_count s e' = get_stale_count s e))"

lemma side_all: "(\<forall>s. P s) = (P Long \<and> P Short)"
  by (metis side.exhaust)

lemma resolve_accrue_spec:
  assumes g: "good e" and t: "in_u64 now" "0 \<le> px" "current_slot e \<le> now" "last_market_slot e \<le> now"
  shows "okP (resolve_accrue mode px now rate e) (\<lambda>d e'. good e' \<and> accrual_kept e e'
     \<and> last_market_slot e' \<le> now \<and> d = (mode = Degenerate) \<and> last_oracle_price e' = px
     \<and> (mode = Degenerate \<longrightarrow> px = last_oracle_price e \<and> rate = 0))"
proof (cases mode)
  case Ordinary
  show ?thesis
    unfolding resolve_accrue_def Ordinary resolve_mode.case
  proof (rule okP_then[OF okP_conj[OF accrue_stage[OF g t(1,2)] accrue_spec[OF market_ok_typed[OF good_D(3)[OF g]] t(1,2)]]], elim conjE)
    fix u e1 assume s: "stage {} e e1" and e1: "e1 = accrued now px rate e"
    have "accrual_kept e e1" "last_market_slot e1 = now" "last_oracle_price e1 = px"
      by (simp_all add: e1 accrual_kept_def side_all accrued_def Let_def outer_def slab_fields_def)
    then show "okP (Ok False, e1) (\<lambda>d e'. good e' \<and> accrual_kept e e' \<and> last_market_slot e' \<le> now
       \<and> d = (Ordinary = Degenerate) \<and> last_oracle_price e' = px
       \<and> (Ordinary = Degenerate \<longrightarrow> px = last_oracle_price e \<and> rate = 0))"
      using stage_D(1)[OF s] by simp
  qed
next
  case Degenerate
  let ?e = "e\<lparr> current_slot := now, last_market_slot := now \<rparr>"
  have k: "accrual_kept e ?e" by (simp add: accrual_kept_def side_all outer_def slab_fields_def)
  have "market_ok ?e" using good_D(3)[OF g] t by (simp add: market_ok_def in_u64_def)
  then have "good ?e"
    using k g outer_inv[of e ?e] by (simp add: accrual_kept_def good_def)
  then show ?thesis using k by (simp add: resolve_accrue_def Degenerate okP_if)
qed

text \<open>
  Resolving: money and accounts are untouched, the price is within the band of the ordinary branch
  and the branch of trusted inputs demands them, both sides are drained, and every open position of
  a side that was not yet draining is stale by exactly one epoch.
\<close>

definition market_resolved :: "resolve_mode \<Rightarrow> int \<Rightarrow> int \<Rightarrow> int \<Rightarrow> engine \<Rightarrow> engine \<Rightarrow> bool" where
  "market_resolved mode res px now e e' =
     (market_mode e' = Resolved \<and> resolved_price e' = res \<and> resolved_live_price e' = px
      \<and> resolved_slot e' = now \<and> resolved_payout_ready e' = 0
      \<and> accounts e' = accounts e \<and> vault e' = vault e \<and> c_tot e' = c_tot e \<and> ins_bal e' = ins_bal e
      \<and> slab_fields e' = slab_fields e \<and> params e' = params e
      \<and> oi_eff_long_q e' = 0 \<and> oi_eff_short_q e' = 0
      \<and> resolved_k_long_terminal_delta e' = terminal_mark Long (res - px) e
      \<and> resolved_k_short_terminal_delta e' = terminal_mark Short (res - px) e
      \<and> (\<forall>s. get_side_mode s e \<noteq> ResetPending \<longrightarrow>
            get_epoch_side s e' = get_epoch_side s e + 1
            \<and> get_stale_count s e' = get_stored_pos_count s e)
      \<and> (case mode of
           Ordinary \<Rightarrow> \<bar>res - px\<bar> * 10000 \<le> resolve_price_deviation_bps (params e) * px
         | Degenerate \<Rightarrow> px = last_oracle_price e))"

lemma resolve_band_okR:
  "okR (resolve_band r e) (\<lambda>_. \<bar>r - last_oracle_price e\<bar> * 10000 \<le> resolve_price_deviation_bps (params e) * last_oracle_price e)"
  by (auto simp: resolve_band_def Let_def okR_rthen okR_ok_or okR_if)

lemma drained_reads:
  "get_epoch_side s (drained t e) = (if s = t \<and> get_side_mode t e \<noteq> ResetPending then get_epoch_side s e + 1 else get_epoch_side s e)"
  "get_stale_count s (drained t e) = (if s = t \<and> get_side_mode t e \<noteq> ResetPending then get_stored_pos_count s e else get_stale_count s e)"
  "get_side_mode s (drained t e) = (if s = t then ResetPending else get_side_mode s e)"
  "get_stored_pos_count s (drained t e) = get_stored_pos_count s e"
  "get_epoch_side s (reopened t e) = get_epoch_side s e"
  "get_stale_count s (reopened t e) = get_stale_count s e"
  by (cases s; cases t; simp add: drained_def reset_effect_def reopened_def)+


definition resolution_fields :: "engine \<Rightarrow> (int \<times> int \<times> int \<times> int) \<times> int \<times> int \<times> int \<times> int" where
  "resolution_fields e =
     ((resolved_price e, resolved_live_price e, resolved_slot e, current_slot e), resolved_payout_ready e,
      resolved_k_long_terminal_delta e, resolved_k_short_terminal_delta e, last_market_slot e)"

text \<open>The terms of the settlement, fixed by the resolution.\<close>

definition settlement_terms :: "engine \<Rightarrow> int \<times> int \<times> int \<times> int \<times> int" where
  "settlement_terms e = (resolved_price e, resolved_live_price e, resolved_slot e,
     resolved_k_long_terminal_delta e, resolved_k_short_terminal_delta e)"

lemma resolution_fields_kept:
  "resolution_fields (drained s e) = resolution_fields e"
  "resolution_fields (reopened s e) = resolution_fields e"
  by (cases s; simp add: resolution_fields_def drained_def reset_effect_def reopened_def)+

definition close_sides :: "engine \<Rightarrow> engine" where
  "close_sides e = reopened Short (reopened Long (drained Short (drained Long e)))"

lemma close_sides_outer:
  assumes g: "good e"
  shows "good (close_sides e)" "outer e (close_sides e)" "ins_bal (close_sides e) = ins_bal e"
    "get_oi_eff t (close_sides e) = get_oi_eff t e"
proof -
  note A = drained_stage[OF g, where s = Long] note A' = drained_stage[OF A(1), where s = Short]
  note B = reopened_stage[OF A'(1), where s = Long] note B' = reopened_stage[OF B(1), where s = Short]
  show "good (close_sides e)" using B'(1) by (simp add: close_sides_def)
  show "outer e (close_sides e)"
    unfolding close_sides_def
    by (rule outer_trans[OF outer_trans[OF outer_trans[OF A(2) A'(2)] B(2)] B'(2)])
  show "ins_bal (close_sides e) = ins_bal e" "get_oi_eff t (close_sides e) = get_oi_eff t e"
    using A(3) A'(3) B(3) B'(3) by (simp_all add: close_sides_def A(4) A'(4) B(4) B'(4))
qed

lemma close_sides_reads:
  "resolution_fields (close_sides e) = resolution_fields e"
  "get_side_mode s e \<noteq> ResetPending \<Longrightarrow> get_epoch_side s (close_sides e) = get_epoch_side s e + 1"
  "get_side_mode s e \<noteq> ResetPending \<Longrightarrow> get_stale_count s (close_sides e) = get_stored_pos_count s e"
  by (cases s; simp add: close_sides_def resolution_fields_kept drained_reads)+

lemma commit_reads:
  "outer e e1 \<Longrightarrow> accounts (resolve_commit r l now x y e1) = accounts e"
  "outer e e1 \<Longrightarrow> vault (resolve_commit r l now x y e1) = vault e"
  "outer e e1 \<Longrightarrow> c_tot (resolve_commit r l now x y e1) = c_tot e"
  "outer e e1 \<Longrightarrow> slab_fields (resolve_commit r l now x y e1) = slab_fields e"
  "outer e e1 \<Longrightarrow> params (resolve_commit r l now x y e1) = params e"
  "ins_bal (resolve_commit r l now x y e1) = ins_bal e1"
  "market_mode (resolve_commit r l now x y e1) = Resolved"
  "get_oi_eff s (resolve_commit r l now x y e1) = 0"
  "get_side_mode s (resolve_commit r l now x y e1) = get_side_mode s e1"
  "get_epoch_side s (resolve_commit r l now x y e1) = get_epoch_side s e1"
  "get_stale_count s (resolve_commit r l now x y e1) = get_stale_count s e1"
  "outer e e1 \<Longrightarrow> get_stored_pos_count s (resolve_commit r l now x y e1) = get_stored_pos_count s e"
  "resolution_fields (resolve_commit r l now x y e1) = ((r, l, now, now), 0, x, y, last_market_slot e1)"
  by (cases s; simp add: resolve_commit_def outer_def slab_fields_def resolution_fields_def)+

lemma sides_closed:
  assumes v: "inv e" and k: "accrual_kept e e1" and g1: "good e1" and t: "in_u64 now" "last_market_slot e1 \<le> now"
    and e2: "e2 = close_sides (resolve_commit res px now (terminal_mark Long (res - px) e) (terminal_mark Short (res - px) e) e1)"
    and b: "mode = Ordinary \<longrightarrow> \<bar>res - px\<bar> * 10000 \<le> resolve_price_deviation_bps (params e) * px"
      "mode = Degenerate \<longrightarrow> px = last_oracle_price e"
  shows "rinv e2 \<and> market_resolved mode res px now e e2"
proof -
  define c where "c = resolve_commit res px now (terminal_mark Long (res - px) e) (terminal_mark Short (res - px) e) e1"
  note I = inv_D[OF v]
  have K: "outer e e1" "ins_bal e1 = ins_bal e"
    "\<And>s. get_side_mode s e1 = get_side_mode s e" "\<And>s. get_epoch_side s e1 = get_epoch_side s e"
    using k by (simp_all add: accrual_kept_def)
  note C = commit_reads[where r = res and l = px and now = now and ?e1.0 = e1
      and x = "terminal_mark Long (res - px) e" and y = "terminal_mark Short (res - px) e", folded c_def]
  note Ce = C(1-5)[OF K(1)] C(12)[OF K(1)]
  have gc: "good c" unfolding c_def by (rule resolve_commit_good[OF g1 t])
  have e2: "e2 = close_sides c" by (simp add: e2 c_def)
  note O = close_sides_outer[OF gc, folded e2]
  have F: "accounts e2 = accounts e" "vault e2 = vault e" "c_tot e2 = c_tot e" "ins_bal e2 = ins_bal e"
    "slab_fields e2 = slab_fields e" "params e2 = params e" "market_mode e2 = Resolved"
    using O(2,3) Ce C(6,7) K(2) by (simp_all add: outer_def)
  have oi: "oi_eff_long_q e2 = 0" "oi_eff_short_q e2 = 0"
    using O(4)[where t = Long] O(4)[where t = Short] C(8)[of Long] C(8)[of Short] by simp_all
  have R: "resolution_fields e2 = ((res, px, now, now), 0, terminal_mark Long (res - px) e, terminal_mark Short (res - px) e, last_market_slot e1)"
    using close_sides_reads(1)[of c] C(13) by (simp add: e2)
  have S: "get_epoch_side s e2 = get_epoch_side s e + 1 \<and> get_stale_count s e2 = get_stored_pos_count s e"
    if "get_side_mode s e \<noteq> ResetPending" for s
    using that close_sides_reads(2,3)[of s c] C(9,10)[of s] Ce(6)[of s] K(3,4)[of s] by (simp add: e2)
  have "slab_ok e2"
    by (rule slab_fields_ok[of _ e "{}"]) (use F I(1) in simp_all)
  then have "inv e2" using O(1) I(3) oi F by (simp add: inv_def solvent_def balanced_def)
  then have "rinv e2" using R by (simp add: rinv_def resolved_ok_def resolution_fields_def)
  moreover have "market_resolved mode res px now e e2"
    using F oi R S b by (simp add: market_resolved_def resolution_fields_def split: resolve_mode.splits)
  ultimately show ?thesis by blast
qed

theorem resolve_spec:
  assumes v: "inv e" and t: "in_u64 now" "0 \<le> px"
  shows "okP (resolve_market_not_atomic mode res px now rate e) (\<lambda>_ e'. rinv e' \<and> market_mode e = Live
     \<and> market_resolved mode res px now e e')"
    (is "okP _ ?P")
proof -
  define P where "P = ?P"
  note I = inv_D[OF v]
  have tail: "okP (sthen (drain_side Long c) (\<lambda>_ e.
      sthen (drain_side Short e) (\<lambda>_ e.
      sthen (reopen_side Long e) (\<lambda>_ e.
      sthen (reopen_side Short e) (\<lambda>_ e.
      if oi_eff_long_q e \<noteq> 0 \<or> oi_eff_short_q e \<noteq> 0 then (Err CorruptState, e)
      else sval (assert_public_postconditions e) e (\<lambda>_. (Ok (), e))))))) P"
    if "P () (close_sides c)" for c
    using that
    by (simp only: close_sides_def)
      (rule okP_then_eq[OF drain_side_spec], rule okP_then_eq[OF drain_side_spec],
       rule okP_then_eq[OF reopen_side_spec], rule okP_then_eq[OF reopen_side_spec],
       simp add: okP_if okP_sval okR_I)
  have mid: "okP (sval (if \<not> d then resolve_band res e1 else Ok ()) e1 (\<lambda>_.
     sval (terminal_delta_long (res - px) e1) e1 (\<lambda>td_long.
     sval (terminal_delta_short (res - px) e1) e1 (\<lambda>td_short.
     sthen (drain_side Long (resolve_commit res px now td_long td_short e1)) (\<lambda>_ e.
      sthen (drain_side Short e) (\<lambda>_ e.
      sthen (reopen_side Long e) (\<lambda>_ e.
      sthen (reopen_side Short e) (\<lambda>_ e.
      if oi_eff_long_q e \<noteq> 0 \<or> oi_eff_short_q e \<noteq> 0 then (Err CorruptState, e)
      else sval (assert_public_postconditions e) e (\<lambda>_. (Ok (), e)))))))))) P"
    if L: "market_mode e = Live" and g1: "good e1" and k: "accrual_kept e e1" and lm: "last_market_slot e1 \<le> now"
      and d: "d = (mode = Degenerate)" and px: "last_oracle_price e1 = px" and dg: "mode = Degenerate \<longrightarrow> px = last_oracle_price e"
    for d e1
  proof -
    have pe: "params e1 = params e" using k by (simp add: accrual_kept_def outer_def)
    have tm: "terminal_mark s x e1 = terminal_mark s x e" for s x
      using k by (cases s) (simp_all add: terminal_mark_def accrual_kept_def side_all)
    have band: "okR (if \<not> d then resolve_band res e1 else Ok ())
        (\<lambda>_. mode = Ordinary \<longrightarrow> \<bar>res - px\<bar> * 10000 \<le> resolve_price_deviation_bps (params e) * px)"
      using resolve_band_okR[of res e1] by (auto simp: d px pe okR_if elim: okR_mono)
    have fin: "P () (close_sides (resolve_commit res px now (terminal_mark Long (res - px) e) (terminal_mark Short (res - px) e) e1))"
      if "mode = Ordinary \<longrightarrow> \<bar>res - px\<bar> * 10000 \<le> resolve_price_deviation_bps (params e) * px"
      using sides_closed[OF v k g1 t(1) lm refl that dg] L by (simp add: P_def)
    show ?thesis
      unfolding okP_sval
      by (rule okR_mono[OF band], rule okR_mono[OF terminal_delta_okR(1)], rule okR_mono[OF terminal_delta_okR(2)])
        (simp only: tm, rule tail, rule fin)
  qed
  have "okP (resolve_market_not_atomic mode res px now rate e) P"
    unfolding resolve_market_not_atomic_def Let_def okP_sval[of "resolve_checks _ _ _ _"]
  proof (rule okR_I)
    fix x assume "resolve_checks res px now e = Ok x"
    then have c: "market_mode e = Live" "current_slot e \<le> now" "last_market_slot e \<le> now"
      by (auto simp: resolve_checks_def split: if_splits)
    show "okP (sthen (resolve_accrue mode px now rate e) (\<lambda>d e1.
       sval (if \<not> d then resolve_band res e1 else Ok ()) e1 (\<lambda>_.
       sval (terminal_delta_long (res - px) e1) e1 (\<lambda>td_long.
       sval (terminal_delta_short (res - px) e1) e1 (\<lambda>td_short.
       sthen (drain_side Long (resolve_commit res px now td_long td_short e1)) (\<lambda>_ e.
        sthen (drain_side Short e) (\<lambda>_ e.
        sthen (reopen_side Long e) (\<lambda>_ e.
        sthen (reopen_side Short e) (\<lambda>_ e.
        if oi_eff_long_q e \<noteq> 0 \<or> oi_eff_short_q e \<noteq> 0 then (Err CorruptState, e)
        else sval (assert_public_postconditions e) e (\<lambda>_. (Ok (), e))))))))))) P"
      by (rule okP_then[OF resolve_accrue_spec[OF I(2) t c(2,3)]], elim conjE) (rule mid[OF c(1)], (assumption | blast)+)
  qed
  then show ?thesis by (simp only: P_def)
qed


section \<open>What reconciling an account does\<close>

text \<open>
  The open position of an account is settled once against the terminal indices and closed; capital
  and fee credits are not touched.
\<close>

definition position_settled :: "nat \<Rightarrow> engine \<Rightarrow> engine \<Rightarrow> bool" where
  "position_settled i e e' =
     (let a = accounts e ! i; b = accounts e' ! i in
      position_basis_q b = 0 \<and> capital b = capital a \<and> fee_credits b = fee_credits a
      \<and> (if position_basis_q a = 0 then pnl b = pnl a
         else \<exists>s d. side_of_i128 (position_basis_q a) = Some s \<and> resolved_pnl_delta a s e = Ok d
                    \<and> pnl b = pnl a + d))"

lemma matured_id:
  assumes "good e" "market_mode e = Resolved"
  shows "e\<lparr> pnl_matured_pos_tot := pnl_pos_tot e \<rparr> = e"
  using good_D(8)[OF assms(1)] assms(2) by (simp add: agg_def)

lemma cash_good: "cash_step i e e' \<Longrightarrow> good e \<Longrightarrow> good e' \<and> market_mode e' = market_mode e \<and> MAX_ACCOUNTS e' = MAX_ACCOUNTS e"
  using cash_lstage lstage_D(1,4,6) by blast

lemma reconcile_position_spec:
  assumes g: "good e" and R: "market_mode e = Resolved"
  shows "okP (reconcile_position i e) (\<lambda>_ e'. i < MAX_ACCOUNTS e \<and> cash_step i e e' \<and> position_settled i e e')"
    (is "okP _ ?P")
proof (cases "i < MAX_ACCOUNTS e \<and> position_basis_q (accounts e ! i) \<noteq> 0")
  case False
  then show ?thesis
    using cash_step_refl[OF good_D(1)[OF g]]
    by (auto simp: reconcile_position_def okP_sacct position_settled_def Let_def)
next
  case True
  let ?a = "accounts e ! i"
  define P where "P = ?P"
  have i: "i < MAX_ACCOUNTS e" and nz: "position_basis_q ?a \<noteq> 0" using True by simp_all
  have close: "okP (sthen (set_position_basis_q i 0 e2) (\<lambda>_ e. (Ok (), upd i clear_snaps e))) P"
    if s: "side_of_i128 (position_basis_q ?a) = Some s" and d: "resolved_pnl_delta ?a s e = Ok d"
      and c: "cash_step i e e2" and pn: "pnl (accounts e2 ! i) = pnl ?a + d" for s d e2
  proof (rule okP_then[OF set_position_spec])
    fix u e3 assume "pos_set i 0 e2 e3"
    from pos_set_step[OF this good_D(1)] cash_good[OF c g]
    have p3: "pos_step i e2 e3" "position_basis_q (accounts e3 ! i) = 0" "i < MAX_ACCOUNTS e2" by blast+
    have c3: "cash_step i e e3" by (rule cash_step_trans[OF c pos_cash_step[OF p3(1)]])
    have i3: "i < MAX_ACCOUNTS e3" using cash_good[OF c3 g] i by simp
    have p4: "pos_step i e3 (upd i clear_snaps e3)"
      by (rule snap_pos_step[OF _ i3]) (use cash_good[OF c3 g] good_D(1) in simp_all)
    have c4: "cash_step i e (upd i clear_snaps e3)" by (rule cash_step_trans[OF c3 pos_cash_step[OF p4]])
    have M: "money (accounts (upd i clear_snaps e3) ! i) = money (accounts e2 ! i)"
      using p3(1) p4 by (simp add: pos_step_def)
    have "position_settled i e (upd i clear_snaps e3)"
      unfolding position_settled_def Let_def
      using c4 money_fields[OF M] p3(2) i3 nz s d pn by (simp add: cash_step_def cash_def)
    then show "okP (Ok (), upd i clear_snaps e3) P" using c4 i by (simp add: P_def)
  qed
  have go: "okP (sthen (if d \<noteq> 0 then
                sthen (set_pnl i (pnl ?a + d) e) (\<lambda>_ e. (Ok (), e\<lparr> pnl_matured_pos_tot := pnl_pos_tot e \<rparr>))
              else (Ok (), e)) (\<lambda>_ e.
       sthen (if adl_epoch_snap ?a \<noteq> get_epoch_side s e then
                sval (ok_or CorruptState (fit_u64 (get_stale_count s e - 1))) e (\<lambda>x.
                (Ok (), set_stale_count s x e))
              else (Ok (), e)) (\<lambda>_ e.
       sthen (set_position_basis_q i 0 e) (\<lambda>_ e. (Ok (), upd i clear_snaps e))))) P"
    if s: "side_of_i128 (position_basis_q ?a) = Some s" and d: "resolved_pnl_delta ?a s e = Ok d"
      and r: "in_i128 (pnl ?a + d)" "pnl ?a + d \<noteq> I128_MIN" for s d
  proof (rule okP_then)
    show "okP (if d \<noteq> 0 then
                sthen (set_pnl i (pnl ?a + d) e) (\<lambda>_ e. (Ok (), e\<lparr> pnl_matured_pos_tot := pnl_pos_tot e \<rparr>))
              else (Ok (), e)) (\<lambda>_ e1. cash_step i e e1 \<and> pnl (accounts e1 ! i) = pnl ?a + d)"
    proof (cases "d = 0")
      case True
      then show ?thesis using cash_step_refl[OF good_D(1)[OF g]] by simp
    next
      case False
      have "okP (sthen (set_pnl i (pnl ?a + d) e) (\<lambda>_ e. (Ok (), e\<lparr> pnl_matured_pos_tot := pnl_pos_tot e \<rparr>)))
         (\<lambda>_ e1. cash_step i e e1 \<and> pnl (accounts e1 ! i) = pnl ?a + d)"
      proof (rule okP_then[OF set_pnl_resolved_spec[OF good_D(1)[OF g]]])
        fix u e1 assume S: "pnl_set i (pnl ?a + d) e e1"
        have c: "cash_step i e e1" by (rule pnl_cash_step[OF S good_D(1)[OF g] r])
        note C = cash_good[OF c g]
        have "e1\<lparr> pnl_matured_pos_tot := pnl_pos_tot e1 \<rparr> = e1" by (rule matured_id) (use C R in simp_all)
        then show "okP (Ok (), e1\<lparr> pnl_matured_pos_tot := pnl_pos_tot e1 \<rparr>)
           (\<lambda>_ e1. cash_step i e e1 \<and> pnl (accounts e1 ! i) = pnl ?a + d)"
          using c pnl_set_frame(4)[OF S] by simp
      qed
      then show ?thesis using False by simp
    qed
    fix u e1 assume c1: "cash_step i e e1 \<and> pnl (accounts e1 ! i) = pnl ?a + d"
    have st: "cash_step i e (set_stale_count s x e1) \<and> pnl (accounts (set_stale_count s x e1) ! i) = pnl ?a + d" for x
    proof -
      have q: "quiet e1 (set_stale_count s x e1)" by simp
      have "cash_step i e1 (set_stale_count s x e1)"
        by (rule pos_cash_step[OF quiet_pos_step[OF q]]) (use c1 cash_good[OF _ g] good_D(1) in blast)
      then show ?thesis using c1 cash_step_trans q by (metis quiet_def)
    qed
    show "okP (sthen (if adl_epoch_snap ?a \<noteq> get_epoch_side s e1 then
                sval (ok_or CorruptState (fit_u64 (get_stale_count s e1 - 1))) e1 (\<lambda>x.
                (Ok (), set_stale_count s x e1))
              else (Ok (), e1)) (\<lambda>_ e.
       sthen (set_position_basis_q i 0 e) (\<lambda>_ e. (Ok (), upd i clear_snaps e)))) P"
    proof (rule okP_then)
      show "okP (if adl_epoch_snap ?a \<noteq> get_epoch_side s e1 then
                sval (ok_or CorruptState (fit_u64 (get_stale_count s e1 - 1))) e1 (\<lambda>x.
                (Ok (), set_stale_count s x e1))
              else (Ok (), e1)) (\<lambda>_ e2. cash_step i e e2 \<and> pnl (accounts e2 ! i) = pnl ?a + d)"
        using st c1 by (simp add: okP_if okP_sval okR_ok_or)
      fix v e2 assume "cash_step i e e2 \<and> pnl (accounts e2 ! i) = pnl ?a + d"
      then show "okP (sthen (set_position_basis_q i 0 e2) (\<lambda>_ e. (Ok (), upd i clear_snaps e))) P"
        using close[OF s d] by blast
    qed
  qed
  have "okP (reconcile_position i e) P"
    unfolding reconcile_position_def okP_sacct okP_sval[of "expect _"] okP_sval[of "resolved_pnl_delta _ _ _"]
      okP_sval[of "checked_pnl_add _ _"] okP_if[of "position_basis_q ?a = 0"] okP_if[of "adl_a_basis ?a = 0"] okP_basic okR_expect checked_pnl_add_okR
    by (intro conjI impI allI okR_I; (rule go)?; (elim conjE)?; (assumption | simp add: nz))
  then show ?thesis by (simp only: P_def)
qed


text \<open>The profit or loss of an account, with its open position valued at the terminal indices.\<close>

definition terminal_pnl :: "nat \<Rightarrow> engine \<Rightarrow> int \<Rightarrow> bool" where
  "terminal_pnl i e p =
     (let a = accounts e ! i in
      if position_basis_q a = 0 then p = pnl a
      else \<exists>s d. side_of_i128 (position_basis_q a) = Some s \<and> resolved_pnl_delta a s e = Ok d
                 \<and> p = pnl a + d)"

definition reconciled :: "nat \<Rightarrow> engine \<Rightarrow> engine \<Rightarrow> bool" where
  "reconciled i e e' =
     (let a = accounts e ! i; b = accounts e' ! i in
      stage {i} e e' \<and> mkt_fields e' = mkt_fields e \<and> position_basis_q b = 0
      \<and> (\<exists>p. terminal_pnl i e p \<and> pnl b = max 0 p \<and> capital b = max 0 (capital a + min 0 p)
            \<and> c_tot e' - c_tot e = capital b - capital a
            \<and> ins_bal e' = ins_bal e - min (max 0 (- p - capital a)) (max 0 (ins_bal e - insurance_floor (params e)))))"

lemma resolved_delta_cong:
  assumes "pnl_set i p e e1"
  shows "resolved_pnl_delta (accounts e1 ! i) s e1 = resolved_pnl_delta (accounts e ! i) s e"
proof -
  have c: "core (accounts e1 ! i) = core (accounts e ! i)" and e1: "e1 = pnl_effect i (accounts e1 ! i) e"
    using assms by (simp_all add: pnl_set_def)
  have "get_epoch_side s e1 = get_epoch_side s e" "get_stale_count s e1 = get_stale_count s e"
    "get_k_epoch_start s e1 = get_k_epoch_start s e" "get_f_epoch_start s e1 = get_f_epoch_start s e"
    "resolved_k_long_terminal_delta e1 = resolved_k_long_terminal_delta e"
    "resolved_k_short_terminal_delta e1 = resolved_k_short_terminal_delta e"
    by (subst e1, cases s, simp_all add: pnl_effect_def Let_def)+
  then show ?thesis using core_fields[OF c] by (cases s) (simp_all add: resolved_pnl_delta_def cong: if_cong)
qed

lemma stage_capital:
  assumes s: "stage {i} e e'" and g: "good e" and i: "i < MAX_ACCOUNTS e"
  shows "c_tot e' - c_tot e = capital (accounts e' ! i) - capital (accounts e ! i)"
proof -
  note S = stage_D[OF s]
  have "accounts e' = (accounts e)[i := accounts e' ! i]"
    by (rule nth_equalityI) (use S(5,8) i in \<open>auto simp: nth_list_update\<close>)
  then have "tot capital (accounts e') = tot capital (accounts e) + capital (accounts e' ! i) - capital (accounts e ! i)"
    using tot_update[OF i, of capital "accounts e' ! i"] by simp
  then show ?thesis using good_D(8)[OF g] good_D(8)[OF S(1)] by (simp add: agg_def)
qed


lemma payable_cong:
  assumes p: "payable e" and m: "mkt_fields e' = mkt_fields e" and l: "MAX_ACCOUNTS e' = MAX_ACCOUNTS e"
    and a: "\<And>j. j < MAX_ACCOUNTS e \<Longrightarrow> pnl (accounts e' ! j) = pnl (accounts e ! j)
        \<and> position_basis_q (accounts e' ! j) = position_basis_q (accounts e ! j)"
    and v: "vault e - (c_tot e + ins_bal e) \<le> vault e' - (c_tot e' + ins_bal e')"
  shows "payable e'"
proof -
  have h: "resolved_payout_h_num e' = resolved_payout_h_num e" "resolved_payout_h_den e' = resolved_payout_h_den e"
    using m by (simp_all add: mkt_fields_def)
  have "map pnl (accounts e') = map pnl (accounts e)" by (rule nth_equalityI) (use l a in simp_all)
  then have "map (f \<circ> pnl) (accounts e') = map (f \<circ> pnl) (accounts e)" for f :: "int \<Rightarrow> int"
    by (simp only: map_map [symmetric])
  then have t: "tot (\<lambda>a. f (pnl a)) (accounts e') = tot (\<lambda>a. f (pnl a)) (accounts e)" for f :: "int \<Rightarrow> int"
    by (simp add: tot_def comp_def)
  have "\<forall>a \<in> set (accounts e'). 0 \<le> pnl a \<and> position_basis_q a = 0"
  proof
    fix x assume "x \<in> set (accounts e')"
    then obtain j where j: "j < MAX_ACCOUNTS e" "x = accounts e' ! j" using l by (auto simp: in_set_conv_nth)
    then show "0 \<le> pnl x \<and> position_basis_q x = 0" using p a[OF j(1)] by (simp add: payable_def)
  qed
  then show ?thesis using p v h t[of "\<lambda>x. x * resolved_payout_h_num e div resolved_payout_h_den e"]
    by (simp add: payable_def)
qed

lemma reconciled_payable:
  assumes p: "payable e" and r: "reconciled i e e'" and g: "good e" and i: "i < MAX_ACCOUNTS e"
  shows "payable e'"
proof -
  have z: "0 \<le> pnl (accounts e ! i)" "position_basis_q (accounts e ! i) = 0"
    using p i by (simp_all add: payable_def)
  have m: "mkt_fields e' = mkt_fields e" and s: "stage {i} e e'" and b: "position_basis_q (accounts e' ! i) = 0"
    using r by (simp_all add: reconciled_def Let_def)
  obtain q where q: "terminal_pnl i e q" "pnl (accounts e' ! i) = max 0 q"
      "capital (accounts e' ! i) = max 0 (capital (accounts e ! i) + min 0 q)"
      "c_tot e' - c_tot e = capital (accounts e' ! i) - capital (accounts e ! i)"
      "ins_bal e' = ins_bal e - min (max 0 (- q - capital (accounts e ! i))) (max 0 (ins_bal e - insurance_floor (params e)))"
    using r unfolding reconciled_def Let_def by blast
  have qv: "q = pnl (accounts e ! i)" using q(1) z(2) by (simp add: terminal_pnl_def Let_def)
  have c: "0 \<le> capital (accounts e ! i)" using acct_typed(6)[OF g i] .
  have sums: "c_tot e' = c_tot e" "ins_bal e' = ins_bal e" "vault e' = vault e"
    using q(3,4,5) qv z(1) c stage_D(2)[OF s] by simp_all
  have "pnl (accounts e' ! j) = pnl (accounts e ! j)
      \<and> position_basis_q (accounts e' ! j) = position_basis_q (accounts e ! j)" for j
    using q(2) qv z b stage_D(8)[OF s, of j] by (cases "j = i") simp_all
  then show ?thesis by (intro payable_cong[OF p m stage_D(5)[OF s]]) (use sums in simp_all)
qed

lemma mkt_resolved:
  assumes "mkt_fields e' = mkt_fields e"
  shows "current_slot e' = current_slot e" "resolved_slot e' = resolved_slot e"
    "resolved_payout_ready e' = resolved_payout_ready e" "resolved_payout_h_num e' = resolved_payout_h_num e"
    "resolved_payout_h_den e' = resolved_payout_h_den e" "balanced e' = balanced e"
    "settlement_terms e' = settlement_terms e"
  using assms by (simp_all add: mkt_fields_def balanced_def settlement_terms_def)

lemma resolve_flat_core:
  assumes "good e"
  shows "okP (resolve_flat_negative i e) (\<lambda>_ e'. core (accounts e' ! i) = core (accounts e ! i))"
proof -
  have abs: "\<exists>x. absorb_protocol_loss l e = set_insurance x e" for l
  proof -
    have "e = set_insurance (ins_bal e) e" by (simp add: set_insurance_def)
    then have "\<exists>x. e = set_insurance x e" by blast
    then show ?thesis
      by (auto simp: absorb_protocol_loss_def use_insurance_buffer_def record_uninsured_protocol_loss_def Let_def)
  qed
  have "okP (set_pnl i 0 (absorb_protocol_loss l e)) (\<lambda>_ e'. core (accounts e' ! i) = core (accounts e ! i))" for l
  proof -
    obtain x where x: "absorb_protocol_loss l e = set_insurance x e" using abs by blast
    show ?thesis
      unfolding x by (rule okP_mono[OF set_pnl_resolved_spec]) (use good_D(1)[OF assms] pnl_set_frame(3) in \<open>auto\<close>)
  qed
  then show ?thesis
    unfolding resolve_flat_negative_def okP_sval okP_if okP_sacct by (auto intro!: okR_I)
qed

theorem reconcile_spec:
  assumes v: "rinv e"
  shows "okP (reconcile_resolved_not_atomic i e) (\<lambda>_ e'. rinv e' \<and> market_mode e = Resolved
     \<and> is_used e i \<and> i < MAX_ACCOUNTS e \<and> reconciled i e e')"
    (is "okP _ ?P")
proof -
  define P where "P = ?P"
  note I = inv_D[OF rinv_D(1)[OF v]]
  let ?a = "accounts e ! i"
  have main: "okP (sthen (prepare_account_for_resolved_touch i e) (\<lambda>_ e.
        sthen (reconcile_position i e) (\<lambda>_ e.
        sthen (settle_losses i e) (\<lambda>_ e.
        sthen (resolve_flat_negative i e) (\<lambda>_ e.
        sval (assert_public_postconditions e) e (\<lambda>_. (Ok (), e))))))) P"
    if R: "market_mode e = Resolved" and i: "i < MAX_ACCOUNTS e" and u: "is_used e i"
  proof (rule okP_then[OF prepare_resolved_spec[OF good_D(1)[OF I(2)] R]], elim conjE)
    fix x e1 assume S: "pnl_set i (pnl ?a) e e1"
    note T = acct_typed[OF I(2) i]
    have l1: "lstage i e e1" by (rule pnl_set_good(3)[OF S I(2) T(2,3)])
    note L1 = lstage_D[OF l1] and F = pnl_set_frame[OF S]
    note K = core_fields[OF F(3)]
    have R1: "market_mode e1 = Resolved" using L1 R by simp
    show "okP (sthen (reconcile_position i e1) (\<lambda>_ e.
        sthen (settle_losses i e) (\<lambda>_ e.
        sthen (resolve_flat_negative i e) (\<lambda>_ e.
        sval (assert_public_postconditions e) e (\<lambda>_. (Ok (), e)))))) P"
    proof (rule okP_then[OF reconcile_position_spec[OF L1(1) R1]], elim conjE)
      fix y e2 assume c2: "cash_step i e1 e2" and p2: "position_settled i e1 e2"
      have l2: "lstage i e1 e2" by (rule cash_lstage[OF c2 L1(1)])
      have b2: "position_basis_q (accounts e2 ! i) = 0" "capital (accounts e2 ! i) = capital ?a"
        using p2 K by (simp_all add: position_settled_def Let_def)
      have tp: "terminal_pnl i e (pnl (accounts e2 ! i))"
        using p2 K F(4) resolved_delta_cong[OF S] by (simp add: position_settled_def terminal_pnl_def Let_def cong: if_cong)
      have ct: "c_tot e2 = c_tot e" "insurance_fund e2 = insurance_fund e"
        using c2 F(2) frame_D(2)[OF F(1)] by (simp_all add: cash_step_def frame_def)
      show "okP (sthen (settle_losses i e2) (\<lambda>_ e.
        sthen (resolve_flat_negative i e) (\<lambda>_ e.
        sval (assert_public_postconditions e) e (\<lambda>_. (Ok (), e))))) P"
      proof (rule okP_then[OF settle_losses_spec[OF lstage_D(1)[OF l2]]], elim conjE)
        fix z e3 assume l3: "lstage i e2 e3" and s3: "loss_settled i e2 e3" and i2: "i < MAX_ACCOUNTS e2"
        show "okP (sthen (resolve_flat_negative i e3) (\<lambda>_ e.
          sval (assert_public_postconditions e) e (\<lambda>_. (Ok (), e)))) P"
        proof (rule okP_then[OF okP_conj[OF resolve_flat_spec[OF lstage_D(1)[OF l3]] resolve_flat_core[OF lstage_D(1)[OF l3]]]], elim conjE)
          fix w e4
          assume l4: "lstage i e3 e4" and c4: "c_tot e4 = c_tot e3" and i3: "i < MAX_ACCOUNTS e3"
            and n4: "ins_bal e4 = (if pnl (accounts e4 ! i) = pnl (accounts e3 ! i) then ins_bal e3
         else ins_bal e3 - min (- pnl (accounts e3 ! i)) (max 0 (ins_bal e3 - insurance_floor (params e3))))"
            and p4: "pnl (accounts e4 ! i) = pnl (accounts e3 ! i) \<or> pnl (accounts e3 ! i) < 0 \<and> pnl (accounts e4 ! i) = 0"
            and f4: "effective_pos_q i e3 = Ok 0 \<longrightarrow> 0 \<le> pnl (accounts e4 ! i)"
            and k4: "core (accounts e4 ! i) = core (accounts e3 ! i)"
          have l: "lstage i e e4" by (rule lstage_trans[OF l1 lstage_trans[OF l2 lstage_trans[OF l3 l4]]])
          have s: "stage {i} e e4" by (rule lstage_D(2)[OF l])
          have b3: "position_basis_q (accounts e3 ! i) = 0" using s3 b2 by (simp add: loss_settled_def Let_def)
          then have nn: "0 \<le> pnl (accounts e4 ! i)" using f4 i3 by (simp add: effective_pos_q_def acct_def)
          define p where "p = pnl (accounts e2 ! i)"
          have V3: "pnl (accounts e3 ! i) = (if p < 0 then min 0 (p + capital ?a) else p)"
            "capital (accounts e3 ! i) = (if p < 0 then max 0 (capital ?a + p) else capital ?a)"
            "insurance_fund e3 = insurance_fund e"
            using s3 b2(2) ct(2) by (simp_all add: loss_settled_def Let_def p_def)
          have "capital (accounts e4 ! i) = capital (accounts e3 ! i)"
            using stage_capital[OF lstage_D(2)[OF l4] lstage_D(1)[OF l3] i3] c4 by simp
          then have cap: "capital (accounts e4 ! i) = max 0 (capital ?a + min 0 p)" using V3(2) T(6) by auto
          have pn: "pnl (accounts e4 ! i) = max 0 p" using p4 nn V3(1) by (auto split: if_splits)
          have pe: "params e3 = params e" using lstage_D(5)[OF l1] lstage_D(5)[OF l2] lstage_D(5)[OF l3] by simp
          have fl: "0 \<le> insurance_floor (params e)"
            using good_D(6)[OF I(2)] by (simp add: params_typed_def in_u128_def)
          have ins: "ins_bal e4 = ins_bal e - min (max 0 (- p - capital ?a)) (max 0 (ins_bal e - insurance_floor (params e)))"
            using n4 pn V3(1,3) pe T(6) by (auto split: if_splits)
          have b4: "position_basis_q (accounts e4 ! i) = 0" using core_fields(3)[OF k4] b3 by simp
          have r: "reconciled i e e4"
            unfolding reconciled_def Let_def
            using s l tp cap pn ins b4 stage_capital[OF s I(2) i] by (auto simp: lstage_def p_def)
          have ok: "resolved_ok e4"
            using rinv_D(4,5)[OF v R] reconciled_payable[OF _ r I(2) i] mkt_resolved[of e4 e] l
            by (auto simp: resolved_ok_def lstage_def)
          show "okP (sval (assert_public_postconditions e4) e4 (\<lambda>_. (Ok (), e4))) P"
            by (rule okP_mono[OF post_inv[OF s I(1)]]) (use u r ok R i in \<open>auto simp: P_def rinv_def\<close>)
        qed
      qed
    qed
  qed
  have "okP (reconcile_resolved_not_atomic i e) P"
  proof (cases "market_mode e = Resolved")
    case True
    then have id: "e\<lparr> current_slot := resolved_slot e \<rparr> = e" using rinv_D(4)[OF v] by simp
    show ?thesis
      unfolding reconcile_resolved_not_atomic_def okP_if okP_basic Let_def id
      using main[OF True] True by (auto simp: not_le)
  qed (simp add: reconcile_resolved_not_atomic_def)
  then show ?thesis by (simp only: P_def)
qed



section \<open>What a payout does\<close>

text \<open>The haircut claim of a settled account.\<close>

definition terminal_claim :: "engine \<Rightarrow> account \<Rightarrow> int" where
  "terminal_claim e a =
     (if pnl a > 0 then pnl a * resolved_payout_h_num e div resolved_payout_h_den e else 0)"

definition all_settled :: "engine \<Rightarrow> bool" where
  "all_settled e = (\<forall>a \<in> set (accounts e). 0 \<le> pnl a \<and> position_basis_q a = 0)"

lemma count_zero:
  assumes "tot f xs = 0" "\<And>x. 0 \<le> f x" "a \<in> set xs"
  shows "f a = 0"
  using tot_zero_member[OF assms(1) _ assms(3)] assms(2) by blast

lemma ready_settled:
  assumes g: "good e" and p: "resolved_payout_ready e \<noteq> 0 \<longrightarrow> payable e" and r: "is_terminal_ready e"
  shows "all_settled e"
proof (cases "resolved_payout_ready e = 0")
  case False
  then show ?thesis using p by (simp add: all_settled_def payable_def)
next
  case True
  have z: "tot longp (accounts e) = 0" "tot shortp (accounts e) = 0" "tot negp (accounts e) = 0"
    using r True good_D(8)[OF g] by (auto simp: is_terminal_ready_def agg_def split: if_splits)
  have "0 \<le> pnl a \<and> position_basis_q a = 0" if a: "a \<in> set (accounts e)" for a
  proof -
    have "longp a = 0" by (rule count_zero[OF z(1) _ a]) (simp add: longp_def)
    moreover have "shortp a = 0" by (rule count_zero[OF z(2) _ a]) (simp add: shortp_def)
    moreover have "negp a = 0" by (rule count_zero[OF z(3) _ a]) (simp add: negp_def)
    ultimately show ?thesis by (simp add: longp_def shortp_def negp_def split: if_splits)
  qed
  then show ?thesis by (simp add: all_settled_def)
qed

text \<open>The snapshot: afterwards the claims of all accounts are covered by the residual.\<close>

lemma snapshot_outer:
  assumes "good e" "market_mode e = Resolved"
  shows "outer e (payout_snapshot e)" "ins_bal (payout_snapshot e) = ins_bal e" "good (payout_snapshot e)"
    "current_slot (payout_snapshot e) = current_slot e" "resolved_slot (payout_snapshot e) = resolved_slot e"
    "balanced (payout_snapshot e) = balanced e" "resolved_payout_ready (payout_snapshot e) \<noteq> 0"
    "settlement_terms (payout_snapshot e) = settlement_terms e"
proof -
  note M = matured_id[OF assms]
  show o: "outer e (payout_snapshot e)"
    using M by (simp add: payout_snapshot_def Let_def outer_def slab_fields_def)
  show i: "ins_bal (payout_snapshot e) = ins_bal e"
    "current_slot (payout_snapshot e) = current_slot e" "resolved_slot (payout_snapshot e) = resolved_slot e"
    "balanced (payout_snapshot e) = balanced e" "resolved_payout_ready (payout_snapshot e) \<noteq> 0"
    "settlement_terms (payout_snapshot e) = settlement_terms e"
    by (simp_all add: payout_snapshot_def Let_def balanced_def settlement_terms_def)
  have "market_ok (payout_snapshot e) = market_ok e" by (simp add: payout_snapshot_def Let_def market_ok_def)
  then show "good (payout_snapshot e)"
    using assms(1) o i outer_inv[OF o] by (simp add: good_def outer_def)
qed

lemma snapshot_payable:
  assumes g: "good e" and s: "solvent e" and R: "market_mode e = Resolved"
    and p: "resolved_payout_ready e \<noteq> 0 \<longrightarrow> payable e" and r: "is_terminal_ready e"
    and i: "i < MAX_ACCOUNTS e" "0 < pnl (accounts e ! i)"
  shows "payable (payout_snapshot e)"
proof (cases "resolved_payout_ready e = 0")
  case False
  then show ?thesis using p by (simp add: payout_snapshot_def)
next
  case True
  have st: "\<And>a. a \<in> set (accounts e) \<Longrightarrow> 0 \<le> pnl a \<and> position_basis_q a = 0"
    using ready_settled[OF g p r] by (simp add: all_settled_def)
  have "0 \<le> c_tot e"
    using good_D(7,8)[OF g] by (auto simp: agg_def accts_ok_def acct_ok_def in_u128_def intro!: tot_nonneg)
  then have "in_u128 (c_tot e + ins_bal e)"
    using s good_D(4,9)[OF g] by (simp add: in_u128_def solvent_def)
  then have fit: "fit_u128 (c_tot e + ins_bal e) = Some (c_tot e + ins_bal e)" by simp
  define d where "d = pnl_pos_tot e"
  have "tot posp (accounts e) = tot pnl (accounts e)" using st by (intro tot_cong) (simp add: posp_def)
  then have d: "tot pnl (accounts e) = d" using good_D(8)[OF g] by (simp add: agg_def d_def)
  have d0: "0 < d" using tot_member_le[OF i(1), of pnl] i(2) st d by fastforce
  define n where "n = min (vault e - (c_tot e + ins_bal e)) d"
  have n: "0 \<le> n" "n \<le> d" "n \<le> vault e - (c_tot e + ins_bal e)"
    using s d0 by (simp_all add: n_def solvent_def)
  have h: "resolved_payout_h_num (payout_snapshot e) = n" "resolved_payout_h_den (payout_snapshot e) = d"
    using True d0 s by (simp_all add: payout_snapshot_def Let_def fit n_def d_def solvent_def)
  have "tot (\<lambda>a. pnl a * n div d) (accounts e) * d \<le> n * d"
    using floor_sum[OF d0, of "accounts e" pnl n] st d by (simp add: mult.commute)
  then have "tot (\<lambda>a. pnl a * n div d) (accounts e) \<le> n" using d0 by simp
  then show ?thesis
    using n d0 st snapshot_outer(1,2)[OF g R] by (simp add: payable_def h outer_def)
qed


text \<open>What the payout leaves of the account, and that it keeps the funds of the others covered.\<close>

definition snapshot_frozen :: "engine \<Rightarrow> engine \<Rightarrow> bool" where
  "snapshot_frozen e e' =
     (resolved_payout_ready e \<noteq> 0 \<longrightarrow> resolved_payout_ready e' \<noteq> 0
        \<and> resolved_payout_h_num e' = resolved_payout_h_num e
        \<and> resolved_payout_h_den e' = resolved_payout_h_den e)"

definition paid_claim :: "nat \<Rightarrow> engine \<Rightarrow> engine \<Rightarrow> bool" where
  "paid_claim i e e' =
     (stage {i} e e' \<and> balanced e' = balanced e \<and> current_slot e' = current_slot e
      \<and> resolved_slot e' = resolved_slot e \<and> settlement_terms e' = settlement_terms e
      \<and> ins_bal e' = ins_bal e
      \<and> capital (accounts e' ! i) = capital (accounts e ! i) + terminal_claim e' (accounts e ! i)
      \<and> pnl (accounts e' ! i) = 0 \<and> position_basis_q (accounts e' ! i) = position_basis_q (accounts e ! i)
      \<and> fee_credits (accounts e' ! i) = fee_credits (accounts e ! i)
      \<and> snapshot_frozen e e'
      \<and> (0 < pnl (accounts e ! i) \<longrightarrow> resolved_payout_ready e' \<noteq> 0)
      \<and> (resolved_payout_ready e' \<noteq> 0 \<longrightarrow> payable e'))"

lemma tot_cleared:
  assumes "i < length xs" "f x = 0"
  shows "tot f (xs[i := x]) = tot f xs - f (xs ! i)"
  using tot_update[OF assms(1), of f x] assms(2) by simp

lemma claim_paid:
  assumes g: "good e" and p: "payable e" and i: "i < MAX_ACCOUNTS e"
    and S: "pnl_set i 0 e e1" and y: "y = pnl (accounts e ! i) * resolved_payout_h_num e div resolved_payout_h_den e"
    and c: "in_u128 (capital (accounts e ! i) + y)"
    and e2: "e2 = cap_effect i (capital (accounts e ! i) + y) e1"
  shows "good e2" "payable e2" "mkt_fields e2 = mkt_fields e" "frame {i} e e2"
    "capital (accounts e2 ! i) = capital (accounts e ! i) + y" "core (accounts e2 ! i) = (core (accounts e ! i))\<lparr> capital := capital (accounts e ! i) + y \<rparr>"
    "pnl (accounts e2 ! i) = 0"
proof -
  have z: "in_i128 0" "(0 :: int) \<noteq> I128_MIN" by (simp_all add: in_i128_def bounds)
  note G = pnl_set_good[OF S g z] and F = pnl_set_frame[OF S]
  have i1: "i < MAX_ACCOUNTS e1" using frame_D(5)[OF F(1)] i by simp
  note C = cap_effect_good[OF G(1) i1 c, folded e2]
  show "good e2" using C(1) .
  show m: "mkt_fields e2 = mkt_fields e" using C(2) G(2) by simp
  show fr: "frame {i} e e2" using frame_trans[OF F(1) cap_effect_frame] by (simp add: e2)
  have cc: "capital (accounts e1 ! i) = capital (accounts e ! i)" using core_fields(1)[OF F(3)] .
  show "capital (accounts e2 ! i) = capital (accounts e ! i) + y" "pnl (accounts e2 ! i) = 0"
    using C(3) F(4) by simp_all
  show k: "core (accounts e2 ! i) = (core (accounts e ! i))\<lparr> capital := capital (accounts e ! i) + y \<rparr>"
    using C(3) by (simp add: core_def F(3)[unfolded core_def, symmetric])
  have ct: "c_tot e2 = c_tot e + y" using F(2) cc by (simp add: e2 cap_effect_def)
  note H = mkt_resolved[OF m] and D = frame_D[OF fr]
  have ac: "accounts e2 = (accounts e)[i := accounts e2 ! i]"
    by (rule nth_equalityI) (use D(5,6) i in \<open>auto simp: nth_list_update\<close>)
  have "tot (\<lambda>a. pnl a * resolved_payout_h_num e div resolved_payout_h_den e) (accounts e2)
      = tot (\<lambda>a. pnl a * resolved_payout_h_num e div resolved_payout_h_den e) (accounts e) - y"
    unfolding y by (subst ac, rule tot_cleared[OF i]) (use C(3) F(4) in simp)
  moreover have "\<forall>a \<in> set (accounts e2). 0 \<le> pnl a \<and> position_basis_q a = 0"
  proof -
    have "0 \<le> pnl (accounts e2 ! i) \<and> position_basis_q (accounts e2 ! i) = 0"
      using p i C(3) F(4) core_fields(3)[OF F(3)] by (simp add: payable_def)
    then show ?thesis
      using p set_update_subset_insert[of "accounts e" i "accounts e2 ! i"] by (subst ac) (auto simp: payable_def)
  qed
  ultimately show "payable e2" using p ct D(1,2) by (simp add: payable_def H)
qed


lemma payable_solvent:
  assumes "payable e" "good e"
  shows "solvent e"
proof -
  have "0 \<le> tot (\<lambda>a. pnl a * resolved_payout_h_num e div resolved_payout_h_den e) (accounts e)"
    using assms(1) by (intro tot_nonneg) (auto simp: payable_def pos_imp_zdiv_nonneg_iff)
  then show ?thesis using assms(1) by (simp add: payable_def solvent_def)
qed

lemma core_capital:
  assumes "core b = (core a)\<lparr> capital := c \<rparr>"
  shows "position_basis_q b = position_basis_q a" "fee_credits b = fee_credits a"
  using assms by (cases a; cases b; simp add: core_def)+

lemma terminal_payout_spec:
  assumes g: "good e" and s: "solvent e" and R: "market_mode e = Resolved"
    and p: "resolved_payout_ready e \<noteq> 0 \<longrightarrow> payable e"
    and z: "reserved_pnl (accounts e ! i) = 0" "0 \<le> pnl (accounts e ! i)"
  shows "okP (terminal_payout i e) (\<lambda>_ e'. i < MAX_ACCOUNTS e \<and> paid_claim i e e')"
    (is "okP _ ?P")
proof (cases "i < MAX_ACCOUNTS e \<and> pnl (accounts e ! i) > 0 \<and> is_terminal_ready e")
  case False
  have "paid_claim i e e" if "\<not> pnl (accounts e ! i) > 0"
    using that z(2) p stage_refl[OF g] by (simp add: paid_claim_def terminal_claim_def snapshot_frozen_def)
  then show ?thesis using False by (auto simp: terminal_payout_def okP_sacct okP_if)
next
  case True
  let ?a = "accounts e ! i"
  define P where "P = ?P"
  define f where "f = payout_snapshot e"
  have i: "i < MAX_ACCOUNTS e" and pos: "0 < pnl ?a" and r: "is_terminal_ready e" using True by simp_all
  note O = snapshot_outer[OF g R, folded f_def]
  have pf: "payable f" unfolding f_def by (rule snapshot_payable[OF g s R p r i pos])
  have ac: "accounts f = accounts e" "vault f = vault e" "params f = params e" "market_mode f = market_mode e"
    "slab_fields f = slab_fields e" using O(1) by (simp_all add: outer_def)
  have h: "0 \<le> resolved_payout_h_num f" "0 < resolved_payout_h_den f" using pf by (simp_all add: payable_def)
  have rel: "released_pos i f = Ok (pnl ?a)"
    using i pos z(1) acct_typed(2)[OF g i] ac(1)
    by (simp add: released_pos_def acct_def sat_u128_def i128_clamp_pos_max in_i128_def bounds)
  define y where "y = pnl ?a * resolved_payout_h_num f div resolved_payout_h_den f"
  have yv: "okR (wide_mul_div_floor_u128 (pnl ?a) (resolved_payout_h_num f) (resolved_payout_h_den f)) (\<lambda>v. v = y)"
    by (auto simp: okR_def y_def wide_mul_div_floor_u128_def mul_div_floor_u256_def
        mul_div_floor_u256_with_rem_def Ok_iffs Let_def)
  have go: "okP (sthen (set_pnl_with_reserve i 0 NoPositiveIncreaseAllowed None f) (\<lambda>_ e.
       sval (ok_or Overflow (fit_u128 (capital (accounts e ! i) + y))) e (\<lambda>new_cap. set_capital i new_cap e))) P"
  proof (rule okP_then[OF set_pnl_spec[OF good_D(1)[OF O(3)]]])
    show "mode_ok (params f) NoPositiveIncreaseAllowed" by (simp add: mode_ok_def)
    fix oc e1 assume S: "pnl_set i 0 f e1"
    have cc: "capital (accounts e1 ! i) = capital (accounts f ! i)"
      using core_fields(1)[OF pnl_set_frame(3)[OF S]] .
    show "okP (sval (ok_or Overflow (fit_u128 (capital (accounts e1 ! i) + y))) e1 (\<lambda>new_cap. set_capital i new_cap e1)) P"
      unfolding okP_sval okR_ok_or fit_Some
    proof (intro allI impI, elim conjE, hypsubst, rule okP_mono[OF set_capital_spec], elim conjE)
      fix v e2
      assume c: "in_u128 (capital (accounts e1 ! i) + y)" and e2: "e2 = cap_effect i (capital (accounts e1 ! i) + y) e1"
      have i': "i < MAX_ACCOUNTS f" using i ac(1) by simp
      have y': "y = pnl (accounts f ! i) * resolved_payout_h_num f div resolved_payout_h_den f" by (simp add: y_def ac)
      note C = claim_paid[OF O(3) pf i' S y' c[unfolded cc] e2[unfolded cc]]
      note H = mkt_resolved[OF C(3)] and D = frame_D[OF C(4)] and K = core_capital[OF C(6)]
      have st: "stage {i} e e2"
        using C(1) payable_solvent[OF C(2,1)] C(4) ac
        by (simp add: stage_def frame_def)
      have "resolved_payout_ready e \<noteq> 0 \<longrightarrow> f = e" by (simp add: f_def payout_snapshot_def)
      then have "paid_claim i e e2"
        using st C K H O(4-8) O(2) D(2) pos
        by (auto simp: paid_claim_def terminal_claim_def y_def ac snapshot_frozen_def)
      then show "P v e2" using i by (simp add: P_def)
    qed
  qed
  have "okP (terminal_payout i e) P"
    unfolding terminal_payout_def okP_sacct Let_def f_def[symmetric] rel
    using go yv pos r z(1) h i by (auto simp: okP_if okP_sval elim!: okR_mono)
  then show ?thesis by (simp only: P_def)
qed


section \<open>The terminal close\<close>

lemma free_and_sweep_funds:
  assumes "good e"
  shows "okP (free_and_sweep i e) (\<lambda>_ e'. e' = set_insurance (ins_bal e') (freed i e)
     \<and> (ins_bal e' = ins_bal e \<or> ins_bal e' = vault e \<and> c_tot e = 0 \<and> pnl_pos_tot e = 0))"
  unfolding free_and_sweep_def okP_sthen[of "free_slot i e"]
proof (rule okP_I)
  fix u e1 assume f: "free_slot i e = (Ok u, e1)"
  note F = free_slot_Ok[OF f]
  have g1: "good e1" using freed_good[OF assms F(1,3)] F(4) by simp
  show "okP (sthen (sweep_empty_market_surplus_to_insurance e1) (\<lambda>_ e.
     sval (assert_public_postconditions e) e (\<lambda>_. (Ok (), e))))
    (\<lambda>_ e'. e' = set_insurance (ins_bal e') (freed i e)
     \<and> (ins_bal e' = ins_bal e \<or> ins_bal e' = vault e \<and> c_tot e = 0 \<and> pnl_pos_tot e = 0))"
    by (rule okP_then[OF sweep_market_spec[OF g1]])
      (auto simp: okP_sval F(4) freed_fields intro!: okR_I)
qed

lemma freed_mkt: "mkt_fields (set_insurance x (freed i e)) = mkt_fields e"
  by (simp add: mkt_fields_def set_insurance_def freed_def clear_used_def Let_def)

lemma freed_payable:
  assumes p: "payable e" and g: "good e" and i: "i < MAX_ACCOUNTS e" and c: "closable (accounts e ! i)"
    and e': "e' = set_insurance (ins_bal e') (freed i e)"
    and b: "ins_bal e' = ins_bal e \<or> ins_bal e' = vault e \<and> c_tot e = 0 \<and> pnl_pos_tot e = 0"
  shows "payable e'"
proof -
  have m: "mkt_fields e' = mkt_fields e" using freed_mkt e' by metis
  have ac: "accounts e' = (accounts e)[i := reset_account 0 (accounts e ! i)]"
    by (subst e') simp
  have v: "vault e' = vault e" "c_tot e' = c_tot e" by (subst e', simp add: freed_fields)+
  have a: "pnl (accounts e' ! j) = pnl (accounts e ! j)
      \<and> position_basis_q (accounts e' ! j) = position_basis_q (accounts e ! j)" if "j < MAX_ACCOUNTS e" for j
    using c that by (cases "j = i") (simp_all add: ac reset_account_eq empty_account_def closable_def)
  show ?thesis
  proof (cases "ins_bal e' = ins_bal e")
    case True
    show ?thesis by (rule payable_cong[OF p m _ a]) (use True v ac in simp_all)
  next
    case False
    then have z: "ins_bal e' = vault e" "c_tot e = 0" "tot posp (accounts e) = 0"
      using b good_D(8)[OF g] by (simp_all add: agg_def)
    have p0: "pnl x = 0" if "x \<in> set (accounts e)" for x
      using count_zero[OF z(3) _ that] p that by (auto simp: posp_def payable_def)
    have "pnl x = 0 \<and> position_basis_q x = 0" if xs: "x \<in> set (accounts e')" for x
    proof -
      obtain j where "j < MAX_ACCOUNTS e'" "x = accounts e' ! j" using xs unfolding in_set_conv_nth by blast
      then show ?thesis using a[of j] p0[of "accounts e ! j"] p by (simp add: payable_def ac)
    qed
    then have "\<forall>x \<in> set (accounts e'). pnl x = 0 \<and> position_basis_q x = 0" by blast
    moreover from this have "tot (\<lambda>a. pnl a * resolved_payout_h_num e' div resolved_payout_h_den e') (accounts e')
        = tot (\<lambda>_. 0) (accounts e')" by (intro tot_cong) simp
    ultimately show ?thesis
      using p z v mkt_resolved[OF m] by (simp add: payable_def tot_def)
  qed
qed

text \<open>
  The capital a terminal close pays out: the account's capital and haircut claim, less the fee debt
  as far as it reaches.
\<close>

definition terminal_payment :: "nat \<Rightarrow> engine \<Rightarrow> engine \<Rightarrow> int" where
  "terminal_payment i e e' =
     (let a = accounts e ! i in max 0 (capital a + terminal_claim e' a + fee_credits a))"

lemma swept_payable:
  assumes p: "payable e" and l: "lstage i e e'" and d: "debt_swept i e e'" and i: "i < MAX_ACCOUNTS e"
  shows "payable e'"
proof -
  define q where "q = min (- fee_credits (accounts e ! i)) (capital (accounts e ! i))"
  have e': "e' = fee_effect i q (- q) e" using d by (simp add: debt_swept_def Let_def q_def)
  note R = fee_effect_reads[OF i, where p = q and c = "- q"]
  have "pnl (accounts e' ! j) = pnl (accounts e ! j)
      \<and> position_basis_q (accounts e' ! j) = position_basis_q (accounts e ! j)" for j
    using R(1) R(10)[of j] by (cases "j = i") (simp_all add: e')
  then show ?thesis
    by (intro payable_cong[OF p]) (use l R in \<open>simp_all add: lstage_def e'\<close>)
qed

lemma forgiven_payable:
  assumes "payable e" "i < MAX_ACCOUNTS e"
  shows "payable (forgive_debt i e)"
proof (rule payable_cong[OF assms(1)])
  show "mkt_fields (forgive_debt i e) = mkt_fields e" by (simp add: forgive_debt_def mkt_fields_def)
  show "MAX_ACCOUNTS (forgive_debt i e) = MAX_ACCOUNTS e" by (simp add: forgive_debt_def)
  show "pnl (accounts (forgive_debt i e) ! j) = pnl (accounts e ! j)
      \<and> position_basis_q (accounts (forgive_debt i e) ! j) = position_basis_q (accounts e ! j)" for j
    using assms(2) by (cases "j = i") (simp_all add: forgive_debt_def)
qed (simp add: forgive_debt_def)


lemma forgiven_capital: "capital (accounts (forgive_debt i e) ! j) = capital (accounts e ! j)"
  by (cases "i < MAX_ACCOUNTS e"; cases "j = i") (simp_all add: forgive_debt_def upd_def list_update_beyond)

definition terminally_closed :: "nat \<Rightarrow> int \<Rightarrow> engine \<Rightarrow> engine \<Rightarrow> bool" where
  "terminally_closed i cap e e' =
     (account_closed i cap e e' \<and> cap = terminal_payment i e e' \<and> snapshot_frozen e e'
      \<and> settlement_terms e' = settlement_terms e
      \<and> position_basis_q (accounts e ! i) = 0 \<and> 0 \<le> pnl (accounts e ! i))"

lemma pay_terminal:
  assumes v: "rinv e" and R: "market_mode e = Resolved" and u: "is_used e i" and i: "i < MAX_ACCOUNTS e"
    and st: "stage {i} e e3" and cl: "current_slot e3 = current_slot e" "resolved_slot e3 = resolved_slot e" "balanced e3 = balanced e"
    and py: "resolved_payout_ready e3 \<noteq> 0 \<longrightarrow> payable e3"
    and k: "\<And>e'. rinv e' \<Longrightarrow> account_closed i (capital (accounts e3 ! i)) e e' \<Longrightarrow> mkt_fields e' = mkt_fields e3
       \<Longrightarrow> P (capital (accounts e3 ! i)) e'"
  shows "okP (sacct e3 i (\<lambda>a.
          if capital a > vault e3 then (Err InsufficientBalance, e3)
          else
            let e = e3\<lparr> vault := vault e3 - capital a \<rparr> in
            sthen (set_capital i 0 e) (\<lambda>_ e.
            sthen (free_and_sweep i e) (\<lambda>_ e. (Ok (capital a), e))))) P"
proof -
  note I = inv_D[OF rinv_D(1)[OF v]] and S = stage_D[OF st]
  let ?cap = "capital (accounts e3 ! i)"
  have i3: "i < MAX_ACCOUNTS e3" using i S(5) by simp
  have c0: "0 \<le> ?cap" using acct_typed(6)[OF S(1) i3] .
  have main: "okP (sthen (set_capital i 0 (e3\<lparr> vault := vault e3 - ?cap \<rparr>)) (\<lambda>_ e.
         sthen (free_and_sweep i e) (\<lambda>_ e. (Ok ?cap, e)))) P" if le: "?cap \<le> vault e3"
  proof (rule okP_then[OF set_capital_spec], elim conjE)
    fix x e4 assume e4: "e4 = cap_effect i 0 (e3\<lparr> vault := vault e3 - ?cap \<rparr>)"
    note G = pay_out_good[OF S(1) i3 le e4]
    have ac: "accounts e4 ! j = accounts e ! j" if "j \<noteq> i" for j using G(6)[OF that] S(8)[of j] that by simp
    have sf: "slab_fields e4 = slab_fields e" using G(2) stage_slab_fields[OF st] by simp
    have pe: "params e4 = params e" using G(3) S(3) by simp
    have ok: "slab_ok e4" by (rule slab_fields_ok[OF sf _ pe I(1), of "{i}"]) (use ac u in auto)
    have us: "used_set e4 = used_set e" using sf by (simp add: used_set_def slab_fields_def is_used_bit)
    have m4: "mkt_fields e4 = mkt_fields e3" by (simp add: e4 mkt_fields_def cap_effect_def)
    have i4: "i < MAX_ACCOUNTS e4" using i3 by (simp add: e4 cap_effect_def)
    have p4: "payable e4" if "payable e3"
    proof (rule payable_cong[OF that m4])
      show "MAX_ACCOUNTS e4 = MAX_ACCOUNTS e3" by (simp add: e4 cap_effect_def)
      show "pnl (accounts e4 ! j) = pnl (accounts e3 ! j)
        \<and> position_basis_q (accounts e4 ! j) = position_basis_q (accounts e3 ! j)" for j
        using i3 by (cases "j = i") (simp_all add: e4 cap_effect_def)
      show "vault e3 - (c_tot e3 + ins_bal e3) \<le> vault e4 - (c_tot e4 + ins_bal e4)"
        by (simp add: e4 cap_effect_def)
    qed
    show "okP (sthen (free_and_sweep i e4) (\<lambda>_ e. (Ok ?cap, e))) P"
    proof (rule okP_then[OF okP_conj[OF free_and_sweep_spec[OF G(1) ok] free_and_sweep_funds[OF G(1)]]], elim conjE)
      fix z e5 assume iv: "inv e5" and c: "closed_out i e4 e5" and cb: "closable (accounts e4 ! i)"
        and fr: "e5 = set_insurance (ins_bal e5) (freed i e4)"
        and b: "ins_bal e5 = ins_bal e4 \<or> ins_bal e5 = vault e4 \<and> c_tot e4 = 0 \<and> pnl_pos_tot e4 = 0"
      have a: "account_closed i ?cap e e5"
        using c u us c0 S(2,4) G(4,5) pe ac i4 by (simp add: account_closed_def closed_out_def)
      have m5: "mkt_fields e5 = mkt_fields e3" using freed_mkt[of "ins_bal e5" i e4] fr m4 by simp
      have "payable e5" if "payable e3"
        by (rule freed_payable[OF p4[OF that] G(1) i4 cb fr b])
      then have "resolved_ok e5"
        using rinv_D(4)[OF v R] mkt_resolved[OF m5] cl py by (simp add: resolved_ok_def)
      then have "rinv e5" using iv by (simp add: rinv_def)
      then show "okP (Ok ?cap, e5) P" using k[OF _ a m5] by simp
    qed
  qed
  show ?thesis
    unfolding okP_sacct okP_if okP_basic Let_def using main by (simp add: not_less)
qed

theorem close_terminal_spec:
  assumes v: "rinv e"
  shows "okP (close_resolved_terminal_not_atomic i e) (\<lambda>cap e'. rinv e' \<and> market_mode e = Resolved
     \<and> terminally_closed i cap e e' \<and> (0 < pnl (accounts e ! i) \<longrightarrow> resolved_payout_ready e' \<noteq> 0))"
    (is "okP _ ?P")
proof -
  define P where "P = ?P"
  note I = inv_D[OF rinv_D(1)[OF v]]
  let ?a = "accounts e ! i"
  have main: "okP (sthen (prepare_account_for_resolved_touch i e) (\<lambda>_ e.
          sthen (terminal_payout i e) (\<lambda>_ e.
          sthen (fee_debt_sweep i e) (\<lambda>_ e.
          sacct (forgive_debt i e) i (\<lambda>a.
          if capital a > vault (forgive_debt i e) then (Err InsufficientBalance, forgive_debt i e)
          else
            let e = (forgive_debt i e)\<lparr> vault := vault (forgive_debt i e) - capital a \<rparr> in
            sthen (set_capital i 0 e) (\<lambda>_ e.
            sthen (free_and_sweep i e) (\<lambda>_ e. (Ok (capital a), e)))))))) P"
    if R: "market_mode e = Resolved" and i: "i < MAX_ACCOUNTS e" and u: "is_used e i"
      and b: "position_basis_q ?a = 0" and nn: "0 \<le> pnl ?a"
  proof (rule okP_then[OF prepare_resolved_spec[OF good_D(1)[OF I(2)] R]], elim conjE)
    fix x e1 assume S: "pnl_set i (pnl ?a) e e1" and rz: "reserved_pnl (accounts e1 ! i) = 0"
    have l1: "lstage i e e1" by (rule pnl_set_good(3)[OF S I(2) acct_typed(2,3)[OF I(2) i]])
    note L1 = lstage_D[OF l1] and F = pnl_set_frame[OF S] and M1 = mkt_resolved[of e1 e]
    note K = core_fields[OF F(3)]
    have m1: "mkt_fields e1 = mkt_fields e" using l1 by (simp add: lstage_def)
    note M1 = mkt_resolved[OF m1]
    have p1: "resolved_payout_ready e1 \<noteq> 0 \<longrightarrow> payable e1"
    proof
      assume "resolved_payout_ready e1 \<noteq> 0"
      then have "payable e" using rinv_D(5)[OF v R] M1 by simp
      then show "payable e1"
      proof (rule payable_cong[OF _ m1 L1(4)])
        show "pnl (accounts e1 ! j) = pnl (accounts e ! j) \<and> position_basis_q (accounts e1 ! j) = position_basis_q (accounts e ! j)" for j
          using F(4) K(3) frame_D(6)[OF F(1), of j] by (cases "j = i") simp_all
        show "vault e - (c_tot e + ins_bal e) \<le> vault e1 - (c_tot e1 + ins_bal e1)"
          using F(2) frame_D(1,2)[OF F(1)] by simp
      qed
    qed
    have s1: "solvent e1" using stage_D(7)[OF L1(2)] I(3) .
    show "okP (sthen (terminal_payout i e1) (\<lambda>_ e.
          sthen (fee_debt_sweep i e) (\<lambda>_ e.
          sacct (forgive_debt i e) i (\<lambda>a.
          if capital a > vault (forgive_debt i e) then (Err InsufficientBalance, forgive_debt i e)
          else
            let e = (forgive_debt i e)\<lparr> vault := vault (forgive_debt i e) - capital a \<rparr> in
            sthen (set_capital i 0 e) (\<lambda>_ e.
            sthen (free_and_sweep i e) (\<lambda>_ e. (Ok (capital a), e))))))) P"
    proof (rule okP_then[OF terminal_payout_spec[OF L1(1) s1 _ p1 rz]], use L1(6) R in simp, use F(4) nn in simp, elim conjE)
      fix y e2 assume pc: "paid_claim i e1 e2"
      have s2: "stage {i} e1 e2" and B2: "balanced e2 = balanced e1" "current_slot e2 = current_slot e1" "resolved_slot e2 = resolved_slot e1"
        and p2: "resolved_payout_ready e2 \<noteq> 0 \<longrightarrow> payable e2"
        and V2: "capital (accounts e2 ! i) = capital (accounts e1 ! i) + terminal_claim e2 (accounts e1 ! i)"
          "fee_credits (accounts e2 ! i) = fee_credits (accounts e1 ! i)"
        and fz: "snapshot_frozen e e2" "settlement_terms e2 = settlement_terms e"
        using pc M1 by (simp_all add: paid_claim_def snapshot_frozen_def)
      have i2: "i < MAX_ACCOUNTS e2" using i L1(4) stage_D(5)[OF s2] by simp
      have rd: "0 < pnl ?a \<longrightarrow> resolved_payout_ready e2 \<noteq> 0" using pc F(4) by (simp add: paid_claim_def)
      show "okP (sthen (fee_debt_sweep i e2) (\<lambda>_ e.
          sacct (forgive_debt i e) i (\<lambda>a.
          if capital a > vault (forgive_debt i e) then (Err InsufficientBalance, forgive_debt i e)
          else
            let e = (forgive_debt i e)\<lparr> vault := vault (forgive_debt i e) - capital a \<rparr> in
            sthen (set_capital i 0 e) (\<lambda>_ e.
            sthen (free_and_sweep i e) (\<lambda>_ e. (Ok (capital a), e)))))) P"
      proof (rule okP_then[OF fee_debt_sweep_spec[OF stage_D(1)[OF s2]]], elim conjE)
        fix z e3 assume l3: "lstage i e2 e3" and d3: "debt_swept i e2 e3"
        have i3: "i < MAX_ACCOUNTS e3" using i2 lstage_D(4)[OF l3] by simp
        have l4: "lstage i e3 (forgive_debt i e3)" by (rule forgive_lstage[OF lstage_D(1)[OF l3] i3])
        note l34 = lstage_trans[OF l3 l4]
        have m34: "mkt_fields (forgive_debt i e3) = mkt_fields e2" using l34 by (simp add: lstage_def)
        note M34 = mkt_resolved[OF m34]
        have st: "stage {i} e (forgive_debt i e3)"
          by (rule stage_trans[OF stage_trans[OF L1(2) s2] lstage_D(2)[OF l34]])
        have p4: "resolved_payout_ready (forgive_debt i e3) \<noteq> 0 \<longrightarrow> payable (forgive_debt i e3)"
          using p2 swept_payable[OF _ l3 d3 i2] forgiven_payable[OF _ i3] M34 by simp
        have fe: "fee_ok (accounts e2 ! i)" "0 \<le> capital (accounts e2 ! i)"
          using acct_typed(5,6)[OF stage_D(1)[OF s2] i2] by blast+
        have "capital (accounts e3 ! i) = max 0 (capital (accounts e2 ! i) + fee_credits (accounts e2 ! i))"
          using d3 fee_effect_reads(1)[OF i2] fe by (auto simp: debt_swept_def Let_def fee_ok_def)
        then have cap: "capital (accounts (forgive_debt i e3) ! i) = max 0 (capital ?a + terminal_claim e2 ?a + fee_credits ?a)"
          using V2 K(1,8) F(4) by (simp add: forgiven_capital terminal_claim_def)
        show "okP (sacct (forgive_debt i e3) i (\<lambda>a.
          if capital a > vault (forgive_debt i e3) then (Err InsufficientBalance, forgive_debt i e3)
          else
            let e = (forgive_debt i e3)\<lparr> vault := vault (forgive_debt i e3) - capital a \<rparr> in
            sthen (set_capital i 0 e) (\<lambda>_ e.
            sthen (free_and_sweep i e) (\<lambda>_ e. (Ok (capital a), e))))) P"
        proof (rule pay_terminal[OF v R u i st _ _ _ p4])
          show "current_slot (forgive_debt i e3) = current_slot e" "resolved_slot (forgive_debt i e3) = resolved_slot e"
            "balanced (forgive_debt i e3) = balanced e" using M34 B2 M1 by simp_all
          fix e' assume r: "rinv e'" and a: "account_closed i (capital (accounts (forgive_debt i e3) ! i)) e e'"
            and m: "mkt_fields e' = mkt_fields (forgive_debt i e3)"
          have m2: "mkt_fields e' = mkt_fields e2" using m m34 by simp
          note H = mkt_resolved[OF m2]
          have "terminal_claim e' ?a = terminal_claim e2 ?a" by (simp add: terminal_claim_def H)
          then have "terminally_closed i (capital (accounts (forgive_debt i e3) ! i)) e e'"
            using a cap fz b nn by (simp add: terminally_closed_def terminal_payment_def Let_def snapshot_frozen_def H)
          then show "P (capital (accounts (forgive_debt i e3) ! i)) e'" using r R rd H by (simp add: P_def)
        qed
      qed
    qed
  qed
  have "okP (close_resolved_terminal_not_atomic i e) P"
    unfolding close_resolved_terminal_not_atomic_def okP_if okP_sacct okP_basic Let_def[of "forgive_debt i _"]
    using main by (simp add: not_le not_less)
  then show ?thesis by (simp only: P_def)
qed


section \<open>Reconciling and closing in one call\<close>

text \<open>
  A call either closes the account, paying what the terminal close of the reconciled account pays, or
  leaves it reconciled and open because its profit is not yet payable.
\<close>

lemma maybe_finalize_rinv:
  assumes v: "rinv e"
  shows "rinv (maybe_finalize_ready_reset_sides e)" "stage {} e (maybe_finalize_ready_reset_sides e)"
    "accounts (maybe_finalize_ready_reset_sides e) = accounts e"
    "resolved_payout_ready (maybe_finalize_ready_reset_sides e) = resolved_payout_ready e"
    "is_terminal_ready (maybe_finalize_ready_reset_sides e) = is_terminal_ready e"
    "settlement_terms (maybe_finalize_ready_reset_sides e) = settlement_terms e"
    "snapshot_frozen e (maybe_finalize_ready_reset_sides e)"
proof -
  let ?f = "maybe_finalize_ready_reset_sides e"
  note I = inv_D[OF rinv_D(1)[OF v]]
  note S = maybe_finalize_stage[OF I(2)]
  have one: "accounts (if c then set_side_mode s m e else e) = accounts e
      \<and> c_tot (if c then set_side_mode s m e else e) = c_tot e
      \<and> insurance_fund (if c then set_side_mode s m e else e) = insurance_fund e
      \<and> vault (if c then set_side_mode s m e else e) = vault e
      \<and> current_slot (if c then set_side_mode s m e else e) = current_slot e
      \<and> resolved_slot (if c then set_side_mode s m e else e) = resolved_slot e
      \<and> market_mode (if c then set_side_mode s m e else e) = market_mode e
      \<and> resolved_payout_ready (if c then set_side_mode s m e else e) = resolved_payout_ready e
      \<and> resolved_payout_h_num (if c then set_side_mode s m e else e) = resolved_payout_h_num e
      \<and> resolved_payout_h_den (if c then set_side_mode s m e else e) = resolved_payout_h_den e
      \<and> is_terminal_ready (if c then set_side_mode s m e else e) = is_terminal_ready e
      \<and> settlement_terms (if c then set_side_mode s m e else e) = settlement_terms e" for c s m e
    by (cases s) (simp_all add: is_terminal_ready_def settlement_terms_def)
  have F: "accounts ?f = accounts e" "c_tot ?f = c_tot e" "insurance_fund ?f = insurance_fund e"
    "vault ?f = vault e" "current_slot ?f = current_slot e" "resolved_slot ?f = resolved_slot e"
    "market_mode ?f = market_mode e" "resolved_payout_ready ?f = resolved_payout_ready e"
    "resolved_payout_h_num ?f = resolved_payout_h_num e" "resolved_payout_h_den ?f = resolved_payout_h_den e"
    "is_terminal_ready ?f = is_terminal_ready e" "settlement_terms ?f = settlement_terms e"
    unfolding maybe_finalize_ready_reset_sides_def Let_def using one by simp_all
  show "stage {} e ?f" by (rule S(1))
  show "accounts ?f = accounts e" "resolved_payout_ready ?f = resolved_payout_ready e"
    "is_terminal_ready ?f = is_terminal_ready e" "settlement_terms ?f = settlement_terms e" by (rule F)+
  show "snapshot_frozen e ?f" by (simp add: snapshot_frozen_def F)
  have "inv ?f"
    using stage_slab[OF S(1) I(1)] stage_D(1,7)[OF S(1)] I(3,4) S(2) by (simp add: inv_def)
  moreover have "payable ?f = payable e" by (simp add: payable_def F)
  ultimately show "rinv ?f" using v by (simp add: rinv_def resolved_ok_def F)
qed

definition force_closed :: "nat \<Rightarrow> resolved_close_result \<Rightarrow> engine \<Rightarrow> engine \<Rightarrow> bool" where
  "force_closed i r e e' =
     (settlement_terms e' = settlement_terms e \<and> snapshot_frozen e e' \<and>
      (\<exists>e1. rinv e1 \<and> reconciled i e e1 \<and>
        (case r of
           ProgressOnly \<Rightarrow> stage {} e1 e' \<and> accounts e' = accounts e1 \<and> 0 < pnl (accounts e' ! i) \<and> \<not> is_terminal_ready e'
         | Closed cap \<Rightarrow> account_closed i cap e e'
             \<and> cap = max 0 (capital (accounts e1 ! i) + terminal_claim e' (accounts e1 ! i) + fee_credits (accounts e1 ! i)))))"

theorem force_close_spec:
  assumes v: "rinv e"
  shows "okP (force_close_resolved_not_atomic i e) (\<lambda>r e'. rinv e' \<and> market_mode e = Resolved
     \<and> is_used e i \<and> force_closed i r e e')"
    (is "okP _ ?P")
proof -
  define P where "P = ?P"
  have "okP (force_close_resolved_not_atomic i e) P"
    unfolding force_close_resolved_not_atomic_def Let_def
  proof (rule okP_then[OF reconcile_spec[OF v]], elim conjE)
    fix x e1 assume v1: "rinv e1" and R: "market_mode e = Resolved" and u: "is_used e i"
      and i: "i < MAX_ACCOUNTS e" and r: "reconciled i e e1"
    let ?f = "maybe_finalize_ready_reset_sides e1"
    note F = maybe_finalize_rinv[OF v1]
    have st: "stage {i} e e1" using r by (simp add: reconciled_def Let_def)
    note S = stage_D[OF st] and T = stage_D[OF F(2)]
    have "mkt_fields e1 = mkt_fields e" using r by (simp add: reconciled_def Let_def)
    note M = mkt_resolved[OF this]
    have fz: "settlement_terms ?f = settlement_terms e" "snapshot_frozen e ?f"
      using F(6,7) M by (simp_all add: snapshot_frozen_def)
    have rd: "resolved_payout_ready e \<noteq> 0 \<Longrightarrow> resolved_payout_ready ?f \<noteq> 0" using F(4) M by simp
    have prog: "P ProgressOnly ?f" if "0 < pnl (accounts ?f ! i)" "\<not> is_terminal_ready ?f"
      using that F v1 r R u fz by (auto simp: P_def force_closed_def)
    have close: "okP (sthen (close_resolved_terminal_not_atomic i ?f) (\<lambda>cap e. (Ok (Closed cap), e))) P"
    proof (rule okP_then[OF close_terminal_spec[OF F(1)]], elim conjE)
      fix cap e2 assume v2: "rinv e2" and c: "terminally_closed i cap ?f e2"
      have a: "account_closed i cap ?f e2" and k: "cap = terminal_payment i ?f e2"
        and z: "settlement_terms e2 = settlement_terms ?f" "snapshot_frozen ?f e2"
        using c unfolding terminally_closed_def by blast+
      have us: "used_set ?f = used_set e" using stage_used_set[OF F(2)] stage_used_set[OF st] by simp
      have "account_closed i cap e e2"
        using a S T us u by (simp add: account_closed_def)
      then have "force_closed i (Closed cap) e e2"
        using v1 r k F(3) z fz rd by (auto simp: force_closed_def terminal_payment_def Let_def snapshot_frozen_def)
      then show "okP (Ok (Closed cap), e2) P" using v2 R u by (simp add: P_def)
    qed
    show "okP (sacct ?f i (\<lambda>a. if pnl a > 0 \<and> \<not> is_terminal_ready ?f then (Ok ProgressOnly, ?f)
        else sthen (close_resolved_terminal_not_atomic i ?f) (\<lambda>cap e. (Ok (Closed cap), e)))) P"
      unfolding okP_sacct okP_if okP_basic using prog close by blast
  qed
  then show ?thesis by (simp only: P_def)
qed

end
