(* ===== verification/Transactions.thy ===== *)
theory Transactions
  imports Prelude
begin

text \<open>
  Transaction systems: a state and instructions on it that either commit or are dropped with whatever
  they had done. The engine, the oracle program and the wrapper program are each run as one; what every
  run keeps is proved once, in the locale \<open>custodian\<close>.
\<close>

section \<open>Transaction systems\<close>

text \<open>
  \<open>runs exec typed s tr s'\<close>: the well-typed instructions of the trace \<open>tr\<close>, each with the amount it
  moved, succeed one after the other and lead from \<open>s\<close> to \<open>s'\<close>.
\<close>

inductive runs :: "('i \<Rightarrow> 's \<Rightarrow> ('e, int) res \<times> 's) \<Rightarrow> ('i \<Rightarrow> bool) \<Rightarrow> 's \<Rightarrow> ('i \<times> int) list \<Rightarrow> 's \<Rightarrow> bool"
  for exec typed
where
  runs_nil: "runs exec typed s [] s"
| runs_cons: "typed i \<Longrightarrow> exec i s = (Ok n, s1) \<Longrightarrow> runs exec typed s1 tr s2
      \<Longrightarrow> runs exec typed s ((i, n) # tr) s2"

inductive_cases runs_consE: "runs exec typed s (x # tr) s'"
inductive_simps runs_simps: "runs exec typed s [] s'" "runs exec typed s ((i, n) # tr) s'"

text \<open>Submitting a list of instructions: the failed ones are dropped with their partial effects.\<close>

fun submit :: "('i \<Rightarrow> 's \<Rightarrow> ('e, int) res \<times> 's) \<Rightarrow> 'i list \<Rightarrow> 's \<Rightarrow> ('i \<times> int) list \<times> 's" where
  "submit exec [] s = ([], s)"
| "submit exec (i # is) s =
     (case exec i s of
        (Ok n, s1) \<Rightarrow> let (tr, s2) = submit exec is s1 in ((i, n) # tr, s2)
      | _ \<Rightarrow> submit exec is s)"

lemma submit_runs:
  "list_all typed is \<Longrightarrow> submit exec is s = (tr, s') \<Longrightarrow> runs exec typed s tr s'"
proof (induction "is" arbitrary: s tr s')
  case Nil
  then show ?case by (simp add: runs_nil)
next
  case (Cons i "is")
  obtain r s1 where x: "exec i s = (r, s1)" by fastforce
  show ?case
  proof (cases r)
    case (Ok n)
    obtain tr2 s2 where y: "submit exec is s1 = (tr2, s2)" by fastforce
    have "tr = (i, n) # tr2" "s' = s2" using Cons.prems(2) x Ok y by simp_all
    then show ?thesis using Cons.IH[OF _ y] Cons.prems(1) x Ok by (auto intro: runs_cons)
  next
    case (Err er)
    then show ?thesis using Cons.IH Cons.prems x by simp
  next
    case Panic
    then show ?thesis using Cons.IH Cons.prems x by simp
  qed
qed

lemma runs_append: "runs exec typed s tr1 s1 \<Longrightarrow> runs exec typed s1 tr2 s2 \<Longrightarrow> runs exec typed s (tr1 @ tr2) s2"
  by (induction rule: runs.induct) (auto intro: runs_cons)

text \<open>
  The contract of a custodian: every well-typed instruction that succeeds keeps the invariant and
  changes the funds by exactly what it reports, and what is final stays final.
\<close>

locale custodian =
  fixes exec :: "'i \<Rightarrow> 's \<Rightarrow> ('e, int) res \<times> 's"
    and typed :: "'i \<Rightarrow> bool" and sound :: "'s \<Rightarrow> bool" and funds :: "'s \<Rightarrow> int"
    and later :: "'s \<Rightarrow> 's \<Rightarrow> bool"
  assumes exec_law: "typed i \<Longrightarrow> sound s \<Longrightarrow> okP (exec i s) (\<lambda>n s'. sound s' \<and> funds s' = funds s + n \<and> later s s')"
    and later_refl: "later s s"
    and later_trans: "later s s1 \<Longrightarrow> later s1 s2 \<Longrightarrow> later s s2"
begin

lemma runs_sound:
  "runs exec typed s tr s' \<Longrightarrow> sound s \<Longrightarrow> sound s' \<and> funds s' = funds s + sum_list (map snd tr) \<and> later s s'"
proof (induction rule: runs.induct)
  case (runs_nil s)
  then show ?case using later_refl by simp
next
  case (runs_cons i s n s1 tr s2)
  have "sound s1 \<and> funds s1 = funds s + n \<and> later s s1"
    using okP_D[OF exec_law[OF runs_cons.hyps(1) runs_cons.prems] runs_cons.hyps(2)] .
  then show ?case using runs_cons.IH later_trans by auto
qed

lemma submit_sound:
  assumes "list_all typed is" "submit exec is s = (tr, s')" "sound s"
  shows "sound s' \<and> funds s' = funds s + sum_list (map snd tr) \<and> later s s'"
  by (rule runs_sound[OF submit_runs[OF assms(1,2)] assms(3)])

end

end
