(* ===== verification/Lifecycle.thy ===== *)
theory Lifecycle
  imports Resolve Transactions
begin

text \<open>
  The public instructions of the engine as one transition system. Every instruction reports the net
  amount of tokens it moves into the vault. The code's instructions are not atomic: on an error the
  caller must drop the state, so that a submitted instruction either commits or leaves the state as
  it was.
\<close>

section \<open>The instructions of the engine\<close>

datatype instruction =
  Deposit nat int int
| Withdraw nat int int int int int int
| Settle nat int int int int int
| Trade nat nat int int int int int int int
| Liquidate nat int int liquidation_policy int int int
| Crank int int "(nat \<times> liquidation_policy option) list" int int int int
| Convert nat int int int int int int
| CloseAccount nat int int int int int
| ResolveMarket resolve_mode int int int int
| Reconcile nat
| TerminalClose nat
| ForceClose nat
| Reclaim nat int
| TopUpInsurance int int
| ChargeFee nat int int
| SettleFlatNegative nat int
| SyncFee nat int int
| DepositFeeCredits nat int int
| SetOwner nat "8 word list"

definition moving :: "'a step \<Rightarrow> ('a \<Rightarrow> int) \<Rightarrow> int step" where
  "moving m f = sthen m (\<lambda>x e. (Ok (f x), e))"

fun paid_by :: "resolved_close_result \<Rightarrow> int" where
  "paid_by ProgressOnly = 0"
| "paid_by (Closed cap) = cap"

fun exec :: "instruction \<Rightarrow> engine \<Rightarrow> int step" where
  "exec (Deposit i amount now) e = moving (deposit_not_atomic i amount now e) (\<lambda>_. amount)"
| "exec (Withdraw i amount px now rate lo hi) e = moving (withdraw_not_atomic i amount px now rate lo hi e) (\<lambda>_. - amount)"
| "exec (Settle i px now rate lo hi) e = moving (settle_account_not_atomic i px now rate lo hi e) (\<lambda>_. 0)"
| "exec (Trade a b px now q xp rate lo hi) e = moving (execute_trade_not_atomic a b px now q xp rate lo hi e) (\<lambda>_. 0)"
| "exec (Liquidate i now px policy rate lo hi) e = moving (liquidate_at_oracle_not_atomic i now px policy rate lo hi e) (\<lambda>_. 0)"
| "exec (Crank now px cs m rate lo hi) e = moving (keeper_crank_not_atomic now px cs m rate lo hi e) (\<lambda>_. 0)"
| "exec (Convert i x px now rate lo hi) e = moving (convert_released_pnl_not_atomic i x px now rate lo hi e) (\<lambda>_. 0)"
| "exec (CloseAccount i now px rate lo hi) e = moving (close_account_not_atomic i now px rate lo hi e) (\<lambda>cap. - cap)"
| "exec (ResolveMarket mode res px now rate) e = moving (resolve_market_not_atomic mode res px now rate e) (\<lambda>_. 0)"
| "exec (Reconcile i) e = moving (reconcile_resolved_not_atomic i e) (\<lambda>_. 0)"
| "exec (TerminalClose i) e = moving (close_resolved_terminal_not_atomic i e) (\<lambda>cap. - cap)"
| "exec (ForceClose i) e = moving (force_close_resolved_not_atomic i e) (\<lambda>r. - paid_by r)"
| "exec (Reclaim i now) e = moving (reclaim_empty_account_not_atomic i now e) (\<lambda>_. 0)"
| "exec (TopUpInsurance amount now) e = moving (top_up_insurance_fund amount now e) (\<lambda>_. amount)"
| "exec (ChargeFee i fee now) e = moving (charge_account_fee_not_atomic i fee now e) (\<lambda>_. 0)"
| "exec (SettleFlatNegative i now) e = moving (settle_flat_negative_pnl_not_atomic i now e) (\<lambda>_. 0)"
| "exec (SyncFee i now rate) e = moving (sync_account_fee_to_slot_not_atomic i now rate e) (\<lambda>_. 0)"
| "exec (DepositFeeCredits i amount now) e = moving (deposit_fee_credits i amount now e) (\<lambda>_. amount)"
| "exec (SetOwner i ow) e = moving (set_owner i ow e) (\<lambda>_. 0)"

text \<open>The types of the code's arguments: unsigned amounts, prices, slots and horizons.\<close>

fun well_typed :: "instruction \<Rightarrow> bool" where
  "well_typed (Deposit i amount now) = (in_u64 now \<and> in_u128 amount)"
| "well_typed (Withdraw i amount px now rate lo hi) = (in_u64 now \<and> in_u64 px \<and> in_u64 lo \<and> in_u64 hi \<and> in_u128 amount)"
| "well_typed (Settle i px now rate lo hi) = (in_u64 now \<and> in_u64 px \<and> in_u64 lo \<and> in_u64 hi)"
| "well_typed (Trade a b px now q xp rate lo hi) = (in_u64 now \<and> in_u64 px \<and> in_u64 lo \<and> in_u64 hi)"
| "well_typed (Liquidate i now px policy rate lo hi) =
     (in_u64 now \<and> in_u64 px \<and> in_u64 lo \<and> in_u64 hi \<and> policy_typed policy)"
| "well_typed (Crank now px cs m rate lo hi) =
     (in_u64 now \<and> in_u64 px \<and> in_u64 lo \<and> in_u64 hi
      \<and> list_all (\<lambda>c. case snd c of Some p \<Rightarrow> policy_typed p | None \<Rightarrow> True) cs)"
| "well_typed (Convert i x px now rate lo hi) = (in_u64 now \<and> in_u64 px \<and> in_u64 lo \<and> in_u64 hi \<and> in_u128 x)"
| "well_typed (CloseAccount i now px rate lo hi) = (in_u64 now \<and> in_u64 px \<and> in_u64 lo \<and> in_u64 hi)"
| "well_typed (ResolveMarket mode res px now rate) = (in_u64 now \<and> in_u64 px)"
| "well_typed (Reconcile i) = True"
| "well_typed (TerminalClose i) = True"
| "well_typed (ForceClose i) = True"
| "well_typed (Reclaim i now) = in_u64 now"
| "well_typed (TopUpInsurance amount now) = (in_u64 now \<and> in_u128 amount)"
| "well_typed (ChargeFee i fee now) = (in_u64 now \<and> in_u128 fee)"
| "well_typed (SettleFlatNegative i now) = in_u64 now"
| "well_typed (SyncFee i now rate) = (in_u64 now \<and> in_u128 rate)"
| "well_typed (DepositFeeCredits i amount now) = (in_u64 now \<and> in_u128 amount)"
| "well_typed (SetOwner i ow) = True"

text \<open>
  What is final: the parameters, and after the resolution the mode, the terms of the settlement and
  the haircut once taken.
\<close>

definition later :: "engine \<Rightarrow> engine \<Rightarrow> bool" where
  "later e e' =
     (params e' = params e
      \<and> (market_mode e = Resolved \<longrightarrow> market_mode e' = Resolved \<and> settlement_terms e' = settlement_terms e
            \<and> snapshot_frozen e e'))"

lemma later_order: "later e e" "later e e1 \<Longrightarrow> later e1 e2 \<Longrightarrow> later e e2"
  by (auto simp: later_def snapshot_frozen_def)

definition stepped :: "engine \<Rightarrow> int \<Rightarrow> engine \<Rightarrow> bool" where
  "stepped e n e' = (rinv e' \<and> vault e' = vault e + n \<and> later e e')"

lemma moving_okP: "okP m (\<lambda>x e'. P (f x) e') \<Longrightarrow> okP (moving m f) P"
  by (simp add: moving_def okP_sthen)

lemma live_stepped:
  assumes "okP m (\<lambda>x e'. inv e' \<and> vault e' = vault e + f x \<and> params e' = params e
      \<and> market_mode e' = market_mode e)"
    and "okP m (\<lambda>_ _. market_mode e = Live)"
  shows "okP (moving m f) (stepped e)"
  by (rule moving_okP, rule okP_mono[OF okP_conj[OF assms]]) (simp add: stepped_def live_rinv later_def)

lemma stage_stepped:
  assumes "okP m (\<lambda>x e'. inv e' \<and> stage (S x) e e' \<and> Q x e')" "okP m (\<lambda>_ _. market_mode e = Live)"
  shows "okP (moving m (\<lambda>_. 0)) (stepped e)"
  by (rule live_stepped[OF okP_mono[OF assms(1)] assms(2)]) (auto dest: stage_D)


section \<open>The instructions of a live market\<close>

lemma needs_live:
  "okP (settle_account_not_atomic i px now rate lo hi e) (\<lambda>_ _. market_mode e = Live)"
  "okP (execute_trade_not_atomic a b px now q xp rate lo hi e) (\<lambda>_ _. market_mode e = Live)"
  "okP (convert_released_pnl_not_atomic i x px now rate lo hi e) (\<lambda>_ _. market_mode e = Live)"
  "okP (close_account_not_atomic i now px rate lo hi e) (\<lambda>_ _. market_mode e = Live)"
  "okP (keeper_crank_not_atomic now px cs m rate lo hi e) (\<lambda>_ _. market_mode e = Live)"
  "okP (reclaim_empty_account_not_atomic i now e) (\<lambda>_ _. market_mode e = Live)"
  "okP (charge_account_fee_not_atomic i fee now e) (\<lambda>_ _. market_mode e = Live)"
  "okP (settle_flat_negative_pnl_not_atomic i now e) (\<lambda>_ _. market_mode e = Live)"
  "okP (deposit_fee_credits i amount now e) (\<lambda>_ _. market_mode e = Live)"
  "okP (top_up_insurance_fund amount now e) (\<lambda>_ _. market_mode e = Live)"
  "okP (liquidate_at_oracle_not_atomic i now px policy rate lo hi e) (\<lambda>_ _. market_mode e = Live)"
proof -
  have L: "okR r (\<lambda>_. market_mode e = Live) \<Longrightarrow> okP (sval r s k) (\<lambda>_ _. market_mode e = Live)" for r s k
    by (auto simp: okP_sval elim!: okR_mono)
  show "okP (settle_account_not_atomic i px now rate lo hi e) (\<lambda>_ _. market_mode e = Live)"
    "okP (convert_released_pnl_not_atomic i x px now rate lo hi e) (\<lambda>_ _. market_mode e = Live)"
    unfolding settle_account_not_atomic_def convert_released_pnl_not_atomic_def
    by (rule L, rule okR_mono[OF live_prologue_okR], simp)+
  show "okP (execute_trade_not_atomic a b px now q xp rate lo hi e) (\<lambda>_ _. market_mode e = Live)"
    unfolding execute_trade_not_atomic_def by (rule L, rule okR_mono[OF trade_checks_okR], simp)
  show "okP (reclaim_empty_account_not_atomic i now e) (\<lambda>_ _. market_mode e = Live)"
    "okP (charge_account_fee_not_atomic i fee now e) (\<lambda>_ _. market_mode e = Live)"
    "okP (settle_flat_negative_pnl_not_atomic i now e) (\<lambda>_ _. market_mode e = Live)"
    "okP (deposit_fee_credits i amount now e) (\<lambda>_ _. market_mode e = Live)"
    unfolding reclaim_empty_account_not_atomic_def charge_account_fee_not_atomic_def
      settle_flat_negative_pnl_not_atomic_def deposit_fee_credits_def
    by (rule L, rule okR_mono[OF live_account_okR], simp)+
  show "okP (close_account_not_atomic i now px rate lo hi e) (\<lambda>_ _. market_mode e = Live)"
    "okP (keeper_crank_not_atomic now px cs m rate lo hi e) (\<lambda>_ _. market_mode e = Live)"
    "okP (top_up_insurance_fund amount now e) (\<lambda>_ _. market_mode e = Live)"
    "okP (liquidate_at_oracle_not_atomic i now px policy rate lo hi e) (\<lambda>_ _. market_mode e = Live)"
    by (cases "market_mode e = Live"; simp add: close_account_not_atomic_def keeper_crank_not_atomic_def
        top_up_insurance_fund_def liquidate_at_oracle_not_atomic_def okP_sval okP_if okR_I)+
qed


fun is_live_instruction :: "instruction \<Rightarrow> bool" where
  "is_live_instruction (ResolveMarket mode res px now rate) = False"
| "is_live_instruction (Reconcile i) = False"
| "is_live_instruction (TerminalClose i) = False"
| "is_live_instruction (ForceClose i) = False"
| "is_live_instruction (SyncFee i now rate) = False"
| "is_live_instruction (SetOwner i ow) = False"
| "is_live_instruction _ = True"

lemma u_nonneg [dest]: "in_u64 x \<Longrightarrow> 0 \<le> x" "in_u128 x \<Longrightarrow> 0 \<le> x"
  by (simp_all add: in_u64_def in_u128_def)

lemma fee_credits_static:
  "okP (deposit_fee_credits i amount now e) (\<lambda>_ e'. params e' = params e \<and> market_mode e' = market_mode e)"
  unfolding deposit_fee_credits_def okP_sval okP_sacct Let_def okP_if okP_basic okR_ok_or
  by (auto intro!: okR_I)

lemma exec_live:
  assumes w: "well_typed ins" and v: "rinv e" and l: "is_live_instruction ins"
  shows "okP (exec ins e) (stepped e)"
proof (cases ins)
  case (Deposit i amount now)
  have "okP (deposit_not_atomic i amount now e) (\<lambda>_ e'. inv e' \<and> deposited i amount now e e')"
    by (rule deposit_spec[OF rinv_D(1)[OF v]]) (use w Deposit in \<open>auto\<close>)
  then show ?thesis
    unfolding Deposit exec.simps
    by (intro live_stepped) (auto simp: deposited_def elim!: okP_mono)
next
  case (Withdraw i amount px now rate lo hi)
  have "okP (withdraw_not_atomic i amount px now rate lo hi e) (\<lambda>_ e'. inv e' \<and> withdrawn i amount e e')"
    by (rule withdraw_spec[OF rinv_D(1)[OF v]]) (use w Withdraw in \<open>auto\<close>)
  then show ?thesis
    unfolding Withdraw exec.simps
    by (intro live_stepped) (auto simp: withdrawn_def elim!: okP_mono)
next
  case (Settle i px now rate lo hi)
  have "okP (settle_account_not_atomic i px now rate lo hi e) (\<lambda>_ e'. inv e' \<and> stage {i} e e')"
    by (rule settle_account_spec[OF rinv_D(1)[OF v]]) (use w Settle in \<open>auto\<close>)
  then show ?thesis
    unfolding Settle exec.simps by (intro stage_stepped needs_live) (auto elim!: okP_mono)
next
  case (Trade a b px now q xp rate lo hi)
  have "okP (execute_trade_not_atomic a b px now q xp rate lo hi e)
     (\<lambda>_ e'. inv e' \<and> stage {a, b} e e' \<and> is_used e a \<and> is_used e b \<and> a \<noteq> b \<and> 0 < q)"
    by (rule execute_trade_spec[OF rinv_D(1)[OF v]]) (use w Trade in \<open>auto\<close>)
  then show ?thesis
    unfolding Trade exec.simps by (intro stage_stepped needs_live) (auto elim!: okP_mono)
next
  case (Liquidate i now px policy rate lo hi)
  have "okP (liquidate_at_oracle_not_atomic i now px policy rate lo hi e) (\<lambda>_ e'. inv e' \<and> stage {i} e e')"
    by (rule liquidate_spec[OF rinv_D(1)[OF v]]) (use w Liquidate in \<open>auto\<close>)
  then show ?thesis
    unfolding Liquidate exec.simps by (intro stage_stepped needs_live) (auto elim!: okP_mono)
next
  case (Crank now px cs m rate lo hi)
  have "okP (keeper_crank_not_atomic now px cs m rate lo hi e) (\<lambda>out e'. inv e'
     \<and> stage {j. j \<in> fst ` set cs \<and> is_used e j} e e' \<and> int (num_liquidations out) \<le> max 0 m)"
    by (rule crank_spec[OF rinv_D(1)[OF v]]) (use w Crank in \<open>auto simp: list_all_iff split: option.splits\<close>)
  then show ?thesis
    unfolding Crank exec.simps by (intro stage_stepped needs_live) (auto elim!: okP_mono)
next
  case (Convert i x px now rate lo hi)
  have "okP (convert_released_pnl_not_atomic i x px now rate lo hi e) (\<lambda>_ e'. inv e' \<and> stage {i} e e')"
    by (rule convert_spec_public[OF rinv_D(1)[OF v]]) (use w Convert in \<open>auto\<close>)
  then show ?thesis
    unfolding Convert exec.simps by (intro stage_stepped needs_live) (auto elim!: okP_mono)
next
  case (CloseAccount i now px rate lo hi)
  have "okP (close_account_not_atomic i now px rate lo hi e) (\<lambda>cap e'. inv e' \<and> account_closed i cap e e')"
    by (rule close_account_spec[OF rinv_D(1)[OF v]]) (use w CloseAccount in \<open>auto\<close>)
  then show ?thesis
    unfolding CloseAccount exec.simps
    by (intro live_stepped needs_live) (auto simp: account_closed_def elim!: okP_mono)
next
  case (Reclaim i now)
  have "okP (reclaim_empty_account_not_atomic i now e) (\<lambda>_ e'. inv e' \<and> account_closed i 0 e e'
     \<and> is_dust (accounts e ! i) e)"
    by (rule reclaim_spec[OF rinv_D(1)[OF v]]) (use w Reclaim in \<open>auto\<close>)
  then show ?thesis
    unfolding Reclaim exec.simps
    by (intro live_stepped needs_live) (auto simp: account_closed_def elim!: okP_mono)
next
  case (TopUpInsurance amount now)
  have "okP (top_up_insurance_fund amount now e) (\<lambda>above e'. inv e'
     \<and> e' = set_insurance (ins_bal e + amount) (e\<lparr> current_slot := now, vault := vault e + amount \<rparr>)
     \<and> vault e' \<le> MAX_VAULT_TVL \<and> above = (ins_bal e' > insurance_floor (params e')))"
    by (rule top_up_spec[OF rinv_D(1)[OF v]]) (use w TopUpInsurance in \<open>auto\<close>)
  then show ?thesis
    unfolding TopUpInsurance exec.simps
    by (intro live_stepped needs_live) (auto elim!: okP_mono)
next
  case (ChargeFee i fee now)
  note charge_account_fee_spec[OF rinv_D(1)[OF v], of now fee i]
  then show ?thesis
    unfolding ChargeFee exec.simps using w ChargeFee
    by (intro stage_stepped needs_live) (auto elim!: okP_mono)
next
  case (SettleFlatNegative i now)
  note settle_flat_negative_spec[OF rinv_D(1)[OF v], of now i]
  then show ?thesis
    unfolding SettleFlatNegative exec.simps using w SettleFlatNegative
    by (intro stage_stepped needs_live) (auto elim!: okP_mono)
next
  case (DepositFeeCredits i amount now)
  have "in_u64 now" "0 \<le> amount" using w DepositFeeCredits by auto
  note okP_conj[OF deposit_fee_credits_spec[OF rinv_D(1)[OF v] this, of i] fee_credits_static]
  then show ?thesis
    unfolding DepositFeeCredits exec.simps
    by (intro live_stepped needs_live) (auto elim!: okP_mono)
qed (use l in simp_all)


section \<open>The instructions of a resolved market\<close>

text \<open>A step that moves value between capital and insurance only, and no profit.\<close>

definition senior_kept :: "engine \<Rightarrow> engine \<Rightarrow> bool" where
  "senior_kept e e' =
     (mkt_fields e' = mkt_fields e \<and> MAX_ACCOUNTS e' = MAX_ACCOUNTS e \<and> vault e' = vault e
      \<and> c_tot e' + ins_bal e' = c_tot e + ins_bal e
      \<and> (\<forall>j. pnl (accounts e' ! j) = pnl (accounts e ! j)
             \<and> position_basis_q (accounts e' ! j) = position_basis_q (accounts e ! j)))"

lemma senior_kept_trans: "senior_kept e e1 \<Longrightarrow> senior_kept e1 e2 \<Longrightarrow> senior_kept e e2"
  by (simp add: senior_kept_def)

lemma senior_kept_refl: "senior_kept e e"
  by (simp add: senior_kept_def)

lemma senior_upd:
  assumes "\<And>a. pnl (f a) = pnl a" "\<And>a. position_basis_q (f a) = position_basis_q a"
  shows "senior_kept e (upd i f e)"
proof -
  have "pnl (accounts (upd i f e) ! j) = pnl (accounts e ! j)
      \<and> position_basis_q (accounts (upd i f e) ! j) = position_basis_q (accounts e ! j)" for j
    using assms by (cases "i < MAX_ACCOUNTS e"; cases "j = i") (simp_all add: upd_def list_update_beyond)
  then show ?thesis by (simp add: senior_kept_def mkt_fields_def upd_def)
qed

lemma senior_fee:
  assumes "i < MAX_ACCOUNTS e"
  shows "senior_kept e (fee_effect i p c e)"
proof -
  note R = fee_effect_reads[OF assms, where p = p and c = c]
  have "pnl (accounts (fee_effect i p c e) ! j) = pnl (accounts e ! j)
      \<and> position_basis_q (accounts (fee_effect i p c e) ! j) = position_basis_q (accounts e ! j)" for j
    using R(1) R(10)[of j] by (cases "j = i") simp_all
  then show ?thesis using R by (simp add: senior_kept_def)
qed

lemma charge_fee_senior:
  assumes g: "good e" and f: "0 \<le> fee"
  shows "okP (charge_fee_to_insurance i fee e) (\<lambda>_ e'. senior_kept e e')"
proof (cases "i < MAX_ACCOUNTS e")
  case False
  then show ?thesis by (simp add: charge_fee_to_insurance_def okP_sacct)
next
  case True
  have fc: "in_i128 (fee_credits (accounts e ! i))" "fee_credits (accounts e ! i) \<le> 0"
    using acct_typed(5)[OF g True] by (simp_all add: fee_ok_def in_i128_def bounds)
  show ?thesis
  proof (rule okP_mono[OF charge_fee_spec[OF good_D(1)[OF g] f fc]])
    fix r :: "int \<times> int \<times> int" and e'
    obtain paid impact dropped where r: "r = (paid, impact, dropped)" by (cases r)
    assume A: "(case r of (paid, impact, dropped) \<Rightarrow> \<lambda>e'. i < MAX_ACCOUNTS e \<and> e' = fee_effect i paid (impact - paid) e
        \<and> paid = min fee (capital (accounts e ! i))
        \<and> impact = paid + min (fee - paid) (max 0 (fee_credits (accounts e ! i) + I128_MAX))
        \<and> impact + dropped = fee \<and> fee \<le> MAX_PROTOCOL_FEE_ABS) e'"
    have "e' = fee_effect i paid (impact - paid) e" using A unfolding r prod.case by blast
    then show "senior_kept e e'" using senior_fee[OF True] by simp
  qed
qed

lemma sync_fee_senior:
  assumes g: "good e" and r: "0 \<le> rate"
  shows "okP (sync_account_fee_to_slot i anchor rate e) (\<lambda>_ e'. senior_kept e e')"
proof -
  have st: "senior_kept e (upd i (\<lambda>a. a\<lparr> last_fee_slot := anchor \<rparr>) e1)" if "senior_kept e e1" for e1
    by (rule senior_kept_trans[OF that senior_upd]) simp_all
  have chg: "okP (sthen (if fee > 0 then sthen (charge_fee_to_insurance i fee e) (\<lambda>_ e. (Ok (), e)) else (Ok (), e))
       (\<lambda>_ e. (Ok (), upd i (\<lambda>a. a\<lparr> last_fee_slot := anchor \<rparr>) e))) (\<lambda>_ e'. senior_kept e e')"
    if "0 \<le> fee" for fee
  proof -
    have "okP (if fee > 0 then sthen (charge_fee_to_insurance i fee e) (\<lambda>_ e. (Ok (), e)) else (Ok (), e))
        (\<lambda>_ e1. senior_kept e e1)"
      using charge_fee_senior[OF g that] senior_kept_refl by (simp add: okP_if okP_sthen)
    then show ?thesis by (rule okP_then) (use st in simp)
  qed
  have m: "0 \<le> MAX_PROTOCOL_FEE_ABS" by (simp add: bounds)
  show ?thesis
    unfolding sync_account_fee_to_slot_def Let_def okP_if okP_sval okR_ok_or okP_basic fit_Some
    using chg st[OF senior_kept_refl] senior_kept_refl m r by (auto simp: in_u128_def split: if_splits)
qed

lemma senior_rinv:
  assumes v: "rinv e" and R: "market_mode e = Resolved" and i: "inv e'" and k: "senior_kept e e'"
    and s: "stage S e e'"
  shows "stepped e 0 e'"
proof -
  have m: "mkt_fields e' = mkt_fields e" using k by (simp add: senior_kept_def)
  note M = mkt_resolved[OF m] and T = stage_D[OF s]
  have "payable e'" if "payable e"
    by (rule payable_cong[OF that m]) (use k in \<open>simp_all add: senior_kept_def\<close>)
  then have "rinv e'" using rinv_D(4,5)[OF v R] i by (simp add: rinv_def resolved_ok_def M)
  then show ?thesis using T M R by (simp add: stepped_def later_def snapshot_frozen_def)
qed

lemma exec_sync:
  assumes w: "in_u64 now" "0 \<le> rate" and v: "rinv e"
  shows "okP (exec (SyncFee i now rate) e) (stepped e)"
proof (cases "market_mode e")
  case Live
  have "okP (sync_account_fee_to_slot_not_atomic i now rate e) (\<lambda>_ e'. inv e' \<and> stage {i} e e' \<and> True)"
    by (rule okP_mono[OF sync_fee_public_spec[OF rinv_D(1)[OF v] w]]) simp
  then show ?thesis unfolding exec.simps by (rule stage_stepped) (simp add: Live)
next
  case Resolved
  have "okP (sync_account_fee_to_slot_not_atomic i now rate e) (\<lambda>_ e'. senior_kept e e')"
    unfolding sync_account_fee_to_slot_not_atomic_def Resolved market_mode.case prod.case Let_def okP_if okP_sval okP_basic
    by (auto intro!: okR_I okP_then[OF sync_fee_senior[OF rinv_D(2)[OF v] w(2)]] simp: okP_sval)
  note okP_conj[OF sync_fee_public_spec[OF rinv_D(1)[OF v] w, of i] this]
  then show ?thesis
    unfolding exec.simps
    by (intro moving_okP) (auto elim!: okP_mono intro: senior_rinv[OF v Resolved])
qed

lemma exec_set_owner:
  assumes v: "rinv e"
  shows "okP (exec (SetOwner i ow) e) (stepped e)"
proof (cases "market_mode e")
  case Live
  have "okP (set_owner i ow e) (\<lambda>_ e'. inv e' \<and> stage {i} e e' \<and> True)"
    by (rule okP_mono[OF set_owner_spec[OF rinv_D(1)[OF v]]]) simp
  then show ?thesis unfolding exec.simps by (rule stage_stepped) (simp add: Live)
next
  case Resolved
  have "okP (set_owner i ow e) (\<lambda>_ e'. senior_kept e e')"
    using senior_upd[of "\<lambda>a. a\<lparr> owner := ow \<rparr>" e i] by (simp add: set_owner_def okP_if)
  note okP_conj[OF set_owner_spec[OF rinv_D(1)[OF v], of i ow] this]
  then show ?thesis
    unfolding exec.simps
    by (intro moving_okP) (auto elim!: okP_mono intro: senior_rinv[OF v Resolved])
qed


lemma exec_resolve:
  assumes "well_typed (ResolveMarket mode res px now rate)" "rinv e"
  shows "okP (exec (ResolveMarket mode res px now rate) e) (stepped e)"
proof -
  have "in_u64 now" "0 \<le> px" using assms(1) by auto
  note resolve_spec[OF rinv_D(1)[OF assms(2)] this, of mode res rate]
  then show ?thesis
    unfolding exec.simps
    by (intro moving_okP) (auto simp: stepped_def later_def market_resolved_def elim!: okP_mono)
qed

lemma exec_reconcile:
  assumes v: "rinv e"
  shows "okP (exec (Reconcile i) e) (stepped e)"
  unfolding exec.simps
proof (rule moving_okP, rule okP_mono[OF reconcile_spec[OF v]], elim conjE)
  fix x e' assume r: "rinv e'" and R: "market_mode e = Resolved" and k: "reconciled i e e'"
  have s: "stage {i} e e'" and m: "mkt_fields e' = mkt_fields e" using k by (simp_all add: reconciled_def Let_def)
  show "stepped e 0 e'"
    using r R stage_D(2,3,4)[OF s] mkt_resolved[OF m] by (simp add: stepped_def later_def snapshot_frozen_def)
qed

lemma exec_terminal_close:
  assumes v: "rinv e"
  shows "okP (exec (TerminalClose i) e) (stepped e)"
  unfolding exec.simps
proof (rule moving_okP, rule okP_mono[OF close_terminal_spec[OF v]], elim conjE)
  fix cap e' assume r: "rinv e'" and R: "market_mode e = Resolved" and c: "terminally_closed i cap e e'"
  then show "stepped e (- cap) e'"
    unfolding stepped_def later_def terminally_closed_def account_closed_def by auto
qed

lemma exec_force_close:
  assumes v: "rinv e"
  shows "okP (exec (ForceClose i) e) (stepped e)"
  unfolding exec.simps
proof (rule moving_okP, rule okP_mono[OF force_close_spec[OF v]], elim conjE)
  fix r e' assume iv: "rinv e'" and R: "market_mode e = Resolved" and f: "force_closed i r e e'"
  obtain e1 where k: "reconciled i e e1" and z: "settlement_terms e' = settlement_terms e" "snapshot_frozen e e'"
    and c: "case r of ProgressOnly \<Rightarrow> stage {} e1 e' \<and> accounts e' = accounts e1 \<and> 0 < pnl (accounts e' ! i) \<and> \<not> is_terminal_ready e'
         | Closed cap \<Rightarrow> account_closed i cap e e'
             \<and> cap = max 0 (capital (accounts e1 ! i) + terminal_claim e' (accounts e1 ! i) + fee_credits (accounts e1 ! i))"
    using f unfolding force_closed_def by blast
  have s: "stage {i} e e1" using k by (simp add: reconciled_def Let_def)
  show "stepped e (- paid_by r) e'"
  proof (cases r)
    case ProgressOnly
    then have "stage {} e1 e'" using c by simp
    then show ?thesis using ProgressOnly iv R z stage_D(2,3,4)[OF s] stage_D(2,3,4)[of "{}" e1 e']
      by (simp add: stepped_def later_def)
  next
    case (Closed cap)
    then show ?thesis using c iv R z by (auto simp: stepped_def later_def account_closed_def)
  qed
qed

theorem exec_sound:
  assumes "well_typed ins" "rinv e"
  shows "okP (exec ins e) (\<lambda>n e'. rinv e' \<and> vault e' = vault e + n \<and> later e e')"
proof -
  have "okP (exec ins e) (stepped e)"
  proof (cases "is_live_instruction ins")
    case True
    show ?thesis by (rule exec_live[OF assms True])
  next
    case False
    then show ?thesis
      using assms exec_resolve[OF _ assms(2)] exec_reconcile[OF assms(2)] exec_terminal_close[OF assms(2)]
        exec_force_close[OF assms(2)] exec_sync[OF _ _ assms(2)] exec_set_owner[OF assms(2)]
      by (cases ins) auto
  qed
  then show ?thesis by (auto simp: stepped_def elim!: okP_mono)
qed

interpretation market: custodian exec well_typed rinv vault later
proof
  show "okP (exec i s) (\<lambda>n s'. rinv s' \<and> vault s' = vault s + n \<and> later s s')"
    if "well_typed i" "rinv s" for i s using exec_sound[OF that] .
qed (rule later_order, assumption?)+

text \<open>Trading on a resolved market is over: only the instructions of the settlement can succeed.\<close>

lemma live_only:
  assumes "well_typed ins" "rinv e" "is_live_instruction ins"
  shows "okP (exec ins e) (\<lambda>_ _. market_mode e = Live)"
proof -
  have m: "okP m (\<lambda>_ _. market_mode e = Live) \<Longrightarrow> okP (moving m f) (\<lambda>_ _. market_mode e = Live)" for m :: "'x step" and f
    by (rule moving_okP)
  show ?thesis
    using assms(3)
    by (cases ins; simp only: exec.simps is_live_instruction.simps simp_thms)
      (rule m, (rule needs_live | simp add: deposit_not_atomic_def withdraw_not_atomic_def okP_if okP_sval,
        (rule impI, rule okR_I | rule okR_mono[OF live_prologue_okR], simp)?))+
qed


section \<open>A new market\<close>

lemma new_market_inv:
  assumes r: "new_with_market n p slot px = Ok e" and n: "n \<le> NIL" and t: "params_typed p" and s: "in_u64 slot"
  shows "rinv e" "vault e = 0" "market_mode e = Live" "used_set e = {}"
proof -
  note N = new_with_market_slab[OF r n t]
  have px: "0 < px" "px \<le> MAX_ORACLE_PRICE"
    using r by (auto simp: new_with_market_def Ok_iffs)
  have e: "e = (blank_engine n p slot px)\<lparr> next_free := linked_next n, prev_free := linked_prev n \<rparr>"
    using new_with_market_eq[OF t N(4) n px, of slot] r by simp
  have F: "vault e = 0" "market_mode e = Live" "ins_bal e = 0" "c_tot e = 0" "oi_eff_long_q e = 0" "oi_eff_short_q e = 0"
    by (simp_all add: e blank_engine_def)
  have fees: "fees_ok e" using N(5) by (simp add: fees_ok_def fee_ok_def empty_account_def bounds)
  have mk: "market_ok e"
    using px s by (simp add: e blank_engine_def market_ok_def in_u128_def in_i128_def in_u64_def bounds)
  have "good e"
    using new_pnl_inv[OF r n t] fees mk N(2,3,4) F t by (simp add: good_def in_u128_def bounds)
  then have "inv e" using N(1) F by (simp add: inv_def solvent_def balanced_def)
  then show "rinv e" using live_rinv F(2) by blast
  show "vault e = 0" "market_mode e = Live" by (rule F)+
  show "used_set e = {}" using N(6) by (simp add: used_set_def)
qed

text \<open>Running a history on a new market: the vault holds what was paid in less what was paid out.\<close>

lemma history_sound:
  assumes r: "new_with_market n p slot px = Ok e" and n: "n \<le> NIL" and t: "params_typed p" and s: "in_u64 slot"
    and h: "list_all well_typed h" "submit exec h e = (tr, e')"
  shows "rinv e' \<and> vault e' = sum_list (map snd tr) \<and> later e e'"
  using market.submit_sound[OF h new_market_inv(1)[OF r n t s]] new_market_inv(2)[OF r n t s] by simp

text \<open>A resolved market accepts the instructions of the settlement only.\<close>

lemma resolved_trace:
  assumes "runs exec well_typed e tr e'" "rinv e" "market_mode e = Resolved"
  shows "list_all (\<lambda>(ins, n). \<not> is_live_instruction ins) tr"
  using assms
proof (induction rule: runs.induct)
  case (runs_nil s)
  then show ?case by simp
next
  case (runs_cons ins s n s1 tr s2)
  have "rinv s1 \<and> vault s1 = vault s + n \<and> later s s1"
    using okP_D[OF exec_sound[OF runs_cons.hyps(1) runs_cons.prems(1)] runs_cons.hyps(2)] .
  moreover have "\<not> is_live_instruction ins"
    using okP_D[OF live_only[OF runs_cons.hyps(1) runs_cons.prems(1)] runs_cons.hyps(2)] runs_cons.prems(2) by auto
  ultimately show ?case using runs_cons.IH runs_cons.prems(2) by (simp add: later_def)
qed

end
