(* ===== verification/Samples.thy ===== *)
theory Samples
  imports Lifecycle "HOL-Library.Code_Target_Numeral"
begin

text \<open>
  Concrete parameters and states of a four-slot market, on which the properties with hypotheses
  are instantiated: a fresh market, the market after two deposits, and the market in which the two
  accounts hold a long and a short position against each other. The states are run through the
  operations of the model by the kernel.
\<close>

definition sample_params :: risk_params where
  "sample_params = \<lparr>
     maintenance_margin_bps = 500, initial_margin_bps = 1000, trading_fee_bps = 10,
     max_accounts = 4, max_crank_staleness_slots = 1000, liquidation_fee_bps = 50,
     liquidation_fee_cap = 1000000, min_liquidation_abs = 10, min_initial_deposit = 100,
     min_nonzero_mm_req = 10, min_nonzero_im_req = 20, insurance_floor = 0,
     h_min = 1, h_max = 100, resolve_price_deviation_bps = 1000,
     max_accrual_dt_slots = 1000, max_abs_funding_e9_per_slot = 100,
     min_funding_lifetime_slots = 1000000, max_active_positions_per_side = 4 \<rparr>"

lemma sample_params_ok: "params_ok 4 sample_params"
  by (simp add: params_ok_def sample_params_def bounds)

lemma sample_params_typed: "params_typed sample_params"
  by (simp add: params_typed_def sample_params_def in_u64_def in_u128_def bounds)

definition sample :: engine where
  "sample = (blank_engine 4 sample_params 0 1000)
     \<lparr> next_free := linked_next 4, prev_free := linked_prev 4 \<rparr>"

lemma sample_new: "new_with_market 4 sample_params 0 1000 = Ok sample"
  unfolding sample_def
  by (rule new_with_market_eq[OF sample_params_typed sample_params_ok]) (simp_all add: bounds NIL_def)

lemmas sample_facts = new_with_market_slab[OF sample_new _ sample_params_typed]

lemma sample_slab: "slab_ok sample" "params sample = sample_params" "MAX_ACCOUNTS sample = 4"
  "accounts sample = replicate 4 empty_account" "\<not> is_used sample i"
  using sample_facts by (simp_all add: NIL_def)

lemma sample_shape: "slab_shape sample"
  using sample_slab(1) by (simp add: slab_ok_def)

lemmas sample_eval = sample_def blank_engine_def sample_params_def empty_account_def
  linked_next_def linked_prev_def

lemma sample_pnl_inv: "pnl_inv sample"
  by (simp add: pnl_inv_def agg_def accts_ok_def acct_ok_def reserve_ok_def bucket_defs sample_eval
      posp_def matp_def negp_def longp_def shortp_def in_u128_def in_i128_def bounds)

lemma sample_good: "good sample"
  using sample_pnl_inv sample_slab(2,3) sample_params_ok sample_params_typed
  by (simp add: good_def)
    (simp add: fees_ok_def fee_ok_def market_ok_def sample_eval in_u128_def in_i128_def in_u64_def bounds)

lemma sample_market: "market_typed sample" "market_mode sample = Live" "ins_bal sample = 0"
  by (simp_all add: market_typed_def sample_eval in_i128_def bounds)


lemma sample_inv: "inv sample"
  using sample_slab(1) sample_good
  by (simp add: inv_def) (simp add: solvent_def balanced_def sample_eval)


section \<open>A market with two traders\<close>

lemma okP_run: "okP m P \<Longrightarrow> fst m = Ok x \<Longrightarrow> P x (snd m)"
  by (cases m) simp

definition one_trader :: engine where
  "one_trader = snd (deposit_not_atomic 0 100000 5 sample)"

definition two_traders :: engine where
  "two_traders = snd (deposit_not_atomic 1 100000 5 one_trader)"

definition open_market :: engine where
  "open_market = snd (execute_trade_not_atomic 0 1 1000 6 900000000 1000 0 1 100 two_traders)"

lemma two_traders_code [code]:
  "two_traders = sample\<lparr>
     vault := 200000, current_slot := 5, c_tot := 200000, materialized_account_count := 2,
     used := [3], num_used_accounts := 2, free_head := 2, next_free := [65535, 65535, 3,
     65535], prev_free := [65535, 65535, 65535, 2], accounts := [empty_account\<lparr>
     capital := 100000, last_fee_slot := 5 \<rparr>, empty_account\<lparr> capital :=
     100000, last_fee_slot := 5 \<rparr>, empty_account, empty_account] \<rparr>"
  by code_simp

lemma open_market_run:
  "execute_trade_not_atomic 0 1 1000 6 900000000 1000 0 1 100 two_traders = (Ok (),
   two_traders\<lparr>
     insurance_fund := \<lparr> balance = 1800 \<rparr>, current_slot := 6, c_tot := 198200,
     oi_eff_long_q := 900000000, oi_eff_short_q := 900000000, stored_pos_count_long := 1,
     stored_pos_count_short := 1, last_market_slot := 6, accounts := [empty_account\<lparr>
     capital := 99100, position_basis_q := 900000000, last_fee_slot := 5 \<rparr>,
     empty_account\<lparr> capital := 99100, position_basis_q := - 900000000, last_fee_slot
     := 5 \<rparr>, empty_account, empty_account] \<rparr>)"
  by code_simp

lemmas open_market_code [code] = open_market_run[THEN arg_cong[where f = snd], unfolded snd_conv, folded open_market_def]

lemma deposit_runs: "fst (deposit_not_atomic 0 100000 5 sample) = Ok ()"
  "fst (deposit_not_atomic 1 100000 5 one_trader) = Ok ()"
  by code_simp+

lemma trade_runs: "fst (execute_trade_not_atomic 0 1 1000 6 900000000 1000 0 1 100 two_traders) = Ok ()"
  by (simp only: open_market_run fst_conv)

lemma withdraw_runs: "fst (withdraw_not_atomic 0 5000 1000 7 0 1 100 open_market) = Ok ()"
  by code_simp

lemma trade_core_runs:
  "case fst (trade_core 0 1 1000 900000000 1000 (new_with_admission 1 100) two_traders) of Ok c \<Rightarrow> True | _ \<Rightarrow> False"
  by code_simp

lemma two_traders_params: "params two_traders = sample_params"
  by code_simp

lemma crank_runs:
  "fst (keeper_crank_not_atomic 8 920 [(1, Some FullClose), (0, Some FullClose)] 5 0 1 100 open_market)
     = Ok \<lparr> advanced = True, num_liquidations = 1, num_gc_closed = 0 \<rparr>"
  by code_simp

lemma two_traders_inv: "inv one_trader" "inv two_traders"
proof -
  have T: "in_u64 5" "(0 :: int) \<le> 100000" by (simp_all add: in_u64_def bounds)
  show 1: "inv one_trader"
    using okP_run[OF deposit_spec[OF sample_inv T] deposit_runs(1)] by (simp add: one_trader_def)
  show "inv two_traders"
    using okP_run[OF deposit_spec[OF 1 T] deposit_runs(2)] by (simp add: two_traders_def)
qed

lemma open_market_inv: "inv open_market"
proof -
  have "in_u64 6" by (simp add: in_u64_def bounds)
  from okP_run[OF execute_trade_spec[OF two_traders_inv(2) this] trade_runs]
  show ?thesis by (simp add: open_market_def)
qed

text \<open>The open market at the price 920: account 0, settled, is below its maintenance margin.\<close>

definition under_water :: engine where
  "under_water = snd (touch_account_live_local 0 (new_with_admission 1 100)
     (snd (accrue_market_to 8 920 0 open_market)))"

lemma under_water_code [code]:
  "under_water = open_market\<lparr>
     current_slot := 8, c_tot := 126200, adl_coeff_long := - 80000000000000000,
     adl_coeff_short := 80000000000000000, last_oracle_price := 920, fund_px_last := 920,
     last_market_slot := 8, accounts := [empty_account\<lparr> capital := 27100,
     position_basis_q := 900000000, adl_k_snap := - 80000000000000000, last_fee_slot := 5
     \<rparr>, empty_account\<lparr> capital := 99100, position_basis_q := - 900000000,
     last_fee_slot := 5 \<rparr>, empty_account, empty_account] \<rparr>"
  by code_simp

lemma under_water_runs:
  "fst (accrue_market_to 8 920 0 open_market) = Ok ()"
  "case fst (touch_account_live_local 0 (new_with_admission 1 100) (snd (accrue_market_to 8 920 0 open_market)))
     of Ok c \<Rightarrow> True | _ \<Rightarrow> False"
  "case fst (liquidate_at_oracle_internal 0 920 FullClose (new_with_admission 1 100) under_water)
     of Ok (b, c) \<Rightarrow> b | _ \<Rightarrow> False"
  by code_simp+

lemma under_water_good: "good under_water"
proof -
  let ?c = "new_with_admission 1 100" let ?a = "accrue_market_to 8 920 0 open_market"
  have p: "params open_market = sample_params" by code_simp
  have md: "mode_ok (params open_market) (ctx_mode ?c)"
    by (simp add: p mode_ok_def horizon_ok_def new_with_admission_def sample_params_def)
  have t: "in_u64 8" "(0 :: int) \<le> 920" by (simp_all add: in_u64_def bounds)
  have a: "stage {} open_market (snd ?a)"
    using okP_run[OF accrue_stage[OF inv_D(2)[OF open_market_inv] t] under_water_runs(1)] by simp
  obtain c where r: "fst (touch_account_live_local 0 ?c (snd ?a)) = Ok c"
    using under_water_runs(2) by (cases "fst (touch_account_live_local 0 ?c (snd ?a))") auto
  have "ctx_ok ?c" by simp
  from okP_run[OF touch_spec[OF stage_D(1)[OF a] this] r] show ?thesis
    using md stage_D[OF a] by (simp add: under_water_def lstage_def stage_def)
qed

text \<open>
  The open market after both accounts are settled at the price 990; at slot 150 the profit of
  account 1 has matured. The empty accounts of \<open>one_trader\<close> are vacant slots.
\<close>

definition warming_market :: engine where
  "warming_market = snd (settle_account_not_atomic 1 990 20 0 1 100 open_market)"

lemma warming_market_run:
  "settle_account_not_atomic 1 990 20 0 1 100 open_market = (Ok (),
   open_market\<lparr>
     current_slot := 20, pnl_pos_tot := 9000, adl_coeff_long := - 10000000000000000,
     adl_coeff_short := 10000000000000000, last_oracle_price := 990, fund_px_last := 990, last_market_slot := 20,
     accounts := [empty_account\<lparr> capital := 99100, position_basis_q := 900000000, last_fee_slot := 5 \<rparr>,
     empty_account\<lparr> capital := 99100, pnl := 9000, reserved_pnl := 9000, position_basis_q := - 900000000,
     adl_k_snap := 10000000000000000, last_fee_slot := 5, sched_present := 1, sched_remaining_q := 9000,
     sched_anchor_q := 9000, sched_start_slot := 20, sched_horizon := 100 \<rparr>, empty_account, empty_account] \<rparr>)"
  by code_simp

lemmas warming_market_code [code] = warming_market_run[THEN arg_cong[where f = snd], unfolded snd_conv, folded warming_market_def]

definition loss_paid_market :: engine where
  "loss_paid_market = snd (settle_account_not_atomic 0 990 150 0 1 100 warming_market)"

lemma loss_paid_market_run:
  "settle_account_not_atomic 0 990 150 0 1 100 warming_market = (Ok (),
   warming_market\<lparr>
     current_slot := 150, c_tot := 189200, last_market_slot := 150,
     accounts := [empty_account\<lparr> capital := 90100, position_basis_q := 900000000, adl_k_snap := - 10000000000000000,
     last_fee_slot := 5 \<rparr>, empty_account\<lparr> capital := 99100, pnl := 9000, reserved_pnl := 9000, position_basis_q := - 900000000,
     adl_k_snap := 10000000000000000, last_fee_slot := 5, sched_present := 1, sched_remaining_q := 9000,
     sched_anchor_q := 9000, sched_start_slot := 20, sched_horizon := 100 \<rparr>, empty_account, empty_account] \<rparr>)"
  by code_simp

lemmas loss_paid_market_code [code] =
  loss_paid_market_run[THEN arg_cong[where f = snd], unfolded snd_conv, folded loss_paid_market_def]

definition matured_market :: engine where
  "matured_market = snd (settle_account_not_atomic 1 990 150 0 1 100 loss_paid_market)"

lemma matured_market_run:
  "settle_account_not_atomic 1 990 150 0 1 100 loss_paid_market = (Ok (),
   loss_paid_market\<lparr>
     pnl_matured_pos_tot := 9000, accounts := [empty_account\<lparr> capital := 90100, position_basis_q := 900000000,
     adl_k_snap := - 10000000000000000, last_fee_slot := 5 \<rparr>, empty_account\<lparr> capital := 99100,
     pnl := 9000, position_basis_q := - 900000000, adl_k_snap := 10000000000000000,
     last_fee_slot := 5 \<rparr>, empty_account, empty_account] \<rparr>)"
  by code_simp

lemmas matured_market_code [code] =
  matured_market_run[THEN arg_cong[where f = snd], unfolded snd_conv, folded matured_market_def]

lemma matured_runs:
  "fst (settle_account_not_atomic 1 990 20 0 1 100 open_market) = Ok ()"
  "fst (settle_account_not_atomic 0 990 150 0 1 100 warming_market) = Ok ()"
  "fst (settle_account_not_atomic 1 990 150 0 1 100 loss_paid_market) = Ok ()"
  by (simp_all only: warming_market_run loss_paid_market_run matured_market_run fst_conv)

lemma matured_convert: "fst (convert_requested 1 100 990 matured_market) = Ok ()"
  by code_simp

lemma close_account_runs: "fst (close_account_not_atomic 0 6 1000 0 1 100 two_traders) = Ok 100000"
  by code_simp

section \<open>A market that is resolved\<close>

definition resolved_market :: engine where
  "resolved_market = snd (resolve_market_not_atomic Ordinary 960 990 9 0 open_market)"

lemma resolved_market_run:
  "resolve_market_not_atomic Ordinary 960 990 9 0 open_market = (Ok (),
   open_market\<lparr>
     current_slot := 9, market_mode := Resolved, resolved_price := 960, resolved_slot := 9,
     resolved_k_long_terminal_delta := - 30000000000000000, resolved_k_short_terminal_delta
     := 30000000000000000, resolved_live_price := 990, adl_epoch_long := 1, adl_epoch_short
     := 1, adl_epoch_start_k_long := - 10000000000000000, adl_epoch_start_k_short :=
     10000000000000000, oi_eff_long_q := 0, oi_eff_short_q := 0, side_mode_long :=
     ResetPending, side_mode_short := ResetPending, stale_account_count_long := 1,
     stale_account_count_short := 1, last_oracle_price := 990, fund_px_last := 990,
     last_market_slot := 9 \<rparr>)"
  by code_simp

lemmas resolved_market_code [code] = resolved_market_run[THEN arg_cong[where f = snd], unfolded snd_conv, folded resolved_market_def]

definition half_settled :: engine where
  "half_settled = snd (reconcile_resolved_not_atomic 0 resolved_market)"

lemma half_settled_run:
  "reconcile_resolved_not_atomic 0 resolved_market = (Ok (),
   resolved_market\<lparr>
     c_tot := 162200, stored_pos_count_long := 0, stale_account_count_long := 0, accounts :=
     [empty_account\<lparr> capital := 63100, last_fee_slot := 5 \<rparr>,
     empty_account\<lparr> capital := 99100, position_basis_q := - 900000000, last_fee_slot
     := 5 \<rparr>, empty_account, empty_account] \<rparr>)"
  by code_simp

lemmas half_settled_code [code] = half_settled_run[THEN arg_cong[where f = snd], unfolded snd_conv, folded half_settled_def]

definition all_flat :: engine where
  "all_flat = snd (reconcile_resolved_not_atomic 1 half_settled)"

lemma all_flat_run:
  "reconcile_resolved_not_atomic 1 half_settled = (Ok (),
   half_settled\<lparr>
     pnl_pos_tot := 36000, pnl_matured_pos_tot := 36000, stored_pos_count_short := 0,
     stale_account_count_short := 0, accounts := [empty_account\<lparr> capital := 63100,
     last_fee_slot := 5 \<rparr>, empty_account\<lparr> capital := 99100, pnl := 36000,
     last_fee_slot := 5 \<rparr>, empty_account, empty_account] \<rparr>)"
  by code_simp

lemmas all_flat_code [code] = all_flat_run[THEN arg_cong[where f = snd], unfolded snd_conv, folded all_flat_def]

lemma resolution_runs:
  "fst (resolve_market_not_atomic Ordinary 960 990 9 0 open_market) = Ok ()"
  "fst (reconcile_resolved_not_atomic 0 resolved_market) = Ok ()"
  "fst (reconcile_resolved_not_atomic 1 half_settled) = Ok ()"
  by (simp_all only: resolved_market_run half_settled_run all_flat_run fst_conv)

lemma closing_runs:
  "fst (close_resolved_terminal_not_atomic 1 all_flat) = Ok 135100"
  "fst (force_close_resolved_not_atomic 1 resolved_market) = Ok ProgressOnly"
  "fst (force_close_resolved_not_atomic 0 resolved_market) = Ok (Closed 63100)"
  by code_simp+

lemma open_market_rinv: "rinv open_market"
proof (rule live_rinv[OF open_market_inv])
  show "market_mode open_market = Live" by code_simp
qed

lemma resolved_rinv: "rinv resolved_market" "rinv half_settled" "rinv all_flat"
proof -
  have T: "in_u64 9" "(0 :: int) \<le> 990" by (simp_all add: in_u64_def bounds)
  show 1: "rinv resolved_market"
    using okP_run[OF resolve_spec[OF open_market_inv T] resolution_runs(1)] by (simp add: resolved_market_def)
  show 2: "rinv half_settled"
    using okP_run[OF reconcile_spec[OF 1] resolution_runs(2)] by (simp add: half_settled_def)
  show "rinv all_flat"
    using okP_run[OF reconcile_spec[OF 2] resolution_runs(3)] by (simp add: all_flat_def)
qed

lemma settle_keeps:
  assumes "inv e" "in_u64 now" "0 \<le> px" "0 \<le> lo" "0 \<le> hi"
    "fst (settle_account_not_atomic i px now rate lo hi e) = Ok ()"
  shows "inv (snd (settle_account_not_atomic i px now rate lo hi e))"
  using okP_run[OF settle_account_spec[OF assms(1-5)] assms(6)] by simp

lemma matured_inv: "inv matured_market"
proof -
  have t: "in_u64 20" "in_u64 150" by (simp_all add: in_u64_def bounds)
  show ?thesis
    unfolding matured_market_def loss_paid_market_def warming_market_def
    by (intro settle_keeps open_market_inv t matured_runs[unfolded loss_paid_market_def warming_market_def]) simp_all
qed

section \<open>A whole life\<close>

text \<open>
  Two deposits, a trade, an insurance top-up, a withdrawal, a withdrawal beyond the margin, the
  resolution, a deposit that comes too late, the settlement of both accounts and their closing: of
  the twelve instructions two fail.
\<close>

definition history :: "instruction list" where
  "history = [Deposit 0 100000 5, Deposit 1 100000 5, Trade 0 1 1000 6 900000000 1000 0 1 100,
     TopUpInsurance 5000 7, Withdraw 0 5000 1000 8 0 1 100, Withdraw 0 95000 1000 8 0 1 100,
     ResolveMarket Ordinary 960 990 9 0, Deposit 0 100000 9, Reconcile 0, Reconcile 1, ForceClose 1,
     ForceClose 0]"

lemma history_typed: "list_all well_typed history"
  by (simp add: history_def in_u64_def in_u128_def bounds)

lemma history_flows:
  "map snd (fst (submit exec history sample)) = [100000, 100000, 0, 5000, - 5000, 0, 0, 0, - 135100, - 58100]"
  by code_simp

end
