(* ===== verification/Wire.thy ===== *)
theory Wire
  imports Types
begin

text \<open>
  Bytes on the wire: little-endian integers of the standard library (\<open>from_le_bytes\<close>,
  \<open>to_le_bytes\<close>), and the part of the Borsh serialisation library that both programs derive
  their codecs from.

  Borsh is not part of the repository. Its two primitives, writing and reading an unsigned integer
  of a given width, are a parameter \<open>B\<close>; the locale \<open>borsh_codec\<close> states what its specification
  promises of them (reading undoes writing, accepts nothing else, and the width is fixed). A derived
  struct codec is the fields in the order of their declaration, and \<open>try_from_slice\<close> refuses input
  that is left over; both are written out below.
\<close>

type_synonym bytes = "8 word list"

section \<open>Little-endian integers\<close>

primrec from_le :: "bytes \<Rightarrow> int" where
  "from_le [] = 0"
| "from_le (b # bs) = uint b + 256 * from_le bs"

primrec to_le :: "nat \<Rightarrow> int \<Rightarrow> bytes" where
  "to_le 0 x = []"
| "to_le (Suc n) x = word_of_int (x mod 256) # to_le n (x div 256)"

lemma length_to_le [simp]: "length (to_le n x) = n"
  by (induction n arbitrary: x) simp_all

lemma uint_byte: "0 \<le> uint (b :: 8 word)" "uint (b :: 8 word) < 256"
  using uint_lt2p[of b] by simp_all

lemma from_le_bounds: "0 \<le> from_le bs" "from_le bs < 256 ^ length bs"
proof (induction bs)
  case (Cons b bs)
  { case 1 then show ?case using Cons(1) uint_byte(1)[of b] by simp }
  { case 2
    have "from_le bs \<le> 256 ^ length bs - 1" using Cons(2) by simp
    then show ?case using uint_byte(2)[of b] by simp }
qed simp_all

lemma from_le_to_le:
  assumes "0 \<le> x" "x < 256 ^ n"
  shows "from_le (to_le n x) = x"
  using assms
proof (induction n arbitrary: x)
  case (Suc n)
  have "x < 256 * 256 ^ n" using Suc.prems(2) by simp
  then have "x div 256 < 256 ^ n"
    using mult_div_mod_eq[of 256 x] pos_mod_sign[of 256 x] by linarith
  then have "from_le (to_le n (x div 256)) = x div 256" using Suc.IH Suc.prems(1) by simp
  moreover have "uint (word_of_int (x mod 256) :: 8 word) = x mod 256"
    by (simp add: uint_word_of_int take_bit_eq_mod)
  ultimately show ?case by simp
qed simp

lemma to_le_from_le: "to_le (length bs) (from_le bs) = bs"
proof (induction bs)
  case (Cons b bs)
  have "(uint b + 256 * from_le bs) mod 256 = uint b" "(uint b + 256 * from_le bs) div 256 = from_le bs"
    using uint_byte[of b] by simp_all
  then show ?case using Cons.IH by simp
qed simp

section \<open>The Borsh primitives\<close>

record borsh =
  put_int :: "nat \<Rightarrow> int \<Rightarrow> bytes"
  get_int :: "nat \<Rightarrow> bytes \<Rightarrow> (int \<times> bytes) option"

definition widths :: "nat set" where "widths = {1, 2, 8, 16}"

locale borsh_codec =
  fixes B :: borsh
  assumes get_put: "w \<in> widths \<Longrightarrow> 0 \<le> x \<Longrightarrow> x < 256 ^ w \<Longrightarrow> get_int B w (put_int B w x @ r) = Some (x, r)"
    and put_get: "w \<in> widths \<Longrightarrow> get_int B w bs = Some (x, r) \<Longrightarrow> bs = put_int B w x @ r \<and> 0 \<le> x \<and> x < 256 ^ w"
    and put_width: "w \<in> widths \<Longrightarrow> length (put_int B w x) = w"

text \<open>The published encoding: little-endian, fixed width.\<close>

definition le_borsh :: borsh where
  "le_borsh = \<lparr> put_int = to_le,
     get_int = (\<lambda>w bs. if w \<le> length bs then Some (from_le (take w bs), drop w bs) else None) \<rparr>"

interpretation le: borsh_codec le_borsh
proof
  show "get_int le_borsh w (put_int le_borsh w x @ r) = Some (x, r)"
    if "w \<in> widths" "0 \<le> x" "x < 256 ^ w" for w x r
    using that by (simp add: le_borsh_def from_le_to_le)
  show "bs = put_int le_borsh w x @ r \<and> 0 \<le> x \<and> x < 256 ^ w"
    if "w \<in> widths" "get_int le_borsh w bs = Some (x, r)" for w bs x r
  proof -
    have w: "w \<le> length bs" "x = from_le (take w bs)" "r = drop w bs"
      using that(2) by (auto simp: le_borsh_def split: if_splits)
    have "length (take w bs) = w" using w(1) by simp
    then show ?thesis
      using from_le_bounds[of "take w bs"] to_le_from_le[of "take w bs"] w
      by (simp add: le_borsh_def)
  qed
  show "length (put_int le_borsh w x) = w" for w x by (simp add: le_borsh_def)
qed

section \<open>Readers\<close>

type_synonym 'a reader = "bytes \<Rightarrow> ('a \<times> bytes) option"

definition rpure :: "'a \<Rightarrow> 'a reader" where "rpure x bs = Some (x, bs)"

definition rbind :: "'a reader \<Rightarrow> ('a \<Rightarrow> 'b reader) \<Rightarrow> 'b reader" where
  "rbind g k bs = (case g bs of None \<Rightarrow> None | Some (x, r) \<Rightarrow> k x r)"

definition try_from_slice :: "'a reader \<Rightarrow> bytes \<Rightarrow> 'a option" where
  "try_from_slice g bs = (case g bs of Some (x, []) \<Rightarrow> Some x | _ \<Rightarrow> None)"

lemma rbind_Some_iff: "rbind g k bs = Some (y, r) \<longleftrightarrow> (\<exists>x r1. g bs = Some (x, r1) \<and> k x r1 = Some (y, r))"
  by (auto simp: rbind_def split: option.splits)

lemma rbind_read: "g bs = Some (x, r) \<Longrightarrow> rbind g k bs = k x r"
  by (simp add: rbind_def)

lemma rpure_iff: "rpure x bs = Some (y, r) \<longleftrightarrow> y = x \<and> r = bs"
  by (auto simp: rpure_def)

lemma try_from_slice_Some_iff: "try_from_slice g bs = Some x \<longleftrightarrow> g bs = Some (x, [])"
  by (auto simp: try_from_slice_def split: option.splits list.splits)

definition put_u8 :: "borsh \<Rightarrow> 8 word \<Rightarrow> bytes" where "put_u8 B b = put_int B 1 (uint b)"
definition get_u8 :: "borsh \<Rightarrow> 8 word reader" where
  "get_u8 B = rbind (get_int B 1) (\<lambda>x. rpure (word_of_int x))"

primrec put_array :: "borsh \<Rightarrow> bytes \<Rightarrow> bytes" where
  "put_array B [] = []"
| "put_array B (b # bs) = put_u8 B b @ put_array B bs"

primrec get_array :: "borsh \<Rightarrow> nat \<Rightarrow> bytes reader" where
  "get_array B 0 = rpure []"
| "get_array B (Suc n) = rbind (get_u8 B) (\<lambda>b. rbind (get_array B n) (\<lambda>bs. rpure (b # bs)))"

text \<open>
  A wire format: a writer and a reader that undo each other on the values that are well formed. The
  lemmas of a format are what \<open>try_from_slice\<close> gives its clients.
\<close>

locale wire_format =
  fixes enc :: "'a \<Rightarrow> bytes" and dec :: "'a reader" and ok :: "'a \<Rightarrow> bool"
  assumes dec_enc: "ok x \<Longrightarrow> dec (enc x @ r) = Some (x, r)"
    and enc_dec: "dec bs = Some (x, r) \<Longrightarrow> bs = enc x @ r \<and> ok x"
begin

lemma slice_enc: "ok x \<Longrightarrow> try_from_slice dec (enc x) = Some x"
  using dec_enc[of x "[]"] by (simp add: try_from_slice_Some_iff)

lemma slice_dec: "try_from_slice dec bs = Some x \<Longrightarrow> bs = enc x \<and> ok x"
  using enc_dec[of bs x "[]"] by (simp add: try_from_slice_Some_iff)

lemma slice_iff: "try_from_slice dec bs = Some x \<longleftrightarrow> bs = enc x \<and> ok x"
  using slice_enc slice_dec by blast

lemma enc_inj: "ok x \<Longrightarrow> ok y \<Longrightarrow> enc x = enc y \<Longrightarrow> x = y"
  using slice_enc by (metis option.inject)

lemma prefix_free: "ok x \<Longrightarrow> ok y \<Longrightarrow> enc x @ r = enc y @ s \<Longrightarrow> x = y \<and> r = s"
  using dec_enc by (metis option.inject prod.inject)

end

context borsh_codec begin

lemma get_u8 [simp]: "get_u8 B (put_u8 B b @ r) = Some (b, r)"
  using get_put[of 1 "uint b" r] uint_byte[of b]
  by (simp add: get_u8_def put_u8_def rbind_def rpure_def widths_def)

lemma get_u8_D: "get_u8 B bs = Some (b, r) \<Longrightarrow> bs = put_u8 B b @ r"
  using put_get[of 1 bs]
  by (auto simp: get_u8_def put_u8_def rbind_Some_iff rpure_iff widths_def uint_word_of_int take_bit_eq_mod)

lemma get_array [simp]: "length xs = n \<Longrightarrow> get_array B n (put_array B xs @ r) = Some (xs, r)"
  by (induction n arbitrary: xs) (auto simp: rpure_def rbind_def length_Suc_conv)

lemma get_array_D: "get_array B n bs = Some (xs, r) \<Longrightarrow> bs = put_array B xs @ r \<and> length xs = n"
proof (induction n arbitrary: bs xs r)
  case (Suc n)
  then obtain b r1 xs1 where "get_u8 B bs = Some (b, r1)" "get_array B n r1 = Some (xs1, r)" "xs = b # xs1"
    by (auto simp: rbind_Some_iff rpure_iff)
  then show ?case using get_u8_D Suc.IH by simp
qed (simp add: rpure_iff)

lemma get_sized [simp]:
  "0 \<le> x \<Longrightarrow> x < 65536 \<Longrightarrow> get_int B 2 (put_int B 2 x @ r) = Some (x, r)"
  "in_u64 x \<Longrightarrow> get_int B 8 (put_int B 8 x @ r) = Some (x, r)"
  "in_u128 x \<Longrightarrow> get_int B 16 (put_int B 16 x @ r) = Some (x, r)"
  by (rule get_put; simp add: widths_def in_u64_def in_u128_def bounds)+

lemma get_sized_D:
  "get_int B 2 bs = Some (x, r) \<Longrightarrow> bs = put_int B 2 x @ r \<and> 0 \<le> x \<and> x < 65536"
  "get_int B 8 bs = Some (x, r) \<Longrightarrow> bs = put_int B 8 x @ r \<and> in_u64 x"
  "get_int B 16 bs = Some (x, r) \<Longrightarrow> bs = put_int B 16 x @ r \<and> in_u128 x"
  using put_get[of 2 bs x r] put_get[of 8 bs x r] put_get[of 16 bs x r]
  by (auto simp: widths_def in_u64_def in_u128_def bounds)

lemmas field_D = get_u8_D get_array_D get_sized_D

lemma field_width:
  "length (put_u8 B b) = 1" "length (put_int B 2 x) = 2" "length (put_int B 8 x) = 8" "length (put_int B 16 x) = 16"
  by (simp_all add: put_u8_def put_width widths_def)

lemma array_width: "length (put_array B xs) = length xs"
  by (induction xs) (simp_all add: field_width)

end

end
