(* ===== verification/Host.thy ===== *)
theory Host
  imports Wire
begin

text \<open>
  What the two on-chain programs see of the Solana runtime. An \<open>account_info\<close> is what an instruction is
  handed for each account it names: key, owning program, the signer and writable flags, the lamports
  and the data. System variables (clock, rent), address derivation and invoked programs are not code
  of the repository: they are parameters of the handlers, their results carried here. The runtime
  aborts the whole transaction when a handler returns an error, so what a failed handler leaves behind
  is never seen.
\<close>

type_synonym pubkey = bytes

definition DEFAULT_KEY :: pubkey where "DEFAULT_KEY = replicate 32 0"

record account_info =
  key :: pubkey
  program_owner :: pubkey
  is_signer :: bool
  is_writable :: bool
  lamports :: int
  data :: bytes

text \<open>
  \<open>ProgramError\<close>: \<open>Custom\<close> carries the discriminant of a program's own error; \<open>NotEnoughAccountKeys\<close>
  is what \<open>next_account_info\<close> returns on an exhausted list; \<open>HostError\<close> stands for the errors of the
  runtime that the programs pass on.
\<close>

datatype program_error = Custom "32 word" | NotEnoughAccountKeys | HostError nat

primrec map_err :: "('e \<Rightarrow> 'f) \<Rightarrow> ('e, 'a) res \<Rightarrow> ('f, 'a) res" where
  "map_err f (Ok x) = Ok x"
| "map_err f (Err e) = Err (f e)"
| "map_err f Panic = Panic"

lemma map_err_Ok_iff: "map_err f r = Ok x \<longleftrightarrow> r = Ok x"
  by (cases r) simp_all

lemma okR_map_err [wp]: "okR (map_err f r) P = okR r P"
  by (cases r) simp_all

text \<open>\<open>next_account_info\<close> on the remaining accounts.\<close>

fun next_account :: "'a list \<Rightarrow> (program_error, 'a \<times> 'a list) res" where
  "next_account [] = Err NotEnoughAccountKeys"
| "next_account (a # as) = Ok (a, as)"

section \<open>Byte buffers\<close>

text \<open>\<open>dst[i..i+n].copy_from_slice(src)\<close>, \<open>&src[i..j]\<close>, and the latter with its bounds check.\<close>

definition copy_at :: "nat \<Rightarrow> bytes \<Rightarrow> bytes \<Rightarrow> bytes" where
  "copy_at i src dst = take i dst @ src @ drop (i + length src) dst"

definition slice :: "nat \<Rightarrow> nat \<Rightarrow> bytes \<Rightarrow> bytes" where
  "slice i j bs = take (j - i) (drop i bs)"

definition slice_to :: "nat \<Rightarrow> bytes \<Rightarrow> ('e, bytes) res" where
  "slice_to n bs = (if n \<le> length bs then Ok (take n bs) else Panic)"

lemma slice_next: "i \<le> j \<Longrightarrow> slice i j bs @ drop j bs = drop i bs"
  using append_take_drop_id[of "j - i" "drop i bs"] by (simp add: slice_def)

lemma length_slice [simp]: "j \<le> length bs \<Longrightarrow> length (slice i j bs) = j - i"
  by (simp add: slice_def)

lemma slice_append: "length xs = i \<Longrightarrow> slice i j (xs @ ys) = take (j - i) ys"
  by (simp add: slice_def)

end
