(* ===== verification/Feed.thy ===== *)
theory Feed
  imports Host Sorting
begin

text \<open>
  The feed account of the oracle program (\<open>src/oracle/src/state.rs\<close>, \<open>src/oracle/src/error.rs\<close>): its
  byte layout, and the median of its ring of observed prices. The code copies the \<open>repr(C)\<close> struct as
  it lies in memory; the model writes the same layout field by field, little-endian and without gaps.
\<close>

section \<open>Errors and sources\<close>

datatype oracle_error =
  InvalidInstructionData | FeedSizeMismatch | FeedAlreadyInitialized | FeedNotInitialized
| MissingAccount | AccountNotWritable | WrongSourceAccount | StaleSource | InvalidSourceKind
| NotGraduated | AlreadyGraduated | ConvertRequiresGraduation | Overflow | InvalidParameters

fun oracle_error_code :: "oracle_error \<Rightarrow> 32 word" where
  "oracle_error_code InvalidInstructionData = 0"
| "oracle_error_code FeedSizeMismatch = 1"
| "oracle_error_code FeedAlreadyInitialized = 2"
| "oracle_error_code FeedNotInitialized = 3"
| "oracle_error_code MissingAccount = 4"
| "oracle_error_code AccountNotWritable = 5"
| "oracle_error_code WrongSourceAccount = 6"
| "oracle_error_code StaleSource = 7"
| "oracle_error_code InvalidSourceKind = 8"
| "oracle_error_code NotGraduated = 9"
| "oracle_error_code AlreadyGraduated = 10"
| "oracle_error_code ConvertRequiresGraduation = 11"
| "oracle_error_code Overflow = 12"
| "oracle_error_code InvalidParameters = 13"

definition of_oracle :: "oracle_error \<Rightarrow> program_error" where
  "of_oracle e = Custom (oracle_error_code e)"

datatype source_kind = PumpBonding | PumpSwap | RaydiumCpmm | MeteoraDlmm

definition source_kind_from_u8 :: "8 word \<Rightarrow> source_kind option" where
  "source_kind_from_u8 v =
     (if v = 0 then Some PumpBonding
      else if v = 1 then Some PumpSwap
      else if v = 2 then Some RaydiumCpmm
      else if v = 3 then Some MeteoraDlmm
      else None)"

section \<open>The feed\<close>

definition RING_LEN :: nat where "RING_LEN = 30"
definition STALE_SLOTS :: int where "STALE_SLOTS = 150"

record feed =
  price_lamports_per_token :: int
  last_update_slot :: int
  feed_mint :: pubkey
  feed_source :: pubkey
  source_kind_byte :: "8 word"
  graduated :: "8 word"
  feed_initialized :: "8 word"
  ring_idx :: "8 word"
  feed_pad :: bytes
  ring_buffer :: "int list"

definition FEED_LEN :: nat where "FEED_LEN = 328"

definition feed_bytes :: "feed \<Rightarrow> bytes" where
  "feed_bytes f = to_le 8 (price_lamports_per_token f) @ to_le 8 (last_update_slot f) @ feed_mint f @ feed_source f
     @ [source_kind_byte f, graduated f, feed_initialized f, ring_idx f] @ feed_pad f
     @ concat (map (to_le 8) (ring_buffer f))"

primrec get_words :: "nat \<Rightarrow> bytes \<Rightarrow> int list" where
  "get_words 0 bs = []"
| "get_words (Suc n) bs = from_le (slice 0 8 bs) # get_words n (drop 8 bs)"

definition feed_write_into :: "feed \<Rightarrow> bytes \<Rightarrow> (oracle_error, bytes) res" where
  "feed_write_into f dst = (if length dst < FEED_LEN then Err FeedSizeMismatch else Ok (copy_at 0 (feed_bytes f) dst))"

definition feed_read_from :: "bytes \<Rightarrow> (oracle_error, feed) res" where
  "feed_read_from src =
     (if length src < FEED_LEN then Err FeedSizeMismatch
      else Ok \<lparr> price_lamports_per_token = from_le (slice 0 8 src), last_update_slot = from_le (slice 8 16 src),
                feed_mint = slice 16 48 src, feed_source = slice 48 80 src,
                source_kind_byte = src ! 80, graduated = src ! 81, feed_initialized = src ! 82, ring_idx = src ! 83,
                feed_pad = slice 84 88 src, ring_buffer = get_words RING_LEN (drop 88 src) \<rparr>)"

definition feed_is_initialized :: "feed \<Rightarrow> bool" where "feed_is_initialized f = (feed_initialized f \<noteq> 0)"
definition is_graduated :: "feed \<Rightarrow> bool" where "is_graduated f = (graduated f \<noteq> 0)"
definition source_kind_enum :: "feed \<Rightarrow> source_kind option" where
  "source_kind_enum f = source_kind_from_u8 (source_kind_byte f)"

section \<open>Round trips\<close>

definition feed_typed :: "feed \<Rightarrow> bool" where
  "feed_typed f = (in_u64 (price_lamports_per_token f) \<and> in_u64 (last_update_slot f)
     \<and> length (feed_mint f) = 32 \<and> length (feed_source f) = 32 \<and> length (feed_pad f) = 4
     \<and> length (ring_buffer f) = RING_LEN \<and> list_all in_u64 (ring_buffer f))"

lemma from_le_8: "in_u64 x \<Longrightarrow> from_le (to_le 8 x) = x"
  by (rule from_le_to_le) (simp_all add: in_u64_def bounds)

lemma in_u64_from_le: "length bs = 8 \<Longrightarrow> in_u64 (from_le bs)"
  using from_le_bounds[of bs] by (simp add: in_u64_def bounds)

lemma get_words_concat:
  "list_all in_u64 xs \<Longrightarrow> get_words (length xs) (concat (map (to_le 8) xs) @ r) = xs"
  by (induction xs) (simp_all add: slice_def from_le_8)

lemma length_concat_words: "length (concat (map (to_le 8) xs)) = 8 * length xs"
  by (induction xs) simp_all

lemma concat_get_words:
  "8 * n \<le> length bs \<Longrightarrow> concat (map (to_le 8) (get_words n bs)) = take (8 * n) bs
     \<and> length (get_words n bs) = n \<and> list_all in_u64 (get_words n bs)"
proof (induction n arbitrary: bs)
  case (Suc n)
  have l: "length (slice 0 8 bs) = 8" using Suc.prems by simp
  have "to_le 8 (from_le (slice 0 8 bs)) = take 8 bs"
    using to_le_from_le[of "slice 0 8 bs"] l by (simp add: slice_def)
  moreover have "take (8 * Suc n) bs = take 8 bs @ take (8 * n) (drop 8 bs)"
    by (simp add: take_add)
  moreover have "8 * n \<le> length (drop 8 bs)" using Suc.prems by simp
  ultimately show ?case using Suc.IH[of "drop 8 bs"] in_u64_from_le[OF l] by simp
qed simp

lemma length_feed_bytes: "feed_typed f \<Longrightarrow> length (feed_bytes f) = FEED_LEN"
  by (simp add: feed_bytes_def feed_typed_def length_concat_words RING_LEN_def FEED_LEN_def)

lemma feed_write_eq:
  "feed_typed f \<Longrightarrow> feed_write_into f dst = (if length dst < FEED_LEN then Err FeedSizeMismatch
     else Ok (feed_bytes f @ drop FEED_LEN dst))"
  by (simp add: feed_write_into_def copy_at_def length_feed_bytes)

lemma read_feed_bytes:
  assumes "feed_typed f"
  shows "feed_read_from (feed_bytes f @ r) = Ok f"
proof -
  let ?R = "concat (map (to_le 8) (ring_buffer f)) @ r"
  have L: "length (feed_mint f) = 32" "length (feed_source f) = 32" "length (feed_pad f) = 4"
    "length (ring_buffer f) = 30" "in_u64 (price_lamports_per_token f)" "in_u64 (last_update_slot f)"
    using assms by (simp_all add: feed_typed_def RING_LEN_def)
  have R: "get_words 30 ?R = ring_buffer f"
    using get_words_concat[of "ring_buffer f" r] assms L(4) by (simp add: feed_typed_def)
  have "\<not> length (feed_bytes f @ r) < FEED_LEN" using length_feed_bytes[OF assms] by simp
  then show ?thesis
    using L R by (simp add: feed_read_from_def feed_bytes_def slice_def nth_append from_le_8 RING_LEN_def)
qed

lemma feed_roundtrip:
  assumes "feed_typed f" "feed_write_into f dst = Ok dst'"
  shows "feed_read_from dst' = Ok f \<and> length dst' = length dst"
proof -
  have "FEED_LEN \<le> length dst" using assms(2) by (simp add: feed_write_into_def split: if_splits)
  then show ?thesis
    using assms feed_write_eq[OF assms(1)] read_feed_bytes length_feed_bytes[OF assms(1)] by force
qed

lemma drop_80:
  assumes "FEED_LEN \<le> length xs"
  shows "drop 80 xs = [xs ! 80, xs ! 81, xs ! 82, xs ! 83] @ drop 84 xs"
proof -
  have "drop n xs = xs ! n # drop (Suc n) xs" if "n < 104" for n
    using that assms by (simp add: Cons_nth_drop_Suc FEED_LEN_def)
  from this[of 80] this[of 81] this[of 82] this[of 83] show ?thesis by simp
qed

lemma feed_read_typed:
  assumes "feed_read_from src = Ok f"
  shows "feed_typed f"
proof -
  have l: "FEED_LEN \<le> length src" using assms by (simp add: feed_read_from_def split: if_splits)
  then show ?thesis
    using assms concat_get_words[of 30 "drop 88 src"]
    by (auto simp: feed_read_from_def feed_typed_def RING_LEN_def FEED_LEN_def in_u64_from_le)
qed

lemma feed_read_write:
  assumes "feed_read_from src = Ok f"
  shows "feed_write_into f src = Ok src"
proof -
  have l: "FEED_LEN \<le> length src" using assms by (simp add: feed_read_from_def split: if_splits)
  have f: "f = \<lparr> price_lamports_per_token = from_le (slice 0 8 src), last_update_slot = from_le (slice 8 16 src),
      feed_mint = slice 16 48 src, feed_source = slice 48 80 src,
      source_kind_byte = src ! 80, graduated = src ! 81, feed_initialized = src ! 82, ring_idx = src ! 83,
      feed_pad = slice 84 88 src, ring_buffer = get_words RING_LEN (drop 88 src) \<rparr>"
    using assms l by (simp add: feed_read_from_def)
  have w: "to_le 8 (from_le (slice 0 8 src)) = slice 0 8 src" "to_le 8 (from_le (slice 8 16 src)) = slice 8 16 src"
    using to_le_from_le[of "slice 0 8 src"] to_le_from_le[of "slice 8 16 src"] l by (simp_all add: FEED_LEN_def)
  have g: "concat (map (to_le 8) (get_words RING_LEN (drop 88 src))) = slice 88 328 src"
    using concat_get_words[of 30 "drop 88 src"] l by (simp add: RING_LEN_def FEED_LEN_def slice_def)
  have s: "slice i j src @ drop j src = drop i src" if "i \<le> j" for i j using slice_next that .
  have "feed_bytes f @ drop 328 src = src"
    using drop_80[OF l] s[of 0 8] s[of 8 16] s[of 16 48] s[of 48 80] s[of 84 88] s[of 88 328]
    by (simp add: feed_bytes_def f w g)
  then show ?thesis using feed_write_eq[OF feed_read_typed[OF assms]] l by (simp add: FEED_LEN_def)
qed

text \<open>The price is the first word of the account, which is what older readers of the feed rely on.\<close>

lemma price_at_zero: "feed_typed f \<Longrightarrow> from_le (slice 0 8 (feed_bytes f)) = price_lamports_per_token f"
  by (simp add: feed_bytes_def slice_def feed_typed_def from_le_8)

section \<open>The median of the ring\<close>

text \<open>The non-zero prices are packed at the front of a buffer, which is then sorted in place.\<close>

definition gather :: "int list \<Rightarrow> int list \<times> nat" where
  "gather ring = fold (\<lambda>v (buf, n). if v \<noteq> 0 then (buf[n := v], n + 1) else (buf, n)) ring (replicate RING_LEN 0, 0)"

definition ring_median :: "int list \<Rightarrow> int option" where
  "ring_median ring =
     (let (buf, n) = gather ring in
      if n = 0 then None
      else
        let s = sort_prefix n (take n buf) in
        Some (if n mod 2 = 1 then s ! (n div 2) else s ! (n div 2 - 1)))"

lemma gather_step:
  assumes "length xs + n \<le> length buf"
  shows "fold (\<lambda>v (buf, n). if v \<noteq> 0 then (buf[n := v], n + 1) else (buf, n)) xs (buf, n)
     = (take n buf @ filter (\<lambda>v. v \<noteq> 0) xs @ drop (n + length (filter (\<lambda>v. v \<noteq> 0) xs)) buf,
        n + length (filter (\<lambda>v. v \<noteq> 0) xs))"
  using assms
proof (induction xs arbitrary: buf n)
  case (Cons x xs)
  have "take (Suc n) (buf[n := x]) = take n buf @ [x]"
    using Cons.prems by (simp add: take_Suc_conv_app_nth)
  then show ?case using Cons.IH[of "Suc n" "buf[n := x]"] Cons.IH[of n buf] Cons.prems by simp
qed simp

lemma gather_eq:
  assumes "length ring = RING_LEN"
  shows "snd (gather ring) = length (filter (\<lambda>v. v \<noteq> 0) ring)"
    "take (snd (gather ring)) (fst (gather ring)) = filter (\<lambda>v. v \<noteq> 0) ring"
  using gather_step[of ring 0 "replicate RING_LEN 0"] assms by (simp_all add: gather_def)

definition lower_median :: "int list \<Rightarrow> int" where
  "lower_median xs = sort xs ! ((length xs - 1) div 2)"

lemma ring_median_eq:
  assumes "length ring = RING_LEN"
  shows "ring_median ring = (let xs = filter (\<lambda>v. v \<noteq> 0) ring in if xs = [] then None else Some (lower_median xs))"
proof -
  define xs where "xs = filter (\<lambda>v. v \<noteq> 0) ring"
  obtain buf n where g: "gather ring = (buf, n)" by fastforce
  have n: "n = length xs" "take n buf = xs" using gather_eq[OF assms] by (simp_all add: g xs_def)
  have s: "sort_prefix (length xs) xs = sort xs" by (simp add: sort_prefix_sorts)
  have "n \<noteq> 0 \<Longrightarrow> n mod 2 = 1 \<Longrightarrow> n div 2 = (n - 1) div 2" "n \<noteq> 0 \<Longrightarrow> n mod 2 \<noteq> 1 \<Longrightarrow> n div 2 - 1 = (n - 1) div 2"
    by presburger+
  then show ?thesis using n s by (simp add: ring_median_def g Let_def lower_median_def xs_def[symmetric])
qed

text \<open>
  The median resists a minority: at least half of the observed prices are no larger, and more than
  half are no smaller.
\<close>

lemma count_sorted:
  assumes "k < length xs"
  shows "k < length (filter (\<lambda>x. x \<le> sort xs ! k) xs)"
    "length xs - k \<le> length (filter (\<lambda>x. sort xs ! k \<le> x) xs)"
proof -
  have f: "length (filter P xs) = length (filter P (sort xs))" for P
    by (metis mset_filter mset_sort size_mset)
  let ?s = "sort xs"
  have sp: "filter P ?s = filter P (take i ?s) @ filter P (drop i ?s)" for P i
    by (metis append_take_drop_id filter_append)
  have "\<forall>x \<in> set (take (Suc k) ?s). x \<le> ?s ! k"
    using assms by (auto simp: in_set_conv_nth sorted_nth_mono)
  then have "filter (\<lambda>x. x \<le> ?s ! k) (take (Suc k) ?s) = take (Suc k) ?s" by (simp add: filter_id_conv)
  then have "Suc k \<le> length (filter (\<lambda>x. x \<le> ?s ! k) ?s)"
    using assms sp[of "\<lambda>x. x \<le> ?s ! k" "Suc k"] by simp
  then show "k < length (filter (\<lambda>x. x \<le> ?s ! k) xs)" by (simp add: f)
  have "\<forall>x \<in> set (drop k ?s). ?s ! k \<le> x"
    using assms by (auto simp: in_set_conv_nth sorted_nth_mono)
  then have "filter (\<lambda>x. ?s ! k \<le> x) (drop k ?s) = drop k ?s" by (simp add: filter_id_conv)
  then have "length xs - k \<le> length (filter (\<lambda>x. ?s ! k \<le> x) ?s)"
    using sp[of "\<lambda>x. ?s ! k \<le> x" k] by simp
  then show "length xs - k \<le> length (filter (\<lambda>x. ?s ! k \<le> x) xs)" by (simp add: f)
qed

lemma median_majority:
  assumes "xs \<noteq> []"
  shows "lower_median xs \<in> set xs"
    "length xs \<le> 2 * length (filter (\<lambda>x. x \<le> lower_median xs) xs)"
    "length xs < 2 * length (filter (\<lambda>x. lower_median xs \<le> x) xs)"
proof -
  let ?k = "(length xs - 1) div 2"
  have k: "?k < length xs" using assms by (cases xs) auto
  have "sort xs ! ?k \<in> set (sort xs)" using k by (intro nth_mem) simp
  then show "lower_median xs \<in> set xs" by (simp add: lower_median_def)
  show "length xs \<le> 2 * length (filter (\<lambda>x. x \<le> lower_median xs) xs)"
    using count_sorted(1)[OF k] assms by (simp add: lower_median_def)
  show "length xs < 2 * length (filter (\<lambda>x. lower_median xs \<le> x) xs)"
    using count_sorted(2)[OF k] k by (simp add: lower_median_def)
qed

end
