(* ===== verification/Oracle.thy ===== *)
theory Oracle
  imports Feed Transactions
begin

text \<open>
  The oracle program (\<open>src/oracle/src/instruction.rs\<close>, \<open>src/oracle/src/processor.rs\<close>): its wire
  format, the readers of the four kinds of price source, and the handlers of the four instructions on
  a feed account. A handler returns the feed account as it leaves it; it writes nothing before its
  last step, so that an error leaves the account as it was. The program id, the Borsh primitives and
  the result of \<open>Clock::get\<close> are parameters.
\<close>

section \<open>Wire format\<close>

record initialize_feed_args =
  init_mint :: pubkey
  init_source :: pubkey
  init_source_kind :: "8 word"

record convert_source_args =
  new_kind :: "8 word"
  new_source :: pubkey

datatype oracle_instruction =
  InitializeFeed initialize_feed_args
| Update
| Graduate
| ConvertSource convert_source_args

definition put_initialize_feed :: "borsh \<Rightarrow> initialize_feed_args \<Rightarrow> bytes" where
  "put_initialize_feed B a = put_array B (init_mint a) @ put_array B (init_source a) @ put_u8 B (init_source_kind a)"

definition get_initialize_feed :: "borsh \<Rightarrow> initialize_feed_args reader" where
  "get_initialize_feed B = rbind (get_array B 32) (\<lambda>m. rbind (get_array B 32) (\<lambda>s. rbind (get_u8 B) (\<lambda>k.
     rpure \<lparr> init_mint = m, init_source = s, init_source_kind = k \<rparr>)))"

definition put_convert_source :: "borsh \<Rightarrow> convert_source_args \<Rightarrow> bytes" where
  "put_convert_source B a = put_u8 B (new_kind a) @ put_array B (new_source a)"

definition get_convert_source :: "borsh \<Rightarrow> convert_source_args reader" where
  "get_convert_source B = rbind (get_u8 B) (\<lambda>k. rbind (get_array B 32) (\<lambda>s.
     rpure \<lparr> new_kind = k, new_source = s \<rparr>))"

fun oracle_pack :: "borsh \<Rightarrow> oracle_instruction \<Rightarrow> bytes" where
  "oracle_pack B (InitializeFeed a) = [0] @ put_initialize_feed B a"
| "oracle_pack B Update = [1]"
| "oracle_pack B Graduate = [2]"
| "oracle_pack B (ConvertSource a) = [3] @ put_convert_source B a"

fun oracle_unpack :: "borsh \<Rightarrow> bytes \<Rightarrow> (program_error, oracle_instruction) res" where
  "oracle_unpack B [] = Err (of_oracle InvalidInstructionData)"
| "oracle_unpack B (t # rest) =
     (if t = 0 then
        rthen (ok_or (of_oracle InvalidInstructionData) (try_from_slice (get_initialize_feed B) rest)) (\<lambda>a.
        Ok (InitializeFeed a))
      else if t = 1 then Ok Update
      else if t = 2 then Ok Graduate
      else if t = 3 then
        rthen (ok_or (of_oracle InvalidInstructionData) (try_from_slice (get_convert_source B) rest)) (\<lambda>a.
        Ok (ConvertSource a))
      else Err (of_oracle InvalidInstructionData))"

fun oracle_instruction_ok :: "oracle_instruction \<Rightarrow> bool" where
  "oracle_instruction_ok (InitializeFeed a) = (length (init_mint a) = 32 \<and> length (init_source a) = 32)"
| "oracle_instruction_ok Update = True"
| "oracle_instruction_ok Graduate = True"
| "oracle_instruction_ok (ConvertSource a) = (length (new_source a) = 32)"

sublocale borsh_codec \<subseteq> initialize_feed: wire_format "put_initialize_feed B" "get_initialize_feed B"
    "\<lambda>a. oracle_instruction_ok (InitializeFeed a)"
  by unfold_locales
    (auto simp: put_initialize_feed_def get_initialize_feed_def rbind_read rbind_Some_iff rpure_iff dest!: field_D)

sublocale borsh_codec \<subseteq> convert_source: wire_format "put_convert_source B" "get_convert_source B"
    "\<lambda>a. oracle_instruction_ok (ConvertSource a)"
  by unfold_locales
    (auto simp: put_convert_source_def get_convert_source_def rbind_read rbind_Some_iff rpure_iff dest!: field_D)

context borsh_codec begin

lemma oracle_unpack_pack: "oracle_instruction_ok ix \<Longrightarrow> oracle_unpack B (oracle_pack B ix) = Ok ix"
  by (cases ix) (simp_all add: initialize_feed.slice_enc convert_source.slice_enc)

lemma oracle_unpack_typed: "oracle_unpack B bs = Ok ix \<Longrightarrow> oracle_instruction_ok ix"
  by (cases bs) (auto simp: Ok_iffs split: if_splits dest!: initialize_feed.slice_dec convert_source.slice_dec)

end

section \<open>Reading a price source\<close>

definition PRICE_SCALE :: int where "PRICE_SCALE = 1000000"

definition amm_price :: "int \<Rightarrow> int \<Rightarrow> (oracle_error, int) res" where
  "amm_price numerator denominator =
     (if denominator = 0 then Err StaleSource
      else
        rthen (ok_or Overflow (fit_u128 (numerator * PRICE_SCALE))) (\<lambda>scaled.
        let price = scaled div denominator in
        if price > U64_MAX then Err Overflow else Ok price))"

definition read_pump_bonding :: "bytes \<Rightarrow> (oracle_error, int) res" where
  "read_pump_bonding d =
     (if length d < 24 then Err StaleSource
      else
        let sol_reserves = from_le (slice 8 16 d); token_reserves = from_le (slice 16 24 d) in
        if sol_reserves = 0 \<or> token_reserves = 0 then Err StaleSource
        else amm_price sol_reserves token_reserves)"

definition read_pumpswap :: "bytes \<Rightarrow> (oracle_error, int) res" where
  "read_pumpswap d =
     (if length d < 24 then Err StaleSource
      else
        let base = from_le (slice 8 16 d); quote = from_le (slice 16 24 d) in
        if base = 0 \<or> quote = 0 then Err StaleSource
        else amm_price quote base)"

definition read_raydium_cpmm :: "bytes \<Rightarrow> (oracle_error, int) res" where
  "read_raydium_cpmm d =
     (if length d < 24 then Err StaleSource
      else
        let base = from_le (slice 8 16 d); quote = from_le (slice 16 24 d) in
        if base = 0 \<or> quote = 0 then Err StaleSource
        else amm_price quote base)"

text \<open>\<open>i32::from_le_bytes\<close>.\<close>

definition i32_from_le :: "bytes \<Rightarrow> int" where
  "i32_from_le bs = (let u = from_le bs in if u < 2147483648 then u else u - 4294967296)"

text \<open>The compounding loop; a price that has vanished ends it, and the function, with zero.\<close>

primrec compound :: "int \<Rightarrow> int \<Rightarrow> nat \<Rightarrow> int \<Rightarrow> (oracle_error, int) res" where
  "compound num den 0 price = Ok price"
| "compound num den (Suc n) price =
     rthen (ok_or Overflow (fit_u128 (price * num))) (\<lambda>v.
     let price = v div den in
     if price = 0 then Ok 0 else compound num den n price)"

definition read_meteora_dlmm :: "bytes \<Rightarrow> (oracle_error, int) res" where
  "read_meteora_dlmm d =
     (if length d < 22 then Err StaleSource
      else
        let bin_id = i32_from_le (slice 8 12 d);
            bin_step = from_le (slice 12 14 d);
            base_price = from_le (slice 14 22 d) in
        if base_price = 0 \<or> bin_step = 0 \<or> bin_step > 10000 then Err StaleSource
        else
          let steps = nat (min \<bar>bin_id\<bar> 10000);
              mul_num = 10000 + bin_step;
              mul_den = 10000 in
          rthen (if bin_id \<ge> 0 then compound mul_num mul_den steps base_price
                 else compound mul_den mul_num steps base_price) (\<lambda>price.
          if price > U64_MAX then Err Overflow else Ok price))"

fun read_source_price :: "source_kind \<Rightarrow> bytes \<Rightarrow> (oracle_error, int) res" where
  "read_source_price PumpBonding d = read_pump_bonding d"
| "read_source_price PumpSwap d = read_pumpswap d"
| "read_source_price RaydiumCpmm d = read_raydium_cpmm d"
| "read_source_price MeteoraDlmm d = read_meteora_dlmm d"

section \<open>The handlers\<close>

text \<open>\<open>Feed::read_from(&data[..Feed::LEN])\<close> and \<open>feed.write_into(&mut data[..Feed::LEN])\<close>: taking the
  slice of a shorter account panics.\<close>

definition load_feed :: "account_info \<Rightarrow> (program_error, feed) res" where
  "load_feed a = rthen (slice_to FEED_LEN (data a)) (\<lambda>d. map_err of_oracle (feed_read_from d))"

definition store_feed :: "feed \<Rightarrow> account_info \<Rightarrow> (program_error, account_info) res" where
  "store_feed f a =
     rthen (slice_to FEED_LEN (data a)) (\<lambda>d.
     rthen (map_err of_oracle (feed_write_into f d)) (\<lambda>d'.
     Ok (a\<lparr> data := d' @ drop FEED_LEN (data a) \<rparr>)))"

definition process_initialize_feed ::
  "pubkey \<Rightarrow> (program_error, int) res \<Rightarrow> account_info list \<Rightarrow> initialize_feed_args
     \<Rightarrow> (program_error, account_info) res"
where
  "process_initialize_feed program_id clock accs args =
     rthen (next_account accs) (\<lambda>(feed_ai, accs).
     rthen (next_account accs) (\<lambda>(source_ai, accs).
     rthen (require (is_writable feed_ai) (of_oracle AccountNotWritable)) (\<lambda>_.
     rthen (require (program_owner feed_ai = program_id) (of_oracle FeedSizeMismatch)) (\<lambda>_.
     rthen (require (\<not> length (data feed_ai) < FEED_LEN) (of_oracle FeedSizeMismatch)) (\<lambda>_.
     rthen (ok_or (of_oracle InvalidSourceKind) (source_kind_from_u8 (init_source_kind args))) (\<lambda>source_kind.
     rthen (require (key source_ai = init_source args) (of_oracle WrongSourceAccount)) (\<lambda>_.
     rthen (load_feed feed_ai) (\<lambda>existing.
     rthen (require (\<not> feed_is_initialized existing) (of_oracle FeedAlreadyInitialized)) (\<lambda>_.
     rthen clock (\<lambda>slot.
     rthen (map_err of_oracle (read_source_price source_kind (data source_ai))) (\<lambda>init_price.
     rthen (require (init_price \<noteq> 0) (of_oracle StaleSource)) (\<lambda>_.
     let f = \<lparr> price_lamports_per_token = init_price, last_update_slot = slot,
               feed_mint = init_mint args, feed_source = init_source args,
               source_kind_byte = init_source_kind args, graduated = 0, feed_initialized = 1, ring_idx = 0,
               feed_pad = replicate 4 0, ring_buffer = replicate RING_LEN 0 \<rparr>;
         f = f\<lparr> ring_buffer := (ring_buffer f)[0 := init_price] \<rparr>;
         f = f\<lparr> ring_idx := 1 \<rparr>
     in store_feed f feed_ai))))))))))))"

definition process_update ::
  "pubkey \<Rightarrow> (program_error, int) res \<Rightarrow> account_info list \<Rightarrow> (program_error, account_info) res"
where
  "process_update program_id clock accs =
     rthen (next_account accs) (\<lambda>(feed_ai, accs).
     rthen (next_account accs) (\<lambda>(source_ai, accs).
     rthen (require (is_writable feed_ai) (of_oracle AccountNotWritable)) (\<lambda>_.
     rthen (require (program_owner feed_ai = program_id) (of_oracle FeedSizeMismatch)) (\<lambda>_.
     rthen (require (\<not> length (data feed_ai) < FEED_LEN) (of_oracle FeedSizeMismatch)) (\<lambda>_.
     rthen (load_feed feed_ai) (\<lambda>f.
     rthen (require (feed_is_initialized f) (of_oracle FeedNotInitialized)) (\<lambda>_.
     rthen (require (feed_source f = key source_ai) (of_oracle WrongSourceAccount)) (\<lambda>_.
     rthen (ok_or (of_oracle InvalidSourceKind) (source_kind_enum f)) (\<lambda>source_kind.
     rthen (require (\<not> (source_kind = PumpBonding \<and> is_graduated f)) (of_oracle AlreadyGraduated)) (\<lambda>_.
     rthen (map_err of_oracle (read_source_price source_kind (data source_ai))) (\<lambda>instant_price.
     rthen (require (instant_price \<noteq> 0) (of_oracle StaleSource)) (\<lambda>_.
     rthen (assertion (unat (ring_idx f) < length (ring_buffer f))) (\<lambda>_.
     let f = f\<lparr> ring_buffer := (ring_buffer f)[unat (ring_idx f) := instant_price] \<rparr>;
         f = f\<lparr> ring_idx := word_of_nat ((unat (ring_idx f) + 1) mod RING_LEN) \<rparr> in
     rthen (ok_or (of_oracle StaleSource) (ring_median (ring_buffer f))) (\<lambda>median.
     let f = f\<lparr> price_lamports_per_token := median \<rparr> in
     rthen clock (\<lambda>slot.
     let f = f\<lparr> last_update_slot := slot \<rparr> in
     store_feed f feed_ai)))))))))))))))"

definition process_graduate :: "pubkey \<Rightarrow> account_info list \<Rightarrow> (program_error, account_info) res" where
  "process_graduate program_id accs =
     rthen (next_account accs) (\<lambda>(feed_ai, accs).
     rthen (next_account accs) (\<lambda>(source_ai, accs).
     rthen (require (is_writable feed_ai) (of_oracle AccountNotWritable)) (\<lambda>_.
     rthen (require (program_owner feed_ai = program_id) (of_oracle FeedSizeMismatch)) (\<lambda>_.
     rthen (load_feed feed_ai) (\<lambda>f.
     rthen (require (feed_is_initialized f) (of_oracle FeedNotInitialized)) (\<lambda>_.
     rthen (require (feed_source f = key source_ai) (of_oracle WrongSourceAccount)) (\<lambda>_.
     rthen (require (\<not> is_graduated f) (of_oracle AlreadyGraduated)) (\<lambda>_.
     rthen (ok_or (of_oracle InvalidSourceKind) (source_kind_enum f)) (\<lambda>kind.
     rthen (require (kind = PumpBonding) (of_oracle InvalidSourceKind)) (\<lambda>_.
     rthen (require (\<not> length (data source_ai) \<le> 166) (of_oracle StaleSource)) (\<lambda>_.
     rthen (require (data source_ai ! 166 \<noteq> 0) (of_oracle NotGraduated)) (\<lambda>_.
     store_feed (f\<lparr> graduated := 1 \<rparr>) feed_ai))))))))))))"

definition process_convert_source ::
  "pubkey \<Rightarrow> (program_error, int) res \<Rightarrow> account_info list \<Rightarrow> convert_source_args
     \<Rightarrow> (program_error, account_info) res"
where
  "process_convert_source program_id clock accs args =
     rthen (next_account accs) (\<lambda>(feed_ai, accs).
     rthen (next_account accs) (\<lambda>(new_source_ai, accs).
     rthen (require (is_writable feed_ai) (of_oracle AccountNotWritable)) (\<lambda>_.
     rthen (require (program_owner feed_ai = program_id) (of_oracle FeedSizeMismatch)) (\<lambda>_.
     rthen (ok_or (of_oracle InvalidSourceKind) (source_kind_from_u8 (new_kind args))) (\<lambda>kind.
     rthen (require (key new_source_ai = new_source args) (of_oracle WrongSourceAccount)) (\<lambda>_.
     rthen (load_feed feed_ai) (\<lambda>f.
     rthen (require (feed_is_initialized f) (of_oracle FeedNotInitialized)) (\<lambda>_.
     rthen (require (is_graduated f) (of_oracle ConvertRequiresGraduation)) (\<lambda>_.
     rthen (map_err of_oracle (read_source_price kind (data new_source_ai))) (\<lambda>fresh.
     rthen (require (fresh \<noteq> 0) (of_oracle StaleSource)) (\<lambda>_.
     let f = f\<lparr> feed_source := new_source args \<rparr>;
         f = f\<lparr> source_kind_byte := new_kind args \<rparr>;
         f = f\<lparr> ring_buffer := (replicate RING_LEN 0)[0 := fresh] \<rparr>;
         f = f\<lparr> ring_idx := 1 \<rparr>;
         f = f\<lparr> price_lamports_per_token := fresh \<rparr> in
     rthen clock (\<lambda>slot.
     store_feed (f\<lparr> last_update_slot := slot \<rparr>) feed_ai))))))))))))"

definition oracle_process ::
  "borsh \<Rightarrow> pubkey \<Rightarrow> (program_error, int) res \<Rightarrow> account_info list \<Rightarrow> bytes \<Rightarrow> (program_error, account_info) res"
where
  "oracle_process B program_id clock accs instruction_data =
     rthen (oracle_unpack B instruction_data) (\<lambda>ix.
     case ix of
       InitializeFeed a \<Rightarrow> process_initialize_feed program_id clock accs a
     | Update \<Rightarrow> process_update program_id clock accs
     | Graduate \<Rightarrow> process_graduate program_id accs
     | ConvertSource a \<Rightarrow> process_convert_source program_id clock accs a)"

section \<open>Prices\<close>

lemma amm_price_eq:
  assumes "in_u64 n" "0 \<le> d"
  shows "amm_price n d =
     (if d = 0 then Err StaleSource
      else if U64_MAX < n * PRICE_SCALE div d then Err Overflow
      else Ok (n * PRICE_SCALE div d))"
proof -
  have "in_u128 (n * PRICE_SCALE)" using assms(1) by (simp add: in_u64_def in_u128_def PRICE_SCALE_def bounds)
  then have "ok_or Overflow (fit_u128 (n * PRICE_SCALE)) = Ok (n * PRICE_SCALE)" by (simp add: fit_u128_def)
  then show ?thesis by (simp add: amm_price_def Let_def)
qed

lemma amm_price_u64:
  assumes "0 \<le> n" "0 \<le> d"
  shows "okR (amm_price n d) in_u64"
  using assms by (auto simp: amm_price_def Let_def PRICE_SCALE_def okR_rthen okR_ok_or in_u64_def pos_imp_zdiv_nonneg_iff)

lemma compound_nonneg: "0 \<le> price \<Longrightarrow> 0 < den \<Longrightarrow> 0 \<le> num \<Longrightarrow> okR (compound num den n price) (\<lambda>p. 0 \<le> p)"
proof (induction n arbitrary: price)
  case (Suc n)
  have "0 \<le> price * num div den" using Suc.prems by (simp add: pos_imp_zdiv_nonneg_iff)
  then show ?case using Suc.IH[OF _ Suc.prems(2,3)] by (simp add: okR_rthen okR_ok_or Let_def)
qed simp

lemma read_source_price_u64: "okR (read_source_price k d) in_u64"
proof -
  have p: "0 \<le> from_le (slice i j d)" for i j by (rule from_le_bounds)
  have m: "okR (read_meteora_dlmm d) in_u64"
  proof -
    let ?b = "from_le (slice 14 22 d)" and ?s = "from_le (slice 12 14 d)"
    have c: "okR (rthen r (\<lambda>price. if price > U64_MAX then Err Overflow else Ok price)) in_u64"
      if "okR r (\<lambda>p. 0 \<le> p)" for r :: "(oracle_error, int) res"
      using that by (auto simp: okR_rthen in_u64_def elim!: okR_mono)
    have "0 < 10000 + ?s" using p[of 12 14] by linarith
    then have "okR (compound (10000 + ?s) 10000 n ?b) (\<lambda>p. 0 \<le> p)"
      "okR (compound 10000 (10000 + ?s) n ?b) (\<lambda>p. 0 \<le> p)" for n
      by (intro compound_nonneg; simp add: p)+
    then show ?thesis by (auto simp: read_meteora_dlmm_def Let_def intro!: c)
  qed
  show ?thesis
    by (cases k) (auto simp: read_pump_bonding_def read_pumpswap_def read_raydium_cpmm_def Let_def m
        intro!: amm_price_u64 p)
qed

section \<open>The feed account\<close>

lemma okR_next_account [wp]: "okR (next_account as) P = (\<forall>a r. as = a # r \<longrightarrow> P (a, r))"
  by (cases as) simp_all

lemma okR_slice_to [wp]: "okR (slice_to n bs) P = (n \<le> length bs \<longrightarrow> P (take n bs))"
  by (simp add: slice_to_def)

lemma load_feed_D:
  assumes "load_feed a = Ok f"
  shows "FEED_LEN \<le> length (data a)" "feed_typed f" "feed_read_from (take FEED_LEN (data a)) = Ok f"
  using assms feed_read_typed[of "take FEED_LEN (data a)" f]
  by (auto simp: load_feed_def Ok_iffs map_err_Ok_iff slice_to_def split: if_splits)

text \<open>Storing a feed rewrites the first bytes of the account and nothing else of it.\<close>

definition same_account :: "account_info \<Rightarrow> account_info \<Rightarrow> bool" where
  "same_account a a' = (a' = a\<lparr> data := data a' \<rparr> \<and> length (data a') = length (data a)
     \<and> drop FEED_LEN (data a') = drop FEED_LEN (data a))"

lemma same_account_order:
  "same_account a a" "same_account a b \<Longrightarrow> same_account b c \<Longrightarrow> same_account a c"
  by (cases a; cases b; cases c; simp add: same_account_def)+

lemma store_feed_okR:
  assumes "feed_typed f"
  shows "okR (store_feed f a) (\<lambda>a'. load_feed a' = Ok f \<and> same_account a a')"
  using feed_write_eq[OF assms] read_feed_bytes[OF assms, of "[]"] length_feed_bytes[OF assms]
  by (auto simp: store_feed_def load_feed_def wp same_account_def slice_to_def)

definition feed_ok :: "feed \<Rightarrow> bool" where
  "feed_ok f =
     (feed_typed f \<and> unat (ring_idx f) < RING_LEN \<and> source_kind_enum f \<noteq> None
      \<and> ring_median (ring_buffer f) = Some (price_lamports_per_token f) \<and> 0 < price_lamports_per_token f)"

definition sound_feed :: "account_info \<Rightarrow> bool" where
  "sound_feed a = (\<forall>f. load_feed a = Ok f \<longrightarrow> feed_is_initialized f \<longrightarrow> feed_ok f)"

definition feed_later :: "account_info \<Rightarrow> account_info \<Rightarrow> bool" where
  "feed_later a a' =
     (same_account a a'
      \<and> (\<forall>f. load_feed a = Ok f \<longrightarrow> feed_is_initialized f \<longrightarrow>
            (\<exists>f'. load_feed a' = Ok f' \<and> feed_is_initialized f' \<and> feed_mint f' = feed_mint f
                  \<and> (is_graduated f \<longrightarrow> is_graduated f'))))"

lemma feed_later_order: "feed_later a a" "feed_later a b \<Longrightarrow> feed_later b c \<Longrightarrow> feed_later a c"
  by (auto simp: feed_later_def intro: same_account_order)

lemma single_ring_median:
  assumes "0 < p"
  shows "ring_median ((replicate RING_LEN 0)[0 := p]) = Some p"
proof -
  have "(replicate RING_LEN (0 :: int))[0 := p] = p # replicate 29 0"
    by (simp add: RING_LEN_def numeral_eq_Suc)
  moreover have "filter (\<lambda>v :: int. v \<noteq> 0) (p # replicate 29 0) = [p]"
    using assms by (simp add: filter_empty_conv)
  ultimately show ?thesis
    by (simp add: ring_median_eq RING_LEN_def lower_median_def)
qed

text \<open>A positive price in the ring gives a positive median.\<close>

lemma ring_median_some:
  assumes "length ring = RING_LEN" "list_all in_u64 ring" "i < length ring" "ring ! i \<noteq> 0"
  shows "\<exists>m. ring_median ring = Some m \<and> 0 < m \<and> in_u64 m"
proof -
  let ?xs = "filter (\<lambda>v. v \<noteq> 0) ring"
  have ne: "?xs \<noteq> []" using assms(3,4) by (auto simp: filter_empty_conv intro!: bexI[of _ "ring ! i"])
  have "lower_median ?xs \<in> set ring" "lower_median ?xs \<noteq> 0" using median_majority(1)[OF ne] by auto
  then have "0 < lower_median ?xs \<and> in_u64 (lower_median ?xs)"
    using assms(2) by (force simp: list_all_iff in_u64_def)
  then show ?thesis using ring_median_eq[OF assms(1)] ne by (simp add: Let_def)
qed

section \<open>What each handler does\<close>

definition feed_created :: "int \<Rightarrow> initialize_feed_args \<Rightarrow> account_info \<Rightarrow> account_info \<Rightarrow> feed \<Rightarrow> bool" where
  "feed_created slot args a s f' =
     (\<exists>f k. load_feed a = Ok f \<and> \<not> feed_is_initialized f
        \<and> source_kind_from_u8 (init_source_kind args) = Some k \<and> key s = init_source args
        \<and> read_source_price k (data s) = Ok (price_lamports_per_token f')
        \<and> feed_mint f' = init_mint args \<and> feed_source f' = init_source args
        \<and> last_update_slot f' = slot \<and> feed_is_initialized f' \<and> \<not> is_graduated f' \<and> feed_ok f')"

text \<open>The ring of a feed that has seen one price.\<close>

definition one_price :: "int \<Rightarrow> int list" where "one_price p = (replicate RING_LEN 0)[0 := p]"

lemma one_price_ok:
  assumes "in_u64 p" "p \<noteq> 0"
  shows "length (one_price p) = RING_LEN" "list_all in_u64 (one_price p)" "ring_median (one_price p) = Some p" "0 < p"
proof -
  show "0 < p" using assms by (simp add: in_u64_def)
  then show "ring_median (one_price p) = Some p" unfolding one_price_def by (rule single_ring_median)
  show "length (one_price p) = RING_LEN" by (simp add: one_price_def)
  show "list_all in_u64 (one_price p)"
    using assms by (simp add: one_price_def RING_LEN_def numeral_eq_Suc in_u64_def bounds)
qed

lemma initialize_D:
  assumes "process_initialize_feed prog (Ok slot) (a # s # r) args = Ok a'"
  shows "\<exists>f k p. load_feed a = Ok f \<and> \<not> feed_is_initialized f
     \<and> source_kind_from_u8 (init_source_kind args) = Some k \<and> key s = init_source args
     \<and> read_source_price k (data s) = Ok p \<and> p \<noteq> 0
     \<and> store_feed \<lparr> price_lamports_per_token = p, last_update_slot = slot, feed_mint = init_mint args,
          feed_source = init_source args, source_kind_byte = init_source_kind args, graduated = 0,
          feed_initialized = 1, ring_idx = 1, feed_pad = replicate 4 0, ring_buffer = one_price p \<rparr> a = Ok a'"
  using assms by (auto simp: process_initialize_feed_def Ok_iffs map_err_Ok_iff Let_def one_price_def)

lemma initialize_spec:
  assumes "in_u64 slot" "length (init_mint args) = 32" "length (init_source args) = 32"
  shows "okR (process_initialize_feed prog (Ok slot) (a # s # r) args)
     (\<lambda>a'. \<exists>f'. load_feed a' = Ok f' \<and> same_account a a' \<and> feed_created slot args a s f')"
proof (rule okR_I)
  fix a' assume "process_initialize_feed prog (Ok slot) (a # s # r) args = Ok a'"
  from initialize_D[OF this] obtain f k p where
    f: "load_feed a = Ok f" "\<not> feed_is_initialized f" and
    k: "source_kind_from_u8 (init_source_kind args) = Some k" "key s = init_source args" and
    p: "read_source_price k (data s) = Ok p" "p \<noteq> 0" and
    st: "store_feed \<lparr> price_lamports_per_token = p, last_update_slot = slot, feed_mint = init_mint args,
          feed_source = init_source args, source_kind_byte = init_source_kind args, graduated = 0,
          feed_initialized = 1, ring_idx = 1, feed_pad = replicate 4 0, ring_buffer = one_price p \<rparr> a = Ok a'"
    (is "store_feed ?f a = _") by blast
  note o = one_price_ok[OF okR_D[OF read_source_price_u64 p(1)] p(2)]
  have ok: "feed_ok ?f"
    using okR_D[OF read_source_price_u64 p(1)] o assms k(1)
    by (simp add: feed_ok_def feed_typed_def source_kind_enum_def RING_LEN_def)
  then have "feed_typed ?f" by (simp add: feed_ok_def)
  from okR_D[OF store_feed_okR[OF this] st] show "\<exists>f'. load_feed a' = Ok f' \<and> same_account a a' \<and> feed_created slot args a s f'"
    using f k p(1) ok by (auto simp: feed_created_def feed_is_initialized_def is_graduated_def)
qed

definition feed_updated :: "int \<Rightarrow> account_info \<Rightarrow> feed \<Rightarrow> feed \<Rightarrow> bool" where
  "feed_updated slot s f f' =
     (\<exists>k p ring. source_kind_enum f = Some k \<and> \<not> (k = PumpBonding \<and> is_graduated f) \<and> key s = feed_source f
        \<and> read_source_price k (data s) = Ok p \<and> 0 < p
        \<and> ring = (ring_buffer f)[unat (ring_idx f) := p]
        \<and> f' = f\<lparr> ring_buffer := ring,
                  ring_idx := word_of_nat ((unat (ring_idx f) + 1) mod RING_LEN),
                  price_lamports_per_token := lower_median (filter (\<lambda>v. v \<noteq> 0) ring),
                  last_update_slot := slot \<rparr>)"

lemma update_D:
  assumes "process_update prog (Ok slot) (a # s # r) = Ok a'"
  shows "\<exists>f k p m. load_feed a = Ok f \<and> feed_is_initialized f \<and> feed_source f = key s
     \<and> source_kind_enum f = Some k \<and> \<not> (k = PumpBonding \<and> is_graduated f)
     \<and> read_source_price k (data s) = Ok p \<and> p \<noteq> 0 \<and> unat (ring_idx f) < length (ring_buffer f)
     \<and> ring_median ((ring_buffer f)[unat (ring_idx f) := p]) = Some m
     \<and> store_feed (f\<lparr> ring_buffer := (ring_buffer f)[unat (ring_idx f) := p],
                     ring_idx := word_of_nat ((unat (ring_idx f) + 1) mod RING_LEN),
                     price_lamports_per_token := m, last_update_slot := slot \<rparr>) a = Ok a'"
  using assms by (auto simp: process_update_def Ok_iffs map_err_Ok_iff Let_def)

lemma update_spec:
  assumes "in_u64 slot" "sound_feed a"
  shows "okR (process_update prog (Ok slot) (a # s # r))
     (\<lambda>a'. \<exists>f f'. load_feed a = Ok f \<and> feed_is_initialized f \<and> load_feed a' = Ok f' \<and> same_account a a'
        \<and> feed_updated slot s f f' \<and> feed_ok f')"
proof (rule okR_I)
  fix a' assume "process_update prog (Ok slot) (a # s # r) = Ok a'"
  from update_D[OF this] obtain f k p m where
    f: "load_feed a = Ok f" "feed_is_initialized f" "feed_source f = key s" and
    k: "source_kind_enum f = Some k" "\<not> (k = PumpBonding \<and> is_graduated f)" and
    p: "read_source_price k (data s) = Ok p" "p \<noteq> 0" and
    i: "unat (ring_idx f) < length (ring_buffer f)" and
    m: "ring_median ((ring_buffer f)[unat (ring_idx f) := p]) = Some m" and
    st: "store_feed (f\<lparr> ring_buffer := (ring_buffer f)[unat (ring_idx f) := p],
          ring_idx := word_of_nat ((unat (ring_idx f) + 1) mod RING_LEN),
          price_lamports_per_token := m, last_update_slot := slot \<rparr>) a = Ok a'"
    (is "store_feed ?f a = _") by blast
  let ?r = "(ring_buffer f)[unat (ring_idx f) := p]"
  have ok: "feed_ok f" using assms(2) f by (simp add: sound_feed_def)
  have t: "feed_typed f" using ok by (simp add: feed_ok_def)
  have pu: "in_u64 p" by (rule okR_D[OF read_source_price_u64 p(1)])
  have p0: "0 < p" using pu p(2) by (simp add: in_u64_def)
  have r: "length ?r = RING_LEN" "list_all in_u64 ?r"
    using t pu by (auto simp: feed_typed_def list_all_iff dest!: subsetD[OF set_update_subset_insert])
  have mm: "0 < m" "in_u64 m" using ring_median_some[OF r, of "unat (ring_idx f)"] i p(2) m by auto
  have ml: "m = lower_median (filter (\<lambda>v. v \<noteq> 0) ?r)"
    using ring_median_eq[OF r(1)] m by (simp add: Let_def split: if_splits)
  have idx: "unat (word_of_nat ((unat (ring_idx f) + 1) mod RING_LEN) :: 8 word) < RING_LEN"
  proof -
    have b: "(unat (ring_idx f) + 1) mod RING_LEN < RING_LEN" by (simp add: RING_LEN_def)
    then have "(unat (ring_idx f) + 1) mod RING_LEN < 256" by (simp add: RING_LEN_def)
    then have "unat (word_of_nat ((unat (ring_idx f) + 1) mod RING_LEN) :: 8 word) = (unat (ring_idx f) + 1) mod RING_LEN"
      by (simp add: unat_of_nat take_bit_nat_eq_self)
    then show ?thesis using b by simp
  qed
  have okf: "feed_ok ?f"
    using ok t r m mm assms(1) idx by (simp add: feed_ok_def feed_typed_def source_kind_enum_def)
  then have "feed_typed ?f" by (simp add: feed_ok_def)
  from okR_D[OF store_feed_okR[OF this] st]
  have l: "load_feed a' = Ok ?f" "same_account a a'" by simp_all
  have "feed_updated slot s f ?f"
    unfolding feed_updated_def using k f(3) p(1) p0 ml by (intro exI[of _ k] exI[of _ p] exI[of _ ?r]) simp
  then show "\<exists>f f'. load_feed a = Ok f \<and> feed_is_initialized f \<and> load_feed a' = Ok f' \<and> same_account a a'
      \<and> feed_updated slot s f f' \<and> feed_ok f'"
    using f l okf by blast
qed

lemma graduate_spec:
  assumes "sound_feed a"
  shows "okR (process_graduate prog (a # s # r))
     (\<lambda>a'. \<exists>f. load_feed a = Ok f \<and> feed_is_initialized f \<and> \<not> is_graduated f
        \<and> source_kind_enum f = Some PumpBonding \<and> key s = feed_source f \<and> data s ! 166 \<noteq> 0
        \<and> load_feed a' = Ok (f\<lparr> graduated := 1 \<rparr>) \<and> same_account a a' \<and> feed_ok (f\<lparr> graduated := 1 \<rparr>))"
proof (rule okR_I)
  fix a' assume "process_graduate prog (a # s # r) = Ok a'"
  then obtain f where f: "load_feed a = Ok f" "feed_is_initialized f" "feed_source f = key s" "\<not> is_graduated f"
      "source_kind_enum f = Some PumpBonding" "data s ! 166 \<noteq> 0"
    and st: "store_feed (f\<lparr> graduated := 1 \<rparr>) a = Ok a'"
    by (auto simp: process_graduate_def Ok_iffs)
  have "feed_ok f" using assms f by (simp add: sound_feed_def)
  then have ok: "feed_ok (f\<lparr> graduated := 1 \<rparr>)" "feed_typed (f\<lparr> graduated := 1 \<rparr>)"
    by (simp_all add: feed_ok_def feed_typed_def source_kind_enum_def)
  from okR_D[OF store_feed_okR[OF ok(2)] st] f ok(1)
  show "\<exists>f. load_feed a = Ok f \<and> feed_is_initialized f \<and> \<not> is_graduated f
      \<and> source_kind_enum f = Some PumpBonding \<and> key s = feed_source f \<and> data s ! 166 \<noteq> 0
      \<and> load_feed a' = Ok (f\<lparr> graduated := 1 \<rparr>) \<and> same_account a a' \<and> feed_ok (f\<lparr> graduated := 1 \<rparr>)"
    by (intro exI[of _ f]) simp
qed

definition feed_converted :: "int \<Rightarrow> convert_source_args \<Rightarrow> account_info \<Rightarrow> feed \<Rightarrow> feed \<Rightarrow> bool" where
  "feed_converted slot args s f f' =
     (\<exists>k p. source_kind_from_u8 (new_kind args) = Some k \<and> is_graduated f \<and> key s = new_source args
        \<and> read_source_price k (data s) = Ok p \<and> 0 < p
        \<and> f' = f\<lparr> feed_source := new_source args, source_kind_byte := new_kind args, ring_buffer := one_price p,
                  ring_idx := 1, price_lamports_per_token := p, last_update_slot := slot \<rparr>)"

lemma convert_source_spec:
  assumes "in_u64 slot" "length (new_source args) = 32" "sound_feed a"
  shows "okR (process_convert_source prog (Ok slot) (a # s # r) args)
     (\<lambda>a'. \<exists>f f'. load_feed a = Ok f \<and> feed_is_initialized f \<and> load_feed a' = Ok f' \<and> same_account a a'
        \<and> feed_converted slot args s f f' \<and> feed_ok f')"
proof (rule okR_I)
  fix a' assume "process_convert_source prog (Ok slot) (a # s # r) args = Ok a'"
  then obtain k f p where k: "source_kind_from_u8 (new_kind args) = Some k" "key s = new_source args" and
    f: "load_feed a = Ok f" "feed_is_initialized f" "is_graduated f" and
    p: "read_source_price k (data s) = Ok p" "p \<noteq> 0" and
    st: "store_feed (f\<lparr> feed_source := new_source args, source_kind_byte := new_kind args, ring_buffer := one_price p,
           ring_idx := 1, price_lamports_per_token := p, last_update_slot := slot \<rparr>) a = Ok a'"
    (is "store_feed ?f a = _")
    by (auto simp: process_convert_source_def Ok_iffs map_err_Ok_iff Let_def one_price_def)
  have ok: "feed_ok f" using assms(3) f by (simp add: sound_feed_def)
  note o = one_price_ok[OF okR_D[OF read_source_price_u64 p(1)] p(2)]
  have okf: "feed_ok ?f"
    using okR_D[OF read_source_price_u64 p(1)] ok o assms(1,2) k(1)
    by (simp add: feed_ok_def feed_typed_def source_kind_enum_def RING_LEN_def)
  then have "feed_typed ?f" by (simp add: feed_ok_def)
  from okR_D[OF store_feed_okR[OF this] st]
  have l: "load_feed a' = Ok ?f" "same_account a a'" by simp_all
  have "feed_converted slot args s f ?f"
    unfolding feed_converted_def using k f(3) p(1) o(4) by (intro exI[of _ k] exI[of _ p]) simp
  then show "\<exists>f f'. load_feed a = Ok f \<and> feed_is_initialized f \<and> load_feed a' = Ok f' \<and> same_account a a'
      \<and> feed_converted slot args s f f' \<and> feed_ok f'"
    using f l okf by blast
qed

section \<open>The life of a feed\<close>

text \<open>A call of the program on a given feed account: the slot of the clock, the other accounts and the
  instruction data are whatever the caller chooses.\<close>

record oracle_call =
  call_slot :: int
  call_accounts :: "account_info list"
  call_data :: bytes

definition oracle_exec :: "borsh \<Rightarrow> pubkey \<Rightarrow> oracle_call \<Rightarrow> account_info \<Rightarrow> (program_error, int) res \<times> account_info" where
  "oracle_exec B program_id c a =
     (case oracle_process B program_id (Ok (call_slot c)) (a # call_accounts c) (call_data c) of
        Ok a' \<Rightarrow> (Ok 0, a') | Err e \<Rightarrow> (Err e, a) | Panic \<Rightarrow> (Panic, a))"

definition call_typed :: "oracle_call \<Rightarrow> bool" where "call_typed c = in_u64 (call_slot c)"

lemma okP_of_res:
  "okP (case r of Ok a' \<Rightarrow> (Ok n, a') | Err e \<Rightarrow> (Err e, a) | Panic \<Rightarrow> (Panic, a)) P = okR r (\<lambda>a'. P n a')"
  by (cases r) simp_all

lemma sound_later:
  assumes "load_feed a' = Ok f'" "same_account a a'" "feed_ok f'" "feed_is_initialized f'"
    "\<And>f. load_feed a = Ok f \<Longrightarrow> feed_is_initialized f \<Longrightarrow> feed_mint f' = feed_mint f \<and> (is_graduated f \<longrightarrow> is_graduated f')"
  shows "sound_feed a' \<and> feed_later a a'"
  using assms by (auto simp: sound_feed_def feed_later_def)

context borsh_codec begin

lemma oracle_process_sound:
  assumes "in_u64 slot" "sound_feed a"
  shows "okR (oracle_process B prog (Ok slot) (a # accs) d) (\<lambda>a'. sound_feed a' \<and> feed_later a a')"
proof (rule okR_I)
  fix a' assume "oracle_process B prog (Ok slot) (a # accs) d = Ok a'"
  then obtain ix where ix: "oracle_unpack B d = Ok ix"
    and r: "(case ix of InitializeFeed x \<Rightarrow> process_initialize_feed prog (Ok slot) (a # accs) x
        | Update \<Rightarrow> process_update prog (Ok slot) (a # accs) | Graduate \<Rightarrow> process_graduate prog (a # accs)
        | ConvertSource x \<Rightarrow> process_convert_source prog (Ok slot) (a # accs) x) = Ok a'"
    by (auto simp: oracle_process_def Ok_iffs)
  have t: "oracle_instruction_ok ix" by (rule oracle_unpack_typed[OF ix])
  obtain s rest where accs: "accs = s # rest"
    using r by (cases accs; cases ix) (auto simp: process_initialize_feed_def process_update_def
      process_graduate_def process_convert_source_def)
  show "sound_feed a' \<and> feed_later a a'"
  proof (cases ix)
    case (InitializeFeed x)
    have "process_initialize_feed prog (Ok slot) (a # s # rest) x = Ok a'" using r accs InitializeFeed by simp
    from okR_D[OF initialize_spec this] obtain f' where
      "load_feed a' = Ok f'" "same_account a a'" "feed_created slot x a s f'"
      using assms(1) t InitializeFeed by auto
    then show ?thesis by (intro sound_later) (auto simp: feed_created_def)
  next
    case Update
    have "process_update prog (Ok slot) (a # s # rest) = Ok a'" using r accs Update by simp
    from okR_D[OF update_spec[OF assms] this] obtain f f' where
      f: "load_feed a = Ok f" "feed_is_initialized f" "load_feed a' = Ok f'" "same_account a a'"
        "feed_updated slot s f f'" "feed_ok f'" by blast
    then have "feed_is_initialized f' \<and> feed_mint f' = feed_mint f \<and> (is_graduated f \<longrightarrow> is_graduated f')"
      by (auto simp: feed_updated_def feed_is_initialized_def is_graduated_def)
    then show ?thesis using f(1) by (intro sound_later[OF f(3,4,6)]) auto
  next
    case Graduate
    have "process_graduate prog (a # s # rest) = Ok a'" using r accs Graduate by simp
    from okR_D[OF graduate_spec[OF assms(2)] this] obtain f where
      f: "load_feed a = Ok f" "feed_is_initialized f" "load_feed a' = Ok (f\<lparr> graduated := 1 \<rparr>)" "same_account a a'"
        "feed_ok (f\<lparr> graduated := 1 \<rparr>)" by blast
    then show ?thesis by (intro sound_later[OF f(3,4,5)]) (auto simp: feed_is_initialized_def is_graduated_def)
  next
    case (ConvertSource x)
    have "process_convert_source prog (Ok slot) (a # s # rest) x = Ok a'" using r accs ConvertSource by simp
    moreover have "length (new_source x) = 32" using t ConvertSource by simp
    ultimately obtain f f' where
      f: "load_feed a = Ok f" "feed_is_initialized f" "load_feed a' = Ok f'" "same_account a a'"
        "feed_converted slot x s f f'" "feed_ok f'"
      using okR_D[OF convert_source_spec[OF assms(1) _ assms(2)]] by blast
    then have "feed_is_initialized f' \<and> feed_mint f' = feed_mint f \<and> (is_graduated f \<longrightarrow> is_graduated f')"
      by (auto simp: feed_converted_def feed_is_initialized_def is_graduated_def)
    then show ?thesis using f(1) by (intro sound_later[OF f(3,4,6)]) auto
  qed
qed

end

sublocale borsh_codec \<subseteq> feed_life: custodian "oracle_exec B prog" call_typed sound_feed "\<lambda>_. 0" feed_later for prog
proof
  show "okP (oracle_exec B prog i s) (\<lambda>n s'. sound_feed s' \<and> 0 = 0 + n \<and> feed_later s s')"
    if "call_typed i" "sound_feed s" for i s
    using oracle_process_sound[of "call_slot i" s prog] that
    by (simp add: oracle_exec_def okP_of_res call_typed_def)
qed (rule feed_later_order, assumption?)+

context borsh_codec begin

lemma feed_history:
  assumes "list_all call_typed cs" "submit (oracle_exec B prog) cs a = (tr, a')" "sound_feed a"
  shows "sound_feed a' \<and> feed_later a a'"
  using feed_life.submit_sound[OF assms] by blast

end

end
