(* ===== verification/Header.thy ===== *)
theory Header
  imports Host
begin

text \<open>
  The error codes (\<open>src/program/src/error.rs\<close>) and the slab header (\<open>src/program/src/state.rs\<close>) of
  the on-chain wrapper. A header occupies the first 104 bytes of a slab account; the engine follows.
  Public keys are lists of 32 bytes; that their length is 32, a matter of types in the code, is the
  predicate \<open>header_typed\<close>.
\<close>

section \<open>Errors\<close>

datatype percolator_error =
  NotImplemented | InvalidInstructionData | SlabAlreadyInitialized | SlabSizeMismatch
| MissingAccount | AccountNotWritable | MissingSigner | InvalidSystemProgram | AlreadyInitialized
| SlabNotInitialized | InvalidRiskParams | WrongSigner | WrongMint | VaultPdaMismatch
| TokenAccountWrongOwner | TokenAccountWrongMint | ZeroAmount | InvalidTokenProgram | SlabFull
| EngineError | StaleOracle | SlippageExceeded | DrainOnly | InvalidSide | LpNotBootstrapped
| LpAlreadyBootstrapped | ZeroSize | AccountHealthy | InvalidVictimSlot
| ProtocolLpNotLiquidatable | InvalidCrankKind | NothingToDo | WrongTreasury | ListingFeeTooLow

text \<open>The discriminants, the \<open>u32\<close> a client sees.\<close>

fun error_code :: "percolator_error \<Rightarrow> 32 word" where
  "error_code NotImplemented = 0"
| "error_code InvalidInstructionData = 1"
| "error_code SlabAlreadyInitialized = 2"
| "error_code SlabSizeMismatch = 3"
| "error_code MissingAccount = 4"
| "error_code AccountNotWritable = 5"
| "error_code MissingSigner = 6"
| "error_code InvalidSystemProgram = 7"
| "error_code AlreadyInitialized = 8"
| "error_code SlabNotInitialized = 9"
| "error_code InvalidRiskParams = 10"
| "error_code WrongSigner = 11"
| "error_code WrongMint = 12"
| "error_code VaultPdaMismatch = 13"
| "error_code TokenAccountWrongOwner = 14"
| "error_code TokenAccountWrongMint = 15"
| "error_code ZeroAmount = 16"
| "error_code InvalidTokenProgram = 17"
| "error_code SlabFull = 18"
| "error_code EngineError = 19"
| "error_code StaleOracle = 20"
| "error_code SlippageExceeded = 21"
| "error_code DrainOnly = 22"
| "error_code InvalidSide = 23"
| "error_code LpNotBootstrapped = 24"
| "error_code LpAlreadyBootstrapped = 25"
| "error_code ZeroSize = 26"
| "error_code AccountHealthy = 27"
| "error_code InvalidVictimSlot = 28"
| "error_code ProtocolLpNotLiquidatable = 29"
| "error_code InvalidCrankKind = 30"
| "error_code NothingToDo = 31"
| "error_code WrongTreasury = 32"
| "error_code ListingFeeTooLow = 33"

definition all_errors :: "percolator_error list" where
  "all_errors = [NotImplemented, InvalidInstructionData, SlabAlreadyInitialized, SlabSizeMismatch,
     MissingAccount, AccountNotWritable, MissingSigner, InvalidSystemProgram, AlreadyInitialized,
     SlabNotInitialized, InvalidRiskParams, WrongSigner, WrongMint, VaultPdaMismatch,
     TokenAccountWrongOwner, TokenAccountWrongMint, ZeroAmount, InvalidTokenProgram, SlabFull,
     EngineError, StaleOracle, SlippageExceeded, DrainOnly, InvalidSide, LpNotBootstrapped,
     LpAlreadyBootstrapped, ZeroSize, AccountHealthy, InvalidVictimSlot, ProtocolLpNotLiquidatable,
     InvalidCrankKind, NothingToDo, WrongTreasury, ListingFeeTooLow]"

lemma nth_error_code: "all_errors ! unat (error_code e) = e"
  by (cases e) (simp_all add: all_errors_def)

lemma error_code_inj: "error_code x = error_code y \<Longrightarrow> x = y"
  by (metis nth_error_code)

definition of_percolator :: "percolator_error \<Rightarrow> program_error" where
  "of_percolator e = Custom (error_code e)"

section \<open>The header\<close>

record slab_header =
  mint :: bytes
  oracle_key :: bytes
  creator :: bytes
  bump :: "8 word"
  initialized :: "8 word"
  vault_bump :: "8 word"
  origin :: "8 word"
  header_pad :: bytes

definition HEADER_LEN :: nat where "HEADER_LEN = 104"
definition ORIGIN_SEEDED :: "8 word" where "ORIGIN_SEEDED = 0"
definition ORIGIN_OPEN :: "8 word" where "ORIGIN_OPEN = 1"

definition header_new :: "bytes \<Rightarrow> bytes \<Rightarrow> bytes \<Rightarrow> 8 word \<Rightarrow> 8 word \<Rightarrow> slab_header" where
  "header_new mnt orc crt bmp vbmp =
     \<lparr> mint = mnt, oracle_key = orc, creator = crt, bump = bmp, initialized = 0, vault_bump = vbmp,
       origin = ORIGIN_SEEDED, header_pad = replicate 4 0 \<rparr>"

definition header_typed :: "slab_header \<Rightarrow> bool" where
  "header_typed h = (length (mint h) = 32 \<and> length (oracle_key h) = 32 \<and> length (creator h) = 32
     \<and> length (header_pad h) = 4)"

definition write_into :: "slab_header \<Rightarrow> bytes \<Rightarrow> (percolator_error, bytes) res" where
  "write_into h dst =
     (if length dst < HEADER_LEN then Err SlabSizeMismatch
      else
        let dst = copy_at 0 (mint h) dst;
            dst = copy_at 32 (oracle_key h) dst;
            dst = copy_at 64 (creator h) dst;
            dst = dst[96 := bump h];
            dst = dst[97 := initialized h];
            dst = dst[98 := vault_bump h];
            dst = dst[99 := origin h];
            dst = copy_at 100 (header_pad h) dst
        in Ok dst)"

definition read_from :: "bytes \<Rightarrow> (percolator_error, slab_header) res" where
  "read_from src =
     (if length src < HEADER_LEN then Err SlabSizeMismatch
      else Ok \<lparr> mint = slice 0 32 src, oracle_key = slice 32 64 src, creator = slice 64 96 src,
                bump = src ! 96, initialized = src ! 97, vault_bump = src ! 98, origin = src ! 99,
                header_pad = slice 100 104 src \<rparr>)"

definition is_initialized :: "slab_header \<Rightarrow> bool" where
  "is_initialized h = (initialized h \<noteq> 0)"

text \<open>The layout as one list of bytes.\<close>

definition header_bytes :: "slab_header \<Rightarrow> bytes" where
  "header_bytes h = mint h @ oracle_key h @ creator h @ [bump h, initialized h, vault_bump h, origin h] @ header_pad h"

lemma header_bytes_len: "header_typed h \<Longrightarrow> length (header_bytes h) = HEADER_LEN"
  by (simp add: header_bytes_def header_typed_def HEADER_LEN_def)

lemma drop_96:
  assumes "HEADER_LEN \<le> length xs"
  shows "drop 96 xs = [xs ! 96, xs ! 97, xs ! 98, xs ! 99] @ drop 100 xs"
proof -
  have "drop n xs = xs ! n # drop (Suc n) xs" if "n < 104" for n
    using that assms by (simp add: Cons_nth_drop_Suc HEADER_LEN_def)
  from this[of 96] this[of 97] this[of 98] this[of 99] show ?thesis by simp
qed

lemma update_flags:
  assumes "length d = 96"
  shows "(d @ a # b # c # e # r)[96 := x, 97 := y, 98 := z, 99 := w] = d @ [x, y, z, w] @ r"
  using assms by (simp add: list_update_append)

lemma write_into_eq:
  assumes "header_typed h" "HEADER_LEN \<le> length dst"
  shows "write_into h dst = Ok (header_bytes h @ drop HEADER_LEN dst)"
proof -
  have L: "length (mint h) = 32" "length (oracle_key h) = 32" "length (creator h) = 32" "length (header_pad h) = 4"
    using assms(1) by (simp_all add: header_typed_def)
  define d1 where "d1 = mint h @ oracle_key h @ creator h"
  have d1: "length d1 = 96" by (simp add: d1_def L)
  have "copy_at 64 (creator h) (copy_at 32 (oracle_key h) (copy_at 0 (mint h) dst)) = d1 @ drop 96 dst"
    by (simp add: copy_at_def d1_def L)
  then have "(copy_at 64 (creator h) (copy_at 32 (oracle_key h) (copy_at 0 (mint h) dst)))
        [96 := bump h, 97 := initialized h, 98 := vault_bump h, 99 := origin h]
      = d1 @ [bump h, initialized h, vault_bump h, origin h] @ drop 100 dst"
    using update_flags[OF d1] by (simp add: drop_96[OF assms(2)])
  then show ?thesis
    using assms(2) d1 by (simp add: write_into_def Let_def header_bytes_def HEADER_LEN_def copy_at_def L d1_def)
qed

lemma read_header_bytes: "header_typed h \<Longrightarrow> read_from (header_bytes h @ r) = Ok h"
  by (simp add: read_from_def header_bytes_def slice_def header_typed_def HEADER_LEN_def nth_append)

lemma header_roundtrip:
  assumes "header_typed h" "write_into h dst = Ok dst'"
  shows "read_from dst' = Ok h \<and> length dst' = length dst"
proof -
  have "HEADER_LEN \<le> length dst" using assms(2) by (simp add: write_into_def split: if_splits)
  then show ?thesis
    using assms write_into_eq[OF assms(1)] read_header_bytes header_bytes_len[OF assms(1)] by force
qed

lemma bytes_104:
  assumes "HEADER_LEN \<le> length src"
  shows "slice 0 32 src @ slice 32 64 src @ slice 64 96 src @ [src ! 96, src ! 97, src ! 98, src ! 99]
     @ slice 100 104 src @ drop 104 src = src"
proof -
  have "drop 96 src = [src ! 96, src ! 97, src ! 98, src ! 99] @ drop 100 src"
    by (rule drop_96[OF assms])
  moreover have "slice 0 32 src @ drop 32 src = src" "slice 32 64 src @ drop 64 src = drop 32 src"
    "slice 64 96 src @ drop 96 src = drop 64 src" "slice 100 104 src @ drop 104 src = drop 100 src"
    by (simp_all add: slice_next)
  ultimately show ?thesis by simp
qed

lemma header_read_write:
  assumes "read_from src = Ok h"
  shows "header_typed h \<and> write_into h src = Ok src"
proof -
  have l: "HEADER_LEN \<le> length src" using assms by (simp add: read_from_def split: if_splits)
  then have h: "h = \<lparr> mint = slice 0 32 src, oracle_key = slice 32 64 src, creator = slice 64 96 src,
      bump = src ! 96, initialized = src ! 97, vault_bump = src ! 98, origin = src ! 99,
      header_pad = slice 100 104 src \<rparr>"
    using assms by (simp add: read_from_def)
  then have t: "header_typed h" using l by (simp add: header_typed_def slice_def HEADER_LEN_def)
  show ?thesis using write_into_eq[OF t l] bytes_104[OF l] t by (simp add: h header_bytes_def HEADER_LEN_def)
qed

end
