(* ===== verification/Instruction.thy ===== *)
theory Instruction
  imports Header
begin

text \<open>
  The wire format of the wrapper's instructions (\<open>src/program/src/instruction.rs\<close>): a discriminator
  byte followed by the Borsh fields of the variant. \<open>u8\<close> fields are bytes; wider fields are \<open>int\<close>
  with their range in the \<open>_ok\<close> predicates, which state the field types of the code. Field names are
  prefixed where two structs of the code share one.
\<close>

section \<open>Arguments\<close>

datatype instruction_tag =
  TagCreateSlab | TagDeposit | TagWithdraw | TagPlaceOrder | TagLiquidate | TagCrank
| TagInitializeEngine | TagBootstrapLp | TagCreateMarket

fun tag_byte :: "instruction_tag \<Rightarrow> 8 word" where
  "tag_byte TagCreateSlab = 0"
| "tag_byte TagDeposit = 1"
| "tag_byte TagWithdraw = 2"
| "tag_byte TagPlaceOrder = 3"
| "tag_byte TagLiquidate = 4"
| "tag_byte TagCrank = 5"
| "tag_byte TagInitializeEngine = 6"
| "tag_byte TagBootstrapLp = 7"
| "tag_byte TagCreateMarket = 8"

datatype crank_kind = CrankFunding | CrankGc | CrankAdlReset

record create_slab_args =
  cs_bump :: "8 word"
  cs_vault_bump :: "8 word"

record deposit_args =
  deposit_amount :: int

record withdraw_args =
  withdraw_amount :: int

record place_order_args =
  order_side :: "8 word"
  order_size :: int
  max_price :: int
  min_price :: int

record bootstrap_lp_args =
  lp_amount :: int

record create_market_args =
  cm_vault_bump :: "8 word"
  fee_lamports :: int

record liquidate_args =
  victim_slot :: int

record crank_args =
  crank_kind_byte :: "8 word"

record risk_params_args =
  ra_maintenance_margin_bps :: int
  ra_initial_margin_bps :: int
  ra_trading_fee_bps :: int
  ra_max_accounts :: int
  ra_max_crank_staleness_slots :: int
  ra_liquidation_fee_bps :: int
  ra_liquidation_fee_cap :: int
  ra_min_liquidation_abs :: int
  ra_min_initial_deposit :: int
  ra_min_nonzero_mm_req :: int
  ra_min_nonzero_im_req :: int
  ra_insurance_floor :: int
  ra_h_min :: int
  ra_h_max :: int
  ra_resolve_price_deviation_bps :: int
  ra_max_accrual_dt_slots :: int
  ra_max_abs_funding_e9_per_slot :: int
  ra_min_funding_lifetime_slots :: int
  ra_max_active_positions_per_side :: int

record initialize_engine_args =
  risk_params_arg :: risk_params_args
  init_oracle_price :: int

datatype percolator_instruction =
  CreateSlab create_slab_args
| Deposit deposit_args
| Withdraw withdraw_args
| PlaceOrder place_order_args
| Liquidate liquidate_args
| Crank crank_args
| InitializeEngine initialize_engine_args
| BootstrapLp bootstrap_lp_args
| CreateMarket create_market_args

definition into_engine_params :: "risk_params_args \<Rightarrow> risk_params" where
  "into_engine_params a = \<lparr>
          maintenance_margin_bps = ra_maintenance_margin_bps a, initial_margin_bps =
          ra_initial_margin_bps a, trading_fee_bps = ra_trading_fee_bps a, max_accounts =
          ra_max_accounts a, max_crank_staleness_slots = ra_max_crank_staleness_slots a,
          liquidation_fee_bps = ra_liquidation_fee_bps a, liquidation_fee_cap =
          ra_liquidation_fee_cap a, min_liquidation_abs = ra_min_liquidation_abs a,
          min_initial_deposit = ra_min_initial_deposit a, min_nonzero_mm_req =
          ra_min_nonzero_mm_req a, min_nonzero_im_req = ra_min_nonzero_im_req a, insurance_floor =
          ra_insurance_floor a, h_min = ra_h_min a, h_max = ra_h_max a,
          resolve_price_deviation_bps = ra_resolve_price_deviation_bps a, max_accrual_dt_slots =
          ra_max_accrual_dt_slots a, max_abs_funding_e9_per_slot = ra_max_abs_funding_e9_per_slot
          a, min_funding_lifetime_slots = ra_min_funding_lifetime_slots a,
          max_active_positions_per_side = ra_max_active_positions_per_side a \<rparr>"

section \<open>The derived codecs\<close>

definition put_create_slab :: "borsh \<Rightarrow> create_slab_args \<Rightarrow> bytes" where
  "put_create_slab B a = put_u8 B (cs_bump a) @ put_u8 B (cs_vault_bump a)"

definition get_create_slab :: "borsh \<Rightarrow> create_slab_args reader" where
  "get_create_slab B = rbind (get_u8 B) (\<lambda>b. rbind (get_u8 B) (\<lambda>v.
     rpure \<lparr> cs_bump = b, cs_vault_bump = v \<rparr>))"

definition put_deposit :: "borsh \<Rightarrow> deposit_args \<Rightarrow> bytes" where
  "put_deposit B a = put_int B 8 (deposit_amount a)"

definition get_deposit :: "borsh \<Rightarrow> deposit_args reader" where
  "get_deposit B = rbind (get_int B 8) (\<lambda>x. rpure \<lparr> deposit_amount = x \<rparr>)"

definition put_withdraw :: "borsh \<Rightarrow> withdraw_args \<Rightarrow> bytes" where
  "put_withdraw B a = put_int B 8 (withdraw_amount a)"

definition get_withdraw :: "borsh \<Rightarrow> withdraw_args reader" where
  "get_withdraw B = rbind (get_int B 8) (\<lambda>x. rpure \<lparr> withdraw_amount = x \<rparr>)"

definition put_place_order :: "borsh \<Rightarrow> place_order_args \<Rightarrow> bytes" where
  "put_place_order B a = put_u8 B (order_side a) @ put_int B 8 (order_size a)
     @ put_int B 8 (max_price a) @ put_int B 8 (min_price a)"

definition get_place_order :: "borsh \<Rightarrow> place_order_args reader" where
  "get_place_order B = rbind (get_u8 B) (\<lambda>s. rbind (get_int B 8) (\<lambda>q. rbind (get_int B 8) (\<lambda>hi.
     rbind (get_int B 8) (\<lambda>lo. rpure \<lparr> order_side = s, order_size = q, max_price = hi, min_price = lo \<rparr>))))"

definition put_bootstrap_lp :: "borsh \<Rightarrow> bootstrap_lp_args \<Rightarrow> bytes" where
  "put_bootstrap_lp B a = put_int B 8 (lp_amount a)"

definition get_bootstrap_lp :: "borsh \<Rightarrow> bootstrap_lp_args reader" where
  "get_bootstrap_lp B = rbind (get_int B 8) (\<lambda>x. rpure \<lparr> lp_amount = x \<rparr>)"

definition put_create_market :: "borsh \<Rightarrow> create_market_args \<Rightarrow> bytes" where
  "put_create_market B a = put_u8 B (cm_vault_bump a) @ put_int B 8 (fee_lamports a)"

definition get_create_market :: "borsh \<Rightarrow> create_market_args reader" where
  "get_create_market B = rbind (get_u8 B) (\<lambda>b. rbind (get_int B 8) (\<lambda>x.
     rpure \<lparr> cm_vault_bump = b, fee_lamports = x \<rparr>))"

definition put_liquidate :: "borsh \<Rightarrow> liquidate_args \<Rightarrow> bytes" where
  "put_liquidate B a = put_int B 2 (victim_slot a)"

definition get_liquidate :: "borsh \<Rightarrow> liquidate_args reader" where
  "get_liquidate B = rbind (get_int B 2) (\<lambda>x. rpure \<lparr> victim_slot = x \<rparr>)"

definition put_crank :: "borsh \<Rightarrow> crank_args \<Rightarrow> bytes" where
  "put_crank B a = put_u8 B (crank_kind_byte a)"

definition get_crank :: "borsh \<Rightarrow> crank_args reader" where
  "get_crank B = rbind (get_u8 B) (\<lambda>x. rpure \<lparr> crank_kind_byte = x \<rparr>)"

definition put_risk_params :: "borsh \<Rightarrow> risk_params_args \<Rightarrow> bytes" where
  "put_risk_params B a = put_int B 8 (ra_maintenance_margin_bps a)
     @ put_int B 8 (ra_initial_margin_bps a)
     @ put_int B 8 (ra_trading_fee_bps a)
     @ put_int B 8 (ra_max_accounts a)
     @ put_int B 8 (ra_max_crank_staleness_slots a)
     @ put_int B 8 (ra_liquidation_fee_bps a)
     @ put_int B 16 (ra_liquidation_fee_cap a)
     @ put_int B 16 (ra_min_liquidation_abs a)
     @ put_int B 16 (ra_min_initial_deposit a)
     @ put_int B 16 (ra_min_nonzero_mm_req a)
     @ put_int B 16 (ra_min_nonzero_im_req a)
     @ put_int B 16 (ra_insurance_floor a)
     @ put_int B 8 (ra_h_min a)
     @ put_int B 8 (ra_h_max a)
     @ put_int B 8 (ra_resolve_price_deviation_bps a)
     @ put_int B 8 (ra_max_accrual_dt_slots a)
     @ put_int B 8 (ra_max_abs_funding_e9_per_slot a)
     @ put_int B 8 (ra_min_funding_lifetime_slots a)
     @ put_int B 8 (ra_max_active_positions_per_side a)"

definition get_risk_params :: "borsh \<Rightarrow> risk_params_args reader" where
  "get_risk_params B =
     rbind (get_int B 8) (\<lambda>x0.
     rbind (get_int B 8) (\<lambda>x1.
     rbind (get_int B 8) (\<lambda>x2.
     rbind (get_int B 8) (\<lambda>x3.
     rbind (get_int B 8) (\<lambda>x4.
     rbind (get_int B 8) (\<lambda>x5.
     rbind (get_int B 16) (\<lambda>x6.
     rbind (get_int B 16) (\<lambda>x7.
     rbind (get_int B 16) (\<lambda>x8.
     rbind (get_int B 16) (\<lambda>x9.
     rbind (get_int B 16) (\<lambda>x10.
     rbind (get_int B 16) (\<lambda>x11.
     rbind (get_int B 8) (\<lambda>x12.
     rbind (get_int B 8) (\<lambda>x13.
     rbind (get_int B 8) (\<lambda>x14.
     rbind (get_int B 8) (\<lambda>x15.
     rbind (get_int B 8) (\<lambda>x16.
     rbind (get_int B 8) (\<lambda>x17.
     rbind (get_int B 8) (\<lambda>x18.
     rpure \<lparr>
          ra_maintenance_margin_bps = x0, ra_initial_margin_bps = x1, ra_trading_fee_bps = x2,
          ra_max_accounts = x3, ra_max_crank_staleness_slots = x4, ra_liquidation_fee_bps = x5,
          ra_liquidation_fee_cap = x6, ra_min_liquidation_abs = x7, ra_min_initial_deposit = x8,
          ra_min_nonzero_mm_req = x9, ra_min_nonzero_im_req = x10, ra_insurance_floor = x11,
          ra_h_min = x12, ra_h_max = x13, ra_resolve_price_deviation_bps = x14,
          ra_max_accrual_dt_slots = x15, ra_max_abs_funding_e9_per_slot = x16,
          ra_min_funding_lifetime_slots = x17, ra_max_active_positions_per_side = x18 \<rparr>)))))))))))))))))))"

definition put_initialize_engine :: "borsh \<Rightarrow> initialize_engine_args \<Rightarrow> bytes" where
  "put_initialize_engine B a = put_risk_params B (risk_params_arg a) @ put_int B 8 (init_oracle_price a)"

definition get_initialize_engine :: "borsh \<Rightarrow> initialize_engine_args reader" where
  "get_initialize_engine B = rbind (get_risk_params B) (\<lambda>p. rbind (get_int B 8) (\<lambda>x.
     rpure \<lparr> risk_params_arg = p, init_oracle_price = x \<rparr>))"

section \<open>Packing and unpacking\<close>

fun pack :: "borsh \<Rightarrow> percolator_instruction \<Rightarrow> bytes" where
  "pack B (CreateSlab a) = [tag_byte TagCreateSlab] @ put_create_slab B a"
| "pack B (Deposit a) = [tag_byte TagDeposit] @ put_deposit B a"
| "pack B (Withdraw a) = [tag_byte TagWithdraw] @ put_withdraw B a"
| "pack B (PlaceOrder a) = [tag_byte TagPlaceOrder] @ put_place_order B a"
| "pack B (Liquidate a) = [tag_byte TagLiquidate] @ put_liquidate B a"
| "pack B (Crank a) = [tag_byte TagCrank] @ put_crank B a"
| "pack B (InitializeEngine a) = [tag_byte TagInitializeEngine] @ put_initialize_engine B a"
| "pack B (BootstrapLp a) = [tag_byte TagBootstrapLp] @ put_bootstrap_lp B a"
| "pack B (CreateMarket a) = [tag_byte TagCreateMarket] @ put_create_market B a"

definition decode :: "('a \<Rightarrow> percolator_instruction) \<Rightarrow> 'a reader \<Rightarrow> bytes \<Rightarrow> (percolator_error, percolator_instruction) res" where
  "decode con g rest = rthen (ok_or InvalidInstructionData (try_from_slice g rest)) (\<lambda>a. Ok (con a))"

fun unpack :: "borsh \<Rightarrow> bytes \<Rightarrow> (percolator_error, percolator_instruction) res" where
  "unpack B [] = Err InvalidInstructionData"
| "unpack B (t # rest) =
     (if t = tag_byte TagCreateSlab then decode CreateSlab (get_create_slab B) rest
      else if t = tag_byte TagDeposit then decode Deposit (get_deposit B) rest
      else if t = tag_byte TagWithdraw then decode Withdraw (get_withdraw B) rest
      else if t = tag_byte TagPlaceOrder then decode PlaceOrder (get_place_order B) rest
      else if t = tag_byte TagLiquidate then decode Liquidate (get_liquidate B) rest
      else if t = tag_byte TagCrank then decode Crank (get_crank B) rest
      else if t = tag_byte TagInitializeEngine then decode InitializeEngine (get_initialize_engine B) rest
      else if t = tag_byte TagBootstrapLp then decode BootstrapLp (get_bootstrap_lp B) rest
      else if t = tag_byte TagCreateMarket then decode CreateMarket (get_create_market B) rest
      else Err InvalidInstructionData)"

section \<open>The types of the fields\<close>

definition risk_params_ok :: "risk_params_args \<Rightarrow> bool" where
  "risk_params_ok a =
     (in_u64 (ra_maintenance_margin_bps a)
      \<and> in_u64 (ra_initial_margin_bps a)
      \<and> in_u64 (ra_trading_fee_bps a)
      \<and> in_u64 (ra_max_accounts a)
      \<and> in_u64 (ra_max_crank_staleness_slots a)
      \<and> in_u64 (ra_liquidation_fee_bps a)
      \<and> in_u128 (ra_liquidation_fee_cap a)
      \<and> in_u128 (ra_min_liquidation_abs a)
      \<and> in_u128 (ra_min_initial_deposit a)
      \<and> in_u128 (ra_min_nonzero_mm_req a)
      \<and> in_u128 (ra_min_nonzero_im_req a)
      \<and> in_u128 (ra_insurance_floor a)
      \<and> in_u64 (ra_h_min a)
      \<and> in_u64 (ra_h_max a)
      \<and> in_u64 (ra_resolve_price_deviation_bps a)
      \<and> in_u64 (ra_max_accrual_dt_slots a)
      \<and> in_u64 (ra_max_abs_funding_e9_per_slot a)
      \<and> in_u64 (ra_min_funding_lifetime_slots a)
      \<and> in_u64 (ra_max_active_positions_per_side a))"

fun instruction_ok :: "percolator_instruction \<Rightarrow> bool" where
  "instruction_ok (CreateSlab a) = True"
| "instruction_ok (Deposit a) = in_u64 (deposit_amount a)"
| "instruction_ok (Withdraw a) = in_u64 (withdraw_amount a)"
| "instruction_ok (PlaceOrder a) = (in_u64 (order_size a) \<and> in_u64 (max_price a) \<and> in_u64 (min_price a))"
| "instruction_ok (Liquidate a) = (0 \<le> victim_slot a \<and> victim_slot a < 65536)"
| "instruction_ok (Crank a) = True"
| "instruction_ok (InitializeEngine a) = (risk_params_ok (risk_params_arg a) \<and> in_u64 (init_oracle_price a))"
| "instruction_ok (BootstrapLp a) = in_u64 (lp_amount a)"
| "instruction_ok (CreateMarket a) = in_u64 (fee_lamports a)"

section \<open>Every codec is a wire format\<close>

lemmas codec_defs = put_create_slab_def get_create_slab_def put_deposit_def get_deposit_def
  put_withdraw_def get_withdraw_def put_place_order_def get_place_order_def put_bootstrap_lp_def
  get_bootstrap_lp_def put_create_market_def get_create_market_def put_liquidate_def get_liquidate_def
  put_crank_def get_crank_def put_initialize_engine_def get_initialize_engine_def

sublocale borsh_codec \<subseteq> create_slab: wire_format "put_create_slab B" "get_create_slab B" "\<lambda>a. instruction_ok (CreateSlab a)"
  by unfold_locales (auto simp: codec_defs rbind_read rbind_Some_iff rpure_iff dest!: field_D)

sublocale borsh_codec \<subseteq> deposit: wire_format "put_deposit B" "get_deposit B" "\<lambda>a. instruction_ok (Deposit a)"
  by unfold_locales (auto simp: codec_defs rbind_read rbind_Some_iff rpure_iff dest!: field_D)

sublocale borsh_codec \<subseteq> withdraw: wire_format "put_withdraw B" "get_withdraw B" "\<lambda>a. instruction_ok (Withdraw a)"
  by unfold_locales (auto simp: codec_defs rbind_read rbind_Some_iff rpure_iff dest!: field_D)

sublocale borsh_codec \<subseteq> place_order: wire_format "put_place_order B" "get_place_order B" "\<lambda>a. instruction_ok (PlaceOrder a)"
  by unfold_locales (auto simp: codec_defs rbind_read rbind_Some_iff rpure_iff dest!: field_D)

sublocale borsh_codec \<subseteq> liquidate: wire_format "put_liquidate B" "get_liquidate B" "\<lambda>a. instruction_ok (Liquidate a)"
  by unfold_locales (auto simp: codec_defs rbind_read rbind_Some_iff rpure_iff dest!: field_D)

sublocale borsh_codec \<subseteq> crank: wire_format "put_crank B" "get_crank B" "\<lambda>a. instruction_ok (Crank a)"
  by unfold_locales (auto simp: codec_defs rbind_read rbind_Some_iff rpure_iff dest!: field_D)

sublocale borsh_codec \<subseteq> bootstrap_lp: wire_format "put_bootstrap_lp B" "get_bootstrap_lp B" "\<lambda>a. instruction_ok (BootstrapLp a)"
  by unfold_locales (auto simp: codec_defs rbind_read rbind_Some_iff rpure_iff dest!: field_D)

sublocale borsh_codec \<subseteq> create_market: wire_format "put_create_market B" "get_create_market B" "\<lambda>a. instruction_ok (CreateMarket a)"
  by unfold_locales (auto simp: codec_defs rbind_read rbind_Some_iff rpure_iff dest!: field_D)

sublocale borsh_codec \<subseteq> risk_args: wire_format "put_risk_params B" "get_risk_params B" risk_params_ok
proof
  show "get_risk_params B (put_risk_params B x @ r) = Some (x, r)" if "risk_params_ok x" for x r
    using that unfolding risk_params_ok_def
    by (simp add: put_risk_params_def get_risk_params_def rbind_read rpure_def)
  show "bs = put_risk_params B x @ r \<and> risk_params_ok x" if "get_risk_params B bs = Some (x, r)" for bs x r
    using that unfolding get_risk_params_def rbind_Some_iff rpure_iff
    by (elim exE conjE) (drule field_D(3-5), (simp add: put_risk_params_def risk_params_ok_def)?)+
qed

sublocale borsh_codec \<subseteq> initialize: wire_format "put_initialize_engine B" "get_initialize_engine B"
    "\<lambda>a. instruction_ok (InitializeEngine a)"
  by unfold_locales
    (auto simp: codec_defs rbind_read rbind_Some_iff rpure_iff risk_args.dec_enc dest!: field_D risk_args.enc_dec)

section \<open>Round trips\<close>

text \<open>The bytes accepted for a variant are exactly those its values are packed to.\<close>

lemma decode_Ok_iff: "decode con g rest = Ok ix \<longleftrightarrow> (\<exists>a. try_from_slice g rest = Some a \<and> ix = con a)"
  by (auto simp: decode_def Ok_iffs)

lemma decode_cases:
  "decode con g rest = (case try_from_slice g rest of Some a \<Rightarrow> Ok (con a) | None \<Rightarrow> Err InvalidInstructionData)"
  by (simp add: decode_def split: option.split)

context borsh_codec begin

lemmas slice_iffs = create_slab.slice_iff deposit.slice_iff withdraw.slice_iff place_order.slice_iff
  liquidate.slice_iff crank.slice_iff initialize.slice_iff bootstrap_lp.slice_iff create_market.slice_iff

lemma unpack_Ok_iff: "unpack B bs = Ok ix \<longleftrightarrow> instruction_ok ix \<and> bs = pack B ix"
proof (cases bs)
  case Nil
  then show ?thesis by (cases ix) simp_all
next
  case (Cons t rest)
  have P: "decode con g rest = Ok ix \<longleftrightarrow> (\<exists>a. try_from_slice g rest = Some a \<and> ix = con a)" for con g
    by (rule decode_Ok_iff)
  show ?thesis
    unfolding Cons unpack.simps
    by (cases ix; simp add: decode_Ok_iff slice_iffs del: instruction_ok.simps; blast)
qed

lemma unpack_total: "unpack B bs = Err InvalidInstructionData \<or> (\<exists>ix. unpack B bs = Ok ix)"
  by (cases bs) (simp_all add: decode_cases split: option.split)

end

end
