(* ===== verification/Wrapper.thy ===== *)
theory Wrapper
  imports Lifecycle Oracle Instruction
begin

text \<open>
  The wrapper program (\<open>src/program/src/processor.rs\<close>): the handlers that put the engine on chain.

  A slab account is its \<open>account_info\<close>, whose data are the bytes before \<open>ENGINE_OFFSET\<close>, its full
  length, and the engine region, which the code reaches by casting the remaining bytes to a
  \<open>RiskEngine\<close> and which is typed here. It is passed to a handler in the state; the other accounts are
  passed as the list of the instruction without it. The state also records the transfers that were
  invoked, in order. The runtime (clock, rent, derived addresses, token accounts, invoked programs) is
  the parameter \<open>H\<close>.
\<close>

section \<open>The runtime and the state\<close>

text \<open>A token or lamport transfer: from, to, authority, amount and the seeds it is signed with.\<close>

datatype cpi =
  TokenTransfer pubkey pubkey pubkey int "bytes list"
| SystemTransfer pubkey pubkey int

record host =
  clock :: "(program_error, int) res"
  rent_exempt :: "int \<Rightarrow> nat \<Rightarrow> (program_error, bool) res"
  create_program_address :: "bytes list \<Rightarrow> pubkey \<Rightarrow> pubkey option"
  unpack_token :: "bytes \<Rightarrow> (pubkey \<times> pubkey) option"
  invoke :: "cpi \<Rightarrow> (program_error, unit) res"
  spl_token_id :: pubkey
  system_program_id :: pubkey
  engine_size :: nat

record slab =
  slab_info :: account_info
  data_len :: nat
  region :: engine

record chain =
  slab_acc :: slab
  transfers :: "cpi list"

definition MIN_MARKET_CREATION_FEE_LAMPORTS :: int where "MIN_MARKET_CREATION_FEE_LAMPORTS = 500000000"
definition PROTOCOL_LP_SLOT :: nat where "PROTOCOL_LP_SLOT = 0"
definition PROTOCOL_LP_OWNER_SENTINEL :: pubkey where "PROTOCOL_LP_OWNER_SENTINEL = replicate 32 255"
definition LIQ_BOUNTY_BPS :: int where "LIQ_BOUNTY_BPS = 50"
definition CRANK_BOUNTY :: int where "CRANK_BOUNTY = 1000"
definition VAULT_SEED :: bytes where "VAULT_SEED = [118, 97, 117, 108, 116]"

text \<open>The base-58 constant \<open>TREASURY_PUBKEY\<close> as bytes.\<close>

definition TREASURY_PUBKEY :: pubkey where
  "TREASURY_PUBKEY = [198, 79, 50, 210, 52, 233, 233, 96, 78, 231, 103, 20, 61, 214, 242, 95,
     33, 136, 165, 7, 90, 191, 131, 145, 117, 226, 176, 72, 254, 148, 8, 55]"

definition guard :: "bool \<Rightarrow> percolator_error \<Rightarrow> (program_error, unit) res" where
  "guard b e = require b (of_percolator e)"

definition slab_account_size :: "host \<Rightarrow> nat" where
  "slab_account_size H = HEADER_LEN + engine_size H"

definition vault_seeds :: "slab \<Rightarrow> 8 word \<Rightarrow> bytes list" where
  "vault_seeds s vbump = [VAULT_SEED, key (slab_info s), [vbump]]"

definition vault_address :: "host \<Rightarrow> pubkey \<Rightarrow> slab \<Rightarrow> 8 word \<Rightarrow> (program_error, pubkey) res" where
  "vault_address H program_id s vbump =
     ok_or (of_percolator VaultPdaMismatch) (create_program_address H (vault_seeds s vbump) program_id)"

definition read_header :: "slab \<Rightarrow> (program_error, slab_header) res" where
  "read_header s = rthen (slice_to HEADER_LEN (data (slab_info s))) (\<lambda>d. map_err of_percolator (read_from d))"

definition write_header :: "slab_header \<Rightarrow> chain \<Rightarrow> (program_error, unit) res \<times> chain" where
  "write_header h ch =
     (let info = slab_info (slab_acc ch) in
      sval (rthen (slice_to HEADER_LEN (data info)) (\<lambda>d. map_err of_percolator (write_into h d))) ch (\<lambda>d.
      (Ok (), ch\<lparr> slab_acc := (slab_acc ch)\<lparr> slab_info := info\<lparr> data := d @ drop HEADER_LEN (data info) \<rparr> \<rparr> \<rparr>)))"

text \<open>\<open>spl_token::state::Account::unpack\<close> on a token account: its mint and its owner.\<close>

definition token_of :: "host \<Rightarrow> account_info \<Rightarrow> (program_error, pubkey \<times> pubkey) res" where
  "token_of H a = ok_or (of_percolator TokenAccountWrongOwner) (unpack_token H (data a))"

text \<open>The engine behind the cast, and a call of one of its methods, whose error becomes \<open>EngineError\<close>.\<close>

abbreviation engine_of :: "chain \<Rightarrow> engine" where "engine_of ch \<equiv> region (slab_acc ch)"

definition set_engine :: "engine \<Rightarrow> chain \<Rightarrow> chain" where
  "set_engine e ch = ch\<lparr> slab_acc := (slab_acc ch)\<lparr> region := e \<rparr> \<rparr>"

definition engine_call :: "(engine \<Rightarrow> 'a step) \<Rightarrow> chain \<Rightarrow> (program_error, 'a) res \<times> chain" where
  "engine_call f ch = (let (r, e) = f (engine_of ch) in (map_err (\<lambda>_. of_percolator EngineError) r, set_engine e ch))"

definition invoke_cpi :: "host \<Rightarrow> cpi \<Rightarrow> chain \<Rightarrow> (program_error, unit) res \<times> chain" where
  "invoke_cpi H c ch = sval (invoke H c) ch (\<lambda>_. (Ok (), ch\<lparr> transfers := transfers ch @ [c] \<rparr>))"

text \<open>The all-zero bit pattern of an engine with \<open>n\<close> account slots.\<close>

definition zero_account :: account where
  "zero_account = empty_account\<lparr> adl_a_basis := 0 \<rparr>"

definition zero_params :: risk_params where
  "zero_params = \<lparr> maintenance_margin_bps = 0, initial_margin_bps = 0, trading_fee_bps = 0, max_accounts = 0,
     max_crank_staleness_slots = 0, liquidation_fee_bps = 0, liquidation_fee_cap = 0, min_liquidation_abs = 0,
     min_initial_deposit = 0, min_nonzero_mm_req = 0, min_nonzero_im_req = 0, insurance_floor = 0, h_min = 0,
     h_max = 0, resolve_price_deviation_bps = 0, max_accrual_dt_slots = 0, max_abs_funding_e9_per_slot = 0,
     min_funding_lifetime_slots = 0, max_active_positions_per_side = 0 \<rparr>"

definition zero_engine :: "nat \<Rightarrow> nat \<Rightarrow> engine" where
  "zero_engine words n = (blank_engine n zero_params 0 0)\<lparr> adl_mult_long := 0, adl_mult_short := 0,
     used := replicate words 0, free_head := 0,
     next_free := replicate n 0, prev_free := replicate n 0, accounts := replicate n zero_account \<rparr>"

section \<open>Validation of the parameters\<close>

definition checked_product :: "int \<Rightarrow> int \<Rightarrow> int option" where
  "checked_product rate slots =
     Option.bind (Option.bind (fit_u128 (ADL_ONE * MAX_ORACLE_PRICE)) (\<lambda>v. fit_u128 (v * rate)))
       (\<lambda>v. fit_u128 (v * slots))"

definition validate_risk_params :: "nat \<Rightarrow> risk_params_args \<Rightarrow> int \<Rightarrow> (percolator_error, unit) res" where
  "validate_risk_params max_acc p px =
     rthen (require (\<not> (px = 0 \<or> px > MAX_ORACLE_PRICE)) InvalidRiskParams) (\<lambda>_.
     rthen (require (\<not> (ra_max_accounts p = 0 \<or> ra_max_accounts p > int max_acc)) InvalidRiskParams) (\<lambda>_.
     rthen (require (\<not> (ra_max_active_positions_per_side p = 0
         \<or> ra_max_active_positions_per_side p > ra_max_accounts p)) InvalidRiskParams) (\<lambda>_.
     rthen (require (\<not> ra_initial_margin_bps p = 0) InvalidRiskParams) (\<lambda>_.
     rthen (require (\<not> ra_maintenance_margin_bps p > ra_initial_margin_bps p) InvalidRiskParams) (\<lambda>_.
     rthen (require (\<not> (ra_initial_margin_bps p > 10000 \<or> ra_trading_fee_bps p > 10000
         \<or> ra_liquidation_fee_bps p > 10000)) InvalidRiskParams) (\<lambda>_.
     rthen (require (\<not> (ra_min_nonzero_mm_req p = 0 \<or> ra_min_nonzero_mm_req p \<ge> ra_min_nonzero_im_req p
         \<or> ra_min_nonzero_im_req p > ra_min_initial_deposit p)) InvalidRiskParams) (\<lambda>_.
     rthen (require (\<not> (ra_min_initial_deposit p = 0 \<or> ra_min_initial_deposit p > MAX_VAULT_TVL)) InvalidRiskParams) (\<lambda>_.
     rthen (require (\<not> (ra_min_liquidation_abs p > ra_liquidation_fee_cap p
         \<or> ra_liquidation_fee_cap p > MAX_PROTOCOL_FEE_ABS)) InvalidRiskParams) (\<lambda>_.
     rthen (require (\<not> ra_insurance_floor p > MAX_VAULT_TVL) InvalidRiskParams) (\<lambda>_.
     rthen (require (\<not> (ra_h_min p > ra_h_max p \<or> ra_h_max p = 0)) InvalidRiskParams) (\<lambda>_.
     rthen (require (\<not> ra_resolve_price_deviation_bps p > MAX_RESOLVE_PRICE_DEVIATION_BPS) InvalidRiskParams) (\<lambda>_.
     rthen (require (\<not> ra_max_accrual_dt_slots p = 0) InvalidRiskParams) (\<lambda>_.
     rthen (require (\<not> ra_max_abs_funding_e9_per_slot p > MAX_ABS_FUNDING_E9_PER_SLOT) InvalidRiskParams) (\<lambda>_.
     rthen (require (\<not> ra_min_funding_lifetime_slots p < ra_max_accrual_dt_slots p) InvalidRiskParams) (\<lambda>_.
     rthen (require (case checked_product (ra_max_abs_funding_e9_per_slot p) (ra_max_accrual_dt_slots p) of
         Some v \<Rightarrow> v \<le> I128_MAX | None \<Rightarrow> False) InvalidRiskParams) (\<lambda>_.
     rthen (require (case checked_product (ra_max_abs_funding_e9_per_slot p) (ra_min_funding_lifetime_slots p) of
         Some v \<Rightarrow> v \<le> I128_MAX | None \<Rightarrow> False) InvalidRiskParams) (\<lambda>_.
     Ok ())))))))))))))))))"

section \<open>Reading the oracle\<close>

definition read_oracle_price :: "account_info \<Rightarrow> int \<Rightarrow> (percolator_error, int) res" where
  "read_oracle_price oracle_ai slot =
     rthen (map_err (\<lambda>_. StaleOracle) (feed_read_from (data oracle_ai))) (\<lambda>f.
     rthen (require (feed_is_initialized f) StaleOracle) (\<lambda>_.
     rthen (require (\<not> last_update_slot f > slot) StaleOracle) (\<lambda>_.
     rthen (require (\<not> sat_u64 (slot - last_update_slot f) > STALE_SLOTS) StaleOracle) (\<lambda>_.
     let price = price_lamports_per_token f in
     rthen (require (\<not> (price = 0 \<or> price > MAX_ORACLE_PRICE)) StaleOracle) (\<lambda>_.
     Ok price)))))"

section \<open>Creating a slab\<close>

definition header_is_zero :: "slab \<Rightarrow> (program_error, bool) res" where
  "header_is_zero s = rthen (slice_to HEADER_LEN (data (slab_info s))) (\<lambda>d. Ok (list_all (\<lambda>b. b = 0) d))"

definition zero_region :: "chain \<Rightarrow> chain" where
  "zero_region ch = set_engine (zero_engine (length (used (engine_of ch))) (MAX_ACCOUNTS (engine_of ch))) ch"

definition process_create_slab ::
  "host \<Rightarrow> pubkey \<Rightarrow> account_info list \<Rightarrow> create_slab_args \<Rightarrow> chain \<Rightarrow> (program_error, unit) res \<times> chain"
where
  "process_create_slab H program_id accs args ch =
     (let s = slab_acc ch in
      sval (next_account accs) ch (\<lambda>(payer, accs).
      sval (next_account accs) ch (\<lambda>(mint_ai, accs).
      sval (next_account accs) ch (\<lambda>(oracle_ai, accs).
      sval (next_account accs) ch (\<lambda>(system, accs).
      sval (guard (is_signer payer) MissingSigner) ch (\<lambda>_.
      sval (guard (is_writable payer) percolator_error.AccountNotWritable) ch (\<lambda>_.
      sval (guard (is_writable (slab_info s)) percolator_error.AccountNotWritable) ch (\<lambda>_.
      sval (guard (key system = system_program_id H) InvalidSystemProgram) ch (\<lambda>_.
      sval (guard (data_len s = slab_account_size H) SlabSizeMismatch) ch (\<lambda>_.
      sval (guard (program_owner (slab_info s) = program_id) SlabAlreadyInitialized) ch (\<lambda>_.
      sval (rent_exempt H (lamports (slab_info s)) (slab_account_size H)) ch (\<lambda>exempt.
      sval (guard exempt SlabSizeMismatch) ch (\<lambda>_.
      sval (header_is_zero s) ch (\<lambda>zero.
      sval (guard zero SlabAlreadyInitialized) ch (\<lambda>_.
      sval (vault_address H program_id s (cs_vault_bump args)) ch (\<lambda>_.
      let h = header_new (key mint_ai) (key oracle_ai) (key payer) (cs_bump args) (cs_vault_bump args) in
      sthen (write_header h ch) (\<lambda>_ ch.
      (Ok (), zero_region ch))))))))))))))))))"

definition process_create_market ::
  "host \<Rightarrow> pubkey \<Rightarrow> account_info list \<Rightarrow> create_market_args \<Rightarrow> chain \<Rightarrow> (program_error, unit) res \<times> chain"
where
  "process_create_market H program_id accs args ch =
     (let s = slab_acc ch in
      sval (next_account accs) ch (\<lambda>(payer, accs).
      sval (next_account accs) ch (\<lambda>(mint_ai, accs).
      sval (next_account accs) ch (\<lambda>(oracle_ai, accs).
      sval (next_account accs) ch (\<lambda>(treasury, accs).
      sval (next_account accs) ch (\<lambda>(system, accs).
      sval (next_account accs) ch (\<lambda>(token_program, accs).
      sval (guard (is_signer payer) MissingSigner) ch (\<lambda>_.
      sval (guard (is_writable payer) percolator_error.AccountNotWritable) ch (\<lambda>_.
      sval (guard (is_writable (slab_info s) \<and> is_writable treasury) percolator_error.AccountNotWritable) ch (\<lambda>_.
      sval (guard (key system = system_program_id H) InvalidSystemProgram) ch (\<lambda>_.
      sval (guard (key treasury = TREASURY_PUBKEY) WrongTreasury) ch (\<lambda>_.
      sval (guard (data_len s = slab_account_size H) SlabSizeMismatch) ch (\<lambda>_.
      sval (guard (program_owner (slab_info s) = program_id) SlabAlreadyInitialized) ch (\<lambda>_.
      sval (rent_exempt H (lamports (slab_info s)) (slab_account_size H)) ch (\<lambda>exempt.
      sval (guard exempt SlabSizeMismatch) ch (\<lambda>_.
      sval (header_is_zero s) ch (\<lambda>zero.
      sval (guard zero SlabAlreadyInitialized) ch (\<lambda>_.
      sval (vault_address H program_id s (cm_vault_bump args)) ch (\<lambda>_.
      sval (guard (\<not> fee_lamports args < MIN_MARKET_CREATION_FEE_LAMPORTS) ListingFeeTooLow) ch (\<lambda>_.
      sthen (invoke_cpi H (SystemTransfer (key payer) (key treasury) (fee_lamports args)) ch) (\<lambda>_ ch.
      let h = (header_new (key mint_ai) (key oracle_ai) (key payer) 0 (cm_vault_bump args))\<lparr> origin := ORIGIN_OPEN \<rparr> in
      sthen (write_header h ch) (\<lambda>_ ch.
      (Ok (), zero_region ch)))))))))))))))))))))))"

definition process_initialize_engine ::
  "host \<Rightarrow> pubkey \<Rightarrow> account_info list \<Rightarrow> initialize_engine_args \<Rightarrow> chain \<Rightarrow> (program_error, unit) res \<times> chain"
where
  "process_initialize_engine H program_id accs args ch =
     (let s = slab_acc ch in
      sval (next_account accs) ch (\<lambda>(creator_ai, accs).
      sval (guard (is_writable (slab_info s)) percolator_error.AccountNotWritable) ch (\<lambda>_.
      sval (guard (program_owner (slab_info s) = program_id) SlabNotInitialized) ch (\<lambda>_.
      sval (guard (data_len s = slab_account_size H) SlabSizeMismatch) ch (\<lambda>_.
      sval (guard (is_signer creator_ai) MissingSigner) ch (\<lambda>_.
      sval (read_header s) ch (\<lambda>h.
      sval (guard (\<not> (mint h = DEFAULT_KEY \<and> oracle_key h = DEFAULT_KEY \<and> creator h = DEFAULT_KEY))
              SlabNotInitialized) ch (\<lambda>_.
      sval (guard (creator h = key creator_ai) WrongSigner) ch (\<lambda>_.
      sval (guard (\<not> is_initialized h) AlreadyInitialized) ch (\<lambda>_.
      sval (map_err of_percolator (validate_risk_params (MAX_ACCOUNTS (region s)) (risk_params_arg args)
              (init_oracle_price args))) ch (\<lambda>_.
      sval (clock H) ch (\<lambda>init_slot.
      sthen (engine_call (init_in_place (into_engine_params (risk_params_arg args)) init_slot (init_oracle_price args)) ch)
        (\<lambda>_ ch.
      write_header (h\<lparr> initialized := 1 \<rparr>) ch)))))))))))))"

section \<open>Checks the handlers share\<close>

text \<open>The guards on the slab, the header and the vault that every handler of a running market repeats;
  each handler passes its own mint check, and the position of its own checks is kept below.\<close>

definition slab_checks :: "host \<Rightarrow> pubkey \<Rightarrow> slab \<Rightarrow> (program_error, unit) res" where
  "slab_checks H program_id s =
     rthen (guard (program_owner (slab_info s) = program_id) SlabNotInitialized) (\<lambda>_.
     guard (data_len s = slab_account_size H) SlabSizeMismatch)"

definition running_header :: "slab \<Rightarrow> (program_error, slab_header) res" where
  "running_header s =
     rthen (read_header s) (\<lambda>h.
     rthen (guard (is_initialized h) SlabNotInitialized) (\<lambda>_.
     Ok h))"

definition checked_vault :: "host \<Rightarrow> pubkey \<Rightarrow> slab \<Rightarrow> slab_header \<Rightarrow> account_info \<Rightarrow> (program_error, pubkey) res" where
  "checked_vault H program_id s h vault_ta =
     rthen (vault_address H program_id s (vault_bump h)) (\<lambda>expected_vault.
     rthen (guard (expected_vault = key vault_ta) VaultPdaMismatch) (\<lambda>_.
     Ok expected_vault))"

text \<open>The two token accounts belong to the token program, carry the mint of the slab, and the user's
  one is owned by the signer. The last result is the owner of the vault account.\<close>

definition token_checks ::
  "host \<Rightarrow> slab_header \<Rightarrow> account_info \<Rightarrow> account_info \<Rightarrow> pubkey \<Rightarrow> (program_error, pubkey) res"
where
  "token_checks H h user_ta vault_ta user_key =
     rthen (guard (program_owner user_ta = spl_token_id H \<and> program_owner vault_ta = spl_token_id H)
       TokenAccountWrongOwner) (\<lambda>_.
     rthen (token_of H user_ta) (\<lambda>user_token.
     rthen (token_of H vault_ta) (\<lambda>vault_token.
     rthen (guard (fst user_token = mint h \<and> fst vault_token = mint h) TokenAccountWrongMint) (\<lambda>_.
     rthen (guard (snd user_token = user_key) TokenAccountWrongOwner) (\<lambda>_.
     Ok (snd vault_token))))))"

section \<open>The owner scan\<close>

definition scan_limit :: "engine \<Rightarrow> nat" where
  "scan_limit e = min (nat (max_accounts (params e))) (MAX_ACCOUNTS e)"

definition find_owner :: "pubkey \<Rightarrow> engine \<Rightarrow> nat option" where
  "find_owner k e = List.find (\<lambda>i. is_used e i \<and> owner (accounts e ! i) = k) [0..<scan_limit e]"

text \<open>Deposits reuse the slot of the signer, or take the head of the free list.\<close>

definition choose_slot :: "pubkey \<Rightarrow> engine \<Rightarrow> (program_error, nat \<times> bool) res" where
  "choose_slot k e =
     (case find_owner k e of
        Some i \<Rightarrow> Ok (i, False)
      | None \<Rightarrow> if free_head e = NIL then Err (of_percolator SlabFull) else Ok (free_head e, True))"

section \<open>Deposits, withdrawals and the protocol LP\<close>

definition process_deposit ::
  "host \<Rightarrow> pubkey \<Rightarrow> account_info list \<Rightarrow> deposit_args \<Rightarrow> chain \<Rightarrow> (program_error, unit) res \<times> chain"
where
  "process_deposit H program_id accs args ch =
     (let s = slab_acc ch in
      sval (next_account accs) ch (\<lambda>(user, accs).
      sval (next_account accs) ch (\<lambda>(user_ta, accs).
      sval (next_account accs) ch (\<lambda>(vault_ta, accs).
      sval (next_account accs) ch (\<lambda>(mint_ai, accs).
      sval (next_account accs) ch (\<lambda>(token_program, accs).
      sval (next_account accs) ch (\<lambda>(system, accs).
      sval (guard (deposit_amount args \<noteq> 0) ZeroAmount) ch (\<lambda>_.
      sval (guard (is_signer user) MissingSigner) ch (\<lambda>_.
      sval (guard (is_writable (slab_info s) \<and> is_writable user_ta \<and> is_writable vault_ta)
              percolator_error.AccountNotWritable) ch (\<lambda>_.
      sval (slab_checks H program_id s) ch (\<lambda>_.
      sval (guard (key token_program = spl_token_id H) InvalidTokenProgram) ch (\<lambda>_.
      sval (running_header s) ch (\<lambda>h.
      sval (guard (mint h = key mint_ai) WrongMint) ch (\<lambda>_.
      sval (checked_vault H program_id s h vault_ta) ch (\<lambda>_.
      sval (token_checks H h user_ta vault_ta (key user)) ch (\<lambda>_.
      sval (clock H) ch (\<lambda>slot.
      sval (choose_slot (key user) (engine_of ch)) ch (\<lambda>(idx, fresh).
      sthen (engine_call (deposit_not_atomic idx (deposit_amount args) slot) ch) (\<lambda>_ ch.
      sthen (if fresh then engine_call (set_owner idx (key user)) ch else (Ok (), ch)) (\<lambda>_ ch.
      invoke_cpi H (TokenTransfer (key user_ta) (key vault_ta) (key user) (deposit_amount args) []) ch))))))))))))))))))))"

definition process_withdraw ::
  "host \<Rightarrow> pubkey \<Rightarrow> account_info list \<Rightarrow> withdraw_args \<Rightarrow> chain \<Rightarrow> (program_error, unit) res \<times> chain"
where
  "process_withdraw H program_id accs args ch =
     (let s = slab_acc ch in
      sval (next_account accs) ch (\<lambda>(user, accs).
      sval (next_account accs) ch (\<lambda>(user_ta, accs).
      sval (next_account accs) ch (\<lambda>(vault_ta, accs).
      sval (next_account accs) ch (\<lambda>(mint_ai, accs).
      sval (next_account accs) ch (\<lambda>(token_program, accs).
      sval (next_account accs) ch (\<lambda>(system, accs).
      sval (guard (withdraw_amount args \<noteq> 0) ZeroAmount) ch (\<lambda>_.
      sval (guard (is_signer user) MissingSigner) ch (\<lambda>_.
      sval (guard (is_writable (slab_info s) \<and> is_writable user_ta \<and> is_writable vault_ta)
              percolator_error.AccountNotWritable) ch (\<lambda>_.
      sval (slab_checks H program_id s) ch (\<lambda>_.
      sval (guard (key token_program = spl_token_id H) InvalidTokenProgram) ch (\<lambda>_.
      sval (running_header s) ch (\<lambda>h.
      sval (guard (mint h = key mint_ai) WrongMint) ch (\<lambda>_.
      sval (checked_vault H program_id s h vault_ta) ch (\<lambda>expected_vault.
      sval (token_checks H h user_ta vault_ta (key user)) ch (\<lambda>vault_owner.
      sval (guard (vault_owner = expected_vault) VaultPdaMismatch) ch (\<lambda>_.
      sval (ok_or (of_percolator EngineError) (find_owner (key user) (engine_of ch))) ch (\<lambda>idx.
      sval (clock H) ch (\<lambda>slot.
      sthen (engine_call (\<lambda>e. withdraw_not_atomic idx (withdraw_amount args) (last_oracle_price e) slot 0
               (h_min (params e)) (h_max (params e)) e) ch) (\<lambda>_ ch.
      invoke_cpi H (TokenTransfer (key vault_ta) (key user_ta) (key vault_ta) (withdraw_amount args)
        (vault_seeds s (vault_bump h))) ch))))))))))))))))))))"

definition seed_lp :: "engine \<Rightarrow> engine" where
  "seed_lp e = upd PROTOCOL_LP_SLOT (\<lambda>a. a\<lparr> kind := KIND_LP, owner := PROTOCOL_LP_OWNER_SENTINEL \<rparr>) e"

definition process_bootstrap_lp ::
  "host \<Rightarrow> pubkey \<Rightarrow> account_info list \<Rightarrow> bootstrap_lp_args \<Rightarrow> chain \<Rightarrow> (program_error, unit) res \<times> chain"
where
  "process_bootstrap_lp H program_id accs args ch =
     (let s = slab_acc ch in
      sval (next_account accs) ch (\<lambda>(creator_ai, accs).
      sval (next_account accs) ch (\<lambda>(creator_ta, accs).
      sval (next_account accs) ch (\<lambda>(vault_ta, accs).
      sval (next_account accs) ch (\<lambda>(mint_ai, accs).
      sval (next_account accs) ch (\<lambda>(token_program, accs).
      sval (next_account accs) ch (\<lambda>(system, accs).
      sval (guard (lp_amount args \<noteq> 0) ZeroAmount) ch (\<lambda>_.
      sval (guard (is_signer creator_ai) MissingSigner) ch (\<lambda>_.
      sval (guard (is_writable (slab_info s) \<and> is_writable creator_ta \<and> is_writable vault_ta)
              percolator_error.AccountNotWritable) ch (\<lambda>_.
      sval (slab_checks H program_id s) ch (\<lambda>_.
      sval (guard (key token_program = spl_token_id H) InvalidTokenProgram) ch (\<lambda>_.
      sval (running_header s) ch (\<lambda>h.
      sval (guard (creator h = key creator_ai) WrongSigner) ch (\<lambda>_.
      sval (guard (mint h = key mint_ai) WrongMint) ch (\<lambda>_.
      sval (checked_vault H program_id s h vault_ta) ch (\<lambda>_.
      sval (token_checks H h creator_ta vault_ta (key creator_ai)) ch (\<lambda>_.
      sval (clock H) ch (\<lambda>slot.
      sval (guard (\<not> is_used (engine_of ch) PROTOCOL_LP_SLOT) LpAlreadyBootstrapped) ch (\<lambda>_.
      sval (guard (free_head (engine_of ch) = PROTOCOL_LP_SLOT) LpAlreadyBootstrapped) ch (\<lambda>_.
      sthen (engine_call (deposit_not_atomic PROTOCOL_LP_SLOT (lp_amount args) slot) ch) (\<lambda>_ ch.
      let ch = set_engine (seed_lp (engine_of ch)) ch in
      invoke_cpi H (TokenTransfer (key creator_ta) (key vault_ta) (key creator_ai) (lp_amount args) []) ch)))))))))))))))))))))"

section \<open>Orders\<close>

text \<open>Whether an order opens or grows open interest on the side of the user: the match on the sign of
  the current position.\<close>

definition opens_on_user_side :: "int \<Rightarrow> side \<Rightarrow> int \<Rightarrow> bool" where
  "opens_on_user_side cur user_side qty =
     (if sgn cur = 0 then True
      else if sgn cur = 1 \<and> user_side = Long then True
      else if sgn cur = - 1 \<and> user_side = Short then True
      else qty > \<bar>cur\<bar>)"

definition order_gate :: "engine \<Rightarrow> nat \<Rightarrow> place_order_args \<Rightarrow> (program_error, unit) res" where
  "order_gate e user_idx args =
     rthen (guard (is_used e PROTOCOL_LP_SLOT
         \<and> owner (accounts e ! PROTOCOL_LP_SLOT) = PROTOCOL_LP_OWNER_SENTINEL) LpNotBootstrapped) (\<lambda>_.
     rthen (map_err (\<lambda>_. of_percolator EngineError) (effective_pos_q user_idx e)) (\<lambda>cur_user_pos.
     let user_side = (if order_side args = 0 then Long else Short) in
     if opens_on_user_side cur_user_pos user_side (order_size args) then
       let mode = (case user_side of Long \<Rightarrow> side_mode_long e | Short \<Rightarrow> side_mode_short e) in
       guard (mode = side_mode.Normal) percolator_error.DrainOnly
     else Ok ()))"

definition process_place_order ::
  "host \<Rightarrow> pubkey \<Rightarrow> account_info list \<Rightarrow> place_order_args \<Rightarrow> chain \<Rightarrow> (program_error, unit) res \<times> chain"
where
  "process_place_order H program_id accs args ch =
     (let s = slab_acc ch in
      sval (next_account accs) ch (\<lambda>(user, accs).
      sval (next_account accs) ch (\<lambda>(oracle_ai, accs).
      sval (next_account accs) ch (\<lambda>(clock_sysvar, accs).
      sval (guard (order_size args \<noteq> 0) ZeroSize) ch (\<lambda>_.
      sval (guard (\<not> order_side args > 1) InvalidSide) ch (\<lambda>_.
      sval (guard (\<not> max_price args < min_price args) SlippageExceeded) ch (\<lambda>_.
      sval (guard (is_signer user) MissingSigner) ch (\<lambda>_.
      sval (guard (is_writable (slab_info s)) percolator_error.AccountNotWritable) ch (\<lambda>_.
      sval (slab_checks H program_id s) ch (\<lambda>_.
      sval (running_header s) ch (\<lambda>h.
      sval (guard (key oracle_ai = oracle_key h) StaleOracle) ch (\<lambda>_.
      sval (clock H) ch (\<lambda>slot.
      sval (map_err of_percolator (read_oracle_price oracle_ai slot)) ch (\<lambda>px.
      sval (guard (\<not> (px < min_price args \<or> px > max_price args)) SlippageExceeded) ch (\<lambda>_.
      sval (ok_or (of_percolator EngineError) (find_owner (key user) (engine_of ch))) ch (\<lambda>user_idx.
      sval (order_gate (engine_of ch) user_idx args) ch (\<lambda>_.
      let size_q = order_size args;
          (a, b) = (if order_side args = 0 then (user_idx, PROTOCOL_LP_SLOT) else (PROTOCOL_LP_SLOT, user_idx)) in
      engine_call (\<lambda>e. execute_trade_not_atomic a b px slot size_q px 0 (h_min (params e)) (h_max (params e)) e)
        ch)))))))))))))))))"

section \<open>Liquidation\<close>

definition checked_decrease :: "int \<Rightarrow> int \<Rightarrow> (program_error, int) res" where
  "checked_decrease x b = ok_or (of_percolator EngineError) (fit_u128 (x - b))"

definition liquidation_bounty :: "int \<Rightarrow> int \<Rightarrow> int" where
  "liquidation_bounty orig_capital remaining = min (sat_u128 (orig_capital * LIQ_BOUNTY_BPS) div 10000) remaining"

definition pay_liquidator :: "nat \<Rightarrow> int \<Rightarrow> chain \<Rightarrow> (program_error, int) res \<times> chain" where
  "pay_liquidator victim orig_capital ch =
     (let e = engine_of ch; remaining = capital (accounts e ! victim);
          b = liquidation_bounty orig_capital remaining in
      if b > 0 then
        let e = upd victim (\<lambda>a. a\<lparr> capital := remaining - b \<rparr>) e; ch = set_engine e ch in
        sval (checked_decrease (c_tot e) b) ch (\<lambda>new_c_tot.
        let e = e\<lparr> c_tot := new_c_tot \<rparr>; ch = set_engine e ch in
        sval (checked_decrease (vault e) b) ch (\<lambda>new_v.
        let e = e\<lparr> vault := new_v \<rparr> in
        (Ok b, set_engine e ch)))
      else (Ok b, ch))"

definition process_liquidate ::
  "host \<Rightarrow> pubkey \<Rightarrow> account_info list \<Rightarrow> liquidate_args \<Rightarrow> chain \<Rightarrow> (program_error, unit) res \<times> chain"
where
  "process_liquidate H program_id accs args ch =
     (let s = slab_acc ch; victim = nat (victim_slot args) in
      sval (next_account accs) ch (\<lambda>(liquidator, accs).
      sval (next_account accs) ch (\<lambda>(liquidator_ta, accs).
      sval (next_account accs) ch (\<lambda>(oracle_ai, accs).
      sval (next_account accs) ch (\<lambda>(clock_sysvar, accs).
      sval (next_account accs) ch (\<lambda>(vault_ta, accs).
      sval (next_account accs) ch (\<lambda>(token_program, accs).
      sval (guard (is_signer liquidator) MissingSigner) ch (\<lambda>_.
      sval (guard (is_writable (slab_info s) \<and> is_writable liquidator_ta \<and> is_writable vault_ta)
              percolator_error.AccountNotWritable) ch (\<lambda>_.
      sval (slab_checks H program_id s) ch (\<lambda>_.
      sval (guard (key token_program = spl_token_id H) InvalidTokenProgram) ch (\<lambda>_.
      sval (guard (victim \<noteq> PROTOCOL_LP_SLOT) ProtocolLpNotLiquidatable) ch (\<lambda>_.
      sval (guard (\<not> victim \<ge> MAX_ACCOUNTS (engine_of ch)) InvalidVictimSlot) ch (\<lambda>_.
      sval (running_header s) ch (\<lambda>h.
      sval (guard (key oracle_ai = oracle_key h) StaleOracle) ch (\<lambda>_.
      sval (checked_vault H program_id s h vault_ta) ch (\<lambda>expected_vault.
      sval (token_checks H h liquidator_ta vault_ta (key liquidator)) ch (\<lambda>vault_owner.
      sval (guard (vault_owner = expected_vault) VaultPdaMismatch) ch (\<lambda>_.
      sval (clock H) ch (\<lambda>slot.
      sval (map_err of_percolator (read_oracle_price oracle_ai slot)) ch (\<lambda>px.
      sval (guard (is_used (engine_of ch) victim) InvalidVictimSlot) ch (\<lambda>_.
      let orig_capital = capital (accounts (engine_of ch) ! victim) in
      sthen (engine_call (\<lambda>e. liquidate_at_oracle_not_atomic victim slot px FullClose 0
               (h_min (params e)) (h_max (params e)) e) ch) (\<lambda>did_liquidate ch.
      sval (guard did_liquidate AccountHealthy) ch (\<lambda>_.
      sthen (pay_liquidator victim orig_capital ch) (\<lambda>bounty ch.
      if bounty > 0 then
        invoke_cpi H (TokenTransfer (key vault_ta) (key liquidator_ta) (key vault_ta) (bounty mod 2 ^ 64)
          (vault_seeds s (vault_bump h))) ch
      else (Ok (), ch)))))))))))))))))))))))))"

section \<open>The crank\<close>

definition crank_funding :: "int \<Rightarrow> chain \<Rightarrow> (program_error, unit) res \<times> chain" where
  "crank_funding slot ch =
     (if slot \<le> last_market_slot (engine_of ch) then (Err (of_percolator NothingToDo), ch)
      else
        sthen (engine_call (\<lambda>e. accrue_market_to slot (last_oracle_price e) 0 e) ch) (\<lambda>_ ch.
        (Ok (), set_engine ((engine_of ch)\<lparr> current_slot := slot, last_crank_slot := slot \<rparr>) ch)))"

definition gc_eligible :: "engine \<Rightarrow> nat \<Rightarrow> bool" where
  "gc_eligible e i =
     (if \<not> is_used e i then False
      else
        let a = accounts e ! i in
        position_basis_q a = 0 \<and> pnl a = 0 \<and> reserved_pnl a = 0 \<and> sched_present a = 0
        \<and> pending_present a = 0 \<and> capital a < min_initial_deposit (params e))"

text \<open>The scan: an account the engine refuses to reclaim is skipped, with whatever the engine did to it.\<close>

primrec crank_scan :: "nat \<Rightarrow> int \<Rightarrow> nat \<Rightarrow> nat \<Rightarrow> nat \<Rightarrow> engine \<Rightarrow> (program_error, nat \<times> nat) res \<times> engine" where
  "crank_scan 0 slot mx cursor n e = (Ok (cursor, n), e)"
| "crank_scan (Suc k) slot mx cursor n e =
     (let cursor = (cursor + 1) mod max mx 1 in
      if cursor = PROTOCOL_LP_SLOT then crank_scan k slot mx cursor n e
      else if \<not> gc_eligible e cursor then crank_scan k slot mx cursor n e
      else
        case reclaim_empty_account_not_atomic (cursor mod 65536) slot e of
          (Ok u, e) \<Rightarrow> crank_scan k slot mx cursor (n + 1) e
        | (Err x, e) \<Rightarrow> crank_scan k slot mx cursor n e
        | (Panic, e) \<Rightarrow> (Panic, e))"

definition crank_gc :: "int \<Rightarrow> chain \<Rightarrow> (program_error, nat) res \<times> chain" where
  "crank_gc slot ch =
     (let e = engine_of ch; mx = nat (max_accounts (params e));
          (r, e) = crank_scan (min GC_CLOSE_BUDGET mx) slot mx (gc_cursor e) 0 e in
      sval r (set_engine e ch) (\<lambda>(cursor, reclaimed).
      let ch = set_engine (e\<lparr> gc_cursor := cursor mod 65536 \<rparr>) ch in
      if reclaimed > 0 then (Ok reclaimed, ch) else (Err (of_percolator NothingToDo), ch)))"

definition crank_anchor :: "engine \<Rightarrow> nat option" where
  "crank_anchor e =
     (if is_used e PROTOCOL_LP_SLOT then Some PROTOCOL_LP_SLOT
      else List.find (is_used e) [0..<nat (max_accounts (params e))])"

definition crank_adl_reset :: "int \<Rightarrow> chain \<Rightarrow> (program_error, unit) res \<times> chain" where
  "crank_adl_reset slot ch =
     (let before = (side_mode_long (engine_of ch), side_mode_short (engine_of ch)) in
      sval (ok_or (of_percolator NothingToDo) (crank_anchor (engine_of ch))) ch (\<lambda>anchor.
      sthen (engine_call (\<lambda>e. settle_account_not_atomic anchor (last_oracle_price e) slot 0
               (h_min (params e)) (h_max (params e)) e) ch) (\<lambda>_ ch.
      if before \<noteq> (side_mode_long (engine_of ch), side_mode_short (engine_of ch)) then (Ok (), ch)
      else (Err (of_percolator NothingToDo), ch))))"

definition crank_kind_of :: "8 word \<Rightarrow> (program_error, crank_kind) res" where
  "crank_kind_of k =
     (if k = 0 then Ok CrankFunding
      else if k = 1 then Ok CrankGc
      else if k = 2 then Ok CrankAdlReset
      else Err (of_percolator InvalidCrankKind))"

definition crank_work :: "crank_kind \<Rightarrow> int \<Rightarrow> chain \<Rightarrow> (program_error, unit) res \<times> chain" where
  "crank_work k slot ch =
     (case k of
        CrankFunding \<Rightarrow> crank_funding slot ch
      | CrankGc \<Rightarrow> sthen (crank_gc slot ch) (\<lambda>_ ch. (Ok (), ch))
      | CrankAdlReset \<Rightarrow> crank_adl_reset slot ch)"

definition crank_bounty :: "engine \<Rightarrow> int" where
  "crank_bounty e = min (sat_u128 (ins_bal e - insurance_floor (params e))) CRANK_BOUNTY"

definition pay_cranker :: "chain \<Rightarrow> (program_error, int) res \<times> chain" where
  "pay_cranker ch =
     (let e = engine_of ch; pay = crank_bounty e in
      if pay > 0 then
        let e = set_insurance (ins_bal e - pay) e; ch = set_engine e ch in
        sval (checked_decrease (vault e) pay) ch (\<lambda>new_v.
        (Ok pay, set_engine (e\<lparr> vault := new_v \<rparr>) ch))
      else (Ok pay, ch))"

definition process_crank ::
  "host \<Rightarrow> pubkey \<Rightarrow> account_info list \<Rightarrow> crank_args \<Rightarrow> chain \<Rightarrow> (program_error, unit) res \<times> chain"
where
  "process_crank H program_id accs args ch =
     (let s = slab_acc ch in
      sval (next_account accs) ch (\<lambda>(caller, accs).
      sval (next_account accs) ch (\<lambda>(clock_sysvar, accs).
      sval (next_account accs) ch (\<lambda>(caller_ta, accs).
      sval (next_account accs) ch (\<lambda>(vault_ta, accs).
      sval (next_account accs) ch (\<lambda>(token_program, accs).
      sval (guard (is_signer caller) MissingSigner) ch (\<lambda>_.
      sval (guard (is_writable (slab_info s) \<and> is_writable caller_ta \<and> is_writable vault_ta)
              percolator_error.AccountNotWritable) ch (\<lambda>_.
      sval (slab_checks H program_id s) ch (\<lambda>_.
      sval (guard (key token_program = spl_token_id H) InvalidTokenProgram) ch (\<lambda>_.
      sval (crank_kind_of (crank_kind_byte args)) ch (\<lambda>k.
      sval (running_header s) ch (\<lambda>h.
      sval (checked_vault H program_id s h vault_ta) ch (\<lambda>expected_vault.
      sval (token_checks H h caller_ta vault_ta (key caller)) ch (\<lambda>vault_owner.
      sval (guard (vault_owner = expected_vault) VaultPdaMismatch) ch (\<lambda>_.
      sval (clock H) ch (\<lambda>slot.
      sthen (crank_work k slot ch) (\<lambda>_ ch.
      sthen (pay_cranker ch) (\<lambda>bounty ch.
      if bounty > 0 then
        invoke_cpi H (TokenTransfer (key vault_ta) (key caller_ta) (key vault_ta) bounty
          (vault_seeds s (vault_bump h))) ch
      else (Ok (), ch)))))))))))))))))))"

section \<open>Dispatch\<close>

definition wrapper_process ::
  "borsh \<Rightarrow> host \<Rightarrow> pubkey \<Rightarrow> account_info list \<Rightarrow> bytes \<Rightarrow> chain \<Rightarrow> (program_error, unit) res \<times> chain"
where
  "wrapper_process B H program_id accs instruction_data ch =
     sval (map_err of_percolator (unpack B instruction_data)) ch (\<lambda>ix.
     case ix of
       percolator_instruction.CreateSlab a \<Rightarrow> process_create_slab H program_id accs a ch
     | percolator_instruction.InitializeEngine a \<Rightarrow> process_initialize_engine H program_id accs a ch
     | percolator_instruction.Deposit a \<Rightarrow> process_deposit H program_id accs a ch
     | percolator_instruction.Withdraw a \<Rightarrow> process_withdraw H program_id accs a ch
     | percolator_instruction.BootstrapLp a \<Rightarrow> process_bootstrap_lp H program_id accs a ch
     | percolator_instruction.PlaceOrder a \<Rightarrow> process_place_order H program_id accs a ch
     | percolator_instruction.Liquidate a \<Rightarrow> process_liquidate H program_id accs a ch
     | percolator_instruction.Crank a \<Rightarrow> process_crank H program_id accs a ch
     | percolator_instruction.CreateMarket a \<Rightarrow> process_create_market H program_id accs a ch)"

end
