(* ===== verification/Custody.thy ===== *)
theory Custody
  imports Wrapper
begin

text \<open>
  What the engine of a running market keeps under the wrapper program: the instructions the wrapper
  calls with its own arguments, the reclaim scan of the crank, whose every call either reclaims or
  leaves the engine as it was, and the fields the wrapper writes without the engine's methods.
\<close>

section \<open>What the engine's instructions keep in a live market\<close>

definition vault_moved :: "engine \<Rightarrow> int \<Rightarrow> engine \<Rightarrow> bool" where
  "vault_moved e n e' = (inv e' \<and> market_mode e' = Live \<and> vault e' = vault e + n \<and> params e' = params e
     \<and> (vault e \<le> MAX_VAULT_TVL \<longrightarrow> vault e' \<le> MAX_VAULT_TVL))"

lemma vault_moved_trans: "vault_moved e m e1 \<Longrightarrow> vault_moved e1 n e2 \<Longrightarrow> vault_moved e (m + n) e2"
  by (auto simp: vault_moved_def)

lemma inv_horizons:
  assumes "inv e"
  shows "0 \<le> h_min (params e)" "0 \<le> h_max (params e)" "0 \<le> last_oracle_price e"
  using good_D(3,6)[OF inv_D(2)[OF assms]] by (simp_all add: params_typed_def in_u64_def market_ok_def)

lemma vault_moved_stage: "inv e' \<Longrightarrow> stage S e e' \<Longrightarrow> market_mode e = Live \<Longrightarrow> vault_moved e 0 e'"
  using stage_D(2-5)[of S e e'] by (simp add: vault_moved_def)

lemma engine_deposit:
  assumes "inv e" "in_u64 now" "0 \<le> amount"
  shows "okP (deposit_not_atomic i amount now e) (\<lambda>_ e'. vault_moved e amount e' \<and> is_used e' i \<and> i < MAX_ACCOUNTS e')"
  by (rule okP_mono[OF deposit_spec[OF assms]]) (auto simp: deposited_def vault_moved_def is_used_def split: if_splits)

lemma engine_withdraw:
  assumes "inv e" "in_u64 now" "0 \<le> amount"
  shows "okP (withdraw_not_atomic i amount (last_oracle_price e) now rate (h_min (params e)) (h_max (params e)) e)
     (\<lambda>_ e'. vault_moved e (- amount) e')"
  by (rule okP_mono[OF withdraw_spec[OF assms(1,2) inv_horizons(3,1,2)[OF assms(1)] assms(3)]])
    (use assms(3) in \<open>auto simp: withdrawn_def vault_moved_def\<close>)

lemma engine_stage:
  assumes "okP m (\<lambda>x e'. inv e' \<and> stage (S x) e e' \<and> Q x e')" "okP m (\<lambda>_ _. market_mode e = Live)"
  shows "okP m (\<lambda>x e'. vault_moved e 0 e' \<and> Q x e')"
  by (rule okP_mono[OF okP_conj[OF assms]]) (auto intro: vault_moved_stage)

lemma engine_settle:
  assumes "inv e" "in_u64 now"
  shows "okP (settle_account_not_atomic i (last_oracle_price e) now rate (h_min (params e)) (h_max (params e)) e)
     (\<lambda>_ e'. vault_moved e 0 e' \<and> True)"
  by (rule engine_stage[OF okP_mono[OF settle_account_spec[OF assms inv_horizons(3,1,2)[OF assms(1)]]] needs_live(1)]) blast

lemma engine_trade:
  assumes "inv e" "in_u64 now" "0 \<le> px"
  shows "okP (execute_trade_not_atomic a b px now q px rate (h_min (params e)) (h_max (params e)) e)
     (\<lambda>_ e'. vault_moved e 0 e' \<and> True)"
  by (rule engine_stage[OF okP_mono[OF execute_trade_spec[OF assms inv_horizons(1,2)[OF assms(1)]]] needs_live(2)]) blast

lemma engine_liquidate:
  assumes "inv e" "in_u64 now" "0 \<le> px"
  shows "okP (liquidate_at_oracle_not_atomic i now px FullClose rate (h_min (params e)) (h_max (params e)) e)
     (\<lambda>_ e'. vault_moved e 0 e' \<and> (\<forall>j. is_used e' j = is_used e j))"
proof -
  have p: "policy_typed FullClose" by (simp add: policy_typed_def)
  show ?thesis
    using okP_conj[OF liquidate_spec[OF assms inv_horizons(1,2)[OF assms(1)] p] needs_live(11)]
    by (rule okP_mono) (use stage_D(6) in \<open>blast intro: vault_moved_stage\<close>)
qed

lemma engine_set_owner:
  assumes "inv e" "market_mode e = Live"
  shows "okP (set_owner i k e) (\<lambda>_ e'. vault_moved e 0 e' \<and> True)"
  by (rule engine_stage[OF okP_mono[OF set_owner_spec[OF assms(1)]]]) (use assms(2) in \<open>blast | simp\<close>)+

lemma engine_accrue:
  assumes "inv e" "in_u64 now"
  shows "okP (accrue_market_to now (last_oracle_price e) rate e) (\<lambda>_ e'. vault_moved e 0 e' \<and> current_slot e' = now)"
proof -
  note I = inv_D[OF assms(1)]
  note B = okP_conj[OF accrue_stage[OF I(2) assms(2) inv_horizons(3)[OF assms(1)]]
      accrue_spec[OF market_ok_typed[OF good_D(3)[OF I(2)]] assms(2) inv_horizons(3)[OF assms(1)]]]
  show ?thesis
  proof (rule okP_mono[OF B], elim conjE)
    fix u e' assume s: "stage {} e e'" and l: "market_mode e = Live" "current_slot e' = now"
      and a: "e' = accrued now (last_oracle_price e) rate e"
    have "balanced e'" using I(4) by (simp add: a accrued_def balanced_def Let_def)
    then have "inv e'" using stage_slab[OF s I(1)] stage_D(1,7)[OF s] I(3) by (simp add: inv_def)
    then show "vault_moved e 0 e' \<and> current_slot e' = now" using vault_moved_stage[OF _ s l(1)] l(2) by simp
  qed
qed

section \<open>Reclaiming an eligible account\<close>

lemma c_tot_nonneg: "good e \<Longrightarrow> 0 \<le> c_tot e"
  using good_D(7,8)[of e] by (auto simp: agg_def accts_ok_def acct_ok_def in_u128_def intro!: tot_nonneg)

lemma postconditions_hold:
  assumes "good e" "solvent e" "balanced e"
  shows "assert_public_postconditions e = Ok ()"
proof -
  have "in_u128 (c_tot e + ins_bal e)"
    using c_tot_nonneg[OF assms(1)] good_D(4,9)[OF assms(1)] assms(2) by (simp add: in_u128_def solvent_def)
  then have "check_conservation e" using assms(2) by (simp add: check_conservation_def fit_u128_def solvent_def)
  then show ?thesis using assms(3) by (simp add: assert_public_postconditions_def balanced_def)
qed

lemma sweep_market_runs:
  assumes g: "good e" and s: "solvent e"
  shows "\<exists>x. sweep_empty_market_surplus_to_insurance e = (Ok (), set_insurance x e) \<and> in_u128 x \<and> c_tot e + x \<le> vault e"
proof -
  have i: "in_u128 (ins_bal e)" "in_u128 (vault e)" by (rule good_D[OF g])+
  have same: "set_insurance (ins_bal e) e = e" by simp
  have le: "ins_bal e \<le> vault e" using s c_tot_nonneg[OF g] by (simp add: solvent_def)
  have stay: ?thesis if "sweep_empty_market_surplus_to_insurance e = (Ok (), e)"
    using that i(1) s same by (intro exI[of _ "ins_bal e"]) (simp add: solvent_def)
  show ?thesis
  proof (cases "num_used_accounts e \<noteq> 0 \<or> (c_tot e \<noteq> 0 \<or> pnl_pos_tot e \<noteq> 0 \<or> pnl_matured_pos_tot e \<noteq> 0
          \<or> oi_eff_long_q e \<noteq> 0 \<or> oi_eff_short_q e \<noteq> 0) \<or> vault e = ins_bal e")
    case True
    then show ?thesis by (intro stay) (auto simp: sweep_empty_market_surplus_to_insurance_def Let_def)
  next
    case False
    have f: "ok_or risk_error.Overflow (fit_u128 (ins_bal e + (vault e - ins_bal e))) = Ok (vault e)"
      using i(2) by (simp add: fit_u128_def)
    have "sweep_empty_market_surplus_to_insurance e = (Ok (), set_insurance (vault e) e)"
      unfolding sweep_empty_market_surplus_to_insurance_def Let_def f using False le by simp
    then show ?thesis using i(2) False by (intro exI[of _ "vault e"]) simp
  qed
qed

lemma free_and_sweep_runs:
  assumes v: "good e" "slab_ok e" "solvent e" "balanced e" and u: "is_used e i" and z: "closable (accounts e ! i)"
  shows "\<exists>e'. free_and_sweep i e = (Ok (), e')"
proof -
  have i: "i < MAX_ACCOUNTS e" using u by (simp add: is_used_def split: if_splits)
  let ?e1 = "freed i e"
  have g1: "good ?e1" by (rule freed_good[OF v(1) i z])
  have s1: "solvent ?e1" "balanced ?e1" using v(3,4) by (simp_all add: freed_fields)
  obtain x where x: "sweep_empty_market_surplus_to_insurance ?e1 = (Ok (), set_insurance x ?e1)" "in_u128 x"
    "c_tot ?e1 + x \<le> vault ?e1" using sweep_market_runs[OF g1 s1(1)] by blast
  have "assert_public_postconditions (set_insurance x ?e1) = Ok ()"
    by (rule postconditions_hold[OF set_insurance_good[OF g1 x(2)]])
      (use x(3) s1(2) in \<open>simp_all add: solvent_def set_insurance_fields(7)\<close>)
  then show ?thesis by (simp add: free_and_sweep_def free_slot_closable[OF v(2) u z] x(1))
qed

text \<open>An eligible account is reclaimed, unless the clock is refused before anything has changed.\<close>

lemma capital_le_c_tot:
  assumes g: "good e" and i: "i < MAX_ACCOUNTS e"
  shows "0 \<le> capital (accounts e ! i)" "capital (accounts e ! i) \<le> c_tot e"
proof -
  have "capital (accounts e ! i) \<le> tot capital (accounts e)"
    using good_D(7)[OF g] i by (intro tot_member_le) (auto simp: accts_ok_def acct_ok_def in_u128_def)
  then show "capital (accounts e ! i) \<le> c_tot e" using good_D(8)[OF g] by (simp add: agg_def)
  show "0 \<le> capital (accounts e ! i)" by (rule acct_typed(6)[OF g i])
qed

lemma set_capital_zero:
  assumes g: "good e" and s: "solvent e" and i: "i < MAX_ACCOUNTS e" and p: "capital (accounts e ! i) > 0"
  shows "set_capital i 0 e = (Ok (), cap_effect i 0 e)"
proof -
  let ?c = "capital (accounts e ! i)"
  have "c_tot e \<le> U128_MAX"
    using s good_D(4,9)[OF g] by (simp add: solvent_def in_u128_def)
  then have "in_u128 (c_tot e - ?c)" using capital_le_c_tot[OF g i] by (simp add: in_u128_def)
  then have f: "ok_or risk_error.CorruptState (fit_u128 (c_tot e - ?c)) = Ok (c_tot e - ?c)" by (simp add: fit_u128_def)
  have e: "upd i (\<lambda>a. a\<lparr> capital := 0 \<rparr>) (e\<lparr> c_tot := c_tot e - ?c \<rparr>) = cap_effect i 0 e"
    by (simp add: upd_def cap_effect_def)
  show ?thesis using p i by (simp add: set_capital_def sacct_def Let_def f e)
qed

lemma dust_step_runs:
  assumes g: "good e" and s: "solvent e" and i: "i < MAX_ACCOUNTS e"
  shows "\<exists>e1. (if capital (accounts e ! i) > 0 then
           sval (ok_or risk_error.Overflow (fit_u128 (ins_bal e + capital (accounts e ! i)))) e (\<lambda>new_insurance.
           sthen (set_capital i 0 e) (\<lambda>_ e. (Ok (), set_insurance new_insurance e)))
         else (Ok (), e)) = (Ok (), e1) \<and> dust_moved i e e1"
proof (cases "capital (accounts e ! i) > 0")
  case True
  let ?x = "ins_bal e + capital (accounts e ! i)"
  have x: "in_u128 ?x"
    using capital_le_c_tot[OF g i] s good_D(4,9)[OF g] by (simp add: solvent_def in_u128_def)
  then have f: "ok_or risk_error.Overflow (fit_u128 ?x) = Ok ?x" by (simp add: fit_u128_def)
  show ?thesis using True dust_effect[OF g i x] by (simp add: f set_capital_zero[OF g s i True])
next
  case False
  then show ?thesis using dust_none[OF g i] by simp
qed

lemma closable_after:
  assumes d: "dust_moved i e e1" and f: "flat_clean (accounts e ! i) = Ok ()" and i: "i < MAX_ACCOUNTS e1"
    and k: "fee_ok (accounts e ! i)"
  shows "closable (accounts (forgive_debt i e1) ! i)"
  using d f i k by (auto simp: dust_moved_def flat_clean_def closable_def forgive_debt_def upd_def split: if_splits)

lemma reclaim_exact:
  assumes v: "inv e" and l: "market_mode e = Live" and el: "gc_eligible e i" and t: "in_u64 now"
  shows "if live_clock now e = Ok ()
     then \<exists>e'. reclaim_empty_account_not_atomic i now e = (Ok (), e') \<and> vault_moved e 0 e' \<and> account_closed i 0 e e'
     else \<exists>x. reclaim_empty_account_not_atomic i now e = (Err x, e)"
proof (cases "live_account i now e")
  case (Err x)
  moreover have "live_account i now e = live_clock now e"
    using l el by (simp add: live_account_def gc_eligible_def is_used_def split: if_splits)
  ultimately show ?thesis by (simp add: reclaim_empty_account_not_atomic_def)
next
  case Panic
  then show ?thesis
    by (auto simp: live_account_def live_clock_def check_live_accrual_envelope_def Let_def split: if_splits)
next
  case (Ok u)
  note I = inv_D[OF v]
  let ?a = "accounts e ! i" and ?c = "e\<lparr> current_slot := now \<rparr>"
  have c: "i < MAX_ACCOUNTS e" "is_used e i" "current_slot e \<le> now"
    using okR_D[OF live_account_okR Ok] by simp_all
  have fk: "fee_ok ?a" by (rule acct_typed(5)[OF I(2) c(1)])
  have fc: "flat_clean ?a = Ok ()" and cap: "\<not> (capital ?a \<ge> min_initial_deposit (params e) \<and> capital ?a \<noteq> 0)"
    using el fk by (auto simp: gc_eligible_def Let_def flat_clean_def fee_ok_def split: if_splits)
  note C = clock_stage[OF I(2) c(3) t]
  have gc: "good ?c" "solvent ?c" using stage_D(1,7)[OF C(1)] I(3) by simp_all
  have acc: "accounts ?c = accounts e" by simp
  obtain e1 where e1: "(if capital ?a > 0 then
           sval (ok_or risk_error.Overflow (fit_u128 (ins_bal ?c + capital ?a))) ?c (\<lambda>new_insurance.
           sthen (set_capital i 0 ?c) (\<lambda>_ e. (Ok (), set_insurance new_insurance e)))
         else (Ok (), ?c)) = (Ok (), e1)" and d: "dust_moved i ?c e1"
    using dust_step_runs[OF gc, of i, unfolded acc] c(1) by blast
  have l1: "lstage i ?c e1" using d by (simp add: dust_moved_def)
  have i1: "i < MAX_ACCOUNTS e1" using c(1) lstage_D(4)[OF l1] by simp
  have l2: "lstage i ?c (forgive_debt i e1)"
    by (rule lstage_trans[OF l1 forgive_lstage[OF lstage_D(1)[OF l1] i1]])
  have st: "stage {i} e (forgive_debt i e1)" by (rule stage_trans[OF C(1) lstage_D(2)[OF l2]])
  note S = stage_D[OF st]
  have "slab_ok (forgive_debt i e1)" using stage_slab[OF st I(1)] c by simp
  moreover have "balanced (forgive_debt i e1)" using lstage_D(3)[OF l2] C(2) I(4) by simp
  moreover have "closable (accounts (forgive_debt i e1) ! i)"
    using closable_after[OF d _ i1] fc fk by simp
  ultimately obtain e' where e': "free_and_sweep i (forgive_debt i e1) = (Ok (), e')"
    using free_and_sweep_runs[OF S(1)] S(6,7) I(3) c(2) by blast
  have r: "reclaim_empty_account_not_atomic i now e = (Ok (), e')"
    using cap c(1) e1 e' by (simp add: reclaim_empty_account_not_atomic_def Ok sacct_def fc Let_def)
  have "live_clock now e = Ok ()" using Ok by (simp add: live_account_def split: if_splits)
  moreover have "vault_moved e 0 e'" "account_closed i 0 e e'"
    using okP_D[OF reclaim_spec[OF v t] r] l by (simp_all add: vault_moved_def account_closed_def)
  ultimately show ?thesis using r by auto
qed

lemma reclaim_eligible:
  assumes "inv e" "market_mode e = Live" "gc_eligible e i" "in_u64 now"
  shows "(\<exists>e'. reclaim_empty_account_not_atomic i now e = (Ok (), e') \<and> vault_moved e 0 e')
       \<or> (\<exists>x. reclaim_empty_account_not_atomic i now e = (Err x, e))"
  using reclaim_exact[OF assms] by (auto split: if_splits)

lemma crank_scan_kept:
  assumes "inv e" "market_mode e = Live" "in_u64 slot" "mx \<le> NIL"
  shows "\<exists>c n' e'. crank_scan k slot mx cursor n e = (Ok (c, n'), e') \<and> vault_moved e 0 e'"
  using assms(1,2)
proof (induction k arbitrary: cursor n e)
  case 0
  then show ?case by (simp add: vault_moved_def)
next
  case (Suc k)
  let ?c = "(cursor + 1) mod max mx 1"
  have "?c < max mx 1" "max mx 1 \<le> 65535" using assms(4) by (simp_all add: NIL_def)
  then have "?c < 65536" by (rule less_le_trans[OF _ le_trans]) simp
  then have c: "?c mod 65536 = ?c" by (rule mod_less)
  consider "?c = PROTOCOL_LP_SLOT \<or> \<not> gc_eligible e ?c" | "?c \<noteq> PROTOCOL_LP_SLOT" "gc_eligible e ?c" by blast
  then show ?case
  proof cases
    case 1
    then have "crank_scan (Suc k) slot mx cursor n e = crank_scan k slot mx ?c n e" by (auto simp: Let_def)
    then show ?thesis using Suc.IH[OF Suc.prems] by simp
  next
    case 2
    from reclaim_eligible[OF Suc.prems 2(2) assms(3)] show ?thesis
    proof (elim disjE exE conjE)
      fix e1 assume r: "reclaim_empty_account_not_atomic ?c slot e = (Ok (), e1)" and k1: "vault_moved e 0 e1"
      have "crank_scan (Suc k) slot mx cursor n e = crank_scan k slot mx ?c (n + 1) e1"
        using 2 r by (simp add: Let_def c[simplified])
      moreover obtain d m e' where "crank_scan k slot mx ?c (n + 1) e1 = (Ok (d, m), e')" "vault_moved e1 0 e'"
        using Suc.IH[of e1 ?c "n + 1"] k1 by (auto simp: vault_moved_def)
      ultimately show ?thesis using vault_moved_trans[OF k1] by fastforce
    next
      fix x assume "reclaim_empty_account_not_atomic ?c slot e = (Err x, e)"
      then have "crank_scan (Suc k) slot mx cursor n e = crank_scan k slot mx ?c n e" using 2 by (simp add: Let_def c[simplified])
      then show ?thesis using Suc.IH[OF Suc.prems] by simp
    qed
  qed
qed

text \<open>A scan whose window holds no eligible slot changes nothing but the cursor.\<close>

lemma crank_scan_idle:
  "(\<And>j. 0 < j \<Longrightarrow> j \<le> k \<Longrightarrow> \<not> gc_eligible e ((cursor + j) mod max mx 1))
     \<Longrightarrow> \<exists>c. crank_scan k slot mx cursor n e = (Ok (c, n), e)"
proof (induction k arbitrary: cursor)
  case 0
  then show ?case by simp
next
  case (Suc k)
  let ?c = "(cursor + 1) mod max mx 1"
  have "\<not> gc_eligible e ?c" using Suc.prems[of 1] by simp
  then have "crank_scan (Suc k) slot mx cursor n e = crank_scan k slot mx ?c n e" by (auto simp: Let_def)
  moreover have "\<not> gc_eligible e ((?c + j) mod max mx 1)" if "0 < j" "j \<le> k" for j
    using Suc.prems[of "Suc j"] that by (simp add: mod_add_left_eq)
  ultimately show ?case using Suc.IH[of ?c] by simp
qed

section \<open>The wrapper's own writes to the engine\<close>

lemma vault_moved_refl: "inv e \<Longrightarrow> market_mode e = Live \<Longrightarrow> vault_moved e 0 e"
  by (simp add: vault_moved_def)

text \<open>Fields of the engine no invariant reads.\<close>

lemma cursor_kept:
  assumes "inv e" "market_mode e = Live"
  shows "vault_moved e 0 (e\<lparr> gc_cursor := c \<rparr>)" "vault_moved e 0 (e\<lparr> last_crank_slot := s \<rparr>)"
proof -
  have "inv (e\<lparr> gc_cursor := c \<rparr>)" "inv (e\<lparr> last_crank_slot := s \<rparr>)"
    using assms(1)
    by (simp_all add: inv_def good_def pnl_inv_def agg_def accts_ok_def fees_ok_def market_ok_def solvent_def
      balanced_def slab_ok_def slab_shape_def free_chain_def used_set_def is_used_bit)
  then show "vault_moved e 0 (e\<lparr> gc_cursor := c \<rparr>)" "vault_moved e 0 (e\<lparr> last_crank_slot := s \<rparr>)"
    using assms(2) by (simp_all add: vault_moved_def)
qed

text \<open>The kind and the owner of a used slot.\<close>

lemma kind_stage:
  assumes g: "good e" and i: "i < MAX_ACCOUNTS e"
  shows "lstage i e (upd i (\<lambda>a. a\<lparr> kind := k \<rparr>) e)"
proof -
  let ?f = "\<lambda>a. a\<lparr> kind := k \<rparr>" and ?a = "accounts e ! i"
  have T: "acct_ok p (?f a) = acct_ok p a" "capital (?f a) = capital a" "posp (?f a) = posp a" "matp (?f a) = matp a"
    "negp (?f a) = negp a" "longp (?f a) = longp a" "shortp (?f a) = shortp a" for p a
    by (simp_all add: posp_def matp_def negp_def longp_def shortp_def acct_ok_def reserve_ok_def bucket_defs)
  have "agg (upd i ?f e)" using good_D(8)[OF g] i by (simp add: agg_def upd_def tot_update T)
  moreover have "accts_ok (upd i ?f e)"
    by (rule accts_ok_update[OF good_D(7)[OF g], of _ i "?f ?a"])
      (use accts_ok_nth[OF good_D(7)[OF g] i] in \<open>simp_all add: upd_def T\<close>)
  ultimately have p: "pnl_inv (upd i ?f e)" by (simp add: pnl_inv_def)
  have "fee_ok (?f ?a)" using good_D(2)[OF g] i by (simp add: fees_ok_def fee_ok_def)
  then have "stage {i} e (upd i ?f e)"
    by - (rule frame_stage[OF frame_upd[OF singletonI] g p], use i in \<open>simp_all add: upd_def\<close>)
  then show ?thesis by (simp add: lstage_def mkt_fields_def upd_def)
qed

lemma lstage_kept:
  assumes "inv e" "market_mode e = Live" "lstage i e e'" "is_used e i"
  shows "vault_moved e 0 e'"
proof -
  note I = inv_D[OF assms(1)] and L = lstage_D[OF assms(3)]
  have "slab_ok e'" using stage_slab[OF L(2) I(1)] assms(4) by simp
  then have "inv e'" using L(1,3) I(3,4) stage_D(7)[OF L(2)] by (simp add: inv_def)
  then show ?thesis by (rule vault_moved_stage[OF _ L(2) assms(2)])
qed

lemma seed_lp_kept:
  assumes "inv e" "market_mode e = Live" "is_used e PROTOCOL_LP_SLOT"
  shows "vault_moved e 0 (seed_lp e)"
proof -
  let ?i = PROTOCOL_LP_SLOT
  have i: "?i < MAX_ACCOUNTS e" using assms(3) by (simp add: is_used_def split: if_splits)
  let ?e1 = "upd ?i (\<lambda>a. a\<lparr> kind := KIND_LP \<rparr>) e"
  have l1: "lstage ?i e ?e1" by (rule kind_stage[OF inv_D(2)[OF assms(1)] i])
  have "lstage ?i ?e1 (upd ?i (\<lambda>a. a\<lparr> owner := PROTOCOL_LP_OWNER_SENTINEL \<rparr>) ?e1)"
    by (rule acct_write_stage[OF lstage_D(1)[OF l1]]) (use i lstage_D(4)[OF l1] in auto)
  then have "lstage ?i e (upd ?i (\<lambda>a. a\<lparr> owner := PROTOCOL_LP_OWNER_SENTINEL \<rparr>) ?e1)"
    by (rule lstage_trans[OF l1])
  moreover have "upd ?i (\<lambda>a. a\<lparr> owner := PROTOCOL_LP_OWNER_SENTINEL \<rparr>) ?e1 = seed_lp e"
    using i by (simp add: seed_lp_def upd_def)
  ultimately show ?thesis using lstage_kept[OF assms(1,2) _ assms(3)] by simp
qed

text \<open>A bounty out of the capital of an account: account, total and vault fall together.\<close>

lemma bounty_kept:
  assumes v: "inv e" "market_mode e = Live" and i: "is_used e i" and b: "0 \<le> b" "b \<le> capital (accounts e ! i)"
  shows "vault_moved e (- b) ((cap_effect i (capital (accounts e ! i) - b) e)\<lparr> vault := vault e - b \<rparr>)"
    (is "vault_moved e _ ?e")
proof -
  note I = inv_D[OF v(1)]
  have iM: "i < MAX_ACCOUNTS e" using i by (simp add: is_used_def split: if_splits)
  note C = capital_le_c_tot[OF I(2) iM]
  have cap: "in_u128 (capital (accounts e ! i))" by (rule acct_typed(1)[OF I(2) iM])
  have ins: "0 \<le> ins_bal e" "in_u128 (vault e)" using good_D(4,9)[OF I(2)] by (simp_all add: in_u128_def)
  have vb: "b \<le> vault e" using I(3) C b ins by (simp add: solvent_def)
  have "good ?e" by (rule paid_out_good[OF I(2) iM]) (use cap ins vb b in \<open>simp_all add: in_u128_def\<close>)
  moreover have "slab_ok ?e"
  proof -
    have "slab_ok (cap_effect i (capital (accounts e ! i) - b) e)"
    proof (rule stage_slab[of "{i}", OF _ I(1)])
      have "in_u128 (capital (accounts e ! i) - b)" using cap b by (simp add: in_u128_def)
      note G = cap_effect_good[OF I(2) iM this]
      show "stage {i} e (cap_effect i (capital (accounts e ! i) - b) e)"
        using G(1) b(1) by (auto simp: stage_def cap_effect_def solvent_def slab_fields_def)
    qed (use i in simp)
    then show ?thesis by (simp add: slab_ok_def slab_shape_def free_chain_def used_set_def is_used_bit)
  qed
  ultimately have "inv ?e"
    using I(3,4) by (simp add: inv_def solvent_def balanced_def cap_effect_def)
  then show ?thesis using v(2) b(1) by (simp add: vault_moved_def cap_effect_def)
qed

text \<open>A bounty out of the insurance fund: fund and vault fall together.\<close>

lemma crank_bounty_kept:
  assumes v: "inv e" "market_mode e = Live" and b: "0 \<le> b" "b \<le> ins_bal e"
  shows "vault_moved e (- b) ((set_insurance (ins_bal e - b) e)\<lparr> vault := vault e - b \<rparr>)" (is "vault_moved e _ ?e")
proof -
  note I = inv_D[OF v(1)]
  have ins: "in_u128 (ins_bal e)" "in_u128 (vault e)" using good_D(4,9)[OF I(2)] by simp_all
  have le: "b \<le> vault e" using I(3) c_tot_nonneg[OF I(2)] b by (simp add: solvent_def)
  have g1: "good (set_insurance (ins_bal e - b) e)"
    by (rule set_insurance_good[OF I(2)]) (use ins b in \<open>simp add: in_u128_def\<close>)
  have "pnl_inv ?e" "fees_ok ?e" "market_ok ?e"
    using good_D(1,2,3)[OF g1] by (simp_all add: pnl_inv_def agg_def accts_ok_def fees_ok_def market_ok_def)
  then have "good ?e" using good_D(4,5,6)[OF g1] ins le b by (simp add: good_def in_u128_def)
  moreover have "slab_ok ?e"
    using I(1) by (simp add: slab_ok_def slab_shape_def free_chain_def used_set_def is_used_bit set_insurance_def)
  ultimately have "inv ?e" using I(3,4) by (simp add: inv_def solvent_def balanced_def set_insurance_def)
  then show ?thesis using v(2) b(1) by (simp add: vault_moved_def set_insurance_def)
qed

end
