(* ===== verification/Handlers.thy ===== *)
theory Handlers
  imports Custody
begin

text \<open>
  What the handlers of the wrapper program keep: the engine of a running slab satisfies the invariant of
  the engine, its parameters and the header stay, and its \<open>vault\<close> moves by exactly the tokens that
  went through the slab's vault account. The last section makes the program an instance of \<open>custodian\<close>.
\<close>

section \<open>Tokens in and out\<close>

text \<open>
  A transfer without seeds is authorised by a signer of the transaction and brings tokens in; one that
  the program signs with the vault's seeds takes tokens out.
\<close>

fun flow :: "cpi \<Rightarrow> int" where
  "flow (TokenTransfer src dst auth n seeds) = (if seeds = [] then n else - n)"
| "flow (SystemTransfer src dst n) = 0"

definition flows :: "cpi list \<Rightarrow> int" where "flows ts = sum_list (map flow ts)"

lemma flows_simps [simp]: "flows [] = 0" "flows (ts @ us) = flows ts + flows us" "flows (t # us) = flow t + flows us"
  by (simp_all add: flows_def)

text \<open>Every token transfer has the slab's own vault on the right side of it.\<close>

fun through_vault :: "pubkey option \<Rightarrow> bytes list \<Rightarrow> cpi \<Rightarrow> bool" where
  "through_vault v vs (TokenTransfer src dst auth n seeds) =
     (0 < n \<and> (seeds = [] \<and> v = Some dst \<or> seeds = vs \<and> v = Some src \<and> auth = src))"
| "through_vault v vs (SystemTransfer src dst n) = False"

definition running :: "slab \<Rightarrow> slab_header \<Rightarrow> bool" where
  "running s h = (read_header s = Ok h \<and> is_initialized h)"

definition settles :: "host \<Rightarrow> pubkey \<Rightarrow> chain \<Rightarrow> chain \<Rightarrow> bool" where
  "settles H prog ch ch' =
     (\<exists>h ts. running (slab_acc ch) h
        \<and> slab_info (slab_acc ch') = slab_info (slab_acc ch) \<and> data_len (slab_acc ch') = data_len (slab_acc ch)
        \<and> transfers ch' = transfers ch @ ts \<and> vault_moved (engine_of ch) (flows ts) (engine_of ch')
        \<and> list_all (through_vault (create_program_address H (vault_seeds (slab_acc ch) (vault_bump h)) prog)
             (vault_seeds (slab_acc ch) (vault_bump h))) ts)"

definition sound_chain :: "chain \<Rightarrow> bool" where
  "sound_chain ch =
     (slab_shape (engine_of ch)
      \<and> (\<forall>h. running (slab_acc ch) h \<longrightarrow> inv (engine_of ch) \<and> market_mode (engine_of ch) = Live
          \<and> vault (engine_of ch) \<le> MAX_VAULT_TVL))"

lemma slab_acc_set_engine [simp]:
  "engine_of (set_engine e ch) = e" "slab_info (slab_acc (set_engine e ch)) = slab_info (slab_acc ch)"
  "data_len (slab_acc (set_engine e ch)) = data_len (slab_acc ch)" "transfers (set_engine e ch) = transfers ch"
  by (simp_all add: set_engine_def)

lemma engine_call_okP: "okP (engine_call f ch) P = okP (f (engine_of ch)) (\<lambda>x e. P x (set_engine e ch))"
proof -
  obtain r e where "f (engine_of ch) = (r, e)" by fastforce
  then show ?thesis by (cases r) (simp_all add: engine_call_def)
qed

lemma invoke_okP:
  "okP (invoke_cpi H c ch) P = okR (invoke H c) (\<lambda>_. P () (ch\<lparr> transfers := transfers ch @ [c] \<rparr>))"
  by (simp add: invoke_cpi_def okP_sval)

text \<open>Stepping through a handler: each check that passed is a premise of what is left to show.\<close>

lemma running_header_Ok_iff: "running_header s = Ok h \<longleftrightarrow> running s h"
  by (auto simp: running_header_def running_def Ok_iffs guard_def require_Ok_iff)

lemma checked_vault_Ok_iff:
  "checked_vault H prog s h ta = Ok v \<longleftrightarrow> create_program_address H (vault_seeds s (vault_bump h)) prog = Some v \<and> v = key ta"
  by (auto simp: checked_vault_def vault_address_def Ok_iffs guard_def require_Ok_iff)

lemma step_next: "(\<And>p r. accs = p # r \<Longrightarrow> okP (c p r) P) \<Longrightarrow> okP (sval (next_account accs) ch (case_prod c)) P"
  by (cases accs) (auto simp: okP_sval)

lemma step_guard: "(b \<Longrightarrow> okP (k ()) P) \<Longrightarrow> okP (sval (guard b e) ch k) P"
  by (auto simp: okP_sval guard_def okR_require)

lemma step_header: "(\<And>h. running s h \<Longrightarrow> okP (k h) P) \<Longrightarrow> okP (sval (running_header s) ch k) P"
  by (auto simp: okP_sval running_header_Ok_iff intro: okR_I)

lemma step_vault:
  "(create_program_address H (vault_seeds s (vault_bump h)) prog = Some (key ta) \<Longrightarrow> okP (k (key ta)) P)
     \<Longrightarrow> okP (sval (checked_vault H prog s h ta) ch k) P"
  by (auto simp: okP_sval checked_vault_Ok_iff intro: okR_I)

lemma step_pair: "(\<And>a b. r = Ok (a, b) \<Longrightarrow> okP (c a b) P) \<Longrightarrow> okP (sval r ch (case_prod c)) P"
  by (auto simp: okP_sval intro: okR_I)

lemma step_val: "(\<And>x. r = Ok x \<Longrightarrow> okP (k x) P) \<Longrightarrow> okP (sval r ch k) P"
  by (auto simp: okP_sval intro: okR_I)

lemma step_call:
  "okP (f (engine_of ch)) Q \<Longrightarrow> (\<And>x e. Q x e \<Longrightarrow> okP (k x (set_engine e ch)) P) \<Longrightarrow> okP (sthen (engine_call f ch) k) P"
  unfolding okP_sthen engine_call_okP by (rule okP_mono)

lemma step_invoke: "P () (ch\<lparr> transfers := transfers ch @ [c] \<rparr>) \<Longrightarrow> okP (invoke_cpi H c ch) P"
  by (simp add: invoke_okP okR_I)

lemmas steps = step_next step_guard step_header step_vault step_pair step_val

lemma settlesI:
  assumes "running (slab_acc ch) h" "vault_moved (engine_of ch) (flows ts) (engine_of ch')"
    "slab_info (slab_acc ch') = slab_info (slab_acc ch)" "data_len (slab_acc ch') = data_len (slab_acc ch)"
    "transfers ch' = transfers ch @ ts"
    "list_all (through_vault (create_program_address H (vault_seeds (slab_acc ch) (vault_bump h)) prog)
             (vault_seeds (slab_acc ch) (vault_bump h))) ts"
  shows "settles H prog ch ch'"
  using assms by (auto simp: settles_def)

lemma vault_moved_D: "vault_moved e n e' \<Longrightarrow> inv e'" "vault_moved e n e' \<Longrightarrow> market_mode e' = Live" "vault_moved e n e' \<Longrightarrow> params e' = params e"
  by (simp_all add: vault_moved_def)

lemma sound_running:
  "sound_chain ch \<Longrightarrow> running (slab_acc ch) h \<Longrightarrow> inv (engine_of ch)"
  "sound_chain ch \<Longrightarrow> running (slab_acc ch) h \<Longrightarrow> market_mode (engine_of ch) = Live"
  "sound_chain ch \<Longrightarrow> running (slab_acc ch) h \<Longrightarrow> vault (engine_of ch) \<le> MAX_VAULT_TVL"
  by (auto simp: sound_chain_def)

lemma set_engine_again [simp]: "set_engine e1 (set_engine e ch) = set_engine e1 ch" "set_engine (engine_of ch) ch = ch"
  by (simp_all add: set_engine_def)

section \<open>The handlers of a running market\<close>

lemma pay_in:
  assumes "running (slab_acc ch) h" "create_program_address H (vault_seeds (slab_acc ch) (vault_bump h)) prog = Some dst"
    "vault_moved (engine_of ch) n e" "0 < n"
  shows "okP (invoke_cpi H (TokenTransfer src dst auth n []) (set_engine e ch)) (\<lambda>_ ch'. settles H prog ch ch')"
  by (rule step_invoke, rule settlesI[OF assms(1), of "[TokenTransfer src dst auth n []]"]) (use assms in simp_all)

lemma vault_seeds_nonempty [simp]: "vault_seeds s b \<noteq> []" "[] \<noteq> vault_seeds s b"
  by (simp_all add: vault_seeds_def)

lemma pay_out:
  assumes "running (slab_acc ch) h" "create_program_address H (vault_seeds (slab_acc ch) (vault_bump h)) prog = Some src"
    "vault_moved (engine_of ch) (- n) e" "0 < n"
  shows "okP (invoke_cpi H (TokenTransfer src dst src n (vault_seeds (slab_acc ch) (vault_bump h))) (set_engine e ch))
     (\<lambda>_ ch'. settles H prog ch ch' \<and> engine_of ch' = e)"
  by (rule step_invoke, rule conjI,
      rule settlesI[OF assms(1), of "[TokenTransfer src dst src n (vault_seeds (slab_acc ch) (vault_bump h))]"])
    (use assms in simp_all)

lemma no_pay:
  assumes "running (slab_acc ch) h" "vault_moved (engine_of ch) 0 e"
  shows "settles H prog ch (set_engine e ch)"
  by (rule settlesI[OF assms(1), of "[]"]) (use assms in simp_all)

lemma deposit_settles:
  assumes "sound_chain ch" "okR (clock H) in_u64" "0 \<le> deposit_amount args"
  shows "okP (process_deposit H prog accs args ch) (\<lambda>_ ch'. settles H prog ch ch')"
  unfolding process_deposit_def Let_def
proof (intro steps)
  fix user user_ta vault_ta h slot idx fresh
  assume h: "running (slab_acc ch) h" and c: "clock H = Ok slot" and a: "deposit_amount args \<noteq> 0"
    and v: "create_program_address H (vault_seeds (slab_acc ch) (vault_bump h)) prog = Some (key vault_ta)"
  let ?n = "deposit_amount args"
  let ?pay = "\<lambda>_ ch. invoke_cpi H (TokenTransfer (key user_ta) (key vault_ta) (key user) ?n []) ch"
  show "okP (sthen (engine_call (deposit_not_atomic idx ?n slot) ch) (\<lambda>_ ch1.
      sthen (if fresh then engine_call (set_owner idx (key user)) ch1 else (Ok (), ch1)) ?pay)) (\<lambda>_. settles H prog ch)"
  proof (rule step_call, rule engine_deposit[OF sound_running(1)[OF assms(1) h] okR_D[OF assms(2) c] assms(3)])
    fix x e1 assume "vault_moved (engine_of ch) ?n e1 \<and> is_used e1 idx \<and> idx < MAX_ACCOUNTS e1"
    then have k: "vault_moved (engine_of ch) ?n e1" by simp
    have pay: "okP (?pay y (set_engine e2 ch)) (\<lambda>_. settles H prog ch)" if "vault_moved e1 0 e2" for y :: unit and e2
      by (rule pay_in[OF h v]) (use vault_moved_trans[OF k that] a assms(3) in simp_all)
    show "okP (sthen (if fresh then engine_call (set_owner idx (key user)) (set_engine e1 ch) else (Ok (), set_engine e1 ch))
        ?pay) (\<lambda>_. settles H prog ch)"
    proof (cases fresh)
      case True
      have s: "okP (set_owner idx (key user) (engine_of (set_engine e1 ch))) (\<lambda>_ e2. vault_moved e1 0 e2 \<and> True)"
        using engine_set_owner[OF vault_moved_D(1,2)[OF k]] by simp
      show ?thesis unfolding if_P[OF True] by (rule step_call, rule s) (use pay in simp)
    next
      case False
      then show ?thesis using pay[OF vault_moved_refl[OF vault_moved_D(1,2)[OF k]]] by (simp add: okP_sthen)
    qed
  qed
qed


lemma withdraw_settles:
  assumes "sound_chain ch" "okR (clock H) in_u64" "0 \<le> withdraw_amount args"
  shows "okP (process_withdraw H prog accs args ch) (\<lambda>_ ch'. settles H prog ch ch')"
  unfolding process_withdraw_def Let_def
proof (intro steps)
  fix user_ta vault_ta h idx slot
  assume h: "running (slab_acc ch) h" and c: "clock H = Ok slot" and a: "withdraw_amount args \<noteq> 0"
    and v: "create_program_address H (vault_seeds (slab_acc ch) (vault_bump h)) prog = Some (key vault_ta)"
  show "okP (sthen (engine_call (\<lambda>e. withdraw_not_atomic idx (withdraw_amount args) (last_oracle_price e) slot 0
               (h_min (params e)) (h_max (params e)) e) ch) (\<lambda>_ ch'.
      invoke_cpi H (TokenTransfer (key vault_ta) (key user_ta) (key vault_ta) (withdraw_amount args)
        (vault_seeds (slab_acc ch) (vault_bump h))) ch')) (\<lambda>_. settles H prog ch)"
    by (rule step_call, rule engine_withdraw[OF sound_running(1)[OF assms(1) h] okR_D[OF assms(2) c] assms(3)],
        rule okP_mono, rule pay_out[OF h v]) (use a assms(3) in simp_all)
qed

text \<open>Who is paid by a withdrawal: the slot is the signer's own, and so is the receiving token account.\<close>

definition withdrawn_by_owner :: "host \<Rightarrow> pubkey \<Rightarrow> account_info list \<Rightarrow> int \<Rightarrow> chain \<Rightarrow> chain \<Rightarrow> bool" where
  "withdrawn_by_owner H prog accs n ch ch' =
     (\<exists>user user_ta v h i. user \<in> set accs \<and> is_signer user \<and> running (slab_acc ch) h
        \<and> is_used (engine_of ch) i \<and> owner (accounts (engine_of ch) ! i) = key user
        \<and> withdrawn i n (engine_of ch) (engine_of ch')
        \<and> token_of H user_ta = Ok (mint h, key user)
        \<and> create_program_address H (vault_seeds (slab_acc ch) (vault_bump h)) prog = Some v
        \<and> transfers ch' = transfers ch @ [TokenTransfer v (key user_ta) v n
             (vault_seeds (slab_acc ch) (vault_bump h))])"

lemma find_owner_D: "find_owner k e = Some i \<Longrightarrow> is_used e i \<and> owner (accounts e ! i) = k \<and> i < scan_limit e"
  by (auto simp: find_owner_def find_Some_iff)

lemma token_checks_D: "token_checks H h ua va k = Ok vo \<Longrightarrow> token_of H ua = Ok (mint h, k)"
  by (auto simp: token_checks_def Ok_iffs guard_def require_Ok_iff)

lemma withdraw_authorised:
  assumes "sound_chain ch" "okR (clock H) in_u64" "0 \<le> withdraw_amount args"
  shows "okP (process_withdraw H prog accs args ch) (\<lambda>_ ch'. withdrawn_by_owner H prog accs (withdraw_amount args) ch ch')"
  unfolding process_withdraw_def Let_def
proof (intro steps)
  fix user user_ta vault_ta r :: account_info and h :: slab_header and idx slot rest vo
  assume h: "running (slab_acc ch) h" and c: "clock H = Ok slot" and u: "accs = user # rest" "is_signer user"
    and o: "ok_or (of_percolator EngineError) (find_owner (key user) (engine_of ch)) = Ok idx"
    and t: "token_checks H h user_ta vault_ta (key user) = Ok vo"
    and v: "create_program_address H (vault_seeds (slab_acc ch) (vault_bump h)) prog = Some (key vault_ta)"
  have iv: "inv (engine_of ch)" by (rule sound_running(1)[OF assms(1) h])
  have i: "is_used (engine_of ch) idx \<and> owner (accounts (engine_of ch) ! idx) = key user"
    using o find_owner_D by (simp add: Ok_iffs)
  show "okP (sthen (engine_call (\<lambda>e. withdraw_not_atomic idx (withdraw_amount args) (last_oracle_price e) slot 0
               (h_min (params e)) (h_max (params e)) e) ch) (\<lambda>_ ch'.
      invoke_cpi H (TokenTransfer (key vault_ta) (key user_ta) (key vault_ta) (withdraw_amount args)
        (vault_seeds (slab_acc ch) (vault_bump h))) ch'))
     (\<lambda>_ ch'. withdrawn_by_owner H prog accs (withdraw_amount args) ch ch')"
  proof (rule step_call, rule withdraw_spec[OF iv okR_D[OF assms(2) c] inv_horizons(3,1,2)[OF iv] assms(3)], rule step_invoke)
    fix x :: unit and e
    assume w: "inv e \<and> withdrawn idx (withdraw_amount args) (engine_of ch) e"
    show "withdrawn_by_owner H prog accs (withdraw_amount args) ch
       ((set_engine e ch)\<lparr> transfers := transfers (set_engine e ch) @ [TokenTransfer (key vault_ta) (key user_ta) (key vault_ta)
          (withdraw_amount args) (vault_seeds (slab_acc ch) (vault_bump h))] \<rparr>)"
      unfolding withdrawn_by_owner_def
      by (intro exI[of _ user] exI[of _ user_ta] exI[of _ "key vault_ta"] exI[of _ h] exI[of _ idx])
        (use u h i w token_checks_D[OF t] v in simp)
  qed
qed

lemma bootstrap_settles:
  assumes "sound_chain ch" "okR (clock H) in_u64" "0 \<le> lp_amount args"
  shows "okP (process_bootstrap_lp H prog accs args ch) (\<lambda>_ ch'. settles H prog ch ch')"
  unfolding process_bootstrap_lp_def Let_def
proof (intro steps)
  fix creator_ai creator_ta vault_ta h slot
  assume h: "running (slab_acc ch) h" and c: "clock H = Ok slot" and a: "lp_amount args \<noteq> 0"
    and v: "create_program_address H (vault_seeds (slab_acc ch) (vault_bump h)) prog = Some (key vault_ta)"
  show "okP (sthen (engine_call (deposit_not_atomic PROTOCOL_LP_SLOT (lp_amount args) slot) ch) (\<lambda>_ ch.
      invoke_cpi H (TokenTransfer (key creator_ta) (key vault_ta) (key creator_ai) (lp_amount args) [])
        (set_engine (seed_lp (engine_of ch)) ch))) (\<lambda>_. settles H prog ch)"
  proof (rule step_call, rule engine_deposit[OF sound_running(1)[OF assms(1) h] okR_D[OF assms(2) c] assms(3)])
    fix x e1
    assume "vault_moved (engine_of ch) (lp_amount args) e1 \<and> is_used e1 PROTOCOL_LP_SLOT \<and> PROTOCOL_LP_SLOT < MAX_ACCOUNTS e1"
    then have k: "vault_moved (engine_of ch) (lp_amount args) e1" "is_used e1 PROTOCOL_LP_SLOT" by simp_all
    note k2 = vault_moved_trans[OF k(1) seed_lp_kept[OF vault_moved_D(1,2)[OF k(1)] k(2)]]
    show "okP (invoke_cpi H (TokenTransfer (key creator_ta) (key vault_ta) (key creator_ai) (lp_amount args) [])
        (set_engine (seed_lp (engine_of (set_engine e1 ch))) (set_engine e1 ch))) (\<lambda>_. settles H prog ch)"
      using pay_in[OF h v k2, of "key creator_ta" "key creator_ai"] a assms(3) by simp
  qed
qed

text \<open>A price the wrapper accepts is in the range of the engine, whatever the bytes of the feed.\<close>

lemma read_oracle_price_okR:
  "okR (read_oracle_price a slot) (\<lambda>px. 0 < px \<and> px \<le> MAX_ORACLE_PRICE)"
proof (rule okR_I)
  fix px assume p: "read_oracle_price a slot = Ok px"
  then obtain f where f: "feed_read_from (data a) = Ok f" "px = price_lamports_per_token f" "px \<noteq> 0" "px \<le> MAX_ORACLE_PRICE"
    by (auto simp: read_oracle_price_def Ok_iffs map_err_Ok_iff require_Ok_iff Let_def)
  then show "0 < px \<and> px \<le> MAX_ORACLE_PRICE"
    using feed_read_typed[OF f(1)] by (simp add: feed_typed_def in_u64_def)
qed

lemma order_settles:
  assumes "sound_chain ch" "okR (clock H) in_u64"
  shows "okP (process_place_order H prog accs args ch) (\<lambda>_ ch'. settles H prog ch ch')"
proof -
  have trade: "okP (engine_call (\<lambda>e. execute_trade_not_atomic a b px slot q px 0 (h_min (params e)) (h_max (params e)) e) ch)
      (\<lambda>_ ch'. settles H prog ch ch')"
    if h: "running (slab_acc ch) h" "clock H = Ok slot" "map_err of_percolator (read_oracle_price oa slot) = Ok px"
    for h oa slot px a b q
  proof -
    have "0 \<le> px" using okR_D[OF read_oracle_price_okR, of oa slot px] h(3) by (simp add: map_err_Ok_iff)
    from engine_trade[OF sound_running(1)[OF assms(1) h(1)] okR_D[OF assms(2) h(2)] this] show ?thesis
      unfolding engine_call_okP by (rule okP_mono) (use no_pay[OF h(1)] in simp)
  qed
  show ?thesis
    unfolding process_place_order_def Let_def
    by (intro steps, split prod.split, intro allI impI, rule trade)
qed

lemma pay_liquidator_kept:
  assumes "inv (engine_of ch)" "market_mode (engine_of ch) = Live" "is_used (engine_of ch) i" "0 \<le> orig"
  shows "okP (pay_liquidator i orig ch) (\<lambda>b ch'. \<exists>e. ch' = set_engine e ch \<and> 0 \<le> b \<and> b \<le> vault (engine_of ch)
     \<and> b \<le> orig * LIQ_BOUNTY_BPS div 10000 \<and> vault_moved (engine_of ch) (- b) e)"
proof -
  let ?e = "engine_of ch"
  let ?c = "capital (accounts ?e ! i)"
  define b where "b = liquidation_bounty orig ?c"
  note I = inv_D[OF assms(1)]
  have i: "i < MAX_ACCOUNTS ?e" using assms(3) by (simp add: is_used_def split: if_splits)
  note C = capital_le_c_tot[OF I(2) i]
  have b: "0 \<le> b" "b \<le> ?c"
    using C(1) assms(4) by (simp_all add: b_def liquidation_bounty_def LIQ_BOUNTY_BPS_def sat_u128_def bounds)
  have "sat_u128 (orig * LIQ_BOUNTY_BPS) \<le> orig * LIQ_BOUNTY_BPS"
    using assms(4) by (simp add: sat_u128_def LIQ_BOUNTY_BPS_def)
  then have "sat_u128 (orig * LIQ_BOUNTY_BPS) div 10000 \<le> orig * LIQ_BOUNTY_BPS div 10000" by (rule zdiv_mono1) simp
  then have cap: "b \<le> orig * LIQ_BOUNTY_BPS div 10000" by (simp add: b_def liquidation_bounty_def)
  have v: "?c \<le> vault ?e" using C I(3) good_D(4)[OF I(2)] by (simp add: solvent_def in_u128_def)
  note K = bounty_kept[OF assms(1,2,3) b]
  have order: "e\<lparr> accounts := as, c_tot := c \<rparr> = e\<lparr> c_tot := c, accounts := as \<rparr>" for e :: engine and as c by simp
  show ?thesis
  proof (cases "b > 0")
    case False
    then have "b = 0" using b(1) by simp
    then show ?thesis
      using vault_moved_refl[OF assms(1,2)] v C cap by (simp add: pay_liquidator_def Let_def b_def[symmetric])
        (metis set_engine_again(2))
  next
    case True
    then show ?thesis
      using K b v i cap
      by (auto simp: order pay_liquidator_def Let_def b_def[symmetric] checked_decrease_def upd_def cap_effect_def okP_sval Ok_iffs
        fit_u128_def split: if_splits intro!: okR_I exI conjI[OF refl])
  qed
qed


text \<open>A liquidation pays at most the bounty rate on the capital the victim had.\<close>

lemma liquidate_pays:
  assumes "sound_chain ch" "okR (clock H) in_u64"
  shows "okP (process_liquidate H prog accs args ch) (\<lambda>_ ch'. settles H prog ch ch'
     \<and> nat (victim_slot args) \<noteq> PROTOCOL_LP_SLOT \<and> is_used (engine_of ch) (nat (victim_slot args))
     \<and> vault (engine_of ch) - vault (engine_of ch')
        \<le> capital (accounts (engine_of ch) ! nat (victim_slot args)) * LIQ_BOUNTY_BPS div 10000)"
  unfolding process_liquidate_def Let_def
proof (intro steps)
  fix liquidator_ta vault_ta oa :: account_info and h :: slab_header and slot px
  let ?i = "nat (victim_slot args)"
  let ?orig = "capital (accounts (engine_of ch) ! ?i)"
  let ?pay = "\<lambda>bounty ch'. if 0 < bounty then invoke_cpi H (TokenTransfer (key vault_ta) (key liquidator_ta) (key vault_ta)
      (bounty mod 2 ^ 64) (vault_seeds (slab_acc ch) (vault_bump h))) ch' else (Ok (), ch')"
  assume h: "running (slab_acc ch) h" and c: "clock H = Ok slot" and u: "is_used (engine_of ch) ?i"
    and p: "map_err of_percolator (read_oracle_price oa slot) = Ok px"
    and v: "create_program_address H (vault_seeds (slab_acc ch) (vault_bump h)) prog = Some (key vault_ta)"
    and l: "?i \<noteq> PROTOCOL_LP_SLOT"
  let ?P = "\<lambda>ch'. settles H prog ch ch' \<and> ?i \<noteq> PROTOCOL_LP_SLOT \<and> is_used (engine_of ch) ?i
     \<and> vault (engine_of ch) - vault (engine_of ch') \<le> ?orig * LIQ_BOUNTY_BPS div 10000"
  note S = sound_running[OF assms(1) h]
  have px: "0 \<le> px" using okR_D[OF read_oracle_price_okR, of oa slot px] p by (simp add: map_err_Ok_iff)
  have orig: "0 \<le> ?orig"
    using u by (intro acct_typed(6)[OF inv_D(2)[OF S(1)]]) (simp add: is_used_def split: if_splits)
  show "okP (sthen (engine_call (\<lambda>e. liquidate_at_oracle_not_atomic ?i slot px FullClose 0
               (h_min (params e)) (h_max (params e)) e) ch) (\<lambda>did ch.
      sval (guard did AccountHealthy) ch (\<lambda>_. sthen (pay_liquidator ?i ?orig ch) ?pay))) (\<lambda>_. ?P)"
  proof (rule step_call, rule engine_liquidate[OF S(1) okR_D[OF assms(2) c] px], rule step_guard, unfold okP_sthen)
    fix did :: bool and e1
    assume k: "vault_moved (engine_of ch) 0 e1 \<and> (\<forall>j. is_used e1 j = is_used (engine_of ch) j)"
    then have k1: "vault_moved (engine_of ch) 0 e1" by simp
    have "okP (pay_liquidator ?i ?orig (set_engine e1 ch)) (\<lambda>b ch'. \<exists>e. ch' = set_engine e (set_engine e1 ch) \<and> 0 \<le> b
        \<and> b \<le> vault e1 \<and> b \<le> ?orig * LIQ_BOUNTY_BPS div 10000 \<and> vault_moved e1 (- b) e)"
      using pay_liquidator_kept[of "set_engine e1 ch", simplified, OF vault_moved_D(1,2)[OF k1] _ orig] k u by simp
    then show "okP (pay_liquidator ?i ?orig (set_engine e1 ch)) (\<lambda>x s. okP (?pay x s) (\<lambda>_. ?P))"
    proof (rule okP_mono, elim exE conjE)
      fix b ch' e2 assume e2: "ch' = set_engine e2 (set_engine e1 ch)" "0 \<le> b" "b \<le> vault e1" "b \<le> ?orig * LIQ_BOUNTY_BPS div 10000" "vault_moved e1 (- b) e2"
      have k2: "vault_moved (engine_of ch) (- b) e2" using vault_moved_trans[OF k1 e2(5)] by simp
      have "b < 2 ^ 64" using e2(3) k1 S(3) by (simp add: vault_moved_def bounds)
      then have m: "b mod 2 ^ 64 = b" using e2(2) by simp
      show "okP (?pay b ch') (\<lambda>_. ?P)"
      proof (cases "0 < b")
        case True
        show ?thesis unfolding if_P[OF True] e2(1) set_engine_again m
          by (rule okP_mono[OF pay_out[OF h v k2 True]]) (use k2 e2(4) u l in \<open>simp add: vault_moved_def\<close>)
      next
        case False
        then show ?thesis using no_pay[OF h, of e2] k2 e2 u l by (simp add: vault_moved_def)
      qed
    qed
  qed
qed

lemma liquidate_settles:
  "sound_chain ch \<Longrightarrow> okR (clock H) in_u64 \<Longrightarrow> okP (process_liquidate H prog accs args ch) (\<lambda>_ ch'. settles H prog ch ch')"
  by (rule okP_mono[OF liquidate_pays]) blast+

lemma crank_funding_kept:
  assumes "inv (engine_of ch)" "market_mode (engine_of ch) = Live" "in_u64 slot"
  shows "okP (crank_funding slot ch) (\<lambda>_ ch'. \<exists>e. ch' = set_engine e ch \<and> vault_moved (engine_of ch) 0 e)"
proof (cases "slot \<le> last_market_slot (engine_of ch)")
  case True
  then show ?thesis by (simp add: crank_funding_def)
next
  case False
  show ?thesis unfolding crank_funding_def if_not_P[OF False]
  proof (rule step_call, rule engine_accrue[OF assms(1,3)])
    fix x :: unit and e1 assume k: "vault_moved (engine_of ch) 0 e1 \<and> current_slot e1 = slot"
    then have "e1\<lparr> current_slot := slot, last_crank_slot := slot \<rparr> = e1\<lparr> last_crank_slot := slot \<rparr>" by auto
    moreover have "vault_moved (engine_of ch) 0 (e1\<lparr> last_crank_slot := slot \<rparr>)"
      using vault_moved_trans[OF conjunct1[OF k] cursor_kept(2)] k vault_moved_D(1,2) by fastforce
    ultimately show "okP (Ok (), set_engine ((engine_of (set_engine e1 ch))\<lparr> current_slot := slot, last_crank_slot := slot \<rparr>)
        (set_engine e1 ch)) (\<lambda>_ ch'. \<exists>e. ch' = set_engine e ch \<and> vault_moved (engine_of ch) 0 e)"
      by auto
  qed
qed


lemma crank_gc_kept:
  assumes "inv (engine_of ch)" "market_mode (engine_of ch) = Live" "in_u64 slot"
  shows "okP (crank_gc slot ch) (\<lambda>_ ch'. \<exists>e. ch' = set_engine e ch \<and> vault_moved (engine_of ch) 0 e)"
proof -
  let ?e = "engine_of ch"
  let ?mx = "nat (max_accounts (params ?e))"
  have "max_accounts (params ?e) \<le> int (MAX_ACCOUNTS ?e)"
    using good_D(5)[OF inv_D(2)[OF assms(1)]] by (simp add: params_ok_def)
  then have "?mx \<le> NIL" using inv_D(5)[OF assms(1)] by linarith
  from crank_scan_kept[OF assms this, of "min GC_CLOSE_BUDGET ?mx" "gc_cursor ?e" 0] obtain c n e' where
    g: "crank_scan (min GC_CLOSE_BUDGET ?mx) slot ?mx (gc_cursor ?e) 0 ?e = (Ok (c, n), e')" and k: "vault_moved ?e 0 e'" by blast
  have "vault_moved ?e 0 (e'\<lparr> gc_cursor := c mod 65536 \<rparr>)"
    using vault_moved_trans[OF k cursor_kept(1)[OF vault_moved_D(1,2)[OF k]]] by simp
  then show ?thesis by (auto simp: crank_gc_def Let_def g)
qed

text \<open>
  When no slot of the window behind the cursor is eligible the crank fails, and a failed transaction does
  not keep the cursor it had advanced: the next crank scans the same window again, whatever waits outside.
\<close>

lemma crank_gc_starves:
  assumes "\<And>j. 0 < j \<Longrightarrow> j \<le> min GC_CLOSE_BUDGET (nat (max_accounts (params (engine_of ch))))
      \<Longrightarrow> \<not> gc_eligible (engine_of ch) ((gc_cursor (engine_of ch) + j) mod max (nat (max_accounts (params (engine_of ch)))) 1)"
  shows "fst (crank_gc slot ch) = Err (of_percolator NothingToDo)"
proof -
  let ?e = "engine_of ch"
  let ?mx = "nat (max_accounts (params ?e))"
  obtain c where "crank_scan (min GC_CLOSE_BUDGET ?mx) slot ?mx (gc_cursor ?e) 0 ?e = (Ok (c, 0), ?e)"
    using crank_scan_idle[of "min GC_CLOSE_BUDGET ?mx" ?e "gc_cursor ?e" ?mx slot 0] assms by blast
  then show ?thesis by (simp add: crank_gc_def Let_def)
qed

lemma crank_adl_kept:
  assumes "inv (engine_of ch)" "in_u64 slot"
  shows "okP (crank_adl_reset slot ch) (\<lambda>_ ch'. \<exists>e. ch' = set_engine e ch \<and> vault_moved (engine_of ch) 0 e)"
  unfolding crank_adl_reset_def Let_def
proof (intro step_val)
  fix i
  show "okP (sthen (engine_call (\<lambda>e. settle_account_not_atomic i (last_oracle_price e) slot 0 (h_min (params e))
        (h_max (params e)) e) ch) (\<lambda>_ ch'.
      if (side_mode_long (engine_of ch), side_mode_short (engine_of ch))
        \<noteq> (side_mode_long (engine_of ch'), side_mode_short (engine_of ch')) then (Ok (), ch')
      else (Err (of_percolator NothingToDo), ch'))) (\<lambda>_ ch'. \<exists>e. ch' = set_engine e ch \<and> vault_moved (engine_of ch) 0 e)"
    by (rule step_call, rule engine_settle[OF assms]) auto
qed

lemma crank_work_kept:
  assumes "inv (engine_of ch)" "market_mode (engine_of ch) = Live" "in_u64 slot"
  shows "okP (crank_work k slot ch) (\<lambda>_ ch'. \<exists>e. ch' = set_engine e ch \<and> vault_moved (engine_of ch) 0 e)"
  using crank_funding_kept[OF assms] crank_gc_kept[OF assms] crank_adl_kept[OF assms(1,3)]
  by (cases k) (simp_all add: crank_work_def okP_sthen)

lemma pay_cranker_kept:
  assumes "inv (engine_of ch)" "market_mode (engine_of ch) = Live"
  shows "okP (pay_cranker ch) (\<lambda>b ch'. \<exists>e. ch' = set_engine e ch \<and> 0 \<le> b \<and> vault_moved (engine_of ch) (- b) e)"
proof -
  let ?e = "engine_of ch"
  define b where "b = crank_bounty ?e"
  note I = inv_D[OF assms(1)]
  have "0 \<le> ins_bal ?e" using good_D(4)[OF I(2)] by (simp add: in_u128_def)
  moreover have "0 \<le> insurance_floor (params ?e)" using good_D(6)[OF I(2)] by (simp add: params_typed_def in_u128_def)
  ultimately have b: "0 \<le> b" "b \<le> ins_bal ?e" by (simp_all add: b_def crank_bounty_def CRANK_BOUNTY_def sat_u128_def bounds)
  note K = crank_bounty_kept[OF assms b]
  show ?thesis
  proof (cases "b > 0")
    case False
    then have "b = 0" using b(1) by simp
    then show ?thesis
      using vault_moved_refl[OF assms] by (simp add: pay_cranker_def Let_def b_def[symmetric]) (metis set_engine_again(2))
  next
    case True
    have v: "vault (set_insurance x ?e) = vault ?e" for x by (simp add: set_insurance_def)
    show ?thesis
      using K b True
      by (auto simp: pay_cranker_def Let_def b_def[symmetric] checked_decrease_def okP_sval Ok_iffs v fit_u128_def
        split: if_splits intro!: okR_I exI conjI[OF refl])
  qed
qed

lemma crank_settles:
  assumes "sound_chain ch" "okR (clock H) in_u64"
  shows "okP (process_crank H prog accs args ch) (\<lambda>_ ch'. settles H prog ch ch')"
  unfolding process_crank_def Let_def
proof (intro steps)
  fix caller_ta vault_ta :: account_info and h :: slab_header and slot k
  let ?pay = "\<lambda>bounty ch'. if 0 < bounty then invoke_cpi H (TokenTransfer (key vault_ta) (key caller_ta) (key vault_ta)
      bounty (vault_seeds (slab_acc ch) (vault_bump h))) ch' else (Ok (), ch')"
  assume h: "running (slab_acc ch) h" and c: "clock H = Ok slot"
    and v: "create_program_address H (vault_seeds (slab_acc ch) (vault_bump h)) prog = Some (key vault_ta)"
  note S = sound_running[OF assms(1) h]
  have pay: "okP (sthen (pay_cranker (set_engine e1 ch)) ?pay) (\<lambda>_. settles H prog ch)" if k1: "vault_moved (engine_of ch) 0 e1" for e1
    unfolding okP_sthen
  proof (rule okP_mono, rule pay_cranker_kept, use vault_moved_D[OF k1] in simp, use vault_moved_D[OF k1] in simp, elim exE conjE)
    fix b ch' e2 assume e2: "ch' = set_engine e2 (set_engine e1 ch)" "0 \<le> b" "vault_moved (engine_of (set_engine e1 ch)) (- b) e2"
    have k2: "vault_moved (engine_of ch) (- b) e2" using vault_moved_trans[OF k1] e2(3) by fastforce
    show "okP (?pay b ch') (\<lambda>_. settles H prog ch)"
    proof (cases "0 < b")
      case True
      show ?thesis unfolding if_P[OF True] e2(1) set_engine_again by (rule okP_mono[OF pay_out[OF h v k2 True]]) blast
    next
      case False
      then show ?thesis using no_pay[OF h, of e2] k2 e2(1,2) by simp
    qed
  qed
  show "okP (sthen (crank_work k slot ch) (\<lambda>_ ch. sthen (pay_cranker ch) ?pay)) (\<lambda>_. settles H prog ch)"
    unfolding okP_sthen[of "crank_work k slot ch"]
    by (rule okP_mono, rule crank_work_kept[OF S(1,2) okR_D[OF assms(2) c]]) (use pay in blast)
qed

end
