(* ===== verification/Market_Life.thy ===== *)
theory Market_Life
  imports Handlers
begin

text \<open>
  The life of a slab: it is created with a header that is not running, initialised once with parameters
  the wrapper has validated, and from then on run by the handlers. The wrapper program is an instance of
  \<open>custodian\<close>: the funds of a slab are its engine's \<open>vault\<close> once it runs, and nothing before.
\<close>

section \<open>Validated parameters\<close>

lemma checked_product_Some:
  assumes "checked_product rate slots = Some v"
  shows "v = ADL_ONE * MAX_ORACLE_PRICE * rate * slots"
  using assms by (auto simp: checked_product_def fit_u128_def split: bind_splits if_splits)

lemma params_typed_args: "risk_params_ok a \<Longrightarrow> params_typed (into_engine_params a)"
  by (simp add: risk_params_ok_def params_typed_def into_engine_params_def)

text \<open>The parameters the wrapper accepts satisfy every assertion of the engine's \<open>validate_params\<close>.\<close>

lemma validate_risk_params_D:
  assumes "validate_risk_params n a px = Ok u" "risk_params_ok a" "in_u64 px"
  shows "params_ok n (into_engine_params a)" "0 < px" "px \<le> MAX_ORACLE_PRICE"
proof -
  have V: "\<not> (px = 0 \<or> px > MAX_ORACLE_PRICE)"
    "\<not> (ra_max_accounts a = 0 \<or> ra_max_accounts a > int n)"
    "\<not> (ra_max_active_positions_per_side a = 0 \<or> ra_max_active_positions_per_side a > ra_max_accounts a)"
    "\<not> ra_maintenance_margin_bps a > ra_initial_margin_bps a"
    "\<not> (ra_initial_margin_bps a > 10000 \<or> ra_trading_fee_bps a > 10000 \<or> ra_liquidation_fee_bps a > 10000)"
    "\<not> (ra_min_nonzero_mm_req a = 0 \<or> ra_min_nonzero_mm_req a \<ge> ra_min_nonzero_im_req a
         \<or> ra_min_nonzero_im_req a > ra_min_initial_deposit a)"
    "\<not> (ra_min_initial_deposit a = 0 \<or> ra_min_initial_deposit a > MAX_VAULT_TVL)"
    "\<not> (ra_min_liquidation_abs a > ra_liquidation_fee_cap a \<or> ra_liquidation_fee_cap a > MAX_PROTOCOL_FEE_ABS)"
    "\<not> ra_insurance_floor a > MAX_VAULT_TVL" "\<not> (ra_h_min a > ra_h_max a \<or> ra_h_max a = 0)"
    "\<not> ra_resolve_price_deviation_bps a > MAX_RESOLVE_PRICE_DEVIATION_BPS" "\<not> ra_max_accrual_dt_slots a = 0"
    "\<not> ra_max_abs_funding_e9_per_slot a > MAX_ABS_FUNDING_E9_PER_SLOT"
    "\<not> ra_min_funding_lifetime_slots a < ra_max_accrual_dt_slots a"
    "case checked_product (ra_max_abs_funding_e9_per_slot a) (ra_min_funding_lifetime_slots a) of
         Some v \<Rightarrow> v \<le> I128_MAX | None \<Rightarrow> False"
    using assms(1) unfolding validate_risk_params_def rthen_Ok_iff require_Ok_iff by blast+
  have P: "ADL_ONE * MAX_ORACLE_PRICE * ra_max_abs_funding_e9_per_slot a * ra_min_funding_lifetime_slots a \<le> I128_MAX"
    using V(15) checked_product_Some by (fastforce split: option.splits)
  have T: "0 \<le> ra_max_accounts a" "0 \<le> ra_max_active_positions_per_side a" "0 \<le> ra_min_nonzero_mm_req a"
    "0 \<le> ra_h_max a" "0 \<le> ra_max_accrual_dt_slots a" "0 \<le> px"
    using assms(2,3) by (simp_all add: risk_params_ok_def in_u64_def in_u128_def)
  show "0 < px" "px \<le> MAX_ORACLE_PRICE" using V(1) T(6) by simp_all
  show "params_ok n (into_engine_params a)"
    using V(2-14) P T(1-5)
    by (simp add: params_ok_def into_engine_params_def MAX_RESOLVE_PRICE_DEVIATION_BPS_def MAX_ABS_FUNDING_E9_PER_SLOT_def)
qed

text \<open>So the initialisation the wrapper runs does not panic, and it yields a sound empty market.\<close>

lemma validated_init:
  assumes "slab_shape e" "validate_risk_params (MAX_ACCOUNTS e) a px = Ok u" "risk_params_ok a" "in_u64 px" "in_u64 slot"
  shows "\<exists>e'. init_in_place (into_engine_params a) slot px e = (Ok (), e') \<and> inv e' \<and> market_mode e' = Live \<and> vault e' = 0
     \<and> params e' = into_engine_params a \<and> (\<forall>i. \<not> is_used e' i)"
proof -
  note P = params_typed_args[OF assms(3)]
  note V = validate_risk_params_D[OF assms(2-4)]
  have n: "MAX_ACCOUNTS e \<le> NIL" using assms(1) by (simp add: slab_shape_def)
  obtain e' where N: "new_with_market (MAX_ACCOUNTS e) (into_engine_params a) slot px = Ok e'"
    using new_with_market_eq[OF P V(1) n V(2,3), of slot] by blast
  note M = new_market_inv[OF N n P assms(5)]
  have "inv e'" by (rule rinv_D(1)[OF M(1)])
  moreover have "\<forall>i. \<not> is_used e' i" using M(4) by (auto simp: used_set_def)
  ultimately show ?thesis
    using init_in_place_new[OF assms(1)] N M(2,3) new_with_market_slab(2)[OF N n P] by simp
qed

section \<open>Writing the header\<close>

lemma write_header_okP:
  assumes "header_typed h"
  shows "okP (write_header h ch) (\<lambda>_ ch'. read_header (slab_acc ch') = Ok h \<and> engine_of ch' = engine_of ch
     \<and> transfers ch' = transfers ch)"
  unfolding write_header_def Let_def
proof (rule step_val)
  fix d' assume "rthen (slice_to HEADER_LEN (data (slab_info (slab_acc ch)))) (\<lambda>d. map_err of_percolator (write_into h d)) = Ok d'"
  then obtain d where d: "slice_to HEADER_LEN (data (slab_info (slab_acc ch))) = (Ok d :: (program_error, bytes) res)" "write_into h d = Ok d'"
    by (auto simp: Ok_iffs map_err_Ok_iff)
  have "length d = HEADER_LEN" using d(1) by (auto simp: slice_to_def split: if_splits)
  then have "read_from d' = Ok h" "length d' = HEADER_LEN" using header_roundtrip[OF assms d(2)] by simp_all
  then show "okP (Ok (), ch\<lparr> slab_acc := (slab_acc ch)\<lparr> slab_info := (slab_info (slab_acc ch))\<lparr> data := d'
        @ drop HEADER_LEN (data (slab_info (slab_acc ch))) \<rparr> \<rparr> \<rparr>)
     (\<lambda>_ ch'. read_header (slab_acc ch') = Ok h \<and> engine_of ch' = engine_of ch \<and> transfers ch' = transfers ch)"
    by (simp add: read_header_def slice_to_def)
qed

lemma zero_header_idle: "header_is_zero s = Ok True \<Longrightarrow> \<not> running s h"
proof
  assume z: "header_is_zero s = Ok True" and r: "running s h"
  from r obtain d where d: "slice_to HEADER_LEN (data (slab_info s)) = (Ok d :: (program_error, bytes) res)" "read_from d = Ok h" "initialized h \<noteq> 0"
    by (auto simp: running_def read_header_def Ok_iffs map_err_Ok_iff is_initialized_def)
  have "length d = HEADER_LEN" using d(1) by (auto simp: slice_to_def split: if_splits)
  moreover have "list_all (\<lambda>b. b = 0) d" using z d(1) by (simp add: header_is_zero_def)
  ultimately have "d ! 97 = 0" by (simp add: list_all_length HEADER_LEN_def)
  then show False using d(2,3) by (auto simp: read_from_def split: if_splits)
qed

lemma zero_region_shape: "slab_shape (engine_of ch) \<Longrightarrow> slab_shape (engine_of (zero_region ch))"
  by (simp add: zero_region_def zero_engine_def slab_shape_def blank_engine_def)

lemma read_header_set_engine [simp]: "read_header (slab_acc (set_engine e ch)) = read_header (slab_acc ch)"
  by (simp add: read_header_def)

section \<open>Creating and initialising\<close>

text \<open>A slab that is being set up: it did not run before, and no tokens move.\<close>

definition opened :: "chain \<Rightarrow> chain \<Rightarrow> bool" where
  "opened ch ch' = ((\<forall>h. \<not> running (slab_acc ch) h) \<and> slab_shape (engine_of ch')
     \<and> (\<exists>ts. transfers ch' = transfers ch @ ts \<and> flows ts = 0)
     \<and> (\<forall>h. running (slab_acc ch') h \<longrightarrow> inv (engine_of ch') \<and> market_mode (engine_of ch') = Live
          \<and> vault (engine_of ch') = 0))"

definition keys_ok :: "account_info list \<Rightarrow> bool" where
  "keys_ok accs = list_all (\<lambda>a. length (key a) = 32) accs"

lemma new_header_typed:
  assumes "length m = 32" "length q = 32" "length c = 32"
  shows "header_typed (header_new m q c b v)" "header_typed ((header_new m q c b v)\<lparr> origin := w \<rparr>)"
    "\<not> is_initialized (header_new m q c b v)" "\<not> is_initialized ((header_new m q c b v)\<lparr> origin := w \<rparr>)"
  using assms by (simp_all add: header_typed_def header_new_def is_initialized_def)

text \<open>The end of both creations: a header that is not running, then zeroes.\<close>

lemma create_tail:
  assumes "header_typed h" "\<not> is_initialized h" "\<And>h. \<not> running (slab_acc ch0) h" "slab_shape (engine_of ch)"
    "transfers ch = transfers ch0 @ ts" "flows ts = 0"
  shows "okP (sthen (write_header h ch) (\<lambda>_ ch. (Ok (), zero_region ch))) (\<lambda>_ ch'. opened ch0 ch')"
  unfolding okP_sthen
proof (rule okP_mono[OF write_header_okP[OF assms(1)]], elim conjE)
  fix x :: unit and ch1
  assume r: "read_header (slab_acc ch1) = Ok h" and e: "engine_of ch1 = engine_of ch" and t: "transfers ch1 = transfers ch"
  have "\<not> running (slab_acc (zero_region ch1)) k" for k
    using r assms(2) by (auto simp: running_def zero_region_def)
  moreover have "slab_shape (engine_of (zero_region ch1))" by (rule zero_region_shape) (simp add: e assms(4))
  moreover have "transfers (zero_region ch1) = transfers ch0 @ ts" using t assms(5) by (simp add: zero_region_def)
  ultimately show "okP (Ok (), zero_region ch1) (\<lambda>_ ch'. opened ch0 ch')"
    using assms(3,6) by (auto simp: opened_def)
qed

lemma create_slab_opens:
  assumes "sound_chain ch" "keys_ok accs"
  shows "okP (process_create_slab H prog accs args ch) (\<lambda>_ ch'. opened ch ch')"
  unfolding process_create_slab_def Let_def
proof (intro steps)
  fix payer mint_ai oracle_ai system r r1 r2 r3 z
  assume accs: "accs = payer # r" "r = mint_ai # r1" "r1 = oracle_ai # r2"
    and z: "header_is_zero (slab_acc ch) = Ok z" z
  note T = new_header_typed[of "key mint_ai" "key oracle_ai" "key payer"]
  show "okP (sthen (write_header (header_new (key mint_ai) (key oracle_ai) (key payer) (cs_bump args) (cs_vault_bump args)) ch)
      (\<lambda>_ ch. (Ok (), zero_region ch))) (\<lambda>_ ch'. opened ch ch')"
    by (rule create_tail[where ts = "[]"])
      (use assms accs z zero_header_idle T in \<open>simp_all add: keys_ok_def sound_chain_def\<close>)
qed

lemma create_market_opens:
  assumes "sound_chain ch" "keys_ok accs"
  shows "okP (process_create_market H prog accs args ch) (\<lambda>_ ch'. opened ch ch')"
  unfolding process_create_market_def Let_def
proof (intro steps)
  fix payer mint_ai oracle_ai treasury r r1 r2 r3 z
  assume accs: "accs = payer # r" "r = mint_ai # r1" "r1 = oracle_ai # r2" "r2 = treasury # r3"
    and z: "header_is_zero (slab_acc ch) = Ok z" z
  let ?pay = "SystemTransfer (key payer) (key treasury) (fee_lamports args)"
  let ?h = "(header_new (key mint_ai) (key oracle_ai) (key payer) 0 (cm_vault_bump args))\<lparr> origin := ORIGIN_OPEN \<rparr>"
  note T = new_header_typed[of "key mint_ai" "key oracle_ai" "key payer"]
  show "okP (sthen (invoke_cpi H ?pay ch) (\<lambda>_ ch1. sthen (write_header ?h ch1) (\<lambda>_ ch. (Ok (), zero_region ch))))
      (\<lambda>_ ch'. opened ch ch')"
    unfolding okP_sthen[of "invoke_cpi H ?pay ch"]
    by (rule step_invoke, rule create_tail[where ts = "[?pay]"])
      (use assms accs z zero_header_idle T in \<open>simp_all add: keys_ok_def sound_chain_def\<close>)
qed

lemma initialize_opens:
  assumes "sound_chain ch" "okR (clock H) in_u64" "risk_params_ok (risk_params_arg args)" "in_u64 (init_oracle_price args)"
  shows "okP (process_initialize_engine H prog accs args ch)
     (\<lambda>_ ch'. opened ch ch' \<and> params (engine_of ch') = into_engine_params (risk_params_arg args))"
  unfolding process_initialize_engine_def Let_def
proof (intro steps)
  fix h slot and u :: unit
  assume h: "read_header (slab_acc ch) = Ok h" "\<not> is_initialized h" and c: "clock H = Ok slot"
    and v: "map_err of_percolator (validate_risk_params (MAX_ACCOUNTS (engine_of ch)) (risk_params_arg args)
              (init_oracle_price args)) = Ok u"
  let ?p = "into_engine_params (risk_params_arg args)"
  have shape: "slab_shape (engine_of ch)" using assms(1) by (simp add: sound_chain_def)
  obtain e where e: "init_in_place ?p slot (init_oracle_price args) (engine_of ch) = (Ok (), e)" "inv e"
    "market_mode e = Live" "vault e = 0" "params e = ?p"
    using validated_init[OF shape _ assms(3,4) okR_D[OF assms(2) c]] v by (auto simp: map_err_Ok_iff)
  have t: "header_typed (h\<lparr> initialized := 1 \<rparr>)"
  proof -
    obtain d where "read_from d = Ok h" using h(1) by (auto simp: read_header_def Ok_iffs map_err_Ok_iff)
    then show ?thesis using header_read_write by (fastforce simp: header_typed_def)
  qed
  have idle: "\<not> running (slab_acc ch) k" for k using h by (auto simp: running_def)
  have s: "slab_shape e" using inv_D(1)[OF e(2)] by (simp add: slab_ok_def)
  have call: "engine_call (init_in_place ?p slot (init_oracle_price args)) ch = (Ok (), set_engine e ch)"
    by (simp add: engine_call_def e(1))
  show "okP (sthen (engine_call (init_in_place ?p slot (init_oracle_price args)) ch) (\<lambda>_. write_header (h\<lparr> initialized := 1 \<rparr>)))
     (\<lambda>_ ch'. opened ch ch' \<and> params (engine_of ch') = ?p)"
    unfolding call by (simp add: okP_sthen, rule okP_mono[OF write_header_okP[OF t]])
      (use idle s e in \<open>auto simp: opened_def intro!: exI[of _ "[]"]\<close>)
qed

section \<open>The wrapper as a custodian\<close>

record wrapper_call =
  invoked_host :: host
  invoked_accounts :: "account_info list"
  invoked_data :: bytes

definition wrapper_call_typed :: "wrapper_call \<Rightarrow> bool" where
  "wrapper_call_typed c = (okR (clock (invoked_host c)) in_u64 \<and> keys_ok (invoked_accounts c))"

text \<open>The tokens an instruction moved are the transfers it appended.\<close>

definition wrapper_exec :: "borsh \<Rightarrow> pubkey \<Rightarrow> wrapper_call \<Rightarrow> chain \<Rightarrow> (program_error, int) res \<times> chain" where
  "wrapper_exec B prog c ch =
     sthen (wrapper_process B (invoked_host c) prog (invoked_accounts c) (invoked_data c) ch)
       (\<lambda>_ ch'. (Ok (flows (drop (length (transfers ch)) (transfers ch'))), ch'))"

definition funds_of :: "chain \<Rightarrow> int" where
  "funds_of ch = (case running_header (slab_acc ch) of Ok h \<Rightarrow> vault (engine_of ch) | _ \<Rightarrow> 0)"

text \<open>A running slab keeps running, under the same header and the same parameters.\<close>

definition runs_on :: "chain \<Rightarrow> chain \<Rightarrow> bool" where
  "runs_on ch ch' = (\<forall>h. running (slab_acc ch) h \<longrightarrow>
     running (slab_acc ch') h \<and> params (engine_of ch') = params (engine_of ch))"

lemma funds_of_running: "running (slab_acc ch) h \<Longrightarrow> funds_of ch = vault (engine_of ch)"
  by (simp add: funds_of_def running_header_Ok_iff[symmetric])

lemma funds_of_idle: "(\<And>h. \<not> running (slab_acc ch) h) \<Longrightarrow> funds_of ch = 0"
  by (simp add: funds_of_def running_header_Ok_iff[symmetric] split: res.split)

definition custodied :: "chain \<Rightarrow> chain \<Rightarrow> bool" where
  "custodied ch ch' = (sound_chain ch' \<and> runs_on ch ch'
     \<and> funds_of ch' = funds_of ch + flows (drop (length (transfers ch)) (transfers ch')))"

lemma opened_custodied: "opened ch ch' \<Longrightarrow> custodied ch ch'"
proof -
  assume o: "opened ch ch'"
  have f: "funds_of ch = 0" using o by (intro funds_of_idle) (simp add: opened_def)
  have "funds_of ch' = 0"
    using o funds_of_running[of ch'] by (auto simp: opened_def funds_of_def running_header_Ok_iff split: res.split)
  then show ?thesis using o f by (auto simp: opened_def custodied_def sound_chain_def runs_on_def bounds)
qed

lemma settles_custodied:
  assumes "sound_chain ch" "settles H prog ch ch'"
  shows "custodied ch ch'"
proof -
  obtain h ts where h: "running (slab_acc ch) h" "slab_info (slab_acc ch') = slab_info (slab_acc ch)"
    "transfers ch' = transfers ch @ ts" and k: "vault_moved (engine_of ch) (flows ts) (engine_of ch')"
    using assms(2) by (auto simp: settles_def)
  have r: "running (slab_acc ch') g = running (slab_acc ch) g" for g by (simp add: running_def read_header_def h(2))
  have "slab_shape (engine_of ch')" using inv_D(1)[OF vault_moved_D(1)[OF k]] by (simp add: slab_ok_def)
  then have "sound_chain ch'" using k sound_running(3)[OF assms(1) h(1)] by (simp add: sound_chain_def vault_moved_def)
  moreover have "funds_of ch' = funds_of ch + flows ts"
    using funds_of_running[OF h(1)] funds_of_running[of ch' h] r h(1) k by (simp add: vault_moved_def)
  ultimately show ?thesis using r k h(3) by (simp add: custodied_def runs_on_def vault_moved_def)
qed

context borsh_codec begin

lemma wrapper_process_sound:
  assumes "wrapper_call_typed c" "sound_chain ch"
  shows "okP (wrapper_process B (invoked_host c) prog (invoked_accounts c) bs ch) (\<lambda>_ ch'. custodied ch ch')"
  unfolding wrapper_process_def
proof (rule step_val)
  fix ix assume "map_err of_percolator (unpack B bs) = Ok ix"
  then have ok: "instruction_ok ix" by (simp add: map_err_Ok_iff unpack_Ok_iff)
  have c: "okR (clock (invoked_host c)) in_u64" "keys_ok (invoked_accounts c)"
    using assms(1) by (simp_all add: wrapper_call_typed_def)
  note s = assms(2)
  have o: "okP m (\<lambda>_. opened ch) \<Longrightarrow> okP m (\<lambda>_. custodied ch)"
    "okP m (\<lambda>_. settles (invoked_host c) prog ch) \<Longrightarrow> okP m (\<lambda>_. custodied ch)" for m :: "(program_error, unit) res \<times> chain"
    by (erule okP_mono, erule opened_custodied) (erule okP_mono, erule settles_custodied[OF s])
  have i: "okP m (\<lambda>_ ch'. opened ch ch' \<and> P ch') \<Longrightarrow> okP m (\<lambda>_. opened ch)" for m :: "(program_error, unit) res \<times> chain" and P
    by (erule okP_mono) simp
  show "okP (case ix of
       percolator_instruction.CreateSlab a \<Rightarrow> process_create_slab (invoked_host c) prog (invoked_accounts c) a ch
     | percolator_instruction.Deposit a \<Rightarrow> process_deposit (invoked_host c) prog (invoked_accounts c) a ch
     | percolator_instruction.Withdraw a \<Rightarrow> process_withdraw (invoked_host c) prog (invoked_accounts c) a ch
     | percolator_instruction.PlaceOrder a \<Rightarrow> process_place_order (invoked_host c) prog (invoked_accounts c) a ch
     | percolator_instruction.Liquidate a \<Rightarrow> process_liquidate (invoked_host c) prog (invoked_accounts c) a ch
     | percolator_instruction.Crank a \<Rightarrow> process_crank (invoked_host c) prog (invoked_accounts c) a ch
     | percolator_instruction.InitializeEngine a \<Rightarrow> process_initialize_engine (invoked_host c) prog (invoked_accounts c) a ch
     | percolator_instruction.BootstrapLp a \<Rightarrow> process_bootstrap_lp (invoked_host c) prog (invoked_accounts c) a ch
     | percolator_instruction.CreateMarket a \<Rightarrow> process_create_market (invoked_host c) prog (invoked_accounts c) a ch)
     (\<lambda>_ ch'. custodied ch ch')"
    using ok c
    by (cases ix)
      (simp_all add: o(1)[OF create_slab_opens[OF s]] o(1)[OF create_market_opens[OF s]] o(1)[OF i[OF initialize_opens[OF s]]]
        o(2)[OF deposit_settles[OF s]] o(2)[OF withdraw_settles[OF s]] o(2)[OF bootstrap_settles[OF s]]
        o(2)[OF order_settles[OF s]] o(2)[OF liquidate_settles[OF s]] o(2)[OF crank_settles[OF s]] in_u64_def)
qed

end

lemma runs_on_order: "runs_on ch ch" "runs_on ch ch1 \<Longrightarrow> runs_on ch1 ch2 \<Longrightarrow> runs_on ch ch2"
  by (auto simp: runs_on_def)

sublocale borsh_codec \<subseteq> slab_life: custodian "wrapper_exec B prog" wrapper_call_typed sound_chain funds_of runs_on for prog
proof
  show "okP (wrapper_exec B prog c ch) (\<lambda>n ch'. sound_chain ch' \<and> funds_of ch' = funds_of ch + n \<and> runs_on ch ch')"
    if "wrapper_call_typed c" "sound_chain ch" for c ch
    unfolding wrapper_exec_def okP_sthen
    by (rule okP_mono[OF wrapper_process_sound[OF that]]) (simp add: custodied_def)
qed (rule runs_on_order, assumption?)+

context borsh_codec begin

lemma slab_history:
  assumes "list_all wrapper_call_typed cs" "submit (wrapper_exec B prog) cs ch = (tr, ch')" "sound_chain ch"
  shows "sound_chain ch' \<and> funds_of ch' = funds_of ch + sum_list (map snd tr) \<and> runs_on ch ch'"
  by (rule slab_life.submit_sound[OF assms])

end

end
