(* ===== verification/Keeper.thy ===== *)
theory Keeper
  imports Custody
begin

text \<open>
  The keeper's decision (\<open>src/keeper/src/strategy.rs\<close>): one action for a snapshot of a slab. The engine
  bytes of the snapshot are the typed engine. What an action promises is stated against the wrapper
  program that will execute it.
\<close>

section \<open>The decision\<close>

record snapshot =
  snap_slab :: pubkey
  now_slot :: int
  snap_engine :: engine
  oracle_price :: "int option"
  oracle_last_update_slot :: int
  stale_slots :: int
  funding_staleness_slots :: int

datatype action =
  RefreshOracle
| LiquidateVictim nat int
| FundingCrank
| AdlResetCrank
| GcCrank
| Skip

definition KEEPER_LIQ_BOUNTY_BPS :: int where "KEEPER_LIQ_BOUNTY_BPS = 50"
definition MIN_BOUNTY_THRESHOLD :: int where "MIN_BOUNTY_THRESHOLD = 1000"
definition KEEPER_POS_SCALE :: int where "KEEPER_POS_SCALE = 1000000"

definition scan_max :: "engine \<Rightarrow> nat" where
  "scan_max e = min (nat (max_accounts (params e))) (MAX_ACCOUNTS e)"

definition est_equity :: "engine \<Rightarrow> int \<Rightarrow> account \<Rightarrow> int" where
  "est_equity e px a =
     (let basis = position_basis_q a; abs_basis = \<bar>basis\<bar>;
          equity_low = sat_i128 (as_i128 (capital a) + pnl a);
          last_px = last_oracle_price e;
          marked_loss =
            (if last_px > 0 then
               let (ref_px, live_px) = (if basis > 0 then (last_px, px) else (px, last_px)) in
               if live_px < ref_px then sat_u128 (abs_basis * (ref_px - live_px)) div KEEPER_POS_SCALE else 0
             else 0)
      in sat_i128 (equity_low - as_i128 marked_loss))"

definition keeper_mm_req :: "engine \<Rightarrow> int \<Rightarrow> account \<Rightarrow> int" where
  "keeper_mm_req e px a =
     (let notional = sat_u128 (\<bar>position_basis_q a\<bar> * px) div KEEPER_POS_SCALE in
      sat_u128 (notional * maintenance_margin_bps (params e)) div 10000)"

text \<open>The body of the liquidation scan: \<open>None\<close> is \<open>continue\<close>.\<close>

definition liquidation_at :: "engine \<Rightarrow> int \<Rightarrow> nat \<Rightarrow> action option" where
  "liquidation_at e px i =
     (if \<not> is_used e i then None
      else
        let a = accounts e ! i in
        if position_basis_q a = 0 then None
        else if est_equity e px a \<ge> as_i128 (keeper_mm_req e px a) then None
        else
          let est = sat_u128 (capital a * KEEPER_LIQ_BOUNTY_BPS) div 10000 in
          if est < MIN_BOUNTY_THRESHOLD then None else Some (LiquidateVictim (i mod 65536) est))"

definition gc_at :: "engine \<Rightarrow> nat \<Rightarrow> action option" where
  "gc_at e i =
     (if \<not> is_used e i then None
      else
        let a = accounts e ! i in
        if position_basis_q a = 0 \<and> pnl a = 0 \<and> reserved_pnl a = 0 \<and> sched_present a = 0
           \<and> pending_present a = 0 \<and> capital a < min_initial_deposit (params e)
        then Some GcCrank else None)"

fun first_action :: "(nat \<Rightarrow> action option) \<Rightarrow> nat list \<Rightarrow> action option" where
  "first_action f [] = None"
| "first_action f (i # is) = (case f i of Some a \<Rightarrow> Some a | None \<Rightarrow> first_action f is)"

definition decide :: "snapshot \<Rightarrow> action" where
  "decide snap =
     (case oracle_price snap of
        None \<Rightarrow> RefreshOracle
      | Some px \<Rightarrow>
          if sat_u64 (now_slot snap - oracle_last_update_slot snap) > stale_slots snap then RefreshOracle
          else
            let e = snap_engine snap in
            case first_action (liquidation_at e px) [1..<scan_max e] of
              Some a \<Rightarrow> a
            | None \<Rightarrow>
                if sat_u64 (now_slot snap - last_market_slot e) > funding_staleness_slots snap then FundingCrank
                else if side_mode_long e = side_mode.DrainOnly \<and> oi_eff_long_q e = 0
                     \<or> side_mode_short e = side_mode.DrainOnly \<and> oi_eff_short_q e = 0 then AdlResetCrank
                else
                  (case first_action (gc_at e) [1..<scan_max e] of
                     Some a \<Rightarrow> a
                   | None \<Rightarrow> Skip))"

section \<open>What a decision means\<close>

lemma first_action_Some: "first_action f is = Some a \<Longrightarrow> \<exists>i \<in> set is. f i = Some a"
  by (induction "is") (auto split: option.splits)

lemma first_action_None: "first_action f is = None \<longleftrightarrow> (\<forall>i \<in> set is. f i = None)"
  by (induction "is") (auto split: option.splits)

definition fresh :: "snapshot \<Rightarrow> bool" where
  "fresh s = (oracle_price s \<noteq> None \<and> sat_u64 (now_slot s - oracle_last_update_slot s) \<le> stale_slots s)"

text \<open>The keeper's dust test is the program's own test, and the two copies of the bounty rate agree.\<close>

lemma gc_at_eligible: "gc_at e i = (if gc_eligible e i then Some GcCrank else None)"
  by (simp add: gc_at_def gc_eligible_def Let_def)

lemma liquidation_at_D:
  assumes "liquidation_at e px i = Some a"
  shows "is_used e i \<and> position_basis_q (accounts e ! i) \<noteq> 0
     \<and> est_equity e px (accounts e ! i) < as_i128 (keeper_mm_req e px (accounts e ! i))
     \<and> (\<exists>b. a = LiquidateVictim (i mod 65536) b \<and> b = sat_u128 (capital (accounts e ! i) * LIQ_BOUNTY_BPS) div 10000
            \<and> MIN_BOUNTY_THRESHOLD \<le> b)"
  using assms by (auto simp: liquidation_at_def Let_def KEEPER_LIQ_BOUNTY_BPS_def LIQ_BOUNTY_BPS_def split: if_splits)

text \<open>The contract of each action.\<close>

fun promised :: "snapshot \<Rightarrow> action \<Rightarrow> bool" where
  "promised s RefreshOracle = (\<not> fresh s)"
| "promised s (LiquidateVictim v b) =
     (\<exists>px. fresh s \<and> oracle_price s = Some px \<and> v \<noteq> PROTOCOL_LP_SLOT \<and> is_used (snap_engine s) v
        \<and> position_basis_q (accounts (snap_engine s) ! v) \<noteq> 0 \<and> MIN_BOUNTY_THRESHOLD \<le> b
        \<and> b = sat_u128 (capital (accounts (snap_engine s) ! v) * LIQ_BOUNTY_BPS) div 10000
        \<and> est_equity (snap_engine s) px (accounts (snap_engine s) ! v)
            < as_i128 (keeper_mm_req (snap_engine s) px (accounts (snap_engine s) ! v)))"
| "promised s FundingCrank = (fresh s \<and> last_market_slot (snap_engine s) < now_slot s)"
| "promised s AdlResetCrank = (fresh s \<and>
     (side_mode_long (snap_engine s) = side_mode.DrainOnly \<and> oi_eff_long_q (snap_engine s) = 0
      \<or> side_mode_short (snap_engine s) = side_mode.DrainOnly \<and> oi_eff_short_q (snap_engine s) = 0))"
| "promised s GcCrank = (fresh s \<and> (\<exists>i. i \<noteq> PROTOCOL_LP_SLOT \<and> i < scan_max (snap_engine s) \<and> gc_eligible (snap_engine s) i))"
| "promised s Skip = (fresh s \<and> (\<forall>i. i \<noteq> PROTOCOL_LP_SLOT \<and> i < scan_max (snap_engine s) \<longrightarrow> \<not> gc_eligible (snap_engine s) i))"

lemma sat_u64_gt: "0 \<le> k \<Longrightarrow> sat_u64 x > k \<Longrightarrow> 0 < x"
  by (simp add: sat_u64_def)

lemma decide_promised:
  assumes "slab_shape (snap_engine s)" "0 \<le> funding_staleness_slots s"
  shows "promised s (decide s)"
proof (cases "fresh s")
  case False
  then show ?thesis by (auto simp: decide_def fresh_def split: option.split)
next
  case True
  then obtain px where px: "oracle_price s = Some px" by (auto simp: fresh_def)
  let ?e = "snap_engine s"
  let ?l = "first_action (liquidation_at ?e px) [1..<scan_max ?e]"
  let ?g = "first_action (gc_at ?e) [1..<scan_max ?e]"
  have nil: "scan_max ?e \<le> NIL" using assms(1) unfolding scan_max_def slab_shape_def by linarith
  have not_stale: "\<not> sat_u64 (now_slot s - oracle_last_update_slot s) > stale_slots s" using True by (simp add: fresh_def)
  show ?thesis
  proof (cases ?l)
    case (Some a)
    then obtain i where i: "i \<in> set [1..<scan_max ?e]" "liquidation_at ?e px i = Some a" by (blast dest: first_action_Some)
    then have "i mod 65536 = i" using nil by (simp add: NIL_def)
    moreover have "decide s = a" unfolding decide_def px option.case if_not_P[OF not_stale] Let_def Some by (rule refl)
    ultimately show ?thesis
      using liquidation_at_D[OF i(2)] i(1) True px by (auto simp: PROTOCOL_LP_SLOT_def)
  next
    case None
    have d: "decide s = (if sat_u64 (now_slot s - last_market_slot ?e) > funding_staleness_slots s then FundingCrank
                else if side_mode_long ?e = side_mode.DrainOnly \<and> oi_eff_long_q ?e = 0
                     \<or> side_mode_short ?e = side_mode.DrainOnly \<and> oi_eff_short_q ?e = 0 then AdlResetCrank
                else (case ?g of Some a \<Rightarrow> a | None \<Rightarrow> Skip))"
      unfolding decide_def px option.case if_not_P[OF not_stale] Let_def None by (rule refl)
    have f: "sat_u64 (now_slot s - last_market_slot ?e) > funding_staleness_slots s \<Longrightarrow> last_market_slot ?e < now_slot s"
      using sat_u64_gt[OF assms(2)] by fastforce
    have g: "promised s (case ?g of Some a \<Rightarrow> a | None \<Rightarrow> Skip)"
    proof (cases ?g)
      case None
      have "\<not> gc_eligible ?e i" if "i \<noteq> 0" "i < scan_max ?e" for i
        using None that by (auto simp: first_action_None gc_at_eligible split: if_splits)
      then show ?thesis unfolding None using True by (simp add: PROTOCOL_LP_SLOT_def)
    next
      case (Some a)
      then obtain i where "i \<in> set [1..<scan_max ?e]" "gc_at ?e i = Some a" by (blast dest: first_action_Some)
      then have "i \<noteq> 0" "i < scan_max ?e" "gc_eligible ?e i" "a = GcCrank" by (auto simp: gc_at_eligible split: if_splits)
      then show ?thesis unfolding Some using True by (auto simp: PROTOCOL_LP_SLOT_def)
    qed
    show ?thesis
    proof (cases "sat_u64 (now_slot s - last_market_slot ?e) > funding_staleness_slots s")
      case True
      then show ?thesis using d f \<open>fresh s\<close> by simp
    next
      case False
      then show ?thesis using d g True by simp
    qed
  qed
qed

text \<open>A funding crank the keeper sends is never refused for having nothing to do.\<close>

lemma funding_crank_runs:
  assumes "slab_shape (snap_engine s)" "0 \<le> funding_staleness_slots s" "decide s = FundingCrank" "engine_of ch = snap_engine s"
  shows "crank_funding (now_slot s) ch = sthen (engine_call (\<lambda>e. accrue_market_to (now_slot s) (last_oracle_price e) 0 e) ch)
     (\<lambda>_ ch. (Ok (), set_engine ((engine_of ch)\<lparr> current_slot := now_slot s, last_crank_slot := now_slot s \<rparr>) ch))"
  using decide_promised[OF assms(1,2)] assms(3,4) by (simp add: crank_funding_def)

end
