(* ===== verification/Chain_Samples.thy ===== *)
theory Chain_Samples
  imports Samples Market_Life Keeper
begin

text \<open>
  A concrete runtime, a running slab on it, and three calls of the wrapper program: a deposit, a
  withdrawal, and a withdrawal by somebody who has no account. The properties of the on-chain programs
  are instantiated on them. A handler is run by the simplifier step by step; the engine instruction
  inside it is evaluated on its own.
\<close>

section \<open>The runtime\<close>

definition key_of :: "8 word \<Rightarrow> pubkey" where "key_of b = replicate 32 b"

definition program_key :: pubkey where "program_key = key_of 5"

definition sample_host :: host where
  "sample_host = \<lparr> clock = Ok 6, rent_exempt = (\<lambda>_ _. Ok True),
     create_program_address = (\<lambda>_ _. Some (key_of 9)),
     unpack_token = (\<lambda>d. case d of [b] \<Rightarrow> Some (key_of 2, key_of b) | _ \<Rightarrow> None),
     invoke = (\<lambda>_. Ok ()), spl_token_id = key_of 7, system_program_id = key_of 0, engine_size = 8 \<rparr>"

definition wallet :: "8 word \<Rightarrow> account_info" where
  "wallet b = \<lparr> key = key_of b, program_owner = key_of 0, is_signer = True, is_writable = True, lamports = 10, data = [] \<rparr>"

text \<open>A token account of a wallet.\<close>

definition token_account :: "8 word \<Rightarrow> 8 word \<Rightarrow> account_info" where
  "token_account b holder = \<lparr> key = key_of b, program_owner = key_of 7, is_signer = False, is_writable = True,
     lamports = 10, data = [holder] \<rparr>"

definition plain :: "8 word \<Rightarrow> account_info" where
  "plain b = \<lparr> key = key_of b, program_owner = key_of 0, is_signer = False, is_writable = False, lamports = 10, data = [] \<rparr>"

definition sample_feed :: feed where
  "sample_feed = \<lparr> price_lamports_per_token = 1000, last_update_slot = 5, feed_mint = key_of 2, feed_source = key_of 8,
     source_kind_byte = 1, graduated = 0, feed_initialized = 1, ring_idx = 1, feed_pad = replicate 4 0,
     ring_buffer = 1000 # replicate 29 0 \<rparr>"

definition feed_account :: account_info where
  "feed_account = \<lparr> key = key_of 3, program_owner = key_of 15, is_signer = False, is_writable = True, lamports = 10,
     data = feed_bytes sample_feed \<rparr>"

definition live_header :: slab_header where
  "live_header = (header_new (key_of 2) (key_of 3) (key_of 4) 250 251)\<lparr> initialized := 1 \<rparr>"

definition running_slab :: "engine \<Rightarrow> cpi list \<Rightarrow> chain" where
  "running_slab e ts = \<lparr> slab_acc = \<lparr> slab_info = \<lparr> key = key_of 1, program_owner = program_key, is_signer = False,
       is_writable = True, lamports = 10, data = header_bytes live_header \<rparr>, data_len = 112, region = e \<rparr>, transfers = ts \<rparr>"

definition sample_args :: risk_params_args where
  "sample_args = \<lparr> ra_maintenance_margin_bps = 500, ra_initial_margin_bps = 1000, ra_trading_fee_bps = 10,
     ra_max_accounts = 4, ra_max_crank_staleness_slots = 1000, ra_liquidation_fee_bps = 50,
     ra_liquidation_fee_cap = 1000000, ra_min_liquidation_abs = 10, ra_min_initial_deposit = 100,
     ra_min_nonzero_mm_req = 10, ra_min_nonzero_im_req = 20, ra_insurance_floor = 0, ra_h_min = 1, ra_h_max = 100,
     ra_resolve_price_deviation_bps = 1000, ra_max_accrual_dt_slots = 1000, ra_max_abs_funding_e9_per_slot = 100,
     ra_min_funding_lifetime_slots = 1000000, ra_max_active_positions_per_side = 4 \<rparr>"

definition call_of :: "account_info list \<Rightarrow> percolator_instruction \<Rightarrow> wrapper_call" where
  "call_of accs ix = \<lparr> invoked_host = sample_host, invoked_accounts = accs, invoked_data = pack le_borsh ix \<rparr>"

definition deposit_call :: wrapper_call where
  "deposit_call = call_of [wallet 6, token_account 16 6, token_account 9 9, plain 2, plain 7, plain 0]
     (percolator_instruction.Deposit \<lparr> deposit_amount = 100000 \<rparr>)"
definition withdraw_call :: wrapper_call where
  "withdraw_call = call_of [wallet 6, token_account 16 6, token_account 9 9, plain 2, plain 7, plain 0]
     (percolator_instruction.Withdraw \<lparr> withdraw_amount = 5000 \<rparr>)"
definition stranger_call :: wrapper_call where
  "stranger_call = call_of [wallet 10, token_account 16 10, token_account 9 9, plain 2, plain 7, plain 0]
     (percolator_instruction.Withdraw \<lparr> withdraw_amount = 5000 \<rparr>)"

section \<open>Running the handlers\<close>

text \<open>Only the head of a sequence is simplified, so that an engine instruction is not unfolded before its
  arguments are known.\<close>

lemma sval_head: "r = r' \<Longrightarrow> sval r s k = sval r' s k" by simp
lemma sthen_head: "m = m' \<Longrightarrow> sthen m k = sthen m' k" by simp

lemma live_header_typed: "header_typed live_header"
  by (simp add: live_header_def header_new_def header_typed_def key_of_def)

lemma running_slab_fields [simp]:
  "engine_of (running_slab e ts) = e" "transfers (running_slab e ts) = ts" "data_len (slab_acc (running_slab e ts)) = 112"
  "set_engine e' (running_slab e ts) = running_slab e' ts" "(running_slab e ts)\<lparr> transfers := us \<rparr> = running_slab e us"
  "is_writable (slab_info (slab_acc (running_slab e ts)))" "key (slab_info (slab_acc (running_slab e ts))) = key_of 1"
  "program_owner (slab_info (slab_acc (running_slab e ts))) = program_key"
  by (simp_all add: running_slab_def set_engine_def)

lemma running_slab_header: "running (slab_acc (running_slab e ts)) live_header"
proof -
  have "read_header (slab_acc (running_slab e ts)) = Ok live_header"
    using header_bytes_len[OF live_header_typed] read_header_bytes[OF live_header_typed, of "[]"]
    by (simp add: read_header_def running_slab_def slice_to_def)
  moreover have "is_initialized live_header" by (simp add: live_header_def is_initialized_def)
  ultimately show ?thesis by (simp add: running_def)
qed

lemma running_slab_Ok [simp]: "running_header (slab_acc (running_slab e ts)) = Ok live_header"
  using running_slab_header by (simp add: running_header_Ok_iff)

lemma keys [simp]: "key_of a = key_of b \<longleftrightarrow> a = b"
  by (auto simp: key_of_def dest: arg_cong[where f = hd])

lemmas run_defs = guard_def require_def slab_checks_def slab_account_size_def HEADER_LEN_def checked_vault_def
  vault_address_def token_checks_def token_of_def sample_host_def wallet_def token_account_def plain_def
  live_header_def header_new_def engine_call_def invoke_cpi_def program_key_def

definition credited :: engine where "credited = snd (deposit_not_atomic 0 100000 6 sample)"

definition funded :: engine where "funded = snd (set_owner 0 (key_of 6) credited)"

definition paid :: engine where
  "paid = snd (withdraw_not_atomic 0 5000 1000 6 0 1 100 funded)"

lemma engine_runs:
  "deposit_not_atomic 0 100000 6 sample = (Ok (), credited)"
  "set_owner 0 (key_of 6) credited = (Ok (), funded)"
  "withdraw_not_atomic 0 5000 1000 6 0 1 100 funded = (Ok (), paid)"
  "choose_slot (key_of 6) sample = Ok (0, True)"
  "find_owner (key_of 6) funded = Some 0" "find_owner (key_of 10) paid = None"
  "last_oracle_price funded = 1000 \<and> h_min (params funded) = 1 \<and> h_max (params funded) = 100"
  by code_simp+

lemma deposit_run:
  "process_deposit sample_host program_key (invoked_accounts deposit_call) \<lparr> deposit_amount = 100000 \<rparr> (running_slab sample [])
     = (Ok (), running_slab funded [TokenTransfer (key_of 16) (key_of 9) (key_of 6) 100000 []])"
  by (simp add: process_deposit_def deposit_call_def call_of_def run_defs engine_runs cong: sval_head sthen_head)


lemma withdraw_run:
  "process_withdraw sample_host program_key (invoked_accounts withdraw_call) \<lparr> withdraw_amount = 5000 \<rparr> (running_slab funded ts)
     = (Ok (), running_slab paid (ts @ [TokenTransfer (key_of 9) (key_of 16) (key_of 9) 5000 [VAULT_SEED, key_of 1, [251]]]))"
  by (simp add: process_withdraw_def withdraw_call_def call_of_def run_defs vault_seeds_def engine_runs
    cong: sval_head sthen_head)

lemma stranger_run:
  "fst (process_withdraw sample_host program_key (invoked_accounts stranger_call) \<lparr> withdraw_amount = 5000 \<rparr> (running_slab paid ts))
     = Err (of_percolator EngineError)"
  by (simp add: process_withdraw_def stranger_call_def call_of_def run_defs engine_runs cong: sval_head sthen_head)

section \<open>A history of calls\<close>

lemma unpack_call:
  "instruction_ok ix \<Longrightarrow> unpack le_borsh (invoked_data (call_of accs ix)) = Ok ix"
  by (simp add: call_of_def le.unpack_Ok_iff)

lemma call_fields: "invoked_host (call_of accs ix) = sample_host" "invoked_accounts (call_of accs ix) = accs"
  by (simp_all add: call_of_def)

definition call_history :: "wrapper_call list" where
  "call_history = [deposit_call, withdraw_call, stranger_call]"

lemma call_history_typed: "list_all wrapper_call_typed call_history"
  by (simp add: call_history_def wrapper_call_typed_def deposit_call_def withdraw_call_def stranger_call_def call_of_def
    sample_host_def keys_ok_def wallet_def token_account_def plain_def key_of_def in_u64_def bounds)

lemma exec_deposit:
  "wrapper_exec le_borsh program_key deposit_call (running_slab sample [])
     = (Ok 100000, running_slab funded [TokenTransfer (key_of 16) (key_of 9) (key_of 6) 100000 []])"
  using deposit_run
  by (simp add: wrapper_exec_def wrapper_process_def deposit_call_def unpack_call call_fields in_u64_def bounds)

lemma exec_withdraw:
  "wrapper_exec le_borsh program_key withdraw_call (running_slab funded ts)
     = (Ok (- 5000), running_slab paid (ts @ [TokenTransfer (key_of 9) (key_of 16) (key_of 9) 5000 [VAULT_SEED, key_of 1, [251]]]))"
  using withdraw_run
  by (simp add: wrapper_exec_def wrapper_process_def withdraw_call_def unpack_call call_fields in_u64_def bounds)

lemma exec_stranger:
  "\<exists>s. wrapper_exec le_borsh program_key stranger_call (running_slab paid ts) = (Err (of_percolator EngineError), s)"
proof -
  obtain r s where x: "process_withdraw sample_host program_key (invoked_accounts stranger_call)
      \<lparr> withdraw_amount = 5000 \<rparr> (running_slab paid ts) = (r, s)" by fastforce
  then have "r = Err (of_percolator EngineError)" using stranger_run[of ts] by simp
  then show ?thesis
    using x by (simp add: wrapper_exec_def wrapper_process_def stranger_call_def unpack_call call_fields in_u64_def bounds)
qed

lemma call_history_run:
  "\<exists>ts. submit (wrapper_exec le_borsh program_key) call_history (running_slab sample [])
     = ([(deposit_call, 100000), (withdraw_call, - 5000)], running_slab paid ts)"
  using exec_stranger[of "[TokenTransfer (key_of 16) (key_of 9) (key_of 6) 100000 [],
      TokenTransfer (key_of 9) (key_of 16) (key_of 9) 5000 [VAULT_SEED, key_of 1, [251]]]"]
  by (auto simp: call_history_def exec_deposit exec_withdraw)

lemma running_sound:
  assumes "inv e" "market_mode e = Live" "vault e \<le> MAX_VAULT_TVL"
  shows "sound_chain (running_slab e ts)"
  using assms inv_D(1)[OF assms(1)] by (simp add: sound_chain_def slab_ok_def)

lemma sample_sound: "sound_chain (running_slab sample [])"
  by (rule running_sound[OF sample_inv sample_market(2)]) (simp add: sample_eval bounds)

lemma sample_clock: "okR (clock sample_host) in_u64"
  by (simp add: sample_host_def in_u64_def bounds)

section \<open>A price feed\<close>

definition source_account :: account_info where
  "source_account = \<lparr> key = key_of 8, program_owner = key_of 18, is_signer = False, is_writable = False, lamports = 10,
     data = replicate 8 0 @ to_le 8 1000000 @ to_le 8 1002 \<rparr>"

definition oracle_key_of :: pubkey where "oracle_key_of = key_of 15"

definition update_call :: oracle_call where
  "update_call = \<lparr> call_slot = 6, call_accounts = [source_account], call_data = [1] \<rparr>"

lemma feed_values:
  "ring_median (1000 # replicate 29 0) = Some 1000" "ring_median ((1000 # replicate 29 0)[1 := 1002]) = Some 1000"
  "read_source_price PumpSwap (data source_account) = Ok 1002"
  by code_simp+

lemma sample_feed_ok: "feed_ok sample_feed"
  using feed_values(1)
  by (simp add: feed_ok_def feed_typed_def sample_feed_def key_of_def in_u64_def RING_LEN_def source_kind_enum_def
    source_kind_from_u8_def list_all_iff bounds)

lemma feed_account_sound: "load_feed feed_account = Ok sample_feed" "sound_feed feed_account"
proof -
  have t: "feed_typed sample_feed" using sample_feed_ok by (simp add: feed_ok_def)
  show l: "load_feed feed_account = Ok sample_feed"
    using read_feed_bytes[OF t, of "[]"] length_feed_bytes[OF t]
    by (simp add: load_feed_def feed_account_def slice_to_def)
  then show "sound_feed feed_account" using sample_feed_ok by (simp add: sound_feed_def)
qed

lemma rthen_head: "r = r' \<Longrightarrow> rthen r k = rthen r' k" by simp

definition updated_feed :: feed where
  "updated_feed = sample_feed\<lparr> ring_buffer := (1000 # replicate 29 0)[1 := 1002], ring_idx := 2,
     price_lamports_per_token := 1000, last_update_slot := 6 \<rparr>"

lemma update_run: "\<exists>a. process_update oracle_key_of (Ok 6) [feed_account, source_account] = Ok a"
proof -
  have t: "feed_typed updated_feed"
    using sample_feed_ok
    by (auto simp: updated_feed_def feed_ok_def feed_typed_def sample_feed_def in_u64_def bounds list_all_iff
      dest!: subsetD[OF set_update_subset_insert])
  have n: "length (data feed_account) = FEED_LEN"
    using length_feed_bytes[of sample_feed] sample_feed_ok by (simp add: feed_ok_def feed_account_def)
  have st: "\<exists>a. store_feed updated_feed feed_account = Ok a"
    using feed_write_eq[OF t] n by (simp add: store_feed_def slice_to_def)
  have "process_update oracle_key_of (Ok 6) [feed_account, source_account] = store_feed updated_feed feed_account"
    using feed_account_sound(1) n feed_values
    by (simp add: process_update_def require_def feed_is_initialized_def source_kind_enum_def source_kind_from_u8_def
      updated_feed_def RING_LEN_def assertion_def oracle_key_of_def
      cong: rthen_head) (simp add: feed_account_def sample_feed_def source_account_def)
  then show ?thesis using st by simp
qed

lemma exec_update: "\<exists>a. oracle_exec le_borsh oracle_key_of update_call feed_account = (Ok 0, a)"
  using update_run by (auto simp: oracle_exec_def update_call_def oracle_process_def)

section \<open>Dust, and a snapshot for the keeper\<close>

lemma funded_inv: "inv funded" "market_mode funded = Live" "vault funded = 100000"
proof -
  have i: "inv credited" "market_mode credited = Live" "vault credited = 100000"
    using okP_D[OF engine_deposit[OF sample_inv, of 6 100000 0] engine_runs(1)]
    by (simp_all add: vault_moved_def in_u64_def sample_eval bounds)
  have "vault_moved credited 0 funded" using okP_D[OF engine_set_owner[OF i(1,2)] engine_runs(2)] by simp
  then show "inv funded" "market_mode funded = Live" "vault funded = 100000"
    using i(3) by (simp_all add: vault_moved_def)
qed

text \<open>A slot whose owner has withdrawn everything.\<close>

definition drained :: engine where "drained = snd (withdraw_not_atomic 0 100000 1000 6 0 1 100 funded)"

lemma drained_run:
  "withdraw_not_atomic 0 100000 1000 6 0 1 100 funded = (Ok (), drained)" "gc_eligible drained 0"
  "last_oracle_price funded = 1000" "h_min (params funded) = 1" "h_max (params funded) = 100"
  "live_clock 7 drained = Ok ()"
  by code_simp+

lemma drained_inv: "inv drained" "market_mode drained = Live"
  using okP_D[OF engine_withdraw[OF funded_inv(1), of 6 100000 0 0, unfolded drained_run(3-5)] drained_run(1)]
  by (simp_all add: vault_moved_def in_u64_def bounds)

text \<open>A market of a hundred slots in which only slot 90 is used, and its owner has left.\<close>

definition starved :: engine where
  "starved = (blank_engine 100 (sample_params\<lparr> max_accounts := 100 \<rparr>) 0 1000)\<lparr> used := [0, push_bit 26 1] \<rparr>"

lemma starved_facts:
  "gc_eligible starved 90" "max_accounts (params starved) = 100" "gc_cursor starved = 0"
  "list_all (\<lambda>j. \<not> gc_eligible starved j) [1..<33]"
  by code_simp+

definition sample_snapshot :: snapshot where
  "sample_snapshot = \<lparr> snap_slab = key_of 1, now_slot = 100, snap_engine = sample, oracle_price = Some 1000,
     oracle_last_update_slot = 90, stale_slots = 150, funding_staleness_slots = 64 \<rparr>"

end
