(* ===== verification/Limbs.thy ===== *)
theory Limbs
  imports WideSpec
begin

unbundle bit_operations_syntax

text \<open>
  128-bit halves and 64-bit limbs: the shared helpers of \<open>src/src/wide_math.rs\<close> on \<open>u128\<close>
  (\<open>widening_mul_u128\<close>, \<open>add_u128_carry\<close>, \<open>sub_u128_borrow\<close>), the packing of two \<open>u128\<close> into four
  \<open>u64\<close> limbs, and the standard operations they use (\<open>overflowing_add\<close>, \<open>overflowing_sub\<close>,
  \<open>checked_add\<close>, \<open>leading_zeros\<close>).
\<close>

type_synonym u64 = "64 word"
type_synonym u128 = "128 word"

section \<open>Standard operations on \<open>u128\<close>\<close>

definition overflowing_add :: "u128 \<Rightarrow> u128 \<Rightarrow> u128 \<times> bool" where
  "overflowing_add a b = (a + b, uint a + uint b \<ge> 2 ^ 128)"

definition overflowing_sub :: "u128 \<Rightarrow> u128 \<Rightarrow> u128 \<times> bool" where
  "overflowing_sub a b = (a - b, a < b)"

definition checked_add_u128 :: "u128 \<Rightarrow> u128 \<Rightarrow> u128 option" where
  "checked_add_u128 a b = (if uint a + uint b < 2 ^ 128 then Some (a + b) else None)"

definition of_flag :: "bool \<Rightarrow> u128" where
  "of_flag b = (if b then 1 else 0)"

fun bit_len :: "nat \<Rightarrow> nat" where
  "bit_len n = (if n = 0 then 0 else Suc (bit_len (n div 2)))"

declare bit_len.simps [simp del]

definition leading_zeros_u128 :: "u128 \<Rightarrow> nat" where
  "leading_zeros_u128 w = 128 - bit_len (unat w)"

section \<open>Helpers of the source\<close>

definition low64 :: "u128 \<Rightarrow> u128" where
  "low64 a = ucast (ucast a :: u64)"

definition widening_mul_u128 :: "u128 \<Rightarrow> u128 \<Rightarrow> u128 \<times> u128" where
  "widening_mul_u128 a b =
     (let a_lo = low64 a; a_hi = low64 (drop_bit 64 a);
          b_lo = low64 b; b_hi = low64 (drop_bit 64 b);
          ll = a_lo * b_lo; lh = a_lo * b_hi; hl = a_hi * b_lo; hh = a_hi * b_hi;
          (mid, mid_carry) = overflowing_add lh hl;
          (lo, lo_carry) = overflowing_add ll (push_bit 64 mid);
          hi = hh + drop_bit 64 mid + push_bit 64 (of_flag mid_carry) + of_flag lo_carry in
      (lo, hi))"

definition add_u128_carry :: "u128 \<Rightarrow> u128 \<Rightarrow> bool \<Rightarrow> u128 \<times> bool" where
  "add_u128_carry a b carry_in =
     (let (s1, c1) = overflowing_add a b;
          (s2, c2) = overflowing_add s1 (of_flag carry_in) in
      (s2, c1 \<or> c2))"

definition sub_u128_borrow :: "u128 \<Rightarrow> u128 \<Rightarrow> bool \<Rightarrow> u128 \<times> bool" where
  "sub_u128_borrow a b borrow_in =
     (let (d1, b1) = overflowing_sub a b;
          (d2, b2) = overflowing_sub d1 (of_flag borrow_in) in
      (d2, b1 \<or> b2))"

section \<open>What they compute\<close>

definition b128 :: int where "b128 = 340282366920938463463374607431768211456"

lemma b128_pow: "b128 = 2 ^ 128" by (simp add: b128_def)

lemma b128_pos: "0 < b128" by (simp add: b128_def)

lemma u128_bounds: "0 \<le> uint (a :: u128)" "uint a < b128"
  using uint_bounded[of a] by (simp_all add: b128_def)

lemma uint_add_u128: "uint (a + b :: u128) = (uint a + uint b) mod b128"
  by (simp add: uint_word_ariths b128_def take_bit_eq_mod)

lemma uint_sub_u128: "uint (a - b :: u128) = (uint a - uint b) mod b128"
  by (simp add: uint_word_ariths b128_def take_bit_eq_mod)

lemma uint_mul_u128: "uint (a * b :: u128) = (uint a * uint b) mod b128"
  by (simp add: uint_word_ariths b128_def take_bit_eq_mod)

lemma uint_flag: "uint (of_flag b) = of_bool b"
  by (simp add: of_flag_def)

lemma mod_b128: "0 \<le> x \<Longrightarrow> x < b128 \<Longrightarrow> x mod b128 = x"
  by (rule mod_pos_pos_trivial)

lemma mod_drop: "b128 \<le> x \<Longrightarrow> x < 2 * b128 \<Longrightarrow> x mod b128 = x - b128"
  using mod_b128[of "x - b128"] by (metis diff_ge_0_iff_ge diff_less_eq minus_mod_self2 mult_2)

lemma mod_lift: "- b128 \<le> x \<Longrightarrow> x < 0 \<Longrightarrow> x mod b128 = x + b128"
  using mod_b128[of "x + b128"] by (simp only: mod_add_self2)

lemma overflowing_add_value:
  assumes "overflowing_add a b = (s, c)"
  shows "uint a + uint b = uint s + of_bool c * b128"
proof -
  have s: "s = a + b" "c = (uint a + uint b \<ge> b128)"
    using assms by (auto simp: overflowing_add_def b128_pow)
  have r: "uint a + uint b < 2 * b128" "0 \<le> uint a + uint b"
    using u128_bounds(1)[of a] u128_bounds(2)[of a] u128_bounds(1)[of b] u128_bounds(2)[of b] by linarith+
  then show ?thesis
    unfolding s uint_add_u128
    by (cases "uint a + uint b \<ge> b128") (simp_all add: mod_drop mod_b128)
qed

lemma overflowing_sub_value:
  assumes "overflowing_sub a b = (d, c)"
  shows "uint a - uint b = uint d - of_bool c * b128"
proof -
  have s: "d = a - b" "c = (uint a < uint b)"
    using assms by (auto simp: overflowing_sub_def word_less_def)
  have r: "uint a - uint b < b128" "- b128 \<le> uint a - uint b"
    using u128_bounds(1)[of a] u128_bounds(2)[of a] u128_bounds(1)[of b] u128_bounds(2)[of b] by linarith+
  then show ?thesis
    unfolding s uint_sub_u128
    by (cases "uint a < uint b") (simp_all add: mod_lift mod_b128)
qed

lemma add_u128_carry_value:
  assumes "add_u128_carry a b ci = (s, co)"
  shows "uint a + uint b + of_bool ci = uint s + of_bool co * b128"
proof -
  obtain s1 c1 s2 c2 where r: "overflowing_add a b = (s1, c1)" "overflowing_add s1 (of_flag ci) = (s2, c2)"
    by (meson surj_pair)
  then have s: "s = s2" "co = (c1 \<or> c2)" using assms by (simp_all add: add_u128_carry_def)
  have e: "uint a + uint b + of_bool ci = uint s2 + (of_bool c1 + of_bool c2) * b128"
    using overflowing_add_value[OF r(1)] overflowing_add_value[OF r(2)]
    by (simp add: uint_flag algebra_simps)
  moreover have "\<not> (c1 \<and> c2)"
  proof
    assume "c1 \<and> c2"
    then have "uint a + uint b + of_bool ci = uint s2 + 2 * b128" using e by simp
    then show False
      using u128_bounds(2)[of a] u128_bounds(2)[of b] u128_bounds(1)[of s2] by (cases ci) auto
  qed
  ultimately show ?thesis unfolding s by (cases c1; cases c2) auto
qed

lemma sub_u128_borrow_value:
  assumes "sub_u128_borrow a b bi = (d, bo)"
  shows "uint a - uint b - of_bool bi = uint d - of_bool bo * b128"
proof -
  obtain s1 c1 s2 c2 where r: "overflowing_sub a b = (s1, c1)" "overflowing_sub s1 (of_flag bi) = (s2, c2)"
    by (meson surj_pair)
  then have s: "d = s2" "bo = (c1 \<or> c2)" using assms by (simp_all add: sub_u128_borrow_def)
  have e: "uint a - uint b - of_bool bi = uint s2 - (of_bool c1 + of_bool c2) * b128"
    using overflowing_sub_value[OF r(1)] overflowing_sub_value[OF r(2)]
    by (simp add: uint_flag algebra_simps)
  moreover have "\<not> (c1 \<and> c2)"
  proof
    assume "c1 \<and> c2"
    then have "uint a - uint b - of_bool bi = uint s2 - 2 * b128" using e by simp
    then show False
      using u128_bounds(1)[of a] u128_bounds(2)[of b] u128_bounds(2)[of s2] by (cases bi) auto
  qed
  ultimately show ?thesis unfolding s by (cases c1; cases c2) auto
qed

section \<open>The widening product\<close>

definition b64 :: int where "b64 = 18446744073709551616"

lemma b64_pow: "b64 = 2 ^ 64" by (simp add: b64_def)

lemma b64_square: "b128 = b64 * b64" by (simp add: b64_def b128_def)

lemma b64_pos: "0 < b64" by (simp add: b64_def)

lemma take_bit_uint128: "take_bit 128 (uint (a :: u128)) = uint a"
  by (rule bintr_uint) simp

lemma div_bound:
  fixes x :: int
  assumes "x < m * d" "0 < d"
  shows "x div d < m"
proof (rule ccontr)
  assume "\<not> x div d < m"
  then have "m * d \<le> x div d * d" using assms(2) by (intro mult_right_mono) auto
  also have "\<dots> \<le> x" using assms(2) by (metis div_mult_mod_eq le_add_same_cancel1 pos_mod_sign)
  finally show False using assms(1) by simp
qed

lemma uint_low64: "uint (low64 a) = uint a mod b64"
  unfolding low64_def b64_pow
  by (simp add: unsigned_ucast_eq unsigned_take_bit_eq take_bit_uint128) (simp add: take_bit_eq_mod)

lemma uint_high64: "uint (drop_bit 64 (a :: u128)) = uint a div b64"
  unfolding b64_pow by (simp add: unsigned_drop_bit_eq take_bit_uint128) (simp add: drop_bit_eq_div)

lemma uint_shift64: "uint (push_bit 64 (a :: u128)) = (uint a mod b64) * b64"
proof -
  have "uint (push_bit 64 a) = take_bit 128 (push_bit 64 (uint a))"
    by (simp only: unsigned_push_bit_eq) simp
  also have "\<dots> = push_bit 64 (take_bit 64 (uint a))"
    by (simp add: take_bit_push_bit)
  also have "\<dots> = (uint a mod b64) * b64"
    unfolding b64_pow by (simp only: push_bit_eq_mult take_bit_eq_mod)
  finally show ?thesis .
qed

lemma halves: "uint (a :: u128) = uint a mod b64 + b64 * (uint a div b64)"
  by simp

lemma half_bounds:
  "0 \<le> x mod b64" "x mod b64 < b64"
  "0 \<le> uint (a :: u128) div b64" "uint a div b64 < b64"
proof -
  show "0 \<le> x mod b64" "x mod b64 < b64" by (simp_all add: b64_pos)
  show "0 \<le> uint a div b64"
    by (rule pos_imp_zdiv_nonneg_iff[THEN iffD2, OF b64_pos u128_bounds(1)])
  show "uint a div b64 < b64"
    using u128_bounds(2)[of a] b64_pos unfolding b64_square by (rule div_bound)
qed

lemma uint_small_mult:
  fixes a b :: u128
  assumes "uint a < b64" "uint b < b64"
  shows "uint (a * b) = uint a * uint b"
proof -
  have "uint a * uint b < b64 * b64"
    using assms u128_bounds(1)[of a] u128_bounds(1)[of b] b64_pos by (intro mult_strict_mono) auto
  then show ?thesis
    unfolding uint_mul_u128 b64_square[symmetric]
    by (intro mod_b128) (auto simp: u128_bounds)
qed

lemma two_digits:
  fixes a0 a1 b0 b1 :: int
  assumes e: "(a0 + b64 * a1) * (b0 + b64 * b1) = lo + b128 * x"
    and b: "a0 + b64 * a1 < b128" "0 \<le> a0 + b64 * a1" "b0 + b64 * b1 < b128" "0 \<le> b0 + b64 * b1"
      "0 \<le> lo" "lo < b128"
  shows "0 \<le> x" "x < b128"
proof -
  have "0 \<le> lo + b128 * x" using e b by (metis mult_nonneg_nonneg)
  then show "0 \<le> x" using b(6) by (smt (verit) b128_pos mult_le_cancel_left1 mult_minus_right)
  have "lo + b128 * x < b128 * b128" unfolding e[symmetric] using b by (intro mult_strict_mono) auto
  then have "b128 * x < b128 * b128" using b(5) by linarith
  then show "x < b128" using b128_pos by simp
qed

lemma widening_mul_value:
  assumes "widening_mul_u128 a b = (l, h)"
  shows "uint a * uint b = uint l + b128 * uint h"
proof -
  define a0 a1 b0 b1 where d: "a0 = low64 a" "a1 = low64 (drop_bit 64 a)"
    "b0 = low64 b" "b1 = low64 (drop_bit 64 b)"
  obtain mid mc where m: "overflowing_add (a0 * b1) (a1 * b0) = (mid, mc)" by (meson surj_pair)
  obtain lo lc where lo: "overflowing_add (a0 * b0) (push_bit 64 mid) = (lo, lc)" by (meson surj_pair)
  have r: "l = lo" "h = a1 * b1 + drop_bit 64 mid + push_bit 64 (of_flag mc) + of_flag lc"
    using assms m lo by (simp_all add: widening_mul_u128_def d Let_def)
  have u: "uint a0 = uint a mod b64" "uint a1 = uint a div b64" "uint b0 = uint b mod b64" "uint b1 = uint b div b64"
    by (simp_all add: d uint_low64 uint_high64 half_bounds mod_pos_pos_trivial)
  have s: "uint a0 < b64" "uint a1 < b64" "uint b0 < b64" "uint b1 < b64"
    unfolding u by (simp_all add: half_bounds)
  have ab: "uint a = uint a0 + b64 * uint a1" "uint b = uint b0 + b64 * uint b1"
    unfolding u by (rule halves)+
  define x where "x = uint a1 * uint b1 + uint mid div b64 + b64 * of_bool mc + of_bool lc"
  have mv: "uint a0 * uint b1 + uint a1 * uint b0 = uint mid + of_bool mc * b128"
    using overflowing_add_value[OF m] by (simp add: uint_small_mult s)
  have lv: "uint a0 * uint b0 + (uint mid mod b64) * b64 = uint lo + of_bool lc * b128"
    using overflowing_add_value[OF lo] by (simp add: uint_small_mult s uint_shift64)
  have "uint a * uint b = uint a0 * uint b0 + b64 * (uint a0 * uint b1 + uint a1 * uint b0) + b128 * (uint a1 * uint b1)"
    unfolding ab b64_square by algebra
  also have "\<dots> = uint a0 * uint b0 + b64 * (uint mid mod b64 + b64 * (uint mid div b64) + of_bool mc * b128) + b128 * (uint a1 * uint b1)"
    unfolding mv by simp
  also have "\<dots> = uint lo + b128 * x"
    using lv unfolding x_def b64_square by algebra
  finally have e: "uint a * uint b = uint lo + b128 * x" .
  have xb: "0 \<le> x" "x < b128"
    using two_digits[OF e[unfolded ab]] u128_bounds[of a] u128_bounds[of b] u128_bounds[of lo]
    unfolding ab by blast+
  have "uint h = x mod b128"
  proof -
    have "uint (push_bit 64 (of_flag mc)) = b64 * of_bool mc"
      by (simp add: uint_shift64 uint_flag b64_def)
    then show ?thesis
      unfolding r uint_add_u128 uint_small_mult[OF s(2) s(4)] uint_high64 uint_flag x_def
      by (simp only: mod_simps)
  qed
  then show ?thesis using e xb by (simp add: r mod_b128)
qed

end
