(* ===== verification/U256.thy ===== *)
theory U256
  imports Limbs
begin

unbundle bit_operations_syntax

text \<open>
  The unsigned 256-bit integer \<open>U256\<close> of \<open>src/src/wide_math.rs\<close>: four \<open>u64\<close> limbs, least significant
  first, packed from and to two \<open>u128\<close> halves. Every operation is translated limb by limb; the
  lemmas \<open>u256_*_refines\<close> show that it computes the operation of \<open>WideSpec\<close> on the integer \<open>val256\<close>
  the limbs denote, including the failing branches.
\<close>

section \<open>Representation\<close>

datatype u256 = U256 u64 u64 u64 u64

definition u256_new :: "u128 \<Rightarrow> u128 \<Rightarrow> u256" where
  "u256_new l h = U256 (ucast l) (ucast (drop_bit 64 l)) (ucast h) (ucast (drop_bit 64 h))"

fun u256_lo :: "u256 \<Rightarrow> u128" where
  "u256_lo (U256 a b c d) = ucast a OR push_bit 64 (ucast b)"

fun u256_hi :: "u256 \<Rightarrow> u128" where
  "u256_hi (U256 a b c d) = ucast c OR push_bit 64 (ucast d)"

definition U256_ZERO :: u256 where "U256_ZERO = U256 0 0 0 0"
definition U256_ONE :: u256 where "U256_ONE = U256 1 0 0 0"
definition U256_TOP :: u256 where "U256_TOP = U256 (- 1) (- 1) (- 1) (- 1)"

definition u256_from_u128 :: "u128 \<Rightarrow> u256" where "u256_from_u128 v = u256_new v 0"
definition u256_from_u64 :: "u64 \<Rightarrow> u256" where "u256_from_u64 v = U256 v 0 0 0"

fun u256_is_zero :: "u256 \<Rightarrow> bool" where
  "u256_is_zero (U256 a b c d) = (a = 0 \<and> b = 0 \<and> c = 0 \<and> d = 0)"

fun u256_try_into_u128 :: "u256 \<Rightarrow> u128 option" where
  "u256_try_into_u128 (U256 a b c d) = (if c = 0 \<and> d = 0 then Some (u256_lo (U256 a b c d)) else None)"

definition val256 :: "u256 \<Rightarrow> int" where
  "val256 x = uint (u256_lo x) + b128 * uint (u256_hi x)"

lemma halves_new [simp]: "u256_lo (u256_new l h) = l" "u256_hi (u256_new l h) = h"
  by (rule bit_word_eqI; force simp: u256_new_def bit_simps)+

lemma no_high_bits [simp]: "\<not> bit (w :: u64) (64 + n)" "\<not> bit (v :: u128) (128 + n)"
  by (auto dest: bit_imp_le_length)

lemma new_halves [simp]: "u256_new (u256_lo x) (u256_hi x) = x"
  by (cases x) (auto simp: u256_new_def bit_simps intro!: bit_word_eqI)

lemma val256_new: "val256 (u256_new l h) = uint l + b128 * uint h"
  by (simp add: val256_def)

lemma val256_bounds: "0 \<le> val256 x" "val256 x < b128 * b128"
proof -
  show "0 \<le> val256 x"
    using u128_bounds(1) b128_pos by (simp add: val256_def)
  have "b128 * uint (u256_hi x) \<le> b128 * (b128 - 1)"
    using u128_bounds(2)[of "u256_hi x"] b128_pos by (intro mult_left_mono) auto
  then show "val256 x < b128 * b128"
    using u128_bounds(2)[of "u256_lo x"] by (simp add: val256_def right_diff_distrib)
qed

lemma U256_MAX_b128: "U256_MAX = b128 * b128 - 1"
  by (simp add: U256_MAX_def b128_def)

lemma in_u256_val: "in_u256 (val256 x)"
  using val256_bounds[of x] by (simp add: in_u256_def U256_MAX_b128)

lemma digits_unique:
  fixes l l' h h' :: int
  assumes "l + b128 * h = l' + b128 * h'" "0 \<le> l" "l < b128" "0 \<le> l'" "l' < b128"
  shows "l = l'" "h = h'"
proof -
  have "(l + b128 * h) mod b128 = (l' + b128 * h') mod b128" by (simp only: assms(1))
  then show e: "l = l'" using assms(2-5) by (simp add: mod_b128)
  then show "h = h'" using assms(1) b128_pos by simp
qed

lemma val256_inject [simp]: "val256 x = val256 y \<longleftrightarrow> x = y"
proof
  assume "val256 x = val256 y"
  then have "uint (u256_lo x) = uint (u256_lo y)" "uint (u256_hi x) = uint (u256_hi y)"
    unfolding val256_def using digits_unique u128_bounds by blast+
  then have "u256_lo x = u256_lo y" "u256_hi x = u256_hi y" by (simp_all add: word_uint_eq_iff)
  then show "x = y" by (metis new_halves)
qed simp

lemma val256_consts [simp]: "val256 U256_ZERO = 0" "val256 U256_ONE = 1" "val256 U256_TOP = U256_MAX"
  by (simp_all add: val256_def U256_ZERO_def U256_ONE_def U256_TOP_def U256_MAX_def b128_def) code_simp

lemma val256_from [simp]: "val256 (u256_from_u128 v) = uint v"
  by (simp add: u256_from_u128_def val256_new)

lemma u256_is_zero_iff: "u256_is_zero x \<longleftrightarrow> val256 x = 0"
proof -
  have "u256_is_zero x \<longleftrightarrow> x = U256_ZERO" by (cases x) (simp add: U256_ZERO_def)
  also have "\<dots> \<longleftrightarrow> val256 x = val256 U256_ZERO" by (simp only: val256_inject)
  finally show ?thesis by simp
qed

section \<open>Checked arithmetic\<close>

definition u256_checked_add :: "u256 \<Rightarrow> u256 \<Rightarrow> u256 option" where
  "u256_checked_add x y =
     (let (l, carry) = add_u128_carry (u256_lo x) (u256_lo y) False;
          (h, overflow) = add_u128_carry (u256_hi x) (u256_hi y) carry in
      if overflow then None else Some (u256_new l h))"

definition u256_checked_sub :: "u256 \<Rightarrow> u256 \<Rightarrow> u256 option" where
  "u256_checked_sub x y =
     (let (l, borrow) = sub_u128_borrow (u256_lo x) (u256_lo y) False;
          (h, underflow) = sub_u128_borrow (u256_hi x) (u256_hi y) borrow in
      if underflow then None else Some (u256_new l h))"

text \<open>A cross product of the schoolbook multiplication; it fails when it exceeds 128 bits.\<close>

definition u256_cross :: "u128 \<Rightarrow> u128 \<Rightarrow> u128 option" where
  "u256_cross h l =
     (if h \<noteq> 0 then let (c, overflow) = widening_mul_u128 l h in if overflow \<noteq> 0 then None else Some c
      else Some 0)"

definition u256_checked_mul :: "u256 \<Rightarrow> u256 \<Rightarrow> u256 option" where
  "u256_checked_mul x y =
     (if u256_hi x \<noteq> 0 \<and> u256_hi y \<noteq> 0 then None
      else
        let (prod_lo, prod_hi) = widening_mul_u128 (u256_lo x) (u256_lo y) in
        Option.bind (u256_cross (u256_hi y) (u256_lo x)) (\<lambda>cross1.
        Option.bind (u256_cross (u256_hi x) (u256_lo y)) (\<lambda>cross2.
        Option.bind (checked_add_u128 prod_hi cross1) (\<lambda>h.
        Option.bind (checked_add_u128 h cross2) (\<lambda>h.
        Some (u256_new prod_lo h))))))"

definition u256_overflowing_add :: "u256 \<Rightarrow> u256 \<Rightarrow> u256 \<times> bool" where
  "u256_overflowing_add x y =
     (let (l, carry) = add_u128_carry (u256_lo x) (u256_lo y) False;
          (h, overflow) = add_u128_carry (u256_hi x) (u256_hi y) carry in
      (u256_new l h, overflow))"

definition u256_overflowing_sub :: "u256 \<Rightarrow> u256 \<Rightarrow> u256 \<times> bool" where
  "u256_overflowing_sub x y =
     (let (l, borrow) = sub_u128_borrow (u256_lo x) (u256_lo y) False;
          (h, underflow) = sub_u128_borrow (u256_hi x) (u256_hi y) borrow in
      (u256_new l h, underflow))"

definition u256_saturating_add :: "u256 \<Rightarrow> u256 \<Rightarrow> u256" where
  "u256_saturating_add x y = (case u256_checked_add x y of Some z \<Rightarrow> z | None \<Rightarrow> U256_TOP)"

definition u256_saturating_sub :: "u256 \<Rightarrow> u256 \<Rightarrow> u256" where
  "u256_saturating_sub x y = (case u256_checked_sub x y of Some z \<Rightarrow> z | None \<Rightarrow> U256_ZERO)"

lemma val256_cases: "x = val256 z + of_bool c * (b128 * b128) \<Longrightarrow> c \<longleftrightarrow> U256_MAX < x"
  using val256_bounds[of z] by (cases c) (auto simp: U256_MAX_b128)

lemma overflowing_add_256:
  assumes "u256_overflowing_add x y = (z, c)"
  shows "val256 x + val256 y = val256 z + of_bool c * (b128 * b128)"
proof -
  obtain l k where l: "add_u128_carry (u256_lo x) (u256_lo y) False = (l, k)" by fastforce
  obtain h ov where h: "add_u128_carry (u256_hi x) (u256_hi y) k = (h, ov)" by fastforce
  have r: "z = u256_new l h" "c = ov" using assms by (simp_all add: u256_overflowing_add_def l h)
  show ?thesis
    using add_u128_carry_value[OF l, unfolded of_bool_eq(1) add_0_right] add_u128_carry_value[OF h]
    unfolding r val256_new unfolding val256_def by algebra
qed

lemma overflowing_sub_256:
  assumes "u256_overflowing_sub x y = (z, c)"
  shows "val256 x - val256 y = val256 z - of_bool c * (b128 * b128)"
proof -
  obtain l k where l: "sub_u128_borrow (u256_lo x) (u256_lo y) False = (l, k)" by fastforce
  obtain h ov where h: "sub_u128_borrow (u256_hi x) (u256_hi y) k = (h, ov)" by fastforce
  have r: "z = u256_new l h" "c = ov" using assms by (simp_all add: u256_overflowing_sub_def l h)
  show ?thesis
    using sub_u128_borrow_value[OF l, unfolded of_bool_eq(1) diff_0_right] sub_u128_borrow_value[OF h]
    unfolding r val256_new unfolding val256_def by algebra
qed

lemma checked_of_overflowing:
  "u256_checked_add x y = (let (z, c) = u256_overflowing_add x y in if c then None else Some z)"
  "u256_checked_sub x y = (let (z, c) = u256_overflowing_sub x y in if c then None else Some z)"
  by (simp_all add: u256_checked_add_def u256_overflowing_add_def u256_checked_sub_def
      u256_overflowing_sub_def Let_def split: prod.splits)

lemma u256_add_refines: "map_option val256 (u256_checked_add x y) = fit_u256 (val256 x + val256 y)"
proof -
  obtain z c where r: "u256_overflowing_add x y = (z, c)" by fastforce
  note e = overflowing_add_256[OF r]
  show ?thesis
    using val256_cases[OF e] e in_u256_val[of z] val256_bounds[of x] val256_bounds[of y]
    by (cases c) (auto simp: checked_of_overflowing r fit_u256_def in_u256_def)
qed

lemma u256_sub_refines: "map_option val256 (u256_checked_sub x y) = fit_u256 (val256 x - val256 y)"
proof -
  obtain z c where r: "u256_overflowing_sub x y = (z, c)" by fastforce
  note e = overflowing_sub_256[OF r]
  show ?thesis
    using e in_u256_val[of z] val256_bounds[of x] val256_bounds[of y] val256_bounds[of z]
    by (cases c) (auto simp: checked_of_overflowing r fit_u256_def in_u256_def U256_MAX_b128)
qed

lemma u256_saturating_values:
  "val256 (u256_saturating_add x y) = min U256_MAX (val256 x + val256 y)"
  "val256 (u256_saturating_sub x y) = max 0 (val256 x - val256 y)"
  using u256_add_refines[of x y] u256_sub_refines[of x y] val256_bounds[of x] val256_bounds[of y]
  by (auto simp: u256_saturating_add_def u256_saturating_sub_def fit_u256_def in_u256_def U256_MAX_b128
      split: option.splits if_splits)

lemma u128_pos: "(a :: u128) \<noteq> 0 \<Longrightarrow> 1 \<le> uint a"
  using u128_bounds(1)[of a] by (metis int_one_le_iff_zero_less order_le_less uint_0_iff)

lemma fit_digits:
  assumes "0 \<le> l" "l < b128" "0 \<le> m"
  shows "fit_u256 (l + b128 * m) = (if m < b128 then Some (l + b128 * m) else None)"
proof -
  have "m < b128 \<longleftrightarrow> l + b128 * m < b128 * b128"
  proof
    assume "m < b128"
    then have "b128 * m \<le> b128 * (b128 - 1)" using b128_pos by (intro mult_left_mono) auto
    then show "l + b128 * m < b128 * b128" using assms(2) by (simp add: right_diff_distrib)
  next
    assume "l + b128 * m < b128 * b128"
    then have "b128 * m < b128 * b128" using assms(1) by linarith
    then show "m < b128" using b128_pos by simp
  qed
  then show ?thesis using assms b128_pos by (simp add: fit_u256_def in_u256_def U256_MAX_b128)
qed

lemma u256_cross_value:
  "u256_cross h l = (if uint l * uint h < b128 then Some (l * h) else None)"
proof (cases "h = 0")
  case True
  then show ?thesis using b128_pos by (simp add: u256_cross_def)
next
  case False
  obtain c ov where r: "widening_mul_u128 l h = (c, ov)" by fastforce
  note v = widening_mul_value[OF r]
  have "ov = 0 \<longleftrightarrow> uint l * uint h < b128"
  proof
    assume "ov = 0"
    then show "uint l * uint h < b128" using v u128_bounds(2)[of c] by simp
  next
    assume "uint l * uint h < b128"
    then have "b128 * uint ov < b128 * 1" using v u128_bounds(1)[of c] by linarith
    then have "uint ov < 1" using b128_pos by (simp only: mult_less_cancel_left_pos)
    then show "ov = 0" using u128_pos[of ov] by (cases "ov = 0") auto
  qed
  moreover have "c = l * h" if "ov = 0"
    using v that u128_bounds[of c] by (simp add: word_uint_eq_iff uint_mul_u128 mod_b128)
  ultimately show ?thesis using False by (simp add: u256_cross_def r)
qed

lemma checked_add_value: "checked_add_u128 a b = (if uint a + uint b < b128 then Some (a + b) else None)"
  by (simp add: checked_add_u128_def b128_pow)

lemma uint_small_sum: "uint a + uint b < b128 \<Longrightarrow> uint (a + b :: u128) = uint a + uint b"
  using u128_bounds(1)[of a] u128_bounds(1)[of b] by (simp add: uint_add_u128 mod_b128)

lemma uint_small_prod: "uint a * uint b < b128 \<Longrightarrow> uint (a * b :: u128) = uint a * uint b"
  using u128_bounds(1)[of a] u128_bounds(1)[of b] by (simp add: uint_mul_u128 mod_b128)

lemma u256_mul_refines: "map_option val256 (u256_checked_mul x y) = fit_u256 (val256 x * val256 y)"
proof (cases "u256_hi x \<noteq> 0 \<and> u256_hi y \<noteq> 0")
  case True
  then have "1 \<le> uint (u256_hi x)" "1 \<le> uint (u256_hi y)"
    by (auto intro: u128_pos)
  then have "b128 * 1 \<le> b128 * uint (u256_hi x)" "b128 * 1 \<le> b128 * uint (u256_hi y)"
    using b128_pos by (simp_all only: mult_le_cancel_left_pos)
  then have "b128 \<le> val256 x" "b128 \<le> val256 y"
    using u128_bounds(1)[of "u256_lo x"] u128_bounds(1)[of "u256_lo y"] unfolding val256_def by linarith+
  then have "b128 * b128 \<le> val256 x * val256 y" using b128_pos by (intro mult_mono) auto
  then show ?thesis using True by (simp add: u256_checked_mul_def fit_u256_def in_u256_def U256_MAX_b128)
next
  case False
  define xl yl xh yh where d: "xl = uint (u256_lo x)" "yl = uint (u256_lo y)"
    "xh = uint (u256_hi x)" "yh = uint (u256_hi y)"
  obtain pl ph where p: "widening_mul_u128 (u256_lo x) (u256_lo y) = (pl, ph)" by fastforce
  have pv: "xl * yl = uint pl + b128 * uint ph" using widening_mul_value[OF p] by (simp add: d)
  have z: "xh * yh = 0" using False by (auto simp: d)
  have nn: "0 \<le> xl * yh" "0 \<le> yl * xh" by (simp_all add: d u128_bounds)
  have e: "val256 x * val256 y = uint pl + b128 * (uint ph + xl * yh + yl * xh)"
    using pv z unfolding val256_def d[symmetric] by algebra
  have f: "fit_u256 (val256 x * val256 y) = (if uint ph + xl * yh + yl * xh < b128
      then Some (uint pl + b128 * (uint ph + xl * yh + yl * xh)) else None)"
    unfolding e using nn by (intro fit_digits) (simp_all add: u128_bounds)
  have c: "u256_cross (u256_hi y) (u256_lo x) = (if xl * yh < b128 then Some (u256_lo x * u256_hi y) else None)"
    "u256_cross (u256_hi x) (u256_lo y) = (if yl * xh < b128 then Some (u256_lo y * u256_hi x) else None)"
    unfolding d by (rule u256_cross_value)+
  have s: "u256_checked_mul x y =
      Option.bind (if xl * yh < b128 then Some (u256_lo x * u256_hi y) else None) (\<lambda>c1.
      Option.bind (if yl * xh < b128 then Some (u256_lo y * u256_hi x) else None) (\<lambda>c2.
      Option.bind (checked_add_u128 ph c1) (\<lambda>h. Option.bind (checked_add_u128 h c2) (\<lambda>h. Some (u256_new pl h)))))"
    unfolding c[symmetric] u256_checked_mul_def if_not_P[OF False] p by simp
  show ?thesis
  proof (cases "xl * yh < b128 \<and> yl * xh < b128 \<and> uint ph + xl * yh < b128")
    case True
    then have u: "uint (u256_lo x * u256_hi y) = xl * yh" "uint (u256_lo y * u256_hi x) = yl * xh"
      by (simp_all add: d uint_small_prod)
    then have v: "uint (ph + u256_lo x * u256_hi y) = uint ph + xl * yh"
      using True by (simp add: uint_small_sum)
    show ?thesis
    proof (cases "uint ph + xl * yh + yl * xh < b128")
      case S: True
      then have "uint (ph + u256_lo x * u256_hi y + u256_lo y * u256_hi x) = uint ph + xl * yh + yl * xh"
        using u v by (simp add: uint_small_sum)
      then show ?thesis unfolding f s checked_add_value using True S u v by (simp add: val256_new)
    next
      case S: False
      then show ?thesis unfolding f s checked_add_value using True u v by simp
    qed
  next
    case F: False
    have "\<not> uint ph + xl * yh + yl * xh < b128"
    proof
      assume "uint ph + xl * yh + yl * xh < b128"
      then have "xl * yh < b128" "yl * xh < b128" "uint ph + xl * yh < b128"
        using nn u128_bounds(1)[of ph] by linarith+
      then show False using F by blast
    qed
    then show ?thesis unfolding f s checked_add_value using F by (auto simp: d uint_small_prod)
  qed
qed

section \<open>Shifts and bit operations\<close>

definition u256_shl :: "u256 \<Rightarrow> nat \<Rightarrow> u256" where
  "u256_shl x bits =
     (if bits \<ge> 256 then U256_ZERO
      else if bits = 0 then x
      else
        let l = u256_lo x; h = u256_hi x in
        if bits \<ge> 128 then u256_new 0 (push_bit (bits - 128) l)
        else u256_new (push_bit bits l) (push_bit bits h OR drop_bit (128 - bits) l))"

definition u256_shr :: "u256 \<Rightarrow> nat \<Rightarrow> u256" where
  "u256_shr x bits =
     (if bits \<ge> 256 then U256_ZERO
      else if bits = 0 then x
      else
        let l = u256_lo x; h = u256_hi x in
        if bits \<ge> 128 then u256_new (drop_bit (bits - 128) h) 0
        else u256_new (drop_bit bits l OR push_bit (128 - bits) h) (drop_bit bits h))"

definition u256_bitand :: "u256 \<Rightarrow> u256 \<Rightarrow> u256" where
  "u256_bitand x y = u256_new (u256_lo x AND u256_lo y) (u256_hi x AND u256_hi y)"

definition u256_bitor :: "u256 \<Rightarrow> u256 \<Rightarrow> u256" where
  "u256_bitor x y = u256_new (u256_lo x OR u256_lo y) (u256_hi x OR u256_hi y)"

lemma bit_val256:
  "bit (val256 x) n = (if n < 128 then bit (u256_lo x) n else bit (u256_hi x) (n - 128))"
proof -
  have v: "val256 x = horner_sum uint (2 ^ LENGTH(128)) [u256_lo x, u256_hi x]"
    by (simp add: val256_def b128_pow)
  consider "n < 128" | "128 \<le> n" "n < 256" | "256 \<le> n" by linarith
  then show ?thesis
  proof cases
    case 2
    then obtain m where "n = 128 + m" "m < 128" by (metis add_less_cancel_left le_Suc_ex numeral_Bit0)
    then have "n div 128 = 1" "n mod 128 = n - 128" by simp_all
    then show ?thesis unfolding v bit_horner_sum_uint_exp_iff using 2 by simp
  next
    case 3
    then have "2 \<le> n div 128" by linarith
    moreover have "\<not> bit (u256_hi x) (n - 128)" using 3 by (auto dest: bit_imp_le_length)
    ultimately show ?thesis unfolding v bit_horner_sum_uint_exp_iff using 3 by simp
  qed (unfold v bit_horner_sum_uint_exp_iff, simp)
qed

lemma bit_beyond [simp]: "128 \<le> n \<Longrightarrow> \<not> bit (w :: u128) n"
  by (auto dest: bit_imp_le_length)

lemma val256_bitwise:
  "val256 (u256_bitand x y) = val256 x AND val256 y"
  "val256 (u256_bitor x y) = val256 x OR val256 y"
  by (rule bit_eqI; simp add: bit_val256 u256_bitand_def u256_bitor_def bit_simps)+

lemma val256_shl: "val256 (u256_shl x k) = take_bit 256 (push_bit k (val256 x))"
proof (rule bit_eqI)
  fix n
  show "bit (val256 (u256_shl x k)) n = bit (take_bit 256 (push_bit k (val256 x))) n"
    by (cases "n < 256"; cases "n < 128"; cases "k \<ge> 256"; cases "k = 0"; cases "k \<ge> 128")
      (auto simp: u256_shl_def Let_def bit_val256 bit_simps ac_simps)
qed

lemma val256_shr: "val256 (u256_shr x k) = drop_bit k (val256 x)"
proof (rule bit_eqI)
  fix n
  show "bit (val256 (u256_shr x k)) n = bit (drop_bit k (val256 x)) n"
    by (cases "n < 256"; cases "n < 128"; cases "k \<ge> 256"; cases "k = 0"; cases "k \<ge> 128")
      (auto simp: u256_shr_def Let_def bit_val256 bit_simps ac_simps)
qed

section \<open>Comparison\<close>

datatype ordering = Less | Equal | Greater

definition u128_cmp :: "u128 \<Rightarrow> u128 \<Rightarrow> ordering" where
  "u128_cmp a b = (if a < b then Less else if a = b then Equal else Greater)"

definition u256_cmp :: "u256 \<Rightarrow> u256 \<Rightarrow> ordering" where
  "u256_cmp x y =
     (case u128_cmp (u256_hi x) (u256_hi y) of
        Equal \<Rightarrow> u128_cmp (u256_lo x) (u256_lo y)
      | ord \<Rightarrow> ord)"

definition ord_of :: "int \<Rightarrow> int \<Rightarrow> ordering" where
  "ord_of a b = (if a < b then Less else if a = b then Equal else Greater)"

lemma u128_cmp_ord: "u128_cmp a b = ord_of (uint a) (uint b)"
  by (simp add: u128_cmp_def ord_of_def word_less_def word_uint_eq_iff)

lemma digits_less:
  fixes l l' h h' :: int
  assumes "h < h'" "l < b128" "0 \<le> l'"
  shows "l + b128 * h < l' + b128 * h'"
proof -
  have "b128 * (h + 1) \<le> b128 * h'" using assms(1) b128_pos by (intro mult_left_mono) auto
  then show ?thesis using assms(2,3) by (simp add: distrib_left)
qed

lemma ord_of_digits:
  fixes l l' h h' :: int
  assumes "0 \<le> l" "l < b128" "0 \<le> l'" "l' < b128"
  shows "ord_of (l + b128 * h) (l' + b128 * h') = (case ord_of h h' of Equal \<Rightarrow> ord_of l l' | r \<Rightarrow> r)"
  using digits_less[of h h' l l'] digits_less[of h' h l' l] assms
  by (cases h h' rule: linorder_cases) (auto simp: ord_of_def)

lemma u256_cmp_ord: "u256_cmp x y = ord_of (val256 x) (val256 y)"
  unfolding u256_cmp_def u128_cmp_ord val256_def
  by (rule ord_of_digits[symmetric]) (rule u128_bounds)+

instantiation u256 :: linorder
begin

definition less_eq_u256 :: "u256 \<Rightarrow> u256 \<Rightarrow> bool" where
  "less_eq_u256 x y = (u256_cmp x y \<noteq> Greater)"

definition less_u256 :: "u256 \<Rightarrow> u256 \<Rightarrow> bool" where
  "less_u256 x y = (u256_cmp x y = Less)"

instance
proof
  fix x y z :: u256
  have le: "a \<le> b \<longleftrightarrow> val256 a \<le> val256 b" and less: "a < b \<longleftrightarrow> val256 a < val256 b" for a b :: u256
    by (auto simp: less_eq_u256_def less_u256_def u256_cmp_ord ord_of_def)
  show "(x < y) = (x \<le> y \<and> \<not> y \<le> x)" unfolding le less by linarith
  show "x \<le> x" unfolding le by simp
  show "x \<le> y \<Longrightarrow> y \<le> z \<Longrightarrow> x \<le> z" unfolding le by simp
  show "x \<le> y \<Longrightarrow> y \<le> x \<Longrightarrow> x = y" unfolding le by (simp flip: val256_inject)
  show "x \<le> y \<or> y \<le> x" unfolding le by linarith
qed

end

lemma u256_le_iff: "x \<le> y \<longleftrightarrow> val256 x \<le> val256 y"
  by (auto simp: less_eq_u256_def u256_cmp_ord ord_of_def)

lemma u256_less_iff: "x < y \<longleftrightarrow> val256 x < val256 y"
  by (auto simp: less_u256_def u256_cmp_ord ord_of_def)

section \<open>Leading zeros\<close>

definition leading_zeros_u256 :: "u256 \<Rightarrow> nat" where
  "leading_zeros_u256 v =
     (if u256_hi v \<noteq> 0 then leading_zeros_u128 (u256_hi v) else 128 + leading_zeros_u128 (u256_lo v))"

lemma bit_len_unfold: "n \<noteq> 0 \<Longrightarrow> bit_len n = Suc (bit_len (n div 2))"
  by (simp add: bit_len.simps[of n])

lemma bit_len_zero [simp]: "bit_len 0 = 0"
  by (simp add: bit_len.simps)

lemma bit_len_bounds: "n < 2 ^ bit_len n" "n \<noteq> 0 \<Longrightarrow> 2 ^ (bit_len n - 1) \<le> n"
proof -
  have "n < 2 ^ bit_len n \<and> (n \<noteq> 0 \<longrightarrow> 2 ^ (bit_len n - 1) \<le> n)"
  proof (induction n rule: bit_len.induct)
    case (1 n)
    show ?case
    proof (cases "n = 0")
      case False
      have u: "bit_len n = Suc (bit_len (n div 2))" by (rule bit_len_unfold[OF False])
      have lt: "n div 2 < 2 ^ bit_len (n div 2)" using 1 False by blast
      then have a: "n < 2 ^ Suc (bit_len (n div 2))" by simp
      have "2 ^ bit_len (n div 2) \<le> n"
      proof (cases "n div 2 = 0")
        case True
        then show ?thesis using False by simp
      next
        case F: False
        then have "2 ^ (bit_len (n div 2) - 1) \<le> n div 2" using 1 False by blast
        moreover have "bit_len (n div 2) = Suc (bit_len (n div 2) - 1)"
          using bit_len_unfold[OF F] by simp
        ultimately show ?thesis by (metis div_times_less_eq_dividend le_trans mult.commute mult_le_mono1 power_Suc)
      qed
      then show ?thesis using a u by simp
    qed simp
  qed
  then show "n < 2 ^ bit_len n" "n \<noteq> 0 \<Longrightarrow> 2 ^ (bit_len n - 1) \<le> n" by auto
qed

lemma bit_len_le: "n < 2 ^ k \<Longrightarrow> bit_len n \<le> k"
proof (rule ccontr)
  assume a: "n < 2 ^ k" "\<not> bit_len n \<le> k"
  then have n: "n \<noteq> 0" by (metis bit_len_zero le0)
  have "(2 :: nat) ^ k \<le> 2 ^ (bit_len n - 1)" using a by (intro power_increasing) auto
  then show False using bit_len_bounds(2)[OF n] a(1) by linarith
qed

lemma bit_len_shift: "h \<noteq> 0 \<Longrightarrow> l < 2 ^ k \<Longrightarrow> bit_len (l + 2 ^ k * h) = k + bit_len h"
proof (induction k arbitrary: l)
  case (Suc k)
  have "(l + 2 ^ Suc k * h) div 2 = l div 2 + 2 ^ k * h" by simp
  moreover have "l div 2 < 2 ^ k" using Suc.prems by (simp add: less_mult_imp_div_less mult.commute)
  moreover have "l + 2 ^ Suc k * h \<noteq> 0" using Suc.prems by simp
  ultimately show ?case using Suc.IH[OF Suc.prems(1), of "l div 2"] by (simp add: bit_len_unfold)
qed simp

definition bits_of :: "int \<Rightarrow> nat" where "bits_of x = bit_len (nat x)"

lemma bits_of_bounds: "0 \<le> x \<Longrightarrow> x < 2 ^ bits_of x" "0 < x \<Longrightarrow> 2 ^ (bits_of x - 1) \<le> x"
  using bit_len_bounds[of "nat x"] by (auto simp: bits_of_def nat_less_iff le_nat_iff)

lemma bits_of_le: "0 \<le> x \<Longrightarrow> x < 2 ^ k \<Longrightarrow> bits_of x \<le> k"
  unfolding bits_of_def by (rule bit_len_le) (simp add: nat_less_iff)

lemma bits_of_pos: "0 < x \<Longrightarrow> 0 < bits_of x"
  by (simp add: bits_of_def bit_len_unfold)

lemma bits_of_zero [simp]: "bits_of 0 = 0"
  by (simp add: bits_of_def)

lemma bits_of_digits:
  assumes "0 \<le> l" "l < b128" "0 < h"
  shows "bits_of (l + b128 * h) = 128 + bits_of h"
proof -
  have "nat (l + b128 * h) = nat l + 2 ^ 128 * nat h"
    using assms b128_pos by (simp add: nat_add_distrib nat_mult_distrib b128_pow nat_power_eq)
  then show ?thesis
    using bit_len_shift[of "nat h" "nat l" 128] assms by (simp add: bits_of_def b128_pow nat_less_iff)
qed

lemma bits_of_u128: "bits_of (uint (a :: u128)) \<le> 128"
  by (rule bits_of_le) (use u128_bounds[of a] in \<open>simp_all add: b128_pow\<close>)

lemma leading_zeros_u128_bits: "leading_zeros_u128 a = 128 - bits_of (uint a)"
  by (simp add: leading_zeros_u128_def bits_of_def)

lemma leading_zeros_u256_bits: "leading_zeros_u256 x = 256 - bits_of (val256 x)"
proof (cases "u256_hi x = 0")
  case True
  then show ?thesis
    using bits_of_u128[of "u256_lo x"] by (simp add: leading_zeros_u256_def val256_def leading_zeros_u128_bits)
next
  case False
  then have "0 < uint (u256_hi x)" using u128_pos[of "u256_hi x"] by linarith
  then show ?thesis
    using False bits_of_digits[OF u128_bounds, of "uint (u256_hi x)" "u256_lo x"]
    by (simp add: leading_zeros_u256_def val256_def leading_zeros_u128_bits)
qed

end
