(* ===== verification/Division.thy ===== *)
theory Division
  imports U256
begin

unbundle bit_operations_syntax

text \<open>
  Binary long division of \<open>src/src/wide_math.rs\<close>. The loop is shared: \<open>div_rem_u256\<close> and the
  division of a 512-bit product run it on their own comparison, subtraction, halving and bit
  setting. The locale \<open>long_division\<close> states what the loop relies on; it is interpreted here for
  \<open>U256\<close> and in \<open>U512\<close> for the 512-bit intermediate.
\<close>

section \<open>The loop\<close>

text \<open>
  \<open>long_div ge sub half set n r q d\<close>: the remaining \<open>n\<close> iterations, for the bits \<open>n - 1\<close> down to 0
  of the quotient, with remainder \<open>r\<close>, quotient \<open>q\<close> and shifted divisor \<open>d\<close>.
\<close>

fun long_div ::
  "('a \<Rightarrow> 'a \<Rightarrow> bool) \<Rightarrow> ('a \<Rightarrow> 'a \<Rightarrow> 'a) \<Rightarrow> ('a \<Rightarrow> 'a) \<Rightarrow> ('a \<Rightarrow> nat \<Rightarrow> 'a) \<Rightarrow> nat \<Rightarrow> 'a \<Rightarrow> 'a \<Rightarrow> 'a \<Rightarrow> 'a \<times> 'a"
where
  "long_div ge sub half put 0 r q d = (q, r)"
| "long_div ge sub half put (Suc i) r q d =
     (if ge r d then long_div ge sub half put i (sub r d) (put q i) (half d)
      else long_div ge sub half put i r q (half d))"

lemma aligned_fits:
  assumes "0 < D" "D \<le> x" "bits_of x \<le> n"
  shows "D * 2 ^ (bits_of x - bits_of D) < 2 ^ n"
proof -
  have le: "bits_of D \<le> bits_of x"
    using bits_of_le[of D "bits_of x"] bits_of_bounds(1)[of x] assms by simp
  have "D * 2 ^ (bits_of x - bits_of D) < 2 ^ bits_of D * 2 ^ (bits_of x - bits_of D)"
    using bits_of_bounds(1)[of D] assms(1) by simp
  also have "\<dots> = 2 ^ bits_of x" using le by (simp flip: power_add)
  also have "\<dots> \<le> 2 ^ n" using assms(3) by (intro power_increasing) auto
  finally show ?thesis .
qed

locale long_division =
  fixes ok :: "'a \<Rightarrow> bool" and val :: "'a \<Rightarrow> int" and width :: nat
    and ge :: "'a \<Rightarrow> 'a \<Rightarrow> bool" and sub :: "'a \<Rightarrow> 'a \<Rightarrow> 'a" and half :: "'a \<Rightarrow> 'a"
    and put :: "'a \<Rightarrow> nat \<Rightarrow> 'a"
  assumes ge_law: "ok x \<Longrightarrow> ok y \<Longrightarrow> ge x y \<longleftrightarrow> val y \<le> val x"
    and sub_law: "ok x \<Longrightarrow> ok y \<Longrightarrow> val y \<le> val x \<Longrightarrow> ok (sub x y) \<and> val (sub x y) = val x - val y"
    and half_law: "ok x \<Longrightarrow> ok (half x) \<and> val (half x) = val x div 2"
    and set_law: "ok x \<Longrightarrow> i < width \<Longrightarrow> ok (put x i) \<and> val (put x i) = val x OR 2 ^ i"
begin

lemma fresh_bit:
  assumes "ok q" "i < width" "2 ^ Suc i dvd val q"
  shows "val (put q i) = val q + 2 ^ i"
proof -
  obtain m where m: "val q = push_bit (Suc i) m"
    using assms(3) by (auto simp: push_bit_eq_mult dvd_def mult.commute)
  have "val q AND 2 ^ i = 0"
    by (rule bit_eqI) (auto simp: m bit_and_iff bit_push_bit_iff bit_exp_iff simp del: push_bit_Suc)
  then have "val q OR 2 ^ i = val q + 2 ^ i"
    by (metis add_0_right disjunctive_add_eq_or)
  then show ?thesis using set_law[OF assms(1,2)] by simp
qed

lemma loop_value:
  assumes "ok r" "ok q" "ok d" "n \<le> width" "0 < D" "0 \<le> val r" "val r < D * 2 ^ n"
    "2 ^ n dvd val q" "0 < n \<longrightarrow> val d = D * 2 ^ (n - 1)"
    "long_div ge sub half put n r q d = (q', r')"
  shows "ok q' \<and> ok r' \<and> val q' = val q + val r div D \<and> val r' = val r mod D"
  using assms(1-4) assms(6-)
proof (induction n arbitrary: r q d)
  case 0
  then show ?case by simp
next
  case (Suc n)
  have d: "val d = D * 2 ^ n" using Suc.prems(8) by simp
  have hd: "ok (half d)" "0 < n \<longrightarrow> val (half d) = D * 2 ^ (n - 1)"
    using half_law[OF Suc.prems(3)] d by (auto simp: gr0_conv_Suc)
  have dv: "2 ^ n dvd val q" using Suc.prems(7) by (rule dvd_trans[rotated]) (simp add: le_imp_power_dvd)
  show ?case
  proof (cases "ge r d")
    case True
    then have le: "D * 2 ^ n \<le> val r" using ge_law Suc.prems(1,3) d by simp
    have s: "ok (sub r d)" "val (sub r d) = val r - D * 2 ^ n"
      using sub_law[OF Suc.prems(1,3)] le d by auto
    have q: "ok (put q n)" "val (put q n) = val q + 2 ^ n"
      using set_law[OF Suc.prems(2)] fresh_bit[OF Suc.prems(2) _ Suc.prems(7)] Suc.prems(4) by auto
    have run: "long_div ge sub half put n (sub r d) (put q n) (half d) = (q', r')"
      using Suc.prems(9) True by simp
    have b: "0 \<le> val (sub r d)" "val (sub r d) < D * 2 ^ n" "2 ^ n dvd val (put q n)"
      using s q le Suc.prems(6) dv by auto
    have "val r = val (sub r d) + 2 ^ n * D" by (simp add: s)
    then have "val r div D = val (sub r d) div D + 2 ^ n" "val r mod D = val (sub r d) mod D"
      using assms(5) by simp_all
    then show ?thesis
      using Suc.IH[OF s(1) q(1) hd(1) _ b hd(2) run] Suc.prems(4) q by simp
  next
    case False
    then have lt: "val r < D * 2 ^ n" using ge_law Suc.prems(1,3) d by simp
    have run: "long_div ge sub half put n r q (half d) = (q', r')"
      using Suc.prems(9) False by simp
    show ?thesis
      using Suc.IH[OF Suc.prems(1,2) hd(1) _ Suc.prems(5) lt dv hd(2) run] Suc.prems(4) by simp
  qed
qed

text \<open>Run from the alignment of the leading bits, the loop computes quotient and remainder.\<close>

lemma aligned_value:
  assumes "ok num" "ok zero" "ok d" "val zero = 0" "0 < D" "D \<le> val num"
    "bits_of (val num) \<le> width" "s = bits_of (val num) - bits_of D" "val d = D * 2 ^ s"
    "long_div ge sub half put (Suc s) num zero d = (q, r)"
  shows "ok q \<and> ok r \<and> val q = val num div D \<and> val r = val num mod D"
proof -
  have pos: "0 < val num" using assms(5,6) by simp
  have le: "bits_of D \<le> bits_of (val num)"
    using bits_of_le[of D "bits_of (val num)"] bits_of_bounds(1)[of "val num"] assms(5,6) by simp
  have "val num < 2 ^ bits_of (val num)" using bits_of_bounds(1) pos by simp
  also have "bits_of (val num) = bits_of D - 1 + Suc s"
    using le bits_of_pos[OF assms(5)] assms(8) by linarith
  also have "(2 :: int) ^ \<dots> = 2 ^ (bits_of D - 1) * 2 ^ Suc s" by (rule power_add)
  also have "\<dots> \<le> D * 2 ^ Suc s" using bits_of_bounds(2)[OF assms(5)] by (intro mult_right_mono) auto
  finally have lt: "val num < D * 2 ^ Suc s" .
  have w: "Suc s \<le> width" using assms(7,8) bits_of_pos[OF assms(5)] bits_of_pos[OF pos] by linarith
  show ?thesis
    using loop_value[OF assms(1,2,3) w assms(5) _ lt _ _ assms(10)] pos assms(4,9) by simp
qed

end

section \<open>Division of \<open>U256\<close>\<close>

definition div_rem_u256 :: "u256 \<Rightarrow> u256 \<Rightarrow> ('e, u256 \<times> u256) res" where
  "div_rem_u256 num den =
     (if u256_is_zero den then Panic
      else if u256_is_zero num then Ok (U256_ZERO, U256_ZERO)
      else if num < den then Ok (U256_ZERO, num)
      else if u256_hi num = 0 \<and> u256_hi den = 0 then
        Ok (u256_from_u128 (u256_lo num div u256_lo den), u256_from_u128 (u256_lo num mod u256_lo den))
      else
        let shift = leading_zeros_u256 den - leading_zeros_u256 num in
        Ok (long_div (\<lambda>r d. d \<le> r) u256_saturating_sub (\<lambda>d. u256_shr d 1)
              (\<lambda>q i. u256_bitor q (u256_shl U256_ONE i)) (Suc shift) num U256_ZERO (u256_shl den shift)))"

definition u256_checked_div :: "u256 \<Rightarrow> u256 \<Rightarrow> ('e, u256 option) res" where
  "u256_checked_div x y =
     (if u256_is_zero y then Ok None else rthen (div_rem_u256 x y) (\<lambda>(q, r). Ok (Some q)))"

definition u256_checked_rem :: "u256 \<Rightarrow> u256 \<Rightarrow> ('e, u256 option) res" where
  "u256_checked_rem x y =
     (if u256_is_zero y then Ok None else rthen (div_rem_u256 x y) (\<lambda>(q, r). Ok (Some r)))"

lemma val256_pow: "0 \<le> val256 x" "val256 x < 2 ^ 256"
  using val256_bounds[of x] by (simp_all add: b128_def)

interpretation ld256: long_division "\<lambda>_. True" val256 256 "\<lambda>r d. d \<le> r" u256_saturating_sub
  "\<lambda>d. u256_shr d 1" "\<lambda>q i. u256_bitor q (u256_shl U256_ONE i)"
proof
  fix x y :: u256 and i :: nat
  show "(y \<le> x) = (val256 y \<le> val256 x)" by (rule u256_le_iff)
  show "val256 y \<le> val256 x \<Longrightarrow> True \<and> val256 (u256_saturating_sub x y) = val256 x - val256 y"
    by (simp add: u256_saturating_values)
  show "True \<and> val256 (u256_shr x 1) = val256 x div 2"
    by (simp add: val256_shr drop_bit_Suc)
  assume "i < 256"
  then have "take_bit 256 (push_bit i (1 :: int)) = 2 ^ i"
    by (simp add: push_bit_eq_mult take_bit_eq_mod mod_pos_pos_trivial power_strict_increasing del: power_numeral)
  then show "True \<and> val256 (u256_bitor x (u256_shl U256_ONE i)) = val256 x OR 2 ^ i"
    by (simp add: val256_bitwise val256_shl)
qed

lemma lo_small: "u256_hi x = 0 \<Longrightarrow> uint (u256_lo x) = val256 x"
  by (simp add: val256_def)

lemma div_rem_u256_value:
  assumes "0 < val256 den"
  shows "\<exists>q r. div_rem_u256 num den = Ok (q, r) \<and> val256 q = val256 num div val256 den
           \<and> val256 r = val256 num mod val256 den"
proof -
  have nz: "\<not> u256_is_zero den" using assms by (simp add: u256_is_zero_iff)
  consider (zero) "u256_is_zero num" | (less) "\<not> u256_is_zero num" "num < den"
    | (native) "\<not> u256_is_zero num" "\<not> num < den" "u256_hi num = 0 \<and> u256_hi den = 0"
    | (long) "\<not> u256_is_zero num" "\<not> num < den" "\<not> (u256_hi num = 0 \<and> u256_hi den = 0)"
    by blast
  then show ?thesis
  proof cases
    case zero
    then show ?thesis using nz by (simp add: div_rem_u256_def u256_is_zero_iff)
  next
    case less
    then show ?thesis using nz val256_pow(1)[of num] by (simp add: div_rem_u256_def u256_less_iff)
  next
    case native
    then show ?thesis
      using nz by (simp add: div_rem_u256_def uint_div uint_mod lo_small)
  next
    case long
    define s where "s = leading_zeros_u256 den - leading_zeros_u256 num"
    have le: "val256 den \<le> val256 num" using long(2) by (simp add: u256_less_iff)
    have b: "bits_of (val256 num) \<le> 256" "bits_of (val256 den) \<le> 256"
      by (rule bits_of_le; rule val256_pow)+
    have s: "s = bits_of (val256 num) - bits_of (val256 den)"
      using b unfolding s_def leading_zeros_u256_bits by linarith
    obtain q r where run: "long_div (\<lambda>r d. d \<le> r) u256_saturating_sub (\<lambda>d. u256_shr d 1)
        (\<lambda>q i. u256_bitor q (u256_shl U256_ONE i)) (Suc s) num U256_ZERO (u256_shl den s) = (q, r)"
      by fastforce
    have "val256 den * 2 ^ s < 2 ^ 256"
      using aligned_fits[OF assms le b(1)] s by simp
    then have sh: "val256 (u256_shl den s) = val256 den * 2 ^ s"
      using assms by (simp add: val256_shl push_bit_eq_mult take_bit_eq_mod mod_pos_pos_trivial del: power_numeral)
    have "val256 q = val256 num div val256 den \<and> val256 r = val256 num mod val256 den"
      using ld256.aligned_value[OF _ _ _ _ assms le b(1) s sh run] by simp
    then show ?thesis
      unfolding div_rem_u256_def if_not_P[OF nz] if_not_P[OF long(1)] if_not_P[OF long(2)] if_not_P[OF long(3)]
        Let_def s_def[symmetric] run by blast
  qed
qed

end
