(* ===== verification/U512.thy ===== *)
theory U512
  imports Division
begin

unbundle bit_operations_syntax

text \<open>
  The private 512-bit intermediate \<open>U512\<close> of \<open>src/src/wide_math.rs\<close>: four \<open>u128\<close> limbs, least
  significant first, with the schoolbook product of two \<open>U256\<close> and its long division by a \<open>U256\<close>.
  The array \<open>[u128; 4]\<close> is a list of length four; \<open>val512\<close> is the integer it denotes.
\<close>

section \<open>Definitions\<close>

type_synonym u512 = "u128 list"

definition U512_ZERO :: u512 where "U512_ZERO = [0, 0, 0, 0]"

definition u512_is_zero :: "u512 \<Rightarrow> bool" where
  "u512_is_zero x = (x ! 0 = 0 \<and> x ! 1 = 0 \<and> x ! 2 = 0 \<and> x ! 3 = 0)"

definition u512_from_u256 :: "u256 \<Rightarrow> u512" where
  "u512_from_u256 v = [u256_lo v, u256_hi v, 0, 0]"

definition mul_u256 :: "u256 \<Rightarrow> u256 \<Rightarrow> u512" where
  "mul_u256 a b =
     (let a0 = u256_lo a; a1 = u256_hi a; b0 = u256_lo b; b1 = u256_hi b;
          (r0, c0) = widening_mul_u128 a0 b0;
          (x1, x2) = widening_mul_u128 a0 b1;
          (y1, y2) = widening_mul_u128 a1 b0;
          (z2, z3) = widening_mul_u128 a1 b1;
          (r1, carry1a) = overflowing_add c0 x1;
          (r1, carry1b) = overflowing_add r1 y1;
          carry1 = of_flag carry1a + of_flag carry1b;
          (r2, carry2a) = overflowing_add x2 y2;
          (r2, carry2b) = overflowing_add r2 z2;
          (r2, carry2c) = overflowing_add r2 carry1;
          carry2 = of_flag carry2a + of_flag carry2b + of_flag carry2c;
          r3 = z3 + carry2 in
      [r0, r1, r2, r3])"

text \<open>The loops over the limbs, from index \<open>i - 1\<close> down to 0.\<close>

fun cmp_limbs :: "nat \<Rightarrow> u512 \<Rightarrow> u512 \<Rightarrow> ordering" where
  "cmp_limbs 0 x y = Equal"
| "cmp_limbs (Suc i) x y = (case u128_cmp (x ! i) (y ! i) of Equal \<Rightarrow> cmp_limbs i x y | ord \<Rightarrow> ord)"

definition cmp_u512 :: "u512 \<Rightarrow> u512 \<Rightarrow> ordering" where "cmp_u512 x y = cmp_limbs 4 x y"

fun lz_limbs :: "nat \<Rightarrow> u512 \<Rightarrow> nat" where
  "lz_limbs 0 x = 512"
| "lz_limbs (Suc i) x = (if x ! i \<noteq> 0 then (3 - i) * 128 + leading_zeros_u128 (x ! i) else lz_limbs i x)"

definition u512_leading_zeros :: "u512 \<Rightarrow> nat" where "u512_leading_zeros x = lz_limbs 4 x"

definition shl_u512 :: "u512 \<Rightarrow> nat \<Rightarrow> u512" where
  "shl_u512 x bits =
     (if bits \<ge> 512 then U512_ZERO
      else if bits = 0 then x
      else
        let word_shift = bits div 128; bit_shift = bits mod 128 in
        map (\<lambda>i. if i < word_shift then 0
                 else push_bit bit_shift (x ! (i - word_shift))
                   OR (if bit_shift > 0 \<and> i > word_shift
                       then drop_bit (128 - bit_shift) (x ! (i - word_shift - 1)) else 0)) [0..<4])"

definition shr_u512 :: "u512 \<Rightarrow> nat \<Rightarrow> u512" where
  "shr_u512 x bits =
     (if bits \<ge> 512 then U512_ZERO
      else if bits = 0 then x
      else
        let word_shift = bits div 128; bit_shift = bits mod 128 in
        map (\<lambda>i. if i < 4 - word_shift
                 then drop_bit bit_shift (x ! (i + word_shift))
                   OR (if bit_shift > 0 \<and> i + word_shift + 1 < 4
                       then push_bit (128 - bit_shift) (x ! (i + word_shift + 1)) else 0)
                 else 0) [0..<4])"

fun sub_limbs :: "u128 list \<Rightarrow> u128 list \<Rightarrow> bool \<Rightarrow> u128 list" where
  "sub_limbs (x # xs) (y # ys) borrow =
     (let (d1, b1) = overflowing_sub x y; (d2, b2) = overflowing_sub d1 (of_flag borrow) in
      d2 # sub_limbs xs ys (b1 \<or> b2))"
| "sub_limbs _ _ borrow = []"

definition sub_u512 :: "u512 \<Rightarrow> u512 \<Rightarrow> u512" where "sub_u512 x y = sub_limbs x y False"

definition u512_set_bit :: "u512 \<Rightarrow> nat \<Rightarrow> u512" where
  "u512_set_bit x i =
     (if i \<ge> 512 then x else x[i div 128 := x ! (i div 128) OR push_bit (i mod 128) 1])"

definition u512_try_into_u256 :: "u512 \<Rightarrow> u256 option" where
  "u512_try_into_u256 x = (if x ! 2 \<noteq> 0 \<or> x ! 3 \<noteq> 0 then None else Some (u256_new (x ! 0) (x ! 1)))"

definition checked_div_rem_by_u256 :: "u512 \<Rightarrow> u256 \<Rightarrow> ('e, (u256 \<times> u256) option) res" where
  "checked_div_rem_by_u256 x den =
     rthen (assertion (\<not> u256_is_zero den)) (\<lambda>_.
     if u512_is_zero x then Ok (Some (U256_ZERO, U256_ZERO))
     else
       let den_512 = u512_from_u256 den in
       if cmp_u512 x den_512 = Less then
         rthen (expect (u512_try_into_u256 x)) (\<lambda>r. Ok (Some (U256_ZERO, r)))
       else
         let num_lz = u512_leading_zeros x; den_lz = u512_leading_zeros den_512 in
         if den_lz < num_lz then
           rthen (expect (u512_try_into_u256 x)) (\<lambda>r. Ok (Some (U256_ZERO, r)))
         else
           let shift = den_lz - num_lz;
               (quotient, remainder) =
                 long_div (\<lambda>r d. cmp_u512 r d \<noteq> Less) sub_u512 (\<lambda>d. shr_u512 d 1) u512_set_bit
                   (Suc shift) x U512_ZERO (shl_u512 den_512 shift) in
           case u512_try_into_u256 quotient of
             None \<Rightarrow> Ok None
           | Some q \<Rightarrow> rthen (expect (u512_try_into_u256 remainder)) (\<lambda>r. Ok (Some (q, r))))"

definition div_rem_by_u256 :: "u512 \<Rightarrow> u256 \<Rightarrow> ('e, u256 \<times> u256) res" where
  "div_rem_by_u256 x den = rthen (checked_div_rem_by_u256 x den) expect"

section \<open>The value of a limb list\<close>

fun limbs_val :: "u128 list \<Rightarrow> int" where
  "limbs_val [] = 0"
| "limbs_val (x # xs) = uint x + b128 * limbs_val xs"

abbreviation val512 :: "u512 \<Rightarrow> int" where "val512 \<equiv> limbs_val"
abbreviation ok512 :: "u512 \<Rightarrow> bool" where "ok512 x \<equiv> length x = 4"

lemma limbs_horner: "limbs_val xs = horner_sum uint (2 ^ LENGTH(128)) xs"
  by (induction xs) (simp_all add: b128_pow)

lemma bit_limbs:
  assumes "j < 128"
  shows "bit (limbs_val xs) (128 * i + j) = (i < length xs \<and> bit (xs ! i) j)"
  unfolding limbs_horner bit_horner_sum_uint_exp_iff using assms by simp

lemma limbs_eqI:
  assumes "\<And>i j. j < 128 \<Longrightarrow> bit (limbs_val xs) (128 * i + j) = bit y (128 * i + j)"
  shows "limbs_val xs = y"
proof (rule bit_eqI)
  fix n
  show "bit (limbs_val xs) n = bit y n"
    using assms[of "n mod 128" "n div 128"] by simp
qed

lemma four_limbs:
  assumes "ok512 x"
  obtains a b c d where "x = [a, b, c, d]"
  using assms by (auto simp: numeral_eq_Suc length_Suc_conv)

lemma limbs_bounds: "0 \<le> limbs_val xs" "limbs_val xs < b128 ^ length xs"
proof -
  show "0 \<le> limbs_val xs" using b128_pos by (induction xs) (auto simp: u128_bounds)
  show "limbs_val xs < b128 ^ length xs"
  proof (induction xs)
    case (Cons x xs)
    then have "b128 * limbs_val xs \<le> b128 * (b128 ^ length xs - 1)" using b128_pos by (intro mult_left_mono) auto
    then show ?case using u128_bounds(2)[of x] by (simp add: right_diff_distrib)
  qed simp
qed

lemma val512_zero: "val512 U512_ZERO = 0" "ok512 U512_ZERO"
  by (simp_all add: U512_ZERO_def)

lemma val512_from_u256: "val512 (u512_from_u256 v) = val256 v" "ok512 (u512_from_u256 v)"
  by (simp_all add: u512_from_u256_def val256_def)

lemma ord_of_limbs: "ord_of (limbs_val (x # xs)) (limbs_val (y # ys))
    = (case ord_of (limbs_val xs) (limbs_val ys) of Equal \<Rightarrow> ord_of (uint x) (uint y) | r \<Rightarrow> r)"
  unfolding limbs_val.simps by (rule ord_of_digits) (rule u128_bounds)+

lemma cmp_u512_value:
  assumes "ok512 x" "ok512 y"
  shows "cmp_u512 x y = ord_of (val512 x) (val512 y)"
proof -
  obtain a b c d where x: "x = [a, b, c, d]" using assms(1) by (rule four_limbs)
  obtain a' b' c' d' where y: "y = [a', b', c', d']" using assms(2) by (rule four_limbs)
  have z: "ord_of (limbs_val []) (limbs_val []) = Equal" by (simp add: ord_of_def)
  have n: "4 = Suc (Suc (Suc (Suc 0)))" by simp
  show ?thesis
    unfolding x y ord_of_limbs z cmp_u512_def n
    by (simp add: u128_cmp_ord split: ordering.splits)
qed

lemma leading_zeros_limbs:
  assumes "ok512 x"
  shows "u512_leading_zeros x = 512 - bits_of (val512 x)"
proof -
  obtain a b c d where x: "x = [a, b, c, d]" using assms by (rule four_limbs)
  have n: "4 = Suc (Suc (Suc (Suc 0)))" by simp
  have p: "w \<noteq> 0 \<Longrightarrow> 0 < uint w" for w :: u128 using u128_pos[of w] by fastforce
  have q: "0 < b128 * y" if "0 < y" for y using that b128_pos by simp
  have dg: "0 < h \<Longrightarrow> bits_of (uint l + b128 * h) = 128 + bits_of h" for l :: u128 and h
    by (rule bits_of_digits) (rule u128_bounds)+
  have s: "0 < h \<Longrightarrow> 0 < uint l + b128 * h" for l :: u128 and h
    using u128_bounds(1)[of l] q[of h] by linarith
  consider "d \<noteq> 0" | "d = 0" "c \<noteq> 0" | "d = 0" "c = 0" "b \<noteq> 0" | "d = 0" "c = 0" "b = 0" by blast
  then show ?thesis
    by cases (use bits_of_u128[of a] bits_of_u128[of b] bits_of_u128[of c] bits_of_u128[of d] in
      \<open>simp_all add: x u512_leading_zeros_def n p s dg leading_zeros_u128_bits del: One_nat_def\<close>)
qed

section \<open>Shifts, bits and subtraction\<close>

lemma val512_bound: "ok512 x \<Longrightarrow> val512 x < 2 ^ 512"
  using limbs_bounds(2)[of x] by (simp add: b128_def)

lemma split_index:
  fixes i j ws bs :: nat
  assumes "j < 128" "bs < 128"
  shows "bs \<le> j \<Longrightarrow> ws \<le> i \<Longrightarrow> 128 * i + j - (128 * ws + bs) = 128 * (i - ws) + (j - bs)"
    "j < bs \<Longrightarrow> ws < i \<Longrightarrow> 128 * i + j - (128 * ws + bs) = 128 * (i - ws - 1) + (j + 128 - bs)"
    "128 * ws + bs \<le> 128 * i + j \<longleftrightarrow> ws < i \<or> (ws = i \<and> bs \<le> j)"
    "j + bs < 128 \<Longrightarrow> 128 * ws + bs + (128 * i + j) = 128 * (i + ws) + (j + bs)"
    "128 \<le> j + bs \<Longrightarrow> 128 * ws + bs + (128 * i + j) = 128 * (i + ws + 1) + (j + bs - 128)"
    "128 * i + j < 512 \<longleftrightarrow> i < 4"
  using assms by (auto simp: algebra_simps)

lemma val512_shl:
  assumes "ok512 x" "k < 512"
  shows "val512 (shl_u512 x k) = take_bit 512 (push_bit k (val512 x))" "ok512 (shl_u512 x k)"
proof -
  show "ok512 (shl_u512 x k)" using assms by (simp add: shl_u512_def Let_def)
  show "val512 (shl_u512 x k) = take_bit 512 (push_bit k (val512 x))"
  proof (cases "k = 0")
    case True
    then show ?thesis
      using assms(1) limbs_bounds(1)[of x] val512_bound[OF assms(1)]
      by (simp add: shl_u512_def take_bit_int_eq_self)
  next
    case False
    define ws bs where w: "ws = k div 128" "bs = k mod 128"
    have k: "k = 128 * ws + bs" and bs: "bs < 128" by (simp_all add: w)
    show ?thesis
    proof (rule limbs_eqI)
      fix i j :: nat assume j: "j < 128"
      note sp = split_index[OF j bs]
      show "bit (val512 (shl_u512 x k)) (128 * i + j)
          = bit (take_bit 512 (push_bit k (val512 x))) (128 * i + j)"
      proof (cases "i < 4")
        case i: True
        have L: "bit (val512 (shl_u512 x k)) (128 * i + j) = (ws \<le> i \<and>
            (bs \<le> j \<and> bit (x ! (i - ws)) (j - bs)
              \<or> 0 < bs \<and> ws < i \<and> bit (x ! (i - ws - 1)) (128 - bs + j)))"
          using i j bs False assms by (auto simp: shl_u512_def Let_def bit_limbs bit_simps simp flip: w)
        have R: "bit (take_bit 512 (push_bit k (val512 x))) (128 * i + j)
            = (128 * ws + bs \<le> 128 * i + j \<and> bit (val512 x) (128 * i + j - (128 * ws + bs)))"
          using i j by (auto simp: bit_take_bit_iff bit_push_bit_iff k)
        show ?thesis
        proof (cases "bs \<le> j")
          case True
          have "\<not> bit (x ! (i - ws - 1)) (128 - bs + j)" using True by simp
          moreover have "bit (val512 x) (128 * i + j - (128 * ws + bs)) = bit (x ! (i - ws)) (j - bs)" if "ws \<le> i"
            unfolding sp(1)[OF True that] using i j assms(1) by (subst bit_limbs) auto
          ultimately show ?thesis unfolding L R sp(3) using True by auto
        next
          case F: False
          have "j + 128 - bs = 128 - bs + j" "j + 128 - bs < 128" using F bs by linarith+
          moreover have "bit (val512 x) (128 * i + j - (128 * ws + bs)) = bit (x ! (i - ws - 1)) (j + 128 - bs)" if "ws < i"
            unfolding sp(2)[OF _ that, OF F[unfolded not_le]] bit_limbs[OF calculation(2)] using i assms(1) by auto
          ultimately show ?thesis unfolding L R sp(3) using F by auto
        qed
      next
        case False
        then show ?thesis using j assms by (auto simp: bit_limbs bit_take_bit_iff shl_u512_def Let_def)
      qed
    qed
  qed
qed

lemma val512_shr:
  assumes "ok512 x" "k < 512"
  shows "val512 (shr_u512 x k) = drop_bit k (val512 x)" "ok512 (shr_u512 x k)"
proof -
  show "ok512 (shr_u512 x k)" using assms by (simp add: shr_u512_def Let_def)
  show "val512 (shr_u512 x k) = drop_bit k (val512 x)"
  proof (cases "k = 0")
    case True
    then show ?thesis by (simp add: shr_u512_def)
  next
    case False
    define ws bs where w: "ws = k div 128" "bs = k mod 128"
    have k: "k = 128 * ws + bs" and bs: "bs < 128" by (simp_all add: w)
    show ?thesis
    proof (rule limbs_eqI)
      fix i j :: nat assume j: "j < 128"
      note sp = split_index[OF j bs]
      have L: "bit (val512 (shr_u512 x k)) (128 * i + j) = (i + ws < 4 \<and>
          (bit (x ! (i + ws)) (bs + j)
            \<or> 0 < bs \<and> i + ws + 1 < 4 \<and> 128 - bs \<le> j \<and> bit (x ! (i + ws + 1)) (j - (128 - bs))))"
        using j bs False assms
        by (cases "i + ws < 4") (auto simp: shr_u512_def Let_def bit_limbs bit_simps less_diff_conv simp flip: w)
      have R: "bit (drop_bit k (val512 x)) (128 * i + j) = bit (val512 x) (128 * ws + bs + (128 * i + j))"
        by (simp add: bit_drop_bit_eq k)
      show "bit (val512 (shr_u512 x k)) (128 * i + j) = bit (drop_bit k (val512 x)) (128 * i + j)"
      proof (cases "j + bs < 128")
        case True
        then have "\<not> (0 < bs \<and> 128 - bs \<le> j)" by linarith
        then show ?thesis
          unfolding L R sp(4)[OF True] bit_limbs[OF True] using assms(1) by (auto simp: add.commute)
      next
        case F: False
        then have g: "128 \<le> j + bs" by simp
        have b: "j + bs - 128 < 128" "j - (128 - bs) = j + bs - 128" "128 - bs \<le> j" "0 < bs" "\<not> bit (x ! (i + ws)) (bs + j)"
          using g bs j by auto
        show ?thesis
          unfolding L R sp(5)[OF g] bit_limbs[OF b(1)] using assms(1) b by auto
      qed
    qed
  qed
qed

lemma sub_limbs_value:
  "length xs = length ys \<Longrightarrow> \<exists>bo. limbs_val xs - limbs_val ys - of_bool b
      = limbs_val (sub_limbs xs ys b) - of_bool bo * b128 ^ length xs \<and> length (sub_limbs xs ys b) = length xs"
proof (induction xs ys arbitrary: b rule: list_induct2)
  case Nil
  then show ?case by (intro exI[of _ b]) simp
next
  case (Cons x xs y ys)
  obtain d1 b1 d2 b2 where r: "overflowing_sub x y = (d1, b1)" "overflowing_sub d1 (of_flag b) = (d2, b2)"
    by (meson surj_pair)
  then have s: "sub_u128_borrow x y b = (d2, b1 \<or> b2)" by (simp add: sub_u128_borrow_def)
  note v = sub_u128_borrow_value[OF s]
  obtain bo where o: "limbs_val xs - limbs_val ys - of_bool (b1 \<or> b2)
      = limbs_val (sub_limbs xs ys (b1 \<or> b2)) - of_bool bo * b128 ^ length xs"
    "length (sub_limbs xs ys (b1 \<or> b2)) = length xs"
    using Cons.IH by blast
  have e: "sub_limbs (x # xs) (y # ys) b = d2 # sub_limbs xs ys (b1 \<or> b2)" by (simp add: r)
  have "limbs_val (x # xs) - limbs_val (y # ys) - of_bool b
      = uint d2 + b128 * (limbs_val xs - limbs_val ys - of_bool (b1 \<or> b2))"
    using v unfolding limbs_val.simps by algebra
  also have "\<dots> = limbs_val (d2 # sub_limbs xs ys (b1 \<or> b2)) - of_bool bo * b128 ^ length (x # xs)"
    unfolding o(1) limbs_val.simps list.size by (simp add: algebra_simps)
  finally show ?case using o(2) unfolding e by (intro exI[of _ bo]) simp
qed

lemma sub_u512_value:
  assumes "ok512 x" "ok512 y" "val512 y \<le> val512 x"
  shows "ok512 (sub_u512 x y) \<and> val512 (sub_u512 x y) = val512 x - val512 y"
proof -
  obtain bo where o: "val512 x - val512 y - of_bool False
      = val512 (sub_limbs x y False) - of_bool bo * b128 ^ length x" "length (sub_limbs x y False) = length x"
    using sub_limbs_value[of x y False] assms by auto
  have "\<not> bo"
  proof
    assume bo
    then have "0 \<le> val512 (sub_limbs x y False) - b128 ^ length (sub_limbs x y False)" using o assms by simp
    then show False using limbs_bounds(2)[of "sub_limbs x y False"] by linarith
  qed
  then show ?thesis using o assms(1) by (simp add: sub_u512_def)
qed

lemma set_bit_value:
  assumes "ok512 x" "k < 512"
  shows "ok512 (u512_set_bit x k) \<and> val512 (u512_set_bit x k) = val512 x OR 2 ^ k"
proof
  show "ok512 (u512_set_bit x k)" using assms by (simp add: u512_set_bit_def)
  show "val512 (u512_set_bit x k) = val512 x OR 2 ^ k"
  proof (rule limbs_eqI)
    fix i j :: nat assume j: "j < 128"
    have p: "k = 128 * i + j \<longleftrightarrow> i = k div 128 \<and> j = k mod 128"
      "128 * i + j = k \<longleftrightarrow> i = k div 128 \<and> j = k mod 128"
      using j by auto
    have "k div 128 < 4" using assms(2) by (simp add: div_less_iff_less_mult)
    then show "bit (val512 (u512_set_bit x k)) (128 * i + j) = bit (val512 x OR 2 ^ k) (128 * i + j)"
      using assms j unfolding bit_or_iff bit_exp_iff p
      by (auto simp: u512_set_bit_def bit_limbs bit_or_iff bit_push_bit_iff bit_1_iff bit_exp_iff nth_list_update)
  qed
qed

section \<open>The product\<close>

lemma uint_flags2: "uint (of_flag a + of_flag b) = of_bool a + of_bool b"
  by (cases a; cases b; simp add: of_flag_def)

lemma uint_flags3: "uint (of_flag a + of_flag b + of_flag c) = of_bool a + of_bool b + of_bool c"
  by (cases a; cases b; cases c; simp add: of_flag_def)

lemma top_limb:
  fixes r0 r1 r2 t :: int
  assumes "r0 + b128 * (r1 + b128 * (r2 + b128 * t)) < b128 ^ 4" "0 \<le> r0" "0 \<le> r1" "0 \<le> r2"
  shows "t < b128"
proof -
  have "b128 ^ 3 * t \<le> r0 + b128 * (r1 + b128 * (r2 + b128 * t))"
    using assms(2-) b128_pos by (simp add: algebra_simps power3_eq_cube)
  then have "b128 ^ 3 * t < b128 ^ 3 * b128" using assms(1) by (simp add: power_numeral_reduce)
  then show ?thesis using b128_pos by simp
qed

lemma mul_u256_value: "val512 (mul_u256 a b) = val256 a * val256 b" "ok512 (mul_u256 a b)"
proof -
  define a0 a1 b0 b1 where d: "a0 = u256_lo a" "a1 = u256_hi a" "b0 = u256_lo b" "b1 = u256_hi b"
  obtain r0 c0 where p00: "widening_mul_u128 a0 b0 = (r0, c0)" by fastforce
  obtain x1 x2 where p01: "widening_mul_u128 a0 b1 = (x1, x2)" by fastforce
  obtain y1 y2 where p10: "widening_mul_u128 a1 b0 = (y1, y2)" by fastforce
  obtain z2 z3 where p11: "widening_mul_u128 a1 b1 = (z2, z3)" by fastforce
  obtain t1 k1 where s1: "overflowing_add c0 x1 = (t1, k1)" by fastforce
  obtain r1 k2 where s2: "overflowing_add t1 y1 = (r1, k2)" by fastforce
  obtain t2 k3 where s3: "overflowing_add x2 y2 = (t2, k3)" by fastforce
  obtain t3 k4 where s4: "overflowing_add t2 z2 = (t3, k4)" by fastforce
  obtain r2 k5 where s5: "overflowing_add t3 (of_flag k1 + of_flag k2) = (r2, k5)" by fastforce
  have r: "mul_u256 a b = [r0, r1, r2, z3 + (of_flag k3 + of_flag k4 + of_flag k5)]"
    by (simp add: mul_u256_def d[symmetric] p00 p01 p10 p11 s1 s2 s3 s4 s5)
  define t where "t = uint z3 + (of_bool k3 + of_bool k4 + of_bool k5)"
  note E = widening_mul_value[OF p00] widening_mul_value[OF p01] widening_mul_value[OF p10] widening_mul_value[OF p11]
    overflowing_add_value[OF s1] overflowing_add_value[OF s2] overflowing_add_value[OF s3] overflowing_add_value[OF s4]
    overflowing_add_value[OF s5, unfolded uint_flags2]
  have e: "val256 a * val256 b = uint r0 + b128 * (uint r1 + b128 * (uint r2 + b128 * t))"
  proof -
    have "uint r1 = uint c0 + uint x1 + uint y1 - b128 * (of_bool k1 + of_bool k2)" using E by algebra
    moreover have "uint r2 = uint x2 + uint y2 + uint z2 + of_bool k1 + of_bool k2 - b128 * (of_bool k3 + of_bool k4 + of_bool k5)"
      using E by algebra
    ultimately have "uint r0 + b128 * (uint r1 + b128 * (uint r2 + b128 * t))
        = (uint r0 + b128 * uint c0) + b128 * (uint x1 + b128 * uint x2) + b128 * (uint y1 + b128 * uint y2)
            + b128 * b128 * (uint z2 + b128 * uint z3)"
      unfolding t_def by algebra
    also have "\<dots> = val256 a * val256 b"
      unfolding val256_def d[symmetric] E(1-4)[symmetric] by algebra
    finally show ?thesis by simp
  qed
  have "val256 a * val256 b < (b128 * b128) * (b128 * b128)"
    using val256_bounds[of a] val256_bounds[of b] by (intro mult_strict_mono) auto
  then have "t < b128"
    unfolding e by (intro top_limb[of "uint r0" "uint r1" "uint r2" t]) (simp_all add: u128_bounds power4_eq_xxxx)
  then have "uint (z3 + (of_flag k3 + of_flag k4 + of_flag k5)) = t"
    unfolding t_def by (subst uint_small_sum) (simp_all add: uint_flags3)
  then show "val512 (mul_u256 a b) = val256 a * val256 b" unfolding r e by simp
  show "ok512 (mul_u256 a b)" unfolding r by simp
qed

section \<open>The division\<close>

lemma try_into_value:
  assumes "ok512 x"
  shows "map_option val256 (u512_try_into_u256 x) = fit_u256 (val512 x)"
proof -
  obtain a b c d where x: "x = [a, b, c, d]" using assms by (rule four_limbs)
  define m where "m = uint b + b128 * (uint c + b128 * uint d)"
  have nn: "0 \<le> uint c + b128 * uint d" using u128_bounds(1) b128_pos by simp
  have v: "val512 x = uint a + b128 * m" by (simp add: x m_def)
  have z: "m < b128 \<longleftrightarrow> uint c + b128 * uint d = 0"
  proof
    assume "m < b128"
    then have "b128 * (uint c + b128 * uint d) < b128 * 1" using u128_bounds(1)[of b] unfolding m_def by linarith
    then show "uint c + b128 * uint d = 0" using nn b128_pos by (simp only: mult_less_cancel_left_pos)
  qed (use u128_bounds(2)[of b] in \<open>simp add: m_def\<close>)
  have cd: "uint c + b128 * uint d = 0 \<longleftrightarrow> c = 0 \<and> d = 0"
    using u128_bounds(1)[of c] u128_bounds(1)[of d] b128_pos
    by (auto simp: add_nonneg_eq_0_iff uint_0_iff)
  have "fit_u256 (val512 x) = (if m < b128 then Some (val512 x) else None)"
    unfolding v using nn u128_bounds b128_pos by (intro fit_digits) (auto simp: m_def)
  then show ?thesis unfolding z cd by (auto simp: u512_try_into_u256_def x val256_new)
qed

lemma u512_is_zero_iff: "ok512 x \<Longrightarrow> u512_is_zero x \<longleftrightarrow> val512 x = 0"
proof -
  assume "ok512 x"
  then obtain a b c d where x: "x = [a, b, c, d]" by (rule four_limbs)
  have nn: "0 \<le> uint y + b128 * z \<and> (uint y + b128 * z = 0 \<longleftrightarrow> y = 0 \<and> z = 0)" if "0 \<le> z" for y :: u128 and z
    using that u128_bounds(1)[of y] b128_pos by (auto simp: add_nonneg_eq_0_iff uint_0_iff)
  show ?thesis
    using nn[of 0 d] nn[of "uint d" c] nn[of "uint c + b128 * uint d" b]
      nn[of "uint b + b128 * (uint c + b128 * uint d)" a]
    by (auto simp: u512_is_zero_def x)
qed

interpretation ld512: long_division ok512 val512 512 "\<lambda>r d. cmp_u512 r d \<noteq> Less" sub_u512
  "\<lambda>d. shr_u512 d 1" u512_set_bit
proof
  fix x y :: u512 and i :: nat
  assume x: "ok512 x"
  show "ok512 y \<Longrightarrow> (cmp_u512 x y \<noteq> Less) = (val512 y \<le> val512 x)"
    using x by (auto simp: cmp_u512_value ord_of_def)
  show "ok512 y \<Longrightarrow> val512 y \<le> val512 x \<Longrightarrow> ok512 (sub_u512 x y) \<and> val512 (sub_u512 x y) = val512 x - val512 y"
    by (rule sub_u512_value[OF x])
  show "ok512 (shr_u512 x 1) \<and> val512 (shr_u512 x 1) = val512 x div 2"
    using val512_shr[OF x, of 1] by (simp add: drop_bit_Suc)
  show "i < 512 \<Longrightarrow> ok512 (u512_set_bit x i) \<and> val512 (u512_set_bit x i) = val512 x OR 2 ^ i"
    by (rule set_bit_value[OF x])
qed

lemma try_into_small:
  assumes "ok512 x" "val512 x < b128 * b128"
  shows "\<exists>r. u512_try_into_u256 x = Some r \<and> val256 r = val512 x"
  using try_into_value[OF assms(1)] assms(2) limbs_bounds(1)[of x]
  by (auto simp: fit_u256_def in_u256_def U256_MAX_b128)

definition pair_val :: "u256 \<times> u256 \<Rightarrow> int \<times> int" where
  "pair_val = map_prod val256 val256"

lemma checked_div_rem_value:
  assumes x: "ok512 x" and den: "0 < val256 den"
  shows "map_res id (map_option pair_val) (checked_div_rem_by_u256 x den)
     = Ok (map_option (\<lambda>q. (q, val512 x mod val256 den)) (fit_u256 (val512 x div val256 den)))"
proof -
  define D where "D = val256 den"
  have nz: "\<not> u256_is_zero den" using den by (simp add: u256_is_zero_iff)
  have d5: "val512 (u512_from_u256 den) = D" "ok512 (u512_from_u256 den)" by (simp_all add: val512_from_u256 D_def)
  have Db: "0 < D" "D < b128 * b128" using den val256_bounds(2)[of den] by (simp_all add: D_def)
  have x0: "0 \<le> val512 x" by (rule limbs_bounds)
  have fit0: "fit_u256 0 = Some 0" by (simp add: fit_u256_def in_u256_def U256_MAX_def)
  have cmp: "cmp_u512 x (u512_from_u256 den) = Less \<longleftrightarrow> val512 x < D"
    using cmp_u512_value[OF x d5(2)] d5(1) by (simp add: ord_of_def)
  consider (zero) "u512_is_zero x" | (less) "\<not> u512_is_zero x" "val512 x < D"
    | (long) "\<not> u512_is_zero x" "\<not> val512 x < D" by blast
  then show ?thesis
  proof cases
    case zero
    then show ?thesis
      using nz u512_is_zero_iff[OF x]
      by (simp add: checked_div_rem_by_u256_def assertion_def pair_val_def fit0)
  next
    case less
    then obtain r where "u512_try_into_u256 x = Some r" "val256 r = val512 x"
      using try_into_small[OF x] Db by auto
    then show ?thesis
      using less nz cmp x0
      by (simp add: checked_div_rem_by_u256_def assertion_def pair_val_def D_def Let_def fit0)
  next
    case long
    define s where "s = u512_leading_zeros (u512_from_u256 den) - u512_leading_zeros x"
    have le: "D \<le> val512 x" using long by simp
    have b: "bits_of (val512 x) \<le> 512" "bits_of D \<le> 512"
      using bits_of_le[of D 512] bits_of_le[OF x0 val512_bound[OF x]] Db by (simp_all add: b128_def)
    have bl: "bits_of D \<le> bits_of (val512 x)"
      using bits_of_le[of D "bits_of (val512 x)"] bits_of_bounds(1)[OF x0] Db le by linarith
    have lz: "u512_leading_zeros (u512_from_u256 den) = 512 - bits_of D" "u512_leading_zeros x = 512 - bits_of (val512 x)"
      using leading_zeros_limbs[OF d5(2)] leading_zeros_limbs[OF x] d5(1) by simp_all
    have s: "s = bits_of (val512 x) - bits_of D" unfolding s_def lz using b by linarith
    have s5: "s < 512" using s b bits_of_pos[OF Db(1)] by linarith
    have nlt: "\<not> u512_leading_zeros (u512_from_u256 den) < u512_leading_zeros x"
      unfolding lz using bl by linarith
    have "D * 2 ^ s < 2 ^ 512" unfolding s by (rule aligned_fits[OF Db(1) le b(1)])
    then have sh: "val512 (shl_u512 (u512_from_u256 den) s) = D * 2 ^ s" "ok512 (shl_u512 (u512_from_u256 den) s)"
      using val512_shl[OF d5(2) s5] d5(1) Db(1)
      by (simp_all add: push_bit_eq_mult take_bit_int_eq_self del: power_numeral)
    obtain q r where run: "long_div (\<lambda>r d. cmp_u512 r d \<noteq> Less) sub_u512 (\<lambda>d. shr_u512 d 1) u512_set_bit
        (Suc s) x U512_ZERO (shl_u512 (u512_from_u256 den) s) = (q, r)" by fastforce
    have v: "ok512 q \<and> ok512 r \<and> val512 q = val512 x div D \<and> val512 r = val512 x mod D"
      by (rule ld512.aligned_value[OF x val512_zero(2) sh(2) val512_zero(1) Db(1) le b(1) s sh(1) run])
    have "val512 r < b128 * b128" using v Db pos_mod_bound[of D "val512 x"] by linarith
    then obtain r' where r': "u512_try_into_u256 r = Some r'" "val256 r' = val512 x mod D"
      using try_into_small[of r] v by auto
    have c: "cmp_u512 x (u512_from_u256 den) \<noteq> Less" using cmp long by blast
    have e: "checked_div_rem_by_u256 x den = (case u512_try_into_u256 q of None \<Rightarrow> Ok None
        | Some q \<Rightarrow> rthen (expect (u512_try_into_u256 r)) (\<lambda>r. Ok (Some (q, r))))"
      unfolding checked_div_rem_by_u256_def Let_def if_not_P[OF long(1)] if_not_P[OF c] if_not_P[OF nlt]
        s_def[symmetric] run using nz by (simp add: assertion_def)
    have t: "fit_u256 (val512 x div val256 den) = map_option val256 (u512_try_into_u256 q)"
      using try_into_value[of q] v by (simp add: D_def)
    show ?thesis
      using r'(2) unfolding e t r'(1) by (simp add: pair_val_def D_def split: option.splits)
  qed
qed

lemma div_rem_by_u256_value:
  assumes "ok512 x" "0 < val256 den"
  shows "map_res id pair_val (div_rem_by_u256 x den)
     = rthen (expect (fit_u256 (val512 x div val256 den))) (\<lambda>q. Ok (q, val512 x mod val256 den))"
  using checked_div_rem_value[OF assms, where ?'a = 'a]
  by (cases "checked_div_rem_by_u256 x den :: ('a, _) res"; cases "in_u256 (val512 x div val256 den)")
    (auto simp: div_rem_by_u256_def fit_u256_def)

end
