(* ===== verification/I256.thy ===== *)
theory I256
  imports U256
begin

unbundle bit_operations_syntax

text \<open>
  The signed 256-bit integer \<open>I256\<close> of \<open>src/src/wide_math.rs\<close>: four \<open>u64\<close> limbs in two's
  complement. An \<open>i128\<close> is a 128-bit word read with \<open>sint\<close>. \<open>vali\<close> is the integer the limbs denote; the
  lemmas \<open>i256_*_refines\<close> show that every checked operation computes the operation of \<open>WideSpec\<close>,
  overflow included, and that the product has the bound of \<open>i256_mul\<close>.
\<close>

section \<open>Representation\<close>

datatype i256 = I256 u64 u64 u64 u64

fun i256_lo :: "i256 \<Rightarrow> u128" where
  "i256_lo (I256 a b c d) = ucast a OR push_bit 64 (ucast b)"

fun i256_hi :: "i256 \<Rightarrow> u128" where
  "i256_hi (I256 a b c d) = ucast c OR push_bit 64 (ucast d)"

definition from_lo_hi :: "u128 \<Rightarrow> u128 \<Rightarrow> i256" where
  "from_lo_hi l h = I256 (ucast l) (ucast (drop_bit 64 l)) (ucast h) (ucast (drop_bit 64 h))"

definition as_raw_u256 :: "i256 \<Rightarrow> u256" where
  "as_raw_u256 x = u256_new (i256_lo x) (i256_hi x)"

definition from_raw_u256 :: "u256 \<Rightarrow> i256" where
  "from_raw_u256 v = from_lo_hi (u256_lo v) (u256_hi v)"

definition I256_ZERO :: i256 where "I256_ZERO = I256 0 0 0 0"
definition I256_ONE :: i256 where "I256_ONE = I256 1 0 0 0"
definition I256_MINUS_ONE :: i256 where "I256_MINUS_ONE = I256 (- 1) (- 1) (- 1) (- 1)"
definition I256_TOP :: i256 where "I256_TOP = I256 (- 1) (- 1) (- 1) (drop_bit 1 (- 1))"
definition I256_BOT :: i256 where "I256_BOT = I256 0 0 0 (push_bit 63 1)"

definition i256_from_i128 :: "u128 \<Rightarrow> i256" where
  "i256_from_i128 v = from_lo_hi v (if sint v < 0 then - 1 else 0)"

definition i256_from_u128 :: "u128 \<Rightarrow> i256" where
  "i256_from_u128 v = from_lo_hi v 0"

definition i256_try_into_i128 :: "i256 \<Rightarrow> u128 option" where
  "i256_try_into_i128 x =
     (let lo_sign_ext = (if sint (i256_lo x) < 0 then - 1 else 0) in
      if i256_hi x = lo_sign_ext then Some (i256_lo x) else None)"

fun i256_is_zero :: "i256 \<Rightarrow> bool" where
  "i256_is_zero (I256 a b c d) = (a = 0 \<and> b = 0 \<and> c = 0 \<and> d = 0)"

fun i256_is_negative :: "i256 \<Rightarrow> bool" where
  "i256_is_negative (I256 a b c d) = (drop_bit 63 d \<noteq> 0)"

definition i256_is_positive :: "i256 \<Rightarrow> bool" where
  "i256_is_positive x = (\<not> i256_is_zero x \<and> \<not> i256_is_negative x)"

definition i256_signum :: "i256 \<Rightarrow> int" where
  "i256_signum x = (if i256_is_zero x then 0 else if i256_is_negative x then - 1 else 1)"

text \<open>Two's complement negation, as \<open>abs_u256\<close> and \<open>checked_neg\<close> compute it.\<close>

definition neg_halves :: "u128 \<Rightarrow> u128 \<Rightarrow> u128 \<times> u128" where
  "neg_halves l h =
     (let (neg_lo, carry) = overflowing_add (NOT l) 1 in (neg_lo, NOT h + (if carry then 1 else 0)))"

definition abs_u256 :: "i256 \<Rightarrow> ('e, u256) res" where
  "abs_u256 x =
     (if i256_is_negative x then
        rthen (assertion (x \<noteq> I256_BOT)) (\<lambda>_.
        let (l, h) = neg_halves (i256_lo x) (i256_hi x) in Ok (u256_new l h))
      else Ok (u256_new (i256_lo x) (i256_hi x)))"

definition i256_checked_neg :: "i256 \<Rightarrow> i256 option" where
  "i256_checked_neg x =
     (if x = I256_BOT then None
      else let (l, h) = neg_halves (i256_lo x) (i256_hi x) in Some (from_lo_hi l h))"

definition i256_checked_add :: "i256 \<Rightarrow> i256 \<Rightarrow> i256 option" where
  "i256_checked_add x y =
     (let (l, carry) = overflowing_add (i256_lo x) (i256_lo y);
          (h, overflow1) = overflowing_add (i256_hi x) (i256_hi y);
          (h, overflow2) = overflowing_add h (if carry then 1 else 0);
          result = from_lo_hi l h in
      if i256_is_negative x = i256_is_negative y \<and> i256_is_negative result \<noteq> i256_is_negative x then None
      else Some result)"

definition i256_checked_sub :: "i256 \<Rightarrow> i256 \<Rightarrow> i256 option" where
  "i256_checked_sub x y =
     (case i256_checked_neg y of
        Some n \<Rightarrow> i256_checked_add x n
      | None \<Rightarrow>
          let (l, borrow) = overflowing_sub (i256_lo x) (i256_lo y);
              (h, underflow1) = overflowing_sub (i256_hi x) (i256_hi y);
              (h, underflow2) = overflowing_sub h (if borrow then 1 else 0);
              result = from_lo_hi l h in
          if i256_is_negative x \<noteq> True \<and> i256_is_negative result \<noteq> i256_is_negative x then None
          else Some result)"

definition i256_saturating_add :: "i256 \<Rightarrow> i256 \<Rightarrow> i256" where
  "i256_saturating_add x y =
     (case i256_checked_add x y of
        Some v \<Rightarrow> v
      | None \<Rightarrow> if i256_is_negative y then I256_BOT else I256_TOP)"

definition from_u256_or_overflow :: "u256 \<Rightarrow> i256 option" where
  "from_u256_or_overflow v = (if drop_bit 127 (u256_hi v) \<noteq> 0 then None else Some (from_raw_u256 v))"

definition min_mag :: u256 where
  "min_mag = (case u256_checked_add (u256_from_u128 0) (u256_from_u128 (push_bit 127 1)) of
     Some m \<Rightarrow> m | None \<Rightarrow> U256_TOP)"

definition checked_mul_i256 :: "i256 \<Rightarrow> i256 \<Rightarrow> ('e, i256 option) res" where
  "checked_mul_i256 x y =
     (if i256_is_zero x \<or> i256_is_zero y then Ok (Some I256_ZERO)
      else
        let neg = (i256_is_negative x \<noteq> i256_is_negative y) in
        if x = I256_BOT then
          (if y = I256_ONE then Ok (Some I256_BOT) else if y = I256_MINUS_ONE then Ok None else Ok None)
        else if y = I256_BOT then
          (if x = I256_ONE then Ok (Some I256_BOT) else if x = I256_MINUS_ONE then Ok None else Ok None)
        else
          rthen (abs_u256 x) (\<lambda>abs_a. rthen (abs_u256 y) (\<lambda>abs_b.
          case u256_checked_mul abs_a abs_b of
            None \<Rightarrow> Ok None
          | Some product \<Rightarrow>
              if neg then
                if product = min_mag then Ok (Some I256_BOT)
                else if product > min_mag then Ok None
                else Ok (Option.bind (from_u256_or_overflow product) i256_checked_neg)
              else Ok (from_u256_or_overflow product))))"

definition i256_cmp :: "i256 \<Rightarrow> i256 \<Rightarrow> ordering" where
  "i256_cmp x y =
     (case (i256_is_negative x, i256_is_negative y) of
        (True, False) \<Rightarrow> Less
      | (False, True) \<Rightarrow> Greater
      | _ \<Rightarrow> u256_cmp (as_raw_u256 x) (as_raw_u256 y))"

section \<open>The value\<close>

abbreviation raw :: "i256 \<Rightarrow> int" where "raw x \<equiv> val256 (as_raw_u256 x)"

definition vali :: "i256 \<Rightarrow> int" where
  "vali x = (if i256_is_negative x then raw x - b128 * b128 else raw x)"

definition b127 :: int where "b127 = 170141183460469231731687303715884105728"

lemma b127_twice: "b128 = 2 * b127" by (simp add: b127_def b128_def)
lemma b127_pos: "0 < b127" by (simp add: b127_def)

definition b255 :: int where
  "b255 = 57896044618658097711785492504343953926634992332820282019728792003956564819968"

lemma b255_mult: "b255 = b128 * b127" by (simp add: b255_def b128_def b127_def)
lemma b255_twice: "b128 * b128 = 2 * b255" by (simp add: b255_def b128_def)
lemma b255_pos: "0 < b255" by (simp add: b255_def)

lemma I256_bounds_b: "I256_MAX = b255 - 1" "I256_MIN = - b255"
  by (simp_all add: I256_MAX_def I256_MIN_def b255_def)

lemma as_raw_limbs [simp]: "as_raw_u256 (I256 a b c d) = U256 a b c d"
  using new_halves[of "U256 a b c d"] by (simp add: as_raw_u256_def)

lemma i256_halves_from [simp]: "i256_lo (from_lo_hi l h) = l" "i256_hi (from_lo_hi l h) = h"
  using halves_new[of l h] by (simp_all add: from_lo_hi_def u256_new_def)

lemma as_raw_from [simp]: "as_raw_u256 (from_lo_hi l h) = u256_new l h" "as_raw_u256 (from_raw_u256 v) = v"
  by (simp_all add: as_raw_u256_def from_raw_u256_def)

lemma raw_inject: "as_raw_u256 x = as_raw_u256 y \<longleftrightarrow> x = y"
  by (cases x; cases y) simp

lemma raw_halves: "raw x = uint (i256_lo x) + b128 * uint (i256_hi x)"
  by (simp add: as_raw_u256_def val256_new)

lemma uint_pack:
  fixes c d :: u64
  shows "uint (ucast c OR push_bit 64 (ucast d) :: u128) = uint c + b64 * uint d"
proof -
  let ?w = "ucast c OR push_bit 64 (ucast d) :: u128"
  have "low64 ?w = ucast c" by (rule bit_word_eqI) (auto simp: low64_def bit_simps dest: bit_imp_le_length)
  moreover have "drop_bit 64 ?w = ucast d" by (rule bit_word_eqI) (auto simp: bit_simps dest: bit_imp_le_length)
  moreover have "uint (ucast v :: u128) = uint v" for v :: u64 by (rule uint_up_ucast) (simp add: is_up)
  ultimately show ?thesis
    using halves[of ?w] uint_low64[of ?w] uint_high64[of ?w] by simp
qed

lemma top_bit: "drop_bit k (w :: 'a :: len word) \<noteq> 0 \<longleftrightarrow> 2 ^ k \<le> uint w"
proof -
  have "uint (drop_bit k w) = uint w div 2 ^ k"
    by (simp add: unsigned_drop_bit_eq bintr_uint) (simp add: drop_bit_eq_div)
  moreover have "uint w div 2 ^ k = 0 \<longleftrightarrow> uint w < 2 ^ k"
    by (metis div_pos_pos_trivial uint_nonnegative linorder_not_less pos_imp_zdiv_pos_iff order_less_irrefl zero_less_numeral zero_less_power)
  ultimately show ?thesis by (metis linorder_not_less uint_0_iff)
qed

lemma negative_hi: "i256_is_negative x \<longleftrightarrow> b127 \<le> uint (i256_hi x)"
proof (cases x)
  case (I256 a b c d)
  have h: "uint (i256_hi x) = uint c + b64 * uint d" unfolding I256 i256_hi.simps by (rule uint_pack)
  have c: "0 \<le> uint c" "uint c < b64" using uint_bounded[of c] by (simp_all add: b64_def)
  have e: "b127 = b64 * 2 ^ 63" by (simp add: b127_def b64_def)
  have "2 ^ 63 \<le> uint d \<longleftrightarrow> b127 \<le> uint c + b64 * uint d"
  proof
    assume "2 ^ 63 \<le> uint d"
    then have "b64 * 2 ^ 63 \<le> b64 * uint d" using b64_pos by (intro mult_left_mono) auto
    then show "b127 \<le> uint c + b64 * uint d" using c e by linarith
  next
    assume "b127 \<le> uint c + b64 * uint d"
    then have "b64 * 2 ^ 63 < b64 * (uint d + 1)" using c e by (simp add: distrib_left)
    then have "2 ^ 63 < uint d + 1" using b64_pos by (simp only: mult_less_cancel_left_pos)
    then show "2 ^ 63 \<le> uint d" by linarith
  qed
  then show ?thesis unfolding h by (simp add: I256 top_bit del: power_numeral)
qed

lemma digit_le:
  fixes l h m :: int
  assumes "0 \<le> l" "l < b128"
  shows "m \<le> h \<longleftrightarrow> b128 * m \<le> l + b128 * h"
proof
  assume "m \<le> h"
  then have "b128 * m \<le> b128 * h" using b128_pos by (intro mult_left_mono) auto
  then show "b128 * m \<le> l + b128 * h" using assms by linarith
next
  assume "b128 * m \<le> l + b128 * h"
  then have "b128 * m < b128 * (h + 1)" using assms(2) by (simp add: distrib_left)
  then show "m \<le> h" using b128_pos by simp
qed

lemma negative_raw: "i256_is_negative x \<longleftrightarrow> b255 \<le> raw x"
  unfolding negative_hi raw_halves b255_mult by (rule digit_le) (rule u128_bounds)+

lemma raw_range: "0 \<le> raw x" "raw x < 2 * b255"
  using val256_bounds[of "as_raw_u256 x"] b255_twice by simp_all

lemma vali_raw: "vali x = (if b255 \<le> raw x then raw x - 2 * b255 else raw x)"
  unfolding vali_def negative_raw b255_twice by simp

lemma vali_range: "- b255 \<le> vali x" "vali x < b255"
  using raw_range[of x] unfolding vali_raw by auto

lemma negative_vali: "i256_is_negative x \<longleftrightarrow> vali x < 0"
  using raw_range[of x] unfolding negative_raw vali_raw by auto

lemma in_i256_half: "in_i256 v \<longleftrightarrow> - b255 \<le> v \<and> v < b255"
  by (auto simp: in_i256_def I256_bounds_b)

lemma in_i256_vali: "in_i256 (vali x)"
  using vali_range[of x] by (simp add: in_i256_half)

lemma vali_inject [simp]: "vali x = vali y \<longleftrightarrow> x = y"
proof
  assume "vali x = vali y"
  then have "raw x = raw y"
    using raw_range[of x] raw_range[of y] unfolding vali_raw by (auto split: if_splits)
  then show "x = y" by (simp add: raw_inject)
qed simp

text \<open>A value in range with the right residue is the value of the limbs.\<close>

lemma vali_of_raw:
  assumes "raw x = v + of_bool n * (2 * b255)" "- b255 \<le> v" "v < b255"
  shows "vali x = v"
  using assms raw_range[of x] unfolding vali_raw by (cases n) auto

lemma vali_consts [simp]: "vali I256_ZERO = 0" "vali I256_ONE = 1" "vali I256_MINUS_ONE = - 1"
  "vali I256_TOP = I256_MAX" "vali I256_BOT = I256_MIN"
proof -
  have r: "raw I256_ZERO = 0" "raw I256_ONE = 1" "raw I256_MINUS_ONE = U256_MAX" "raw I256_TOP = I256_MAX"
    "raw I256_BOT = - I256_MIN"
    unfolding I256_ZERO_def I256_ONE_def I256_MINUS_ONE_def I256_TOP_def I256_BOT_def as_raw_limbs val256_def
      b128_def U256_MAX_def I256_MAX_def I256_MIN_def by code_simp+
  show "vali I256_ZERO = 0" "vali I256_ONE = 1" "vali I256_MINUS_ONE = - 1"
    "vali I256_TOP = I256_MAX" "vali I256_BOT = I256_MIN"
    unfolding vali_raw r by (simp_all add: b255_def U256_MAX_def I256_MAX_def I256_MIN_def)
qed

lemma is_zero_vali: "i256_is_zero x \<longleftrightarrow> vali x = 0"
proof -
  have "i256_is_zero x \<longleftrightarrow> x = I256_ZERO" by (cases x) (simp add: I256_ZERO_def)
  also have "\<dots> \<longleftrightarrow> vali x = vali I256_ZERO" by (simp only: vali_inject)
  finally show ?thesis by simp
qed

lemma is_min_vali: "x = I256_BOT \<longleftrightarrow> vali x = I256_MIN"
  by (metis vali_consts(5) vali_inject)

lemma sign_tests: "i256_is_positive x \<longleftrightarrow> 0 < vali x" "i256_signum x = sgn (vali x)"
  by (auto simp: i256_is_positive_def i256_signum_def is_zero_vali negative_vali)

section \<open>The operations compute their specification\<close>

lemma flag_if: "(if c then 1 else 0) = of_flag c"
  by (simp add: of_flag_def)

lemma uint_not_u128: "uint (NOT (a :: u128)) = b128 - 1 - uint a"
proof -
  have "uint (NOT a) = (- uint a - 1) mod b128"
    by (simp add: unsigned_not_eq not_int_def take_bit_eq_mod b128_def)
  also have "\<dots> = (b128 - 1 - uint a) mod b128"
  proof -
    have "b128 - 1 - uint a = (- uint a - 1) + b128" by simp
    then show ?thesis by (simp only: mod_add_self2)
  qed
  also have "\<dots> = b128 - 1 - uint a" using u128_bounds(1)[of a] u128_bounds(2)[of a] by (intro mod_b128; linarith)
  finally show ?thesis .
qed

lemma neg_halves_value:
  assumes "neg_halves l h = (l', h')"
  shows "uint l' + b128 * uint h'
     = (if uint l + b128 * uint h = 0 then 0 else b128 * b128 - (uint l + b128 * uint h))"
proof -
  obtain n c where o: "overflowing_add (NOT l) 1 = (n, c)" by fastforce
  have r: "l' = n" "h' = NOT h + of_flag c" using assms o by (simp_all add: neg_halves_def flag_if)
  have e: "b128 - uint l = uint n + of_bool c * b128"
    using overflowing_add_value[OF o] by (simp add: uint_not_u128)
  have c: "c \<longleftrightarrow> uint l = 0"
  proof
    assume c
    then have "b128 - uint l = uint n + b128" using e by simp
    then show "uint l = 0" using u128_bounds(1)[of n] u128_bounds(1)[of l] by linarith
  next
    assume "uint l = 0"
    then show c using e u128_bounds(2)[of n] by (cases c) auto
  qed
  have h: "uint h' = (b128 - 1 - uint h + of_bool c) mod b128"
    unfolding r uint_add_u128 uint_not_u128 uint_flag ..
  show ?thesis
  proof (cases c)
    case False
    then have "uint h' = (b128 - 1 - uint h) mod b128" unfolding h by simp
    also have "\<dots> = b128 - 1 - uint h"
      using u128_bounds(1)[of h] u128_bounds(2)[of h] by (intro mod_b128; linarith)
    finally have "uint h' = b128 - 1 - uint h" .
    moreover have "uint l + b128 * uint h \<noteq> 0"
      using False c u128_bounds(1)[of l] u128_bounds(1)[of h] b128_pos by (simp add: add_nonneg_eq_0_iff)
    moreover have n: "uint n = b128 - uint l" using e False by simp
    moreover have "uint n + b128 * uint h' = b128 * b128 - (uint l + b128 * uint h)"
      using n \<open>uint h' = b128 - 1 - uint h\<close> by algebra
    ultimately show ?thesis unfolding r(1) by simp
  next
    case True
    then have l: "uint l = 0" "uint n = 0" using c e by simp_all
    show ?thesis
    proof (cases "uint h = 0")
      case True
      then show ?thesis using l h \<open>c\<close> r by simp
    next
      case False
      then have p: "0 < uint h" using u128_bounds(1)[of h] by linarith
      have "uint h' = (b128 - uint h) mod b128" unfolding h using \<open>c\<close> by simp
      also have "\<dots> = b128 - uint h" using p u128_bounds(2)[of h] by (intro mod_b128; linarith)
      finally have "uint h' = b128 - uint h" .
      then have "b128 * uint h' = b128 * b128 - b128 * uint h" by algebra
      then show ?thesis using False l r(1) b128_pos by simp
    qed
  qed
qed

lemma neg_halves_raw:
  assumes "neg_halves (i256_lo x) (i256_hi x) = (l, h)"
  shows "uint l + b128 * uint h = (if raw x = 0 then 0 else 2 * b255 - raw x)"
  using neg_halves_value[OF assms] unfolding raw_halves[symmetric] b255_twice .

definition abs_limbs :: "i256 \<Rightarrow> u256" where
  "abs_limbs x =
     (if i256_is_negative x then let (l, h) = neg_halves (i256_lo x) (i256_hi x) in u256_new l h
      else u256_new (i256_lo x) (i256_hi x))"

lemma abs_u256_eq: "abs_u256 x = (if x = I256_BOT then Panic else Ok (abs_limbs x))"
  using b255_pos by (auto simp: abs_u256_def abs_limbs_def assertion_def negative_vali I256_bounds_b split: prod.splits)

lemma abs_limbs_value:
  assumes "vali x \<noteq> I256_MIN"
  shows "val256 (abs_limbs x) = \<bar>vali x\<bar>"
proof -
  obtain l h where n: "neg_halves (i256_lo x) (i256_hi x) = (l, h)" by fastforce
  show ?thesis
  proof (cases "i256_is_negative x")
    case True
    then show ?thesis
      using n neg_halves_raw[OF n] b255_pos raw_range[of x] unfolding vali_raw
      by (auto simp: abs_limbs_def val256_new negative_raw)
  next
    case False
    then show ?thesis
      using raw_range(1)[of x] by (auto simp: abs_limbs_def vali_def val256_new raw_halves)
  qed
qed

lemma i256_neg_refines: "map_option vali (i256_checked_neg x) = fit_i256 (- vali x)"
proof -
  obtain l h where n: "neg_halves (i256_lo x) (i256_hi x) = (l, h)" by fastforce
  have r: "raw (from_lo_hi l h) = (if raw x = 0 then 0 else 2 * b255 - raw x)"
    using neg_halves_raw[OF n] by (simp add: val256_new)
  show ?thesis
  proof (cases "vali x = I256_MIN")
    case True
    then show ?thesis
      using b255_pos by (simp add: i256_checked_neg_def is_min_vali fit_i256_def in_i256_half I256_bounds_b)
  next
    case False
    then have v: "- b255 < vali x" "vali x < b255" using vali_range[of x] by (auto simp: I256_bounds_b)
    have "vali (from_lo_hi l h) = - vali x"
      using r v raw_range[of x] b255_pos unfolding vali_raw by (auto split: if_splits)
    then show ?thesis using False n v by (simp add: i256_checked_neg_def is_min_vali fit_i256_def in_i256_half)
  qed
qed

lemma wrapping_sum:
  assumes "overflowing_add (i256_lo x) (i256_lo y) = (l, k)" "overflowing_add (i256_hi x) (i256_hi y) = (h1, o1)"
    "overflowing_add h1 (of_flag k) = (h, o2)"
  shows "\<exists>c. raw x + raw y = raw (from_lo_hi l h) + of_bool c * (2 * b255)"
proof -
  have "raw x + raw y = raw (from_lo_hi l h) + (of_bool o1 + of_bool o2) * (b128 * b128)"
    using overflowing_add_value[OF assms(1)] overflowing_add_value[OF assms(2)]
      overflowing_add_value[OF assms(3), unfolded uint_flag]
    unfolding raw_halves i256_halves_from by algebra
  then have e: "raw x + raw y = raw (from_lo_hi l h) + (of_bool o1 + of_bool o2) * (2 * b255)"
    unfolding b255_twice .
  have "\<not> (o1 \<and> o2)" using e raw_range[of x] raw_range[of y] raw_range(1)[of "from_lo_hi l h"] by auto
  then show ?thesis using e by (intro exI[of _ "o1 \<or> o2"]) auto
qed

lemma wrapping_diff:
  assumes "overflowing_sub (i256_lo x) (i256_lo y) = (l, k)" "overflowing_sub (i256_hi x) (i256_hi y) = (h1, o1)"
    "overflowing_sub h1 (of_flag k) = (h, o2)"
  shows "\<exists>c. raw x - raw y = raw (from_lo_hi l h) - of_bool c * (2 * b255)"
proof -
  have "raw x - raw y = raw (from_lo_hi l h) - (of_bool o1 + of_bool o2) * (b128 * b128)"
    using overflowing_sub_value[OF assms(1)] overflowing_sub_value[OF assms(2)]
      overflowing_sub_value[OF assms(3), unfolded uint_flag]
    unfolding raw_halves i256_halves_from by algebra
  then have e: "raw x - raw y = raw (from_lo_hi l h) - (of_bool o1 + of_bool o2) * (2 * b255)"
    unfolding b255_twice .
  have "\<not> (o1 \<and> o2)" using e raw_range[of x] raw_range[of y] raw_range(2)[of "from_lo_hi l h"] by auto
  then show ?thesis using e by (intro exI[of _ "o1 \<or> o2"]) auto
qed

lemma i256_add_refines: "map_option vali (i256_checked_add x y) = fit_i256 (vali x + vali y)"
proof -
  obtain l k where a: "overflowing_add (i256_lo x) (i256_lo y) = (l, k)" by fastforce
  obtain h1 o1 where b: "overflowing_add (i256_hi x) (i256_hi y) = (h1, o1)" by fastforce
  obtain h o2 where c: "overflowing_add h1 (of_flag k) = (h, o2)" by fastforce
  define z where "z = from_lo_hi l h"
  obtain w where w: "raw x + raw y = raw z + of_bool w * (2 * b255)"
    using wrapping_sum[OF a b c] by (auto simp: z_def)
  have r: "i256_checked_add x y = (if i256_is_negative x = i256_is_negative y
      \<and> i256_is_negative z \<noteq> i256_is_negative x then None else Some z)"
    by (simp add: i256_checked_add_def a b c flag_if z_def)
  show ?thesis
    using w raw_range[of x] raw_range[of y] raw_range[of z] unfolding r fit_i256_def in_i256_half negative_raw vali_raw
    by (cases w) auto
qed

lemma i256_sub_refines: "map_option vali (i256_checked_sub x y) = fit_i256 (vali x - vali y)"
proof (cases "i256_checked_neg y")
  case (Some n)
  have "map_option vali (Some n) = fit_i256 (- vali y)" using i256_neg_refines[of y] Some by simp
  then have "vali n = - vali y" by (simp add: fit_i256_def split: if_splits)
  then show ?thesis using Some i256_add_refines[of x n] by (simp add: i256_checked_sub_def)
next
  case None
  then have "y = I256_BOT" by (auto simp: i256_checked_neg_def split: if_splits prod.splits)
  then have m: "vali y = - b255" "raw y = b255"
    using vali_consts(5) vali_range[of y] raw_range[of y] b255_pos unfolding vali_raw I256_bounds_b by (auto split: if_splits)
  obtain l k where a: "overflowing_sub (i256_lo x) (i256_lo y) = (l, k)" by fastforce
  obtain h1 o1 where b: "overflowing_sub (i256_hi x) (i256_hi y) = (h1, o1)" by fastforce
  obtain h o2 where c: "overflowing_sub h1 (of_flag k) = (h, o2)" by fastforce
  define z where "z = from_lo_hi l h"
  obtain w where w: "raw x - raw y = raw z - of_bool w * (2 * b255)"
    using wrapping_diff[OF a b c] by (auto simp: z_def)
  have r: "i256_checked_sub x y = (if i256_is_negative x \<noteq> True
      \<and> i256_is_negative z \<noteq> i256_is_negative x then None else Some z)"
    by (simp add: i256_checked_sub_def None a b c flag_if z_def)
  show ?thesis
    using w raw_range[of x] raw_range[of z] unfolding r fit_i256_def in_i256_half negative_raw m vali_raw[of x]
    by (cases w) (auto simp: vali_raw[of z])
qed

lemma saturating_value:
  "vali (i256_saturating_add x y) = max I256_MIN (min I256_MAX (vali x + vali y))"
proof (cases "i256_checked_add x y")
  case (Some z)
  then have "fit_i256 (vali x + vali y) = Some (vali z)" using i256_add_refines[of x y] by simp
  then have "vali z = vali x + vali y" "in_i256 (vali x + vali y)" by (simp_all only: fit_wide_Some)
  then show ?thesis using Some by (simp add: i256_saturating_add_def in_i256_def)
next
  case None
  then have "\<not> in_i256 (vali x + vali y)"
    using i256_add_refines[of x y] by (auto simp: fit_i256_def split: if_splits)
  then show ?thesis
    using None vali_range[of x] vali_range[of y] negative_vali[of y] unfolding in_i256_half
    by (auto simp: i256_saturating_add_def I256_bounds_b)
qed

lemma from_u256_refines: "map_option vali (from_u256_or_overflow v) = (if val256 v < b255 then Some (val256 v) else None)"
proof -
  have "drop_bit 127 (u256_hi v) \<noteq> 0 \<longleftrightarrow> b127 \<le> uint (u256_hi v)"
    by (simp add: top_bit b127_def)
  also have "\<dots> \<longleftrightarrow> b255 \<le> val256 v"
    unfolding val256_def b255_mult by (rule digit_le) (rule u128_bounds)+
  finally show ?thesis by (auto simp: from_u256_or_overflow_def vali_raw)
qed

lemma min_mag_value: "val256 min_mag = 2 ^ 127"
proof -
  have m: "min_mag = u256_from_u128 (push_bit 127 1)" by code_simp
  show ?thesis unfolding m val256_from by code_simp
qed

definition signed_product :: "bool \<Rightarrow> u256 \<Rightarrow> i256 option" where
  "signed_product neg product =
     (if neg then
        if product = min_mag then Some I256_BOT
        else if product > min_mag then None
        else Option.bind (from_u256_or_overflow product) i256_checked_neg
      else from_u256_or_overflow product)"

lemma signed_product_value:
  "map_option vali (signed_product neg p) =
     (if neg then
        if val256 p = 2 ^ 127 then Some I256_MIN
        else if val256 p > 2 ^ 127 then None
        else Some (- val256 p)
      else if val256 p \<le> I256_MAX then Some (val256 p) else None)"
proof -
  have e: "p = min_mag \<longleftrightarrow> val256 p = 2 ^ 127" unfolding min_mag_value[symmetric] by simp
  have g: "p > min_mag \<longleftrightarrow> val256 p > 2 ^ 127" unfolding u256_less_iff min_mag_value ..
  have s: "map_option vali (Option.bind (from_u256_or_overflow p) i256_checked_neg) = Some (- val256 p)"
    if "val256 p < 2 ^ 127"
  proof -
    have b: "val256 p < b255" using that by (simp add: b255_def)
    then obtain z where z: "from_u256_or_overflow p = Some z" "vali z = val256 p"
      using from_u256_refines[of p] by auto
    have "fit_i256 (- vali z) = Some (- vali z)"
      using b z val256_bounds(1)[of p] b255_pos by (simp add: fit_i256_def in_i256_half)
    then show ?thesis using z i256_neg_refines[of z] by simp
  qed
  show ?thesis
    unfolding signed_product_def e g using s from_u256_refines[of p]
    by (auto simp: I256_bounds_b)
qed

lemma checked_mul_refines: "map_res id (map_option vali) (checked_mul_i256 x y) = Ok (i256_mul (vali x) (vali y))"
proof -
  consider (zero) "vali x = 0 \<or> vali y = 0"
    | (minx) "vali x \<noteq> 0" "vali y \<noteq> 0" "vali x = I256_MIN"
    | (miny) "vali x \<noteq> 0" "vali y \<noteq> 0" "vali x \<noteq> I256_MIN" "vali y = I256_MIN"
    | (general) "vali x \<noteq> 0" "vali y \<noteq> 0" "vali x \<noteq> I256_MIN" "vali y \<noteq> I256_MIN" by blast
  then show ?thesis
  proof cases
    case zero
    then show ?thesis by (auto simp: checked_mul_i256_def is_zero_vali i256_mul_def)
  next
    case minx
    have "y = I256_ONE \<longleftrightarrow> vali y = 1" by (metis vali_consts(2) vali_inject)
    then show ?thesis
      using minx by (simp add: checked_mul_i256_def is_zero_vali is_min_vali i256_mul_def)
  next
    case miny
    have "x = I256_ONE \<longleftrightarrow> vali x = 1" by (metis vali_consts(2) vali_inject)
    then show ?thesis
      using miny by (simp add: checked_mul_i256_def is_zero_vali is_min_vali i256_mul_def)
  next
    case general
    then have nb: "x \<noteq> I256_BOT" "y \<noteq> I256_BOT" by (simp_all add: is_min_vali)
    define A B where "A = abs_limbs x" "B = abs_limbs y"
    have ab: "val256 A = \<bar>vali x\<bar>" "val256 B = \<bar>vali y\<bar>"
      using general by (simp_all add: A_B_def abs_limbs_value)
    define neg where "neg = (i256_is_negative x \<noteq> i256_is_negative y)"
    have ng: "neg \<longleftrightarrow> (vali x < 0) \<noteq> (vali y < 0)" by (simp add: neg_def negative_vali)
    have run: "checked_mul_i256 x y = Ok (Option.bind (u256_checked_mul A B) (signed_product neg))"
      using general nb
      by (simp add: checked_mul_i256_def is_zero_vali abs_u256_eq A_B_def signed_product_def neg_def
          split: option.splits)
    have t: "fit_u256 (\<bar>vali x\<bar> * \<bar>vali y\<bar>) = map_option val256 (u256_checked_mul A B)"
      by (simp add: u256_mul_refines ab)
    show ?thesis
      using general by (cases "u256_checked_mul A B") (simp_all add: run i256_mul_def t signed_product_value ng)
  qed
qed

section \<open>Conversions and order\<close>

lemma sint_u128_range: "- b127 \<le> sint (v :: u128)" "sint v < b127"
  using sint_ge[of v] sint_lt[of v] by (simp_all add: b127_def)

lemma sint_u128: "sint (v :: u128) = uint v - of_bool (sint v < 0) * b128"
proof -
  have u: "uint v = sint v mod b128"
    by (simp add: uint_sint take_bit_eq_mod b128_def)
  show ?thesis
    using sint_u128_range[of v] b127_twice b127_pos mod_lift[of "sint v"] mod_b128[of "sint v"]
    unfolding u by (cases "sint v < 0") auto
qed

lemma uint_minus_one: "uint (- 1 :: u128) = b128 - 1"
  by (simp add: b128_def unsigned_minus_1_eq_mask mask_eq_exp_minus_1)

lemma in_i128_b127: "in_i128 v \<longleftrightarrow> - b127 \<le> v \<and> v < b127"
  by (auto simp: in_i128_def bounds b127_def)

lemma b127_less_b255: "b127 < b255" by (simp add: b127_def b255_def)

lemma from_i128_value: "vali (i256_from_i128 v) = sint v"
proof (rule vali_of_raw[of _ _ "sint v < 0"])
  show "raw (i256_from_i128 v) = sint v + of_bool (sint v < 0) * (2 * b255)"
    using sint_u128[of v]
    by (cases "sint v < 0") (simp_all add: i256_from_i128_def val256_new uint_minus_one right_diff_distrib flip: b255_twice)
  show "- b255 \<le> sint v" "sint v < b255"
    using sint_u128_range[of v] b127_less_b255 by linarith+
qed

lemma from_u128_value: "vali (i256_from_u128 v) = uint v"
proof (rule vali_of_raw[of _ _ False])
  show "raw (i256_from_u128 v) = uint v + of_bool False * (2 * b255)"
    by (simp add: i256_from_u128_def val256_new)
  have "b128 < b255" by (simp add: b128_def b255_def)
  then show "- b255 \<le> uint v" "uint v < b255"
    using u128_bounds[of v] b255_pos by linarith+
qed

lemma try_into_i128_refines: "map_option sint (i256_try_into_i128 x) = fit_i128 (vali x)"
proof -
  let ?w = "i256_lo x"
  have x: "x = i256_from_i128 ?w \<longleftrightarrow> i256_hi x = (if sint ?w < 0 then - 1 else 0)"
  proof
    assume a: "x = i256_from_i128 ?w"
    show "i256_hi x = (if sint ?w < 0 then - 1 else 0)"
      using arg_cong[OF a, of i256_hi] by (simp only: i256_from_i128_def i256_halves_from)
  next
    assume "i256_hi x = (if sint ?w < 0 then - 1 else 0)"
    then have "i256_lo x = i256_lo (i256_from_i128 ?w)" "i256_hi x = i256_hi (i256_from_i128 ?w)"
      by (simp_all add: i256_from_i128_def)
    then have "as_raw_u256 x = as_raw_u256 (i256_from_i128 ?w)" by (simp add: as_raw_u256_def)
    then show "x = i256_from_i128 ?w" by (simp add: raw_inject)
  qed
  have conv: "x = i256_from_i128 ?w" if "in_i128 (vali x)"
  proof -
    define v where "v = (word_of_int (vali x) :: u128)"
    have "sint v = (vali x + b127) mod b128 - b127"
      by (simp add: v_def int_word_sint b127_def b128_def)
    also have "\<dots> = vali x"
      using that b127_twice by (simp add: in_i128_b127 mod_b128)
    finally have "sint v = vali x" .
    then have "vali x = vali (i256_from_i128 v)" by (simp only: from_i128_value)
    then have a: "x = i256_from_i128 v" by (simp only: vali_inject)
    have "i256_lo x = v" unfolding a i256_from_i128_def by simp
    then show ?thesis using a by simp
  qed
  show ?thesis
  proof (cases "x = i256_from_i128 ?w")
    case True
    have v: "vali x = sint ?w" using arg_cong[OF True, of vali] by (simp only: from_i128_value)
    then show ?thesis
      using x[THEN iffD1, OF True] sint_u128_range[of ?w] by (simp add: i256_try_into_i128_def fit_i128_def in_i128_b127)
  next
    case False
    then have "\<not> in_i128 (vali x)" using conv by blast
    then show ?thesis
      using x[THEN iffD2] False by (auto simp: i256_try_into_i128_def fit_i128_def)
  qed
qed

lemma i128_roundtrip: "i256_try_into_i128 (i256_from_i128 v) = Some v"
  by (simp add: i256_try_into_i128_def i256_from_i128_def)

lemma i256_cmp_ord: "i256_cmp x y = ord_of (vali x) (vali y)"
  using raw_range[of x] raw_range[of y]
  by (cases "i256_is_negative x"; cases "i256_is_negative y")
    (auto simp: i256_cmp_def u256_cmp_ord ord_of_def vali_raw negative_raw)

instantiation i256 :: linorder
begin

definition less_eq_i256 :: "i256 \<Rightarrow> i256 \<Rightarrow> bool" where
  "less_eq_i256 x y = (i256_cmp x y \<noteq> Greater)"

definition less_i256 :: "i256 \<Rightarrow> i256 \<Rightarrow> bool" where
  "less_i256 x y = (i256_cmp x y = Less)"

instance
proof
  fix x y z :: i256
  have le: "a \<le> b \<longleftrightarrow> vali a \<le> vali b" and less: "a < b \<longleftrightarrow> vali a < vali b" for a b :: i256
    by (auto simp: less_eq_i256_def less_i256_def i256_cmp_ord ord_of_def)
  show "(x < y) = (x \<le> y \<and> \<not> y \<le> x)" unfolding le less by linarith
  show "x \<le> x" unfolding le by simp
  show "x \<le> y \<Longrightarrow> y \<le> z \<Longrightarrow> x \<le> z" unfolding le by simp
  show "x \<le> y \<Longrightarrow> y \<le> x \<Longrightarrow> x = y" unfolding le by (simp flip: vali_inject)
  show "x \<le> y \<or> y \<le> x" unfolding le by linarith
qed

end

lemma i256_le_iff: "x \<le> y \<longleftrightarrow> vali x \<le> vali y"
  by (auto simp: less_eq_i256_def i256_cmp_ord ord_of_def)

end
