(* ===== verification/WideMath.thy ===== *)
theory WideMath
  imports U512 I256
begin

unbundle bit_operations_syntax

text \<open>
  The multiply-divide helpers of \<open>src/src/wide_math.rs\<close> (section 4.6 of the code's specification) on
  limbs, and the proof that each computes the helper of \<open>WideSpec\<close> that the engine model uses: same
  result on the integers the limbs denote, and a panic exactly where the specification panics. An
  \<open>i128\<close> is a 128-bit word read with \<open>sint\<close>.
\<close>

section \<open>Definitions\<close>

definition ceil_div_positive_checked_w :: "u256 \<Rightarrow> u256 \<Rightarrow> ('e, u256) res" where
  "ceil_div_positive_checked_w n d =
     rthen (assertion (\<not> u256_is_zero d)) (\<lambda>_.
     rthen (div_rem_u256 n d) (\<lambda>(q, r).
     if u256_is_zero r then Ok q else expect (u256_checked_add q U256_ONE)))"

definition mul_div_floor_u256_with_rem_w :: "u256 \<Rightarrow> u256 \<Rightarrow> u256 \<Rightarrow> ('e, u256 \<times> u256) res" where
  "mul_div_floor_u256_with_rem_w a b d =
     rthen (assertion (\<not> u256_is_zero d)) (\<lambda>_. div_rem_by_u256 (mul_u256 a b) d)"

definition mul_div_floor_u256_w :: "u256 \<Rightarrow> u256 \<Rightarrow> u256 \<Rightarrow> ('e, u256) res" where
  "mul_div_floor_u256_w a b d =
     rthen (assertion (\<not> u256_is_zero d)) (\<lambda>_.
     rthen (div_rem_by_u256 (mul_u256 a b) d) (\<lambda>(q, r). Ok q))"

definition mul_div_ceil_u256_w :: "u256 \<Rightarrow> u256 \<Rightarrow> u256 \<Rightarrow> ('e, u256) res" where
  "mul_div_ceil_u256_w a b d =
     rthen (assertion (\<not> u256_is_zero d)) (\<lambda>_.
     rthen (div_rem_by_u256 (mul_u256 a b) d) (\<lambda>(q, r).
     if u256_is_zero r then Ok q else expect (u256_checked_add q U256_ONE)))"

definition checked_mul_div_ceil_u256 :: "u256 \<Rightarrow> u256 \<Rightarrow> u256 \<Rightarrow> ('e, u256 option) res" where
  "checked_mul_div_ceil_u256 a b d =
     (if u256_is_zero d then Ok None
      else rthen (checked_div_rem_by_u256 (mul_u256 a b) d) (\<lambda>res.
        case res of None \<Rightarrow> Ok None
        | Some (q, r) \<Rightarrow> Ok (if u256_is_zero r then Some q else u256_checked_add q U256_ONE)))"

definition saturating_mul_u256_u64 :: "u256 \<Rightarrow> u64 \<Rightarrow> u256" where
  "saturating_mul_u256_u64 a b =
     (case u256_checked_mul a (u256_from_u64 b) of Some p \<Rightarrow> p | None \<Rightarrow> U256_TOP)"

text \<open>Rounding a quotient away from zero and negating it, as the two signed helpers do.\<close>

definition neg_quotient :: "u256 \<Rightarrow> u256 \<Rightarrow> ('e, i256) res" where
  "neg_quotient q r =
     rthen (if u256_is_zero r then Ok q else expect (u256_checked_add q U256_ONE)) (\<lambda>q_final.
     if u256_is_zero q_final then Ok I256_ZERO else expect (i256_checked_neg (from_raw_u256 q_final)))"

definition floor_div_signed_conservative :: "i256 \<Rightarrow> u256 \<Rightarrow> ('e, i256) res" where
  "floor_div_signed_conservative n d =
     rthen (assertion (\<not> u256_is_zero d)) (\<lambda>_.
     if i256_is_zero n then Ok I256_ZERO
     else if \<not> i256_is_negative n then
       rthen (abs_u256 n) (\<lambda>n_u. rthen (div_rem_u256 n_u d) (\<lambda>(q, r). Ok (from_raw_u256 q)))
     else
       let raw_n = as_raw_u256 n; inv = u256_new (NOT (u256_lo raw_n)) (NOT (u256_hi raw_n)) in
       rthen (expect (u256_checked_add inv U256_ONE)) (\<lambda>abs_n.
       rthen (div_rem_u256 abs_n d) (\<lambda>(q, r). neg_quotient q r)))"

definition wide_signed_mul_div_floor :: "u256 \<Rightarrow> i256 \<Rightarrow> u256 \<Rightarrow> ('e, i256) res" where
  "wide_signed_mul_div_floor abs_basis k_diff denominator =
     rthen (assertion (\<not> u256_is_zero denominator)) (\<lambda>_.
     if i256_is_zero k_diff \<or> u256_is_zero abs_basis then Ok I256_ZERO
     else
       let negative = i256_is_negative k_diff in
       rthen (if negative then rthen (assertion (k_diff \<noteq> I256_BOT)) (\<lambda>_. abs_u256 k_diff)
              else abs_u256 k_diff) (\<lambda>abs_k.
       rthen (div_rem_by_u256 (mul_u256 abs_basis abs_k) denominator) (\<lambda>(q, r).
       if \<not> negative then Ok (from_raw_u256 q) else neg_quotient q r)))"

definition wide_mul_div_floor_u128_w :: "u128 \<Rightarrow> u128 \<Rightarrow> u128 \<Rightarrow> ('e, u128) res" where
  "wide_mul_div_floor_u128_w a b d =
     rthen (assertion (d > 0)) (\<lambda>_.
     rthen (mul_div_floor_u256_w (u256_from_u128 a) (u256_from_u128 b) (u256_from_u128 d)) (\<lambda>result.
     expect (u256_try_into_u128 result)))"

definition wide_signed_mul_div_floor_from_k_pair_w :: "u128 \<Rightarrow> u128 \<Rightarrow> u128 \<Rightarrow> u128 \<Rightarrow> ('e, u128) res" where
  "wide_signed_mul_div_floor_from_k_pair_w abs_basis k_then k_now den =
     rthen (assertion (den > 0)) (\<lambda>_.
     rthen (expect (i256_checked_sub (i256_from_i128 k_now) (i256_from_i128 k_then))) (\<lambda>d.
     if i256_is_zero d \<or> abs_basis = 0 then Ok 0
     else
       rthen (abs_u256 d) (\<lambda>abs_d.
       rthen (expect (u256_checked_mul (u256_from_u128 abs_basis) abs_d)) (\<lambda>p.
       rthen (div_rem_u256 p (u256_from_u128 den)) (\<lambda>(q, rem).
       if i256_is_negative d then
         rthen (if \<not> u256_is_zero rem then expect (u256_checked_add q U256_ONE) else Ok q) (\<lambda>mag.
         rthen (expect (u256_try_into_u128 mag)) (\<lambda>mag_u128.
         rthen (assertion (uint mag_u128 \<le> I128_MAX)) (\<lambda>_. Ok (- mag_u128))))
       else
         rthen (expect (u256_try_into_u128 q)) (\<lambda>q_u128.
         rthen (assertion (uint q_u128 \<le> I128_MAX)) (\<lambda>_. Ok q_u128)))))))"

definition wide_mul_div_ceil_u128_or_over_i128max_w ::
  "u128 \<Rightarrow> u128 \<Rightarrow> u128 \<Rightarrow> (over_i128_magnitude, u128) res"
where
  "wide_mul_div_ceil_u128_or_over_i128max_w a b d =
     rthen (assertion (d > 0)) (\<lambda>_.
     rthen (mul_div_ceil_u256_w (u256_from_u128 a) (u256_from_u128 b) (u256_from_u128 d)) (\<lambda>result.
     case u256_try_into_u128 result of
       Some v \<Rightarrow> if uint v \<le> I128_MAX then Ok v else Err OverI128Magnitude
     | None \<Rightarrow> Err OverI128Magnitude))"

section \<open>They compute the helpers of the engine model\<close>

lemma add_one_refines: "map_option val256 (u256_checked_add q U256_ONE) = fit_u256 (val256 q + 1)"
  by (simp add: u256_add_refines)

lemma map_expect: "map_res id f (expect v) = expect (map_option f v)"
  by (cases v) simp_all


lemma map_rthen: "map_res id f (rthen m k) = rthen m (\<lambda>x. map_res id f (k x))"
  by (cases m) simp_all

lemma round_up_refines:
  "map_res id val256 (if u256_is_zero r then Ok q else expect (u256_checked_add q U256_ONE))
     = (if val256 r = 0 then Ok (val256 q) else expect (fit_u256 (val256 q + 1)))"
  by (simp add: u256_is_zero_iff map_expect add_one_refines)

lemma val256_pos: "\<not> u256_is_zero d \<longleftrightarrow> 0 < val256 d"
  using val256_bounds(1)[of d] by (auto simp: u256_is_zero_iff)

lemma assertion_cases: "rthen (assertion b) k = (if b then k () else Panic)"
  by (simp add: assertion_def)

lemma ceil_div_refines:
  "map_res id val256 (ceil_div_positive_checked_w n d) = ceil_div_positive_checked (val256 n) (val256 d)"
proof (cases "u256_is_zero d")
  case False
  then obtain q r where r: "(div_rem_u256 n d :: ('a, _) res) = Ok (q, r)"
    "val256 q = val256 n div val256 d" "val256 r = val256 n mod val256 d"
    using div_rem_u256_value[of d n] val256_pos by blast
  then show ?thesis
    using False by (simp add: ceil_div_positive_checked_w_def ceil_div_positive_checked_def assertion_cases
        u256_is_zero_iff map_expect add_one_refines)
qed (simp add: ceil_div_positive_checked_w_def ceil_div_positive_checked_def assertion_cases u256_is_zero_iff)

lemma mul_div_rem_refines:
  "map_res id pair_val (mul_div_floor_u256_with_rem_w a b d)
     = mul_div_floor_u256_with_rem (val256 a) (val256 b) (val256 d)"
proof (cases "u256_is_zero d")
  case False
  then show ?thesis
    using div_rem_by_u256_value[OF mul_u256_value(2), of d a b] val256_pos[of d]
    by (simp add: mul_div_floor_u256_with_rem_w_def mul_div_floor_u256_with_rem_def assertion_cases
        mul_u256_value(1) Let_def)
qed (simp add: mul_div_floor_u256_with_rem_w_def mul_div_floor_u256_with_rem_def assertion_cases u256_is_zero_iff)

text \<open>A continuation of the pair that only looks at the values.\<close>

lemma rthen_pair:
  assumes "map_res id pair_val m = n" "\<And>q r. map_res id g (k q r) = l (val256 q) (val256 r)"
  shows "map_res id g (rthen m (\<lambda>(q, r). k q r)) = rthen n (\<lambda>(q, r). l q r)"
  using assms by (cases m) (auto simp: pair_val_def)

lemma mul_div_floor_refines:
  "map_res id val256 (mul_div_floor_u256_w a b d) = mul_div_floor_u256 (val256 a) (val256 b) (val256 d)"
proof -
  have e: "mul_div_floor_u256_w a b d = rthen (mul_div_floor_u256_with_rem_w a b d) (\<lambda>(q, r). Ok q)"
    by (simp add: mul_div_floor_u256_w_def mul_div_floor_u256_with_rem_w_def assertion_cases)
  show ?thesis unfolding e mul_div_floor_u256_def
    by (rule rthen_pair[OF mul_div_rem_refines]) simp
qed

lemma mul_div_ceil_refines:
  "map_res id val256 (mul_div_ceil_u256_w a b d) = mul_div_ceil_u256 (val256 a) (val256 b) (val256 d)"
proof -
  have e: "mul_div_ceil_u256_w a b d = rthen (mul_div_floor_u256_with_rem_w a b d)
      (\<lambda>(q, r). if u256_is_zero r then Ok q else expect (u256_checked_add q U256_ONE))"
    by (simp add: mul_div_ceil_u256_w_def mul_div_floor_u256_with_rem_w_def assertion_cases)
  show ?thesis unfolding e mul_div_ceil_u256_def
    by (rule rthen_pair[OF mul_div_rem_refines]) (rule round_up_refines)
qed

lemma try_into_halves: "u256_try_into_u128 x = (if u256_hi x = 0 then Some (u256_lo x) else None)"
proof (cases x)
  case (U256 a b c d)
  have "uint (u256_hi x) = uint c + b64 * uint d" unfolding U256 u256_hi.simps by (rule uint_pack)
  moreover have "uint c + b64 * uint d = 0 \<longleftrightarrow> c = 0 \<and> d = 0"
    using uint_bounded[of c] b64_pos by (auto simp: add_nonneg_eq_0_iff uint_0_iff)
  ultimately have "u256_hi x = 0 \<longleftrightarrow> c = 0 \<and> d = 0" by (metis uint_0_iff)
  then show ?thesis by (simp add: U256)
qed

lemma try_into_u128_refines: "map_option uint (u256_try_into_u128 x) = fit_u128 (val256 x)"
proof -
  note z = try_into_halves
  show ?thesis
  proof (cases "u256_hi x = 0")
    case True
    then show ?thesis
      using u128_bounds[of "u256_lo x"] unfolding z by (simp add: fit_u128_def in_u128_def val256_def bounds b128_def)
  next
    case False
    then have "b128 * 1 \<le> b128 * uint (u256_hi x)"
      using u128_pos b128_pos by (intro mult_left_mono) auto
    then have "b128 \<le> val256 x" using u128_bounds(1)[of "u256_lo x"] unfolding val256_def by linarith
    then have "\<not> in_u128 (val256 x)" by (simp add: in_u128_def bounds b128_def)
    then show ?thesis using False unfolding z by (simp add: fit_u128_def)
  qed
qed

lemma u128_gt_iff: "(0 :: u128) < w \<longleftrightarrow> 0 < uint w"
  by (simp add: word_less_def)

lemma wide_floor_u128_refines:
  "map_res id uint (wide_mul_div_floor_u128_w a b d) = wide_mul_div_floor_u128 (uint a) (uint b) (uint d)"
proof -
  have m: "map_res id val256 (mul_div_floor_u256_w (u256_from_u128 a) (u256_from_u128 b) (u256_from_u128 d))
      = (mul_div_floor_u256 (uint a) (uint b) (uint d) :: ('a, _) res)"
    by (simp add: mul_div_floor_refines)
  show ?thesis
    unfolding wide_mul_div_floor_u128_w_def wide_mul_div_floor_u128_def assertion_cases u128_gt_iff m[symmetric]
    by (cases "mul_div_floor_u256_w (u256_from_u128 a) (u256_from_u128 b) (u256_from_u128 d) :: ('a, _) res")
      (simp_all add: map_expect try_into_u128_refines)
qed

lemma wide_ceil_u128_refines:
  "map_res id uint (wide_mul_div_ceil_u128_or_over_i128max_w a b d)
     = wide_mul_div_ceil_u128_or_over_i128max (uint a) (uint b) (uint d)"
proof -
  let ?m = "mul_div_ceil_u256_w (u256_from_u128 a) (u256_from_u128 b) (u256_from_u128 d) :: (over_i128_magnitude, _) res"
  have m: "map_res id val256 ?m = mul_div_ceil_u256 (uint a) (uint b) (uint d)"
    by (simp add: mul_div_ceil_refines)
  have t: "fit_u128 (val256 x) = map_option uint (u256_try_into_u128 x)" for x
    by (rule try_into_u128_refines[symmetric])
  show ?thesis
    unfolding wide_mul_div_ceil_u128_or_over_i128max_w_def wide_mul_div_ceil_u128_or_over_i128max_def
      assertion_cases u128_gt_iff m[symmetric]
    by (cases ?m) (auto simp: t split: option.splits)
qed

lemma sint_nonneg: "uint v \<le> I128_MAX \<Longrightarrow> sint (v :: u128) = uint v" "uint v \<le> I128_MAX \<Longrightarrow> sint (- v) = - uint v"
proof -
  assume v: "uint v \<le> I128_MAX"
  then have lt: "uint v < b127" by (simp add: bounds b127_def)
  then show e: "sint v = uint v"
    using sint_u128[of v] sint_u128_range[of v] b127_twice by (cases "sint v < 0") auto
  have m: "uint (- v) = (- uint v) mod b128" by (simp add: uint_word_ariths b128_def take_bit_eq_mod)
  show "sint (- v) = - uint v"
  proof (cases "uint v = 0")
    case True
    then show ?thesis by (simp add: uint_0_iff)
  next
    case False
    then have p: "0 < uint v" using u128_bounds(1)[of v] by linarith
    then have "uint (- v) = b128 - uint v" unfolding m using mod_lift[of "- uint v"] u128_bounds(2)[of v] by simp
    then show ?thesis
      using sint_u128[of "- v"] sint_u128_range[of "- v"] b127_twice lt by (cases "sint (- v) < 0") auto
  qed
qed

lemma k_pair_refines:
  "map_res id sint (wide_signed_mul_div_floor_from_k_pair_w b k0 k1 den)
     = wide_signed_mul_div_floor_from_k_pair (uint b) (sint k0) (sint k1) (uint den)"
proof (cases "0 < uint den")
  case False
  then show ?thesis
    by (simp add: wide_signed_mul_div_floor_from_k_pair_w_def wide_signed_mul_div_floor_from_k_pair_def
        assertion_cases u128_gt_iff)
next
  case den: True
  have range: "- b128 < sint k1 - sint k0" "sint k1 - sint k0 < b128"
    using sint_u128_range[of k0] sint_u128_range[of k1] b127_twice by linarith+
  have "b128 < b255" by (simp add: b128_def b255_def)
  then have fit: "in_i256 (sint k1 - sint k0)" using range by (simp add: in_i256_half)
  then obtain d where d: "i256_checked_sub (i256_from_i128 k1) (i256_from_i128 k0) = Some d"
    "vali d = sint k1 - sint k0"
    using i256_sub_refines[of "i256_from_i128 k1" "i256_from_i128 k0"] by (auto simp: from_i128_value fit_i256_def)
  have nm: "vali d \<noteq> I256_MIN" using d(2) range \<open>b128 < b255\<close> by (simp add: I256_bounds_b)
  have nb: "d \<noteq> I256_BOT" using nm is_min_vali[of d] by blast
  show ?thesis
  proof (cases "vali d = 0 \<or> b = 0")
    case True
    then show ?thesis
      using den d fit
      by (auto simp: wide_signed_mul_div_floor_from_k_pair_w_def wide_signed_mul_div_floor_from_k_pair_def
          assertion_cases u128_gt_iff is_zero_vali fit_i256_def uint_0_iff)
  next
    case False
    define P where "P = u256_checked_mul (u256_from_u128 b) (abs_limbs d)"
    have p: "fit_u256 (uint b * \<bar>sint k1 - sint k0\<bar>) = map_option val256 P"
      by (simp add: P_def u256_mul_refines abs_limbs_value[OF nm] d(2))
    have w: "wide_signed_mul_div_floor_from_k_pair_w b k0 k1 den =
        rthen (expect P) (\<lambda>p. rthen (div_rem_u256 p (u256_from_u128 den)) (\<lambda>(q, rem).
          if vali d < 0 then
            rthen (if \<not> u256_is_zero rem then expect (u256_checked_add q U256_ONE) else Ok q) (\<lambda>mag.
            rthen (expect (u256_try_into_u128 mag)) (\<lambda>m.
            rthen (assertion (uint m \<le> I128_MAX)) (\<lambda>_. Ok (- m))))
          else rthen (expect (u256_try_into_u128 q)) (\<lambda>m.
            rthen (assertion (uint m \<le> I128_MAX)) (\<lambda>_. Ok m))))"
      using den d(1) False nb
      by (simp add: wide_signed_mul_div_floor_from_k_pair_w_def assertion_cases[of True] u128_gt_iff is_zero_vali
          abs_u256_eq P_def negative_vali)
    have s: "wide_signed_mul_div_floor_from_k_pair (uint b) (sint k0) (sint k1) (uint den) =
        rthen (expect (map_option val256 P)) (\<lambda>p.
          let q = p div uint den; rem = p mod uint den in
          if vali d < 0 then
            rthen (if rem \<noteq> 0 then expect (fit_u256 (q + 1)) else Ok q) (\<lambda>mag.
            rthen (expect (fit_u128 mag)) (\<lambda>m. rthen (assertion (m \<le> I128_MAX)) (\<lambda>_. Ok (- m))))
          else rthen (expect (fit_u128 q)) (\<lambda>m. rthen (assertion (m \<le> I128_MAX)) (\<lambda>_. Ok m)))"
      using den False fit d(2)
      by (simp add: wide_signed_mul_div_floor_from_k_pair_def assertion_cases[of True] fit_i256_def p uint_0_iff)
    have out: "map_res id sint (rthen (expect (u256_try_into_u128 x)) (\<lambda>m. rthen (assertion (uint m \<le> I128_MAX)) (\<lambda>_. Ok m)))
        = rthen (expect (fit_u128 (val256 x))) (\<lambda>m. rthen (assertion (m \<le> I128_MAX)) (\<lambda>_. Ok m))"
      "map_res id sint (rthen (expect (u256_try_into_u128 x)) (\<lambda>m. rthen (assertion (uint m \<le> I128_MAX)) (\<lambda>_. Ok (- m))))
        = rthen (expect (fit_u128 (val256 x))) (\<lambda>m. rthen (assertion (m \<le> I128_MAX)) (\<lambda>_. Ok (- m)))" for x
      unfolding try_into_u128_refines[symmetric]
      by (cases "u256_try_into_u128 x"; simp add: assertion_cases sint_nonneg)+
    show ?thesis
    proof (cases P)
      case None
      then show ?thesis unfolding w s by simp
    next
      case (Some v)
      obtain q r where r: "(div_rem_u256 v (u256_from_u128 den) :: ('a, _) res) = Ok (q, r)"
        "val256 q = val256 v div uint den" "val256 r = val256 v mod uint den"
        using div_rem_u256_value[of "u256_from_u128 den" v] den by auto
      have up: "fit_u256 (val256 q + 1) = map_option val256 (u256_checked_add q U256_ONE)"
        by (rule add_one_refines[symmetric])
      show ?thesis
        unfolding w s Some
        by (cases "u256_checked_add q U256_ONE"; cases "vali d < 0"; cases "u256_is_zero r")
          (simp_all add: r out Let_def u256_is_zero_iff up flip: r(2,3))
    qed
  qed
qed

text \<open>The signed division: exact, except that a result equal to the most negative value panics.\<close>

lemma neg_div_ge:
  fixes n :: int
  assumes "0 < D" "0 < n"
  shows "- n \<le> (- n) div D"
proof -
  have "(- n) div 1 \<le> (- n) div D" using assms by (intro zdiv_mono2_neg) auto
  then show ?thesis by simp
qed

lemma neg_quotient_value:
  fixes n :: int
  assumes "0 < D" "0 < n" "- b255 \<le> (- n) div D" "val256 q = n div D" "val256 r = n mod D"
  shows "map_res id vali (neg_quotient q r) = (if (- n) div D = I256_MIN then Panic else Ok ((- n) div D))"
proof -
  define f where "f = - ((- n) div D)"
  have f: "f = (if n mod D \<noteq> 0 then n div D + 1 else n div D)"
    using ceil_eq[OF assms(1), of n] by (simp add: f_def)
  have nn: "0 \<le> n div D" "n div D \<le> n" using div_le_num[of n D] assms by auto
  have "(- n) div D < 0" using assms by (simp add: div_neg_pos_less0)
  then have f0: "0 < f" by (simp add: f_def)
  have fle: "f \<le> b255" using assms(3) by (simp add: f_def)
  have b: "b255 < b128 * b128" using b255_twice b255_pos by linarith
  obtain z where z: "(if u256_is_zero r then Ok q else expect (u256_checked_add q U256_ONE)) = (Ok z :: ('a, _) res)"
    "val256 z = f"
  proof (cases "u256_is_zero r")
    case True
    then show ?thesis using that[of q] f assms by (simp add: u256_is_zero_iff)
  next
    case False
    then have "f = val256 q + 1" using f assms by (simp add: u256_is_zero_iff)
    then have "map_option val256 (u256_checked_add q U256_ONE) = Some f"
      unfolding add_one_refines using f0 fle b by (simp add: fit_u256_def in_u256_def U256_MAX_b128)
    then obtain y where "u256_checked_add q U256_ONE = Some y" "val256 y = f" by auto
    then show ?thesis using False that[of y] by simp
  qed
  have e: "(neg_quotient q r :: ('a, _) res) = expect (i256_checked_neg (from_raw_u256 z))"
    unfolding neg_quotient_def z(1) using z(2) f0 by (simp add: u256_is_zero_iff)
  have v: "vali (from_raw_u256 z) = (if f = b255 then - b255 else f)"
    unfolding vali_raw using z(2) fle by auto
  have m: "(- n) div D = - f" by (simp add: f_def)
  show ?thesis
    unfolding e map_expect i256_neg_refines v m using f0 fle b255_pos
    by (auto simp: fit_i256_def in_i256_half I256_bounds_b)
qed

lemma floor_div_value:
  "map_res id vali (floor_div_signed_conservative n d) =
     (if val256 d = 0 \<or> vali n div val256 d = I256_MIN then Panic else Ok (vali n div val256 d))"
proof (cases "u256_is_zero d")
  case True
  then show ?thesis by (simp add: floor_div_signed_conservative_def assertion_cases u256_is_zero_iff)
next
  case False
  then have d: "0 < val256 d" using val256_pos by blast
  consider (zero) "vali n = 0" | (pos) "0 < vali n" | (neg) "vali n < 0" by linarith
  then show ?thesis
  proof cases
    case zero
    then show ?thesis
      using False d b255_pos
      by (simp add: floor_div_signed_conservative_def assertion_cases is_zero_vali I256_bounds_b)
  next
    case pos
    then have nm: "vali n \<noteq> I256_MIN" using b255_pos by (simp add: I256_bounds_b)
    then have nb: "n \<noteq> I256_BOT" using is_min_vali by blast
    obtain q r where r: "(div_rem_u256 (abs_limbs n) d :: ('a, _) res) = Ok (q, r)"
      "val256 q = vali n div val256 d"
      using div_rem_u256_value[OF d, of "abs_limbs n"] pos by (auto simp: abs_limbs_value[OF nm])
    have le: "0 \<le> vali n div val256 d" "vali n div val256 d \<le> vali n" using div_le_num[of "vali n"] pos d by auto
    then have "val256 q < b255" using vali_range(2)[of n] r(2) by linarith
    then have "vali (from_raw_u256 q) = vali n div val256 d" unfolding vali_raw[of "from_raw_u256 q"] using r(2) by simp
    then show ?thesis
      using False pos d nb r le(1) b255_pos
      by (simp add: floor_div_signed_conservative_def assertion_cases is_zero_vali negative_vali abs_u256_eq I256_bounds_b)
  next
    case neg
    define inv where "inv = u256_new (NOT (u256_lo (as_raw_u256 n))) (NOT (u256_hi (as_raw_u256 n)))"
    have rw: "raw n = vali n + 2 * b255" using neg raw_range[of n] unfolding vali_raw by (auto split: if_splits)
    have "val256 inv = (b128 - 1 - uint (u256_lo (as_raw_u256 n))) + b128 * (b128 - 1 - uint (u256_hi (as_raw_u256 n)))"
      unfolding inv_def val256_new uint_not_u128 ..
    also have "\<dots> = b128 * b128 - 1 - raw n" unfolding val256_def by algebra
    finally have i: "val256 inv = - vali n - 1" unfolding rw b255_twice by simp
    have "map_option val256 (u256_checked_add inv U256_ONE) = Some (- vali n)"
      unfolding add_one_refines i using neg vali_range(1)[of n] b255_twice b255_pos by (simp add: fit_u256_def in_u256_def U256_MAX_b128)
    then obtain a where a: "u256_checked_add inv U256_ONE = Some a" "val256 a = - vali n" by auto
    obtain q r where r: "(div_rem_u256 a d :: ('a, _) res) = Ok (q, r)" "val256 q = (- vali n) div val256 d"
      "val256 r = (- vali n) mod val256 d"
      using div_rem_u256_value[OF d, of a] a(2) by auto
    have w: "(floor_div_signed_conservative n d :: ('a, _) res) = neg_quotient q r"
      using False neg a(1) r(1)
      by (simp add: floor_div_signed_conservative_def assertion_cases is_zero_vali negative_vali Let_def flip: inv_def)
    show ?thesis
      unfolding w using neg_quotient_value[OF d _ _ r(2,3), where ?'a = 'a] neg vali_range(1)[of n] d
        neg_div_ge[OF d, of "- vali n"] by simp
  qed
qed

text \<open>
  The wide signed product: exact for a non-positive difference; for a positive one the quotient is
  reinterpreted without a range check, so that a quotient of \<open>2 ^ 255\<close> or more comes out negative.
\<close>

lemma wide_signed_floor_value:
  assumes d: "0 < val256 d" and k: "vali k \<noteq> I256_MIN" and b: "\<bar>val256 a * vali k div val256 d\<bar> < b255"
  shows "map_res id vali (wide_signed_mul_div_floor a k d) = Ok (val256 a * vali k div val256 d)"
proof -
  have nz: "\<not> u256_is_zero d" using d val256_pos by blast
  have nb: "k \<noteq> I256_BOT" using k is_min_vali by blast
  show ?thesis
  proof (cases "vali k = 0 \<or> val256 a = 0")
    case True
    then show ?thesis using nz
      by (auto simp: wide_signed_mul_div_floor_def assertion_cases is_zero_vali u256_is_zero_iff)
  next
    case False
    then have a: "0 < val256 a" using val256_bounds(1)[of a] by linarith
    define n where "n = val256 a * \<bar>vali k\<bar>"
    have n0: "0 < n" using False a by (simp add: n_def)
    have m: "val512 (mul_u256 a (abs_limbs k)) = n" by (simp add: n_def mul_u256_value(1) abs_limbs_value[OF k])
    have qle: "n div val256 d \<le> b255"
    proof (cases "vali k < 0")
      case True
      then have e: "val256 a * vali k = - n" by (simp add: n_def)
      have "n div val256 d \<le> - ((- n) div val256 d)"
        using ceil_eq[OF d, of n] by (auto split: if_splits)
      then show ?thesis using b unfolding e by linarith
    next
      case F: False
      then have "val256 a * vali k = n" by (simp add: n_def)
      then show ?thesis using b by simp
    qed
    have q0: "0 \<le> n div val256 d" using n0 d by (simp add: pos_imp_zdiv_nonneg_iff)
    have "b255 < b128 * b128" using b255_twice b255_pos by linarith
    then have fit: "fit_u256 (n div val256 d) = Some (n div val256 d)"
      using qle q0 by (simp add: fit_u256_def in_u256_def U256_MAX_b128)
    obtain q r where r: "(div_rem_by_u256 (mul_u256 a (abs_limbs k)) d :: ('a, _) res) = Ok (q, r)"
      "val256 q = n div val256 d" "val256 r = n mod val256 d"
      using div_rem_by_u256_value[OF mul_u256_value(2) d, of a "abs_limbs k", where ?'a = 'a]
      unfolding m fit by (cases "div_rem_by_u256 (mul_u256 a (abs_limbs k)) d :: ('a, _) res") (auto simp: pair_val_def)
    show ?thesis
    proof (cases "vali k < 0")
      case True
      then have e: "val256 a * vali k = - n" by (simp add: n_def)
      have w: "(wide_signed_mul_div_floor a k d :: ('a, _) res) = neg_quotient q r"
        using nz False True nb r(1)
        by (simp add: wide_signed_mul_div_floor_def assertion_cases is_zero_vali u256_is_zero_iff negative_vali abs_u256_eq)
      show ?thesis
        unfolding w e using neg_quotient_value[OF d n0 _ r(2,3), where ?'a = 'a] b[unfolded e] by (simp add: I256_bounds_b)
    next
      case F: False
      then have e: "val256 a * vali k = n" by (simp add: n_def)
      have "vali (from_raw_u256 q) = n div val256 d" unfolding vali_raw[of "from_raw_u256 q"] using r(2) b[unfolded e] q0 by simp
      then show ?thesis
        using nz False F nb r(1) unfolding e
        by (simp add: wide_signed_mul_div_floor_def assertion_cases is_zero_vali u256_is_zero_iff negative_vali abs_u256_eq)
    qed
  qed
qed

lemma wide_signed_floor_wraps:
  "\<exists>v. wide_signed_mul_div_floor (u256_new 0 (push_bit 127 1)) I256_ONE U256_ONE = Ok v \<and> vali v = I256_MIN"
proof -
  let ?a = "u256_new 0 (push_bit 127 1)"
  have t: "uint (push_bit 127 1 :: u128) = b127" unfolding b127_def by code_simp
  have a: "val256 ?a = b255" unfolding val256_new t b255_mult by simp
  have m: "val512 (mul_u256 ?a (abs_limbs I256_ONE)) = b255"
    unfolding mul_u256_value(1) a by (simp add: abs_limbs_value I256_MIN_def)
  have fit: "fit_u256 b255 = Some b255" by (simp add: fit_u256_def in_u256_def b255_def U256_MAX_def)
  obtain q r where r: "(div_rem_by_u256 (mul_u256 ?a (abs_limbs I256_ONE)) U256_ONE :: ('a, _) res) = Ok (q, r)"
    "val256 q = b255"
    using div_rem_by_u256_value[OF mul_u256_value(2), of U256_ONE ?a "abs_limbs I256_ONE", where ?'a = 'a]
    unfolding m by (cases "div_rem_by_u256 (mul_u256 ?a (abs_limbs I256_ONE)) U256_ONE :: ('a, _) res")
      (auto simp: pair_val_def fit)
  have "I256_ONE \<noteq> I256_BOT" by (simp add: I256_ONE_def I256_BOT_def)
  then have "wide_signed_mul_div_floor ?a I256_ONE U256_ONE = (Ok (from_raw_u256 q) :: ('a, _) res)"
    using r(1) unfolding wide_signed_mul_div_floor_def assertion_cases is_zero_vali u256_is_zero_iff negative_vali a
    using b255_pos by (simp add: abs_u256_eq)
  moreover have "vali (from_raw_u256 q) = I256_MIN"
    unfolding vali_raw[of "from_raw_u256 q"] using r(2) by (simp add: I256_bounds_b)
  ultimately show ?thesis by blast
qed

lemma checked_ceil_value:
  assumes d: "0 < val256 d"
  shows "map_res id (map_option val256) (checked_mul_div_ceil_u256 a b d)
     = Ok (fit_u256 (- ((- (val256 a * val256 b)) div val256 d)))"
proof -
  define p where "p = val256 a * val256 b"
  have p0: "0 \<le> p" by (simp add: p_def val256_bounds)
  have nz: "\<not> u256_is_zero d" using d val256_pos by blast
  have c: "- ((- p) div val256 d) = (if p mod val256 d \<noteq> 0 then p div val256 d + 1 else p div val256 d)"
    by (rule ceil_eq[OF d, symmetric])
  have v: "map_res id (map_option pair_val) (checked_div_rem_by_u256 (mul_u256 a b) d :: ('a, _) res)
     = Ok (map_option (\<lambda>q. (q, p mod val256 d)) (fit_u256 (p div val256 d)))"
    using checked_div_rem_value[OF mul_u256_value(2) d, of a b] unfolding mul_u256_value(1) p_def[symmetric] .
  have q0: "0 \<le> p div val256 d" using p0 d by (simp add: pos_imp_zdiv_nonneg_iff)
  obtain o1 where o1: "(checked_div_rem_by_u256 (mul_u256 a b) d :: ('a, _) res) = Ok o1"
    "map_option pair_val o1 = map_option (\<lambda>q. (q, p mod val256 d)) (fit_u256 (p div val256 d))"
    using v by (cases "checked_div_rem_by_u256 (mul_u256 a b) d :: ('a, _) res") auto
  show ?thesis
  proof (cases o1)
    case None
    then have "\<not> in_u256 (p div val256 d)" using o1(2) by (auto simp: fit_u256_def split: if_splits)
    then have "\<not> in_u256 (- ((- p) div val256 d))"
      unfolding c using q0 by (auto simp: in_u256_def)
    then show ?thesis using nz o1(1) None by (simp add: checked_mul_div_ceil_u256_def fit_u256_def flip: p_def)
  next
    case (Some qr)
    then obtain q r where qr: "qr = (q, r)" "val256 q = p div val256 d" "val256 r = p mod val256 d"
      using o1(2) by (cases qr) (auto simp: pair_val_def fit_u256_def split: if_splits)
    have "in_u256 (val256 q)" by (rule in_u256_val)
    then have fq: "fit_u256 (val256 q) = Some (val256 q)" by (simp add: fit_u256_def)
    show ?thesis
      using nz o1(1) unfolding Some qr(1) p_def[symmetric] c
      by (cases "val256 r = 0")
        (simp_all add: checked_mul_div_ceil_u256_def u256_is_zero_iff add_one_refines fq flip: qr(2,3))
  qed
qed

lemma saturating_mul_value:
  "val256 (saturating_mul_u256_u64 a b) = min U256_MAX (val256 a * uint b)"
proof -
  have "u256_lo (u256_from_u64 b) = ucast b" "u256_hi (u256_from_u64 b) = 0"
    by (simp_all add: u256_from_u64_def)
  moreover have "uint (ucast b :: u128) = uint b" by (rule uint_up_ucast) (simp add: is_up)
  ultimately have b: "val256 (u256_from_u64 b) = uint b" by (simp add: val256_def)
  have "0 \<le> val256 a * uint b" by (simp add: val256_bounds)
  then show ?thesis
    using u256_mul_refines[of a "u256_from_u64 b"] unfolding b
    by (auto simp: saturating_mul_u256_u64_def fit_u256_def in_u256_def split: option.splits if_splits)
qed

end
