(* ===== verification/Kani.thy ===== *)
theory Kani
  imports WideMath
begin

unbundle bit_operations_syntax

text \<open>
  The layout of \<open>U256\<close> and \<open>I256\<close> that the model checker sees (\<open>cfg(kani)\<close> in
  \<open>src/src/wide_math.rs\<close>): two \<open>u128\<close> words instead of four \<open>u64\<close> limbs. What is proved of that
  build says something of the shipped build only if the two layouts compute the same; each operation
  is translated and shown equal to the limb version through the packing \<open>limbs\<close> and \<open>ilimbs\<close>.
\<close>

section \<open>\<open>U256\<close> as two words\<close>

datatype kani_u256 = KU256 (klo: u128) (khi: u128)

definition ku_ZERO :: kani_u256 where "ku_ZERO = KU256 0 0"
definition ku_TOP :: kani_u256 where "ku_TOP = KU256 (- 1) (- 1)"

definition ku_is_zero :: "kani_u256 \<Rightarrow> bool" where
  "ku_is_zero x = (klo x = 0 \<and> khi x = 0)"

definition ku_try_into_u128 :: "kani_u256 \<Rightarrow> u128 option" where
  "ku_try_into_u128 x = (if khi x = 0 then Some (klo x) else None)"

definition checked_sub_u128 :: "u128 \<Rightarrow> u128 \<Rightarrow> u128 option" where
  "checked_sub_u128 a b = (if uint b \<le> uint a then Some (a - b) else None)"

definition ku_checked_add :: "kani_u256 \<Rightarrow> kani_u256 \<Rightarrow> kani_u256 option" where
  "ku_checked_add x y =
     (let (l, carry) = overflowing_add (klo x) (klo y) in
      Option.bind (checked_add_u128 (khi x) (khi y)) (\<lambda>h.
      Option.bind (if carry then checked_add_u128 h 1 else Some h) (\<lambda>h.
      Some (KU256 l h))))"

definition ku_checked_sub :: "kani_u256 \<Rightarrow> kani_u256 \<Rightarrow> kani_u256 option" where
  "ku_checked_sub x y =
     (let (l, borrow) = overflowing_sub (klo x) (klo y) in
      Option.bind (checked_sub_u128 (khi x) (khi y)) (\<lambda>h.
      Option.bind (if borrow then checked_sub_u128 h 1 else Some h) (\<lambda>h.
      Some (KU256 l h))))"

definition ku_checked_mul :: "kani_u256 \<Rightarrow> kani_u256 \<Rightarrow> kani_u256 option" where
  "ku_checked_mul x y =
     (if khi x \<noteq> 0 \<and> khi y \<noteq> 0 then None
      else
        let (prod_lo, prod_hi) = widening_mul_u128 (klo x) (klo y) in
        Option.bind (u256_cross (khi y) (klo x)) (\<lambda>cross1.
        Option.bind (u256_cross (khi x) (klo y)) (\<lambda>cross2.
        Option.bind (checked_add_u128 prod_hi cross1) (\<lambda>h.
        Option.bind (checked_add_u128 h cross2) (\<lambda>h.
        Some (KU256 prod_lo h))))))"

definition ku_overflowing_add :: "kani_u256 \<Rightarrow> kani_u256 \<Rightarrow> kani_u256 \<times> bool" where
  "ku_overflowing_add x y =
     (let (l, carry) = overflowing_add (klo x) (klo y);
          (h, overflow1) = overflowing_add (khi x) (khi y);
          (h, overflow2) = (if carry then overflowing_add h 1 else (h, False)) in
      (KU256 l h, overflow1 \<or> overflow2))"

definition ku_overflowing_sub :: "kani_u256 \<Rightarrow> kani_u256 \<Rightarrow> kani_u256 \<times> bool" where
  "ku_overflowing_sub x y =
     (let (l, borrow) = overflowing_sub (klo x) (klo y);
          (h, underflow1) = overflowing_sub (khi x) (khi y);
          (h, underflow2) = (if borrow then overflowing_sub h 1 else (h, False)) in
      (KU256 l h, underflow1 \<or> underflow2))"

definition ku_saturating_add :: "kani_u256 \<Rightarrow> kani_u256 \<Rightarrow> kani_u256" where
  "ku_saturating_add x y = (case ku_checked_add x y of Some z \<Rightarrow> z | None \<Rightarrow> ku_TOP)"

definition ku_saturating_sub :: "kani_u256 \<Rightarrow> kani_u256 \<Rightarrow> kani_u256" where
  "ku_saturating_sub x y = (case ku_checked_sub x y of Some z \<Rightarrow> z | None \<Rightarrow> ku_ZERO)"

definition ku_shl :: "kani_u256 \<Rightarrow> nat \<Rightarrow> kani_u256" where
  "ku_shl x bits =
     (if bits \<ge> 256 then ku_ZERO
      else if bits = 0 then x
      else if bits \<ge> 128 then KU256 0 (push_bit (bits - 128) (klo x))
      else KU256 (push_bit bits (klo x)) (push_bit bits (khi x) OR drop_bit (128 - bits) (klo x)))"

definition ku_shr :: "kani_u256 \<Rightarrow> nat \<Rightarrow> kani_u256" where
  "ku_shr x bits =
     (if bits \<ge> 256 then ku_ZERO
      else if bits = 0 then x
      else if bits \<ge> 128 then KU256 (drop_bit (bits - 128) (khi x)) 0
      else KU256 (drop_bit bits (klo x) OR push_bit (128 - bits) (khi x)) (drop_bit bits (khi x)))"

definition ku_bitand :: "kani_u256 \<Rightarrow> kani_u256 \<Rightarrow> kani_u256" where
  "ku_bitand x y = KU256 (klo x AND klo y) (khi x AND khi y)"

definition ku_bitor :: "kani_u256 \<Rightarrow> kani_u256 \<Rightarrow> kani_u256" where
  "ku_bitor x y = KU256 (klo x OR klo y) (khi x OR khi y)"

section \<open>Equality with the limb layout\<close>

definition limbs :: "kani_u256 \<Rightarrow> u256" where
  "limbs x = u256_new (klo x) (khi x)"

lemma limbs_halves [simp]: "u256_lo (limbs x) = klo x" "u256_hi (limbs x) = khi x"
  by (simp_all add: limbs_def)

lemma limbs_new: "limbs (KU256 l h) = u256_new l h"
  by (simp add: limbs_def)

lemma limbs_inject [simp]: "limbs x = limbs y \<longleftrightarrow> x = y"
  by (metis kani_u256.expand limbs_halves)

lemma limbs_consts [simp]: "limbs ku_ZERO = U256_ZERO" "limbs ku_TOP = U256_TOP"
  by code_simp+

lemma kani_overflowing:
  "map_prod limbs id (ku_overflowing_add x y) = u256_overflowing_add (limbs x) (limbs y)"
  "map_prod limbs id (ku_overflowing_sub x y) = u256_overflowing_sub (limbs x) (limbs y)"
proof -
  have z: "overflowing_add h 0 = (h, False)" "overflowing_sub h 0 = (h, False)" for h
    using uint_bounded[of h] by (simp_all add: overflowing_add_def overflowing_sub_def)
  show "map_prod limbs id (ku_overflowing_add x y) = u256_overflowing_add (limbs x) (limbs y)"
    "map_prod limbs id (ku_overflowing_sub x y) = u256_overflowing_sub (limbs x) (limbs y)"
    by (auto simp: ku_overflowing_add_def ku_overflowing_sub_def u256_overflowing_add_def
        u256_overflowing_sub_def add_u128_carry_def sub_u128_borrow_def of_flag_def z limbs_new split: prod.splits if_splits)
qed

lemma kani_checked_value:
  "map_option limbs (ku_checked_add x y) = u256_checked_add (limbs x) (limbs y)"
  "map_option limbs (ku_checked_sub x y) = u256_checked_sub (limbs x) (limbs y)"
proof -
  obtain l c where l: "overflowing_add (klo x) (klo y) = (l, c)" by fastforce
  have one: "uint (1 :: u128) = 1" by simp
  have add: "map_option limbs (ku_checked_add x y)
      = (if uint (khi x) + uint (khi y) + of_bool c < b128 then Some (u256_new l (khi x + khi y + of_flag c)) else None)"
    using u128_bounds(1)[of "khi x"] u128_bounds(1)[of "khi y"]
    by (cases c) (auto simp: ku_checked_add_def l checked_add_value limbs_new of_flag_def uint_small_sum)
  obtain h k where h: "add_u128_carry (khi x) (khi y) c = (h, k)" by fastforce
  have hv: "uint (khi x) + uint (khi y) + of_bool c = uint h + of_bool k * b128" by (rule add_u128_carry_value[OF h])
  have lc: "add_u128_carry (klo x) (klo y) False = (l, c)"
    using l u128_bounds(2)[of l] by (simp add: add_u128_carry_def of_flag_def overflowing_add_def b128_def)
  have hw: "h = khi x + khi y + of_flag c"
    using h by (auto simp: add_u128_carry_def overflowing_add_def Let_def)
  show "map_option limbs (ku_checked_add x y) = u256_checked_add (limbs x) (limbs y)"
    unfolding add using hv hw u128_bounds[of h] by (cases k) (simp_all add: u256_checked_add_def lc h)
  obtain l b where l: "overflowing_sub (klo x) (klo y) = (l, b)" by fastforce
  have sub: "map_option limbs (ku_checked_sub x y)
      = (if 0 \<le> uint (khi x) - uint (khi y) - of_bool b then Some (u256_new l (khi x - khi y - of_flag b)) else None)"
  proof -
    have d: "uint (khi x - khi y) = uint (khi x) - uint (khi y)" if "uint (khi y) \<le> uint (khi x)"
      unfolding uint_sub_u128 using that u128_bounds(2)[of "khi x"] u128_bounds(1)[of "khi y"]
      by (intro mod_b128; linarith)
    show ?thesis
      by (cases b; cases "uint (khi y) \<le> uint (khi x)")
        (auto simp: ku_checked_sub_def l checked_sub_u128_def limbs_new of_flag_def d)
  qed
  obtain h k where h: "sub_u128_borrow (khi x) (khi y) b = (h, k)" by fastforce
  have hv: "uint (khi x) - uint (khi y) - of_bool b = uint h - of_bool k * b128" by (rule sub_u128_borrow_value[OF h])
  have lb: "sub_u128_borrow (klo x) (klo y) False = (l, b)"
    using l by (simp add: sub_u128_borrow_def of_flag_def overflowing_sub_def)
  have hw: "h = khi x - khi y - of_flag b"
    using h by (auto simp: sub_u128_borrow_def overflowing_sub_def Let_def)
  show "map_option limbs (ku_checked_sub x y) = u256_checked_sub (limbs x) (limbs y)"
    unfolding sub using hv hw u128_bounds[of h] by (cases k) (simp_all add: u256_checked_sub_def lb h)
qed

lemma kani_checked_mul: "map_option limbs (ku_checked_mul x y) = u256_checked_mul (limbs x) (limbs y)"
  by (auto simp: ku_checked_mul_def u256_checked_mul_def limbs_new map_option_bind comp_def Let_def split: prod.splits)

lemma kani_rest:
  "limbs (ku_saturating_add x y) = u256_saturating_add (limbs x) (limbs y)"
  "limbs (ku_saturating_sub x y) = u256_saturating_sub (limbs x) (limbs y)"
  "limbs (ku_shl x n) = u256_shl (limbs x) n" "limbs (ku_shr x n) = u256_shr (limbs x) n"
  "limbs (ku_bitand x y) = u256_bitand (limbs x) (limbs y)" "limbs (ku_bitor x y) = u256_bitor (limbs x) (limbs y)"
  by (simp_all add: ku_saturating_add_def ku_saturating_sub_def u256_saturating_add_def u256_saturating_sub_def
      ku_shl_def ku_shr_def u256_shl_def u256_shr_def ku_bitand_def ku_bitor_def u256_bitand_def u256_bitor_def
      limbs_new Let_def flip: kani_checked_value split: option.splits)

lemma kani_tests:
  "ku_is_zero x = u256_is_zero (limbs x)" "ku_try_into_u128 x = u256_try_into_u128 (limbs x)"
proof -
  have z: "ku_is_zero x \<longleftrightarrow> x = ku_ZERO" by (cases x) (simp add: ku_is_zero_def ku_ZERO_def)
  have "x = ku_ZERO \<longleftrightarrow> limbs x = limbs ku_ZERO" by (simp only: limbs_inject)
  then show "ku_is_zero x = u256_is_zero (limbs x)"
    unfolding z by (metis limbs_consts(1) u256_is_zero_iff val256_consts(1) val256_inject)
  show "ku_try_into_u128 x = u256_try_into_u128 (limbs x)"
    by (simp add: ku_try_into_u128_def try_into_halves)
qed

section \<open>\<open>I256\<close> as two words\<close>

datatype kani_i256 = KI256 (kilo: u128) (kihi: u128)

definition ki_ZERO :: kani_i256 where "ki_ZERO = KI256 0 0"
definition ki_ONE :: kani_i256 where "ki_ONE = KI256 1 0"
definition ki_MINUS_ONE :: kani_i256 where "ki_MINUS_ONE = KI256 (- 1) (- 1)"
definition ki_TOP :: kani_i256 where "ki_TOP = KI256 (- 1) (drop_bit 1 (- 1))"
definition ki_BOT :: kani_i256 where "ki_BOT = KI256 0 (push_bit 127 1)"

definition ki_from_i128 :: "u128 \<Rightarrow> kani_i256" where
  "ki_from_i128 v = KI256 v (if sint v < 0 then - 1 else 0)"

definition ki_from_u128 :: "u128 \<Rightarrow> kani_i256" where
  "ki_from_u128 v = KI256 v 0"

definition ki_try_into_i128 :: "kani_i256 \<Rightarrow> u128 option" where
  "ki_try_into_i128 x = (if kihi x = (if sint (kilo x) < 0 then - 1 else 0) then Some (kilo x) else None)"

definition ki_is_zero :: "kani_i256 \<Rightarrow> bool" where
  "ki_is_zero x = (kilo x = 0 \<and> kihi x = 0)"

definition ki_is_negative :: "kani_i256 \<Rightarrow> bool" where
  "ki_is_negative x = (drop_bit 127 (kihi x) \<noteq> 0)"

definition ki_is_positive :: "kani_i256 \<Rightarrow> bool" where
  "ki_is_positive x = (\<not> ki_is_zero x \<and> \<not> ki_is_negative x)"

definition ki_signum :: "kani_i256 \<Rightarrow> int" where
  "ki_signum x = (if ki_is_zero x then 0 else if ki_is_negative x then - 1 else 1)"

definition ki_abs_u256 :: "kani_i256 \<Rightarrow> ('e, kani_u256) res" where
  "ki_abs_u256 x =
     (if ki_is_negative x then
        rthen (assertion (x \<noteq> ki_BOT)) (\<lambda>_. let (l, h) = neg_halves (kilo x) (kihi x) in Ok (KU256 l h))
      else Ok (KU256 (kilo x) (kihi x)))"

definition ki_checked_neg :: "kani_i256 \<Rightarrow> kani_i256 option" where
  "ki_checked_neg x =
     (if x = ki_BOT then None else let (l, h) = neg_halves (kilo x) (kihi x) in Some (KI256 l h))"

definition ki_checked_add :: "kani_i256 \<Rightarrow> kani_i256 \<Rightarrow> kani_i256 option" where
  "ki_checked_add x y =
     (let (l, carry) = overflowing_add (kilo x) (kilo y);
          (h, overflow1) = overflowing_add (kihi x) (kihi y);
          (h, overflow2) = overflowing_add h (if carry then 1 else 0);
          result = KI256 l h in
      if ki_is_negative x = ki_is_negative y \<and> ki_is_negative result \<noteq> ki_is_negative x then None
      else Some result)"

definition ki_checked_sub :: "kani_i256 \<Rightarrow> kani_i256 \<Rightarrow> kani_i256 option" where
  "ki_checked_sub x y =
     (case ki_checked_neg y of
        Some n \<Rightarrow> ki_checked_add x n
      | None \<Rightarrow>
          let (l, borrow) = overflowing_sub (kilo x) (kilo y);
              (h, underflow1) = overflowing_sub (kihi x) (kihi y);
              (h, underflow2) = overflowing_sub h (if borrow then 1 else 0);
              result = KI256 l h in
          if ki_is_negative x \<noteq> True \<and> ki_is_negative result \<noteq> ki_is_negative x then None
          else Some result)"

definition ki_saturating_add :: "kani_i256 \<Rightarrow> kani_i256 \<Rightarrow> kani_i256" where
  "ki_saturating_add x y =
     (case ki_checked_add x y of Some v \<Rightarrow> v | None \<Rightarrow> if ki_is_negative y then ki_BOT else ki_TOP)"

definition ki_as_raw_u256 :: "kani_i256 \<Rightarrow> kani_u256" where
  "ki_as_raw_u256 x = KU256 (kilo x) (kihi x)"

definition ki_from_raw_u256 :: "kani_u256 \<Rightarrow> kani_i256" where
  "ki_from_raw_u256 v = KI256 (klo v) (khi v)"

definition ki_from_u256_or_overflow :: "kani_u256 \<Rightarrow> kani_i256 option" where
  "ki_from_u256_or_overflow v = (if drop_bit 127 (khi v) \<noteq> 0 then None else Some (ki_from_raw_u256 v))"

definition ku_less :: "kani_u256 \<Rightarrow> kani_u256 \<Rightarrow> bool" where
  "ku_less x y = (case u128_cmp (khi x) (khi y) of Equal \<Rightarrow> u128_cmp (klo x) (klo y) = Less | ord \<Rightarrow> ord = Less)"

definition ki_min_mag :: kani_u256 where
  "ki_min_mag = (case ku_checked_add (KU256 0 0) (KU256 (push_bit 127 1) 0) of
     Some m \<Rightarrow> m | None \<Rightarrow> ku_TOP)"

definition ki_checked_mul :: "kani_i256 \<Rightarrow> kani_i256 \<Rightarrow> ('e, kani_i256 option) res" where
  "ki_checked_mul x y =
     (if ki_is_zero x \<or> ki_is_zero y then Ok (Some ki_ZERO)
      else
        let neg = (ki_is_negative x \<noteq> ki_is_negative y) in
        if x = ki_BOT then
          (if y = ki_ONE then Ok (Some ki_BOT) else if y = ki_MINUS_ONE then Ok None else Ok None)
        else if y = ki_BOT then
          (if x = ki_ONE then Ok (Some ki_BOT) else if x = ki_MINUS_ONE then Ok None else Ok None)
        else
          rthen (ki_abs_u256 x) (\<lambda>abs_a. rthen (ki_abs_u256 y) (\<lambda>abs_b.
          case ku_checked_mul abs_a abs_b of
            None \<Rightarrow> Ok None
          | Some product \<Rightarrow>
              if neg then
                if product = ki_min_mag then Ok (Some ki_BOT)
                else if ku_less ki_min_mag product then Ok None
                else Ok (Option.bind (ki_from_u256_or_overflow product) ki_checked_neg)
              else Ok (ki_from_u256_or_overflow product))))"

section \<open>Equality with the limb layout of \<open>I256\<close>\<close>

definition ilimbs :: "kani_i256 \<Rightarrow> i256" where
  "ilimbs x = from_lo_hi (kilo x) (kihi x)"

lemma ilimbs_halves [simp]: "i256_lo (ilimbs x) = kilo x" "i256_hi (ilimbs x) = kihi x"
  by (simp_all add: ilimbs_def)

lemma ilimbs_new: "ilimbs (KI256 l h) = from_lo_hi l h"
  by (simp add: ilimbs_def)

lemma ilimbs_inject [simp]: "ilimbs x = ilimbs y \<longleftrightarrow> x = y"
  by (metis kani_i256.expand ilimbs_halves)

lemma ilimbs_consts [simp]: "ilimbs ki_ZERO = I256_ZERO" "ilimbs ki_ONE = I256_ONE"
  "ilimbs ki_MINUS_ONE = I256_MINUS_ONE" "ilimbs ki_TOP = I256_TOP" "ilimbs ki_BOT = I256_BOT"
  by code_simp+

lemma kani_eq_consts:
  "x = ki_ZERO \<longleftrightarrow> ilimbs x = I256_ZERO" "x = ki_ONE \<longleftrightarrow> ilimbs x = I256_ONE"
  "x = ki_MINUS_ONE \<longleftrightarrow> ilimbs x = I256_MINUS_ONE" "x = ki_BOT \<longleftrightarrow> ilimbs x = I256_BOT"
  by (simp_all flip: ilimbs_consts)

lemma kani_signs:
  "ki_is_zero x = i256_is_zero (ilimbs x)" "ki_is_negative x = i256_is_negative (ilimbs x)"
  "ki_is_positive x = i256_is_positive (ilimbs x)" "ki_signum x = i256_signum (ilimbs x)"
proof -
  have z: "ki_is_zero x \<longleftrightarrow> x = ki_ZERO" by (cases x) (simp add: ki_is_zero_def ki_ZERO_def)
  show a: "ki_is_zero x = i256_is_zero (ilimbs x)"
    unfolding z kani_eq_consts by (metis is_zero_vali vali_consts(1) vali_inject)
  show b: "ki_is_negative x = i256_is_negative (ilimbs x)"
    unfolding ki_is_negative_def negative_hi top_bit ilimbs_halves by (simp add: b127_def)
  show "ki_is_positive x = i256_is_positive (ilimbs x)" "ki_signum x = i256_signum (ilimbs x)"
    by (simp_all add: ki_is_positive_def i256_is_positive_def ki_signum_def i256_signum_def a b)
qed

lemma kani_signed:
  "ilimbs (ki_from_i128 v) = i256_from_i128 v" "ilimbs (ki_from_u128 v) = i256_from_u128 v"
  "ki_try_into_i128 x = i256_try_into_i128 (ilimbs x)"
  "map_res id limbs (ki_abs_u256 x) = abs_u256 (ilimbs x)"
  "map_option ilimbs (ki_checked_neg x) = i256_checked_neg (ilimbs x)"
  "map_option ilimbs (ki_checked_add x y) = i256_checked_add (ilimbs x) (ilimbs y)"
  "limbs (ki_as_raw_u256 x) = as_raw_u256 (ilimbs x)" "ilimbs (ki_from_raw_u256 u) = from_raw_u256 (limbs u)"
  "map_option ilimbs (ki_from_u256_or_overflow u) = from_u256_or_overflow (limbs u)"
  by (auto simp: ki_from_i128_def i256_from_i128_def ki_from_u128_def i256_from_u128_def ilimbs_new limbs_new
      ki_try_into_i128_def i256_try_into_i128_def ki_abs_u256_def abs_u256_def kani_signs kani_eq_consts
      assertion_def ki_checked_neg_def i256_checked_neg_def ki_checked_add_def i256_checked_add_def
      ki_as_raw_u256_def as_raw_u256_def ki_from_raw_u256_def from_raw_u256_def
      ki_from_u256_or_overflow_def from_u256_or_overflow_def Let_def split: prod.splits)

lemma kani_sub:
  "map_option ilimbs (ki_checked_sub x y) = i256_checked_sub (ilimbs x) (ilimbs y)"
  using kani_signed(5)[of y]
  by (auto simp: ki_checked_sub_def i256_checked_sub_def kani_signed(6) kani_signs ilimbs_new Let_def
      split: option.splits prod.splits)

lemma kani_saturating: "ilimbs (ki_saturating_add x y) = i256_saturating_add (ilimbs x) (ilimbs y)"
  using kani_signed(6)[of x y]
  by (auto simp: ki_saturating_add_def i256_saturating_add_def kani_signs split: option.splits)

lemma kani_less: "ku_less x y \<longleftrightarrow> limbs x < limbs y"
  by (auto simp: ku_less_def less_u256_def u256_cmp_def split: ordering.splits)

lemma kani_abs_ok:
  assumes "ilimbs x \<noteq> I256_BOT"
  shows "\<exists>a. ki_abs_u256 x = Ok a \<and> limbs a = abs_limbs (ilimbs x)"
proof -
  have "map_res id limbs (ki_abs_u256 x :: ('a, _) res) = Ok (abs_limbs (ilimbs x))"
    unfolding kani_signed(4) abs_u256_eq using assms by simp
  then show ?thesis by (cases "ki_abs_u256 x :: ('a, _) res") auto
qed

lemma kani_mul: "map_res id (map_option ilimbs) (ki_checked_mul x y) = checked_mul_i256 (ilimbs x) (ilimbs y)"
proof -
  have m: "limbs ki_min_mag = min_mag" unfolding ki_min_mag_def min_mag_def by code_simp
  have eq: "p = ki_min_mag \<longleftrightarrow> limbs p = min_mag" for p unfolding m[symmetric] by simp
  have neg: "map_option ilimbs (Option.bind (ki_from_u256_or_overflow p) ki_checked_neg)
      = Option.bind (from_u256_or_overflow (limbs p)) i256_checked_neg" for p
    unfolding kani_signed(9)[of p, symmetric]
    by (cases "ki_from_u256_or_overflow p") (simp_all add: kani_signed(5))
  show ?thesis
  proof (cases "ki_is_zero x \<or> ki_is_zero y \<or> x = ki_BOT \<or> y = ki_BOT")
    case True
    then show ?thesis
      by (auto simp: ki_checked_mul_def checked_mul_i256_def kani_signs kani_eq_consts)
  next
    case False
    then have nb: "ilimbs x \<noteq> I256_BOT" "ilimbs y \<noteq> I256_BOT" by (simp_all add: kani_eq_consts)
    obtain a where a: "(ki_abs_u256 x :: ('a, _) res) = Ok a" "limbs a = abs_limbs (ilimbs x)"
      using kani_abs_ok[OF nb(1)] by blast
    obtain b where b: "(ki_abs_u256 y :: ('a, _) res) = Ok b" "limbs b = abs_limbs (ilimbs y)"
      using kani_abs_ok[OF nb(2)] by blast
    have p: "u256_checked_mul (limbs a) (limbs b) = map_option limbs (ku_checked_mul a b)"
      by (rule kani_checked_mul[symmetric])
    show ?thesis
      using False
      by (cases "ku_checked_mul a b")
        (simp_all add: ki_checked_mul_def checked_mul_i256_def kani_signs kani_eq_consts a(1) b(1) abs_u256_eq p eq kani_less m neg
          kani_signed(9) Let_def flip: a(2) b(2))
  qed
qed

end
