(* ===== verification/Narrow.thy ===== *)
theory Narrow
  imports Limbs
begin

unbundle bit_operations_syntax

text \<open>
  The aligned 128-bit integers \<open>I128\<close> and \<open>U128\<close> of \<open>src/src/i128.rs\<close>: pairs of \<open>u64\<close> limbs in the
  shipped build, transparent wrappers in the build of the model checker. A primitive \<open>i128\<close> or \<open>u128\<close>
  is the integer it denotes. The locale \<open>layout\<close> says what a layout promises, that packing and
  unpacking are inverse; the lemmas compare each operation of the two layouts.
\<close>

section \<open>Primitive integers\<close>

text \<open>The operations of the primitive \<open>i128\<close> and \<open>u128\<close> that the wrappers call.\<close>

definition saturate_i128 :: "int \<Rightarrow> int" where
  "saturate_i128 v = max I128_MIN (min I128_MAX v)"

definition wrap_i128 :: "int \<Rightarrow> int" where
  "wrap_i128 v = (v + 2 ^ 127) mod 2 ^ 128 - 2 ^ 127"

definition wrap_u128 :: "int \<Rightarrow> int" where
  "wrap_u128 v = v mod 2 ^ 128"

definition trunc_div :: "int \<Rightarrow> int \<Rightarrow> int" where
  "trunc_div a b = sgn a * sgn b * (\<bar>a\<bar> div \<bar>b\<bar>)"

definition prim_checked_div_i128 :: "int \<Rightarrow> int \<Rightarrow> int option" where
  "prim_checked_div_i128 a b = (if b = 0 then None else fit_i128 (trunc_div a b))"

definition prim_checked_div_u128 :: "int \<Rightarrow> int \<Rightarrow> int option" where
  "prim_checked_div_u128 a b = (if b = 0 then None else Some (a div b))"

text \<open>\<open>-x\<close> and \<open>abs\<close> panic on the most negative value (overflow checks), \<open>saturating_neg\<close> does not;
  division panics on zero.\<close>

definition prim_neg_i128 :: "int \<Rightarrow> ('e, int) res" where
  "prim_neg_i128 a = expect (fit_i128 (- a))"

definition prim_abs_i128 :: "int \<Rightarrow> ('e, int) res" where
  "prim_abs_i128 a = expect (fit_i128 \<bar>a\<bar>)"

definition prim_div_u128 :: "int \<Rightarrow> int \<Rightarrow> ('e, int) res" where
  "prim_div_u128 a b = (if b = 0 then Panic else Ok (a div b))"


section \<open>The limb layout\<close>

datatype i128_limbs = I128 u64 u64
datatype u128_limbs = U128 u64 u64

definition i128_new :: "int \<Rightarrow> i128_limbs" where
  "i128_new v = I128 (word_of_int v) (word_of_int (drop_bit 64 v))"

fun i128_get :: "i128_limbs \<Rightarrow> int" where
  "i128_get (I128 l h) = push_bit 64 (sint h) OR uint l"

definition u128_new :: "int \<Rightarrow> u128_limbs" where
  "u128_new v = U128 (word_of_int v) (word_of_int (drop_bit 64 v))"

fun u128_get :: "u128_limbs \<Rightarrow> int" where
  "u128_get (U128 l h) = push_bit 64 (uint h) OR uint l"

fun i128_is_zero :: "i128_limbs \<Rightarrow> bool" where "i128_is_zero (I128 l h) = (l = 0 \<and> h = 0)"
fun i128_is_negative :: "i128_limbs \<Rightarrow> bool" where "i128_is_negative (I128 l h) = (sint h < 0)"
definition i128_is_positive :: "i128_limbs \<Rightarrow> bool" where
  "i128_is_positive x = (\<not> i128_is_zero x \<and> \<not> i128_is_negative x)"
fun u128_is_zero :: "u128_limbs \<Rightarrow> bool" where "u128_is_zero (U128 l h) = (l = 0 \<and> h = 0)"

definition i128_checked_add :: "i128_limbs \<Rightarrow> int \<Rightarrow> i128_limbs option" where
  "i128_checked_add x rhs = map_option i128_new (fit_i128 (i128_get x + rhs))"

definition i128_checked_sub :: "i128_limbs \<Rightarrow> int \<Rightarrow> i128_limbs option" where
  "i128_checked_sub x rhs = map_option i128_new (fit_i128 (i128_get x - rhs))"

definition i128_checked_mul :: "i128_limbs \<Rightarrow> int \<Rightarrow> i128_limbs option" where
  "i128_checked_mul x rhs = map_option i128_new (fit_i128 (i128_get x * rhs))"

definition i128_checked_div :: "i128_limbs \<Rightarrow> int \<Rightarrow> i128_limbs option" where
  "i128_checked_div x rhs = map_option i128_new (prim_checked_div_i128 (i128_get x) rhs)"

definition i128_saturating_add :: "i128_limbs \<Rightarrow> int \<Rightarrow> i128_limbs" where
  "i128_saturating_add x rhs = i128_new (saturate_i128 (i128_get x + rhs))"

definition i128_saturating_add_i128 :: "i128_limbs \<Rightarrow> i128_limbs \<Rightarrow> i128_limbs" where
  "i128_saturating_add_i128 x rhs = i128_new (saturate_i128 (i128_get x + i128_get rhs))"

definition i128_saturating_sub :: "i128_limbs \<Rightarrow> int \<Rightarrow> i128_limbs" where
  "i128_saturating_sub x rhs = i128_new (saturate_i128 (i128_get x - rhs))"

definition i128_saturating_sub_i128 :: "i128_limbs \<Rightarrow> i128_limbs \<Rightarrow> i128_limbs" where
  "i128_saturating_sub_i128 x rhs = i128_new (saturate_i128 (i128_get x - i128_get rhs))"

definition i128_wrapping_add :: "i128_limbs \<Rightarrow> int \<Rightarrow> i128_limbs" where
  "i128_wrapping_add x rhs = i128_new (wrap_i128 (i128_get x + rhs))"

definition i128_abs :: "i128_limbs \<Rightarrow> ('e, i128_limbs) res" where
  "i128_abs x = rthen (prim_abs_i128 (i128_get x)) (\<lambda>v. Ok (i128_new v))"

definition i128_unsigned_abs :: "i128_limbs \<Rightarrow> int" where
  "i128_unsigned_abs x = \<bar>i128_get x\<bar>"

definition i128_neg :: "i128_limbs \<Rightarrow> ('e, i128_limbs) res" where
  "i128_neg x = rthen (prim_neg_i128 (i128_get x)) (\<lambda>v. Ok (i128_new v))"

definition i128_mul :: "i128_limbs \<Rightarrow> int \<Rightarrow> i128_limbs" where
  "i128_mul x rhs = i128_new (saturate_i128 (i128_get x * rhs))"

definition u128_checked_add :: "u128_limbs \<Rightarrow> int \<Rightarrow> u128_limbs option" where
  "u128_checked_add x rhs = map_option u128_new (fit_u128 (u128_get x + rhs))"

definition u128_checked_sub :: "u128_limbs \<Rightarrow> int \<Rightarrow> u128_limbs option" where
  "u128_checked_sub x rhs = map_option u128_new (fit_u128 (u128_get x - rhs))"

definition u128_checked_mul :: "u128_limbs \<Rightarrow> int \<Rightarrow> u128_limbs option" where
  "u128_checked_mul x rhs = map_option u128_new (fit_u128 (u128_get x * rhs))"

definition u128_checked_div :: "u128_limbs \<Rightarrow> int \<Rightarrow> u128_limbs option" where
  "u128_checked_div x rhs = map_option u128_new (prim_checked_div_u128 (u128_get x) rhs)"

definition u128_saturating_add :: "u128_limbs \<Rightarrow> int \<Rightarrow> u128_limbs" where
  "u128_saturating_add x rhs = u128_new (sat_u128 (u128_get x + rhs))"

definition u128_saturating_add_u128 :: "u128_limbs \<Rightarrow> u128_limbs \<Rightarrow> u128_limbs" where
  "u128_saturating_add_u128 x rhs = u128_new (sat_u128 (u128_get x + u128_get rhs))"

definition u128_saturating_sub :: "u128_limbs \<Rightarrow> int \<Rightarrow> u128_limbs" where
  "u128_saturating_sub x rhs = u128_new (sat_u128 (u128_get x - rhs))"

definition u128_saturating_sub_u128 :: "u128_limbs \<Rightarrow> u128_limbs \<Rightarrow> u128_limbs" where
  "u128_saturating_sub_u128 x rhs = u128_new (sat_u128 (u128_get x - u128_get rhs))"

definition u128_saturating_mul :: "u128_limbs \<Rightarrow> int \<Rightarrow> u128_limbs" where
  "u128_saturating_mul x rhs = u128_new (sat_u128 (u128_get x * rhs))"

definition u128_wrapping_add :: "u128_limbs \<Rightarrow> int \<Rightarrow> u128_limbs" where
  "u128_wrapping_add x rhs = u128_new (wrap_u128 (u128_get x + rhs))"

definition u128_max :: "u128_limbs \<Rightarrow> u128_limbs \<Rightarrow> u128_limbs" where
  "u128_max x rhs = (if u128_get x \<ge> u128_get rhs then x else rhs)"

definition u128_min :: "u128_limbs \<Rightarrow> u128_limbs \<Rightarrow> u128_limbs" where
  "u128_min x rhs = (if u128_get x \<le> u128_get rhs then x else rhs)"

definition u128_div :: "u128_limbs \<Rightarrow> int \<Rightarrow> ('e, u128_limbs) res" where
  "u128_div x rhs = rthen (prim_div_u128 (u128_get x) rhs) (\<lambda>v. Ok (u128_new v))"

section \<open>The transparent layout\<close>

datatype kani_i128 = KI128 (ki_get: int)
datatype kani_u128 = KU128 (ku_get: int)

definition ki128_is_zero :: "kani_i128 \<Rightarrow> bool" where "ki128_is_zero x = (ki_get x = 0)"
definition ki128_is_negative :: "kani_i128 \<Rightarrow> bool" where "ki128_is_negative x = (ki_get x < 0)"
definition ki128_is_positive :: "kani_i128 \<Rightarrow> bool" where "ki128_is_positive x = (ki_get x > 0)"
definition ku128_is_zero :: "kani_u128 \<Rightarrow> bool" where "ku128_is_zero x = (ku_get x = 0)"

definition ki128_checked_add :: "kani_i128 \<Rightarrow> int \<Rightarrow> kani_i128 option" where
  "ki128_checked_add x rhs = map_option KI128 (fit_i128 (ki_get x + rhs))"

definition ki128_checked_sub :: "kani_i128 \<Rightarrow> int \<Rightarrow> kani_i128 option" where
  "ki128_checked_sub x rhs = map_option KI128 (fit_i128 (ki_get x - rhs))"

definition ki128_checked_mul :: "kani_i128 \<Rightarrow> int \<Rightarrow> kani_i128 option" where
  "ki128_checked_mul x rhs = map_option KI128 (fit_i128 (ki_get x * rhs))"

definition ki128_checked_div :: "kani_i128 \<Rightarrow> int \<Rightarrow> kani_i128 option" where
  "ki128_checked_div x rhs = map_option KI128 (prim_checked_div_i128 (ki_get x) rhs)"

definition ki128_saturating_add :: "kani_i128 \<Rightarrow> int \<Rightarrow> kani_i128" where
  "ki128_saturating_add x rhs = KI128 (saturate_i128 (ki_get x + rhs))"

definition ki128_saturating_add_i128 :: "kani_i128 \<Rightarrow> kani_i128 \<Rightarrow> kani_i128" where
  "ki128_saturating_add_i128 x rhs = KI128 (saturate_i128 (ki_get x + ki_get rhs))"

definition ki128_saturating_sub :: "kani_i128 \<Rightarrow> int \<Rightarrow> kani_i128" where
  "ki128_saturating_sub x rhs = KI128 (saturate_i128 (ki_get x - rhs))"

definition ki128_saturating_sub_i128 :: "kani_i128 \<Rightarrow> kani_i128 \<Rightarrow> kani_i128" where
  "ki128_saturating_sub_i128 x rhs = KI128 (saturate_i128 (ki_get x - ki_get rhs))"

definition ki128_wrapping_add :: "kani_i128 \<Rightarrow> int \<Rightarrow> kani_i128" where
  "ki128_wrapping_add x rhs = KI128 (wrap_i128 (ki_get x + rhs))"

definition ki128_abs :: "kani_i128 \<Rightarrow> ('e, kani_i128) res" where
  "ki128_abs x = rthen (prim_abs_i128 (ki_get x)) (\<lambda>v. Ok (KI128 v))"

definition ki128_unsigned_abs :: "kani_i128 \<Rightarrow> int" where
  "ki128_unsigned_abs x = \<bar>ki_get x\<bar>"

definition ki128_neg :: "kani_i128 \<Rightarrow> ('e, kani_i128) res" where
  "ki128_neg x = Ok (KI128 (saturate_i128 (- ki_get x)))"

definition ku128_checked_add :: "kani_u128 \<Rightarrow> int \<Rightarrow> kani_u128 option" where
  "ku128_checked_add x rhs = map_option KU128 (fit_u128 (ku_get x + rhs))"

definition ku128_checked_sub :: "kani_u128 \<Rightarrow> int \<Rightarrow> kani_u128 option" where
  "ku128_checked_sub x rhs = map_option KU128 (fit_u128 (ku_get x - rhs))"

definition ku128_checked_mul :: "kani_u128 \<Rightarrow> int \<Rightarrow> kani_u128 option" where
  "ku128_checked_mul x rhs = map_option KU128 (fit_u128 (ku_get x * rhs))"

definition ku128_checked_div :: "kani_u128 \<Rightarrow> int \<Rightarrow> kani_u128 option" where
  "ku128_checked_div x rhs = map_option KU128 (prim_checked_div_u128 (ku_get x) rhs)"

definition ku128_saturating_add :: "kani_u128 \<Rightarrow> int \<Rightarrow> kani_u128" where
  "ku128_saturating_add x rhs = KU128 (sat_u128 (ku_get x + rhs))"

definition ku128_saturating_add_u128 :: "kani_u128 \<Rightarrow> kani_u128 \<Rightarrow> kani_u128" where
  "ku128_saturating_add_u128 x rhs = KU128 (sat_u128 (ku_get x + ku_get rhs))"

definition ku128_saturating_sub :: "kani_u128 \<Rightarrow> int \<Rightarrow> kani_u128" where
  "ku128_saturating_sub x rhs = KU128 (sat_u128 (ku_get x - rhs))"

definition ku128_saturating_sub_u128 :: "kani_u128 \<Rightarrow> kani_u128 \<Rightarrow> kani_u128" where
  "ku128_saturating_sub_u128 x rhs = KU128 (sat_u128 (ku_get x - ku_get rhs))"

definition ku128_saturating_mul :: "kani_u128 \<Rightarrow> int \<Rightarrow> kani_u128" where
  "ku128_saturating_mul x rhs = KU128 (sat_u128 (ku_get x * rhs))"

definition ku128_wrapping_add :: "kani_u128 \<Rightarrow> int \<Rightarrow> kani_u128" where
  "ku128_wrapping_add x rhs = KU128 (wrap_u128 (ku_get x + rhs))"

definition ku128_max :: "kani_u128 \<Rightarrow> kani_u128 \<Rightarrow> kani_u128" where
  "ku128_max x rhs = (if ku_get x \<ge> ku_get rhs then x else rhs)"

definition ku128_min :: "kani_u128 \<Rightarrow> kani_u128 \<Rightarrow> kani_u128" where
  "ku128_min x rhs = (if ku_get x \<le> ku_get rhs then x else rhs)"

definition ku128_div :: "kani_u128 \<Rightarrow> int \<Rightarrow> ('e, kani_u128) res" where
  "ku128_div x rhs = rthen (prim_div_u128 (ku_get x) rhs) (\<lambda>v. Ok (KU128 v))"
section \<open>What a layout promises\<close>

locale layout =
  fixes pack :: "int \<Rightarrow> 'a" and unpack :: "'a \<Rightarrow> int" and ok :: "int \<Rightarrow> bool"
  assumes unpack_pack: "ok v \<Longrightarrow> unpack (pack v) = v"
    and pack_unpack: "pack (unpack x) = x"
    and unpack_ok: "ok (unpack x)"
begin

lemma unpack_inject: "unpack x = unpack y \<longleftrightarrow> x = y"
  by (metis pack_unpack)

lemma packed: "ok v \<Longrightarrow> x = pack v \<longleftrightarrow> unpack x = v"
  by (metis pack_unpack unpack_pack)

end

lemma or_digits:
  fixes h :: int
  shows "push_bit 64 h OR uint (l :: u64) = h * 2 ^ 64 + uint l"
proof -
  have "push_bit 64 h AND uint l = 0"
    by (rule bit_eqI) (auto simp: bit_simps dest: bit_imp_le_length)
  then show ?thesis by (simp add: push_bit_eq_mult flip: disjunctive_add_eq_or)
qed

lemma low_limb: "uint (word_of_int v :: u64) = v mod 2 ^ 64"
  by (simp add: unsigned_of_int take_bit_eq_mod)

lemma signed_limb: "sint (word_of_int h :: u64) = (h + 2 ^ 63) mod 2 ^ 64 - 2 ^ 63"
  by (simp add: int_word_sint)

lemma u64_range: "0 \<le> uint (l :: u64)" "uint l < 2 ^ 64" "- (2 ^ 63) \<le> sint l" "sint l < 2 ^ 63"
  using uint_bounded[of l] sint_ge[of l] sint_lt[of l] by simp_all

lemma limb_digits:
  fixes v :: int
  shows "v div 2 ^ 64 * 2 ^ 64 + v mod 2 ^ 64 = v"
  by (rule div_mult_mod_eq)

lemma i128_get_new: "in_i128 v \<Longrightarrow> i128_get (i128_new v) = v"
proof -
  assume v: "in_i128 v"
  have h: "- (2 ^ 63) \<le> v div 2 ^ 64" "v div 2 ^ 64 < 2 ^ 63" using v by (auto simp: in_i128_def bounds)
  have "(v div 2 ^ 64 + 2 ^ 63) mod 2 ^ 64 = v div 2 ^ 64 + 2 ^ 63"
    using h by (intro mod_pos_pos_trivial) auto
  then show ?thesis
    unfolding i128_new_def i128_get.simps or_digits unfolding signed_limb low_limb drop_bit_eq_div
    using limb_digits[of v] by simp
qed

lemma u128_get_new: "in_u128 v \<Longrightarrow> u128_get (u128_new v) = v"
proof -
  assume v: "in_u128 v"
  have "v div 2 ^ 64 mod 2 ^ 64 = v div 2 ^ 64"
    using v by (intro mod_pos_pos_trivial) (auto simp: in_u128_def bounds)
  then show ?thesis
    unfolding u128_new_def u128_get.simps or_digits unfolding low_limb drop_bit_eq_div
    using limb_digits[of v] by simp
qed

lemma digit_parts:
  fixes h l :: int
  assumes "0 \<le> l" "l < 2 ^ 64"
  shows "(h * 2 ^ 64 + l) div 2 ^ 64 = h" "(h * 2 ^ 64 + l) mod 2 ^ 64 = l"
proof -
  show "(h * 2 ^ 64 + l) div 2 ^ 64 = h" using assms by (simp add: div_add1_eq)
  show "(h * 2 ^ 64 + l) mod 2 ^ 64 = l" using assms by (simp add: mod_pos_pos_trivial)
qed

lemma new_get:
  "i128_new (i128_get x) = x" "u128_new (u128_get y) = y"
proof -
  obtain l h where x: "x = I128 l h" by (cases x)
  have w: "(word_of_int (sint h * 2 ^ 64 + uint l) :: u64) = l"
    unfolding word_uint_eq_iff low_limb using digit_parts(2)[OF u64_range(1,2)] by simp
  show "i128_new (i128_get x) = x"
    unfolding x i128_get.simps or_digits i128_new_def drop_bit_eq_div digit_parts(1)[OF u64_range(1,2)] w by simp
  obtain l' h' where y: "y = U128 l' h'" by (cases y)
  have w: "(word_of_int (uint h' * 2 ^ 64 + uint l') :: u64) = l'"
    unfolding word_uint_eq_iff low_limb using digit_parts(2)[OF u64_range(1,2)] by simp
  show "u128_new (u128_get y) = y"
    unfolding y u128_get.simps or_digits u128_new_def drop_bit_eq_div digit_parts(1)[OF u64_range(1,2)] w by simp
qed

lemma two_powers: "(2 :: int) ^ 64 = 18446744073709551616" "(2 :: int) ^ 63 = 9223372036854775808"
  by simp_all

lemma get_range: "in_i128 (i128_get x)" "in_u128 (u128_get y)"
proof -
  obtain l h where x: "x = I128 l h" by (cases x)
  show "in_i128 (i128_get x)"
    unfolding x i128_get.simps or_digits in_i128_def bounds
    using u64_range(1,2)[of l] u64_range(3,4)[of h] unfolding two_powers by (intro conjI; linarith)
  obtain l h where y: "y = U128 l h" by (cases y)
  show "in_u128 (u128_get y)"
    unfolding y u128_get.simps or_digits in_u128_def bounds
    using u64_range(1,2)[of l] u64_range(1,2)[of h] unfolding two_powers by (intro conjI; linarith)
qed

interpretation li: layout i128_new i128_get in_i128
  by unfold_locales (simp_all add: i128_get_new new_get get_range)

interpretation lu: layout u128_new u128_get in_u128
  by unfold_locales (simp_all add: u128_get_new new_get get_range)

lemma i128_signs:
  "i128_is_zero x \<longleftrightarrow> i128_get x = 0" "i128_is_negative x \<longleftrightarrow> i128_get x < 0" "i128_is_positive x \<longleftrightarrow> 0 < i128_get x"
proof -
  obtain l h where x: "x = I128 l h" by (cases x)
  have g: "i128_get x = sint h * 2 ^ 64 + uint l" unfolding x by (simp only: i128_get.simps or_digits)
  note r = u64_range[of l] u64_range[of h]
  have z: "i128_get x = 0 \<longleftrightarrow> sint h = 0 \<and> uint l = 0"
    unfolding g by (rule iffI; use digit_parts[OF r(1,2), of "sint h"] in simp)
  have "i128_is_zero x \<longleftrightarrow> sint h = 0 \<and> uint l = 0"
    unfolding x using signed_word_eqI[of h 0] by (auto simp: uint_0_iff)
  then show a: "i128_is_zero x \<longleftrightarrow> i128_get x = 0" unfolding z .
  have n: "sint h < 0 \<longleftrightarrow> sint h * 2 ^ 64 + uint l < 0"
  proof
    assume "sint h < 0"
    then have "sint h * 2 ^ 64 \<le> - 1 * 2 ^ 64" by (intro mult_right_mono) auto
    then show "sint h * 2 ^ 64 + uint l < 0" using r(2) by linarith
  next
    assume a: "sint h * 2 ^ 64 + uint l < 0"
    show "sint h < 0"
    proof (rule ccontr)
      assume "\<not> sint h < 0"
      then have "0 \<le> sint h * 2 ^ 64" by simp
      then show False using a r(1) by linarith
    qed
  qed
  have "i128_is_negative x \<longleftrightarrow> sint h < 0" unfolding x by simp
  then show b: "i128_is_negative x \<longleftrightarrow> i128_get x < 0" unfolding n g .
  show "i128_is_positive x \<longleftrightarrow> 0 < i128_get x" unfolding i128_is_positive_def a b by auto
qed

lemma u128_zero: "u128_is_zero x \<longleftrightarrow> u128_get x = 0"
proof -
  obtain l h where x: "x = U128 l h" by (cases x)
  have "u128_get x = uint h * 2 ^ 64 + uint l" unfolding x by (simp only: u128_get.simps or_digits)
  then have "u128_get x = 0 \<longleftrightarrow> uint h = 0 \<and> uint l = 0"
    by (simp only:) (rule iffI; use digit_parts[OF u64_range(1,2)[of l], of "uint h"] in simp)
  then show ?thesis by (auto simp: x uint_0_iff)
qed

section \<open>The two layouts agree\<close>

text \<open>
  Through \<open>unlimb\<close> every operation of the limb layout is that of the transparent one, except the
  negation: on the most negative value the limb layout panics and the transparent one saturates.
\<close>

definition unlimb_i :: "i128_limbs \<Rightarrow> kani_i128" where "unlimb_i x = KI128 (i128_get x)"
definition unlimb_u :: "u128_limbs \<Rightarrow> kani_u128" where "unlimb_u x = KU128 (u128_get x)"

lemma in_range [simp]: "in_i128 (saturate_i128 v)" "in_i128 (wrap_i128 v)" "in_u128 (sat_u128 v)" "in_u128 (wrap_u128 v)"
proof -
  show "in_i128 (wrap_i128 v)"
    using pos_mod_sign[of "2 ^ 128" "v + 2 ^ 127"] pos_mod_bound[of "2 ^ 128" "v + 2 ^ 127"]
    by (auto simp: in_i128_def wrap_i128_def bounds)
  show "in_u128 (wrap_u128 v)"
    using pos_mod_sign[of "2 ^ 128" v] pos_mod_bound[of "2 ^ 128" v] by (auto simp: in_u128_def wrap_u128_def bounds)
  show "in_i128 (saturate_i128 v)" "in_u128 (sat_u128 v)"
    by (auto simp: in_i128_def saturate_i128_def in_u128_def sat_u128_def bounds)
qed

lemma unlimb_fit:
  "map_option unlimb_i (map_option i128_new (fit_i128 v)) = map_option KI128 (fit_i128 v)"
  "map_option unlimb_u (map_option u128_new (fit_u128 v)) = map_option KU128 (fit_u128 v)"
  by (auto simp: fit_i128_def fit_u128_def unlimb_i_def unlimb_u_def i128_get_new u128_get_new)

lemma unlimb_new: "in_i128 v \<Longrightarrow> unlimb_i (i128_new v) = KI128 v" "in_u128 w \<Longrightarrow> unlimb_u (u128_new w) = KU128 w"
  by (simp_all add: unlimb_i_def unlimb_u_def i128_get_new u128_get_new)

lemma unlimb_get: "ki_get (unlimb_i x) = i128_get x" "ku_get (unlimb_u y) = u128_get y"
  by (simp_all add: unlimb_i_def unlimb_u_def)

lemma udiv_range: "in_u128 a \<Longrightarrow> 0 \<le> b \<Longrightarrow> b \<noteq> 0 \<Longrightarrow> in_u128 (a div b)"
proof -
  assume a: "in_u128 a" "0 \<le> b" "b \<noteq> 0"
  have "a div b \<le> a div 1" using a by (intro zdiv_mono2) (auto simp: in_u128_def)
  then show ?thesis using a by (auto simp: in_u128_def pos_imp_zdiv_nonneg_iff)
qed

lemma i128_agree:
  "map_option unlimb_i (i128_checked_add x v) = ki128_checked_add (unlimb_i x) v"
  "map_option unlimb_i (i128_checked_sub x v) = ki128_checked_sub (unlimb_i x) v"
  "map_option unlimb_i (i128_checked_mul x v) = ki128_checked_mul (unlimb_i x) v"
  "map_option unlimb_i (i128_checked_div x v) = ki128_checked_div (unlimb_i x) v"
  "unlimb_i (i128_saturating_add x v) = ki128_saturating_add (unlimb_i x) v"
  "unlimb_i (i128_saturating_sub x v) = ki128_saturating_sub (unlimb_i x) v"
  "unlimb_i (i128_saturating_add_i128 x y) = ki128_saturating_add_i128 (unlimb_i x) (unlimb_i y)"
  "unlimb_i (i128_saturating_sub_i128 x y) = ki128_saturating_sub_i128 (unlimb_i x) (unlimb_i y)"
  "unlimb_i (i128_wrapping_add x v) = ki128_wrapping_add (unlimb_i x) v"
  "map_res id unlimb_i (i128_abs x) = ki128_abs (unlimb_i x)"
  "i128_unsigned_abs x = ki128_unsigned_abs (unlimb_i x)"
  "i128_is_zero x = ki128_is_zero (unlimb_i x)" "i128_is_negative x = ki128_is_negative (unlimb_i x)"
  "i128_is_positive x = ki128_is_positive (unlimb_i x)"
  by (simp_all add: i128_checked_add_def ki128_checked_add_def i128_checked_sub_def ki128_checked_sub_def
      i128_checked_mul_def ki128_checked_mul_def i128_checked_div_def ki128_checked_div_def prim_checked_div_i128_def
      i128_saturating_add_def ki128_saturating_add_def i128_saturating_sub_def ki128_saturating_sub_def
      i128_saturating_add_i128_def ki128_saturating_add_i128_def i128_saturating_sub_i128_def
      ki128_saturating_sub_i128_def i128_wrapping_add_def ki128_wrapping_add_def i128_unsigned_abs_def
      ki128_unsigned_abs_def i128_signs ki128_is_zero_def ki128_is_negative_def ki128_is_positive_def
      unlimb_get unlimb_fit[unfolded option.map_comp] unlimb_new option.map_comp
      i128_abs_def ki128_abs_def prim_abs_i128_def fit_i128_def)

lemma u128_agree:
  "map_option unlimb_u (u128_checked_add x v) = ku128_checked_add (unlimb_u x) v"
  "map_option unlimb_u (u128_checked_sub x v) = ku128_checked_sub (unlimb_u x) v"
  "map_option unlimb_u (u128_checked_mul x v) = ku128_checked_mul (unlimb_u x) v"
  "0 \<le> v \<Longrightarrow> map_option unlimb_u (u128_checked_div x v) = ku128_checked_div (unlimb_u x) v"
  "unlimb_u (u128_saturating_add x v) = ku128_saturating_add (unlimb_u x) v"
  "unlimb_u (u128_saturating_sub x v) = ku128_saturating_sub (unlimb_u x) v"
  "unlimb_u (u128_saturating_mul x v) = ku128_saturating_mul (unlimb_u x) v"
  "unlimb_u (u128_saturating_add_u128 x y) = ku128_saturating_add_u128 (unlimb_u x) (unlimb_u y)"
  "unlimb_u (u128_saturating_sub_u128 x y) = ku128_saturating_sub_u128 (unlimb_u x) (unlimb_u y)"
  "unlimb_u (u128_wrapping_add x v) = ku128_wrapping_add (unlimb_u x) v"
  "unlimb_u (u128_max x y) = ku128_max (unlimb_u x) (unlimb_u y)"
  "unlimb_u (u128_min x y) = ku128_min (unlimb_u x) (unlimb_u y)"
  "0 \<le> v \<Longrightarrow> map_res id unlimb_u (u128_div x v) = ku128_div (unlimb_u x) v"
  "u128_is_zero x = ku128_is_zero (unlimb_u x)"
  by (simp_all add: u128_checked_add_def ku128_checked_add_def u128_checked_sub_def ku128_checked_sub_def
      u128_checked_mul_def ku128_checked_mul_def u128_checked_div_def ku128_checked_div_def prim_checked_div_u128_def
      u128_saturating_add_def ku128_saturating_add_def u128_saturating_sub_def ku128_saturating_sub_def
      u128_saturating_mul_def ku128_saturating_mul_def u128_saturating_add_u128_def ku128_saturating_add_u128_def
      u128_saturating_sub_u128_def ku128_saturating_sub_u128_def u128_wrapping_add_def ku128_wrapping_add_def
      u128_max_def ku128_max_def u128_min_def ku128_min_def u128_div_def ku128_div_def prim_div_u128_def
      u128_zero ku128_is_zero_def unlimb_get unlimb_new udiv_range get_range fit_u128_def)

text \<open>The negation: the layouts agree except on the most negative value.\<close>

lemma neg_agree:
  "i128_get x \<noteq> I128_MIN \<Longrightarrow> map_res id unlimb_i (i128_neg x) = ki128_neg (unlimb_i x)"
  using get_range(1)[of x]
  by (auto simp: i128_neg_def ki128_neg_def prim_neg_i128_def fit_i128_def in_i128_def unlimb_get
      unlimb_i_def i128_get_new saturate_i128_def bounds)

lemma neg_differs:
  assumes "i128_get x = I128_MIN"
  shows "i128_neg x = Panic" "ki128_neg (unlimb_i x) = Ok (KI128 I128_MAX)"
  using assms by (simp_all add: i128_neg_def ki128_neg_def prim_neg_i128_def fit_i128_def in_i128_def unlimb_get
      saturate_i128_def bounds)

end
