(* ===== verification/Spec2Isabelle.thy ===== *)
theory Spec2Isabelle
  imports Chain_Samples Kani Narrow
begin

text \<open>
  Percolator: a risk engine for perpetual futures, the on-chain program that wraps it, the oracle program
  that feeds it prices, and the keeper that cranks it.

  \<^bold>\<open>The parts and how they interact.\<close> The engine (\<open>src/src/percolator.rs\<close>, over \<open>wide_math.rs\<close> and
  \<open>i128.rs\<close>) is a state \<open>RiskEngine\<close> with public instructions: deposits, withdrawals, trades,
  liquidations, the keeper crank, resolution and closing. It keeps a slab of accounts, side indices that
  settle positions lazily, a warm-up reserve for profits, and aggregates from which the haircut of
  profits is computed. The wrapper (\<open>src/program\<close>) stores the engine behind a 104-byte header in a slab
  account; each of its nine handlers checks accounts, calls one engine instruction and moves the tokens.
  It reads prices from a feed account of the oracle program (\<open>src/oracle\<close>), which records the prices of
  one source in a ring and publishes their median. The keeper (\<open>src/keeper\<close>) decides from a snapshot
  which instruction to send next.

  \<^bold>\<open>Conventions.\<close> A Rust function that can fail or panic is a function into \<open>res\<close> (\<open>Ok\<close>, \<open>Err\<close>,
  \<open>Panic\<close>, in \<open>Prelude\<close>); one that changes the state returns it as well, with whatever was written
  before an error. \<open>sval\<close>, \<open>sthen\<close>, \<open>rthen\<close> are the question mark operator; \<open>okP m P\<close> says that
  whatever \<open>m\<close> returns successfully satisfies \<open>P\<close>. Integers of the engine are \<open>int\<close> with the checks of
  the code written out (\<open>fit_u128\<close>, \<open>sat_u64\<close>); limbs, tags and flags are words.

  \<^bold>\<open>The engine.\<close>
  \<open>Types\<close> has the constants, enumerations and records. \<open>Slab\<close> is \<open>validate_params\<close>, \<open>init_in_place\<close>,
  the bitmap and the free list (\<open>slab_ok\<close>: the list holds exactly the unused slots). \<open>Reserve\<close> is the
  two-bucket warm-up reserve and \<open>Pnl\<close> the canonical mutators, with \<open>pnl_inv\<close>: the aggregates are the
  sums over the accounts. \<open>Position\<close> has the side state, attachment and the lazy settlement; \<open>Market\<close>
  accrual, insurance and fees; \<open>Adl\<close> deleveraging and the life cycle of a side; \<open>Equity\<close> the haircut,
  the margin tests and the postconditions; \<open>Touch\<close> the per-account work of an instruction. \<open>Stage\<close>
  defines \<open>good\<close>, \<open>solvent\<close> and the relation \<open>stage\<close> every step keeps. \<open>Ops\<close>, \<open>Trade\<close>,
  \<open>Liquidate\<close>, \<open>Close\<close>, \<open>Admin\<close> and \<open>Resolve\<close> are the public instructions, each proved to keep \<open>inv\<close>
  (or \<open>rinv\<close> after resolution) with its exact effect. \<open>Lifecycle\<close> collects them in \<open>exec\<close> and
  interprets the locale \<open>custodian\<close> of \<open>Transactions\<close>: instructions commit or are dropped, and what
  every one keeps, every history keeps.

  \<^bold>\<open>Wide arithmetic.\<close> \<open>WideSpec\<close> is what the engine theories compute with, by value. \<open>Limbs\<close>, \<open>U256\<close>,
  \<open>Division\<close>, \<open>U512\<close>, \<open>I256\<close> and \<open>WideMath\<close> translate the limbs of the on-chain layout and prove that
  they refine it; \<open>Kani\<close> translates the model checker's layout and relates the two; \<open>Narrow\<close> is
  \<open>i128.rs\<close>. Shift-and-subtract division runs once per bit of the shift, a structural recursion.

  \<^bold>\<open>The programs.\<close> \<open>Sorting\<close> is the insertion sort the engine and the oracle share. \<open>Wire\<close> has bytes,
  the readers, and the locale \<open>borsh_codec\<close> of the published laws of the Borsh primitives, interpreted on
  the little-endian encoding; \<open>Host\<close> what a program sees of an account; \<open>Header\<close> the slab header and the
  program's errors; \<open>Instruction\<close> the instruction format, every codec an instance of \<open>wire_format\<close>.
  \<open>Feed\<close> and \<open>Oracle\<close> are the oracle program, \<open>Wrapper\<close> the handlers of the wrapper. \<open>Custody\<close> shows
  what the wrapper's calls and its own writes keep of the engine, \<open>Handlers\<close> what every handler keeps of
  the chain, \<open>Market_Life\<close> creation and initialisation and the wrapper as a \<open>custodian\<close>. \<open>Keeper\<close> is the
  decision. \<open>Samples\<close> and \<open>Chain_Samples\<close> are the concrete states the properties are instantiated on.

  \<^bold>\<open>What is a parameter.\<close> The clock, rent, address derivation, the unpacking of token accounts, the
  invoked programs and the two program ids are the fields of \<open>host\<close>; all that is assumed of them is that
  a slot is a \<open>u64\<close> and a key has 32 bytes. The Borsh primitives are the argument \<open>B\<close>. The engine behind
  the pointer cast is typed: the size of the region is \<open>engine_size\<close>, and its contents before
  initialisation are any engine of the right shape. The slab account is passed in the state and left out
  of the account list, in whatever position the code reads it, so a list that names the slab twice is not
  represented. What a failed handler leaves behind is dropped by the runtime, as \<open>submit\<close> does.

  \<^bold>\<open>Bounds.\<close> Loops over slots, rings and candidate lists are structural recursions over the ranges of the
  code. No fuel is used: every function is total, and panics are values.

  \<^bold>\<open>Not modelled.\<close> Log messages, test helpers and test modules, formatting and operator traits that
  repeat a method, the client-side \<open>find_vault_pda\<close>, the keeper's network loop (\<open>main.rs\<close>) and the
  entry-point macros. Compute limits of the chain are not represented.
\<close>

section \<open>The whole life of a market\<close>

text \<open>C1: whatever well-typed instructions are submitted to a new market, each committed or dropped,
  the market keeps its invariant (in particular capital and insurance stay covered by the vault), and
  the vault holds exactly what was paid in less what was paid out.\<close>

theorem vault_is_conserved:
  assumes "new_with_market n p slot px = Ok e" "n \<le> NIL" "params_typed p" "in_u64 slot"
    "list_all well_typed is" "submit exec is e = (tr, e')"
  shows "rinv e' \<and> vault e' = sum_list (map snd tr) \<and> c_tot e' + ins_bal e' \<le> vault e' \<and> later e e'"
  using history_sound[OF assms] by (simp add: rinv_def inv_def solvent_def)

theorem vault_is_conserved_witness: "vault (snd (submit exec history sample)) = 6800"
proof -
  obtain tr e' where r: "submit exec history sample = (tr, e')" by fastforce
  have "rinv e' \<and> vault e' = sum_list (map snd tr) \<and> c_tot e' + ins_bal e' \<le> vault e' \<and> later sample e'"
    by (rule vault_is_conserved[OF sample_new _ sample_params_typed _ history_typed r])
      (simp_all add: NIL_def in_u64_def bounds)
  moreover have "map snd tr = [100000, 100000, 0, 5000, - 5000, 0, 0, 0, - 135100, - 58100]"
    using history_flows r by simp
  ultimately show ?thesis by (simp add: r)
qed

text \<open>C2: after the resolution no live instruction ever succeeds again, and neither the terms of the
  settlement nor, once taken, the haircut of the payouts ever change.\<close>

theorem resolution_is_final:
  assumes "rinv e" "market_mode e = Resolved" "list_all well_typed is" "submit exec is e = (tr, e')"
  shows "market_mode e' = Resolved \<and> settlement_terms e' = settlement_terms e \<and> snapshot_frozen e e'
     \<and> list_all (\<lambda>(ins, n). \<not> is_live_instruction ins) tr"
  using market.submit_sound[OF assms(3,4,1)] resolved_trace[OF submit_runs[OF assms(3,4)] assms(1,2)] assms(2)
  by (simp add: later_def)

theorem resolution_is_final_witness:
  "list_all (\<lambda>(ins, n). \<not> is_live_instruction ins) (fst (submit exec history resolved_market))"
proof -
  obtain tr e' where r: "submit exec history resolved_market = (tr, e')" by fastforce
  have "market_mode resolved_market = Resolved" by code_simp
  from resolution_is_final[OF resolved_rinv(1) this history_typed r] show ?thesis by (simp add: r)
qed

section \<open>The wrapper program\<close>









text \<open>C7: parameters the wrapper's validation accepts never make the engine's initialisation panic: it
  succeeds and yields a live, empty market that satisfies the invariant under those parameters.\<close>

theorem validated_initialisation_succeeds:
  assumes "slab_shape e" "validate_risk_params (MAX_ACCOUNTS e) a px = Ok u" "risk_params_ok a" "in_u64 px" "in_u64 slot"
  shows "\<exists>e'. init_in_place (into_engine_params a) slot px e = (Ok (), e') \<and> inv e' \<and> market_mode e' = Live \<and> vault e' = 0
     \<and> params e' = into_engine_params a \<and> (\<forall>i. \<not> is_used e' i)"
  by (rule validated_init[OF assms])

theorem validated_initialisation_succeeds_witness:
  "\<exists>e'. init_in_place (into_engine_params sample_args) 6 1000 sample = (Ok (), e') \<and> inv e'"
proof -
  have "validate_risk_params (MAX_ACCOUNTS sample) sample_args 1000 = Ok ()" by code_simp
  moreover have "risk_params_ok sample_args"
    by (simp add: risk_params_ok_def sample_args_def in_u64_def in_u128_def bounds)
  ultimately show ?thesis
    using validated_initialisation_succeeds[OF sample_shape, of sample_args 1000 "()" 6] by (auto simp: in_u64_def bounds)
qed

text \<open>C8: a price the wrapper accepts is in the range of the engine, whatever bytes the feed account
  holds and whatever the slot is.\<close>

theorem accepted_prices_are_typed:
  "okR (read_oracle_price a slot) (\<lambda>px. 0 < px \<and> px \<le> MAX_ORACLE_PRICE)"
  by (rule read_oracle_price_okR)

text \<open>C9: the collection scan of the crank always returns, whatever its length, its cursor and the
  state of a sound market; no panic of the reclaim it calls can escape, and the funds stay put.\<close>

theorem collection_scan_returns:
  assumes "inv e" "market_mode e = Live" "in_u64 slot" "mx \<le> NIL"
  shows "\<exists>c n' e'. crank_scan k slot mx cursor n e = (Ok (c, n'), e') \<and> vault_moved e 0 e'"
  by (rule crank_scan_kept[OF assms])

theorem collection_scan_returns_witness: "\<exists>c n' e'. crank_scan 4 6 4 0 0 sample = (Ok (c, n'), e') \<and> vault_moved sample 0 e'"
  by (rule collection_scan_returns[OF sample_inv sample_market(2)]) (simp_all add: in_u64_def NIL_def bounds)

text \<open>C10: an account the crank finds eligible is reclaimed whenever the engine accepts the slot of the
  clock: its slot is emptied, no funds leave the vault and no other account changes. When the clock is
  refused nothing has changed.\<close>

theorem eligible_accounts_are_reclaimed:
  assumes "inv e" "market_mode e = Live" "gc_eligible e i" "in_u64 now"
  shows "if live_clock now e = Ok ()
     then \<exists>e'. reclaim_empty_account_not_atomic i now e = (Ok (), e') \<and> vault_moved e 0 e' \<and> account_closed i 0 e e'
     else \<exists>x. reclaim_empty_account_not_atomic i now e = (Err x, e)"
  by (rule reclaim_exact[OF assms])

theorem eligible_accounts_are_reclaimed_witness:
  "\<exists>e'. reclaim_empty_account_not_atomic 0 7 drained = (Ok (), e') \<and> account_closed 0 0 drained e'"
proof -
  have "in_u64 7" by (simp add: in_u64_def bounds)
  from eligible_accounts_are_reclaimed[OF drained_inv drained_run(2) this] show ?thesis
    unfolding if_P[OF drained_run(6)] by blast
qed



section \<open>Accrual and the haircut\<close>

text \<open>C12: a successful accrual is exact: K moves by the side multiplier times the price change
  (long up, short down), F by the side multiplier times premium price, rate and elapsed slots (long
  pays, short receives), the checkpoints advance, and the inputs were in range.\<close>

theorem accrual_is_exact:
  assumes "market_typed e" "in_u64 now" "0 \<le> px"
  shows "okP (accrue_market_to now px rate e) (\<lambda>_ e'. e' = accrued now px rate e \<and> market_typed e'
     \<and> market_mode e = Live \<and> 0 < px \<and> px \<le> MAX_ORACLE_PRICE
     \<and> \<bar>rate\<bar> \<le> max_abs_funding_e9_per_slot (params e) \<and> current_slot e \<le> now \<and> last_market_slot e \<le> now)"
  by (rule accrue_spec[OF assms])

theorem accrual_is_exact_witness:
  "okP (accrue_market_to 5 1100 0 sample) (\<lambda>_ e'. e' = accrued 5 1100 0 sample)"
proof -
  have "okP (accrue_market_to 5 1100 0 sample) (\<lambda>_ e'. e' = accrued 5 1100 0 sample \<and> market_typed e'
     \<and> market_mode sample = Live \<and> 0 < (1100 :: int) \<and> 1100 \<le> MAX_ORACLE_PRICE
     \<and> \<bar>0 :: int\<bar> \<le> max_abs_funding_e9_per_slot (params sample) \<and> current_slot sample \<le> 5
     \<and> last_market_slot sample \<le> 5)"
    by (rule accrual_is_exact[OF sample_market(1)]) (simp_all add: in_u64_def bounds)
  then show ?thesis by (rule okP_mono) blast
qed

text \<open>C13: in a live market the effective matured PnL of every slot is computed without panic and
  never exceeds the slot's matured PnL, and all of them together never exceed what the vault holds
  beyond capital and insurance.\<close>

theorem haircut_is_fair:
  assumes "pnl_inv e" "market_mode e = Live" "0 \<le> ins_bal e"
  shows "(\<forall>i < MAX_ACCOUNTS e. \<exists>x. effective_matured_pnl i e = Ok x \<and> 0 \<le> x \<and> x \<le> matp (accounts e ! i))
     \<and> (\<Sum>i \<leftarrow> [0..<MAX_ACCOUNTS e]. ok_value (effective_matured_pnl i e)) \<le> residual e"
  by (rule effective_fits[OF assms])

theorem haircut_is_fair_witness:
  "(\<Sum>i \<leftarrow> [0..<MAX_ACCOUNTS sample]. ok_value (effective_matured_pnl i sample)) \<le> residual sample"
proof -
  have "0 \<le> ins_bal sample" by (simp add: sample_market)
  from haircut_is_fair[OF sample_pnl_inv sample_market(2) this] show ?thesis by (rule conjunct2)
qed

text \<open>C14: an accrual that fails leaves the engine exactly as it was, and no accrual panics, whatever
  the state and the arguments.\<close>

theorem accrual_fails_safe:
  "case accrue_market_to now px rate e of
     (Ok u, e') \<Rightarrow> True | (Err x, e') \<Rightarrow> e' = e | (Panic, e') \<Rightarrow> False"
  using accrue_atomic[of now px rate e] accrue_no_panic[of now px rate e]
  by (auto split: prod.splits res.splits)

section \<open>Money in and out\<close>

text \<open>C15: a deposit in a market that satisfies the invariant keeps it, adds exactly the amount to the
  vault and to the equity of the slot (materialising a vacant slot only for the minimum deposit),
  and changes no other account.\<close>

theorem deposit_is_exact:
  assumes "inv e" "in_u64 now" "0 \<le> amount"
  shows "okP (deposit_not_atomic i amount now e) (\<lambda>_ e'. inv e' \<and> deposited i amount now e e')"
  by (rule deposit_spec[OF assms])

theorem deposit_is_exact_witness:
  "deposited 0 100000 5 sample one_trader \<and> deposited 1 100000 5 one_trader two_traders"
proof -
  have t: "in_u64 5" "(0 :: int) \<le> 100000" by (simp_all add: in_u64_def bounds)
  show ?thesis
    using okP_run[OF deposit_is_exact[OF sample_inv t] deposit_runs(1)]
      okP_run[OF deposit_is_exact[OF two_traders_inv(1) t] deposit_runs(2)]
    by (simp add: one_trader_def two_traders_def)
qed

text \<open>C16: a withdrawal keeps the invariant, pays exactly the amount out of the vault, leaves the
  slot with no capital or at least the minimum deposit, and changes no other account.\<close>

theorem withdrawal_is_exact:
  assumes "inv e" "in_u64 now" "0 \<le> px" "0 \<le> lo" "0 \<le> hi" "0 \<le> amount"
  shows "okP (withdraw_not_atomic i amount px now rate lo hi e) (\<lambda>_ e'. inv e' \<and> withdrawn i amount e e')"
  by (rule withdraw_spec[OF assms])

theorem withdrawal_is_exact_witness:
  "withdrawn 0 5000 open_market (snd (withdraw_not_atomic 0 5000 1000 7 0 1 100 open_market))"
proof -
  have t: "in_u64 7" by (simp add: in_u64_def bounds)
  show ?thesis
    using okP_run[OF withdrawal_is_exact[OF open_market_inv t] withdraw_runs] by simp
qed

section \<open>Trading\<close>

text \<open>C17: the core of a trade moves the two positions by exactly the size, in opposite directions,
  and the two equities by exactly the trade PnL at the oracle price, floored, less at most the fee
  each; the insurance fund gains no more than the two accounts lose, the open interest stays equal
  on the two sides and within its limit and does not grow on a draining side, and each account that
  keeps a position meets its margin rule.\<close>

theorem trade_is_bilateral:
  assumes "good e" "a \<noteq> b" "mode_ok (params e) (ctx_mode c)"
  shows "okP (trade_core a b px q xp c e) (\<lambda>c' e'. ctx_rel c c' \<and> traded a b px q xp e e')"
  by (rule trade_core_spec[OF assms])

theorem trade_is_bilateral_witness:
  "traded 0 1 1000 900000000 1000 two_traders
     (snd (trade_core 0 1 1000 900000000 1000 (new_with_admission 1 100) two_traders))"
proof -
  have "mode_ok (params two_traders) (ctx_mode (new_with_admission 1 100))"
    using two_traders_params
    by (simp add: mode_ok_def horizon_ok_def new_with_admission_def sample_params_def)
  then have c: "okP (trade_core 0 1 1000 900000000 1000 (new_with_admission 1 100) two_traders)
      (\<lambda>c' e'. ctx_rel (new_with_admission 1 100) c' \<and> traded 0 1 1000 900000000 1000 two_traders e')"
    using trade_is_bilateral[OF inv_D(2)[OF two_traders_inv(2)], of 0 1] by simp
  obtain c' where "fst (trade_core 0 1 1000 900000000 1000 (new_with_admission 1 100) two_traders) = Ok c'"
    using trade_core_runs by (cases "fst (trade_core 0 1 1000 900000000 1000 (new_with_admission 1 100) two_traders)") auto
  from okP_run[OF c this] show ?thesis by blast
qed

text \<open>C18: a whole trade instruction keeps the invariant and changes no account but the two.\<close>

theorem trade_keeps_invariant:
  assumes "inv e" "in_u64 now" "0 \<le> px" "0 \<le> lo" "0 \<le> hi"
  shows "okP (execute_trade_not_atomic a b px now q xp rate lo hi e)
     (\<lambda>_ e'. inv e' \<and> stage {a, b} e e' \<and> is_used e a \<and> is_used e b \<and> a \<noteq> b \<and> 0 < q)"
  by (rule execute_trade_spec[OF assms])

theorem trade_keeps_invariant_witness: "inv open_market \<and> vault open_market = vault two_traders"
proof -
  have t: "in_u64 6" by (simp add: in_u64_def bounds)
  show ?thesis
    using okP_run[OF trade_keeps_invariant[OF two_traders_inv(2) t] trade_runs]
      stage_D(2)[of "{0, 1}" two_traders open_market]
    by (simp add: open_market_def)
qed

section \<open>Liquidation\<close>

text \<open>C19: a liquidation acts only on an open account that is not above its maintenance margin; a
  partial one leaves exactly the rest of the position, above maintenance; a full one leaves the
  account flat and without loss. The insurance fund pays the deficit down to its floor and no
  further, and no other account changes; otherwise the call changes nothing.\<close>

theorem liquidation_is_justified:
  assumes "good e" "policy_typed policy"
  shows "okP (liquidate_at_oracle_internal i px policy ctx e) (\<lambda>(b, ctx') e'. ctx_sim ctx ctx'
     \<and> (b \<longrightarrow> liquidated i px policy e e') \<and> (\<not> b \<longrightarrow> e' = e))"
  by (rule liquidate_internal_spec[OF assms])

theorem liquidation_is_justified_witness:
  "liquidated 0 920 FullClose under_water
     (snd (liquidate_at_oracle_internal 0 920 FullClose (new_with_admission 1 100) under_water))"
proof -
  let ?m = "liquidate_at_oracle_internal 0 920 FullClose (new_with_admission 1 100) under_water"
  obtain c where r: "fst ?m = Ok (True, c)"
    using under_water_runs(3) by (cases "fst ?m") auto
  show ?thesis
    using okP_run[OF liquidation_is_justified[OF under_water_good] r] by (simp add: policy_typed_def)
qed

text \<open>C20: the keeper crank, on an untrusted candidate list, keeps the invariant, changes no account
  outside the list and liquidates no more accounts than its budget.\<close>

theorem crank_is_contained:
  assumes "inv e" "in_u64 now" "0 \<le> px" "0 \<le> lo" "0 \<le> hi" "\<And>j p. (j, Some p) \<in> set cs \<Longrightarrow> policy_typed p"
  shows "okP (keeper_crank_not_atomic now px cs m rate lo hi e) (\<lambda>out e'. inv e'
     \<and> stage {j. j \<in> fst ` set cs \<and> is_used e j} e e' \<and> int (num_liquidations out) \<le> max 0 m)"
  by (rule crank_spec[OF assms])

theorem crank_is_contained_witness:
  "inv (snd (keeper_crank_not_atomic 8 920 [(1, Some FullClose), (0, Some FullClose)] 5 0 1 100 open_market))"
proof -
  have t: "in_u64 8" by (simp add: in_u64_def bounds)
  have p: "\<And>j p. (j, Some p) \<in> set [(1 :: nat, Some FullClose), (0, Some FullClose)] \<Longrightarrow> policy_typed p"
    by (auto simp: policy_typed_def)
  show ?thesis
    using okP_run[OF crank_is_contained[OF open_market_inv t _ _ _ p] crank_runs] by simp
qed

section \<open>Resolution\<close>

text \<open>C21: resolving a live market freezes it: it keeps every account and every fund, closes the open
  interest of both sides, opens a new epoch on each side with every stored position stale, records
  the settlement price (in the ordinary mode within the allowed deviation of the live price) and adds
  exactly the price difference times the side index to the terminal mark of each side.\<close>

theorem resolution_freezes:
  assumes "inv e" "in_u64 now" "0 \<le> px"
  shows "okP (resolve_market_not_atomic mode res px now rate e) (\<lambda>_ e'. rinv e' \<and> market_mode e = Live
     \<and> market_resolved mode res px now e e')"
  by (rule resolve_spec[OF assms])

theorem resolution_freezes_witness: "market_resolved Ordinary 960 990 9 open_market resolved_market"
proof -
  have T: "in_u64 9" "(0 :: int) \<le> 990" by (simp_all add: in_u64_def bounds)
  show ?thesis
    using okP_run[OF resolution_freezes[OF open_market_inv T] resolution_runs(1)] by (simp add: resolved_market_def)
qed

text \<open>C22: reconciling an account of a resolved market makes it flat at its terminal PnL, pays a loss
  from its capital, charges the insurance fund, above its floor only, with the rest, and leaves the
  market and every other account as they were.\<close>

theorem reconciliation_is_exact:
  assumes "rinv e"
  shows "okP (reconcile_resolved_not_atomic i e) (\<lambda>_ e'. rinv e' \<and> market_mode e = Resolved
     \<and> is_used e i \<and> i < MAX_ACCOUNTS e \<and> reconciled i e e')"
  by (rule reconcile_spec[OF assms])

theorem reconciliation_is_exact_witness: "reconciled 1 half_settled all_flat"
  using okP_run[OF reconciliation_is_exact[OF resolved_rinv(2)] resolution_runs(3)]
  by (simp add: all_flat_def)

text \<open>C23: a terminal close pays exactly the capital, the haircut claim on the terminal profit and the
  fee credits (never less than nothing), empties the slot, and leaves the remaining claims covered;
  it pays a profit only when the haircut has been fixed.\<close>

theorem terminal_close_is_exact:
  assumes "rinv e"
  shows "okP (close_resolved_terminal_not_atomic i e) (\<lambda>cap e'. rinv e' \<and> market_mode e = Resolved
     \<and> terminally_closed i cap e e' \<and> (0 < pnl (accounts e ! i) \<longrightarrow> resolved_payout_ready e' \<noteq> 0))"
  by (rule close_terminal_spec[OF assms])

theorem terminal_close_is_exact_witness:
  "terminally_closed 1 135100 all_flat (snd (close_resolved_terminal_not_atomic 1 all_flat))"
  using okP_run[OF terminal_close_is_exact[OF resolved_rinv(3)] closing_runs(1)] by simp

text \<open>C24: a forced close reconciles the account; then it either closes it with the exact payment, or,
  when the account has a profit and the market is not ready for payouts, reports progress only and
  leaves the reconciled account in place.\<close>

theorem force_close_is_exact:
  assumes "rinv e"
  shows "okP (force_close_resolved_not_atomic i e) (\<lambda>r e'. rinv e' \<and> market_mode e = Resolved
     \<and> is_used e i \<and> force_closed i r e e')"
  by (rule force_close_spec[OF assms])

theorem force_close_is_exact_witness:
  "force_closed 1 ProgressOnly resolved_market (snd (force_close_resolved_not_atomic 1 resolved_market))
   \<and> force_closed 0 (Closed 63100) resolved_market (snd (force_close_resolved_not_atomic 0 resolved_market))"
  using okP_run[OF force_close_is_exact[OF resolved_rinv(1)] closing_runs(2)]
    okP_run[OF force_close_is_exact[OF resolved_rinv(1)] closing_runs(3)] by simp

section \<open>Closing and converting in a live market\<close>



text \<open>C26: converting matured profit into capital takes exactly the haircut of the converted amount
  out of the equity of the account, never more than its matured profit, and leaves the position, the
  market and the other accounts alone.\<close>

theorem conversion_is_exact:
  assumes "good e" "market_mode e = Live" "0 \<le> x"
  shows "okP (convert_requested i x px e) (\<lambda>_ e'. i < MAX_ACCOUNTS e \<and> lstage i e e' \<and> 0 < x
     \<and> x \<le> matp (accounts e ! i)
     \<and> eqm (accounts e' ! i) = eqm (accounts e ! i) - (x - x * fst (haircut_ratio e) div snd (haircut_ratio e))
     \<and> position_basis_q (accounts e' ! i) = position_basis_q (accounts e ! i))"
  by (rule convert_requested_spec[OF assms])

theorem conversion_is_exact_witness:
  "(100 :: int) \<le> matp (accounts matured_market ! 1)
   \<and> lstage 1 matured_market (snd (convert_requested 1 100 990 matured_market))"
proof -
  have "market_mode matured_market = Live" by code_simp
  from okP_run[OF conversion_is_exact[OF inv_D(2)[OF matured_inv] this] matured_convert]
  show ?thesis by simp
qed

section \<open>Losses, insurance and deleveraging\<close>

text \<open>C27: settling the losses of an account takes them from its capital only, as far as it reaches,
  and touches neither the insurance fund nor another account.\<close>

theorem losses_are_paid_first:
  assumes "good e"
  shows "okP (settle_losses i e) (\<lambda>_ e'. i < MAX_ACCOUNTS e \<and> lstage i e e' \<and> loss_settled i e e')"
  by (rule settle_losses_spec[OF assms])

theorem losses_are_paid_first_witness:
  "okP (settle_losses 0 open_market) (\<lambda>_ e'. loss_settled 0 open_market e')"
  by (rule okP_mono[OF losses_are_paid_first[OF inv_D(2)[OF open_market_inv]]]) blast

text \<open>C28: deleveraging takes the liquidated size off both sides' open interest or closes both, lets
  the insurance fund, above its floor, pay the deficit first, and can only lower the index and the
  mark of the opposite side; a side whose index falls below its minimum is drained, and the mark
  always leaves room for one more full price move.\<close>

theorem deleveraging_is_bounded:
  assumes "good e" "0 \<le> d" "0 \<le> q"
  shows "okP (enqueue_adl ctx liq q d e) (\<lambda>ctx' e'. ctx_sim ctx ctx' \<and> adl_post liq q d e e')"
  by (rule enqueue_adl_spec[OF assms])

theorem deleveraging_is_bounded_witness:
  "okP (enqueue_adl ctx_new Long 400000000 5000 open_market) (\<lambda>_ e'. adl_post Long 400000000 5000 open_market e')"
  by (rule okP_mono[OF deleveraging_is_bounded[OF inv_D(2)[OF open_market_inv]]]) simp_all

section \<open>The account slab\<close>

text \<open>C29: initialising memory of the right shape, whatever its contents, succeeds exactly for valid
  parameters and an oracle price in range; it then leaves an empty slab whose free list holds every
  slot, and otherwise it panics without touching the memory.\<close>

theorem init_establishes_slab:
  assumes "slab_shape e" "params_typed p"
  shows "(\<exists>e'. init_in_place p slot px e = (Ok (), e') \<and> params_ok (MAX_ACCOUNTS e) p \<and> 0 < px
            \<and> px \<le> MAX_ORACLE_PRICE \<and> slab_ok e' \<and> pnl_inv e' \<and> used_set e' = {} \<and> params e' = p)
      \<or> (init_in_place p slot px e = (Panic, e)
         \<and> \<not> (params_ok (MAX_ACCOUNTS e) p \<and> 0 < px \<and> px \<le> MAX_ORACLE_PRICE))"
  by (rule init_cases[OF assms])

theorem init_establishes_slab_witness:
  "\<exists>e'. init_in_place sample_params 7 1000 sample = (Ok (), e') \<and> slab_ok e'"
proof -
  have "params_ok (MAX_ACCOUNTS sample) sample_params \<and> 0 < (1000 :: int) \<and> 1000 \<le> MAX_ORACLE_PRICE"
    using sample_slab(3) sample_params_ok by (simp add: bounds)
  then show ?thesis
    using init_establishes_slab[OF sample_shape sample_params_typed, where slot = 7 and px = 1000]
    by blast
qed

text \<open>C30: materialising a slot of a well-formed slab succeeds exactly when the slot is unused and
  below the configured account limit; success keeps the slab well formed and marks exactly that
  slot used with a canonical empty account, and an error changes nothing.\<close>

theorem materialize_at_exact:
  assumes "slab_ok e"
  shows "(\<exists>e'. materialize_at i slot e = (Ok (), e') \<and> i < MAX_ACCOUNTS e \<and> \<not> is_used e i
            \<and> int i < max_accounts (params e) \<and> slab_ok e' \<and> used_set e' = insert i (used_set e)
            \<and> accounts e' = (accounts e)[i := empty_account\<lparr> last_fee_slot := slot \<rparr>])
      \<or> (\<exists>x. materialize_at i slot e = (Err x, e)
         \<and> (i < MAX_ACCOUNTS e \<longrightarrow> is_used e i \<or> \<not> int i < max_accounts (params e)))"
  by (rule materialize_cases[OF assms])

theorem materialize_at_exact_witness:
  "\<exists>e'. materialize_at 2 5 sample = (Ok (), e') \<and> used_set e' = {2}"
proof -
  have "used_set sample = {}" "2 < MAX_ACCOUNTS sample" "\<not> is_used sample 2"
    "int 2 < max_accounts (params sample)"
    using sample_slab by (simp_all add: used_set_def sample_params_def)
  then show ?thesis
    using materialize_at_exact[OF sample_slab(1), where i = 2 and slot = 5] by metis
qed

section \<open>Wire formats\<close>

text \<open>C31: the wrapper accepts exactly the bytes its instructions are packed to, for every Borsh
  implementation that satisfies the published laws.\<close>

theorem instructions_round_trip:
  assumes "borsh_codec B"
  shows "unpack B bs = Ok ix \<longleftrightarrow> instruction_ok ix \<and> bs = pack B ix"
  by (rule borsh_codec.unpack_Ok_iff[OF assms])

theorem instructions_round_trip_witness:
  "unpack le_borsh (pack le_borsh (percolator_instruction.Withdraw \<lparr> withdraw_amount = 5000 \<rparr>))
     = Ok (percolator_instruction.Withdraw \<lparr> withdraw_amount = 5000 \<rparr>)"
  by (subst instructions_round_trip[OF le.borsh_codec_axioms]) (simp add: in_u64_def bounds)

text \<open>C32: the slab header read back after a write is the one written, and writing back the header just
  read leaves every byte of the account in place.\<close>

theorem headers_round_trip:
  "(header_typed h \<and> write_into h dst = Ok dst' \<longrightarrow> read_from dst' = Ok h \<and> length dst' = length dst)
     \<and> (read_from src = Ok h \<longrightarrow> header_typed h \<and> write_into h src = Ok src)"
  using header_roundtrip header_read_write by blast

theorem headers_round_trip_witness: "read_from (header_bytes live_header) = Ok live_header"
proof -
  have w: "write_into live_header (header_bytes live_header) = Ok (header_bytes live_header)"
    using write_into_eq[OF live_header_typed, of "header_bytes live_header"] header_bytes_len[OF live_header_typed] by simp
  then show ?thesis using headers_round_trip[of live_header] live_header_typed by blast
qed

section \<open>The oracle program\<close>

text \<open>C33: the ring's median, computed by insertion into a fixed buffer, is the lower median of the
  recorded prices, and no minority of them can move it outside the range of the others: at least half
  of them are at most it, and more than half at least it.\<close>

theorem ring_median_is_the_median:
  assumes "length ring = RING_LEN"
  shows "ring_median ring = (let xs = filter (\<lambda>v. v \<noteq> 0) ring in if xs = [] then None else Some (lower_median xs))
     \<and> (\<forall>m. ring_median ring = Some m \<longrightarrow> m \<in> set ring
          \<and> length (filter (\<lambda>v. v \<noteq> 0) ring) \<le> 2 * length (filter (\<lambda>x. x \<le> m) (filter (\<lambda>v. v \<noteq> 0) ring))
          \<and> length (filter (\<lambda>v. v \<noteq> 0) ring) < 2 * length (filter (\<lambda>x. m \<le> x) (filter (\<lambda>v. v \<noteq> 0) ring)))"
  using ring_median_eq[OF assms] median_majority[of "filter (\<lambda>v. v \<noteq> 0) ring"] by (auto simp: Let_def split: if_splits)

theorem ring_median_is_the_median_witness:
  "ring_median (1000 # replicate 29 0) = Some 1000 \<and> lower_median [1000] = 1000"
proof -
  have l: "length ((1000 :: int) # replicate 29 0) = RING_LEN" by (simp add: RING_LEN_def)
  have f: "filter (\<lambda>v. v \<noteq> 0) ((1000 :: int) # replicate 29 0) = [1000]" by simp
  have "lower_median [1000] = 1000" by (simp add: lower_median_def)
  then show ?thesis using conjunct1[OF ring_median_is_the_median[OF l]] unfolding f by simp
qed

text \<open>C34: an update that succeeds records the instantaneous price of the feed's own source in the next
  place of the ring and publishes the lower median of the recorded prices with the current slot;
  nothing else of the feed or its account changes.\<close>

theorem updates_publish_the_median:
  assumes "in_u64 slot" "sound_feed a"
  shows "okR (process_update prog (Ok slot) (a # s # r))
     (\<lambda>a'. \<exists>f f'. load_feed a = Ok f \<and> feed_is_initialized f \<and> load_feed a' = Ok f' \<and> same_account a a'
        \<and> feed_updated slot s f f' \<and> feed_ok f')"
  by (rule update_spec[OF assms])

theorem updates_publish_the_median_witness:
  "\<exists>a f'. load_feed a = Ok f' \<and> feed_updated 6 source_account sample_feed f'"
proof -
  obtain a where "process_update oracle_key_of (Ok 6) [feed_account, source_account] = Ok a" using update_run by blast
  then have "\<exists>f f'. load_feed feed_account = Ok f \<and> feed_is_initialized f \<and> load_feed a = Ok f' \<and> same_account feed_account a
        \<and> feed_updated 6 source_account f f' \<and> feed_ok f'"
    by (rule okR_D[OF updates_publish_the_median[OF _ feed_account_sound(2)], rotated]) (simp add: in_u64_def bounds)
  then show ?thesis using feed_account_sound(1) by auto
qed

text \<open>C35: over any history of calls of the oracle program the account stays a sound feed (typed, its
  published price positive and equal to the median of its ring), stays initialised, keeps its mint, and
  a graduated feed stays graduated.\<close>

theorem feeds_stay_sound:
  assumes "borsh_codec B" "list_all call_typed cs" "submit (oracle_exec B prog) cs a = (tr, a')" "sound_feed a"
  shows "sound_feed a' \<and> feed_later a a'"
  by (rule borsh_codec.feed_history[OF assms])

theorem feeds_stay_sound_witness: "sound_feed (snd (submit (oracle_exec le_borsh oracle_key_of) [update_call] feed_account))"
proof -
  obtain tr a where r: "submit (oracle_exec le_borsh oracle_key_of) [update_call] feed_account = (tr, a)" by fastforce
  have "list_all call_typed [update_call]" by (simp add: call_typed_def update_call_def in_u64_def bounds)
  from feeds_stay_sound[OF le.borsh_codec_axioms this r feed_account_sound(2)] show ?thesis unfolding r by simp
qed

section \<open>The keeper\<close>

text \<open>C36: whatever the keeper decides is justified by its snapshot: it acts on a fresh price only, names
  as victim a used, open, non-LP slot whose estimated equity is below its requirement and whose bounty,
  by the program's own formula, is worth it, asks for a funding crank, a reset or a collection only
  when there is something to do, and skips only when no slot can be collected.\<close>

theorem decisions_are_justified:
  assumes "slab_shape (snap_engine s)" "0 \<le> funding_staleness_slots s"
  shows "promised s (decide s)"
  by (rule decide_promised[OF assms])

theorem decisions_are_justified_witness: "promised sample_snapshot FundingCrank"
proof -
  have "decide sample_snapshot = FundingCrank" by code_simp
  then show ?thesis
    using decisions_are_justified[of sample_snapshot] sample_shape by (simp add: sample_snapshot_def)
qed

section \<open>Wide arithmetic\<close>

text \<open>C37: the limb-level K-pair kernel, with its 512-bit product and long division, computes exactly the
  engine's specification of it by value, its panics included.\<close>

theorem k_pair_kernel_refines:
  "map_res id sint (wide_signed_mul_div_floor_from_k_pair_w b k0 k1 den)
     = wide_signed_mul_div_floor_from_k_pair (uint b) (sint k0) (sint k1) (uint den)"
  by (rule k_pair_refines)

text \<open>C38: the shift-and-subtract division of 256-bit integers is the integer division with remainder.\<close>

theorem long_division_divides:
  assumes "0 < val256 den"
  shows "\<exists>q r. div_rem_u256 num den = Ok (q, r) \<and> val256 q = val256 num div val256 den \<and> val256 r = val256 num mod val256 den"
  by (rule div_rem_u256_value[OF assms])

theorem long_division_divides_witness:
  "\<exists>q r. div_rem_u256 (u256_from_u128 100) (u256_from_u128 7) = Ok (q, r) \<and> val256 q = 14 \<and> val256 r = 2"
proof -
  have "0 < val256 (u256_from_u128 7)" by (simp add: val256_from)
  from long_division_divides[OF this, of "u256_from_u128 100"] show ?thesis by (simp add: val256_from)
qed

text \<open>C39: the layout the model checker verifies and the layout that runs on chain compute the same
  256-bit products, overflow included.\<close>

theorem layouts_multiply_alike: "map_option limbs (ku_checked_mul x y) = u256_checked_mul (limbs x) (limbs y)"
  by (rule kani_checked_mul)



end
